(* ===== verification/Prelude.thy ===== *)
theory Prelude
  imports Main "HOL-Library.Word"
begin

unbundle bit_operations_syntax

text \<open>
  The vocabulary every other theory shares: machine integer types (\<^verbatim>\<open>include/type.h\<close>), the
  ways a kernel function can fail to return normally, sequencing of such functions, linked
  lists in the process table, and the collections of rewrite rules the components extend.

  C's \<^verbatim>\<open>int\<close> is modelled by \<^typ>\<open>int\<close> (its overflow is undefined behaviour in C, and no
  property below depends on it); the unsigned types are words of their width.
\<close>

section \<open>Machine integers\<close>

type_synonym u8 = "8 word"
type_synonym u16 = "16 word"
type_synonym u32 = "32 word"
type_synonym u64 = "64 word"

section \<open>Outcomes\<close>

text \<open>
  \<open>AssertFail\<close>: the \<^verbatim>\<open>assert\<close> macro called \<^verbatim>\<open>assertion_failure\<close>, which prints and then
  spins or halts for ever. \<open>Panic\<close>: \<^verbatim>\<open>panic\<close> was called; its message starts with
  \<^verbatim>\<open>MAG_CH_PANIC\<close>, on which \<^verbatim>\<open>sys_printx\<close> disables interrupts and halts. \<open>Hang\<close>: a loop of
  the kernel that never ends. \<open>BadAccess\<close>: the C code indexes a table out of its bounds or
  follows a null pointer. None of them returns to the caller.
\<close>

datatype kerror = AssertFail string | Panic string | Hang | BadAccess string

type_synonym 'a res = "kerror + 'a"

definition res_bind :: "'a res \<Rightarrow> ('a \<Rightarrow> 'b res) \<Rightarrow> 'b res" where
  "res_bind r f = (case r of Inl e \<Rightarrow> Inl e | Inr x \<Rightarrow> f x)"

definition assert_c :: "bool \<Rightarrow> string \<Rightarrow> unit res" where
  "assert_c b msg = (if b then Inr () else Inl (AssertFail msg))"

text \<open>A loop whose result is an option: not returning is \<open>Hang\<close>.\<close>

definition of_loop :: "'a option \<Rightarrow> 'a res" where
  "of_loop r = (case r of None \<Rightarrow> Inl Hang | Some x \<Rightarrow> Inr x)"

named_theorems res_simps "sequencing of results"
named_theorems inv_defs "definitions of the components' invariants"
named_theorems op_defs "definitions of the components' operations"

lemma res_bind_Inl [simp, res_simps]: "res_bind (Inl e) f = Inl e"
  by (simp add: res_bind_def)

lemma res_bind_Inr [simp, res_simps]: "res_bind (Inr x) f = f x"
  by (simp add: res_bind_def)

lemma res_bind_eq_Inr [res_simps]:
  "res_bind r f = Inr y \<longleftrightarrow> (\<exists>x. r = Inr x \<and> f x = Inr y)"
  by (cases r) auto

lemma res_bindE:
  assumes "res_bind r f = Inr y"
  obtains x where "r = Inr x" "f x = Inr y"
  using assms by (cases r) auto

lemma res_bind_eq_Inl [res_simps]:
  "res_bind r f = Inl e \<longleftrightarrow> r = Inl e \<or> (\<exists>x. r = Inr x \<and> f x = Inl e)"
  by (cases r) auto

lemma res_bind_assert [simp, res_simps]:
  "res_bind (assert_c b msg) f = (if b then f () else Inl (AssertFail msg))"
  by (simp add: assert_c_def)

lemma assert_c_eq_Inr [simp, res_simps]: "assert_c b msg = Inr u \<longleftrightarrow> b"
  by (simp add: assert_c_def)

lemma of_loop_simps [simp, res_simps]:
  "of_loop None = Inl Hang" "of_loop (Some x) = Inr x"
  "of_loop r = Inr x \<longleftrightarrow> r = Some x"
  by (auto simp: of_loop_def split: option.splits)

lemma res_bind_cong [fundef_cong]:
  "r = r' \<Longrightarrow> (\<And>x. r' = Inr x \<Longrightarrow> f x = g x) \<Longrightarrow> res_bind r f = res_bind r' g"
  by (cases r) auto

lemma res_bind_id [simp]: "res_bind r Inr = r"
  by (cases r) auto

lemma res_bind_assoc: "res_bind (res_bind r f) g = res_bind r (\<lambda>x. res_bind (f x) g)"
  by (cases r) auto

text \<open>The only way to fail is a failed assertion: no endless loop and no access out of bounds.\<close>

definition only_asserts :: "'a res \<Rightarrow> bool" where
  "only_asserts r \<longleftrightarrow> (\<forall>e. r = Inl e \<longrightarrow> (\<exists>msg. e = AssertFail msg))"

named_theorems asserts "operations that fail by assertions only"

lemma only_asserts_Inr [simp, asserts]: "only_asserts (Inr x)"
  by (simp add: only_asserts_def)

lemma only_asserts_AssertFail [simp, asserts]: "only_asserts (Inl (AssertFail msg))"
  by (simp add: only_asserts_def)

lemma only_asserts_assert [simp, asserts]: "only_asserts (assert_c b msg)"
  by (simp add: assert_c_def)

lemma only_asserts_bind [asserts]:
  "only_asserts r \<Longrightarrow> (\<And>x. r = Inr x \<Longrightarrow> only_asserts (f x)) \<Longrightarrow> only_asserts (res_bind r f)"
  by (cases r) (auto simp: only_asserts_def)

lemma only_asserts_no_hang: "only_asserts r \<Longrightarrow> r \<noteq> Inl Hang"
  by (auto simp: only_asserts_def)

text \<open>A property of the result, if there is one.\<close>

definition res_all :: "('a \<Rightarrow> bool) \<Rightarrow> 'a res \<Rightarrow> bool" where
  "res_all P r = (case r of Inl e \<Rightarrow> True | Inr x \<Rightarrow> P x)"

lemma res_all_Inl [simp]: "res_all P (Inl e)"
  by (simp add: res_all_def)

lemma res_all_Inr [simp]: "res_all P (Inr x) = P x"
  by (simp add: res_all_def)

lemma res_all_bind [simp]: "res_all P (res_bind r f) = res_all (\<lambda>x. res_all P (f x)) r"
  by (cases r) simp_all

lemma res_all_mono: "res_all P r \<Longrightarrow> (\<And>x. P x \<Longrightarrow> Q x) \<Longrightarrow> res_all Q r"
  by (cases r) simp_all

lemma res_all_if [simp]: "res_all P (if b then r else s) = (if b then res_all P r else res_all P s)"
  by simp

lemma res_allD: "res_all P r \<Longrightarrow> r = Inr x \<Longrightarrow> P x"
  by simp

section \<open>Sums\<close>

lemma sum_change:
  fixes f g :: "'a \<Rightarrow> int"
  assumes "finite A" "a \<in> A" "\<And>x. x \<in> A \<Longrightarrow> x \<noteq> a \<Longrightarrow> g x = f x"
  shows "sum g A = sum f A - f a + g a"
proof -
  have "sum g (A - {a}) = sum f (A - {a})"
    using assms(3) by (intro sum.cong) auto
  then show ?thesis
    using sum.remove [OF assms(1,2), of f] sum.remove [OF assms(1,2), of g] by simp
qed

section \<open>Numbers that fit\<close>

lemma uint_of_int_small:
  "0 \<le> x \<Longrightarrow> x < 2 ^ LENGTH('a) \<Longrightarrow> uint (word_of_int x :: 'a::len word) = x"
  by (simp add: uint_word_of_int)

lemma unat_add_small: "unat x + unat y < 2 ^ 32 \<Longrightarrow> unat (x + y :: u32) = unat x + unat y"
  by (simp add: unat_word_ariths)

lemma unat_sub_small: "unat y \<le> unat x \<Longrightarrow> unat (x - y :: u32) = unat x - unat y"
  by (simp add: unat_sub_if_size word_le_nat_alt)

lemma unat_mult_small: "unat x * unat y < 2 ^ 32 \<Longrightarrow> unat (x * y :: u32) = unat x * unat y"
  by (simp add: unat_word_ariths)

lemmas unat_small = unat_add_small unat_sub_small unat_mult_small

lemma unat_add_nat:
  fixes x :: u32
  assumes "unat x + n \<le> 2 ^ 32" "k < n"
  shows "unat (x + of_nat k) = unat x + k"
proof -
  have "unat (of_nat k :: u32) = k"
    using assms by (simp add: unsigned_of_nat take_bit_nat_eq_self)
  then show ?thesis
    using assms by (subst unat_add_small) simp_all
qed

lemma sint_small: 
  assumes "unat (w :: u32) < 0x80000000"
  shows "sint w = int (unat w)"
proof -
  have e: "uint w = int (unat w)"
    by simp
  have p: "(2 :: int) ^ 31 = 0x80000000"
    by simp
  have "- (2 ^ 31) \<le> int (unat w)" "int (unat w) < 2 ^ 31"
    unfolding p using assms by linarith+
  then have "signed_take_bit 31 (int (unat w)) = int (unat w)"
    by (rule signed_take_bit_int_eq_self)
  then show ?thesis
    unfolding sint_uint e by simp
qed

section \<open>Flag words\<close>

text \<open>Single-bit masks of the flag words (\<^verbatim>\<open>p_flags\<close>, the keyboard flags).\<close>

lemma and_mask_or_cancel:
  fixes f m :: int
  assumes "f AND m = 0"
  shows "(f OR m) AND NOT m = f"
  by (rule bit_eqI) (use assms in \<open>auto simp: bit_simps bit_eq_iff\<close>)

lemma and_not_self [simp]: "(m :: int) AND NOT m = 0"
  by (rule bit_eqI) (auto simp: bit_simps)

section \<open>Linked lists\<close>

text \<open>
  \<open>qpath nxt p qs\<close>: following the link field \<open>nxt\<close> from the pointer \<open>p\<close> visits exactly the
  nodes \<open>qs\<close> and ends at a null pointer.
\<close>

fun qpath :: "('a \<Rightarrow> 'a option) \<Rightarrow> 'a option \<Rightarrow> 'a list \<Rightarrow> bool" where
  "qpath nxt p [] \<longleftrightarrow> p = None"
| "qpath nxt p (x # xs) \<longleftrightarrow> p = Some x \<and> qpath nxt (nxt x) xs"

lemma qpath_None [simp]: "qpath nxt None qs \<longleftrightarrow> qs = []"
  by (cases qs) auto

lemma qpath_Some: "qpath nxt (Some x) qs \<longleftrightarrow> (\<exists>ys. qs = x # ys \<and> qpath nxt (nxt x) ys)"
  by (cases qs) auto

lemma qpath_cong: "(\<And>x. x \<in> set qs \<Longrightarrow> nxt x = nxt' x) \<Longrightarrow> qpath nxt p qs = qpath nxt' p qs"
  by (induction qs arbitrary: p) auto

lemma qpath_upd_notin [simp]: "x \<notin> set qs \<Longrightarrow> qpath (nxt(x := v)) p qs = qpath nxt p qs"
  by (rule qpath_cong) auto

text \<open>Appending a node at the tail; unlinking a node from the middle.\<close>

lemma qpath_append_tail:
  assumes "qpath nxt p (qs @ [t])" "distinct (qs @ [t])" "x \<notin> set (qs @ [t])"
  shows "qpath (nxt(t := Some x, x := None)) p (qs @ [t, x])"
  using assms by (induction qs arbitrary: p) auto

lemma qpath_unlink_mid:
  assumes "qpath nxt p (as @ a # x # bs)" "distinct (as @ a # x # bs)"
  shows "qpath (nxt(a := nxt x, x := v)) p (as @ a # bs)"
  using assms by (induction as arbitrary: p) auto

end
