(* ===== verification/Const.thy ===== *)
theory Const
  imports Prelude
begin

text \<open>
  The preprocessor constants of \<^verbatim>\<open>include/sys/const.h\<close>, \<^verbatim>\<open>proc.h\<close>, \<^verbatim>\<open>protect.h\<close>,
  \<^verbatim>\<open>config.h\<close> and \<^verbatim>\<open>include/stdio.h\<close>. A macro is substituted textually by C, so each is an
  \<^theory_text>\<open>abbreviation\<close>: proofs see the number.
\<close>

section \<open>Process table\<close>

abbreviation (input) NR_TASKS :: int where "NR_TASKS \<equiv> 5"
abbreviation (input) NR_PROCS :: int where "NR_PROCS \<equiv> 32"
abbreviation (input) NR_NATIVE_PROCS :: int where "NR_NATIVE_PROCS \<equiv> 2"
abbreviation (input) NR_TTYS :: int where "NR_TTYS \<equiv> 3"
abbreviation (input) NR_CONSOLES :: int where "NR_CONSOLES \<equiv> 3"

section \<open>Message passing\<close>

abbreviation (input) SEND :: int where "SEND \<equiv> 1"
abbreviation (input) RECEIVE :: int where "RECEIVE \<equiv> 2"
abbreviation (input) BOTH :: int where "BOTH \<equiv> 3"
abbreviation (input) INVALID_DRIVER :: int where "INVALID_DRIVER \<equiv> - 20"
abbreviation (input) INTERRUPT :: int where "INTERRUPT \<equiv> - 10"
abbreviation (input) TASK_SYS :: int where "TASK_SYS \<equiv> 0"
abbreviation (input) TASK_TTY :: int where "TASK_TTY \<equiv> 1"
abbreviation (input) TASK_HD :: int where "TASK_HD \<equiv> 2"
abbreviation (input) TASK_FS :: int where "TASK_FS \<equiv> 3"
abbreviation (input) TASK_MM :: int where "TASK_MM \<equiv> 4"
abbreviation (input) INIT :: int where "INIT \<equiv> 5"
abbreviation (input) ANY :: int where "ANY \<equiv> NR_TASKS + NR_PROCS + 10"
abbreviation (input) NO_TASK :: int where "NO_TASK \<equiv> NR_TASKS + NR_PROCS + 20"

text \<open>Flags of a process: it can run only while all of them are clear.\<close>

abbreviation (input) SENDING :: int where "SENDING \<equiv> 2"
abbreviation (input) RECEIVING :: int where "RECEIVING \<equiv> 4"
abbreviation (input) WAITING :: int where "WAITING \<equiv> 8"
abbreviation (input) HANGING :: int where "HANGING \<equiv> 16"
abbreviation (input) FREE_SLOT :: int where "FREE_SLOT \<equiv> 32"

text \<open>The enumeration \<^verbatim>\<open>msgtype\<close>; the type field of a message is an \<^verbatim>\<open>int\<close>.\<close>

abbreviation (input) HARD_INT :: int where "HARD_INT \<equiv> 1"
abbreviation (input) GET_TICKS :: int where "GET_TICKS \<equiv> 2"
abbreviation (input) GET_PID :: int where "GET_PID \<equiv> 3"
abbreviation (input) GET_RTC_TIME :: int where "GET_RTC_TIME \<equiv> 4"
abbreviation (input) OPEN :: int where "OPEN \<equiv> 5"
abbreviation (input) CLOSE :: int where "CLOSE \<equiv> 6"
abbreviation (input) READ :: int where "READ \<equiv> 7"
abbreviation (input) WRITE :: int where "WRITE \<equiv> 8"
abbreviation (input) LSEEK :: int where "LSEEK \<equiv> 9"
abbreviation (input) STAT :: int where "STAT \<equiv> 10"
abbreviation (input) UNLINK :: int where "UNLINK \<equiv> 11"
abbreviation (input) SUSPEND_PROC :: int where "SUSPEND_PROC \<equiv> 12"
abbreviation (input) RESUME_PROC :: int where "RESUME_PROC \<equiv> 13"
abbreviation (input) EXEC :: int where "EXEC \<equiv> 14"
abbreviation (input) WAIT :: int where "WAIT \<equiv> 15"
abbreviation (input) FORK :: int where "FORK \<equiv> 16"
abbreviation (input) EXIT :: int where "EXIT \<equiv> 17"
abbreviation (input) SYSCALL_RET :: int where "SYSCALL_RET \<equiv> 18"
abbreviation (input) DEV_OPEN :: int where "DEV_OPEN \<equiv> 1001"
abbreviation (input) DEV_CLOSE :: int where "DEV_CLOSE \<equiv> 1002"
abbreviation (input) DEV_READ :: int where "DEV_READ \<equiv> 1003"
abbreviation (input) DEV_WRITE :: int where "DEV_WRITE \<equiv> 1004"
abbreviation (input) DEV_IOCTL :: int where "DEV_IOCTL \<equiv> 1005"

section \<open>Segments and memory layout\<close>

abbreviation (input) DA_32 :: u16 where "DA_32 \<equiv> 0x4000"
abbreviation (input) DA_DRW :: u16 where "DA_DRW \<equiv> 0x92"
abbreviation (input) DA_C :: u16 where "DA_C \<equiv> 0x98"
abbreviation (input) DA_LIMIT_4K :: u16 where "DA_LIMIT_4K \<equiv> 0x8000"
abbreviation (input) DA_LDT :: u16 where "DA_LDT \<equiv> 0x82"
abbreviation (input) LIMIT_4K_SHIFT :: nat where "LIMIT_4K_SHIFT \<equiv> 12"
abbreviation (input) INDEX_LDT_C :: nat where "INDEX_LDT_C \<equiv> 0"
abbreviation (input) INDEX_LDT_RW :: nat where "INDEX_LDT_RW \<equiv> 1"
abbreviation (input) PRIVILEGE_USER :: u16 where "PRIVILEGE_USER \<equiv> 3"
abbreviation (input) PROC_ALLOC_BASE :: int where "PROC_ALLOC_BASE \<equiv> 0xA00000"
abbreviation (input) PROC_DEFAULT_IMG_SIZE :: int where "PROC_DEFAULT_IMG_SIZE \<equiv> 0x100000"
abbreviation (input) PROC_ORIGIN_STACK :: int where "PROC_ORIGIN_STACK \<equiv> 0x400"
abbreviation (input) LDT_SIZE :: nat where "LDT_SIZE \<equiv> 256"

abbreviation (input) PRIVILEGE_TASK :: u16 where "PRIVILEGE_TASK \<equiv> 1"
abbreviation (input) PRIVILEGE_KRNL :: u8 where "PRIVILEGE_KRNL \<equiv> 0"
abbreviation (input) PRIVILEGE_USR :: u8 where "PRIVILEGE_USR \<equiv> 3"
abbreviation (input) SA_RPL_MASK :: u32 where "SA_RPL_MASK \<equiv> 0xfffc"
abbreviation (input) SA_RPL1 :: u32 where "SA_RPL1 \<equiv> 1"
abbreviation (input) SA_RPL3 :: u32 where "SA_RPL3 \<equiv> 3"
abbreviation (input) SA_TIL :: u32 where "SA_TIL \<equiv> 4"
abbreviation (input) INDEX_TSS :: nat where "INDEX_TSS \<equiv> 4"
abbreviation (input) INDEX_LDT_FIRST :: nat where "INDEX_LDT_FIRST \<equiv> 5"
abbreviation (input) GDT_SIZE :: nat where "GDT_SIZE \<equiv> 128"
abbreviation (input) SELECTOR_KERNEL_CS :: u16 where "SELECTOR_KERNEL_CS \<equiv> 8"
abbreviation (input) SELECTOR_KERNEL_DS :: u16 where "SELECTOR_KERNEL_DS \<equiv> 16"
abbreviation (input) SELECTOR_KERNEL_GS :: u16 where "SELECTOR_KERNEL_GS \<equiv> 24 + 3"
abbreviation (input) DA_386TSS :: u16 where "DA_386TSS \<equiv> 0x89"
abbreviation (input) DA_386IGate :: u8 where "DA_386IGate \<equiv> 0x8E"
abbreviation (input) NR_FILES :: nat where "NR_FILES \<equiv> 64"
abbreviation (input) NR_IRQS :: int where "NR_IRQS \<equiv> 16"

text \<open>\<^verbatim>\<open>sizeof(TSS)\<close>: 25 words of 32 bits and two of 16.\<close>

abbreviation (input) TSS_BYTES :: u16 where "TSS_BYTES \<equiv> 104"

section \<open>Ports of the interrupt controllers\<close>

abbreviation (input) INT_M_CTL :: u16 where "INT_M_CTL \<equiv> 0x20"
abbreviation (input) INT_M_CTLMASK :: u16 where "INT_M_CTLMASK \<equiv> 0x21"
abbreviation (input) INT_S_CTL :: u16 where "INT_S_CTL \<equiv> 0xA0"
abbreviation (input) INT_S_CTLMASK :: u16 where "INT_S_CTLMASK \<equiv> 0xA1"

end
