(* ===== verification/Protect.thy ===== *)
theory Protect
  imports Const
begin

text \<open>
  Segment descriptors: \<^verbatim>\<open>include/sys/protect.h\<close>, \<^verbatim>\<open>init_descriptor\<close> and \<^verbatim>\<open>seg2addr\<close> of
  \<^verbatim>\<open>kernel/protect.c\<close>, and the macro \<^verbatim>\<open>reassembly\<close>. The 386 scatters the base (32 bits) and
  the limit (20 bits) of a segment over an 8-byte descriptor; the lemmas show that packing and
  unpacking agree.
\<close>

section \<open>Descriptors\<close>

record DESCRIPTOR =
  limit_low :: u16
  base_low :: u16
  base_mid :: u8
  attrl :: u8
  limit_high_attr2 :: u8
  base_high :: u8

definition init_descriptor :: "DESCRIPTOR \<Rightarrow> u32 \<Rightarrow> u32 \<Rightarrow> u16 \<Rightarrow> DESCRIPTOR" where
  "init_descriptor pDes base limit attr = pDes\<lparr>
     limit_low := ucast (limit AND 0xffff),
     base_low := ucast (base AND 0xffff),
     base_mid := ucast (drop_bit 16 base AND 0xff),
     attrl := ucast (attr AND 0xff),
     limit_high_attr2 := ucast (drop_bit 8 attr AND 0xf0) OR ucast (drop_bit 16 limit AND 0xf),
     base_high := ucast (drop_bit 24 base AND 0xff)\<rparr>"

text \<open>The base of a segment, as \<^verbatim>\<open>seg2addr\<close> and \<^verbatim>\<open>ldt_seg_linear\<close> assemble it.\<close>

definition descriptor_base :: "DESCRIPTOR \<Rightarrow> u32" where
  "descriptor_base d =
     push_bit 24 (ucast (base_high d)) OR push_bit 16 (ucast (base_mid d)) OR ucast (base_low d)"

definition seg2addr :: "(u16 \<Rightarrow> DESCRIPTOR) \<Rightarrow> u16 \<Rightarrow> u32" where
  "seg2addr gdt seg =
     (let pDes = gdt (drop_bit 3 seg)
      in ucast (base_low pDes) OR push_bit 16 (ucast (base_mid pDes))
         OR push_bit 24 (ucast (base_high pDes)))"

definition reassembly :: "u32 \<Rightarrow> nat \<Rightarrow> u32 \<Rightarrow> nat \<Rightarrow> u32 \<Rightarrow> u32" where
  "reassembly high high_shift mid mid_shift low =
     push_bit high_shift high + push_bit mid_shift mid + low"

section \<open>Unpacking what was packed\<close>

text \<open>The fields that \<^verbatim>\<open>do_fork\<close> reads back from a descriptor.\<close>

abbreviation (input) descriptor_limit :: "DESCRIPTOR \<Rightarrow> u32" where
  "descriptor_limit d \<equiv>
     reassembly 0 0 (ucast (limit_high_attr2 d) AND 0xF) 16 (ucast (limit_low d))"

lemma mask_numerals:
  "(0xffff :: 'a::len word) = mask 16" "(0xff :: 'a::len word) = mask 8"
  "(0xf :: 'a::len word) = mask 4"
  by (simp_all add: mask_eq_exp_minus_1)

lemma descriptor_base_init [simp]: "descriptor_base (init_descriptor d base limit attr) = base"
proof (rule bit_word_eqI)
  fix n assume "n < LENGTH(32)"
  then consider "n < 16" | "16 \<le> n" "n < 24" | "24 \<le> n" "n < 32"
    by fastforce
  then show "bit (descriptor_base (init_descriptor d base limit attr)) n = bit base n"
    by cases (auto simp: descriptor_base_def init_descriptor_def mask_numerals bit_simps)
qed

lemma seg2addr_eq_base: "seg2addr gdt seg = descriptor_base (gdt (drop_bit 3 seg))"
  by (simp add: seg2addr_def descriptor_base_def Let_def or.commute or.left_commute)

lemma reassembly_base: 
  "reassembly (ucast (base_high d)) 24 (ucast (base_mid d)) 16 (ucast (base_low d)) =
   descriptor_base d"
proof -
  let ?h = "push_bit 24 (ucast (base_high d)) :: u32"
  let ?m = "push_bit 16 (ucast (base_mid d)) :: u32"
  let ?l = "ucast (base_low d) :: u32"
  have "?h AND ?m = 0"
    by (rule bit_word_eqI) (auto simp: bit_simps dest!: bit_imp_le_length)
  moreover have "(?h OR ?m) AND ?l = 0"
    by (rule bit_word_eqI) (auto simp: bit_simps dest!: bit_imp_le_length)
  ultimately show ?thesis
    by (simp add: reassembly_def descriptor_base_def disjunctive_add_eq_or or.assoc)
qed

lemma descriptor_limit_init:
  assumes "limit < 2 ^ 20"
  shows "descriptor_limit (init_descriptor d base limit attr) = limit"
proof -
  let ?h = "push_bit 16 (ucast (ucast (drop_bit 8 attr AND 0xf0) OR
              ucast (drop_bit 16 limit AND 0xf) :: u8) AND 0xF) :: u32"
  let ?l = "ucast (ucast (limit AND 0xffff) :: u16) :: u32"
  have f0: "(0xf0 :: u16) = push_bit 4 (mask 4)"
    by (simp add: mask_eq_exp_minus_1 push_bit_eq_mult)
  have high: "\<not> bit limit n" if "20 \<le> n" for n
  proof -
    from assms have "take_bit 20 limit = limit"
      by (simp add: unsigned_take_bit_eq word_unat_eq_iff take_bit_nat_eq_self_iff word_less_nat_alt)
    with that show ?thesis
      by (metis bit_take_bit_iff leD)
  qed
  have "?h AND ?l = 0"
    by (rule bit_word_eqI) (auto simp: bit_simps dest!: bit_imp_le_length)
  then have "?h + ?l = ?h OR ?l"
    by (simp add: disjunctive_add_eq_or)
  also have "\<dots> = limit"
  proof (rule bit_word_eqI)
    fix n assume "n < LENGTH(32)"
    then consider "n < 16" | "16 \<le> n" "n < 20" | "20 \<le> n" "n < 32"
      by fastforce
    then show "bit (?h OR ?l) n = bit limit n"
      using high by cases (auto simp: f0 mask_numerals bit_simps)
  qed
  finally show ?thesis
    by (simp add: reassembly_def init_descriptor_def)
qed

end
