(* ===== verification/Globals.thy ===== *)
theory Globals
  imports Protect
begin

text \<open>
  The kernel's data: messages (\<^verbatim>\<open>include/type.h\<close>), the saved registers and the process
  table entry (\<^verbatim>\<open>include/sys/proc.h\<close>), and the global variables of \<^verbatim>\<open>kernel/global.c\<close> that
  the scheduler and the message passing code read and write.

  A pointer to a process table entry is the entry's index; a null pointer is \<open>None\<close>.
  Message buffers are addressed by linear address in \<open>msgmem\<close>: the code only ever copies,
  reads and writes whole messages there, so the memory is one typed heap of messages, and
  buffers that overlap partly are not modelled.
\<close>

section \<open>Messages\<close>

text \<open>
  The union \<^verbatim>\<open>u\<close> of a message is only accessed through its member \<^verbatim>\<open>m3\<close>; the field macros
  of \<^verbatim>\<open>const.h\<close> are given as abbreviations.
\<close>

record MESSAGE =
  source :: int
  mtype :: int
  m3i1 :: int
  m3i2 :: int
  m3i3 :: int
  m3i4 :: int
  m3l1 :: u64
  m3l2 :: u64
  m3p1 :: u32
  m3p2 :: u32

abbreviation (input) FD :: "MESSAGE \<Rightarrow> int" where "FD \<equiv> m3i1"
abbreviation (input) PATHNAME :: "MESSAGE \<Rightarrow> u32" where "PATHNAME \<equiv> m3p1"
abbreviation (input) FLAGS :: "MESSAGE \<Rightarrow> int" where "FLAGS \<equiv> m3i1"
abbreviation (input) NAME_LEN :: "MESSAGE \<Rightarrow> int" where "NAME_LEN \<equiv> m3i2"
abbreviation (input) CNT :: "MESSAGE \<Rightarrow> int" where "CNT \<equiv> m3i2"
abbreviation (input) PROC_NR :: "MESSAGE \<Rightarrow> int" where "PROC_NR \<equiv> m3i3"
abbreviation (input) DEVICE :: "MESSAGE \<Rightarrow> int" where "DEVICE \<equiv> m3i4"
abbreviation (input) BUF :: "MESSAGE \<Rightarrow> u32" where "BUF \<equiv> m3p2"
abbreviation (input) PID :: "MESSAGE \<Rightarrow> int" where "PID \<equiv> m3i2"
abbreviation (input) STATUS :: "MESSAGE \<Rightarrow> int" where "STATUS \<equiv> m3i1"
abbreviation (input) RETVAL :: "MESSAGE \<Rightarrow> int" where "RETVAL \<equiv> m3i1"

text \<open>\<^verbatim>\<open>reset_msg\<close>: every byte of the message is set to zero.\<close>

definition reset_msg :: MESSAGE where
  "reset_msg = \<lparr>source = 0, mtype = 0, m3i1 = 0, m3i2 = 0, m3i3 = 0, m3i4 = 0,
     m3l1 = 0, m3l2 = 0, m3p1 = 0, m3p2 = 0\<rparr>"

section \<open>Processes\<close>

record STACK_FRAME =
  gs :: u32
  fs :: u32
  es :: u32
  ds :: u32
  edi :: u32
  esi :: u32
  ebp :: u32
  kernel_esp :: u32
  ebx :: u32
  edx :: u32
  ecx :: u32
  eax :: u32
  retaddr :: u32
  eip :: u32
  cs :: u32
  eflags :: u32
  esp :: u32
  ss :: u32

record PROCESS =
  regs :: STACK_FRAME
  ldt_sel :: u16
  ldts :: "nat \<Rightarrow> DESCRIPTOR"
  p_ticks :: int
  priority :: int
  p_name :: string
  p_flags :: int
  p_msg :: u32
  p_recvfrom :: int
  p_sendto :: int
  has_int_msg :: int
  q_sending :: "int option"
  next_sending :: "int option"
  p_parent :: int
  exit_status :: int
  filp :: "nat \<Rightarrow> nat option"

text \<open>
  \<^verbatim>\<open>p_name\<close> is the array with all its bytes. As a C string it ends at the first zero byte; \<^verbatim>\<open>strcpy\<close> into it
  stores the characters and a zero and leaves the bytes behind them.
\<close>

definition c_name :: "string \<Rightarrow> string" where
  "c_name a = takeWhile (\<lambda>c. c \<noteq> CHR 0x00) a"

definition copy_name :: "string \<Rightarrow> string \<Rightarrow> string" where
  "copy_name s a = s @ CHR 0x00 # drop (length s + 1) a"

lemma c_name_ends: "CHR 0x00 \<notin> set s \<Longrightarrow> c_name (s @ CHR 0x00 # rest) = s"
  unfolding c_name_def by (subst takeWhile_append2) auto

lemma c_name_copy [simp]: "CHR 0x00 \<notin> set s \<Longrightarrow> c_name (copy_name s a) = s"
  unfolding copy_name_def by (rule c_name_ends)

text \<open>A set bit of the flag word, as the conditions \<^verbatim>\<open>p->p_flags & SENDING\<close> test it.\<close>

definition flag :: "int \<Rightarrow> PROCESS \<Rightarrow> bool" where
  "flag m p \<longleftrightarrow> p_flags p AND m \<noteq> 0"

section \<open>Global variables\<close>

type_synonym proc_tab = "int \<Rightarrow> PROCESS"

record kstate =
  proc_table :: proc_tab
  p_proc_ready :: int
  ticks :: int
  k_reenter :: int
  key_pressed :: int
  msgmem :: "u32 \<Rightarrow> MESSAGE"

definition valid_pid :: "int \<Rightarrow> bool" where
  "valid_pid i \<longleftrightarrow> 0 \<le> i \<and> i < NR_TASKS + NR_PROCS"

definition runnable :: "proc_tab \<Rightarrow> int \<Rightarrow> bool" where
  "runnable pt i \<longleftrightarrow> valid_pid i \<and> p_flags (pt i) = 0"

text \<open>The indices from \<^verbatim>\<open>FIRST_PROC\<close> to \<^verbatim>\<open>LAST_PROC\<close>, in the order the loops visit them.\<close>

definition all_procs :: "int list" where
  "all_procs = [0..NR_TASKS + NR_PROCS - 1]"

lemma set_all_procs [simp]: "i \<in> set all_procs \<longleftrightarrow> valid_pid i"
  by (auto simp: all_procs_def valid_pid_def)

lemma distinct_all_procs [simp]: "distinct all_procs"
  by (simp add: all_procs_def)

lemma valid_pid_not_special:
  "\<not> valid_pid ANY" "\<not> valid_pid NO_TASK" "\<not> valid_pid INTERRUPT"
  by (simp_all add: valid_pid_def)

lemmas valid_pid_not_special_numeral [simp] = valid_pid_not_special [simplified]

lemma valid_pidD: "valid_pid i \<Longrightarrow> i \<noteq> ANY \<and> i \<noteq> NO_TASK \<and> i \<noteq> INTERRUPT"
  by (auto simp: valid_pid_def)

lemma flag_numerals [simp]:
  "p_flags p = 0 \<Longrightarrow> \<not> flag m p"
  "p_flags p = SENDING \<Longrightarrow> flag SENDING p" "p_flags p = SENDING \<Longrightarrow> \<not> flag RECEIVING p"
  "p_flags p = RECEIVING \<Longrightarrow> flag RECEIVING p" "p_flags p = RECEIVING \<Longrightarrow> \<not> flag SENDING p"
  "p_flags p = FREE_SLOT \<Longrightarrow> \<not> flag SENDING p" "p_flags p = FREE_SLOT \<Longrightarrow> \<not> flag RECEIVING p"
  by (simp_all add: flag_def)

lemma finite_valid [simp]: "finite {i. valid_pid i}"
  by (rule finite_subset [of _ "set all_procs"]) auto

end
