(* ===== verification/Sched.thy ===== *)
theory Sched
  imports Globals
begin

text \<open>
  The scheduler of \<^verbatim>\<open>kernel/proc.c\<close>. \<^verbatim>\<open>schedule\<close> repeats: scan the table for the runnable
  process with the most ticks left; when every runnable process has used up its ticks, give
  each runnable process its priority as new ticks and scan again. It returns only if the scan
  finds a process, so it is a partial function.

  The lemmas say when it returns, which process it chooses, and that it changes nothing but
  \<^verbatim>\<open>p_proc_ready\<close> and the ticks of runnable processes.
\<close>

section \<open>The code\<close>

fun sched_scan :: "proc_tab \<Rightarrow> int list \<Rightarrow> int \<Rightarrow> int \<Rightarrow> int \<times> int" where
  "sched_scan pt [] greatest_ticks ready = (greatest_ticks, ready)"
| "sched_scan pt (p # ps) greatest_ticks ready =
     (if p_flags (pt p) = 0 then
        if p_ticks (pt p) > greatest_ticks then sched_scan pt ps (p_ticks (pt p)) p
        else sched_scan pt ps greatest_ticks ready
      else sched_scan pt ps greatest_ticks ready)"

fun sched_refill :: "proc_tab \<Rightarrow> int list \<Rightarrow> proc_tab" where
  "sched_refill pt [] = pt"
| "sched_refill pt (p # ps) =
     (if p_flags (pt p) = 0 then sched_refill (pt(p := (pt p)\<lparr>p_ticks := priority (pt p)\<rparr>)) ps
      else sched_refill pt ps)"

partial_function (option) schedule :: "kstate \<Rightarrow> kstate option" where
  "schedule s =
     (case sched_scan (proc_table s) all_procs 0 (p_proc_ready s) of (greatest_ticks, ready) \<Rightarrow>
        if greatest_ticks \<noteq> 0 then Some (s\<lparr>p_proc_ready := ready\<rparr>)
        else schedule (s\<lparr>p_proc_ready := ready,
                         proc_table := sched_refill (proc_table s) all_procs\<rparr>))"

section \<open>The scan\<close>

lemma sched_scan_ge: "g \<le> fst (sched_scan pt ps g r)"
  by (induction ps arbitrary: g r) (auto intro: order.trans [OF less_imp_le])

text \<open>The scan returns the first process of the list with the greatest number of ticks.\<close>

lemma sched_scan_max:
  "\<forall>p \<in> set ps. p_flags (pt p) = 0 \<longrightarrow> p_ticks (pt p) \<le> fst (sched_scan pt ps g r)"
proof (induction ps arbitrary: g r)
  case (Cons p ps)
  then show ?case
    using sched_scan_ge [of "p_ticks (pt p)" pt ps p] sched_scan_ge [of g pt ps r] by auto
qed simp

lemma sched_scan_same: "fst (sched_scan pt ps g r) = g \<Longrightarrow> snd (sched_scan pt ps g r) = r"
proof (induction ps arbitrary: g r)
  case (Cons p ps)
  then show ?case
    using sched_scan_ge [of "p_ticks (pt p)" pt ps p] by (auto split: if_splits)
qed simp

lemma sched_scan_found:
  assumes "fst (sched_scan pt ps g r) \<noteq> g"
  obtains as c bs where "ps = as @ c # bs" "snd (sched_scan pt ps g r) = c"
    "p_flags (pt c) = 0" "p_ticks (pt c) = fst (sched_scan pt ps g r)"
    "\<forall>p \<in> set as. p_flags (pt p) = 0 \<longrightarrow> p_ticks (pt p) < p_ticks (pt c)"
  using assms
proof (induction ps arbitrary: g r thesis)
  case (Cons p ps)
  let ?better = "p_flags (pt p) = 0 \<and> p_ticks (pt p) > g"
  show ?case
  proof (cases ?better)
    case True
    show ?thesis
    proof (cases "fst (sched_scan pt ps (p_ticks (pt p)) p) = p_ticks (pt p)")
      case True
      with \<open>?better\<close> show ?thesis
        by (intro Cons.prems(1) [of "[]" p ps]) (auto simp: sched_scan_same)
    next
      case False
      then obtain as c bs where "ps = as @ c # bs" "p_flags (pt c) = 0"
        "snd (sched_scan pt ps (p_ticks (pt p)) p) = c"
        "p_ticks (pt c) = fst (sched_scan pt ps (p_ticks (pt p)) p)"
        "\<forall>p \<in> set as. p_flags (pt p) = 0 \<longrightarrow> p_ticks (pt p) < p_ticks (pt c)"
        by (rule Cons.IH [rotated]) blast
      then show ?thesis
        using \<open>?better\<close> False sched_scan_ge [of "p_ticks (pt p)" pt ps p]
        by (intro Cons.prems(1) [of "p # as" c bs]) auto
    qed
  next
    case False
    then have step: "sched_scan pt (p # ps) g r = sched_scan pt ps g r"
      by auto
    with Cons.prems(2) have "fst (sched_scan pt ps g r) \<noteq> g"
      by simp
    then obtain as c bs where c: "ps = as @ c # bs" "p_flags (pt c) = 0"
        "snd (sched_scan pt ps g r) = c" "p_ticks (pt c) = fst (sched_scan pt ps g r)"
        "\<forall>p \<in> set as. p_flags (pt p) = 0 \<longrightarrow> p_ticks (pt p) < p_ticks (pt c)"
      by (rule Cons.IH [rotated]) blast
    with \<open>fst (sched_scan pt ps g r) \<noteq> g\<close> False show ?thesis
      using sched_scan_ge [of g pt ps r]
      by (intro Cons.prems(1) [of "p # as" c bs]) (auto simp: step)
  qed
qed simp

lemma sched_scan_zero_iff:
  "fst (sched_scan pt all_procs 0 r) = 0 \<longleftrightarrow> (\<forall>p. runnable pt p \<longrightarrow> p_ticks (pt p) \<le> 0)"
proof
  assume "fst (sched_scan pt all_procs 0 r) = 0"
  then show "\<forall>p. runnable pt p \<longrightarrow> p_ticks (pt p) \<le> 0"
    using sched_scan_max [of all_procs pt 0 r] by (auto simp: runnable_def)
next
  assume none: "\<forall>p. runnable pt p \<longrightarrow> p_ticks (pt p) \<le> 0"
  show "fst (sched_scan pt all_procs 0 r) = 0"
  proof (rule ccontr)
    assume "fst (sched_scan pt all_procs 0 r) \<noteq> 0"
    then obtain as c bs where "all_procs = as @ c # bs" "p_flags (pt c) = 0"
      "p_ticks (pt c) = fst (sched_scan pt all_procs 0 r)"
      by (rule sched_scan_found) blast
    moreover from this(1) have "valid_pid c"
      by (metis in_set_conv_decomp set_all_procs)
    ultimately show False
      using none sched_scan_ge [of 0 pt all_procs r] \<open>fst (sched_scan pt all_procs 0 r) \<noteq> 0\<close>
      by (fastforce simp: runnable_def)
  qed
qed

section \<open>The refill\<close>

lemma sched_refill_eq:
  "distinct ps \<Longrightarrow> sched_refill pt ps i =
     (if i \<in> set ps \<and> p_flags (pt i) = 0 then (pt i)\<lparr>p_ticks := priority (pt i)\<rparr> else pt i)"
  by (induction ps arbitrary: pt) auto

lemma sched_refill_all:
  "sched_refill pt all_procs i =
     (if runnable pt i then (pt i)\<lparr>p_ticks := priority (pt i)\<rparr> else pt i)"
  by (simp add: sched_refill_eq runnable_def)

text \<open>Two process tables that agree in all but the ticks.\<close>

definition same_but_ticks :: "proc_tab \<Rightarrow> proc_tab \<Rightarrow> bool" where
  "same_but_ticks pt pt' \<longleftrightarrow> (\<forall>i. \<exists>t. pt' i = (pt i)\<lparr>p_ticks := t\<rparr>)"

lemma same_but_ticks_refl [simp, intro]: "same_but_ticks pt pt"
  unfolding same_but_ticks_def
proof
  fix i show "\<exists>t. pt i = (pt i)\<lparr>p_ticks := t\<rparr>"
    by (rule exI [of _ "p_ticks (pt i)"]) simp
qed

lemma same_but_ticks_refill [simp]: "same_but_ticks pt (sched_refill pt all_procs)"
  unfolding same_but_ticks_def
proof
  fix i show "\<exists>t. sched_refill pt all_procs i = (pt i)\<lparr>p_ticks := t\<rparr>"
    by (rule exI [of _ "if runnable pt i then priority (pt i) else p_ticks (pt i)"])
      (simp add: sched_refill_all)
qed

lemma same_but_ticks_fields:
  assumes "same_but_ticks pt pt'"
  shows "p_flags (pt' i) = p_flags (pt i)" "p_msg (pt' i) = p_msg (pt i)"
    "p_recvfrom (pt' i) = p_recvfrom (pt i)" "p_sendto (pt' i) = p_sendto (pt i)"
    "has_int_msg (pt' i) = has_int_msg (pt i)" "q_sending (pt' i) = q_sending (pt i)"
    "next_sending (pt' i) = next_sending (pt i)" "ldts (pt' i) = ldts (pt i)"
    "priority (pt' i) = priority (pt i)" "p_parent (pt' i) = p_parent (pt i)"
    "exit_status (pt' i) = exit_status (pt i)" "filp (pt' i) = filp (pt i)"
    "flag m (pt' i) = flag m (pt i)" "runnable pt' i = runnable pt i"
proof -
  from assms obtain t where "pt' i = (pt i)\<lparr>p_ticks := t\<rparr>"
    by (auto simp: same_but_ticks_def)
  then show "p_flags (pt' i) = p_flags (pt i)" "p_msg (pt' i) = p_msg (pt i)"
    "p_recvfrom (pt' i) = p_recvfrom (pt i)" "p_sendto (pt' i) = p_sendto (pt i)"
    "has_int_msg (pt' i) = has_int_msg (pt i)" "q_sending (pt' i) = q_sending (pt i)"
    "next_sending (pt' i) = next_sending (pt i)" "ldts (pt' i) = ldts (pt i)"
    "priority (pt' i) = priority (pt i)" "p_parent (pt' i) = p_parent (pt i)"
    "exit_status (pt' i) = exit_status (pt i)" "filp (pt' i) = filp (pt i)"
    "flag m (pt' i) = flag m (pt i)" "runnable pt' i = runnable pt i"
    by (simp_all add: flag_def runnable_def)
qed

section \<open>When the loop returns, and with what\<close>

text \<open>
  What a returning call does: the chosen process is runnable, has the most ticks of all
  runnable processes, and comes first in the table among those.
\<close>

definition sched_choice :: "proc_tab \<Rightarrow> int \<Rightarrow> bool" where
  "sched_choice pt c \<longleftrightarrow> runnable pt c \<and> p_ticks (pt c) > 0 \<and>
     (\<forall>p. runnable pt p \<longrightarrow> p_ticks (pt p) \<le> p_ticks (pt c)) \<and>
     (\<forall>p. runnable pt p \<longrightarrow> p < c \<longrightarrow> p_ticks (pt p) < p_ticks (pt c))"

lemma sched_scan_choice:
  assumes "fst (sched_scan pt all_procs 0 r) \<noteq> 0"
  shows "sched_choice pt (snd (sched_scan pt all_procs 0 r))"
  using assms
proof (rule sched_scan_found)
  fix as c bs
  assume split: "all_procs = as @ c # bs" and snd: "snd (sched_scan pt all_procs 0 r) = c"
    and c: "p_flags (pt c) = 0" "p_ticks (pt c) = fst (sched_scan pt all_procs 0 r)"
    and first: "\<forall>p \<in> set as. p_flags (pt p) = 0 \<longrightarrow> p_ticks (pt p) < p_ticks (pt c)"
  have "p \<in> set as" if "valid_pid p" "p < c" for p
  proof -
    have "sorted (as @ c # bs)"
      unfolding split [symmetric] all_procs_def by (rule sorted_upto)
    moreover have "p \<in> set (as @ c # bs)"
      using that(1) by (simp flip: split)
    ultimately show ?thesis
      using that(2) by (auto simp: sorted_append)
  qed
  moreover have "valid_pid c"
    using split by (metis in_set_conv_decomp set_all_procs)
  ultimately show ?thesis
    using c first assms sched_scan_max [of all_procs pt 0 r] sched_scan_ge [of 0 pt all_procs r]
    unfolding sched_choice_def snd runnable_def by auto
qed

definition sched_table :: "proc_tab \<Rightarrow> proc_tab" where
  "sched_table pt = (if \<exists>p. runnable pt p \<and> p_ticks (pt p) > 0 then pt
                     else sched_refill pt all_procs)"

definition can_run :: "proc_tab \<Rightarrow> bool" where
  "can_run pt \<longleftrightarrow> (\<exists>p. runnable pt p \<and> (p_ticks (pt p) > 0 \<or> priority (pt p) > 0))"

lemma schedule_found:
  assumes "\<exists>p. runnable (proc_table s) p \<and> p_ticks (proc_table s p) > 0"
  shows "\<exists>c. schedule s = Some (s\<lparr>p_proc_ready := c\<rparr>) \<and> sched_choice (proc_table s) c"
proof -
  let ?r = "sched_scan (proc_table s) all_procs 0 (p_proc_ready s)"
  from assms have nz: "fst ?r \<noteq> 0"
    by (auto simp: sched_scan_zero_iff not_le)
  then have "schedule s = Some (s\<lparr>p_proc_ready := snd ?r\<rparr>)"
    by (subst schedule.simps) (simp add: case_prod_beta)
  with sched_scan_choice [OF nz] show ?thesis by blast
qed

lemma schedule_refills:
  assumes "\<forall>p. runnable (proc_table s) p \<longrightarrow> p_ticks (proc_table s p) \<le> 0"
  shows "schedule s = schedule (s\<lparr>proc_table := sched_refill (proc_table s) all_procs\<rparr>)"
proof -
  have z: "fst (sched_scan (proc_table s) all_procs 0 (p_proc_ready s)) = 0"
    using assms by (simp add: sched_scan_zero_iff)
  show ?thesis
    by (subst schedule.simps) (simp add: case_prod_beta z sched_scan_same [OF z])
qed

lemma schedule_returns:
  assumes "can_run (proc_table s)"
  shows "\<exists>c. schedule s = Some (s\<lparr>proc_table := sched_table (proc_table s), p_proc_ready := c\<rparr>) \<and>
    sched_choice (sched_table (proc_table s)) c"
proof (cases "\<exists>p. runnable (proc_table s) p \<and> p_ticks (proc_table s p) > 0")
  case True
  then show ?thesis
    using schedule_found [OF True] by (simp add: sched_table_def)
next
  case False
  let ?s = "s\<lparr>proc_table := sched_refill (proc_table s) all_procs\<rparr>"
  from False have "\<forall>p. runnable (proc_table s) p \<longrightarrow> p_ticks (proc_table s p) \<le> 0"
    by (auto simp: not_less)
  then have eq: "schedule s = schedule ?s"
    by (rule schedule_refills)
  from assms False obtain p where "runnable (proc_table s) p" "priority (proc_table s p) > 0"
    by (auto simp: can_run_def)
  then have "\<exists>p. runnable (proc_table ?s) p \<and> p_ticks (proc_table ?s p) > 0"
    by (auto simp: sched_refill_all same_but_ticks_fields [OF same_but_ticks_refill])
  then obtain c where "schedule ?s = Some (?s\<lparr>p_proc_ready := c\<rparr>)" "sched_choice (proc_table ?s) c"
    using schedule_found [of ?s] by blast
  with False eq show ?thesis
    by (auto simp: sched_table_def)
qed

text \<open>Conversely, a call that returns had a process to run.\<close>

lemma schedule_Some_can_run:
  assumes "schedule s = Some s'"
  shows "can_run (proc_table s)"
proof (rule schedule.raw_induct [where P = "\<lambda>s s'. can_run (proc_table s)", OF _ assms])
  fix f s s'
  assume IH: "\<And>s s'. f s = Some s' \<Longrightarrow> can_run (proc_table s)"
    and eq: "(case sched_scan (proc_table s) all_procs 0 (p_proc_ready s) of (g, r) \<Rightarrow>
        if g \<noteq> 0 then Some (s\<lparr>p_proc_ready := r\<rparr>)
        else f (s\<lparr>p_proc_ready := r, proc_table := sched_refill (proc_table s) all_procs\<rparr>)) = Some s'"
  show "can_run (proc_table s)"
  proof (cases "fst (sched_scan (proc_table s) all_procs 0 (p_proc_ready s)) = 0")
    case True
    with eq have "can_run (sched_refill (proc_table s) all_procs)"
      by (auto simp: case_prod_beta dest!: IH)
    then show ?thesis
      by (auto simp: can_run_def sched_refill_all same_but_ticks_fields [OF same_but_ticks_refill]
          split: if_splits)
  next
    case False
    then show ?thesis
      by (auto simp: sched_scan_zero_iff can_run_def not_le)
  qed
qed

lemma sched_table_same [simp]: "same_but_ticks pt (sched_table pt)"
  by (simp add: sched_table_def)

lemma schedule_SomeD:
  assumes "schedule s = Some s'"
  obtains c where "s' = s\<lparr>proc_table := sched_table (proc_table s), p_proc_ready := c\<rparr>"
    "sched_choice (sched_table (proc_table s)) c"
  using schedule_returns [OF schedule_Some_can_run [OF assms]] assms by auto

end
