(* ===== verification/Ipc.thy ===== *)
theory Ipc
  imports Sched
begin

text \<open>
  Message passing between processes: \<^verbatim>\<open>kernel/proc.c\<close>. A process sends and receives by
  rendezvous. A sender whose receiver is not waiting for it is put at the tail of the
  receiver's queue (\<^verbatim>\<open>q_sending\<close>, linked through \<^verbatim>\<open>next_sending\<close>) and blocks; a receiver with
  no suitable sender blocks too. Every assertion of the source is a branch of the model.

  This theory holds the operations only; their properties are in \<^verbatim>\<open>Ipc_Inv\<close> and
  \<^verbatim>\<open>Ipc_Steps\<close>. The prints of \<^verbatim>\<open>deadlock\<close> have no effect on the modelled state and are left
  out.
\<close>

section \<open>Addresses\<close>

definition ldt_seg_linear :: "PROCESS \<Rightarrow> nat \<Rightarrow> u32" where
  "ldt_seg_linear p idx = descriptor_base (ldts p idx)"

definition va2la :: "proc_tab \<Rightarrow> int \<Rightarrow> u32 \<Rightarrow> u32 res" where
  "va2la pt pid va =
     (let la = va + ldt_seg_linear (pt pid) INDEX_LDT_RW
      in if pid < NR_TASKS + NR_NATIVE_PROCS
         then res_bind (assert_c (la = va) ''la == (u32)va'') (\<lambda>_. Inr la)
         else Inr la)"

section \<open>Small operations\<close>

definition upd_proc :: "int \<Rightarrow> (PROCESS \<Rightarrow> PROCESS) \<Rightarrow> kstate \<Rightarrow> kstate" where
  "upd_proc i f s = s\<lparr>proc_table := (proc_table s)(i := f (proc_table s i))\<rparr>"

definition phys_copy_msg :: "u32 \<Rightarrow> u32 \<Rightarrow> kstate \<Rightarrow> kstate" where
  "phys_copy_msg to from s = s\<lparr>msgmem := (msgmem s)(to := msgmem s from)\<rparr>"

definition block :: "int \<Rightarrow> kstate \<Rightarrow> kstate res" where
  "block p s =
     res_bind (assert_c (p_flags (proc_table s p) \<noteq> 0) ''p->p_flags'') (\<lambda>_.
     of_loop (schedule s))"

definition unblock :: "int \<Rightarrow> kstate \<Rightarrow> unit res" where
  "unblock p s = assert_c (p_flags (proc_table s p) = 0) ''0 == p->p_flags''"

text \<open>The four assertions that \<^verbatim>\<open>msg_send\<close> and \<^verbatim>\<open>msg_receive\<close> make about an unblocked process.\<close>

definition assert_idle :: "int \<Rightarrow> kstate \<Rightarrow> unit res" where
  "assert_idle p s =
     res_bind (assert_c (p_flags (proc_table s p) = 0) ''p_flags == 0'') (\<lambda>_.
     res_bind (assert_c (p_msg (proc_table s p) = 0) ''p_msg == 0'') (\<lambda>_.
     res_bind (assert_c (p_recvfrom (proc_table s p) = NO_TASK) ''p_recvfrom == NO_TASK'') (\<lambda>_.
     assert_c (p_sendto (proc_table s p) = NO_TASK) ''p_sendto == NO_TASK'')))"

section \<open>Deadlock detection\<close>

text \<open>
  The report prints the cycle, starting at \<^verbatim>\<open>src\<close>. It follows \<^verbatim>\<open>p_sendto\<close> as an index, so an
  index outside the process table is an access out of bounds.
\<close>

partial_function (option) deadlock_report :: "proc_tab \<Rightarrow> int \<Rightarrow> int \<Rightarrow> int res option" where
  "deadlock_report pt src p =
     (if p_msg (pt p) = 0 then Some (Inl (AssertFail ''p->p_msg''))
      else if \<not> valid_pid (p_sendto (pt p)) then Some (Inl (BadAccess ''proc_table''))
      else if p_sendto (pt p) \<noteq> src then deadlock_report pt src (p_sendto (pt p))
      else Some (Inr 1))"

partial_function (option) deadlock_loop :: "proc_tab \<Rightarrow> int \<Rightarrow> int \<Rightarrow> int res option" where
  "deadlock_loop pt src p =
     (if flag SENDING (pt p) then
        if src = p_sendto (pt p) then deadlock_report pt src src
        else if \<not> valid_pid (p_sendto (pt p)) then Some (Inl (BadAccess ''proc_table''))
        else deadlock_loop pt src (p_sendto (pt p))
      else Some (Inr 0))"

definition deadlock :: "int \<Rightarrow> int \<Rightarrow> kstate \<Rightarrow> int res" where
  "deadlock src dest s =
     res_bind (of_loop (deadlock_loop (proc_table s) src dest)) (\<lambda>r. r)"

section \<open>The queue of senders\<close>

partial_function (option) queue_tail :: "(int \<Rightarrow> int option) \<Rightarrow> int \<Rightarrow> int option" where
  "queue_tail nxt p = (case nxt p of None \<Rightarrow> Some p | Some q \<Rightarrow> queue_tail nxt q)"

abbreviation next_of :: "kstate \<Rightarrow> int \<Rightarrow> int option" where
  "next_of s \<equiv> \<lambda>j. next_sending (proc_table s j)"

definition enqueue_sender :: "int \<Rightarrow> int \<Rightarrow> kstate \<Rightarrow> kstate res" where
  "enqueue_sender sender dst s =
     res_bind
       (case q_sending (proc_table s dst) of
          Some p \<Rightarrow>
            res_bind (of_loop (queue_tail (next_of s) p)) (\<lambda>t.
            Inr (upd_proc t (\<lambda>q. q\<lparr>next_sending := Some sender\<rparr>) s))
        | None \<Rightarrow> Inr (upd_proc dst (\<lambda>q. q\<lparr>q_sending := Some sender\<rparr>) s))
       (\<lambda>s1. Inr (upd_proc sender (\<lambda>q. q\<lparr>next_sending := None\<rparr>) s1))"

text \<open>The predecessor of \<^verbatim>\<open>src\<close> in a queue (the loop over \<^verbatim>\<open>p\<close> and \<^verbatim>\<open>prev\<close> in \<^verbatim>\<open>msg_receive\<close>).\<close>

partial_function (option) find_prev ::
    "(int \<Rightarrow> int option) \<Rightarrow> int \<Rightarrow> int option \<Rightarrow> int option \<Rightarrow> int option option" where
  "find_prev nxt src p prev =
     (case p of None \<Rightarrow> Some prev
      | Some q \<Rightarrow> if q = src then Some prev else find_prev nxt src (nxt q) (Some q))"

definition dequeue_sender :: "int \<Rightarrow> int \<Rightarrow> int option \<Rightarrow> kstate \<Rightarrow> kstate res" where
  "dequeue_sender me p_from prev s =
     (if Some p_from = q_sending (proc_table s me) then
        let s1 = upd_proc me (\<lambda>p. p\<lparr>q_sending := next_sending (proc_table s p_from)\<rparr>) s
        in Inr (upd_proc p_from (\<lambda>p. p\<lparr>next_sending := None\<rparr>) s1)
      else case prev of
          None \<Rightarrow> Inl (AssertFail ''prev'')
        | Some q \<Rightarrow>
            let s1 = upd_proc q (\<lambda>p. p\<lparr>next_sending := next_sending (proc_table s p_from)\<rparr>) s
            in Inr (upd_proc p_from (\<lambda>p. p\<lparr>next_sending := None\<rparr>) s1))"

section \<open>Sending\<close>

definition send_deliver :: "int \<Rightarrow> int \<Rightarrow> u32 \<Rightarrow> kstate \<Rightarrow> kstate res" where
  "send_deliver sender dst m s =
     res_bind (assert_c (p_msg (proc_table s dst) \<noteq> 0) ''p_dst->p_msg'') (\<lambda>_.
     res_bind (assert_c (m \<noteq> 0) ''m'') (\<lambda>_.
     res_bind (va2la (proc_table s) dst (p_msg (proc_table s dst))) (\<lambda>to.
     res_bind (va2la (proc_table s) sender m) (\<lambda>from.
     let s1 = phys_copy_msg to from s;
         s2 = upd_proc dst (\<lambda>p. p\<lparr>p_msg := 0, p_flags := p_flags p AND NOT RECEIVING,
                                 p_recvfrom := NO_TASK\<rparr>) s1
     in res_bind (unblock dst s2) (\<lambda>_.
        res_bind (assert_idle dst s2) (\<lambda>_.
        res_bind (assert_idle sender s2) (\<lambda>_. Inr s2)))))))"

definition mark_sending :: "int \<Rightarrow> int \<Rightarrow> u32 \<Rightarrow> kstate \<Rightarrow> kstate" where
  "mark_sending me dst m s =
     upd_proc me (\<lambda>p. p\<lparr>p_flags := p_flags p OR SENDING, p_sendto := dst, p_msg := m\<rparr>) s"

definition check_sending :: "int \<Rightarrow> int \<Rightarrow> kstate \<Rightarrow> kstate res" where
  "check_sending me dst s =
     (let p = proc_table s me
      in res_bind (assert_c (p_flags p = SENDING) ''sender->p_flags == SENDING'') (\<lambda>_.
         res_bind (assert_c (p_msg p \<noteq> 0) ''sender->p_msg != 0'') (\<lambda>_.
         res_bind (assert_c (p_sendto p = dst) ''sender->p_sendto == dst'') (\<lambda>_.
         res_bind (assert_c (p_recvfrom p = NO_TASK) ''sender->p_recvfrom == NO_TASK'') (\<lambda>_.
         Inr s)))))"

definition send_block :: "int \<Rightarrow> int \<Rightarrow> u32 \<Rightarrow> kstate \<Rightarrow> kstate res" where
  "send_block sender dst m s =
     res_bind (enqueue_sender sender dst (mark_sending sender dst m s)) (\<lambda>s2.
     res_bind (block sender s2) (check_sending sender dst))"

definition receives_from :: "PROCESS \<Rightarrow> int \<Rightarrow> bool" where
  "receives_from p src \<longleftrightarrow> flag RECEIVING p \<and> (p_recvfrom p = ANY \<or> p_recvfrom p = src)"

text \<open>\<^verbatim>\<open>msg_send\<close> returns 0 whenever it returns, so the model returns the new state only.\<close>

definition msg_send :: "int \<Rightarrow> int \<Rightarrow> u32 \<Rightarrow> kstate \<Rightarrow> kstate res" where
  "msg_send sender dst m s =
     res_bind (assert_c (sender \<noteq> dst) ''proc2pid(sender) != dst'') (\<lambda>_.
     if \<not> valid_pid dst then Inl (BadAccess ''proc_table'') else
     res_bind (deadlock sender dst s) (\<lambda>d.
     if d \<noteq> 0 then Inl (Panic ''>>deadlock<<'')
     else if receives_from (proc_table s dst) sender then send_deliver sender dst m s
     else send_block sender dst m s))"

section \<open>Receiving\<close>

definition recv_interrupt :: "int \<Rightarrow> u32 \<Rightarrow> kstate \<Rightarrow> kstate res" where
  "recv_interrupt me m s =
     res_bind (assert_c (m \<noteq> 0) ''m'') (\<lambda>_.
     res_bind (va2la (proc_table s) me m) (\<lambda>to.
     let msg = reset_msg\<lparr>source := INTERRUPT, mtype := HARD_INT\<rparr>;
         s1 = s\<lparr>msgmem := (msgmem s)(to := msg)\<rparr>;
         s2 = upd_proc me (\<lambda>p. p\<lparr>has_int_msg := 0\<rparr>) s1;
         p = proc_table s2 me
     in res_bind (assert_c (p_flags p = 0) ''p_flags == 0'') (\<lambda>_.
        res_bind (assert_c (p_sendto p = NO_TASK) ''p_sendto == NO_TASK'') (\<lambda>_.
        res_bind (assert_c (has_int_msg p = 0) ''has_int_msg == 0'') (\<lambda>_.
        res_bind (assert_c (p_msg p = 0) ''p_msg == 0'') (\<lambda>_. Inr s2))))))"

definition recv_wait_interrupt :: "int \<Rightarrow> u32 \<Rightarrow> kstate \<Rightarrow> kstate res" where
  "recv_wait_interrupt me m s =
     block me (upd_proc me (\<lambda>p. p\<lparr>p_flags := p_flags p OR RECEIVING,
                                  p_recvfrom := INTERRUPT, p_msg := m\<rparr>) s)"

text \<open>The assertions about the receiver and the chosen sender before the copy.\<close>

definition recv_checks :: "int \<Rightarrow> int \<Rightarrow> kstate \<Rightarrow> unit res" where
  "recv_checks me p_from s =
     (let p = proc_table s me; q = proc_table s p_from
      in res_bind (assert_c (p_flags p = 0) ''p_flags == 0'') (\<lambda>_.
         res_bind (assert_c (p_msg p = 0) ''p_msg == 0'') (\<lambda>_.
         res_bind (assert_c (q_sending p \<noteq> None) ''q_sending != 0'') (\<lambda>_.
         res_bind (assert_c (p_sendto p = NO_TASK) ''p_sendto == NO_TASK'') (\<lambda>_.
         res_bind (assert_c (p_recvfrom p = NO_TASK) ''p_recvfrom == NO_TASK'') (\<lambda>_.
         res_bind (assert_c (p_flags q = SENDING) ''p_from->p_flags == SENDING'') (\<lambda>_.
         res_bind (assert_c (p_sendto q = me) ''p_from->p_sendto'') (\<lambda>_.
         res_bind (assert_c (p_recvfrom q = NO_TASK) ''p_from->p_recvfrom'') (\<lambda>_.
         assert_c (p_msg q \<noteq> 0) ''p_from->p_msg != 0'')))))))))"

definition recv_copy :: "int \<Rightarrow> int \<Rightarrow> int option \<Rightarrow> u32 \<Rightarrow> kstate \<Rightarrow> kstate res" where
  "recv_copy me p_from prev m s =
     res_bind (dequeue_sender me p_from prev s) (\<lambda>s1.
     res_bind (assert_c (m \<noteq> 0) ''m'') (\<lambda>_.
     res_bind (assert_c (p_msg (proc_table s1 p_from) \<noteq> 0) ''p_from->p_msg'') (\<lambda>_.
     res_bind (va2la (proc_table s1) me m) (\<lambda>to.
     res_bind (va2la (proc_table s1) p_from (p_msg (proc_table s1 p_from))) (\<lambda>from.
     let s2 = phys_copy_msg to from s1;
         s3 = upd_proc p_from (\<lambda>p. p\<lparr>p_msg := 0, p_flags := p_flags p AND NOT SENDING,
                                    p_sendto := NO_TASK\<rparr>) s2
     in res_bind (unblock p_from s3) (\<lambda>_. Inr s3))))))"

definition recv_block :: "int \<Rightarrow> int \<Rightarrow> u32 \<Rightarrow> kstate \<Rightarrow> kstate res" where
  "recv_block me src m s =
     res_bind (block me (upd_proc me (\<lambda>p. p\<lparr>p_recvfrom := src,
                           p_flags := p_flags p OR RECEIVING, p_msg := m\<rparr>) s)) (\<lambda>s1.
     let p = proc_table s1 me
     in res_bind (assert_c (p_flags p = RECEIVING) ''p_flags == RECEIVING'') (\<lambda>_.
        res_bind (assert_c (p_msg p \<noteq> 0) ''p_msg != 0'') (\<lambda>_.
        res_bind (assert_c (p_recvfrom p \<noteq> NO_TASK) ''p_recvfrom != NO_TASK'') (\<lambda>_.
        res_bind (assert_c (p_sendto p = NO_TASK) ''p_sendto == NO_TASK'') (\<lambda>_.
        res_bind (assert_c (has_int_msg p = 0) ''has_int_msg == 0'') (\<lambda>_. Inr s1))))))"

text \<open>
  In the branch for a given sender the source re-asserts its own guard (the sender is
  \<^verbatim>\<open>SENDING\<close>) in every iteration of the search; nothing the loop does can change it.
\<close>

definition msg_receive :: "int \<Rightarrow> int \<Rightarrow> u32 \<Rightarrow> kstate \<Rightarrow> kstate res" where
  "msg_receive me src m s =
     res_bind (assert_c (me \<noteq> src) ''proc2pid(p_who_wanna_rcv) != src'') (\<lambda>_.
     if has_int_msg (proc_table s me) \<noteq> 0 \<and> (src = ANY \<or> src = INTERRUPT)
       then recv_interrupt me m s
     else if src = INTERRUPT then recv_wait_interrupt me m s
     else if src = ANY then
       (case q_sending (proc_table s me) of
          Some p_from \<Rightarrow> res_bind (recv_checks me p_from s) (\<lambda>_. recv_copy me p_from None m s)
        | None \<Rightarrow> recv_block me ANY m s)
     else if \<not> valid_pid src then Inl (BadAccess ''proc_table'')
     else if flag SENDING (proc_table s src) \<and> p_sendto (proc_table s src) = me then
       res_bind (assert_c (q_sending (proc_table s me) \<noteq> None) ''p'') (\<lambda>_.
       res_bind (of_loop (find_prev (next_of s) src (q_sending (proc_table s me)) None)) (\<lambda>prev.
       res_bind (recv_checks me src s) (\<lambda>_. recv_copy me src prev m s)))
     else recv_block me src m s)"

section \<open>The system call and interrupts\<close>

definition sys_sendrec :: "int \<Rightarrow> int \<Rightarrow> u32 \<Rightarrow> int \<Rightarrow> kstate \<Rightarrow> kstate res" where
  "sys_sendrec function src_dest m p s =
     res_bind (assert_c (k_reenter s = 0) ''k_reenter == 0'') (\<lambda>_.
     res_bind (assert_c (valid_pid src_dest \<or> src_dest = ANY \<or> src_dest = INTERRUPT) ''src_dest'') (\<lambda>_.
     res_bind (va2la (proc_table s) p m) (\<lambda>mla.
     let s1 = s\<lparr>msgmem := (msgmem s)(mla := (msgmem s mla)\<lparr>source := p\<rparr>)\<rparr>
     in if function = SEND then msg_send p src_dest m s1
        else if function = RECEIVE then msg_receive p src_dest m s1
        else Inl (Panic ''{sys_sendrec} invalid function''))))"

text \<open>
  \<^verbatim>\<open>inform_int\<close> stores through \<^verbatim>\<open>p->p_msg\<close> itself, not through \<^verbatim>\<open>va2la\<close>: the tasks it is
  called for have flat segments.
\<close>

definition inform_int :: "int \<Rightarrow> kstate \<Rightarrow> kstate res" where
  "inform_int task_nr s =
     (let p = proc_table s task_nr
      in if flag RECEIVING p \<and> (p_recvfrom p = INTERRUPT \<or> p_recvfrom p = ANY) then
           let s1 = s\<lparr>msgmem := (msgmem s)(p_msg p :=
                        (msgmem s (p_msg p))\<lparr>source := INTERRUPT, mtype := HARD_INT\<rparr>)\<rparr>;
               s2 = upd_proc task_nr (\<lambda>p. p\<lparr>p_msg := 0, has_int_msg := 0,
                      p_flags := p_flags p AND NOT RECEIVING, p_recvfrom := NO_TASK\<rparr>) s1;
               p' = proc_table s2 task_nr
           in res_bind (assert_c (p_flags p' = 0) ''p->p_flags == 0'') (\<lambda>_.
              res_bind (unblock task_nr s2) (\<lambda>_.
              res_bind (assert_c (p_recvfrom p' = NO_TASK) ''p->p_recvfrom == NO_TASK'') (\<lambda>_.
              res_bind (assert_c (p_flags p' = 0) ''p->p_flags == 0'') (\<lambda>_.
              res_bind (assert_c (p_sendto p' = NO_TASK) ''p->p_sendto == NO_TASK'') (\<lambda>_.
              Inr s2)))))
         else Inr (upd_proc task_nr (\<lambda>p. p\<lparr>has_int_msg := 1\<rparr>) s))"

definition sys_get_ticks :: "kstate \<Rightarrow> int" where
  "sys_get_ticks s = ticks s"

section \<open>The clock\<close>

definition clock_handler :: "kstate \<Rightarrow> kstate res" where
  "clock_handler s =
     (let s1 = s\<lparr>ticks := ticks s + 1\<rparr>;
          s2 = upd_proc (p_proc_ready s1) (\<lambda>p. p\<lparr>p_ticks := p_ticks p - 1\<rparr>) s1
      in if k_reenter s2 \<noteq> 0 then Inr s2
         else res_bind (of_loop (schedule s2)) (\<lambda>s3.
              if key_pressed s3 \<noteq> 0 then inform_int TASK_TTY s3 else Inr s3))"

end
