(* ===== verification/Ipc_Inv.thy ===== *)
theory Ipc_Inv
  imports Ipc
begin

text \<open>
  The invariant of message passing and the effect of each operation on it. The abstract state
  is \<open>Q\<close>, which gives for every process the list of the senders queued at it, oldest first.
  \<open>ipc_inv Q pt\<close> relates it to the linked lists in the process table, and says how the flags
  and the other fields of an entry agree and that no cycle of processes waits to send to each
  other.
\<close>

section \<open>The invariant\<close>

definition waits :: "proc_tab \<Rightarrow> (int \<times> int) set" where
  "waits pt = {(i, j). valid_pid i \<and> flag SENDING (pt i) \<and> p_sendto (pt i) = j}"

definition proc_ok :: "int \<Rightarrow> PROCESS \<Rightarrow> bool" where
  "proc_ok i p \<longleftrightarrow>
     (flag SENDING p \<longrightarrow> p_flags p = SENDING \<and> valid_pid (p_sendto p) \<and> p_sendto p \<noteq> i \<and>
        p_msg p \<noteq> 0 \<and> p_recvfrom p = NO_TASK) \<and>
     (flag RECEIVING p \<longrightarrow> p_sendto p = NO_TASK \<and> (p_msg p \<noteq> 0 \<or> p_recvfrom p = INTERRUPT) \<and>
        (p_flags p = RECEIVING \<or> p_recvfrom p = TASK_MM)) \<and>
     (\<not> flag SENDING p \<and> \<not> flag RECEIVING p \<and> p_flags p \<noteq> FREE_SLOT \<longrightarrow>
        p_msg p = 0 \<and> p_sendto p = NO_TASK \<and> p_recvfrom p = NO_TASK)"

definition queue_ok :: "(int \<Rightarrow> int list) \<Rightarrow> proc_tab \<Rightarrow> int \<Rightarrow> bool" where
  "queue_ok Q pt i \<longleftrightarrow> qpath (\<lambda>j. next_sending (pt j)) (q_sending (pt i)) (Q i) \<and>
     distinct (Q i) \<and> set (Q i) = {j. (j, i) \<in> waits pt}"

definition flat_native :: "proc_tab \<Rightarrow> bool" where
  "flat_native pt \<longleftrightarrow> (\<forall>i. valid_pid i \<and> i < NR_TASKS + NR_NATIVE_PROCS \<longrightarrow>
     ldt_seg_linear (pt i) INDEX_LDT_RW = 0)"

definition ipc_inv :: "(int \<Rightarrow> int list) \<Rightarrow> proc_tab \<Rightarrow> bool" where
  "ipc_inv Q pt \<longleftrightarrow>
     (\<forall>i. valid_pid i \<longrightarrow> proc_ok i (pt i)) \<and>
     (\<forall>i. valid_pid i \<longrightarrow> queue_ok Q pt i) \<and>
     acyclic (waits pt) \<and> flat_native pt"

lemmas [inv_defs] = ipc_inv_def proc_ok_def queue_ok_def flat_native_def

lemma ipc_invD:
  assumes "ipc_inv Q pt"
  shows "valid_pid i \<Longrightarrow> proc_ok i (pt i)" "valid_pid i \<Longrightarrow> queue_ok Q pt i"
    "acyclic (waits pt)" "flat_native pt"
  using assms by (auto simp: ipc_inv_def)

lemma proc_ok_running:
  "proc_ok i p \<Longrightarrow> p_flags p = 0 \<Longrightarrow> p_msg p = 0 \<and> p_sendto p = NO_TASK \<and> p_recvfrom p = NO_TASK"
  by (simp add: proc_ok_def)

lemma proc_ok_sending:
  "proc_ok i p \<Longrightarrow> flag SENDING p \<Longrightarrow>
   p_flags p = SENDING \<and> valid_pid (p_sendto p) \<and> p_sendto p \<noteq> i \<and> p_msg p \<noteq> 0 \<and>
   p_recvfrom p = NO_TASK"
  by (simp add: proc_ok_def)

lemma proc_ok_receiving:
  "proc_ok i p \<Longrightarrow> flag RECEIVING p \<Longrightarrow> p_sendto p = NO_TASK \<and>
   (p_msg p \<noteq> 0 \<or> p_recvfrom p = INTERRUPT) \<and> (p_flags p = RECEIVING \<or> p_recvfrom p = TASK_MM)"
  unfolding proc_ok_def by blast

section \<open>Updating the process table\<close>

lemma upd_proc_simps [simp]:
  "proc_table (upd_proc i f s) = (proc_table s)(i := f (proc_table s i))"
  "msgmem (upd_proc i f s) = msgmem s" "k_reenter (upd_proc i f s) = k_reenter s"
  "key_pressed (upd_proc i f s) = key_pressed s" "ticks (upd_proc i f s) = ticks s"
  "p_proc_ready (upd_proc i f s) = p_proc_ready s"
  by (simp_all add: upd_proc_def)

lemma phys_copy_msg_simps [simp]:
  "proc_table (phys_copy_msg to from s) = proc_table s"
  "msgmem (phys_copy_msg to from s) = (msgmem s)(to := msgmem s from)"
  "k_reenter (phys_copy_msg to from s) = k_reenter s"
  by (simp_all add: phys_copy_msg_def)

lemma flag_upd [simp]:
  "flag m (p\<lparr>p_msg := a\<rparr>) = flag m p" "flag m (p\<lparr>p_recvfrom := b\<rparr>) = flag m p"
  "flag m (p\<lparr>p_sendto := b\<rparr>) = flag m p" "flag m (p\<lparr>has_int_msg := b\<rparr>) = flag m p"
  "flag m (p\<lparr>q_sending := c\<rparr>) = flag m p" "flag m (p\<lparr>next_sending := c\<rparr>) = flag m p"
  "flag m (p\<lparr>p_ticks := b\<rparr>) = flag m p"
  by (simp_all add: flag_def)

text \<open>Two tables that agree in all but the queue links.\<close>

definition clear_links :: "PROCESS \<Rightarrow> PROCESS" where
  "clear_links p = p\<lparr>q_sending := None, next_sending := None\<rparr>"

definition same_but_links :: "proc_tab \<Rightarrow> proc_tab \<Rightarrow> bool" where
  "same_but_links pt pt' \<longleftrightarrow> (\<forall>i. clear_links (pt' i) = clear_links (pt i))"

lemma clear_links_fields [simp]:
  "p_flags (clear_links p) = p_flags p" "p_msg (clear_links p) = p_msg p"
  "p_recvfrom (clear_links p) = p_recvfrom p" "p_sendto (clear_links p) = p_sendto p"
  "has_int_msg (clear_links p) = has_int_msg p" "ldts (clear_links p) = ldts p"
  "priority (clear_links p) = priority p" "p_ticks (clear_links p) = p_ticks p"
  "clear_links (p\<lparr>q_sending := q\<rparr>) = clear_links p"
  "clear_links (p\<lparr>next_sending := n\<rparr>) = clear_links p"
  by (simp_all add: clear_links_def)

lemma same_but_links_fields:
  assumes "same_but_links pt pt'"
  shows "p_flags (pt' i) = p_flags (pt i)" "p_msg (pt' i) = p_msg (pt i)"
    "p_recvfrom (pt' i) = p_recvfrom (pt i)" "p_sendto (pt' i) = p_sendto (pt i)"
    "has_int_msg (pt' i) = has_int_msg (pt i)" "ldts (pt' i) = ldts (pt i)"
    "priority (pt' i) = priority (pt i)" "p_ticks (pt' i) = p_ticks (pt i)"
    "flag m (pt' i) = flag m (pt i)" "runnable pt' i = runnable pt i"
  using assms by (metis clear_links_fields same_but_links_def flag_def runnable_def)+

section \<open>Addresses\<close>

definition la_of :: "proc_tab \<Rightarrow> int \<Rightarrow> u32 \<Rightarrow> u32" where
  "la_of pt pid va = va + ldt_seg_linear (pt pid) INDEX_LDT_RW"

lemma va2la_flat: "flat_native pt \<Longrightarrow> valid_pid pid \<Longrightarrow> va2la pt pid va = Inr (la_of pt pid va)"
  by (simp add: va2la_def la_of_def flat_native_def Let_def)

lemma la_of_cong: "ldts (pt' i) = ldts (pt i) \<Longrightarrow> la_of pt' i a = la_of pt i a"
  by (simp add: la_of_def ldt_seg_linear_def)

section \<open>The sender queue\<close>

lemma queue_tail_eq: "qpath nxt (Some p) (qs @ [t]) \<Longrightarrow> queue_tail nxt p = Some t"
proof (induction qs arbitrary: p)
  case Nil
  then show ?case by (subst queue_tail.simps) simp
next
  case (Cons q qs)
  then have "p = q" "qpath nxt (nxt q) (qs @ [t])"
    by auto
  moreover from this(2) obtain r where "nxt q = Some r"
    by (cases qs) auto
  ultimately show ?case
    using Cons.IH [of r] by (subst queue_tail.simps) simp
qed

lemma find_prev_eq:
  "qpath nxt p (as @ x # bs) \<Longrightarrow> x \<notin> set as \<Longrightarrow>
   find_prev nxt x p prev = Some (if as = [] then prev else Some (last as))"
proof (induction as arbitrary: p prev)
  case Nil
  then show ?case by (subst find_prev.simps) simp
next
  case (Cons a as)
  then show ?case by (subst find_prev.simps) auto
qed

text \<open>What enqueueing does: the sender becomes the last node of the receiver's list.\<close>

lemma enqueue_sender_spec:
  assumes "qpath (next_of s) (q_sending (proc_table s dst)) qs" "distinct qs" "sender \<notin> set qs"
  obtains pt' where "enqueue_sender sender dst s = Inr (s\<lparr>proc_table := pt'\<rparr>)"
    "same_but_links (proc_table s) pt'"
    "qpath (\<lambda>j. next_sending (pt' j)) (q_sending (pt' dst)) (qs @ [sender])"
    "\<And>i. i \<noteq> dst \<Longrightarrow> q_sending (pt' i) = q_sending (proc_table s i)"
    "\<And>j. j \<notin> set qs \<Longrightarrow> j \<noteq> sender \<Longrightarrow> next_sending (pt' j) = next_sending (proc_table s j)"
proof (cases qs rule: rev_cases)
  case Nil
  let ?s = "upd_proc sender (\<lambda>q. q\<lparr>next_sending := None\<rparr>)
              (upd_proc dst (\<lambda>q. q\<lparr>q_sending := Some sender\<rparr>) s)"
  from assms Nil have "enqueue_sender sender dst s = Inr ?s"
    by (simp add: enqueue_sender_def)
  then show ?thesis
    by (intro that [of "proc_table ?s"]) (auto simp: upd_proc_def Nil same_but_links_def)
next
  case (snoc ys t)
  let ?s = "upd_proc sender (\<lambda>q. q\<lparr>next_sending := None\<rparr>)
              (upd_proc t (\<lambda>q. q\<lparr>next_sending := Some sender\<rparr>) s)"
  obtain h where h: "q_sending (proc_table s dst) = Some h"
    using assms(1) snoc by (cases ys) auto
  with assms(1) snoc have "queue_tail (next_of s) h = Some t"
    by (intro queue_tail_eq) simp
  with h have eq: "enqueue_sender sender dst s = Inr ?s"
    by (simp add: enqueue_sender_def)
  define pt' where "pt' = proc_table ?s"
  have q: "q_sending (pt' i) = q_sending (proc_table s i)" for i
    by (auto simp: pt'_def)
  have nxt: "(\<lambda>j. next_sending (pt' j)) = (next_of s)(t := Some sender, sender := None)"
    using assms(3) snoc by (auto simp: fun_eq_iff pt'_def)
  have "qpath (\<lambda>j. next_sending (pt' j)) (q_sending (pt' dst)) (qs @ [sender])"
    unfolding nxt q using assms snoc by (auto intro: qpath_append_tail)
  moreover have "next_sending (pt' j) = next_sending (proc_table s j)"
    if "j \<notin> set qs" "j \<noteq> sender" for j
    using that fun_cong [OF nxt, of j] snoc by simp
  moreover have "same_but_links (proc_table s) pt'"
    by (simp add: pt'_def same_but_links_def)
  moreover have "enqueue_sender sender dst s = Inr (s\<lparr>proc_table := pt'\<rparr>)"
    by (simp add: eq pt'_def upd_proc_def)
  ultimately show ?thesis
    using q by (intro that) blast+
qed

text \<open>What dequeueing does: the given sender leaves the list, the others keep their order.\<close>

lemma dequeue_sender_spec:
  assumes "qpath (next_of s) (q_sending (proc_table s me)) (as @ x # bs)" "distinct (as @ x # bs)"
    and "as \<noteq> [] \<Longrightarrow> prev = Some (last as)"
  obtains pt' where "dequeue_sender me x prev s = Inr (s\<lparr>proc_table := pt'\<rparr>)"
    "same_but_links (proc_table s) pt'"
    "qpath (\<lambda>j. next_sending (pt' j)) (q_sending (pt' me)) (as @ bs)"
    "\<And>i. i \<noteq> me \<Longrightarrow> q_sending (pt' i) = q_sending (proc_table s i)"
    "\<And>j. j \<notin> set (as @ x # bs) \<Longrightarrow> next_sending (pt' j) = next_sending (proc_table s j)"
proof (cases as rule: rev_cases)
  case Nil
  let ?s = "upd_proc x (\<lambda>p. p\<lparr>next_sending := None\<rparr>)
              (upd_proc me (\<lambda>p. p\<lparr>q_sending := next_sending (proc_table s x)\<rparr>) s)"
  from assms Nil have eq: "dequeue_sender me x prev s = Inr ?s"
    by (simp add: dequeue_sender_def Let_def)
  define pt' where "pt' = proc_table ?s"
  have q: "q_sending (pt' i) = (if i = me then next_sending (proc_table s x)
                                else q_sending (proc_table s i))" for i
    by (auto simp: pt'_def)
  have nxt: "(\<lambda>j. next_sending (pt' j)) = (next_of s)(x := None)"
    by (auto simp: fun_eq_iff pt'_def)
  have "qpath (\<lambda>j. next_sending (pt' j)) (q_sending (pt' me)) (as @ bs)"
    unfolding nxt q using assms Nil by simp
  moreover have "next_sending (pt' j) = next_sending (proc_table s j)"
    if "j \<notin> set (as @ x # bs)" for j
    using that fun_cong [OF nxt, of j] by simp
  moreover have "same_but_links (proc_table s) pt'"
    by (simp add: pt'_def same_but_links_def)
  moreover have "dequeue_sender me x prev s = Inr (s\<lparr>proc_table := pt'\<rparr>)"
    by (simp add: eq pt'_def upd_proc_def)
  ultimately show ?thesis
    using q by (intro that [of pt']) auto
next
  case (snoc ys a)
  let ?s = "upd_proc x (\<lambda>p. p\<lparr>next_sending := None\<rparr>)
              (upd_proc a (\<lambda>p. p\<lparr>next_sending := next_sending (proc_table s x)\<rparr>) s)"
  have "Some x \<noteq> q_sending (proc_table s me)"
    using assms(1,2) snoc by (cases ys) auto
  with assms(3) snoc have eq: "dequeue_sender me x prev s = Inr ?s"
    by (simp add: dequeue_sender_def Let_def)
  define pt' where "pt' = proc_table ?s"
  have q: "q_sending (pt' i) = q_sending (proc_table s i)" for i
    by (auto simp: pt'_def)
  have nxt: "(\<lambda>j. next_sending (pt' j)) = (next_of s)(a := next_of s x, x := None)"
    using assms(2) snoc by (auto simp: fun_eq_iff pt'_def)
  have "qpath ((next_of s)(a := next_of s x, x := None)) (q_sending (proc_table s me)) (ys @ a # bs)"
    using assms(1,2) snoc by (intro qpath_unlink_mid) simp_all
  then have "qpath (\<lambda>j. next_sending (pt' j)) (q_sending (pt' me)) (as @ bs)"
    unfolding nxt q using snoc by simp
  moreover have "next_sending (pt' j) = next_sending (proc_table s j)"
    if "j \<notin> set (as @ x # bs)" for j
    using that fun_cong [OF nxt, of j] snoc by simp
  moreover have "same_but_links (proc_table s) pt'"
    by (simp add: pt'_def same_but_links_def)
  moreover have "dequeue_sender me x prev s = Inr (s\<lparr>proc_table := pt'\<rparr>)"
    by (simp add: eq pt'_def upd_proc_def)
  ultimately show ?thesis
    using q by (intro that) blast+
qed

section \<open>Deadlock detection\<close>

lemma waits_finite [simp]: "finite (waits pt)"
proof (rule finite_subset)
  show "waits pt \<subseteq> (\<lambda>i. (i, p_sendto (pt i))) ` {i. valid_pid i}"
    by (auto simp: waits_def)
qed simp

lemma waits_step: "valid_pid p \<Longrightarrow> flag SENDING (pt p) \<Longrightarrow> (p, j) \<in> waits pt \<longleftrightarrow> j = p_sendto (pt p)"
  by (auto simp: waits_def)

text \<open>
  The detection loop ends, and it finds the sender exactly when the sender can be reached
  from the destination along the processes that wait to send.
\<close>

lemma deadlock_loop_spec:
  assumes "\<And>i. valid_pid i \<Longrightarrow> proc_ok i (pt i)" "acyclic (waits pt)" "valid_pid p"
  shows "deadlock_loop pt src p =
    (if (p, src) \<in> (waits pt)\<^sup>+ then deadlock_report pt src src else Some (Inr 0))"
proof -
  have "wf ((waits pt)\<inverse>)"
    using assms(2) by (intro finite_acyclic_wf_converse) auto
  then show ?thesis
    using assms(3)
  proof (induction p rule: wf_induct_rule)
    case (less p)
    show ?case
    proof (cases "flag SENDING (pt p)")
      case True
      then have succ: "(p, j) \<in> waits pt \<longleftrightarrow> j = p_sendto (pt p)" for j
        using less.prems by (rule waits_step [rotated])
      have v: "valid_pid (p_sendto (pt p))"
        using assms(1) [OF less.prems] True by (simp add: proc_ok_def)
      have reach: "(p, src) \<in> (waits pt)\<^sup>+ \<longleftrightarrow>
          p_sendto (pt p) = src \<or> (p_sendto (pt p), src) \<in> (waits pt)\<^sup>+"
        using succ by (metis r_into_trancl' trancl_into_trancl2 tranclD rtranclD)
      have "(p_sendto (pt p), p) \<in> (waits pt)\<inverse>"
        using succ by simp
      then have ih: "deadlock_loop pt src (p_sendto (pt p)) =
          (if (p_sendto (pt p), src) \<in> (waits pt)\<^sup>+ then deadlock_report pt src src
           else Some (Inr 0))"
        using v by (rule less.IH)
      show ?thesis
        by (subst deadlock_loop.simps) (simp add: True v ih reach)
    next
      case False
      then have "(p, src) \<notin> (waits pt)\<^sup>+"
        by (auto simp: waits_def dest!: tranclD)
      with False show ?thesis
        by (subst deadlock_loop.simps) simp
    qed
  qed
qed

lemma deadlock_spec:
  assumes "ipc_inv Q (proc_table s)" "valid_pid src" "valid_pid dest" "p_flags (proc_table s src) = 0"
  shows "deadlock src dest s =
    (if (dest, src) \<in> (waits (proc_table s))\<^sup>+ then Inl (AssertFail ''p->p_msg'') else Inr 0)"
proof -
  have "p_msg (proc_table s src) = 0"
    using ipc_invD(1) [OF assms(1,2)] assms(4) by (simp add: proc_ok_running)
  then have "deadlock_report (proc_table s) src src = Some (Inl (AssertFail ''p->p_msg''))"
    by (subst deadlock_report.simps) simp
  with deadlock_loop_spec [OF ipc_invD(1,3) [OF assms(1)] assms(3), of src]
  show ?thesis by (simp add: deadlock_def)
qed

section \<open>Changing one entry\<close>

lemma waits_upd_idle:
  "\<not> flag SENDING (pt i) \<Longrightarrow> \<not> flag SENDING p \<Longrightarrow> waits (pt(i := p)) = waits pt"
  by (auto simp: waits_def split: if_splits)

lemma ipc_inv_upd:
  assumes "ipc_inv Q pt" "\<not> flag SENDING (pt i)" "\<not> flag SENDING p" "proc_ok i p"
    and same: "q_sending p = q_sending (pt i)" "next_sending p = next_sending (pt i)"
      "ldts p = ldts (pt i)"
  shows "ipc_inv Q (pt(i := p))"
proof -
  have w: "waits (pt(i := p)) = waits pt"
    using assms(2,3) by (rule waits_upd_idle)
  have n: "(\<lambda>j. next_sending ((pt(i := p)) j)) = (\<lambda>j. next_sending (pt j))"
    using same by auto
  show ?thesis
    using assms unfolding ipc_inv_def queue_ok_def w n flat_native_def ldt_seg_linear_def by auto
qed

lemma ipc_inv_cong:
  assumes "\<And>i. p_flags (pt' i) = p_flags (pt i)" "\<And>i. p_msg (pt' i) = p_msg (pt i)"
    "\<And>i. p_recvfrom (pt' i) = p_recvfrom (pt i)" "\<And>i. p_sendto (pt' i) = p_sendto (pt i)"
    "\<And>i. q_sending (pt' i) = q_sending (pt i)" "\<And>i. next_sending (pt' i) = next_sending (pt i)"
    "\<And>i. ldts (pt' i) = ldts (pt i)"
  shows "ipc_inv Q pt' = ipc_inv Q pt"
proof -
  have f: "flag m (pt' i) = flag m (pt i)" for m i
    using assms by (simp add: flag_def)
  have w: "waits pt' = waits pt"
    using assms by (simp add: waits_def f)
  show ?thesis
    by (simp add: ipc_inv_def queue_ok_def proc_ok_def flat_native_def ldt_seg_linear_def
        assms f w)
qed

lemma ipc_inv_ticks: "same_but_ticks pt pt' \<Longrightarrow> ipc_inv Q pt' = ipc_inv Q pt"
  by (rule ipc_inv_cong) (simp_all add: same_but_ticks_fields)

text \<open>A process starts, or stops, waiting to send: the queue of its receiver changes with it.\<close>

lemma waits_start:
  "valid_pid i \<Longrightarrow> \<not> flag SENDING (pt i) \<Longrightarrow> flag SENDING p \<Longrightarrow> p_sendto p = d \<Longrightarrow>
   waits (pt(i := p)) = insert (i, d) (waits pt)"
  by (auto simp: waits_def split: if_splits)

lemma waits_stop:
  "flag SENDING (pt i) \<Longrightarrow> \<not> flag SENDING p \<Longrightarrow>
   waits (pt(i := p)) = waits pt - {(i, p_sendto (pt i))}"
  by (auto simp: waits_def split: if_splits)

lemma waits_links: "same_but_links pt pt' \<Longrightarrow> waits pt' = waits pt"
  by (simp add: waits_def same_but_links_fields)

lemma queue_disjoint:
  assumes "ipc_inv Q pt" "valid_pid i" "valid_pid j" "i \<noteq> j"
  shows "set (Q i) \<inter> set (Q j) = {}"
  using assms by (auto simp: ipc_inv_def queue_ok_def waits_def)

lemma queue_frame:
  assumes "qpath (\<lambda>j. next_sending (pt j)) (q_sending (pt i)) qs"
    "q_sending (pt' i) = q_sending (pt i)"
    "\<And>j. j \<in> set qs \<Longrightarrow> next_sending (pt' j) = next_sending (pt j)"
  shows "qpath (\<lambda>j. next_sending (pt' j)) (q_sending (pt' i)) qs"
  unfolding assms(2) using assms(1,3)
    qpath_cong [of qs "\<lambda>j. next_sending (pt' j)" "\<lambda>j. next_sending (pt j)"] by simp

lemma ipc_inv_start_sending:
  assumes inv: "ipc_inv Q pt" and i: "valid_pid i" "p_flags (pt i) = 0" and d: "valid_pid d" "d \<noteq> i"
    and pt1: "pt1 = pt(i := (pt i)\<lparr>p_flags := SENDING, p_sendto := d, p_msg := m\<rparr>)"
    and m: "m \<noteq> 0" and free: "(d, i) \<notin> (waits pt)\<^sup>+"
    and links: "same_but_links pt1 pt'"
    and path: "qpath (\<lambda>j. next_sending (pt' j)) (q_sending (pt' d)) (Q d @ [i])"
    and frame: "\<And>k. k \<noteq> d \<Longrightarrow> q_sending (pt' k) = q_sending (pt1 k)"
      "\<And>j. j \<notin> set (Q d) \<Longrightarrow> j \<noteq> i \<Longrightarrow> next_sending (pt' j) = next_sending (pt1 j)"
  shows "ipc_inv (Q(d := Q d @ [i])) pt'"
proof -
  note fields = same_but_links_fields [OF links]
  have w: "waits pt' = insert (i, d) (waits pt)"
    unfolding waits_links [OF links] pt1 using i by (intro waits_start) (simp_all add: flag_def)
  have idle: "(i, k) \<notin> waits pt" for k
    using i by (simp add: waits_def)
  have qk: "queue_ok Q pt k" if "valid_pid k" for k
    using ipc_invD(2) [OF inv that] .
  have "proc_ok k (pt' k)" if "valid_pid k" for k
    using ipc_invD(1) [OF inv that] proc_ok_running [OF ipc_invD(1) [OF inv i(1)] i(2)] d m
    by (cases "k = i") (simp_all add: proc_ok_def fields pt1 flag_def)
  moreover have "queue_ok (Q(d := Q d @ [i])) pt' k" if "valid_pid k" for k
  proof (cases "k = d")
    case True
    then show ?thesis
      using path qk [OF d(1)] idle by (auto simp: queue_ok_def w)
  next
    case False
    have "qpath (\<lambda>j. next_sending (pt' j)) (q_sending (pt' k)) (Q k)"
    proof (rule queue_frame)
      show "qpath (\<lambda>j. next_sending (pt j)) (q_sending (pt k)) (Q k)"
        using qk [OF that] by (simp add: queue_ok_def)
      show "q_sending (pt' k) = q_sending (pt k)"
        using frame(1) [OF False] by (simp add: pt1)
      fix j assume "j \<in> set (Q k)"
      moreover from this have "j \<noteq> i"
        using qk [OF that] idle by (auto simp: queue_ok_def)
      ultimately show "next_sending (pt' j) = next_sending (pt j)"
        using frame(2) [of j] queue_disjoint [OF inv that d(1) False] by (auto simp: pt1)
    qed
    then show ?thesis
      using False qk [OF that] by (simp add: queue_ok_def w)
  qed
  moreover have "acyclic (waits pt')"
    using ipc_invD(3) [OF inv] free d(2) by (auto simp: w acyclic_insert dest: rtranclD)
  moreover have "flat_native pt'"
    using ipc_invD(4) [OF inv] by (simp add: flat_native_def ldt_seg_linear_def fields pt1)
  ultimately show ?thesis
    by (simp add: ipc_inv_def)
qed

lemma ipc_inv_stop_sending:
  assumes inv: "ipc_inv Q pt" and x: "valid_pid x" "flag SENDING (pt x)" "p_sendto (pt x) = d"
    and d: "valid_pid d" and split: "Q d = as @ x # bs"
    and links: "same_but_links pt pt1"
    and path: "qpath (\<lambda>j. next_sending (pt1 j)) (q_sending (pt1 d)) (as @ bs)"
    and frame: "\<And>k. k \<noteq> d \<Longrightarrow> q_sending (pt1 k) = q_sending (pt k)"
      "\<And>j. j \<notin> set (Q d) \<Longrightarrow> next_sending (pt1 j) = next_sending (pt j)"
    and pt': "pt' = pt1(x := (pt1 x)\<lparr>p_msg := 0, p_flags := 0, p_sendto := NO_TASK\<rparr>)"
  shows "ipc_inv (Q(d := as @ bs)) pt'"
proof -
  note fields = same_but_links_fields [OF links]
  have w: "waits pt' = waits pt - {(x, d)}"
    unfolding pt' using x by (subst waits_stop) (simp_all add: fields waits_links [OF links] flag_def)
  have n: "(\<lambda>j. next_sending (pt' j)) = (\<lambda>j. next_sending (pt1 j))"
    and q: "\<And>k. q_sending (pt' k) = q_sending (pt1 k)"
    by (auto simp: pt')
  have qk: "queue_ok Q pt k" if "valid_pid k" for k
    using ipc_invD(2) [OF inv that] .
  have "proc_ok k (pt' k)" if "valid_pid k" for k
    using ipc_invD(1) [OF inv that] proc_ok_sending [OF ipc_invD(1) [OF inv x(1)] x(2)]
    by (cases "k = x") (simp_all add: proc_ok_def fields pt' flag_def)
  moreover have "queue_ok (Q(d := as @ bs)) pt' k" if "valid_pid k" for k
  proof (cases "k = d")
    case True
    have "set (as @ bs) = set (Q d) - {x}" "distinct (as @ bs)"
      using qk [OF d] by (auto simp: queue_ok_def split)
    then show ?thesis
      using path qk [OF d] True by (auto simp: queue_ok_def w n q)
  next
    case False
    have "qpath (\<lambda>j. next_sending (pt1 j)) (q_sending (pt1 k)) (Q k)"
    proof (rule queue_frame)
      show "qpath (\<lambda>j. next_sending (pt j)) (q_sending (pt k)) (Q k)"
        using qk [OF that] by (simp add: queue_ok_def)
      show "q_sending (pt1 k) = q_sending (pt k)"
        using frame(1) [OF False] .
      fix j assume "j \<in> set (Q k)"
      then show "next_sending (pt1 j) = next_sending (pt j)"
        using frame(2) [of j] queue_disjoint [OF inv that d False] by auto
    qed
    then show ?thesis
      using False qk [OF that] by (auto simp: queue_ok_def w n q)
  qed
  moreover have "acyclic (waits pt')"
    using ipc_invD(3) [OF inv] unfolding w by (rule acyclic_subset) auto
  moreover have "flat_native pt'"
    using ipc_invD(4) [OF inv] by (simp add: flat_native_def ldt_seg_linear_def fields pt')
  ultimately show ?thesis
    by (simp add: ipc_inv_def)
qed

end
