(* ===== verification/Ipc_Steps.thy ===== *)
theory Ipc_Steps
  imports Ipc_Inv
begin

text \<open>
  What the message passing operations do under the invariant: for each branch of \<^verbatim>\<open>msg_send\<close>,
  \<^verbatim>\<open>msg_receive\<close> and \<^verbatim>\<open>inform_int\<close>, the resulting state, the new queues, and that the
  invariant is kept. None of the source's assertions fails on the way, except the two cases
  stated: a send that would close a cycle, and a receive from a given process while an
  interrupt is pending.
\<close>

section \<open>Blocking\<close>

text \<open>Some process other than \<open>i\<close> can be scheduled.\<close>

definition other_can_run :: "proc_tab \<Rightarrow> int \<Rightarrow> bool" where
  "other_can_run pt i \<longleftrightarrow> (\<exists>j. j \<noteq> i \<and> runnable pt j \<and> (p_ticks (pt j) > 0 \<or> priority (pt j) > 0))"

text \<open>The fields of an entry that message passing is about; used to say what is left alone.\<close>

definition ipc_view :: "PROCESS \<Rightarrow> int \<times> u32 \<times> int \<times> int \<times> int" where
  "ipc_view p = (p_flags p, p_msg p, p_recvfrom p, p_sendto p, has_int_msg p)"

text \<open>The fields message passing never changes.\<close>

definition static_view :: "PROCESS \<Rightarrow> (nat \<Rightarrow> DESCRIPTOR) \<times> int" where
  "static_view p = (ldts p, priority p)"

lemma ipc_view_cong:
  "p_flags p = p_flags q \<Longrightarrow> p_msg p = p_msg q \<Longrightarrow> p_recvfrom p = p_recvfrom q \<Longrightarrow>
   p_sendto p = p_sendto q \<Longrightarrow> has_int_msg p = has_int_msg q \<Longrightarrow> ipc_view p = ipc_view q"
  by (simp add: ipc_view_def)

lemma block_spec:
  assumes "p_flags (proc_table s p) \<noteq> 0" "can_run (proc_table s)"
  obtains c where "block p s =
    Inr (s\<lparr>proc_table := sched_table (proc_table s), p_proc_ready := c\<rparr>)"
    "sched_choice (sched_table (proc_table s)) c"
  using schedule_returns [OF assms(2)] assms(1) by (auto simp: block_def)

lemma block_InrD:
  assumes "block p s = Inr s'"
  obtains c where "s' = s\<lparr>proc_table := sched_table (proc_table s), p_proc_ready := c\<rparr>"
    "sched_choice (sched_table (proc_table s)) c"
  using assms schedule_SomeD by (auto simp: block_def split: if_splits)

lemma can_run_upd: "other_can_run pt i \<Longrightarrow> can_run (pt(i := p))"
  by (auto simp: other_can_run_def can_run_def runnable_def)

lemma block_upd_spec:
  assumes "other_can_run (proc_table s) me" "p_flags (f (proc_table s me)) \<noteq> 0"
  obtains c where "block me (upd_proc me f s) = Inr (s\<lparr>
      proc_table := sched_table ((proc_table s)(me := f (proc_table s me))), p_proc_ready := c\<rparr>)"
    "sched_choice (sched_table ((proc_table s)(me := f (proc_table s me)))) c"
  using assms block_spec [of "upd_proc me f s" me] can_run_upd [OF assms(1)]
  by (auto simp: upd_proc_def)

lemma can_run_links: "same_but_links pt pt' \<Longrightarrow> can_run pt' = can_run pt"
  by (simp add: can_run_def same_but_links_fields)

lemmas tick_fields [simp] = same_but_ticks_fields [OF sched_table_same]

lemma ipc_inv_sched [simp]: "ipc_inv Q (sched_table pt) = ipc_inv Q pt"
  by (rule ipc_inv_ticks) simp

section \<open>Sending\<close>

lemma send_deliver_eq:
  assumes inv: "ipc_inv Q (proc_table s)" and v: "valid_pid sender" "valid_pid dst" "sender \<noteq> dst"
    and run: "p_flags (proc_table s sender) = 0" and m: "m \<noteq> 0"
    and dst: "receives_from (proc_table s dst) sender" "p_flags (proc_table s dst) = RECEIVING"
  shows "send_deliver sender dst m s = Inr (s\<lparr>
      msgmem := (msgmem s)(la_of (proc_table s) dst (p_msg (proc_table s dst)) :=
                           msgmem s (la_of (proc_table s) sender m)),
      proc_table := (proc_table s)(dst := (proc_table s dst)\<lparr>p_msg := 0, p_flags := 0,
                           p_recvfrom := NO_TASK\<rparr>)\<rparr>)"
proof -
  have s: "p_msg (proc_table s sender) = 0" "p_sendto (proc_table s sender) = NO_TASK"
      "p_recvfrom (proc_table s sender) = NO_TASK"
    using proc_ok_running [OF ipc_invD(1) [OF inv v(1)] run] by auto
  have d: "p_msg (proc_table s dst) \<noteq> 0" "p_sendto (proc_table s dst) = NO_TASK"
    using ipc_invD(1) [OF inv v(2)] dst v(1) by (auto simp: proc_ok_def receives_from_def)
  show ?thesis
    using v run m dst s d
    by (simp add: send_deliver_def va2la_flat [OF ipc_invD(4) [OF inv]] unblock_def assert_idle_def
        Let_def upd_proc_def phys_copy_msg_def)
qed

lemma ipc_inv_deliver:
  assumes inv: "ipc_inv Q pt" and v: "valid_pid dst" and dst: "p_flags (pt dst) = RECEIVING"
  shows "ipc_inv Q (pt(dst := (pt dst)\<lparr>p_msg := 0, p_flags := 0, p_recvfrom := NO_TASK\<rparr>))"
  using ipc_invD(1) [OF inv v] dst
  by (intro ipc_inv_upd [OF inv]) (auto simp: proc_ok_def flag_def)

lemma mark_sending_table:
  "p_flags (proc_table s me) = 0 \<Longrightarrow> proc_table (mark_sending me dst m s) = (proc_table s)(me :=
     (proc_table s me)\<lparr>p_flags := SENDING, p_sendto := dst, p_msg := m\<rparr>)"
  by (simp add: mark_sending_def)

lemma enqueue_sending:
  assumes inv: "ipc_inv Q (proc_table s)" and v: "valid_pid me" "valid_pid dst"
    and run: "p_flags (proc_table s me) = 0"
  obtains pt' where "enqueue_sender me dst (mark_sending me dst m s) =
      Inr ((mark_sending me dst m s)\<lparr>proc_table := pt'\<rparr>)"
    "same_but_links (proc_table (mark_sending me dst m s)) pt'"
    "qpath (\<lambda>j. next_sending (pt' j)) (q_sending (pt' dst)) (Q dst @ [me])"
    "\<And>i. i \<noteq> dst \<Longrightarrow> q_sending (pt' i) = q_sending (proc_table (mark_sending me dst m s) i)"
    "\<And>j. j \<notin> set (Q dst) \<Longrightarrow> j \<noteq> me \<Longrightarrow>
       next_sending (pt' j) = next_sending (proc_table (mark_sending me dst m s) j)"
proof (rule enqueue_sender_spec [of "mark_sending me dst m s" dst "Q dst" me])
  have qd: "queue_ok Q (proc_table s) dst"
    using ipc_invD(2) [OF inv v(2)] .
  have "next_of (mark_sending me dst m s) = next_of s"
    by (auto simp: mark_sending_def)
  moreover have "q_sending (proc_table (mark_sending me dst m s) dst) = q_sending (proc_table s dst)"
    by (simp add: mark_sending_def)
  ultimately show "qpath (next_of (mark_sending me dst m s))
      (q_sending (proc_table (mark_sending me dst m s) dst)) (Q dst)"
    using qd by (simp add: queue_ok_def)
  show "distinct (Q dst)" "me \<notin> set (Q dst)"
    using qd run by (auto simp: queue_ok_def waits_def)
qed (rule that)

lemma send_block_spec:
  assumes inv: "ipc_inv Q (proc_table s)" and v: "valid_pid sender" "valid_pid dst" "sender \<noteq> dst"
    and run: "p_flags (proc_table s sender) = 0" and m: "m \<noteq> 0"
    and free: "(dst, sender) \<notin> (waits (proc_table s))\<^sup>+"
    and other: "other_can_run (proc_table s) sender"
  obtains s' where "send_block sender dst m s = Inr s'"
    "ipc_inv (Q(dst := Q dst @ [sender])) (proc_table s')" "msgmem s' = msgmem s"
    "p_flags (proc_table s' sender) = SENDING" "p_sendto (proc_table s' sender) = dst"
    "p_msg (proc_table s' sender) = m" "sched_choice (proc_table s') (p_proc_ready s')"
    "\<And>i. i \<noteq> sender \<Longrightarrow> ipc_view (proc_table s' i) = ipc_view (proc_table s i)"
    "\<And>i. static_view (proc_table s' i) = static_view (proc_table s i)"
proof -
  let ?s1 = "mark_sending sender dst m s"
  have pt1: "proc_table ?s1 = (proc_table s)(sender :=
      (proc_table s sender)\<lparr>p_flags := SENDING, p_sendto := dst, p_msg := m\<rparr>)"
    using run by (rule mark_sending_table)
  obtain pt' where eq: "enqueue_sender sender dst ?s1 = Inr (?s1\<lparr>proc_table := pt'\<rparr>)"
    and links: "same_but_links (proc_table ?s1) pt'"
    and path: "qpath (\<lambda>j. next_sending (pt' j)) (q_sending (pt' dst)) (Q dst @ [sender])"
    and frame: "\<And>i. i \<noteq> dst \<Longrightarrow> q_sending (pt' i) = q_sending (proc_table ?s1 i)"
      "\<And>j. j \<notin> set (Q dst) \<Longrightarrow> j \<noteq> sender \<Longrightarrow> next_sending (pt' j) = next_sending (proc_table ?s1 j)"
    using enqueue_sending [OF inv v(1,2) run] by blast
  note fields = same_but_links_fields [OF links]
  let ?s2 = "?s1\<lparr>proc_table := pt'\<rparr>"
  have inv': "ipc_inv (Q(dst := Q dst @ [sender])) pt'"
    using inv v(1) run v(2) v(3) [symmetric] pt1 m free links path frame
    by (rule ipc_inv_start_sending)
  have "can_run pt'"
    unfolding can_run_links [OF links] pt1 using other by (rule can_run_upd)
  then obtain c where b: "block sender ?s2 = Inr (?s2\<lparr>proc_table := sched_table pt', p_proc_ready := c\<rparr>)"
      "sched_choice (sched_table pt') c"
    using block_spec [of ?s2 sender] run by (auto simp: fields pt1)
  let ?s3 = "?s2\<lparr>proc_table := sched_table pt', p_proc_ready := c\<rparr>"
  have "p_recvfrom (proc_table s sender) = NO_TASK"
    using proc_ok_running [OF ipc_invD(1) [OF inv v(1)] run] by simp
  then have "send_block sender dst m s = Inr ?s3"
    using run m by (simp add: send_block_def eq b check_sending_def Let_def fields pt1)
  then show ?thesis
    using inv' b(2) run by (intro that [of ?s3]) (simp_all add: fields pt1 ipc_view_def static_view_def mark_sending_def)
qed

section \<open>Receiving\<close>

lemma recv_copy_spec:
  assumes inv: "ipc_inv Q (proc_table s)" and v: "valid_pid me" "valid_pid x"
    and run: "p_flags (proc_table s me) = 0" and m: "m \<noteq> 0"
    and x: "flag SENDING (proc_table s x)" "p_sendto (proc_table s x) = me"
    and split: "Q me = as @ x # bs" and prev: "as \<noteq> [] \<Longrightarrow> prev = Some (last as)"
  obtains s' where "res_bind (recv_checks me x s) (\<lambda>_. recv_copy me x prev m s) = Inr s'"
    "ipc_inv (Q(me := as @ bs)) (proc_table s')"
    "msgmem s' = (msgmem s)(la_of (proc_table s) me m :=
       msgmem s (la_of (proc_table s) x (p_msg (proc_table s x))))"
    "p_flags (proc_table s' x) = 0" "p_flags (proc_table s' me) = 0"
    "p_proc_ready s' = p_proc_ready s"
    "\<And>i. i \<noteq> x \<Longrightarrow> ipc_view (proc_table s' i) = ipc_view (proc_table s i)"
    "\<And>i. static_view (proc_table s' i) = static_view (proc_table s i)"
proof -
  have mx: "me \<noteq> x"
    using run x by auto
  have qd: "queue_ok Q (proc_table s) me"
    using ipc_invD(2) [OF inv v(1)] .
  have px: "p_flags (proc_table s x) = SENDING" "p_msg (proc_table s x) \<noteq> 0"
      "p_recvfrom (proc_table s x) = NO_TASK"
    using proc_ok_sending [OF ipc_invD(1) [OF inv v(2)] x(1)] by auto
  have pm: "p_msg (proc_table s me) = 0" "p_sendto (proc_table s me) = NO_TASK"
      "p_recvfrom (proc_table s me) = NO_TASK"
    using proc_ok_running [OF ipc_invD(1) [OF inv v(1)] run] by auto
  have "q_sending (proc_table s me) \<noteq> None"
    using qd split by (cases as) (auto simp: queue_ok_def)
  then have checks: "recv_checks me x s = Inr ()"
    using run px pm x by (simp add: recv_checks_def Let_def)
  obtain pt1 where eq: "dequeue_sender me x prev s = Inr (s\<lparr>proc_table := pt1\<rparr>)"
    and links: "same_but_links (proc_table s) pt1"
    and path: "qpath (\<lambda>j. next_sending (pt1 j)) (q_sending (pt1 me)) (as @ bs)"
    and frame: "\<And>i. i \<noteq> me \<Longrightarrow> q_sending (pt1 i) = q_sending (proc_table s i)"
      "\<And>j. j \<notin> set (Q me) \<Longrightarrow> next_sending (pt1 j) = next_sending (proc_table s j)"
  proof (rule dequeue_sender_spec [of s me as x bs prev])
    show "qpath (next_of s) (q_sending (proc_table s me)) (as @ x # bs)" "distinct (as @ x # bs)"
      using qd by (simp_all add: queue_ok_def split)
  qed (use prev split in auto)
  note fields = same_but_links_fields [OF links]
  have flat: "flat_native pt1"
    using ipc_invD(4) [OF inv] by (simp add: flat_native_def ldt_seg_linear_def fields)
  have la: "la_of pt1 i a = la_of (proc_table s) i a" for i a
    by (rule la_of_cong) (simp add: fields)
  define pt' where "pt' = pt1(x := (pt1 x)\<lparr>p_msg := 0, p_flags := 0, p_sendto := NO_TASK\<rparr>)"
  let ?s' = "s\<lparr>msgmem := (msgmem s)(la_of (proc_table s) me m :=
       msgmem s (la_of (proc_table s) x (p_msg (proc_table s x)))), proc_table := pt'\<rparr>"
  have "res_bind (recv_checks me x s) (\<lambda>_. recv_copy me x prev m s) = Inr ?s'"
    using m v px mx by (simp add: checks recv_copy_def eq va2la_flat [OF flat] fields la Let_def
        unblock_def upd_proc_def phys_copy_msg_def pt'_def)
  moreover have "ipc_inv (Q(me := as @ bs)) pt'"
    using inv v(2) x v(1) split links path frame pt'_def by (rule ipc_inv_stop_sending)
  ultimately show ?thesis
    using run mx by (intro that [of ?s']) (simp_all add: pt'_def fields ipc_view_def static_view_def)
qed

lemma recv_block_spec:
  assumes inv: "ipc_inv Q (proc_table s)" and v: "valid_pid me" "src = ANY \<or> valid_pid src"
    and run: "p_flags (proc_table s me) = 0" "has_int_msg (proc_table s me) = 0" and m: "m \<noteq> 0"
    and other: "other_can_run (proc_table s) me"
  obtains s' where "recv_block me src m s = Inr s'" "ipc_inv Q (proc_table s')"
    "msgmem s' = msgmem s" "p_flags (proc_table s' me) = RECEIVING"
    "p_recvfrom (proc_table s' me) = src" "p_msg (proc_table s' me) = m"
    "sched_choice (proc_table s') (p_proc_ready s')"
    "\<And>i. i \<noteq> me \<Longrightarrow> ipc_view (proc_table s' i) = ipc_view (proc_table s i)"
    "\<And>i. static_view (proc_table s' i) = static_view (proc_table s i)"
proof -
  let ?p = "(proc_table s me)\<lparr>p_recvfrom := src, p_flags := RECEIVING, p_msg := m\<rparr>"
  have pm: "p_sendto (proc_table s me) = NO_TASK"
    using proc_ok_running [OF ipc_invD(1) [OF inv v(1)] run(1)] by simp
  have inv1: "ipc_inv Q ((proc_table s)(me := ?p))"
    using pm m run by (intro ipc_inv_upd [OF inv]) (auto simp: proc_ok_def flag_def)
  let ?f = "\<lambda>p. p\<lparr>p_recvfrom := src, p_flags := p_flags p OR RECEIVING, p_msg := m\<rparr>"
  have f: "?f (proc_table s me) = ?p"
    using run by simp
  obtain c where b: "block me (upd_proc me ?f s) = Inr (s\<lparr>
        proc_table := sched_table ((proc_table s)(me := ?p)), p_proc_ready := c\<rparr>)"
      "sched_choice (sched_table ((proc_table s)(me := ?p))) c"
    using block_upd_spec [OF other, of ?f] unfolding f by auto
  let ?s' = "s\<lparr>proc_table := sched_table ((proc_table s)(me := ?p)), p_proc_ready := c\<rparr>"
  have "recv_block me src m s = Inr ?s'"
    unfolding recv_block_def b(1) using run m v(2) pm by (auto simp: Let_def valid_pid_def)
  then show ?thesis
    using b(2) inv1 by (intro that [of ?s']) (simp_all add: ipc_view_def static_view_def)
qed

lemma recv_wait_interrupt_spec:
  assumes inv: "ipc_inv Q (proc_table s)" and v: "valid_pid me"
    and run: "p_flags (proc_table s me) = 0" and other: "other_can_run (proc_table s) me"
  obtains s' where "recv_wait_interrupt me m s = Inr s'" "ipc_inv Q (proc_table s')"
    "msgmem s' = msgmem s" "p_flags (proc_table s' me) = RECEIVING"
    "p_recvfrom (proc_table s' me) = INTERRUPT" "p_msg (proc_table s' me) = m"
    "sched_choice (proc_table s') (p_proc_ready s')"
    "\<And>i. i \<noteq> me \<Longrightarrow> ipc_view (proc_table s' i) = ipc_view (proc_table s i)"
    "\<And>i. static_view (proc_table s' i) = static_view (proc_table s i)"
proof -
  let ?p = "(proc_table s me)\<lparr>p_flags := RECEIVING, p_recvfrom := INTERRUPT, p_msg := m\<rparr>"
  have pm: "p_sendto (proc_table s me) = NO_TASK"
    using proc_ok_running [OF ipc_invD(1) [OF inv v] run] by simp
  have inv1: "ipc_inv Q ((proc_table s)(me := ?p))"
    using pm run by (intro ipc_inv_upd [OF inv]) (auto simp: proc_ok_def flag_def)
  let ?f = "\<lambda>p. p\<lparr>p_flags := p_flags p OR RECEIVING, p_recvfrom := INTERRUPT, p_msg := m\<rparr>"
  have f: "?f (proc_table s me) = ?p"
    using run by simp
  obtain c where b: "block me (upd_proc me ?f s) = Inr (s\<lparr>
        proc_table := sched_table ((proc_table s)(me := ?p)), p_proc_ready := c\<rparr>)"
      "sched_choice (sched_table ((proc_table s)(me := ?p))) c"
    using block_upd_spec [OF other, of ?f] unfolding f by auto
  let ?s' = "s\<lparr>proc_table := sched_table ((proc_table s)(me := ?p)), p_proc_ready := c\<rparr>"
  from b inv1 show ?thesis
    by (intro that [of ?s']) (simp_all add: recv_wait_interrupt_def ipc_view_def static_view_def)
qed

lemma recv_interrupt_eq:
  assumes inv: "ipc_inv Q (proc_table s)" and v: "valid_pid me"
    and run: "p_flags (proc_table s me) = 0" and m: "m \<noteq> 0"
  shows "recv_interrupt me m s = Inr (s\<lparr>
      msgmem := (msgmem s)(la_of (proc_table s) me m :=
                           reset_msg\<lparr>source := INTERRUPT, mtype := HARD_INT\<rparr>),
      proc_table := (proc_table s)(me := (proc_table s me)\<lparr>has_int_msg := 0\<rparr>)\<rparr>)"
  using proc_ok_running [OF ipc_invD(1) [OF inv v] run] v run m
  by (simp add: recv_interrupt_def va2la_flat [OF ipc_invD(4) [OF inv]] Let_def upd_proc_def)

lemma ipc_inv_has_int:
  "ipc_inv Q pt \<Longrightarrow> ipc_inv Q (pt(i := (pt i)\<lparr>has_int_msg := b\<rparr>))"
  by (erule ipc_inv_cong [THEN iffD2, rotated -1]) simp_all

section \<open>Interrupts\<close>

lemma inform_int_spec:
  assumes inv: "ipc_inv Q (proc_table s)" and v: "valid_pid t"
  obtains s' where "inform_int t s = Inr s'" "ipc_inv Q (proc_table s')"
    "if flag RECEIVING (proc_table s t) \<and> p_recvfrom (proc_table s t) \<in> {INTERRUPT, ANY}
     then p_flags (proc_table s' t) = 0 \<and>
       mtype (msgmem s' (p_msg (proc_table s t))) = HARD_INT \<and>
       source (msgmem s' (p_msg (proc_table s t))) = INTERRUPT
     else has_int_msg (proc_table s' t) = 1 \<and> msgmem s' = msgmem s"
    "p_proc_ready s' = p_proc_ready s"
    "\<And>i. runnable (proc_table s) i \<Longrightarrow> runnable (proc_table s') i"
    "\<And>i. i \<noteq> t \<Longrightarrow> ipc_view (proc_table s' i) = ipc_view (proc_table s i)"
    "\<And>i. static_view (proc_table s' i) = static_view (proc_table s i)"
    "\<And>i. p_flags (proc_table s i) = FREE_SLOT \<Longrightarrow> p_flags (proc_table s' i) = FREE_SLOT"
proof (cases "flag RECEIVING (proc_table s t) \<and> p_recvfrom (proc_table s t) \<in> {INTERRUPT, ANY}")
  case True
  let ?p = "proc_table s t"
  have f: "p_flags ?p = RECEIVING" "p_sendto ?p = NO_TASK"
    using proc_ok_receiving [OF ipc_invD(1) [OF inv v]] True by force+
  have c: "flag RECEIVING ?p \<and> (p_recvfrom ?p = INTERRUPT \<or> p_recvfrom ?p = ANY)"
    using True by simp
  let ?p' = "?p\<lparr>p_msg := 0, has_int_msg := 0, p_flags := 0, p_recvfrom := NO_TASK\<rparr>"
  let ?s' = "s\<lparr>msgmem := (msgmem s)(p_msg ?p :=
               (msgmem s (p_msg ?p))\<lparr>source := INTERRUPT, mtype := HARD_INT\<rparr>),
               proc_table := (proc_table s)(t := ?p')\<rparr>"
  have "inform_int t s = Inr ?s'"
    unfolding inform_int_def Let_def if_P [OF c] unblock_def by (simp add: upd_proc_def f)
  moreover have "ipc_inv Q ((proc_table s)(t := ?p'))"
    using f by (intro ipc_inv_upd [OF inv]) (auto simp: proc_ok_def flag_def)
  ultimately show ?thesis
    using True f(1) by (intro that [of ?s']) (auto simp: runnable_def static_view_def)
next
  case False
  let ?s' = "upd_proc t (\<lambda>p. p\<lparr>has_int_msg := 1\<rparr>) s"
  have "inform_int t s = Inr ?s'"
    using False by (auto simp: inform_int_def Let_def)
  then show ?thesis
    using False inv
    by (intro that [of ?s']) (auto simp: ipc_inv_has_int runnable_def static_view_def)
qed

section \<open>The whole operations\<close>

text \<open>
  The abstract specification. A receiver that asks for anybody gets the oldest queued sender;
  one that asks for a given process gets that process if it is queued.
\<close>

definition next_sender :: "(int \<Rightarrow> int list) \<Rightarrow> int \<Rightarrow> int \<Rightarrow> int option" where
  "next_sender Q me src =
     (if src = ANY then (case Q me of [] \<Rightarrow> None | x # _ \<Rightarrow> Some x)
      else if src \<in> set (Q me) then Some src else None)"

definition interrupt_msg :: MESSAGE where
  "interrupt_msg = reset_msg\<lparr>source := INTERRUPT, mtype := HARD_INT\<rparr>"

definition recv_interrupted :: "int \<Rightarrow> int \<Rightarrow> kstate \<Rightarrow> bool" where
  "recv_interrupted me src s \<longleftrightarrow>
     has_int_msg (proc_table s me) \<noteq> 0 \<and> (src = ANY \<or> src = INTERRUPT)"

definition blocked_receiving :: "int \<Rightarrow> int \<Rightarrow> u32 \<Rightarrow> kstate \<Rightarrow> bool" where
  "blocked_receiving me src m s \<longleftrightarrow> p_flags (proc_table s me) = RECEIVING \<and>
     p_recvfrom (proc_table s me) = src \<and> p_msg (proc_table s me) = m"

definition recv_outcome ::
    "(int \<Rightarrow> int list) \<Rightarrow> int \<Rightarrow> int \<Rightarrow> u32 \<Rightarrow> kstate \<Rightarrow> kstate \<Rightarrow> bool" where
  "recv_outcome Q me src m s s' \<longleftrightarrow>
     (\<forall>i. static_view (proc_table s' i) = static_view (proc_table s i)) \<and>
     (if recv_interrupted me src s then
        ipc_inv Q (proc_table s') \<and> p_flags (proc_table s' me) = 0 \<and>
        has_int_msg (proc_table s' me) = 0 \<and>
        msgmem s' = (msgmem s)(la_of (proc_table s) me m := interrupt_msg) \<and>
        p_proc_ready s' = p_proc_ready s \<and>
        (\<forall>i. i \<noteq> me \<longrightarrow> ipc_view (proc_table s' i) = ipc_view (proc_table s i))
      else case next_sender Q me src of
        Some x \<Rightarrow>
          ipc_inv (Q(me := remove1 x (Q me))) (proc_table s') \<and>
          p_flags (proc_table s' me) = 0 \<and> p_flags (proc_table s' x) = 0 \<and>
          msgmem s' = (msgmem s)(la_of (proc_table s) me m :=
             msgmem s (la_of (proc_table s) x (p_msg (proc_table s x)))) \<and>
          p_proc_ready s' = p_proc_ready s \<and>
          (\<forall>i. i \<noteq> x \<longrightarrow> ipc_view (proc_table s' i) = ipc_view (proc_table s i))
      | None \<Rightarrow>
          ipc_inv Q (proc_table s') \<and> blocked_receiving me src m s' \<and> msgmem s' = msgmem s \<and>
          sched_choice (proc_table s') (p_proc_ready s') \<and>
          (\<forall>i. i \<noteq> me \<longrightarrow> ipc_view (proc_table s' i) = ipc_view (proc_table s i)))"

lemma queue_head:
  "queue_ok Q pt i \<Longrightarrow> q_sending (pt i) = (case Q i of [] \<Rightarrow> None | x # _ \<Rightarrow> Some x)"
  by (auto simp: queue_ok_def split: list.splits)

lemma queue_member:
  assumes "queue_ok Q pt i"
  shows "x \<in> set (Q i) \<longleftrightarrow> valid_pid x \<and> flag SENDING (pt x) \<and> p_sendto (pt x) = i"
  using assms by (auto simp: queue_ok_def waits_def)

lemma recv_given_sender:
  assumes inv: "ipc_inv Q (proc_table s)" and v: "valid_pid me"
    and run: "p_flags (proc_table s me) = 0" and m: "m \<noteq> 0" and x: "x \<in> set (Q me)"
  obtains s' prev where
    "of_loop (find_prev (next_of s) x (q_sending (proc_table s me)) None) = Inr prev"
    "res_bind (recv_checks me x s) (\<lambda>_. recv_copy me x prev m s) = Inr s'"
    "ipc_inv (Q(me := remove1 x (Q me))) (proc_table s')"
    "msgmem s' = (msgmem s)(la_of (proc_table s) me m :=
       msgmem s (la_of (proc_table s) x (p_msg (proc_table s x))))"
    "p_flags (proc_table s' x) = 0" "p_flags (proc_table s' me) = 0"
    "p_proc_ready s' = p_proc_ready s"
    "\<And>i. i \<noteq> x \<Longrightarrow> ipc_view (proc_table s' i) = ipc_view (proc_table s i)"
    "\<And>i. static_view (proc_table s' i) = static_view (proc_table s i)"
    "Q me = x # tl (Q me) \<Longrightarrow> prev = None"
proof -
  have q: "queue_ok Q (proc_table s) me"
    using ipc_invD(2) [OF inv v] .
  from x obtain as bs where split: "Q me = as @ x # bs" "x \<notin> set as"
    by (metis split_list_first)
  let ?prev = "if as = [] then None else Some (last as)"
  have "find_prev (next_of s) x (q_sending (proc_table s me)) None = Some ?prev"
    using q split by (intro find_prev_eq) (auto simp: queue_ok_def)
  then have loop: "of_loop (find_prev (next_of s) x (q_sending (proc_table s me)) None) = Inr ?prev"
    by simp
  have xs: "valid_pid x" "flag SENDING (proc_table s x)" "p_sendto (proc_table s x) = me"
    using x queue_member [OF q] by auto
  have rm: "as @ bs = remove1 x (Q me)"
    using split by (simp add: remove1_append)
  have hd: "?prev = None" if "Q me = x # tl (Q me)"
    using that split by (cases as) auto
  obtain s' where "res_bind (recv_checks me x s) (\<lambda>_. recv_copy me x ?prev m s) = Inr s'"
    "ipc_inv (Q(me := as @ bs)) (proc_table s')"
    "msgmem s' = (msgmem s)(la_of (proc_table s) me m :=
       msgmem s (la_of (proc_table s) x (p_msg (proc_table s x))))"
    "p_flags (proc_table s' x) = 0" "p_flags (proc_table s' me) = 0" "p_proc_ready s' = p_proc_ready s"
    "\<And>i. i \<noteq> x \<Longrightarrow> ipc_view (proc_table s' i) = ipc_view (proc_table s i)"
    "\<And>i. static_view (proc_table s' i) = static_view (proc_table s i)"
    using recv_copy_spec [OF inv v xs(1) run m xs(2,3) split(1), of ?prev] by auto
  then show ?thesis
    using loop hd unfolding rm by (intro that)
qed

lemma msg_receive_spec:
  assumes inv: "ipc_inv Q (proc_table s)" and v: "valid_pid me"
    and src: "src \<noteq> me" "src = ANY \<or> src = INTERRUPT \<or> valid_pid src"
    and run: "p_flags (proc_table s me) = 0"
    and m: "recv_interrupted me src s \<or> src \<noteq> INTERRUPT \<Longrightarrow> m \<noteq> 0"
    and noint: "valid_pid src \<Longrightarrow> src \<notin> set (Q me) \<Longrightarrow> has_int_msg (proc_table s me) = 0"
    and other: "\<not> recv_interrupted me src s \<Longrightarrow> next_sender Q me src = None \<Longrightarrow>
      other_can_run (proc_table s) me"
  shows "\<exists>s'. msg_receive me src m s = Inr s' \<and> recv_outcome Q me src m s s'"
proof -
  have q: "queue_ok Q (proc_table s) me"
    using ipc_invD(2) [OF inv v] .
  have inq: "src \<in> set (Q me) \<longleftrightarrow> flag SENDING (proc_table s src) \<and> p_sendto (proc_table s src) = me"
    if "valid_pid src"
    using that queue_member [OF q] by simp
  consider (int) "recv_interrupted me src s"
    | (wait) "\<not> recv_interrupted me src s" "src = INTERRUPT"
    | (any) x xs where "\<not> recv_interrupted me src s" "src = ANY" "Q me = x # xs"
    | (given) "valid_pid src" "src \<in> set (Q me)"
    | (none) "\<not> recv_interrupted me src s" "src = ANY \<and> Q me = [] \<or> valid_pid src \<and> src \<notin> set (Q me)"
    using src(2) by (cases "Q me") (auto simp: recv_interrupted_def)
  then show ?thesis
  proof cases
    case int
    then have "msg_receive me src m s = recv_interrupt me m s"
      using src(1) by (auto simp: msg_receive_def recv_interrupted_def)
    then show ?thesis
      using int run recv_interrupt_eq [OF inv v run m] ipc_inv_has_int [OF inv]
      by (auto simp: recv_outcome_def interrupt_msg_def static_view_def)
  next
    case wait
    then have "msg_receive me src m s = recv_wait_interrupt me m s"
      using src(1) by (auto simp: msg_receive_def recv_interrupted_def)
    moreover have "next_sender Q me src = None"
      using wait q by (auto simp: next_sender_def queue_member)
    ultimately show ?thesis
      using wait recv_wait_interrupt_spec [OF inv v run other, of m]
      by (auto simp: recv_outcome_def blocked_receiving_def)
  next
    case any
    from any(3) have "x \<in> set (Q me)" by simp
    have "m \<noteq> 0"
      using any(2) m by simp
    from recv_given_sender [OF inv v run this \<open>x \<in> set (Q me)\<close>] obtain s' where
      "res_bind (recv_checks me x s) (\<lambda>_. recv_copy me x None m s) = Inr s'"
      "ipc_inv (Q(me := remove1 x (Q me))) (proc_table s')"
      "msgmem s' = (msgmem s)(la_of (proc_table s) me m :=
         msgmem s (la_of (proc_table s) x (p_msg (proc_table s x))))"
      "p_flags (proc_table s' x) = 0" "p_flags (proc_table s' me) = 0" "p_proc_ready s' = p_proc_ready s"
      "\<And>i. i \<noteq> x \<Longrightarrow> ipc_view (proc_table s' i) = ipc_view (proc_table s i)"
      "\<And>i. static_view (proc_table s' i) = static_view (proc_table s i)"
      using any(3) by (metis list.sel(3))
    moreover have "msg_receive me src m s =
        res_bind (recv_checks me x s) (\<lambda>_. recv_copy me x None m s)"
      using any src(1) queue_head [OF q] by (auto simp: msg_receive_def recv_interrupted_def)
    ultimately show ?thesis
      using any by (auto simp: recv_outcome_def next_sender_def)
  next
    case given
    then have ni: "\<not> recv_interrupted me src s" "src \<noteq> ANY" "src \<noteq> INTERRUPT"
      using valid_pidD [of src] by (auto simp: recv_interrupted_def)
    obtain s' prev where
      "of_loop (find_prev (next_of s) src (q_sending (proc_table s me)) None) = Inr prev"
      "res_bind (recv_checks me src s) (\<lambda>_. recv_copy me src prev m s) = Inr s'"
      "ipc_inv (Q(me := remove1 src (Q me))) (proc_table s')"
      "msgmem s' = (msgmem s)(la_of (proc_table s) me m :=
         msgmem s (la_of (proc_table s) src (p_msg (proc_table s src))))"
      "p_flags (proc_table s' src) = 0" "p_flags (proc_table s' me) = 0"
      "p_proc_ready s' = p_proc_ready s"
      and frame: "\<And>i. i \<noteq> src \<Longrightarrow> ipc_view (proc_table s' i) = ipc_view (proc_table s i)"
      "\<And>i. static_view (proc_table s' i) = static_view (proc_table s i)"
      using recv_given_sender [OF inv v run m [OF disjI2 [OF ni(3)]] given(2)] by metis
    moreover have "q_sending (proc_table s me) \<noteq> None"
      using given(2) queue_head [OF q] by (cases "Q me") auto
    ultimately have "msg_receive me src m s = Inr s'"
      using given src(1) ni inq by (simp add: msg_receive_def)
    then show ?thesis
      using given ni frame \<open>ipc_inv _ (proc_table s')\<close> \<open>msgmem s' = _\<close> \<open>p_flags (proc_table s' src) = 0\<close>
        \<open>p_flags (proc_table s' me) = 0\<close> \<open>p_proc_ready s' = p_proc_ready s\<close>
      by (auto simp: recv_outcome_def next_sender_def)
  next
    case none
    then have eq: "msg_receive me src m s = recv_block me src m s"
      using src(1) queue_head [OF q] inq by (auto simp: msg_receive_def recv_interrupted_def)
    have i: "has_int_msg (proc_table s me) = 0" "src = ANY \<or> valid_pid src"
      using none noint by (auto simp: recv_interrupted_def)
    have n: "next_sender Q me src = None"
      using none by (auto simp: next_sender_def)
    have m': "m \<noteq> 0"
      using i(2) m valid_pidD [of src] by auto
    from n show ?thesis
      using none eq recv_block_spec [OF inv v i(2) run i(1) m' other [OF none(1) n]]
      by (auto simp: recv_outcome_def blocked_receiving_def)
  qed
qed


section \<open>The whole send\<close>

definition blocked_sending :: "int \<Rightarrow> int \<Rightarrow> u32 \<Rightarrow> kstate \<Rightarrow> bool" where
  "blocked_sending me dst m s \<longleftrightarrow> p_flags (proc_table s me) = SENDING \<and>
     p_sendto (proc_table s me) = dst \<and> p_msg (proc_table s me) = m"

definition send_outcome ::
    "(int \<Rightarrow> int list) \<Rightarrow> int \<Rightarrow> int \<Rightarrow> u32 \<Rightarrow> kstate \<Rightarrow> kstate \<Rightarrow> bool" where
  "send_outcome Q me dst m s s' \<longleftrightarrow>
     (\<forall>i. static_view (proc_table s' i) = static_view (proc_table s i)) \<and>
     (if receives_from (proc_table s dst) me then
        ipc_inv Q (proc_table s') \<and> p_flags (proc_table s' me) = 0 \<and> p_flags (proc_table s' dst) = 0 \<and>
        msgmem s' = (msgmem s)(la_of (proc_table s) dst (p_msg (proc_table s dst)) :=
           msgmem s (la_of (proc_table s) me m)) \<and> p_proc_ready s' = p_proc_ready s \<and>
        (\<forall>i. i \<noteq> dst \<longrightarrow> ipc_view (proc_table s' i) = ipc_view (proc_table s i))
      else
        ipc_inv (Q(dst := Q dst @ [me])) (proc_table s') \<and> blocked_sending me dst m s' \<and>
        msgmem s' = msgmem s \<and> sched_choice (proc_table s') (p_proc_ready s') \<and>
        (\<forall>i. i \<noteq> me \<longrightarrow> ipc_view (proc_table s' i) = ipc_view (proc_table s i)))"

lemma msg_send_cycle:
  assumes "ipc_inv Q (proc_table s)" "valid_pid me" "valid_pid dst" "me \<noteq> dst"
    "p_flags (proc_table s me) = 0" "(dst, me) \<in> (waits (proc_table s))\<^sup>+"
  shows "msg_send me dst m s = Inl (AssertFail ''p->p_msg'')"
  using assms deadlock_spec [OF assms(1,2,3,5)] by (simp add: msg_send_def)

lemma msg_send_no_cycle:
  assumes "ipc_inv Q (proc_table s)" "valid_pid me" "valid_pid dst" "me \<noteq> dst"
    "p_flags (proc_table s me) = 0" "(dst, me) \<notin> (waits (proc_table s))\<^sup>+"
  shows "msg_send me dst m s =
    (if receives_from (proc_table s dst) me then send_deliver me dst m s else send_block me dst m s)"
  using assms deadlock_spec [OF assms(1,2,3,5)] by (simp add: msg_send_def)

lemma msg_send_spec:
  assumes inv: "ipc_inv Q (proc_table s)" and v: "valid_pid me" "valid_pid dst" "me \<noteq> dst"
    and run: "p_flags (proc_table s me) = 0" and m: "m \<noteq> 0"
    and free: "(dst, me) \<notin> (waits (proc_table s))\<^sup>+"
    and rcv: "receives_from (proc_table s dst) me \<Longrightarrow> p_flags (proc_table s dst) = RECEIVING"
    and other: "\<not> receives_from (proc_table s dst) me \<Longrightarrow> other_can_run (proc_table s) me"
  shows "\<exists>s'. msg_send me dst m s = Inr s' \<and> send_outcome Q me dst m s s'"
proof (cases "receives_from (proc_table s dst) me")
  case True
  then show ?thesis
    using send_deliver_eq [OF inv v run m True rcv] ipc_inv_deliver [OF inv v(2) rcv] run v(3)
    by (simp add: msg_send_no_cycle [OF inv v run free] send_outcome_def static_view_def)
next
  case False
  then show ?thesis
    using send_block_spec [OF inv v run m free other]
    by (auto simp: msg_send_no_cycle [OF inv v run free] send_outcome_def blocked_sending_def)
qed

section \<open>What a successful operation says about the state before\<close>

text \<open>
  The operations stop with a failed assertion, or never return, unless their preconditions
  hold. So a call that returned took one of the branches specified above.
\<close>

lemma can_run_updD: "can_run (pt(i := p)) \<Longrightarrow> p_flags p \<noteq> 0 \<Longrightarrow> other_can_run pt i"
  by (auto simp: other_can_run_def can_run_def runnable_def split: if_splits)

lemma block_can_run: "block p s = Inr s' \<Longrightarrow> can_run (proc_table s)"
  using schedule_Some_can_run by (auto simp: block_def split: if_splits)

lemma flags_only_receiving:
  assumes "(f :: int) AND NOT RECEIVING = 0" "f AND RECEIVING \<noteq> 0"
  shows "f = RECEIVING"
proof (rule bit_eqI)
  fix n
  have r: "bit (RECEIVING :: int) k \<longleftrightarrow> k = 2" for k
    using bit_exp_iff [of 2 k, where 'a = int] by simp
  have only: "k = 2" if "bit f k" for k
    using that r [of k] bit_and_iff [of f "NOT RECEIVING" k] unfolding assms(1)
    by (simp add: bit_not_iff del: not_numeral_eq)
  have "bit f 2"
  proof (rule ccontr)
    assume "\<not> bit f 2"
    then have "f AND RECEIVING = 0"
      using only by (intro bit_eqI) (auto simp: bit_and_iff)
    with assms(2) show False ..
  qed
  then show "bit f n = bit (RECEIVING :: int) n"
    unfolding r using only [of n] by metis
qed

lemma send_deliver_InrD:
  assumes "send_deliver me dst m s = Inr s'" "flag RECEIVING (proc_table s dst)" "me \<noteq> dst"
  shows "m \<noteq> 0" "p_flags (proc_table s dst) = RECEIVING"
proof -
  show "m \<noteq> 0"
    using assms(1) by (auto simp: send_deliver_def split: if_splits)
  have "p_flags (proc_table s dst) AND NOT RECEIVING = 0"
    using assms(1) by (auto simp: send_deliver_def res_bind_eq_Inr unblock_def Let_def split: if_splits)
  then show "p_flags (proc_table s dst) = RECEIVING"
    using assms(2) unfolding flag_def by (rule flags_only_receiving)
qed

lemma recv_block_InrD:
  assumes "recv_block me src m s = Inr s'" "p_flags (proc_table s me) = 0"
  shows "m \<noteq> 0" "has_int_msg (proc_table s me) = 0" "other_can_run (proc_table s) me"
proof -
  let ?f = "\<lambda>p. p\<lparr>p_recvfrom := src, p_flags := p_flags p OR RECEIVING, p_msg := m\<rparr>"
  obtain s1 where b: "block me (upd_proc me ?f s) = Inr s1"
    and a: "p_msg (proc_table s1 me) \<noteq> 0" "has_int_msg (proc_table s1 me) = 0"
    using assms(1) by (auto simp: recv_block_def res_bind_eq_Inr Let_def split: if_splits)
  obtain c where "s1 = (upd_proc me ?f s)\<lparr>proc_table := sched_table (proc_table (upd_proc me ?f s)),
      p_proc_ready := c\<rparr>"
    using b by (rule block_InrD)
  with a show "m \<noteq> 0" "has_int_msg (proc_table s me) = 0"
    by simp_all
  show "other_can_run (proc_table s) me"
    using block_can_run [OF b] assms(2) by (intro can_run_updD [of _ _ "?f (proc_table s me)"]) simp_all
qed

lemma recv_wait_interrupt_InrD:
  assumes "recv_wait_interrupt me m s = Inr s'" "p_flags (proc_table s me) = 0"
  shows "other_can_run (proc_table s) me"
  using block_can_run [OF assms(1) [unfolded recv_wait_interrupt_def]] assms(2)
  by (intro can_run_updD [of _ _ "(proc_table s me)\<lparr>p_flags := p_flags (proc_table s me) OR RECEIVING,
     p_recvfrom := INTERRUPT, p_msg := m\<rparr>"]) simp_all


lemma send_block_InrD:
  assumes ok: "send_block me dst m s = Inr s'" and inv: "ipc_inv Q (proc_table s)"
    and v: "valid_pid me" "valid_pid dst" and run: "p_flags (proc_table s me) = 0"
  shows "m \<noteq> 0" "other_can_run (proc_table s) me"
proof -
  obtain pt' where eq: "enqueue_sender me dst (mark_sending me dst m s) =
      Inr ((mark_sending me dst m s)\<lparr>proc_table := pt'\<rparr>)"
    and links: "same_but_links (proc_table (mark_sending me dst m s)) pt'"
    using enqueue_sending [OF inv v run] by metis
  obtain s3 where b: "block me ((mark_sending me dst m s)\<lparr>proc_table := pt'\<rparr>) = Inr s3"
    and a: "p_msg (proc_table s3 me) \<noteq> 0"
    using ok by (auto simp: send_block_def eq check_sending_def res_bind_eq_Inr Let_def split: if_splits)
  obtain c where "s3 = (mark_sending me dst m s)\<lparr>proc_table := sched_table pt', p_proc_ready := c\<rparr>"
    using b by (rule block_InrD) simp
  with a show "m \<noteq> 0"
    by (simp add: same_but_links_fields [OF links] mark_sending_table [OF run])
  have "can_run (proc_table (mark_sending me dst m s))"
    using block_can_run [OF b] can_run_links [OF links] by simp
  then show "other_can_run (proc_table s) me"
    unfolding mark_sending_table [OF run] by (rule can_run_updD) simp
qed

lemma msg_send_Inr:
  assumes ok: "msg_send me dst m s = Inr s'" and inv: "ipc_inv Q (proc_table s)"
    and v: "valid_pid me" and run: "p_flags (proc_table s me) = 0"
  shows "send_outcome Q me dst m s s'" "valid_pid dst" "me \<noteq> dst" "m \<noteq> 0"
    "(dst, me) \<notin> (waits (proc_table s))\<^sup>+"
proof -
  show d: "valid_pid dst" "me \<noteq> dst"
    using ok by (auto simp: msg_send_def split: if_splits)
  show free: "(dst, me) \<notin> (waits (proc_table s))\<^sup>+"
    using ok msg_send_cycle [OF inv v d run] by fastforce
  note eq = msg_send_no_cycle [OF inv v d run free]
  have "m \<noteq> 0 \<and> (receives_from (proc_table s dst) me \<longrightarrow> p_flags (proc_table s dst) = RECEIVING) \<and>
      (\<not> receives_from (proc_table s dst) me \<longrightarrow> other_can_run (proc_table s) me)"
  proof (cases "receives_from (proc_table s dst) me")
    case True
    then show ?thesis
      using send_deliver_InrD [of me dst m s s'] ok d unfolding eq by (auto simp: receives_from_def)
  next
    case False
    then show ?thesis
      using send_block_InrD [OF _ inv v d(1) run] ok unfolding eq by auto
  qed
  then have pre: "m \<noteq> 0" "receives_from (proc_table s dst) me \<Longrightarrow> p_flags (proc_table s dst) = RECEIVING"
      "\<not> receives_from (proc_table s dst) me \<Longrightarrow> other_can_run (proc_table s) me"
    by blast+
  show "m \<noteq> 0" "send_outcome Q me dst m s s'"
    using pre(1) msg_send_spec [OF inv v d run pre(1) free pre(2,3)] ok by auto
qed


lemma msg_receive_Inr:
  assumes ok: "msg_receive me src m s = Inr s'" and inv: "ipc_inv Q (proc_table s)"
    and v: "valid_pid me" and run: "p_flags (proc_table s me) = 0"
    and src: "src = ANY \<or> src = INTERRUPT \<or> valid_pid src"
  shows "recv_outcome Q me src m s s'"
proof -
  have ne: "src \<noteq> me"
    using ok by (auto simp: msg_receive_def)
  have q: "queue_ok Q (proc_table s) me"
    using ipc_invD(2) [OF inv v] .
  have blk: "recv_block me src m s = Inr s'"
    if "next_sender Q me src = None" "\<not> recv_interrupted me src s" "src \<noteq> INTERRUPT"
    using that ok src queue_head [OF q] queue_member [OF q, of src]
    by (auto simp: msg_receive_def next_sender_def recv_interrupted_def split: if_splits list.splits)
  have other: "other_can_run (proc_table s) me"
    if "\<not> recv_interrupted me src s" "next_sender Q me src = None"
  proof (cases "src = INTERRUPT")
    case True
    then have "recv_wait_interrupt me m s = Inr s'"
      using that ok by (auto simp: msg_receive_def recv_interrupted_def split: if_splits)
    then show ?thesis
      by (rule recv_wait_interrupt_InrD) fact
  next
    case False
    with that show ?thesis
      using recv_block_InrD(3) [OF blk run] by blast
  qed
  have noint: "has_int_msg (proc_table s me) = 0" if "valid_pid src" "src \<notin> set (Q me)"
    using that recv_block_InrD(2) [OF blk run] valid_pidD [of src]
    by (auto simp: next_sender_def recv_interrupted_def)
  have m: "m \<noteq> 0" if "recv_interrupted me src s \<or> src \<noteq> INTERRUPT"
  proof (cases "next_sender Q me src = None \<and> \<not> recv_interrupted me src s")
    case True
    with that show ?thesis
      using recv_block_InrD(1) [OF blk run] by argo
  next
    case False
    with that show ?thesis
      using ok queue_head [OF q] queue_member [OF q, of src]
      by (auto simp: msg_receive_def recv_interrupted_def recv_interrupt_def recv_copy_def
          next_sender_def res_bind_eq_Inr split: if_splits list.splits)
  qed
  have "\<exists>s'. msg_receive me src m s = Inr s' \<and> recv_outcome Q me src m s s'"
    by (rule msg_receive_spec [OF inv v ne src run m noint other])
  then show ?thesis
    unfolding ok by (elim exE conjE) simp
qed


section \<open>No endless loop\<close>

text \<open>
  Under the invariant, and with another process to run, every failure of the operations is a
  failed assertion: the loops over the queues end, \<^verbatim>\<open>schedule\<close> returns, and no index is out of
  bounds.
\<close>

lemma only_asserts_block: "can_run (proc_table s) \<Longrightarrow> only_asserts (block p s)"
  using schedule_returns [of s] by (auto simp: block_def intro!: asserts)

lemma only_asserts_va2la: "flat_native pt \<Longrightarrow> valid_pid i \<Longrightarrow> only_asserts (va2la pt i a)"
  by (simp add: va2la_flat)

lemma only_asserts_unblock [asserts]: "only_asserts (unblock p s)"
  by (simp add: unblock_def)

lemma only_asserts_idle [asserts]: "only_asserts (assert_idle p s)"
  by (simp add: assert_idle_def)

lemma only_asserts_checks [asserts]: "only_asserts (recv_checks p q s)"
  by (simp add: recv_checks_def Let_def)

lemma only_asserts_dequeue [asserts]: "only_asserts (dequeue_sender me x prev s)"
  by (auto simp: dequeue_sender_def Let_def split: option.splits)

lemma only_asserts_deliver:
  assumes "ipc_inv Q (proc_table s)" "valid_pid me" "valid_pid dst"
  shows "only_asserts (send_deliver me dst m s)"
  using assms ipc_invD(4) [OF assms(1)] unfolding send_deliver_def Let_def
  by (intro asserts only_asserts_va2la) simp_all

lemma only_asserts_send_block:
  assumes inv: "ipc_inv Q (proc_table s)" and v: "valid_pid me" "valid_pid dst"
    and run: "p_flags (proc_table s me) = 0" and other: "other_can_run (proc_table s) me"
  shows "only_asserts (send_block me dst m s)"
proof -
  obtain pt' where eq: "enqueue_sender me dst (mark_sending me dst m s) =
      Inr ((mark_sending me dst m s)\<lparr>proc_table := pt'\<rparr>)"
    and links: "same_but_links (proc_table (mark_sending me dst m s)) pt'"
    using enqueue_sending [OF inv v run] by metis
  have "can_run pt'"
    unfolding can_run_links [OF links] using other by (simp add: mark_sending_def can_run_upd)
  then show ?thesis
    unfolding send_block_def eq by (auto simp: check_sending_def Let_def intro!: asserts only_asserts_block)
qed


lemma only_asserts_msg_send:
  assumes inv: "ipc_inv Q (proc_table s)" and v: "valid_pid me" "valid_pid dst"
    and run: "p_flags (proc_table s me) = 0" and other: "other_can_run (proc_table s) me"
  shows "only_asserts (msg_send me dst m s)"
proof (cases "me = dst")
  case False
  show ?thesis
  proof (cases "(dst, me) \<in> (waits (proc_table s))\<^sup>+")
    case True
    then show ?thesis
      using msg_send_cycle [OF inv v False run] by simp
  next
    case free: False
    show ?thesis
      unfolding msg_send_no_cycle [OF inv v False run free]
      using only_asserts_deliver [OF inv v] only_asserts_send_block [OF inv v run other] by simp
  qed
qed (simp add: msg_send_def)

lemma only_asserts_recv_copy:
  assumes "ipc_inv Q (proc_table s)" "valid_pid me" "valid_pid x"
  shows "only_asserts (recv_copy me x prev m s)"
proof -
  have "flat_native (proc_table s1)" if "dequeue_sender me x prev s = Inr s1" for s1
    using that ipc_invD(4) [OF assms(1)]
    by (auto simp: dequeue_sender_def Let_def flat_native_def ldt_seg_linear_def
        split: if_splits option.splits)
  then show ?thesis
    using assms unfolding recv_copy_def Let_def by (intro asserts only_asserts_va2la) simp_all
qed

lemma only_asserts_recv_block:
  "other_can_run (proc_table s) me \<Longrightarrow> only_asserts (recv_block me src m s)"
  unfolding recv_block_def Let_def
  by (intro asserts only_asserts_block) (simp_all add: can_run_upd asserts)

lemma only_asserts_msg_receive:
  assumes inv: "ipc_inv Q (proc_table s)" and v: "valid_pid me" and other: "other_can_run (proc_table s) me"
    and src: "src = ANY \<or> src = INTERRUPT \<or> valid_pid src"
  shows "only_asserts (msg_receive me src m s)"
proof -
  have q: "queue_ok Q (proc_table s) me"
    using ipc_invD(2) [OF inv v] .
  have int: "only_asserts (recv_interrupt me m s)"
    using only_asserts_va2la [OF ipc_invD(4) [OF inv] v] unfolding recv_interrupt_def Let_def
    by (intro asserts)
  have wait: "only_asserts (recv_wait_interrupt me m s)"
    unfolding recv_wait_interrupt_def by (rule only_asserts_block) (simp add: can_run_upd other)
  have any: "only_asserts (recv_copy me x None m s)" if "q_sending (proc_table s me) = Some x" for x
  proof -
    have "x \<in> set (Q me)"
      using that queue_head [OF q] by (auto split: list.splits)
    then show ?thesis
      using queue_member [OF q] only_asserts_recv_copy [OF inv v] by blast
  qed
  have given: "only_asserts (of_loop (find_prev (next_of s) src (q_sending (proc_table s me)) None))"
    if src: "valid_pid src" "flag SENDING (proc_table s src)" "p_sendto (proc_table s src) = me"
  proof -
    have "src \<in> set (Q me)"
      using src queue_member [OF q] by simp
    then obtain as bs where "Q me = as @ src # bs" "src \<notin> set as"
      by (metis split_list_first)
    then have "find_prev (next_of s) src (q_sending (proc_table s me)) None =
        Some (if as = [] then None else Some (last as))"
      using q by (intro find_prev_eq) (auto simp: queue_ok_def)
    then show ?thesis by simp
  qed
  show ?thesis
    unfolding msg_receive_def
    using src int wait any given only_asserts_recv_copy [OF inv v] only_asserts_recv_block [OF other]
    by (auto split: option.splits intro!: asserts)
qed

section \<open>A rendezvous in two steps\<close>

lemma la_of_static: "static_view (pt' i) = static_view (pt i) \<Longrightarrow> la_of pt' i a = la_of pt i a"
  by (rule la_of_cong) (simp add: static_view_def)

lemma send_then_receive:
  assumes inv: "ipc_inv Q (proc_table s)" and v: "valid_pid me" "valid_pid dst"
    and run: "p_flags (proc_table s me) = 0" "p_flags (proc_table s dst) = 0"
    and snd: "msg_send me dst m s = Inr s1"
    and q: "Q dst = []" "has_int_msg (proc_table s dst) = 0" "m' \<noteq> 0"
  shows "\<exists>s2. msg_receive dst ANY m' s1 = Inr s2 \<and>
    msgmem s2 = (msgmem s)(la_of (proc_table s) dst m' := msgmem s (la_of (proc_table s) me m)) \<and>
    p_flags (proc_table s2 me) = 0 \<and> p_flags (proc_table s2 dst) = 0"
proof -
  note o = msg_send_Inr [OF snd inv v(1) run(1)]
  have nr: "\<not> receives_from (proc_table s dst) me"
    using run(2) by (simp add: receives_from_def)
  note o1 = o(1) [unfolded send_outcome_def if_not_P [OF nr]]
  let ?Q = "Q(dst := Q dst @ [me])"
  have ds: "ipc_view (proc_table s1 dst) = ipc_view (proc_table s dst)"
    using o1 o(3) by auto
  then have d: "p_flags (proc_table s1 dst) = 0" "has_int_msg (proc_table s1 dst) = 0"
    using run(2) q(2) by (auto simp: ipc_view_def)
  have inv1: "ipc_inv ?Q (proc_table s1)"
    using o1 by blast
  have nx: "next_sender ?Q dst ANY = Some me" "\<not> recv_interrupted dst ANY s1"
    using q(1) d(2) by (simp_all add: next_sender_def recv_interrupted_def)
  obtain s2 where r: "msg_receive dst ANY m' s1 = Inr s2" "recv_outcome ?Q dst ANY m' s1 s2"
    using msg_receive_spec [OF inv1 v(2), of ANY m'] d nx q(3) valid_pidD [OF v(2)] by auto
  have la: "la_of (proc_table s1) i a = la_of (proc_table s) i a" for i a
    using o1 by (intro la_of_static) blast
  from r nx o1 show ?thesis
    by (auto simp: recv_outcome_def la blocked_sending_def)
qed


section \<open>Receiving from a named process with an interrupt pending\<close>

lemma recv_block_pending:
  assumes inv: "ipc_inv Q (proc_table s)" and v: "valid_pid me" "valid_pid src" "src \<noteq> me"
    and nq: "src \<notin> set (Q me)" and run: "p_flags (proc_table s me) = 0" and m: "m \<noteq> 0"
    and i: "has_int_msg (proc_table s me) \<noteq> 0" and other: "other_can_run (proc_table s) me"
  shows "msg_receive me src m s = Inl (AssertFail ''has_int_msg == 0'')"
proof -
  let ?f = "\<lambda>p. p\<lparr>p_recvfrom := src, p_flags := p_flags p OR RECEIVING, p_msg := m\<rparr>"
  obtain c where b: "block me (upd_proc me ?f s) = Inr (s\<lparr>
        proc_table := sched_table ((proc_table s)(me := ?f (proc_table s me))), p_proc_ready := c\<rparr>)"
    using block_upd_spec [OF other, of ?f] run by auto
  have "p_sendto (proc_table s me) = NO_TASK"
    using proc_ok_running [OF ipc_invD(1) [OF inv v(1)] run] by simp
  then have "recv_block me src m s = Inl (AssertFail ''has_int_msg == 0'')"
    unfolding recv_block_def b using run m i valid_pidD [OF v(2)] by (simp add: Let_def)
  moreover have "msg_receive me src m s = recv_block me src m s"
    using v nq valid_pidD [OF v(2)] queue_member [OF ipc_invD(2) [OF inv v(1)], of src]
    by (auto simp: msg_receive_def)
  ultimately show ?thesis by simp
qed

end
