(* ===== verification/Boot.thy ===== *)
theory Boot
  imports Ipc_Steps
begin

text \<open>
  Start-up: the static tables of \<^verbatim>\<open>kernel/global.c\<close>, the interrupt controller
  (\<^verbatim>\<open>kernel/i8259A.c\<close>), the descriptor tables built by \<^verbatim>\<open>init_prot\<close> (\<^verbatim>\<open>kernel/protect.c\<close>) and
  the process table built by \<^verbatim>\<open>kernel_main\<close> (\<^verbatim>\<open>kernel/main.c\<close>).

  Addresses fixed by the linker are arguments: \<open>addr\<close> gives the address of a function by name,
  \<open>ldts_addr\<close> that of the LDT inside a process table entry, \<open>tss_addr\<close> that of the TSS and
  \<open>task_stack\<close> that of the task stacks. The \<open>gdt\<close> is the table set up by the loader, and
  \<open>kmap\<close> the answer of \<^verbatim>\<open>get_kernel_map\<close> (\<open>None\<close>: it returned an error).
\<close>

section \<open>Static tables\<close>

record TASK =
  initial_eip :: string
  stacksize :: u32
  task_name :: string

abbreviation (input) STACK_SIZE :: u32 where "STACK_SIZE \<equiv> 0xA000"
abbreviation (input) STACK_SIZE_TOTAL :: u32 where "STACK_SIZE_TOTAL \<equiv> 7 * STACK_SIZE"

definition task_table :: "TASK list" where
  "task_table =
    [\<lparr>initial_eip = ''task_sys'', stacksize = STACK_SIZE, task_name = ''task_sys''\<rparr>,
     \<lparr>initial_eip = ''task_tty'', stacksize = STACK_SIZE, task_name = ''task_tty''\<rparr>,
     \<lparr>initial_eip = ''task_hd'', stacksize = STACK_SIZE, task_name = ''task_hd''\<rparr>,
     \<lparr>initial_eip = ''task_fs'', stacksize = STACK_SIZE, task_name = ''task_fs''\<rparr>,
     \<lparr>initial_eip = ''task_mm'', stacksize = STACK_SIZE, task_name = ''task_mm''\<rparr>]"

definition user_procs :: "TASK list" where
  "user_procs =
    [\<lparr>initial_eip = ''Init'', stacksize = STACK_SIZE, task_name = ''INIT''\<rparr>,
     \<lparr>initial_eip = ''testA'', stacksize = STACK_SIZE, task_name = ''testA''\<rparr>]"

definition dd_map :: "int list" where
  "dd_map = [INVALID_DRIVER, INVALID_DRIVER, INVALID_DRIVER, TASK_HD, TASK_TTY, INVALID_DRIVER]"

section \<open>Interrupt gates\<close>

record GATE =
  offset_low :: u16
  selector :: u16
  dcount :: u8
  gate_attr :: u8
  offset_high :: u16

definition init_idt_desc :: "u8 \<Rightarrow> u8 \<Rightarrow> u32 \<Rightarrow> u8 \<Rightarrow> (u8 \<Rightarrow> GATE) \<Rightarrow> u8 \<Rightarrow> GATE" where
  "init_idt_desc vector desc_type base privilege idt = idt(vector := (idt vector)\<lparr>
     offset_low := ucast (base AND 0xFFFF),
     selector := SELECTOR_KERNEL_CS,
     dcount := 0,
     gate_attr := push_bit 5 privilege OR desc_type,
     offset_high := ucast (drop_bit 16 base AND 0xFFFF)\<rparr>)"

definition gate_offset :: "GATE \<Rightarrow> u32" where
  "gate_offset g = push_bit 16 (ucast (offset_high g)) OR ucast (offset_low g)"

definition gate_dpl :: "GATE \<Rightarrow> u8" where
  "gate_dpl g = drop_bit 5 (gate_attr g) AND 3"

definition idt_entries :: "(u8 \<times> string \<times> u8) list" where
  "idt_entries =
    [(0x0, ''divide_error'', PRIVILEGE_KRNL), (0x1, ''single_step_exception'', PRIVILEGE_KRNL),
     (0x2, ''nmi'', PRIVILEGE_KRNL), (0x3, ''breakpoint_exception'', PRIVILEGE_USR),
     (0x4, ''overflow'', PRIVILEGE_USR), (0x5, ''bounds_check'', PRIVILEGE_KRNL),
     (0x6, ''inval_opcode'', PRIVILEGE_KRNL), (0x7, ''copr_not_available'', PRIVILEGE_KRNL),
     (0x8, ''double_fault'', PRIVILEGE_KRNL), (0x9, ''copr_seg_overrun'', PRIVILEGE_KRNL),
     (0xA, ''inval_tss'', PRIVILEGE_KRNL), (0xB, ''segment_not_present'', PRIVILEGE_KRNL),
     (0xC, ''stack_exception'', PRIVILEGE_KRNL), (0xD, ''general_protection'', PRIVILEGE_KRNL),
     (0xE, ''page_fault'', PRIVILEGE_KRNL), (0x10, ''copr_error'', PRIVILEGE_KRNL),
     (0x20, ''hwint00'', PRIVILEGE_KRNL), (0x21, ''hwint01'', PRIVILEGE_KRNL),
     (0x22, ''hwint02'', PRIVILEGE_KRNL), (0x23, ''hwint03'', PRIVILEGE_KRNL),
     (0x24, ''hwint04'', PRIVILEGE_KRNL), (0x25, ''hwint05'', PRIVILEGE_KRNL),
     (0x26, ''hwint06'', PRIVILEGE_KRNL), (0x27, ''hwint07'', PRIVILEGE_KRNL),
     (0x28, ''hwint08'', PRIVILEGE_KRNL), (0x29, ''hwint09'', PRIVILEGE_KRNL),
     (0x2A, ''hwint10'', PRIVILEGE_KRNL), (0x2B, ''hwint11'', PRIVILEGE_KRNL),
     (0x2C, ''hwint12'', PRIVILEGE_KRNL), (0x2D, ''hwint13'', PRIVILEGE_KRNL),
     (0x2E, ''hwint14'', PRIVILEGE_KRNL), (0x2F, ''hwint15'', PRIVILEGE_KRNL),
     (0x90, ''sys_call'', PRIVILEGE_USR)]"

fun init_idt :: "(string \<Rightarrow> u32) \<Rightarrow> (u8 \<times> string \<times> u8) list \<Rightarrow> (u8 \<Rightarrow> GATE) \<Rightarrow> u8 \<Rightarrow> GATE" where
  "init_idt addr [] idt = idt"
| "init_idt addr ((vec, handler, privilege) # ents) idt =
     init_idt addr ents (init_idt_desc vec DA_386IGate (addr handler) privilege idt)"

section \<open>The interrupt controller\<close>

text \<open>Bytes written to the I/O ports, in order, and the table of interrupt handlers.\<close>

record irq_state =
  outb :: "(u16 \<times> u8) list"
  irq_table :: "int \<Rightarrow> string"

definition out_byte :: "u16 \<Rightarrow> u8 \<Rightarrow> irq_state \<Rightarrow> irq_state" where
  "out_byte port v s = s\<lparr>outb := outb s @ [(port, v)]\<rparr>"

definition init_8259A :: "irq_state \<Rightarrow> irq_state" where
  "init_8259A s =
     (let s1 = out_byte INT_S_CTLMASK 0xFF (out_byte INT_M_CTLMASK 0xFF
                (out_byte INT_S_CTLMASK 1 (out_byte INT_M_CTLMASK 1
                (out_byte INT_S_CTLMASK 2 (out_byte INT_M_CTLMASK 4
                (out_byte INT_S_CTLMASK 0x28 (out_byte INT_M_CTLMASK 0x20
                (out_byte INT_S_CTL 0x11 (out_byte INT_M_CTL 0x11 s)))))))))
      in s1\<lparr>irq_table := (\<lambda>i. if 0 \<le> i \<and> i < NR_IRQS then ''spurious_irq'' else irq_table s1 i)\<rparr>)"

section \<open>The descriptor tables\<close>

text \<open>The registers saved in the TSS carry the prefix \<open>t_\<close>, to tell them from the stack frame's.\<close>

record TSS =
  backlink :: u32
  esp0 :: u32
  ss0 :: u32
  esp1 :: u32
  ss1 :: u32
  esp2 :: u32
  ss2 :: u32
  cr3 :: u32
  t_eip :: u32
  t_flags :: u32
  t_eax :: u32
  t_ecx :: u32
  t_edx :: u32
  t_ebx :: u32
  t_esp :: u32
  t_ebp :: u32
  t_esi :: u32
  t_edi :: u32
  t_es :: u32
  t_cs :: u32
  t_ss :: u32
  t_ds :: u32
  t_fs :: u32
  t_gs :: u32
  t_ldt :: u32
  trap :: u16
  iobase :: u16

definition zero_tss :: TSS where
  "zero_tss = \<lparr>backlink = 0, esp0 = 0, ss0 = 0, esp1 = 0, ss1 = 0, esp2 = 0, ss2 = 0, cr3 = 0,
     t_eip = 0, t_flags = 0, t_eax = 0, t_ecx = 0, t_edx = 0, t_ebx = 0, t_esp = 0, t_ebp = 0,
     t_esi = 0, t_edi = 0, t_es = 0, t_cs = 0, t_ss = 0, t_ds = 0, t_fs = 0, t_gs = 0, t_ldt = 0,
     trap = 0, iobase = 0\<rparr>"

record prot_state =
  gdt :: "nat \<Rightarrow> DESCRIPTOR"
  idt :: "u8 \<Rightarrow> GATE"
  tss :: TSS
  prot_table :: proc_tab
  irqs :: irq_state

definition zero_descriptor :: DESCRIPTOR where
  "zero_descriptor = \<lparr>limit_low = 0, base_low = 0, base_mid = 0, attrl = 0,
     limit_high_attr2 = 0, base_high = 0\<rparr>"

definition zero_frame :: STACK_FRAME where
  "zero_frame = \<lparr>gs = 0, fs = 0, es = 0, ds = 0, edi = 0, esi = 0, ebp = 0, kernel_esp = 0,
     ebx = 0, edx = 0, ecx = 0, eax = 0, retaddr = 0, eip = 0, cs = 0, eflags = 0, esp = 0, ss = 0\<rparr>"

text \<open>A process table entry after \<^verbatim>\<open>memset\<close>.\<close>

definition zero_process :: PROCESS where
  "zero_process = \<lparr>regs = zero_frame, ldt_sel = 0, ldts = (\<lambda>_. zero_descriptor), p_ticks = 0,
     priority = 0, p_name = replicate 16 (CHR 0x00), p_flags = 0, p_msg = 0, p_recvfrom = 0, p_sendto = 0,
     has_int_msg = 0, q_sending = None, next_sending = None, p_parent = 0, exit_status = 0,
     filp = (\<lambda>_. None)\<rparr>"

definition seg_base :: "(nat \<Rightarrow> DESCRIPTOR) \<Rightarrow> u16 \<Rightarrow> u32" where
  "seg_base g = seg2addr (\<lambda>i. g (unat i))"

fun init_ldts :: "(int \<Rightarrow> u32) \<Rightarrow> int list \<Rightarrow> nat \<Rightarrow> prot_state \<Rightarrow> prot_state" where
  "init_ldts ldts_addr [] ldt_index s = s"
| "init_ldts ldts_addr (i # ps) ldt_index s =
     init_ldts ldts_addr ps (ldt_index + 1)
       (s\<lparr>prot_table := (prot_table s)(i := zero_process\<lparr>ldt_sel := push_bit 3 (of_nat ldt_index)\<rparr>),
          gdt := (gdt s)(ldt_index :=
            init_descriptor (gdt s ldt_index) (seg_base (gdt s) SELECTOR_KERNEL_DS + ldts_addr i)
              (8 * of_nat LDT_SIZE - 1) DA_LDT)\<rparr>)"

definition init_prot :: "(string \<Rightarrow> u32) \<Rightarrow> (int \<Rightarrow> u32) \<Rightarrow> u32 \<Rightarrow> prot_state \<Rightarrow> prot_state" where
  "init_prot addr ldts_addr tss_addr s =
     (let s1 = s\<lparr>irqs := init_8259A (irqs s)\<rparr>;
          s2 = s1\<lparr>idt := init_idt addr idt_entries (idt s1)\<rparr>;
          s3 = init_ldts ldts_addr all_procs INDEX_LDT_FIRST s2
      in s3\<lparr>tss := zero_tss\<lparr>ss0 := ucast SELECTOR_KERNEL_DS, iobase := TSS_BYTES\<rparr>,
            gdt := (gdt s3)(INDEX_TSS :=
              init_descriptor (gdt s3 INDEX_TSS) (seg_base (gdt s3) SELECTOR_KERNEL_DS + tss_addr)
                (ucast (TSS_BYTES - 1)) DA_386TSS)\<rparr>)"

section \<open>The process table\<close>

record boot_env =
  b_addr :: "string \<Rightarrow> u32"
  b_gdt :: "nat \<Rightarrow> DESCRIPTOR"
  b_kmap :: "(u32 \<times> u32) option"
  b_stack :: u32

definition boot_regs :: "u32 \<Rightarrow> u32 \<Rightarrow> u32 \<Rightarrow> u32 \<Rightarrow> STACK_FRAME \<Rightarrow> STACK_FRAME" where
  "boot_regs rpl ip sp fl r = r\<lparr>
     gs := (ucast SELECTOR_KERNEL_GS AND SA_RPL_MASK) OR rpl,
     cs := rpl OR SA_TIL, fs := 8 OR rpl OR SA_TIL, es := 8 OR rpl OR SA_TIL,
     ds := 8 OR rpl OR SA_TIL, ss := 8 OR rpl OR SA_TIL,
     eip := ip, esp := sp, eflags := fl\<rparr>"

text \<open>
  The LDT of \<^verbatim>\<open>INIT\<close> covers the kernel image; that of every other process started at boot is a
  copy of the kernel's flat segments with other attributes.
\<close>

definition boot_ldts :: "boot_env \<Rightarrow> int \<Rightarrow> u16 \<Rightarrow> (nat \<Rightarrow> DESCRIPTOR) \<Rightarrow> nat \<Rightarrow> DESCRIPTOR" where
  "boot_ldts e i privilege l =
     (case (i = NR_TASKS, b_kmap e) of
        (True, Some (base, limit)) \<Rightarrow>
          l(INDEX_LDT_C := init_descriptor (l INDEX_LDT_C) 0 (drop_bit LIMIT_4K_SHIFT (base + limit))
              (DA_32 OR DA_C OR push_bit 5 privilege OR DA_LIMIT_4K),
            INDEX_LDT_RW := init_descriptor (l INDEX_LDT_RW) 0 (drop_bit LIMIT_4K_SHIFT (base + limit))
              (DA_32 OR DA_DRW OR push_bit 5 privilege OR DA_LIMIT_4K))
      | _ \<Rightarrow>
          l(0 := (b_gdt e (unat (drop_bit 3 SELECTOR_KERNEL_CS)))
                   \<lparr>attrl := ucast (DA_C OR push_bit 5 privilege)\<rparr>,
            1 := (b_gdt e (unat (drop_bit 3 SELECTOR_KERNEL_DS)))
                   \<lparr>attrl := ucast (DA_DRW OR push_bit 5 privilege)\<rparr>))"

definition boot_task :: "int \<Rightarrow> TASK" where
  "boot_task i = (if i < NR_TASKS then task_table ! nat i else user_procs ! nat (i - NR_TASKS))"

definition boot_entry :: "boot_env \<Rightarrow> int \<Rightarrow> u32 \<Rightarrow> PROCESS \<Rightarrow> PROCESS" where
  "boot_entry e i p_stack p =
     (let p_task = boot_task i;
          (fl, rpl, privilege, prio) =
            (if i < NR_TASKS then (0x1202, SA_RPL1, PRIVILEGE_TASK, 15)
             else (0x202, SA_RPL3, PRIVILEGE_USER, 5))
      in p\<lparr>p_name := copy_name (task_name p_task) (p_name p),
           ldts := boot_ldts e i privilege (ldts p),
           regs := boot_regs rpl (b_addr e (initial_eip p_task)) p_stack fl (regs p),
           p_ticks := prio, priority := prio,
           p_parent := NO_TASK, p_flags := 0, p_recvfrom := NO_TASK, p_sendto := NO_TASK,
           has_int_msg := 0, q_sending := None, next_sending := None, p_msg := 0,
           filp := (\<lambda>j. if j < NR_FILES then None else filp p j)\<rparr>)"

fun kernel_main_loop :: "boot_env \<Rightarrow> int list \<Rightarrow> u32 \<Rightarrow> proc_tab \<Rightarrow> proc_tab option" where
  "kernel_main_loop e [] p_stack pt = Some pt"
| "kernel_main_loop e (i # ps) p_stack pt =
     (if i \<ge> NR_TASKS + NR_NATIVE_PROCS
      then kernel_main_loop e ps p_stack (pt(i := (pt i)\<lparr>p_flags := FREE_SLOT\<rparr>))
      else if i = NR_TASKS \<and> b_kmap e = None then None
      else kernel_main_loop e ps (p_stack - stacksize (boot_task i))
             (pt(i := boot_entry e i p_stack (pt i))))"

text \<open>\<open>None\<close>: \<^verbatim>\<open>kernel_main\<close> returns without starting any process.\<close>

definition kernel_main :: "boot_env \<Rightarrow> kstate \<Rightarrow> kstate option" where
  "kernel_main e s =
     (case kernel_main_loop e all_procs (b_stack e + STACK_SIZE_TOTAL) (proc_table s) of
        None \<Rightarrow> None
      | Some pt \<Rightarrow> Some (s\<lparr>proc_table := pt, ticks := 0, k_reenter := 0, p_proc_ready := 0\<rparr>))"


section \<open>Gates\<close>

lemma gate_offset_init:
  "gate_offset (init_idt_desc v t base p tab v) = base"
proof (rule bit_word_eqI)
  fix n assume "n < LENGTH(32)"
  then consider "n < 16" | "16 \<le> n" "n < 32"
    by fastforce
  then show "bit (gate_offset (init_idt_desc v t base p tab v)) n = bit base n"
    by cases (auto simp: gate_offset_def init_idt_desc_def mask_numerals bit_simps)
qed

lemma init_idt_desc_other: "v \<noteq> w \<Longrightarrow> init_idt_desc w t base p tab v = tab v"
  by (simp add: init_idt_desc_def)

lemma init_idt_notin: "v \<notin> fst ` set ents \<Longrightarrow> init_idt addr ents tab v = tab v"
  by (induction addr ents tab rule: init_idt.induct) (auto simp: init_idt_desc_other)

lemma init_idt_in:
  "distinct (map fst ents) \<Longrightarrow> (v, h, p) \<in> set ents \<Longrightarrow>
   \<exists>tab'. init_idt addr ents tab v = init_idt_desc v DA_386IGate (addr h) p tab' v"
proof (induction addr ents tab rule: init_idt.induct)
  case (2 addr vec handler privilege ents tab)
  then show ?case
    by (cases "vec = v") (force simp: init_idt_notin)+
qed simp

lemma distinct_idt_entries: "distinct (map fst idt_entries)"
  by (simp add: idt_entries_def)

text \<open>A gate a ring 3 program may enter with \<^verbatim>\<open>int n\<close>: present, and of privilege level 3.\<close>

definition user_gate :: "GATE \<Rightarrow> bool" where
  "user_gate g \<longleftrightarrow> bit (gate_attr g) 7 \<and> gate_dpl g = 3"

lemma user_gate_init: "user_gate (init_idt_desc v DA_386IGate base p tab v) \<longleftrightarrow> p AND 3 = 3"
proof -
  have "drop_bit 5 (push_bit 5 p OR (0x8E :: u8)) AND 3 = p AND 3"
  proof (rule bit_word_eqI)
    fix n assume "n < LENGTH(8)"
    have "bit (3 :: u8) n \<longleftrightarrow> n = 0 \<or> n = 1"
      using bit_mask_iff [of 2 n, where 'a = u8] by (auto simp: mask_eq_exp_minus_1 less_Suc_eq)
    then show "bit (drop_bit 5 (push_bit 5 p OR (0x8E :: u8)) AND 3) n = bit (p AND 3) n"
      by (auto simp: bit_simps)
  qed
  then show ?thesis
    by (simp add: user_gate_def gate_dpl_def init_idt_desc_def bit_simps)
qed


section \<open>Descriptors of the processes' LDTs\<close>

lemma seg_base_upd [simp]:
  "j \<noteq> 2 \<Longrightarrow> seg_base (g(j := d)) SELECTOR_KERNEL_DS = seg_base g SELECTOR_KERNEL_DS"
  by (simp add: seg_base_def seg2addr_def Let_def drop_bit_eq_div)

lemma seg_base_eq: "seg_base g SELECTOR_KERNEL_DS = descriptor_base (g 2)"
  by (simp add: seg_base_def seg2addr_eq_base drop_bit_eq_div)

definition ldt_desc :: "(int \<Rightarrow> u32) \<Rightarrow> (nat \<Rightarrow> DESCRIPTOR) \<Rightarrow> int \<Rightarrow> DESCRIPTOR" where
  "ldt_desc la g i = init_descriptor (g (nat (5 + i))) (seg_base g SELECTOR_KERNEL_DS + la i)
     (8 * of_nat LDT_SIZE - 1) DA_LDT"

lemma ldt_desc_upd [simp]: "0 \<le> k \<Longrightarrow> k < i \<Longrightarrow> ldt_desc la (g(nat (5 + k) := d)) i = ldt_desc la g i"
  by (simp add: ldt_desc_def nat_eq_iff)

lemma init_ldts_from:
  assumes "0 \<le> k"
  shows "gdt (init_ldts la [k..36] (nat (5 + k)) s) j =
           (if nat (5 + k) \<le> j \<and> j \<le> 41 then ldt_desc la (gdt s) (int j - 5) else gdt s j) \<and>
         prot_table (init_ldts la [k..36] (nat (5 + k)) s) i =
           (if k \<le> i \<and> i \<le> 36 then zero_process\<lparr>ldt_sel := push_bit 3 (of_int (5 + i))\<rparr>
            else prot_table s i)"
  using assms
proof (induction "nat (37 - k)" arbitrary: k s)
  case 0
  then show ?case by (auto simp: nat_le_iff)
next
  case (Suc n)
  let ?s1 = "s\<lparr>prot_table := (prot_table s)(k := zero_process\<lparr>ldt_sel := push_bit 3 (of_nat (nat (5 + k)))\<rparr>),
          gdt := (gdt s)(nat (5 + k) := ldt_desc la (gdt s) k)\<rparr>"
  have k: "k \<le> 36" "nat (5 + k) + 1 = nat (5 + (k + 1))"
    using Suc.hyps(2) Suc.prems by auto
  then have step: "init_ldts la [k..36] (nat (5 + k)) s = init_ldts la [k + 1..36] (nat (5 + (k + 1))) ?s1"
    by (subst upto_rec1) (simp_all add: ldt_desc_def)
  have sel: "(of_nat (nat (5 + k)) :: u16) = of_int (5 + k)"
    using Suc.prems by simp
  have IH: "gdt (init_ldts la [k + 1..36] (nat (5 + (k + 1))) ?s1) j =
           (if nat (5 + (k + 1)) \<le> j \<and> j \<le> 41 then ldt_desc la (gdt ?s1) (int j - 5) else gdt ?s1 j) \<and>
         prot_table (init_ldts la [k + 1..36] (nat (5 + (k + 1))) ?s1) i =
           (if k + 1 \<le> i \<and> i \<le> 36 then zero_process\<lparr>ldt_sel := push_bit 3 (of_int (5 + i))\<rparr>
            else prot_table ?s1 i)"
    using Suc.hyps(2) Suc.prems by (intro Suc.hyps(1)) auto
  show ?case
    unfolding step using IH k(1) Suc.prems
    by (auto simp: sel le_nat_iff nat_le_iff split: if_splits)
qed

lemma init_ldts_gdt:
  "gdt (init_ldts la all_procs 5 s) j =
     (if 5 \<le> j \<and> j \<le> 41 then ldt_desc la (gdt s) (int j - 5) else gdt s j)"
  using init_ldts_from [of 0 la s j] by (simp add: all_procs_def)

lemma init_ldts_table:
  "valid_pid i \<Longrightarrow> prot_table (init_ldts la all_procs 5 s) i =
     zero_process\<lparr>ldt_sel := push_bit 3 (of_int (5 + i))\<rparr>"
  using init_ldts_from [of 0 la s _ i] by (simp add: all_procs_def valid_pid_def)

section \<open>The process table after \<^verbatim>\<open>kernel_main\<close>\<close>

lemma stacksize_boot: "0 \<le> i \<Longrightarrow> i < 7 \<Longrightarrow> stacksize (boot_task i) = STACK_SIZE"
proof -
  assume "0 \<le> i" "i < 7"
  then have "i \<in> {0, 1, 2, 3, 4, 5, 6}" by auto
  then show ?thesis
    by (auto simp: boot_task_def task_table_def user_procs_def)
qed

definition booted :: "boot_env \<Rightarrow> u32 \<Rightarrow> int \<Rightarrow> PROCESS \<Rightarrow> PROCESS" where
  "booted e sp i p = (if i \<ge> 7 then p\<lparr>p_flags := FREE_SLOT\<rparr> else boot_entry e i sp p)"

lemma kernel_main_loop_from:
  assumes "0 \<le> k" "b_kmap e \<noteq> None"
  shows "\<exists>pt'. kernel_main_loop e [k..36] sp pt = Some pt' \<and>
    (\<forall>i. pt' i = (if k \<le> i \<and> i \<le> 36 then booted e (sp - of_int ((i - k) * 0xA000)) i (pt i) else pt i))"
  using assms(1)
proof (induction "nat (37 - k)" arbitrary: k sp pt)
  case 0
  then show ?case by (auto simp: nat_le_iff)
next
  case (Suc n)
  let ?sp = "if k < 7 then sp - STACK_SIZE else sp"
  let ?pt = "pt(k := booted e sp k (pt k))"
  have k: "k \<le> 36"
    using Suc.hyps(2) Suc.prems by auto
  then have step: "kernel_main_loop e [k..36] sp pt = kernel_main_loop e [k + 1..36] ?sp ?pt"
    using Suc.prems assms(2) by (subst upto_rec1) (simp_all add: booted_def stacksize_boot)
  obtain pt' where *: "kernel_main_loop e [k + 1..36] ?sp ?pt = Some pt'"
    "\<And>i. pt' i = (if k + 1 \<le> i \<and> i \<le> 36 then booted e (?sp - of_int ((i - (k + 1)) * 0xA000)) i (?pt i)
       else ?pt i)"
  proof -
    have "n = nat (37 - (k + 1))" "0 \<le> k + 1"
      using Suc.hyps(2) Suc.prems by linarith+
    from Suc.hyps(1) [OF this, of ?sp ?pt] show ?thesis
      using that by blast
  qed
  have "pt' i = (if k \<le> i \<and> i \<le> 36 then booted e (sp - of_int ((i - k) * 0xA000)) i (pt i) else pt i)" for i
    unfolding * using k by (auto simp: booted_def algebra_simps)
  with * step show ?case by auto
qed

text \<open>The stack pointer of process \<open>i\<close>: its stack is the \<open>i\<close>-th from the top.\<close>

definition boot_sp :: "boot_env \<Rightarrow> int \<Rightarrow> u32" where
  "boot_sp e i = b_stack e + of_int ((7 - i) * 0xA000)"

lemma kernel_main_spec:
  assumes "b_kmap e \<noteq> None"
  obtains s' where "kernel_main e s = Some s'" "p_proc_ready s' = 0" "k_reenter s' = 0" "ticks s' = 0"
    "\<And>i. valid_pid i \<Longrightarrow> proc_table s' i = booted e (boot_sp e i) i (proc_table s i)"
proof -
  obtain pt' where *: "kernel_main_loop e [0..36] (b_stack e + STACK_SIZE_TOTAL) (proc_table s) = Some pt'"
    "\<And>i. pt' i = (if 0 \<le> i \<and> i \<le> 36
       then booted e (b_stack e + STACK_SIZE_TOTAL - of_int ((i - 0) * 0xA000)) i (proc_table s i)
       else proc_table s i)"
    using kernel_main_loop_from [of 0 e "b_stack e + STACK_SIZE_TOTAL" "proc_table s"] assms by auto
  have "kernel_main e s = Some (s\<lparr>proc_table := pt', ticks := 0, k_reenter := 0, p_proc_ready := 0\<rparr>)"
    using *(1) by (simp add: kernel_main_def all_procs_def)
  then show ?thesis
    by (rule that) (simp_all add: *(2) valid_pid_def boot_sp_def algebra_simps)
qed


text \<open>The boot table satisfies the invariant of message passing, with empty queues.\<close>

lemma descriptor_base_attr [simp]: "descriptor_base (d\<lparr>attrl := a\<rparr>) = descriptor_base d"
  by (simp add: descriptor_base_def)

lemma boot_ldts_flat:
  assumes "b_kmap e \<noteq> None" "descriptor_base (b_gdt e 2) = 0"
  shows "descriptor_base (boot_ldts e i priv l INDEX_LDT_RW) = 0"
  using assms by (cases "i = NR_TASKS") (auto simp: boot_ldts_def drop_bit_eq_div split: prod.splits)

lemma boot_entry_fields [simp]:
  "p_flags (boot_entry e i sp p) = 0" "p_msg (boot_entry e i sp p) = 0"
  "p_recvfrom (boot_entry e i sp p) = NO_TASK" "p_sendto (boot_entry e i sp p) = NO_TASK"
  "q_sending (boot_entry e i sp p) = None" "next_sending (boot_entry e i sp p) = None"
  "has_int_msg (boot_entry e i sp p) = 0" "p_parent (boot_entry e i sp p) = NO_TASK"
  "priority (boot_entry e i sp p) = (if i < NR_TASKS then 15 else 5)"
  "p_ticks (boot_entry e i sp p) = (if i < NR_TASKS then 15 else 5)"
  "p_name (boot_entry e i sp p) = copy_name (task_name (boot_task i)) (p_name p)"
  "esp (regs (boot_entry e i sp p)) = sp"
  "eip (regs (boot_entry e i sp p)) = b_addr e (initial_eip (boot_task i))"
  by (simp_all add: boot_entry_def boot_regs_def Let_def)

lemma c_name_boot [simp]:
  assumes "0 \<le> i" "i < 7"
  shows "c_name (copy_name (task_name (boot_task i)) a) = task_name (boot_task i)"
proof -
  have "\<forall>i\<in>set [0..6]. CHR 0x00 \<notin> set (task_name (boot_task i))"
    by code_simp
  with assms show ?thesis by simp
qed

lemma boot_entry_flat:
  assumes "b_kmap e \<noteq> None" "descriptor_base (b_gdt e 2) = 0"
  shows "ldt_seg_linear (boot_entry e i sp p) INDEX_LDT_RW = 0"
  using boot_ldts_flat [OF assms] by (simp add: ldt_seg_linear_def boot_entry_def Let_def)

lemma boot_ipc_inv:
  assumes pt: "\<And>i. valid_pid i \<Longrightarrow> pt i = booted e (sp i) i (pt0 i)"
    and zero: "\<And>i. valid_pid i \<Longrightarrow> q_sending (pt0 i) = None"
    and e: "b_kmap e \<noteq> None" "descriptor_base (b_gdt e 2) = 0"
  shows "ipc_inv (\<lambda>_. []) pt"
proof -
  have fl: "\<not> flag SENDING (pt i)" "\<not> flag RECEIVING (pt i)" if "valid_pid i" for i
    using that by (simp_all add: pt booted_def flag_def)
  then have w: "waits pt = {}"
    by (auto simp: waits_def)
  have "proc_ok i (pt i)" if "valid_pid i" for i
    using that fl [OF that] by (simp add: proc_ok_def pt booted_def)
  moreover have "queue_ok (\<lambda>_. []) pt i" if "valid_pid i" for i
    using that zero by (simp add: queue_ok_def w pt booted_def)
  moreover have "flat_native pt"
    using boot_entry_flat [OF e] by (simp add: flat_native_def pt booted_def)
  ultimately show ?thesis
    by (simp add: ipc_inv_def w acyclic_def)
qed


lemma boot_sp_uint:
  assumes "uint (b_stack e) + 7 * 0xA000 < 2 ^ 32" "0 \<le> i" "i < 7"
  shows "uint (boot_sp e i) = uint (b_stack e) + (7 - i) * 0xA000"
proof -
  have eq: "boot_sp e i = word_of_int (uint (b_stack e) + (7 - i) * 0xA000)"
    by (simp add: boot_sp_def)
  have "0 \<le> uint (b_stack e) + (7 - i) * 0xA000" "uint (b_stack e) + (7 - i) * 0xA000 < 2 ^ LENGTH(32)"
    using assms by auto
  then show ?thesis
    unfolding eq by (rule uint_of_int_small)
qed

section \<open>What \<^verbatim>\<open>init_prot\<close> leaves behind\<close>

lemma init_ldts_idt: "idt (init_ldts la ps n s) = idt s"
  by (induction la ps n s rule: init_ldts.induct) simp_all

lemma init_prot_idt: "idt (init_prot addr la ta s) = init_idt addr idt_entries (idt s)"
  by (simp add: init_prot_def Let_def init_ldts_idt)

lemma idt_offsets:
  "\<forall>(v, h, p) \<in> set idt_entries. gate_offset (init_idt addr idt_entries tab v) = addr h"
proof (clarify, goal_cases)
  case (1 v h p)
  then show ?case
    using init_idt_in [OF distinct_idt_entries 1, of addr tab] gate_offset_init by auto
qed

lemma idt_user_entries: "(v, h, p) \<in> set idt_entries \<Longrightarrow> p AND 3 = 3 \<longleftrightarrow> v \<in> {0x3, 0x4, 0x90}"
  by (auto simp: idt_entries_def)

lemma idt_vectors: "{0x3, 0x4, 0x90} \<subseteq> fst ` set idt_entries"
  by (simp add: idt_entries_def)

lemma idt_user_gates:
  assumes "\<forall>v. gate_attr (tab v) = 0"
  shows "user_gate (init_idt addr idt_entries tab v) \<longleftrightarrow> v \<in> {0x3, 0x4, 0x90}"
proof (cases "v \<in> fst ` set idt_entries")
  case True
  then obtain h p where e: "(v, h, p) \<in> set idt_entries" by force
  obtain tab' where "init_idt addr idt_entries tab v = init_idt_desc v DA_386IGate (addr h) p tab' v"
    using init_idt_in [OF distinct_idt_entries e] by blast
  then show ?thesis
    using user_gate_init [of v "addr h" p tab'] idt_user_entries [OF e] by simp
next
  case False
  then have "v \<notin> {0x3, 0x4, 0x90}"
    using idt_vectors by blast
  with False show ?thesis
    using assms by (simp add: init_idt_notin user_gate_def)
qed

lemma ldt_index: "valid_pid i \<Longrightarrow> unat (push_bit 3 (of_int (5 + i)) :: u16) div 8 = nat (5 + i)"
proof -
  assume "valid_pid i"
  then have "0 \<le> i" "i < 37" by (auto simp: valid_pid_def)
  then have "unat (push_bit 3 (of_int (5 + i)) :: u16) = nat ((5 + i) * 8)"
    by (simp add: push_bit_eq_mult unat_word_ariths unsigned_of_int take_bit_int_eq_self nat_mult_distrib)
  then show ?thesis
    using \<open>0 \<le> i\<close> by (simp add: nat_mult_distrib)
qed

lemma init_prot_ldts:
  assumes "valid_pid i"
  shows "unat (ldt_sel (prot_table (init_prot addr la ta s) i)) div 8 = nat (5 + i) \<and>
    nat (5 + i) < GDT_SIZE \<and>
    descriptor_base (gdt (init_prot addr la ta s) (nat (5 + i))) = descriptor_base (gdt s 2) + la i \<and>
    (\<forall>j < 4. gdt (init_prot addr la ta s) j = gdt s j)"
proof -
  have i: "0 \<le> i" "i < 37"
    using assms by (auto simp: valid_pid_def)
  have sel: "unat (ldt_sel (prot_table (init_prot addr la ta s) i)) div 8 = nat (5 + i)"
    using ldt_index [OF assms] by (simp add: init_prot_def Let_def init_ldts_table [OF assms])
  have "gdt (init_prot addr la ta s) (nat (5 + i)) = ldt_desc la (gdt s) i"
    using i by (simp add: init_prot_def Let_def init_ldts_gdt nat_eq_iff le_nat_iff nat_le_iff)
  then have "descriptor_base (gdt (init_prot addr la ta s) (nat (5 + i))) = descriptor_base (gdt s 2) + la i"
    by (simp add: ldt_desc_def seg_base_eq)
  moreover have "\<forall>j < 4. gdt (init_prot addr la ta s) j = gdt s j"
    by (simp add: init_prot_def Let_def init_ldts_gdt)
  ultimately show ?thesis
    using sel i by (simp add: nat_less_iff)
qed


text \<open>Cleared tables, as the kernel's uninitialised data has them.\<close>

definition blank_prot :: prot_state where
  "blank_prot = \<lparr>gdt = (\<lambda>_. zero_descriptor),
     idt = (\<lambda>_. \<lparr>offset_low = 0, selector = 0, dcount = 0, gate_attr = 0, offset_high = 0\<rparr>),
     tss = zero_tss, prot_table = (\<lambda>_. zero_process),
     irqs = \<lparr>outb = [], irq_table = (\<lambda>_. ''spurious_irq'')\<rparr>\<rparr>"


lemma blank_base [simp]: "descriptor_base (gdt blank_prot i) = 0"
  by (simp add: blank_prot_def zero_descriptor_def descriptor_base_def)

end
