(* ===== verification/Kernel.thy ===== *)
theory Kernel
  imports Boot
begin

text \<open>
  The kernel as a transition system. A step is one entry into the kernel: the system call of the
  running process, the clock interrupt, the disk interrupt, a key press being noted, or the
  running process writing to its own memory. Kernel entries are atomic here: an interrupt that
  arrives while another entry is being handled is ordered before or after it.
\<close>

section \<open>Steps\<close>

text \<open>
  The process \<^verbatim>\<open>testA\<close> (entry 6) is an empty endless loop, so it never makes a system call: it
  is the kernel's idle process.
\<close>

abbreviation (input) TESTA :: int where "TESTA \<equiv> 6"

inductive kstep :: "kstate \<Rightarrow> kstate \<Rightarrow> bool" where
  kstep_sendrec: "p_proc_ready s \<noteq> TESTA \<Longrightarrow>
     sys_sendrec function src_dest m (p_proc_ready s) s = Inr s' \<Longrightarrow> kstep s s'"
| kstep_clock: "clock_handler s = Inr s' \<Longrightarrow> kstep s s'"
| kstep_hd: "inform_int TASK_HD s = Inr s' \<Longrightarrow> kstep s s'"
| kstep_key: "kstep s (s\<lparr>key_pressed := b\<rparr>)"
| kstep_user: "kstep s (s\<lparr>msgmem := mm\<rparr>)"

inductive_cases kstepE: "kstep s s'"

text \<open>
  A reachable state: \<^verbatim>\<open>kernel_main\<close> started on a cleared process table (\<^verbatim>\<open>init_prot\<close> clears it)
  with the loader's flat data segment, followed by any steps.
\<close>

inductive kreach :: "boot_env \<Rightarrow> kstate \<Rightarrow> bool" for e where
  kreach_boot: "kernel_main e s0 = Some s \<Longrightarrow> descriptor_base (b_gdt e 2) = 0 \<Longrightarrow>
     (\<And>i. valid_pid i \<Longrightarrow> q_sending (proc_table s0 i) = None) \<Longrightarrow> kreach e s"
| kreach_step: "kreach e s \<Longrightarrow> kstep s s' \<Longrightarrow> kreach e s'"

section \<open>The invariant\<close>

definition kinv :: "kstate \<Rightarrow> bool" where
  "kinv s \<longleftrightarrow> (\<exists>Q. ipc_inv Q (proc_table s)) \<and> runnable (proc_table s) (p_proc_ready s) \<and>
     runnable (proc_table s) TESTA \<and>
     (\<forall>i. valid_pid i \<and> p_flags (proc_table s i) \<noteq> FREE_SLOT \<longrightarrow> priority (proc_table s i) > 0)"

lemma kinvD:
  assumes "kinv s"
  shows "runnable (proc_table s) (p_proc_ready s)" "runnable (proc_table s) TESTA"
    "valid_pid i \<Longrightarrow> p_flags (proc_table s i) \<noteq> FREE_SLOT \<Longrightarrow> priority (proc_table s i) > 0"
  using assms by (auto simp: kinv_def)

lemma sched_choice_runnable: "sched_choice pt c \<Longrightarrow> runnable pt c"
  by (simp add: sched_choice_def)

text \<open>The invariant does not depend on the messages in memory.\<close>

lemma kinv_other [simp]: "kinv (s\<lparr>msgmem := mm\<rparr>) = kinv s" "kinv (s\<lparr>key_pressed := b\<rparr>) = kinv s"
  by (simp_all add: kinv_def)

text \<open>The idle process lets every other process block.\<close>

lemma kinv_other_can_run: "kinv s \<Longrightarrow> i \<noteq> TESTA \<Longrightarrow> other_can_run (proc_table s) i"
  using kinvD(2) [of s] kinvD(3) [of s TESTA] unfolding other_can_run_def
  by (intro exI [of _ TESTA]) (auto simp: runnable_def)

lemma kinv_can_run: "kinv s \<Longrightarrow> can_run (proc_table s)"
  using kinvD(2) [of s] kinvD(3) [of s TESTA] unfolding can_run_def
  by (intro exI [of _ TESTA]) (auto simp: runnable_def)

text \<open>
  How the invariant carries over: the static fields stay, no free slot is taken into use, and
  the new running process and the idle process are runnable.
\<close>

lemma kinv_step:
  assumes k: "kinv s" and Q: "ipc_inv Q (proc_table s')"
    and st: "\<And>i. static_view (proc_table s' i) = static_view (proc_table s i)"
    and free: "\<And>i. p_flags (proc_table s i) = FREE_SLOT \<Longrightarrow> p_flags (proc_table s' i) = FREE_SLOT"
    and run: "runnable (proc_table s') (p_proc_ready s')" "runnable (proc_table s') TESTA"
  shows "kinv s'"
proof -
  have "priority (proc_table s' i) > 0" if "valid_pid i" "p_flags (proc_table s' i) \<noteq> FREE_SLOT" for i
    using kinvD(3) [OF k that(1)] free [of i] that(2) st [of i] by (auto simp: static_view_def)
  then show ?thesis
    using Q run by (auto simp: kinv_def)
qed

lemma view_flags: "ipc_view p = ipc_view q \<Longrightarrow> p_flags p = p_flags q"
  by (simp add: ipc_view_def)

lemma send_outcome_kinv:
  assumes k: "kinv s" and o: "send_outcome Q (p_proc_ready s) dst m s s'" and t: "p_proc_ready s \<noteq> TESTA"
  shows "kinv s'"
proof (cases "receives_from (proc_table s dst) (p_proc_ready s)")
  case True
  note o' = o [unfolded send_outcome_def if_P [OF True]]
  have v: "i \<noteq> dst \<Longrightarrow> p_flags (proc_table s' i) = p_flags (proc_table s i)" for i
    using o' view_flags by blast
  have d: "p_flags (proc_table s dst) \<noteq> FREE_SLOT" "p_flags (proc_table s dst) \<noteq> 0"
    using True by (auto simp: receives_from_def)
  show ?thesis
  proof (rule kinv_step [OF k])
    show "p_flags (proc_table s' i) = FREE_SLOT" if "p_flags (proc_table s i) = FREE_SLOT" for i
      using that d(1) v [of i] by (cases "i = dst") auto
    show "runnable (proc_table s') (p_proc_ready s')" "runnable (proc_table s') TESTA"
      using kinvD(1,2) [OF k] d(2) v [of TESTA] o' by (auto simp: runnable_def)
  qed (use o' in auto)
next
  case False
  note o' = o [unfolded send_outcome_def if_not_P [OF False]]
  have v: "i \<noteq> p_proc_ready s \<Longrightarrow> p_flags (proc_table s' i) = p_flags (proc_table s i)" for i
    using o' view_flags by blast
  have d: "p_flags (proc_table s (p_proc_ready s)) \<noteq> FREE_SLOT"
    using kinvD(1) [OF k] by (auto simp: runnable_def)
  show ?thesis
  proof (rule kinv_step [OF k])
    show "p_flags (proc_table s' i) = FREE_SLOT" if "p_flags (proc_table s i) = FREE_SLOT" for i
      using that d v [of i] by (cases "i = p_proc_ready s") auto
    show "runnable (proc_table s') (p_proc_ready s')"
      using o' sched_choice_runnable by blast
    show "runnable (proc_table s') TESTA"
      using kinvD(2) [OF k] v [OF t [symmetric]] by (auto simp: runnable_def)
  qed (use o' in auto)
qed

text \<open>A receive changes the flags of one process \<open>x\<close> only: the receiver's, or its sender's.\<close>

lemma recv_outcome_kinv:
  assumes k: "kinv s" and o: "recv_outcome Q (p_proc_ready s) src m s s'" and t: "p_proc_ready s \<noteq> TESTA"
    and inv: "ipc_inv Q (proc_table s)"
  shows "kinv s'"
proof -
  let ?me = "p_proc_ready s"
  have me: "p_flags (proc_table s ?me) = 0" "valid_pid ?me"
    using kinvD(1) [OF k] by (auto simp: runnable_def)
  obtain Q' where Q': "ipc_inv Q' (proc_table s')"
    using o by (auto simp: recv_outcome_def split: if_splits option.splits)
  have st: "static_view (proc_table s' i) = static_view (proc_table s i)" for i
    using o by (auto simp: recv_outcome_def)
  obtain x where v: "\<And>i. i \<noteq> x \<Longrightarrow> p_flags (proc_table s' i) = p_flags (proc_table s i)"
    and x: "p_flags (proc_table s x) \<noteq> FREE_SLOT" "p_flags (proc_table s' x) = 0 \<or> x = ?me"
    and cur: "p_proc_ready s' = ?me \<and> p_flags (proc_table s' ?me) = 0 \<or>
      sched_choice (proc_table s') (p_proc_ready s')"
  proof (cases "recv_interrupted ?me src s \<or> next_sender Q ?me src = None")
    case True
    then show ?thesis
      using o me by (intro that [of ?me]) (auto simp: recv_outcome_def ipc_view_def split: if_splits)
  next
    case False
    then obtain y where y: "next_sender Q ?me src = Some y" by auto
    then have "y \<in> set (Q ?me)"
      by (auto simp: next_sender_def split: if_splits list.splits)
    then have "flag SENDING (proc_table s y)"
      using queue_member [OF ipc_invD(2) [OF inv me(2)]] by simp
    then have "p_flags (proc_table s y) \<noteq> FREE_SLOT" by auto
    then show ?thesis
      using False y o me by (intro that [of y]) (auto simp: recv_outcome_def ipc_view_def)
  qed
  show ?thesis
  proof (rule kinv_step [OF k Q' st])
    show "p_flags (proc_table s' i) = FREE_SLOT" if "p_flags (proc_table s i) = FREE_SLOT" for i
      using that x(1) v [of i] by (cases "i = x") auto
    show "runnable (proc_table s') (p_proc_ready s')"
      using cur me sched_choice_runnable by (auto simp: runnable_def)
    show "runnable (proc_table s') TESTA"
      using kinvD(2) [OF k] v [of TESTA] x(2) t by (cases "x = TESTA") (auto simp: runnable_def)
  qed
qed

lemma sys_sendrec_kinv:
  assumes ok: "sys_sendrec f src_dest m (p_proc_ready s) s = Inr s'" and k: "kinv s"
    and t: "p_proc_ready s \<noteq> TESTA"
  shows "kinv s'"
proof -
  obtain Q where Q: "ipc_inv Q (proc_table s)"
    using k by (auto simp: kinv_def)
  obtain mla where d: "valid_pid src_dest \<or> src_dest = ANY \<or> src_dest = INTERRUPT"
    and c: "(let s1 = s\<lparr>msgmem := (msgmem s)(mla := (msgmem s mla)\<lparr>source := p_proc_ready s\<rparr>)\<rparr>
       in if f = SEND then msg_send (p_proc_ready s) src_dest m s1
          else if f = RECEIVE then msg_receive (p_proc_ready s) src_dest m s1
          else Inl (Panic ''{sys_sendrec} invalid function'')) = Inr s'"
    using ok by (auto simp: sys_sendrec_def res_bind_eq_Inr split: if_splits)
  define s1 where "s1 = s\<lparr>msgmem := (msgmem s)(mla := (msgmem s mla)\<lparr>source := p_proc_ready s\<rparr>)\<rparr>"
  have s1: "ipc_inv Q (proc_table s1)" "valid_pid (p_proc_ready s1)"
      "p_flags (proc_table s1 (p_proc_ready s1)) = 0" "kinv s1" "p_proc_ready s1 \<noteq> TESTA"
    using Q t k kinvD(1) [OF k] by (simp_all add: s1_def runnable_def)
  from c have "msg_send (p_proc_ready s1) src_dest m s1 = Inr s' \<or>
      msg_receive (p_proc_ready s1) src_dest m s1 = Inr s'"
    by (simp add: s1_def Let_def split: if_splits)
  then show ?thesis
    using msg_send_Inr(1) [OF _ s1(1-3)] msg_receive_Inr [OF _ s1(1-3)] d
      send_outcome_kinv [OF s1(4) _ s1(5)] recv_outcome_kinv [OF s1(4) _ s1(5,1)] by blast
qed

lemma inform_int_kinv:
  assumes "inform_int t s = Inr s'" "kinv s" "valid_pid t"
  shows "kinv s'"
proof -
  obtain Q where Q: "ipc_inv Q (proc_table s)"
    using assms(2) by (auto simp: kinv_def)
  show ?thesis
    by (rule inform_int_spec [OF Q assms(3)])
      (use assms(1) kinvD(1,2) [OF assms(2)] in \<open>auto intro: kinv_step [OF assms(2)]\<close>)
qed

definition after_tick :: "kstate \<Rightarrow> kstate" where
  "after_tick s = upd_proc (p_proc_ready s) (\<lambda>p. p\<lparr>p_ticks := p_ticks p - 1\<rparr>) (s\<lparr>ticks := ticks s + 1\<rparr>)"

lemma clock_handler_eq:
  "clock_handler s = (if k_reenter s \<noteq> 0 then Inr (after_tick s) else
     res_bind (of_loop (schedule (after_tick s))) (\<lambda>s3.
       if key_pressed s3 \<noteq> 0 then inform_int TASK_TTY s3 else Inr s3))"
  by (simp add: clock_handler_def after_tick_def Let_def)

lemma after_tick_kinv:
  assumes k: "kinv s" and Q: "ipc_inv Q (proc_table s)"
  shows "kinv (after_tick s)" "ipc_inv Q (proc_table (after_tick s))"
proof -
  show Q': "ipc_inv Q (proc_table (after_tick s))"
    using Q by (rule ipc_inv_cong [THEN iffD2, rotated -1]) (simp_all add: after_tick_def)
  show "kinv (after_tick s)"
    using kinvD(1,2) [OF k]
    by (intro kinv_step [OF k Q']) (auto simp: after_tick_def static_view_def runnable_def)
qed

lemma schedule_kinv:
  assumes k: "kinv s" and sch: "schedule s = Some s'"
  shows "kinv s'" "sched_choice (proc_table s') (p_proc_ready s')"
proof -
  obtain Q where Q: "ipc_inv Q (proc_table s)"
    using k by (auto simp: kinv_def)
  obtain c where s': "s' = s\<lparr>proc_table := sched_table (proc_table s), p_proc_ready := c\<rparr>"
    and ch: "sched_choice (sched_table (proc_table s)) c"
    using schedule_SomeD [OF sch] by blast
  show "sched_choice (proc_table s') (p_proc_ready s')"
    using ch by (simp add: s')
  show "kinv s'"
    using Q sched_choice_runnable [OF ch] kinvD(2) [OF k] unfolding s'
    by (intro kinv_step [OF k, of Q]) (simp_all add: static_view_def runnable_def)
qed

lemma clock_handler_kinv:
  assumes "clock_handler s = Inr s'" "kinv s"
  shows "kinv s'"
proof -
  obtain Q where Q: "ipc_inv Q (proc_table s)"
    using assms(2) by (auto simp: kinv_def)
  note k2 = after_tick_kinv(1) [OF assms(2) Q]
  show ?thesis
    using assms(1) k2 schedule_kinv(1) [OF k2] inform_int_kinv
    by (auto simp: clock_handler_eq res_bind_eq_Inr valid_pid_def split: if_splits)
qed

lemma kstep_kinv: "kstep s s' \<Longrightarrow> kinv s \<Longrightarrow> kinv s'"
  by (induction rule: kstep.induct)
    (auto intro: sys_sendrec_kinv clock_handler_kinv inform_int_kinv simp: valid_pid_def)

lemma kernel_main_kinv:
  assumes b: "kernel_main e s0 = Some s" and g: "descriptor_base (b_gdt e 2) = 0"
    and z: "\<And>i. valid_pid i \<Longrightarrow> q_sending (proc_table s0 i) = None"
  shows "ipc_inv (\<lambda>_. []) (proc_table s)" "kinv s"
proof -
  have k: "b_kmap e \<noteq> None"
  proof
    assume "b_kmap e = None"
    then have "kernel_main e s0 = None"
      unfolding kernel_main_def all_procs_def by (simp add: upto.simps)
    with b show False by simp
  qed
  obtain s' where *: "kernel_main e s0 = Some s'" "p_proc_ready s' = 0"
    "\<And>i. valid_pid i \<Longrightarrow> proc_table s' i = booted e (boot_sp e i) i (proc_table s0 i)"
    using kernel_main_spec [OF k, of s0] by blast
  with b have s: "s = s'" by simp
  show inv: "ipc_inv (\<lambda>_. []) (proc_table s)"
    unfolding s using *(3) z k g by (rule boot_ipc_inv)
  show "kinv s"
    using inv * unfolding kinv_def s by (auto simp: runnable_def valid_pid_def booted_def)
qed

lemma kreach_kinv: "kreach e s \<Longrightarrow> kinv s"
  by (induction rule: kreach.induct) (auto intro: kernel_main_kinv(2) kstep_kinv)

section \<open>Returning\<close>

lemma only_asserts_sys_sendrec:
  assumes k: "kinv s" and t: "p_proc_ready s \<noteq> TESTA" and f: "f = SEND \<or> f = RECEIVE"
    and d: "f = SEND \<Longrightarrow> valid_pid src_dest"
  shows "only_asserts (sys_sendrec f src_dest m (p_proc_ready s) s)"
proof -
  obtain Q where Q: "ipc_inv Q (proc_table s)"
    using k by (auto simp: kinv_def)
  have r: "valid_pid (p_proc_ready s)" "p_flags (proc_table s (p_proc_ready s)) = 0"
    using kinvD(1) [OF k] by (auto simp: runnable_def)
  note other = kinv_other_can_run [OF k t]
  have snd: "only_asserts (msg_send (p_proc_ready s) src_dest m (s\<lparr>msgmem := mm\<rparr>))"
    if "valid_pid src_dest" for mm
    using Q r other that by (intro only_asserts_msg_send [of Q]) simp_all
  have rcv: "only_asserts (msg_receive (p_proc_ready s) src_dest m (s\<lparr>msgmem := mm\<rparr>))"
    if "src_dest = ANY \<or> src_dest = INTERRUPT \<or> valid_pid src_dest" for mm
    using Q r other that by (intro only_asserts_msg_receive [of Q]) simp_all
  show ?thesis
    using f d snd rcv only_asserts_va2la [OF ipc_invD(4) [OF Q] r(1)]
    unfolding sys_sendrec_def Let_def by (auto intro!: asserts)
qed

text \<open>The calls that pass the assertions of \<^verbatim>\<open>sys_sendrec\<close> and have no process to send to, or no function.\<close>

lemma sys_sendrec_refused:
  assumes k: "kinv s" and "k_reenter s = 0"
  shows "src_dest = ANY \<or> src_dest = INTERRUPT \<Longrightarrow> sys_sendrec SEND src_dest m (p_proc_ready s) s = Inl (BadAccess ''proc_table'')"
    "valid_pid src_dest \<or> src_dest = ANY \<or> src_dest = INTERRUPT \<Longrightarrow> f \<noteq> SEND \<Longrightarrow> f \<noteq> RECEIVE \<Longrightarrow>
      sys_sendrec f src_dest m (p_proc_ready s) s = Inl (Panic ''{sys_sendrec} invalid function'')"
proof -
  obtain Q where Q: "ipc_inv Q (proc_table s)"
    using k by (auto simp: kinv_def)
  have v: "valid_pid (p_proc_ready s)"
    using kinvD(1) [OF k] by (simp add: runnable_def)
  note va = va2la_flat [OF ipc_invD(4) [OF Q] v, of m]
  show "sys_sendrec SEND src_dest m (p_proc_ready s) s = Inl (BadAccess ''proc_table'')" if "src_dest = ANY \<or> src_dest = INTERRUPT"
  proof -
    have "\<not> valid_pid src_dest"
      using that by (auto simp: valid_pid_def)
    then have "p_proc_ready s \<noteq> src_dest"
      using v by auto
    with that \<open>\<not> valid_pid src_dest\<close> show ?thesis
      using va assms(2) by (simp add: sys_sendrec_def msg_send_def assert_c_def)
  qed
  show "sys_sendrec f src_dest m (p_proc_ready s) s = Inl (Panic ''{sys_sendrec} invalid function'')"
    if "valid_pid src_dest \<or> src_dest = ANY \<or> src_dest = INTERRUPT" "f \<noteq> SEND" "f \<noteq> RECEIVE"
    using va assms(2) that by (auto simp: sys_sendrec_def assert_c_def)
qed

lemma clock_handler_returns:
  assumes k: "kinv s"
  shows "\<exists>s'. clock_handler s = Inr s' \<and> kinv s'"
proof -
  obtain Q where Q: "ipc_inv Q (proc_table s)"
    using k by (auto simp: kinv_def)
  note k2 = after_tick_kinv(1) [OF k Q]
  obtain s3 where s3: "schedule (after_tick s) = Some s3"
    using schedule_returns [OF kinv_can_run [OF k2]] by auto
  have k3: "kinv s3"
    using schedule_kinv(1) [OF k2 s3] .
  obtain Q3 where Q3: "ipc_inv Q3 (proc_table s3)"
    using k3 by (auto simp: kinv_def)
  obtain s4 where "inform_int TASK_TTY s3 = Inr s4"
    by (rule inform_int_spec [OF Q3, of TASK_TTY]) (simp_all add: valid_pid_def)
  then have "\<exists>s'. clock_handler s = Inr s'"
    by (simp add: clock_handler_eq s3)
  then show ?thesis
    using clock_handler_kinv [OF _ k] by blast
qed

section \<open>A concrete boot\<close>

text \<open>
  A loader's flat GDT, a kernel image of 128 KB at \<^verbatim>\<open>0x30000\<close> and cleared tables: the start state
  the concrete instances below run from.
\<close>

definition env0 :: boot_env where
  "env0 = \<lparr>b_addr = (\<lambda>_. 0x30400),
     b_gdt = (\<lambda>i. init_descriptor zero_descriptor 0 0xfffff (if i = 1 then 0xC098 else 0xC092)),
     b_kmap = Some (0x30000, 0x1ffff), b_stack = 0x40000\<rparr>"

definition cold :: kstate where
  "cold = \<lparr>proc_table = (\<lambda>_. zero_process), p_proc_ready = 0, ticks = 0, k_reenter = 0,
     key_pressed = 0, msgmem = (\<lambda>_. reset_msg)\<rparr>"

definition boot0 :: kstate where
  "boot0 = the (kernel_main env0 cold)"

lemma cold_simps [simp]: "q_sending (proc_table cold i) = None" "msgmem cold = (\<lambda>_. reset_msg)"
  "key_pressed cold = 0"
  by (simp_all add: cold_def zero_process_def)

lemma env0_simps [simp]: "b_kmap env0 \<noteq> None" "descriptor_base (b_gdt env0 2) = 0"
  by (simp_all add: env0_def)

lemma boot0_run: "kernel_main env0 cold = Some boot0"
  and boot0_entry: "valid_pid i \<Longrightarrow> proc_table boot0 i = booted env0 (boot_sp env0 i) i (proc_table cold i)"
  and boot0_current [simp]: "p_proc_ready boot0 = 0" "k_reenter boot0 = 0"
proof -
  obtain s' where s': "kernel_main env0 cold = Some s'" "p_proc_ready s' = 0" "k_reenter s' = 0"
    "\<And>i. valid_pid i \<Longrightarrow> proc_table s' i = booted env0 (boot_sp env0 i) i (proc_table cold i)"
    using kernel_main_spec [OF env0_simps(1), of cold] by blast
  then have "boot0 = s'"
    by (simp add: boot0_def)
  with s' show "kernel_main env0 cold = Some boot0" "p_proc_ready boot0 = 0" "k_reenter boot0 = 0"
    "valid_pid i \<Longrightarrow> proc_table boot0 i = booted env0 (boot_sp env0 i) i (proc_table cold i)"
    by simp_all
qed

lemma boot0_inv: "ipc_inv (\<lambda>_. []) (proc_table boot0)" "kinv boot0" "kreach env0 boot0"
  using kernel_main_kinv [OF boot0_run env0_simps(2)] kreach_boot [OF boot0_run env0_simps(2)]
  by simp_all

lemma boot0_flags: "valid_pid i \<Longrightarrow> p_flags (proc_table boot0 i) = (if i < 7 then 0 else FREE_SLOT)"
  by (simp add: boot0_entry booted_def)

lemma boot0_fields:
  assumes "valid_pid i" "i < 7"
  shows "p_flags (proc_table boot0 i) = 0" "has_int_msg (proc_table boot0 i) = 0"
    "p_ticks (proc_table boot0 i) = (if i < 5 then 15 else 5)"
  using assms by (simp_all add: boot0_entry booted_def)

lemma boot0_waits [simp]: "waits (proc_table boot0) = {}"
  by (auto simp: waits_def flag_def boot0_flags split: if_splits)

lemma boot0_other: "other_can_run (proc_table boot0) i"
proof (cases "i = 0")
  case True
  then show ?thesis
    using boot0_fields [of 1] unfolding other_can_run_def
    by (intro exI [of _ 1]) (simp add: runnable_def valid_pid_def)
next
  case False
  then show ?thesis
    using boot0_fields [of 0] unfolding other_can_run_def
    by (intro exI [of _ 0]) (simp add: runnable_def valid_pid_def)
qed


lemma boot0_send: "\<exists>s1. msg_send 5 0 0x1000 boot0 = Inr s1 \<and> send_outcome (\<lambda>_. []) 5 0 0x1000 boot0 s1"
  by (rule msg_send_spec [OF boot0_inv(1)])
    (simp_all add: valid_pid_def boot0_fields boot0_other receives_from_def)

end
