(* ===== verification/Console.thy ===== *)
theory Console
  imports Const
begin

text \<open>
  The text consoles: \<^verbatim>\<open>kernel/console.c\<close> and \<^verbatim>\<open>include/sys/console.h\<close>. Three consoles share the
  video memory; each owns a range of character cells, shows 25 lines of it, and keeps a cursor.
  The CRT controller's registers are a log of port writes.

  The loop in \<^verbatim>\<open>out_char\<close> that scrolls until the cursor is visible ends only if the console is
  well-formed, so it is a \<^theory_text>\<open>partial_function\<close>; \<open>scroll_to_cursor_ends\<close> shows that it always ends
  for the consoles the kernel sets up.
\<close>

abbreviation (input) ADDR_REG :: u16 where "ADDR_REG \<equiv> 0x3d4"
abbreviation (input) DATA_REG :: u16 where "DATA_REG \<equiv> 0x3d5"
abbreviation (input) CUR_POS_LOW :: u8 where "CUR_POS_LOW \<equiv> 0xf"
abbreviation (input) CUR_POS_HIGH :: u8 where "CUR_POS_HIGH \<equiv> 0xe"
abbreviation (input) START_ADDR_LOW :: u8 where "START_ADDR_LOW \<equiv> 0xd"
abbreviation (input) START_ADDR_HIGH :: u8 where "START_ADDR_HIGH \<equiv> 0xc"
abbreviation (input) V_MEM_BASE :: u32 where "V_MEM_BASE \<equiv> 0xb8000"
abbreviation (input) V_MEM_SIZE :: u32 where "V_MEM_SIZE \<equiv> 0x8000"
abbreviation (input) DEFAULT_CHAR_COLOR :: u8 where "DEFAULT_CHAR_COLOR \<equiv> 0x07"
abbreviation (input) SCR_DOWN :: int where "SCR_DOWN \<equiv> 1"
abbreviation (input) SCR_UP :: int where "SCR_UP \<equiv> 2"
abbreviation (input) SCREEN_SIZE :: u32 where "SCREEN_SIZE \<equiv> 80 * 25"
abbreviation (input) SCREEN_WIDTH :: u32 where "SCREEN_WIDTH \<equiv> 80"

section \<open>State\<close>

record CONSOLE =
  orig_start_addr :: u32
  cur_start_addr :: u32
  v_mem_size :: u32
  v_mem_base :: u32
  cur_cursor_pos :: u32

record screen =
  vmem :: "u32 \<Rightarrow> u8"
  crtc :: "(u16 \<times> u8) list"

section \<open>Operations\<close>

definition set_cursor :: "u16 \<Rightarrow> screen \<Rightarrow> screen" where
  "set_cursor pos s = s\<lparr>crtc := crtc s @
     [(ADDR_REG, CUR_POS_HIGH), (DATA_REG, ucast (drop_bit 8 pos AND 0xff)),
      (ADDR_REG, CUR_POS_LOW), (DATA_REG, ucast (pos AND 0xff))]\<rparr>"

definition set_screen_start :: "u32 \<Rightarrow> screen \<Rightarrow> screen" where
  "set_screen_start addr s = s\<lparr>crtc := crtc s @
     [(ADDR_REG, START_ADDR_HIGH), (DATA_REG, ucast (drop_bit 8 addr AND 0xff)),
      (ADDR_REG, START_ADDR_LOW), (DATA_REG, ucast (addr AND 0xff))]\<rparr>"

definition flush :: "CONSOLE \<Rightarrow> screen \<Rightarrow> screen" where
  "flush c s = set_screen_start (cur_start_addr c) (set_cursor (ucast (cur_cursor_pos c)) s)"

definition scroll_addr :: "int \<Rightarrow> CONSOLE \<Rightarrow> CONSOLE" where
  "scroll_addr direction c =
     (if direction = SCR_DOWN then
        if cur_start_addr c + SCREEN_SIZE < orig_start_addr c + v_mem_size c
        then c\<lparr>cur_start_addr := cur_start_addr c + SCREEN_WIDTH\<rparr> else c
      else if cur_start_addr c > orig_start_addr c
        then c\<lparr>cur_start_addr := cur_start_addr c - SCREEN_WIDTH\<rparr> else c)"

definition scroll_screen :: "int \<Rightarrow> CONSOLE \<times> screen \<Rightarrow> CONSOLE \<times> screen" where
  "scroll_screen direction cs =
     (case cs of (c, s) \<Rightarrow>
      if direction \<noteq> SCR_DOWN \<and> direction \<noteq> SCR_UP then (c, s)
      else let c' = scroll_addr direction c
           in (c', set_cursor (ucast (cur_cursor_pos c')) (set_screen_start (cur_start_addr c') s)))"

partial_function (option) scroll_to_cursor :: "CONSOLE \<times> screen \<Rightarrow> (CONSOLE \<times> screen) option" where
  "scroll_to_cursor cs =
     (if cur_cursor_pos (fst cs) \<ge> cur_start_addr (fst cs) + SCREEN_SIZE
      then scroll_to_cursor (scroll_screen SCR_DOWN cs)
      else Some cs)"

definition put_cell :: "u32 \<Rightarrow> u8 \<Rightarrow> CONSOLE \<Rightarrow> screen \<Rightarrow> screen" where
  "put_cell pos ch c s =
     (let p_mem = pos * 2 + v_mem_base c
      in s\<lparr>vmem := (vmem s)(p_mem := ch, p_mem + 1 := DEFAULT_CHAR_COLOR)\<rparr>)"

definition put_char :: "u8 \<Rightarrow> CONSOLE \<times> screen \<Rightarrow> CONSOLE \<times> screen" where
  "put_char ch cs =
     (case cs of (c, s) \<Rightarrow>
      if ch = 10 then
        if cur_cursor_pos c < orig_start_addr c + v_mem_size c - SCREEN_WIDTH
        then (c\<lparr>cur_cursor_pos := orig_start_addr c +
               ((cur_cursor_pos c - orig_start_addr c) div SCREEN_WIDTH + 1) * SCREEN_WIDTH\<rparr>, s)
        else (c, s)
      else if ch = 8 then
        if cur_cursor_pos c > orig_start_addr c
        then let c' = c\<lparr>cur_cursor_pos := cur_cursor_pos c - 1\<rparr>
             in (c', put_cell (cur_cursor_pos c') 0x20 c' s)
        else (c, s)
      else
        if cur_cursor_pos c < orig_start_addr c + v_mem_size c - 1
        then (c\<lparr>cur_cursor_pos := cur_cursor_pos c + 1\<rparr>, put_cell (cur_cursor_pos c) ch c s)
        else (c, s))"

definition out_char :: "u8 \<Rightarrow> CONSOLE \<times> screen \<Rightarrow> (CONSOLE \<times> screen) res" where
  "out_char ch cs =
     res_bind (of_loop (scroll_to_cursor (put_char ch cs))) (\<lambda>(c, s). Inr (c, flush c s))"

section \<open>Consoles that are set up properly\<close>

text \<open>
  The range of cells lies in the video memory; the visible part starts at a line of the range and
  never more than one line beyond the last full screen; the cursor is in the range.
\<close>

definition geom :: "nat \<Rightarrow> nat \<Rightarrow> nat \<Rightarrow> nat \<Rightarrow> bool" where
  "geom orig len start cursor \<longleftrightarrow>
     2000 \<le> len \<and> orig + len \<le> 16384 \<and> orig \<le> start \<and> 80 dvd start - orig \<and>
     start + 1920 < orig + len \<and> orig \<le> cursor \<and> cursor < orig + len"

definition console_ok :: "CONSOLE \<Rightarrow> bool" where
  "console_ok c \<longleftrightarrow> v_mem_base c = V_MEM_BASE \<and>
     geom (unat (orig_start_addr c)) (unat (v_mem_size c)) (unat (cur_start_addr c))
       (unat (cur_cursor_pos c))"

lemma geom_scroll_down:
  "geom orig len start cursor \<Longrightarrow> start + 2000 \<le> cursor \<Longrightarrow> geom orig len (start + 80) cursor"
proof -
  assume g: "geom orig len start cursor" and "start + 2000 \<le> cursor"
  moreover have "start + 80 - orig = (start - orig) + 80"
    using g by (simp add: geom_def)
  then have "80 dvd start + 80 - orig"
    using g by (metis dvd_add_triv_right_iff geom_def)
  ultimately show ?thesis
    by (simp add: geom_def)
qed

lemma geom_scroll_up:
  "geom orig len start cursor \<Longrightarrow> orig < start \<Longrightarrow> 80 \<le> start \<and> geom orig len (start - 80) cursor"
proof -
  assume g: "geom orig len start cursor" and "orig < start"
  then obtain k where "start - orig = 80 * k" "0 < k"
    by (auto simp: geom_def dvd_def)
  then have "start = orig + 80 * k" "0 < k"
    using g by (auto simp: geom_def)
  then show ?thesis
    using g by (cases k) (auto simp: geom_def)
qed

lemma geom_cursor:
  "geom orig len start cursor \<Longrightarrow> orig \<le> p \<Longrightarrow> p < orig + len \<Longrightarrow> geom orig len start p"
  by (simp add: geom_def)

lemma geom_bounds:
  assumes "geom orig len start cursor"
  shows "orig \<le> 16384" "len \<le> 16384" "start < 16384" "cursor < 16384" "orig \<le> cursor"
    "cursor < orig + len" "2000 \<le> len" "orig + len \<le> 16384" "start + 1920 < orig + len" "orig \<le> start"
  using assms by (auto simp: geom_def)

definition same_range :: "CONSOLE \<Rightarrow> CONSOLE \<Rightarrow> bool" where
  "same_range c c' \<longleftrightarrow> orig_start_addr c' = orig_start_addr c \<and> v_mem_size c' = v_mem_size c \<and>
     v_mem_base c' = v_mem_base c"

text \<open>The bytes of video memory a console owns.\<close>

definition cells :: "CONSOLE \<Rightarrow> u32 set" where
  "cells c = {a. 0xb8000 + 2 * unat (orig_start_addr c) \<le> unat a \<and>
     unat a < 0xb8000 + 2 * (unat (orig_start_addr c) + unat (v_mem_size c))}"

lemma console_geom: "console_ok c \<Longrightarrow> geom (unat (orig_start_addr c)) (unat (v_mem_size c))
    (unat (cur_start_addr c)) (unat (cur_cursor_pos c))"
  by (simp add: console_ok_def)

lemma unat_range:
  assumes "console_ok c"
  shows "unat (orig_start_addr c + v_mem_size c) = unat (orig_start_addr c) + unat (v_mem_size c)"
    "unat (cur_start_addr c + SCREEN_SIZE) = unat (cur_start_addr c) + 2000"
    "unat (cur_start_addr c + SCREEN_WIDTH) = unat (cur_start_addr c) + 80"
    "unat (cur_cursor_pos c + 1) = unat (cur_cursor_pos c) + 1"
  using geom_bounds [OF console_geom [OF assms]] by (simp_all add: unat_add_small)

lemma scroll_down_ok:
  assumes ok: "console_ok c" and "cur_cursor_pos c \<ge> cur_start_addr c + SCREEN_SIZE"
  shows "scroll_addr SCR_DOWN c = c\<lparr>cur_start_addr := cur_start_addr c + SCREEN_WIDTH\<rparr>"
    "console_ok (c\<lparr>cur_start_addr := cur_start_addr c + SCREEN_WIDTH\<rparr>)"
proof -
  have le: "unat (cur_start_addr c) + 2000 \<le> unat (cur_cursor_pos c)"
    using assms(2) unfolding word_le_nat_alt unat_range(2) [OF ok] .
  note g = console_geom [OF ok]
  have "cur_start_addr c + SCREEN_SIZE < orig_start_addr c + v_mem_size c"
    unfolding word_less_nat_alt unat_range(1,2) [OF ok] using le geom_bounds(6) [OF g] by linarith
  then show "scroll_addr SCR_DOWN c = c\<lparr>cur_start_addr := cur_start_addr c + SCREEN_WIDTH\<rparr>"
    by (simp add: scroll_addr_def)
  show "console_ok (c\<lparr>cur_start_addr := cur_start_addr c + SCREEN_WIDTH\<rparr>)"
    using geom_scroll_down [OF g le] ok by (simp add: console_ok_def unat_range(3) [OF ok])
qed

lemma scroll_screen_down:
  "scroll_screen SCR_DOWN (c, s) = (scroll_addr SCR_DOWN c,
     set_cursor (ucast (cur_cursor_pos (scroll_addr SCR_DOWN c)))
       (set_screen_start (cur_start_addr (scroll_addr SCR_DOWN c)) s))"
  by (simp add: scroll_screen_def Let_def)

lemma vmem_ports [simp]:
  "vmem (set_cursor p s) = vmem s" "vmem (set_screen_start a s) = vmem s" "vmem (flush c s) = vmem s"
  by (simp_all add: set_cursor_def set_screen_start_def flush_def)

text \<open>The scrolling loop ends, with the cursor on the visible page and nothing else changed.\<close>

lemma scroll_to_cursor_ends:
  assumes "console_ok c"
  shows "\<exists>a s'. scroll_to_cursor (c, s) = Some (c\<lparr>cur_start_addr := a\<rparr>, s') \<and>
    console_ok (c\<lparr>cur_start_addr := a\<rparr>) \<and> cur_cursor_pos c < a + SCREEN_SIZE \<and> vmem s' = vmem s"
  using assms
proof (induction "unat (cur_cursor_pos c) - unat (cur_start_addr c)" arbitrary: c s rule: less_induct)
  case less
  show ?case
  proof (cases "cur_cursor_pos c \<ge> cur_start_addr c + SCREEN_SIZE")
    case False
    then show ?thesis
      using less.prems by (subst scroll_to_cursor.simps) (auto simp: not_le intro!: exI [of _ "cur_start_addr c"])
  next
    case True
    let ?c = "c\<lparr>cur_start_addr := cur_start_addr c + SCREEN_WIDTH\<rparr>"
    obtain s1 where s1: "scroll_screen SCR_DOWN (c, s) = (?c, s1)" "vmem s1 = vmem s"
      using scroll_down_ok [OF less.prems True] by (simp add: scroll_screen_down)
    have "unat (cur_start_addr c) + 2000 \<le> unat (cur_cursor_pos c)"
      using True unfolding word_le_nat_alt unat_range(2) [OF less.prems] .
    then have "unat (cur_cursor_pos ?c) - unat (cur_start_addr ?c)
        < unat (cur_cursor_pos c) - unat (cur_start_addr c)"
      by (simp add: unat_range(3) [OF less.prems])
    from less.hyps [OF this scroll_down_ok(2) [OF less.prems True], of s1]
    show ?thesis
      using True s1 by (subst scroll_to_cursor.simps) auto
  qed
qed

section \<open>Writing a character\<close>

lemma console_ok_cursor:
  assumes "console_ok c" "unat (orig_start_addr c) \<le> unat p"
    "unat p < unat (orig_start_addr c) + unat (v_mem_size c)"
  shows "console_ok (c\<lparr>cur_cursor_pos := p\<rparr>)"
  using geom_cursor [OF console_geom [OF assms(1)] assms(2,3)] assms(1) by (simp add: console_ok_def)

text \<open>A cell of the console's range: its two bytes belong to the console and to no other cell.\<close>

lemma unat_cell:
  assumes "console_ok c" "unat p < unat (orig_start_addr c) + unat (v_mem_size c)"
  shows "unat (p * 2 + v_mem_base c) = 2 * unat p + 0xb8000"
    "unat (p * 2 + v_mem_base c + 1) = 2 * unat p + 0xb8001"
proof -
  have p: "unat p < 16384"
    using assms(2) geom_bounds(8) [OF console_geom [OF assms(1)]] by linarith
  have b: "v_mem_base c = V_MEM_BASE"
    using assms(1) by (simp add: console_ok_def)
  have "unat (p * 2) = 2 * unat p"
    using p by (subst unat_mult_small) simp_all
  then show u: "unat (p * 2 + v_mem_base c) = 2 * unat p + 0xb8000"
    using p b by (subst unat_add_small) simp_all
  then show "unat (p * 2 + v_mem_base c + 1) = 2 * unat p + 0xb8001"
    using p by (subst unat_add_small) simp_all
qed

lemma cell_in_cells:
  assumes "console_ok c" "unat (orig_start_addr c) \<le> unat p"
    "unat p < unat (orig_start_addr c) + unat (v_mem_size c)"
  shows "p * 2 + v_mem_base c \<in> cells c" "p * 2 + v_mem_base c + 1 \<in> cells c"
  using unat_cell [OF assms(1,3)] assms(2,3) by (simp_all add: cells_def)

lemma put_cell_frame:
  assumes "console_ok c" "unat (orig_start_addr c) \<le> unat p"
    "unat p < unat (orig_start_addr c) + unat (v_mem_size c)" "a \<notin> cells c"
  shows "vmem (put_cell p ch c s) a = vmem s a"
  using cell_in_cells [OF assms(1-3)] assms(4) by (auto simp: put_cell_def Let_def)

text \<open>Where the cursor goes: the abstract effect of a character on a line-oriented screen.\<close>

definition next_cursor :: "u8 \<Rightarrow> nat \<Rightarrow> nat \<Rightarrow> nat \<Rightarrow> nat" where
  "next_cursor ch orig len p =
     (if ch = 10 then if p < orig + len - 80 then orig + ((p - orig) div 80 + 1) * 80 else p
      else if ch = 8 then if p > orig then p - 1 else p
      else if p < orig + len - 1 then p + 1 else p)"

lemma next_cursor_range:
  "orig \<le> p \<Longrightarrow> p < orig + len \<Longrightarrow> 80 \<le> len \<Longrightarrow>
   orig \<le> next_cursor ch orig len p \<and> next_cursor ch orig len p < orig + len"
proof -
  assume a: "orig \<le> p" "p < orig + len" "80 \<le> len"
  have "(p - orig) div 80 * 80 \<le> p - orig"
    by (rule div_times_less_eq_dividend)
  with a show ?thesis
    by (auto simp: next_cursor_def)
qed

lemma put_char_ok:
  assumes ok: "console_ok c"
  obtains c' s' where "put_char ch (c, s) = (c', s')" "console_ok c'" "same_range c c'"
    "cur_start_addr c' = cur_start_addr c"
    "unat (cur_cursor_pos c') =
       next_cursor ch (unat (orig_start_addr c)) (unat (v_mem_size c)) (unat (cur_cursor_pos c))"
    "\<And>a. a \<notin> cells c \<Longrightarrow> vmem s' a = vmem s a"
    "\<lbrakk>ch \<noteq> 10; ch \<noteq> 8; cur_cursor_pos c < orig_start_addr c + v_mem_size c - 1\<rbrakk> \<Longrightarrow>
       vmem s' (cur_cursor_pos c * 2 + v_mem_base c) = ch"
proof -
  note g = console_geom [OF ok] and u = unat_range [OF ok]
  note b = geom_bounds [OF g]
  have sw: "unat (orig_start_addr c + v_mem_size c - SCREEN_WIDTH) =
      unat (orig_start_addr c) + unat (v_mem_size c) - 80"
    using b(7) u(1) by (subst unat_sub_small) simp_all
  have s1: "unat (orig_start_addr c + v_mem_size c - 1) =
      unat (orig_start_addr c) + unat (v_mem_size c) - 1"
    using b(7) u(1) by (subst unat_sub_small) simp_all
  consider (nl) "ch = 10" | (bs) "ch = 8" | (chr) "ch \<noteq> 10" "ch \<noteq> 8" by blast
  then show ?thesis
  proof cases
    case nl
    let ?p = "orig_start_addr c + ((cur_cursor_pos c - orig_start_addr c) div SCREEN_WIDTH + 1) * SCREEN_WIDTH"
    have d: "unat ((cur_cursor_pos c - orig_start_addr c) div SCREEN_WIDTH) =
        (unat (cur_cursor_pos c) - unat (orig_start_addr c)) div 80"
      using b(5) by (simp add: unat_div unat_sub_small)
    have small: "(unat (cur_cursor_pos c) - unat (orig_start_addr c)) div 80 < 205"
      using b(4) by (intro less_mult_imp_div_less) linarith
    have p: "unat ?p = unat (orig_start_addr c) +
        ((unat (cur_cursor_pos c) - unat (orig_start_addr c)) div 80 + 1) * 80"
      using small b(1) by (simp add: unat_small d)
    show ?thesis
    proof (cases "cur_cursor_pos c < orig_start_addr c + v_mem_size c - SCREEN_WIDTH")
      case True
      then have nc: "next_cursor ch (unat (orig_start_addr c)) (unat (v_mem_size c)) (unat (cur_cursor_pos c)) =
          unat ?p"
        unfolding p using nl by (simp add: next_cursor_def word_less_nat_alt sw)
      have "console_ok (c\<lparr>cur_cursor_pos := ?p\<rparr>)"
        using next_cursor_range [OF b(5,6), of ch] b(7) unfolding nc
        by (intro console_ok_cursor [OF ok]) linarith+
      then show ?thesis
        using True nl nc by (intro that [of "c\<lparr>cur_cursor_pos := ?p\<rparr>" s])
          (simp_all add: put_char_def same_range_def)
    next
      case False
      then show ?thesis
        using nl ok by (intro that [of c s])
          (simp_all add: put_char_def same_range_def next_cursor_def word_less_nat_alt sw)
    qed
  next
    case bs
    show ?thesis
    proof (cases "cur_cursor_pos c > orig_start_addr c")
      case True
      let ?p = "cur_cursor_pos c - 1"
      have p: "unat ?p = unat (cur_cursor_pos c) - 1" "unat (orig_start_addr c) < unat (cur_cursor_pos c)"
        using True by (auto simp: word_less_nat_alt unat_sub_small)
      have r: "unat (orig_start_addr c) \<le> unat ?p" "unat ?p < unat (orig_start_addr c) + unat (v_mem_size c)"
        using p b(6) by linarith+
      show ?thesis
        using True bs p r console_ok_cursor [OF ok r] put_cell_frame [OF ok r]
        by (intro that [of "c\<lparr>cur_cursor_pos := ?p\<rparr>" "put_cell ?p 0x20 c s"])
          (simp_all add: put_char_def same_range_def next_cursor_def put_cell_def Let_def)
    next
      case False
      then show ?thesis
        using bs ok by (intro that [of c s])
          (simp_all add: put_char_def same_range_def next_cursor_def word_less_nat_alt)
    qed
  next
    case chr
    show ?thesis
    proof (cases "cur_cursor_pos c < orig_start_addr c + v_mem_size c - 1")
      case True
      then have lt: "unat (cur_cursor_pos c) < unat (orig_start_addr c) + unat (v_mem_size c) - 1"
        by (simp add: word_less_nat_alt s1)
      have r: "unat (orig_start_addr c) \<le> unat (cur_cursor_pos c + 1)"
          "unat (cur_cursor_pos c + 1) < unat (orig_start_addr c) + unat (v_mem_size c)"
        using lt b(5) u(4) by linarith+
      have ne: "cur_cursor_pos c * 2 + v_mem_base c \<noteq> cur_cursor_pos c * 2 + v_mem_base c + 1"
        by simp
      show ?thesis
        using True chr lt u(4) console_ok_cursor [OF ok r] put_cell_frame [OF ok b(5,6)] ne
        by (intro that [of "c\<lparr>cur_cursor_pos := cur_cursor_pos c + 1\<rparr>" "put_cell (cur_cursor_pos c) ch c s"])
          (simp_all add: put_char_def same_range_def next_cursor_def put_cell_def Let_def)
    next
      case False
      then show ?thesis
        using chr ok by (intro that [of c s])
          (simp_all add: put_char_def same_range_def next_cursor_def word_less_nat_alt s1)
    qed
  qed
qed

text \<open>
  \<^verbatim>\<open>out_char\<close> returns, keeps the console well-formed with the cursor on the visible page, and
  writes only into the console's own cells.
\<close>

definition out_char_post :: "u8 \<Rightarrow> CONSOLE \<Rightarrow> screen \<Rightarrow> CONSOLE \<Rightarrow> screen \<Rightarrow> bool" where
  "out_char_post ch c s c' s' \<longleftrightarrow> console_ok c' \<and> same_range c c' \<and>
     unat (cur_cursor_pos c') =
       next_cursor ch (unat (orig_start_addr c)) (unat (v_mem_size c)) (unat (cur_cursor_pos c)) \<and>
     cur_cursor_pos c' < cur_start_addr c' + SCREEN_SIZE \<and>
     (\<forall>a. a \<notin> cells c \<longrightarrow> vmem s' a = vmem s a) \<and>
     (ch \<noteq> 10 \<and> ch \<noteq> 8 \<and> cur_cursor_pos c < orig_start_addr c + v_mem_size c - 1 \<longrightarrow>
        vmem s' (cur_cursor_pos c * 2 + v_mem_base c) = ch)"

lemma out_char_returns:
  assumes ok: "console_ok c"
  shows "\<exists>c' s'. out_char ch (c, s) = Inr (c', s') \<and> out_char_post ch c s c' s'"
proof -
  obtain c1 s1 where p: "put_char ch (c, s) = (c1, s1)" "console_ok c1" "same_range c c1"
    "unat (cur_cursor_pos c1) =
       next_cursor ch (unat (orig_start_addr c)) (unat (v_mem_size c)) (unat (cur_cursor_pos c))"
    "\<And>a. a \<notin> cells c \<Longrightarrow> vmem s1 a = vmem s a"
    "ch \<noteq> 10 \<and> ch \<noteq> 8 \<and> cur_cursor_pos c < orig_start_addr c + v_mem_size c - 1 \<longrightarrow>
        vmem s1 (cur_cursor_pos c * 2 + v_mem_base c) = ch"
    using put_char_ok [OF ok, of ch s] by metis
  obtain a s2 where l: "scroll_to_cursor (c1, s1) = Some (c1\<lparr>cur_start_addr := a\<rparr>, s2)"
    "console_ok (c1\<lparr>cur_start_addr := a\<rparr>)" "cur_cursor_pos c1 < a + SCREEN_SIZE" "vmem s2 = vmem s1"
    using scroll_to_cursor_ends [OF p(2), of s1] by blast
  have "out_char ch (c, s) = Inr (c1\<lparr>cur_start_addr := a\<rparr>, flush (c1\<lparr>cur_start_addr := a\<rparr>) s2)"
    by (simp add: out_char_def p(1) l(1))
  then show ?thesis
    using p l by (auto simp: out_char_post_def same_range_def)
qed

end
