(* ===== verification/Ring.thy ===== *)
theory Ring
  imports Prelude
begin

text \<open>
  Bounded first-in first-out buffers. The keyboard driver and the terminals each keep one: an
  array, a head and a tail pointer that wrap around, and a count; input that arrives while the
  buffer is full is dropped. The locale \<open>drop_queue\<close> is the contract both promise their
  clients, over the list of buffered elements; \<open>ring_list\<close> reads that list off the array, and
  its lemmas are what both interpretations of the contract rest on.
\<close>

section \<open>The contract\<close>

locale drop_queue =
  fixes cap :: nat
    and wf :: "'s \<Rightarrow> bool"
    and contents :: "'s \<Rightarrow> 'a list"
    and put :: "'a \<Rightarrow> 's \<Rightarrow> 's"
    and pop :: "'s \<Rightarrow> 'a \<times> 's"
  assumes length_le: "wf s \<Longrightarrow> length (contents s) \<le> cap"
    and wf_put: "wf s \<Longrightarrow> wf (put x s)"
    and contents_put: "wf s \<Longrightarrow>
      contents (put x s) = (if length (contents s) < cap then contents s @ [x] else contents s)"
    and wf_pop: "wf s \<Longrightarrow> contents s \<noteq> [] \<Longrightarrow> wf (snd (pop s))"
    and pop_head: "wf s \<Longrightarrow> contents s \<noteq> [] \<Longrightarrow> fst (pop s) = hd (contents s)"
    and contents_pop: "wf s \<Longrightarrow> contents s \<noteq> [] \<Longrightarrow> contents (snd (pop s)) = tl (contents s)"
begin

fun puts :: "'a list \<Rightarrow> 's \<Rightarrow> 's" where
  "puts [] s = s"
| "puts (x # xs) s = puts xs (put x s)"

fun pops :: "nat \<Rightarrow> 's \<Rightarrow> 'a list \<times> 's" where
  "pops 0 s = ([], s)"
| "pops (Suc n) s = (case pop s of (x, s1) \<Rightarrow> case pops n s1 of (xs, s2) \<Rightarrow> (x # xs, s2))"

lemma wf_puts: "wf s \<Longrightarrow> wf (puts xs s)"
  by (induction xs s rule: puts.induct) (auto intro: wf_put)

lemma contents_puts: "wf s \<Longrightarrow> contents (puts xs s) = take cap (contents s @ xs)"
proof (induction xs s rule: puts.induct)
  case (1 s)
  then show ?case
    using length_le [OF 1] by simp
next
  case (2 x xs s)
  show ?case
  proof (cases "length (contents s) < cap")
    case True
    then show ?thesis
      using 2 by (simp add: wf_put contents_put)
  next
    case False
    then have "length (contents s) = cap"
      using length_le [OF 2(2)] by simp
    then show ?thesis
      using 2 by (simp add: wf_put contents_put)
  qed
qed

lemma pops_contents:
  "wf s \<Longrightarrow> n \<le> length (contents s) \<Longrightarrow>
   fst (pops n s) = take n (contents s) \<and> wf (snd (pops n s)) \<and>
   contents (snd (pops n s)) = drop n (contents s)"
proof (induction n arbitrary: s)
  case (Suc n)
  then have ne: "contents s \<noteq> []" by auto
  obtain x s1 where p: "pop s = (x, s1)" by (cases "pop s")
  have s1: "wf s1" "contents s1 = tl (contents s)" "x = hd (contents s)"
    using wf_pop [OF Suc.prems(1) ne] contents_pop [OF Suc.prems(1) ne] pop_head [OF Suc.prems(1) ne] p
    by auto
  have "n \<le> length (contents s1)"
    using Suc.prems(2) s1 by simp
  from Suc.IH [OF s1(1) this] show ?case
    using s1 p ne by (cases "contents s") (auto split: prod.splits)
qed simp

text \<open>What was put comes out again, in order; only what did not fit is lost.\<close>

lemma put_then_pop:
  assumes "wf s" "contents s = []"
  shows "fst (pops (min cap (length xs)) (puts xs s)) = take cap xs"
proof -
  have c: "contents (puts xs s) = take cap xs"
    using contents_puts [OF assms(1)] assms(2) by simp
  have "fst (pops (min cap (length xs)) (puts xs s)) = take (min cap (length xs)) (contents (puts xs s))"
    using pops_contents [OF wf_puts [OF assms(1)], of "min cap (length xs)" xs] c by simp
  then show ?thesis
    unfolding c by (simp add: min_def)
qed

end

section \<open>An array read as a queue\<close>

definition ring_next :: "nat \<Rightarrow> nat \<Rightarrow> nat" where
  "ring_next cap i = (if i + 1 = cap then 0 else i + 1)"

definition ring_list :: "nat \<Rightarrow> (nat \<Rightarrow> 'a) \<Rightarrow> nat \<Rightarrow> nat \<Rightarrow> 'a list" where
  "ring_list cap buf tail n = map (\<lambda>i. buf ((tail + i) mod cap)) [0..<n]"

definition ring_wf :: "nat \<Rightarrow> nat \<Rightarrow> nat \<Rightarrow> int \<Rightarrow> bool" where
  "ring_wf cap head tail n \<longleftrightarrow>
     tail < cap \<and> 0 \<le> n \<and> n \<le> int cap \<and> head = (tail + nat n) mod cap"

lemma length_ring_list [simp]: "length (ring_list cap buf tail n) = n"
  by (simp add: ring_list_def)

lemma ring_list_0 [simp]: "ring_list cap buf tail 0 = []"
  by (simp add: ring_list_def)

lemma ring_next_mod: "i < cap \<Longrightarrow> ring_next cap i = (i + 1) mod cap"
  by (auto simp: ring_next_def)

lemma ring_list_put:
  assumes "n < cap"
  shows "ring_list cap (buf((tail + n) mod cap := x)) tail (Suc n) = ring_list cap buf tail n @ [x]"
proof -
  have "(tail + i) mod cap \<noteq> (tail + n) mod cap" if "i < n" for i
  proof
    assume "(tail + i) mod cap = (tail + n) mod cap"
    then have "cap dvd (tail + n) - (tail + i)"
      using that by (subst mod_eq_dvd_iff_nat [symmetric]) simp_all
    then have "cap dvd n - i" by simp
    with that assms show False
      using nat_dvd_not_less [of "n - i" cap] by simp
  qed
  then show ?thesis
    by (simp add: ring_list_def)
qed

lemma ring_list_pop:
  assumes "tail < cap" "0 < n"
  shows "ring_list cap buf tail n = buf tail # ring_list cap buf (ring_next cap tail) (n - 1)"
proof -
  obtain k where n: "n = Suc k"
    using assms(2) by (cases n) auto
  have "[0..<Suc k] = 0 # map Suc [0..<k]"
    by (simp add: map_Suc_upt upt_conv_Cons del: upt_Suc)
  then show ?thesis
    using assms(1) by (simp add: n ring_list_def ring_next_mod mod_simps comp_def del: upt_Suc)
qed

lemma ring_wf_put:
  assumes "ring_wf cap head tail n" "n < int cap"
  shows "ring_wf cap (ring_next cap head) tail (n + 1)" "head < cap" "head = (tail + nat n) mod cap"
proof -
  show h: "head < cap" "head = (tail + nat n) mod cap"
    using assms by (auto simp: ring_wf_def)
  then show "ring_wf cap (ring_next cap head) tail (n + 1)"
    using assms by (auto simp: ring_wf_def ring_next_mod nat_add_distrib mod_simps)
qed

lemma ring_wf_pop:
  assumes "ring_wf cap head tail n" "0 < n"
  shows "ring_wf cap head (ring_next cap tail) (n - 1)"
proof -
  have "nat n = Suc (nat (n - 1))"
    using assms(2) by simp
  then show ?thesis
    using assms by (auto simp: ring_wf_def ring_next_mod mod_simps)
qed

end
