(* ===== verification/Keyboard.thy ===== *)
theory Keyboard
  imports Ring Globals
begin

text \<open>
  The keyboard driver: \<^verbatim>\<open>kernel/keyboard.c\<close> with its key codes (\<^verbatim>\<open>include/sys/keyboard.h\<close>) and
  key map (\<^verbatim>\<open>include/sys/keymap.h\<close>). The interrupt handler puts scan codes into a ring buffer of
  32 bytes; \<^verbatim>\<open>keyboard_read\<close> takes one key out of it and translates it.

  A pointer into the buffer is an index. \<^verbatim>\<open>get_byte_from_kbuf\<close> spins while the buffer is empty,
  until an interrupt brings the next scan code; in the model that is the outcome \<open>Hang\<close>, and
  the lemmas say how many buffered bytes are enough. Character constants are written as their
  ASCII codes.
\<close>

section \<open>Key codes\<close>

abbreviation (input) KB_IN_BYTE :: nat where "KB_IN_BYTE \<equiv> 32"
abbreviation (input) MAP_COLS :: nat where "MAP_COLS \<equiv> 3"
abbreviation (input) NR_SCAN_CODES :: nat where "NR_SCAN_CODES \<equiv> 256"
abbreviation (input) LED_CODE :: u8 where "LED_CODE \<equiv> 0xED"
abbreviation (input) FLAG_BREAK :: u32 where "FLAG_BREAK \<equiv> 0x0080"
abbreviation (input) FLAG_EXT :: u32 where "FLAG_EXT \<equiv> 0x0100"
abbreviation (input) FLAG_SHIFT_L :: u32 where "FLAG_SHIFT_L \<equiv> 0x0200"
abbreviation (input) FLAG_SHIFT_R :: u32 where "FLAG_SHIFT_R \<equiv> 0x0400"
abbreviation (input) FLAG_CTRL_L :: u32 where "FLAG_CTRL_L \<equiv> 0x0800"
abbreviation (input) FLAG_CTRL_R :: u32 where "FLAG_CTRL_R \<equiv> 0x1000"
abbreviation (input) FLAG_ALT_L :: u32 where "FLAG_ALT_L \<equiv> 0x2000"
abbreviation (input) FLAG_ALT_R :: u32 where "FLAG_ALT_R \<equiv> 0x4000"
abbreviation (input) FLAG_PAD :: u32 where "FLAG_PAD \<equiv> 0x8000"
abbreviation (input) MASK_RAW :: u32 where "MASK_RAW \<equiv> 0x01FF"
abbreviation (input) ESC :: u32 where "ESC \<equiv> 0x01 + FLAG_EXT"
abbreviation (input) TAB :: u32 where "TAB \<equiv> 0x02 + FLAG_EXT"
abbreviation (input) ENTER :: u32 where "ENTER \<equiv> 0x03 + FLAG_EXT"
abbreviation (input) BACKSPACE :: u32 where "BACKSPACE \<equiv> 0x04 + FLAG_EXT"
abbreviation (input) GUI_L :: u32 where "GUI_L \<equiv> 0x05 + FLAG_EXT"
abbreviation (input) GUI_R :: u32 where "GUI_R \<equiv> 0x06 + FLAG_EXT"
abbreviation (input) APPS :: u32 where "APPS \<equiv> 0x07 + FLAG_EXT"
abbreviation (input) SHIFT_L :: u32 where "SHIFT_L \<equiv> 0x08 + FLAG_EXT"
abbreviation (input) SHIFT_R :: u32 where "SHIFT_R \<equiv> 0x09 + FLAG_EXT"
abbreviation (input) CTRL_L :: u32 where "CTRL_L \<equiv> 0x0A + FLAG_EXT"
abbreviation (input) CTRL_R :: u32 where "CTRL_R \<equiv> 0x0B + FLAG_EXT"
abbreviation (input) ALT_L :: u32 where "ALT_L \<equiv> 0x0C + FLAG_EXT"
abbreviation (input) ALT_R :: u32 where "ALT_R \<equiv> 0x0D + FLAG_EXT"
abbreviation (input) CAPS_LOCK :: u32 where "CAPS_LOCK \<equiv> 0x0E + FLAG_EXT"
abbreviation (input) NUM_LOCK :: u32 where "NUM_LOCK \<equiv> 0x0F + FLAG_EXT"
abbreviation (input) SCROLL_LOCK :: u32 where "SCROLL_LOCK \<equiv> 0x10 + FLAG_EXT"
abbreviation (input) F1 :: u32 where "F1 \<equiv> 0x11 + FLAG_EXT"
abbreviation (input) F2 :: u32 where "F2 \<equiv> 0x12 + FLAG_EXT"
abbreviation (input) F3 :: u32 where "F3 \<equiv> 0x13 + FLAG_EXT"
abbreviation (input) F4 :: u32 where "F4 \<equiv> 0x14 + FLAG_EXT"
abbreviation (input) F5 :: u32 where "F5 \<equiv> 0x15 + FLAG_EXT"
abbreviation (input) F6 :: u32 where "F6 \<equiv> 0x16 + FLAG_EXT"
abbreviation (input) F7 :: u32 where "F7 \<equiv> 0x17 + FLAG_EXT"
abbreviation (input) F8 :: u32 where "F8 \<equiv> 0x18 + FLAG_EXT"
abbreviation (input) F9 :: u32 where "F9 \<equiv> 0x19 + FLAG_EXT"
abbreviation (input) F10 :: u32 where "F10 \<equiv> 0x1A + FLAG_EXT"
abbreviation (input) F11 :: u32 where "F11 \<equiv> 0x1B + FLAG_EXT"
abbreviation (input) F12 :: u32 where "F12 \<equiv> 0x1C + FLAG_EXT"
abbreviation (input) PRINTSCREEN :: u32 where "PRINTSCREEN \<equiv> 0x1D + FLAG_EXT"
abbreviation (input) PAUSEBREAK :: u32 where "PAUSEBREAK \<equiv> 0x1E + FLAG_EXT"
abbreviation (input) INSERT :: u32 where "INSERT \<equiv> 0x1F + FLAG_EXT"
abbreviation (input) DELETE :: u32 where "DELETE \<equiv> 0x20 + FLAG_EXT"
abbreviation (input) HOME :: u32 where "HOME \<equiv> 0x21 + FLAG_EXT"
abbreviation (input) END :: u32 where "END \<equiv> 0x22 + FLAG_EXT"
abbreviation (input) PAGEUP :: u32 where "PAGEUP \<equiv> 0x23 + FLAG_EXT"
abbreviation (input) PAGEDOWN :: u32 where "PAGEDOWN \<equiv> 0x24 + FLAG_EXT"
abbreviation (input) UP :: u32 where "UP \<equiv> 0x25 + FLAG_EXT"
abbreviation (input) DOWN :: u32 where "DOWN \<equiv> 0x26 + FLAG_EXT"
abbreviation (input) LEFT :: u32 where "LEFT \<equiv> 0x27 + FLAG_EXT"
abbreviation (input) RIGHT :: u32 where "RIGHT \<equiv> 0x28 + FLAG_EXT"
abbreviation (input) POWER :: u32 where "POWER \<equiv> 0x29 + FLAG_EXT"
abbreviation (input) SLEEP :: u32 where "SLEEP \<equiv> 0x2A + FLAG_EXT"
abbreviation (input) WAKE :: u32 where "WAKE \<equiv> 0x2B + FLAG_EXT"
abbreviation (input) PAD_SLASH :: u32 where "PAD_SLASH \<equiv> 0x2C + FLAG_EXT"
abbreviation (input) PAD_STAR :: u32 where "PAD_STAR \<equiv> 0x2D + FLAG_EXT"
abbreviation (input) PAD_MINUS :: u32 where "PAD_MINUS \<equiv> 0x2E + FLAG_EXT"
abbreviation (input) PAD_PLUS :: u32 where "PAD_PLUS \<equiv> 0x2F + FLAG_EXT"
abbreviation (input) PAD_ENTER :: u32 where "PAD_ENTER \<equiv> 0x30 + FLAG_EXT"
abbreviation (input) PAD_DOT :: u32 where "PAD_DOT \<equiv> 0x31 + FLAG_EXT"
abbreviation (input) PAD_0 :: u32 where "PAD_0 \<equiv> 0x32 + FLAG_EXT"
abbreviation (input) PAD_1 :: u32 where "PAD_1 \<equiv> 0x33 + FLAG_EXT"
abbreviation (input) PAD_2 :: u32 where "PAD_2 \<equiv> 0x34 + FLAG_EXT"
abbreviation (input) PAD_3 :: u32 where "PAD_3 \<equiv> 0x35 + FLAG_EXT"
abbreviation (input) PAD_4 :: u32 where "PAD_4 \<equiv> 0x36 + FLAG_EXT"
abbreviation (input) PAD_5 :: u32 where "PAD_5 \<equiv> 0x37 + FLAG_EXT"
abbreviation (input) PAD_6 :: u32 where "PAD_6 \<equiv> 0x38 + FLAG_EXT"
abbreviation (input) PAD_7 :: u32 where "PAD_7 \<equiv> 0x39 + FLAG_EXT"
abbreviation (input) PAD_8 :: u32 where "PAD_8 \<equiv> 0x3A + FLAG_EXT"
abbreviation (input) PAD_9 :: u32 where "PAD_9 \<equiv> 0x3B + FLAG_EXT"
abbreviation (input) PAD_UP :: u32 where "PAD_UP \<equiv> PAD_8"
abbreviation (input) PAD_DOWN :: u32 where "PAD_DOWN \<equiv> PAD_2"
abbreviation (input) PAD_LEFT :: u32 where "PAD_LEFT \<equiv> PAD_4"
abbreviation (input) PAD_RIGHT :: u32 where "PAD_RIGHT \<equiv> PAD_6"
abbreviation (input) PAD_HOME :: u32 where "PAD_HOME \<equiv> PAD_7"
abbreviation (input) PAD_END :: u32 where "PAD_END \<equiv> PAD_1"
abbreviation (input) PAD_PAGEUP :: u32 where "PAD_PAGEUP \<equiv> PAD_9"
abbreviation (input) PAD_PAGEDOWN :: u32 where "PAD_PAGEDOWN \<equiv> PAD_3"
abbreviation (input) PAD_INS :: u32 where "PAD_INS \<equiv> PAD_0"
abbreviation (input) PAD_MID :: u32 where "PAD_MID \<equiv> PAD_5"
abbreviation (input) PAD_DEL :: u32 where "PAD_DEL \<equiv> PAD_DOT"

section \<open>The key map\<close>

text \<open>Three columns per scan code: plain, with shift, after \<^verbatim>\<open>0xE0\<close>.\<close>

definition keymap_table :: "u32 list" where
  "keymap_table = [
     0, 0, 0, ESC, ESC, 0,
     0x31, 0x21, 0, 0x32, 0x40, 0,
     0x33, 0x23, 0, 0x34, 0x24, 0,
     0x35, 0x25, 0, 0x36, 0x5E, 0,
     0x37, 0x26, 0, 0x38, 0x2A, 0,
     0x39, 0x28, 0, 0x30, 0x29, 0,
     0x2D, 0x5F, 0, 0x3D, 0x2B, 0,
     BACKSPACE, BACKSPACE, 0, TAB, TAB, 0,
     0x71, 0x51, 0, 0x77, 0x57, 0,
     0x65, 0x45, 0, 0x72, 0x52, 0,
     0x74, 0x54, 0, 0x79, 0x59, 0,
     0x75, 0x55, 0, 0x69, 0x49, 0,
     0x6F, 0x4F, 0, 0x70, 0x50, 0,
     0x5B, 0x7B, 0, 0x5D, 0x7D, 0,
     ENTER, ENTER, PAD_ENTER, CTRL_L, CTRL_L, CTRL_R,
     0x61, 0x41, 0, 0x73, 0x53, 0,
     0x64, 0x44, 0, 0x66, 0x46, 0,
     0x67, 0x47, 0, 0x68, 0x48, 0,
     0x6A, 0x4A, 0, 0x6B, 0x4B, 0,
     0x6C, 0x4C, 0, 0x3B, 0x3A, 0,
     0x27, 0x22, 0, 0x60, 0x7E, 0,
     SHIFT_L, SHIFT_L, 0, 0x5C, 0x7C, 0,
     0x7A, 0x5A, 0, 0x78, 0x58, 0,
     0x63, 0x43, 0, 0x76, 0x56, 0,
     0x62, 0x42, 0, 0x6E, 0x4E, 0,
     0x6D, 0x4D, 0, 0x2C, 0x3C, 0,
     0x2E, 0x3E, 0, 0x2F, 0x3F, PAD_SLASH,
     SHIFT_R, SHIFT_R, 0, 0x2A, 0x2A, 0,
     ALT_L, ALT_L, ALT_R, 0x20, 0x20, 0,
     CAPS_LOCK, CAPS_LOCK, 0, F1, F1, 0,
     F2, F2, 0, F3, F3, 0,
     F4, F4, 0, F5, F5, 0,
     F6, F6, 0, F7, F7, 0,
     F8, F8, 0, F9, F9, 0,
     F10, F10, 0, NUM_LOCK, NUM_LOCK, 0,
     SCROLL_LOCK, SCROLL_LOCK, 0, PAD_HOME, 0x37, HOME,
     PAD_UP, 0x38, UP, PAD_PAGEUP, 0x39, PAGEUP,
     PAD_MINUS, 0x2D, 0, PAD_LEFT, 0x34, LEFT,
     PAD_MID, 0x35, 0, PAD_RIGHT, 0x36, RIGHT,
     PAD_PLUS, 0x2B, 0, PAD_END, 0x31, END,
     PAD_DOWN, 0x32, DOWN, PAD_PAGEDOWN, 0x33, PAGEDOWN,
     PAD_INS, 0x30, INSERT, PAD_DOT, 0x2E, DELETE,
     0, 0, 0, 0, 0, 0,
     0, 0, 0, F11, F11, 0,
     F12, F12, 0, 0, 0, 0,
     0, 0, 0, 0, 0, GUI_L,
     0, 0, GUI_R, 0, 0, APPS,
     0, 0, 0, 0, 0, 0,
     0, 0, 0, 0, 0, 0,
     0, 0, 0, 0, 0, 0,
     0, 0, 0, 0, 0, 0,
     0, 0, 0, 0, 0, 0,
     0, 0, 0, 0, 0, 0,
     0, 0, 0, 0, 0, 0,
     0, 0, 0, 0, 0, 0,
     0, 0, 0, 0, 0, 0,
     0, 0, 0, 0, 0, 0,
     0, 0, 0, 0, 0, 0,
     0, 0, 0, 0, 0, 0,
     0, 0, 0, 0, 0, 0,
     0, 0, 0, 0, 0, 0,
     0, 0, 0, 0, 0, 0,
     0, 0, 0, 0, 0, 0,
     0, 0, 0, 0, 0, 0]"

text \<open>The array has 256 rows of which the initialiser gives the first 128; C zeroes the rest.\<close>

definition keymap :: "nat \<Rightarrow> u32" where
  "keymap i = (if i < length keymap_table then keymap_table ! i else 0)"

section \<open>State\<close>

record KB_INPUT =
  p_head :: nat
  p_tail :: nat
  kb_count :: int
  kb_buf :: "nat \<Rightarrow> u8"

record kb_state =
  kb_in :: KB_INPUT
  code_with_E0 :: int
  shift_l :: int
  shift_r :: int
  alt_l :: int
  alt_r :: int
  ctrl_l :: int
  ctrl_r :: int
  caps_lock :: int
  num_lock :: int
  scroll_lock :: int
  column :: nat
  led_log :: "u8 list"

section \<open>The buffer\<close>

definition kb_put :: "u8 \<Rightarrow> KB_INPUT \<Rightarrow> KB_INPUT" where
  "kb_put scan_code k =
     (if kb_count k < int KB_IN_BYTE then
        let k1 = k\<lparr>kb_buf := (kb_buf k)(p_head k := scan_code)\<rparr>;
            k2 = k1\<lparr>p_head := p_head k1 + 1\<rparr>;
            k3 = (if p_head k2 = KB_IN_BYTE then k2\<lparr>p_head := 0\<rparr> else k2)
        in k3\<lparr>kb_count := kb_count k3 + 1\<rparr>
      else k)"

definition keyboard_handler :: "u8 \<Rightarrow> kb_state \<times> kstate \<Rightarrow> kb_state \<times> kstate" where
  "keyboard_handler scan_code st =
     (case st of (kb, ks) \<Rightarrow>
        (kb\<lparr>kb_in := kb_put scan_code (kb_in kb)\<rparr>, ks\<lparr>key_pressed := 1\<rparr>))"

definition kb_pop :: "KB_INPUT \<Rightarrow> u8 \<times> KB_INPUT" where
  "kb_pop k =
     (let scan_code = kb_buf k (p_tail k);
          k1 = k\<lparr>p_tail := p_tail k + 1\<rparr>;
          k2 = (if p_tail k1 = KB_IN_BYTE then k1\<lparr>p_tail := 0\<rparr> else k1)
      in (scan_code, k2\<lparr>kb_count := kb_count k2 - 1\<rparr>))"

definition get_byte_from_kbuf :: "kb_state \<Rightarrow> (u8 \<times> kb_state) res" where
  "get_byte_from_kbuf s =
     (if kb_count (kb_in s) \<le> 0 then Inl Hang
      else case kb_pop (kb_in s) of (c, k) \<Rightarrow> Inr (c, s\<lparr>kb_in := k\<rparr>))"

text \<open>\<^verbatim>\<open>set_leds\<close>: what is sent to the keyboard once it is ready.\<close>

definition set_leds :: "kb_state \<Rightarrow> kb_state" where
  "set_leds s =
     (let leds = (of_int (caps_lock s * 4) OR of_int (num_lock s * 2)) OR of_int (scroll_lock s)
      in s\<lparr>led_log := led_log s @ [LED_CODE, leds]\<rparr>)"

definition init_keyboard :: "kb_state \<Rightarrow> kb_state" where
  "init_keyboard s =
     set_leds (s\<lparr>kb_in := (kb_in s)\<lparr>kb_count := 0, p_head := 0, p_tail := 0\<rparr>,
       code_with_E0 := 0, shift_l := 0, shift_r := 0, alt_l := 0, alt_r := 0,
       ctrl_l := 0, ctrl_r := 0, caps_lock := 0, num_lock := 1, scroll_lock := 0\<rparr>)"

section \<open>Reading a key\<close>

definition pausebrk_scode :: "u8 list" where
  "pausebrk_scode = [0xE1, 0x1D, 0x45, 0xE1, 0x9D, 0xC5]"

text \<open>The loop that compares the next bytes with a sequence; it stops at the first difference.\<close>

fun match_codes :: "u8 list \<Rightarrow> kb_state \<Rightarrow> (bool \<times> kb_state) res" where
  "match_codes [] s = Inr (True, s)"
| "match_codes (c # codes) s =
     res_bind (get_byte_from_kbuf s) (\<lambda>(b, s1).
       if b \<noteq> c then Inr (False, s1) else match_codes codes s1)"

text \<open>After \<^verbatim>\<open>0xE0\<close>: the next scan code, and \<^verbatim>\<open>PRINTSCREEN\<close> if its two-part sequence follows.\<close>

definition read_ext :: "kb_state \<Rightarrow> (u8 \<times> u32 \<times> kb_state) res" where
  "read_ext s =
     res_bind (get_byte_from_kbuf s) (\<lambda>(scan_code, s1).
     res_bind (if scan_code = 0x2A then match_codes [0xE0, 0x37] s1
               else if scan_code = 0xB7 then match_codes [0xE0, 0xAA] s1
               else Inr (False, s1)) (\<lambda>(is_ps, s2).
     if is_ps then Inr (scan_code, PRINTSCREEN, s2)
     else Inr (scan_code, 0, s2\<lparr>code_with_E0 := 1\<rparr>)))"

definition note_key :: "u32 \<Rightarrow> int \<Rightarrow> kb_state \<Rightarrow> kb_state" where
  "note_key key bMake s =
     (if key = SHIFT_L then s\<lparr>shift_l := bMake\<rparr>
      else if key = SHIFT_R then s\<lparr>shift_r := bMake\<rparr>
      else if key = CTRL_L then s\<lparr>ctrl_l := bMake\<rparr>
      else if key = CTRL_R then s\<lparr>ctrl_r := bMake\<rparr>
      else if key = ALT_L then s\<lparr>alt_l := bMake\<rparr>
      else if key = ALT_R then s\<lparr>alt_r := bMake\<rparr>
      else if key = CAPS_LOCK then
        set_leds ((set_leds ((set_leds (s\<lparr>caps_lock := 1\<rparr>))\<lparr>num_lock := 1\<rparr>))\<lparr>scroll_lock := 1\<rparr>)
      else if key = NUM_LOCK then
        set_leds ((set_leds (s\<lparr>num_lock := 1\<rparr>))\<lparr>scroll_lock := 1\<rparr>)
      else if key = SCROLL_LOCK then set_leds (s\<lparr>scroll_lock := 1\<rparr>)
      else s)"

definition pad_key :: "int \<Rightarrow> u32 \<Rightarrow> u32" where
  "pad_key numlock key =
     (if key = PAD_SLASH then 0x2F
      else if key = PAD_STAR then 0x2A
      else if key = PAD_MINUS then 0x2D
      else if key = PAD_PLUS then 0x2B
      else if key = PAD_ENTER then ENTER
      else if numlock \<noteq> 0 \<and> key \<ge> PAD_0 \<and> key \<le> PAD_9 then key - PAD_0 + 0x30
      else if numlock \<noteq> 0 \<and> key = PAD_DOT then 0x2E
      else if key = PAD_HOME then HOME
      else if key = PAD_END then END
      else if key = PAD_PAGEUP then PAGEUP
      else if key = PAD_PAGEDOWN then PAGEDOWN
      else if key = PAD_INS then INSERT
      else if key = PAD_UP then UP
      else if key = PAD_DOWN then DOWN
      else if key = PAD_LEFT then LEFT
      else if key = PAD_RIGHT then RIGHT
      else if key = PAD_DOT then DELETE
      else key)"

definition modifiers :: "kb_state \<Rightarrow> u32" where
  "modifiers s =
     (if shift_l s \<noteq> 0 then FLAG_SHIFT_L else 0) OR (if shift_r s \<noteq> 0 then FLAG_SHIFT_R else 0) OR
     (if ctrl_l s \<noteq> 0 then FLAG_CTRL_L else 0) OR (if ctrl_r s \<noteq> 0 then FLAG_CTRL_R else 0) OR
     (if alt_l s \<noteq> 0 then FLAG_ALT_L else 0) OR (if alt_r s \<noteq> 0 then FLAG_ALT_R else 0)"

definition is_pad :: "u32 \<Rightarrow> bool" where
  "is_pad key \<longleftrightarrow> key \<ge> PAD_SLASH \<and> key \<le> PAD_9"

definition is_make :: "u8 \<Rightarrow> bool" where
  "is_make scan_code \<longleftrightarrow> ucast scan_code AND FLAG_BREAK = 0"

text \<open>A scan code that is not part of a longer sequence: the key for \<^verbatim>\<open>in_process\<close>, if it is pressed.\<close>

definition translate :: "u8 \<Rightarrow> kb_state \<Rightarrow> u32 option \<times> kb_state" where
  "translate scan_code s =
     (let bMake = (if is_make scan_code then 1 else 0);
          keyrow = unat (scan_code AND 0x7F) * MAP_COLS;
          s1 = s\<lparr>column := (if shift_l s \<noteq> 0 \<or> shift_r s \<noteq> 0 then 1 else 0)\<rparr>;
          s2 = (if code_with_E0 s1 \<noteq> 0 then s1\<lparr>column := 2, code_with_E0 := 0\<rparr> else s1);
          key = keymap (keyrow + column s2);
          s3 = note_key key bMake s2
      in if bMake \<noteq> 0 then
           (Some ((if is_pad key then pad_key (num_lock s3) key else key) OR modifiers s3 OR
                  (if is_pad key then FLAG_PAD else 0)), s3)
         else (None, s3))"

text \<open>
  \<^verbatim>\<open>keyboard_read\<close> hands the key to \<^verbatim>\<open>in_process\<close> as its last action; the model returns it to the
  caller, \<^verbatim>\<open>tty_dev_read\<close>, which does so.
\<close>

definition keyboard_read :: "kb_state \<Rightarrow> (u32 option \<times> kb_state) res" where
  "keyboard_read s =
     (if kb_count (kb_in s) > 0 then
        res_bind (get_byte_from_kbuf (s\<lparr>code_with_E0 := 0\<rparr>)) (\<lambda>(scan_code, s1).
        if scan_code = 0xE1 then
          res_bind (match_codes pausebrk_scode s1) (\<lambda>(is_pausebreak, s2).
          Inr (if is_pausebreak then (None, s2) else translate scan_code s2))
        else if scan_code = 0xE0 then
          res_bind (read_ext s1) (\<lambda>(scan_code', key, s2).
          Inr (if key = PRINTSCREEN then (None, s2) else translate scan_code' s2))
        else Inr (translate scan_code s1))
      else Inr (None, s))"

section \<open>The buffer is a bounded queue\<close>

definition kb_wf :: "KB_INPUT \<Rightarrow> bool" where
  "kb_wf k \<longleftrightarrow> ring_wf KB_IN_BYTE (p_head k) (p_tail k) (kb_count k)"

definition kb_contents :: "KB_INPUT \<Rightarrow> u8 list" where
  "kb_contents k = ring_list KB_IN_BYTE (kb_buf k) (p_tail k) (nat (kb_count k))"

lemma kb_put_eq:
  "kb_put x k = (if kb_count k < 32 then k\<lparr>kb_buf := (kb_buf k)(p_head k := x),
     p_head := ring_next KB_IN_BYTE (p_head k), kb_count := kb_count k + 1\<rparr> else k)"
  by (simp add: kb_put_def ring_next_def Let_def)

lemma kb_pop_eq:
  "kb_pop k = (kb_buf k (p_tail k),
     k\<lparr>p_tail := ring_next KB_IN_BYTE (p_tail k), kb_count := kb_count k - 1\<rparr>)"
  by (simp add: kb_pop_def ring_next_def Let_def)

lemma kb_contents_put:
  assumes "kb_wf k" "kb_count k < 32"
  shows "kb_contents (kb_put x k) = kb_contents k @ [x]"
proof -
  note w = ring_wf_put [OF assms(1) [unfolded kb_wf_def]]
  have n: "nat (kb_count k + 1) = Suc (nat (kb_count k))" "nat (kb_count k) < 32"
    using assms by (auto simp: kb_wf_def ring_wf_def)
  show ?thesis
    using ring_list_put [OF n(2), of "kb_buf k" "p_tail k" x] w(3) assms(2)
    by (simp add: kb_contents_def kb_put_eq n(1))
qed

lemma kb_empty_iff: "kb_wf k \<Longrightarrow> kb_contents k = [] \<longleftrightarrow> kb_count k \<le> 0"
  by (auto simp: kb_contents_def ring_list_def)

lemma kb_contents_pop:
  assumes "kb_wf k" "0 < kb_count k"
  shows "kb_contents k = fst (kb_pop k) # kb_contents (snd (kb_pop k))" "kb_wf (snd (kb_pop k))"
proof -
  have t: "p_tail k < 32" "0 < nat (kb_count k)"
    using assms by (auto simp: kb_wf_def ring_wf_def)
  have "nat (kb_count k - 1) = nat (kb_count k) - 1"
    by (simp add: nat_diff_distrib')
  then show "kb_contents k = fst (kb_pop k) # kb_contents (snd (kb_pop k))"
    using ring_list_pop [OF t, of "kb_buf k"] by (simp add: kb_contents_def kb_pop_eq)
  show "kb_wf (snd (kb_pop k))"
    using ring_wf_pop [OF assms(1) [unfolded kb_wf_def] assms(2)] by (simp add: kb_wf_def kb_pop_eq)
qed

interpretation kbq: drop_queue KB_IN_BYTE kb_wf kb_contents kb_put kb_pop
proof
  fix k :: KB_INPUT and x :: u8
  assume w: "kb_wf k"
  show "length (kb_contents k) \<le> KB_IN_BYTE"
    using w by (auto simp: kb_contents_def kb_wf_def ring_wf_def)
  show "kb_wf (kb_put x k)"
    using ring_wf_put(1) [OF w [unfolded kb_wf_def]] w by (auto simp: kb_wf_def kb_put_eq)
  have "kb_count k < 32 \<longleftrightarrow> length (kb_contents k) < KB_IN_BYTE"
    using w by (auto simp: kb_contents_def kb_wf_def ring_wf_def)
  then show "kb_contents (kb_put x k) =
      (if length (kb_contents k) < KB_IN_BYTE then kb_contents k @ [x] else kb_contents k)"
    using kb_contents_put [OF w] by (auto simp: kb_put_eq)
  assume "kb_contents k \<noteq> []"
  then have n: "0 < kb_count k"
    using w by (simp add: kb_empty_iff)
  from kb_contents_pop [OF w n] show "kb_wf (snd (kb_pop k))" "fst (kb_pop k) = hd (kb_contents k)"
      "kb_contents (snd (kb_pop k)) = tl (kb_contents k)"
    by simp_all
qed

section \<open>Reading\<close>

lemma get_byte_eq:
  assumes "kb_wf (kb_in s)" "kb_contents (kb_in s) = c # bs"
  obtains k where "get_byte_from_kbuf s = Inr (c, s\<lparr>kb_in := k\<rparr>)" "kb_wf k" "kb_contents k = bs"
proof -
  have ne: "kb_contents (kb_in s) \<noteq> []"
    using assms(2) by simp
  then have "0 < kb_count (kb_in s)"
    using kb_empty_iff [OF assms(1)] by simp
  then have "get_byte_from_kbuf s = Inr (c, s\<lparr>kb_in := snd (kb_pop (kb_in s))\<rparr>)"
    using kbq.pop_head [OF assms(1) ne] assms(2) by (simp add: get_byte_from_kbuf_def case_prod_beta)
  then show ?thesis
    using kbq.wf_pop [OF assms(1) ne] kbq.contents_pop [OF assms(1) ne] assms(2)
    by (intro that) simp_all
qed

lemma kb_count_pos: "kb_wf k \<Longrightarrow> kb_contents k = c # bs \<Longrightarrow> 0 < kb_count k"
  using kb_empty_iff [of k] by auto

lemma keyboard_read_plain:
  assumes w: "kb_wf (kb_in s)" "kb_contents (kb_in s) = c # bs" and c: "c \<noteq> 0xE0" "c \<noteq> 0xE1"
  obtains k where "keyboard_read s = Inr (translate c (s\<lparr>code_with_E0 := 0, kb_in := k\<rparr>))"
    "kb_wf k" "kb_contents k = bs"
proof -
  obtain k where "get_byte_from_kbuf (s\<lparr>code_with_E0 := 0\<rparr>) = Inr (c, s\<lparr>code_with_E0 := 0, kb_in := k\<rparr>)"
      "kb_wf k" "kb_contents k = bs"
    using get_byte_eq [of "s\<lparr>code_with_E0 := 0\<rparr>" c bs] w by auto
  then show ?thesis
    using kb_count_pos [OF w] c by (intro that [of k]) (simp_all add: keyboard_read_def)
qed

lemma match_codes_returns:
  assumes "kb_wf (kb_in s)" "length codes \<le> length (kb_contents (kb_in s))"
  shows "\<exists>b k. match_codes codes s = Inr (b, s\<lparr>kb_in := k\<rparr>) \<and> kb_wf k"
  using assms
proof (induction codes arbitrary: s)
  case Nil
  then show ?case
    by (intro exI [of _ True] exI [of _ "kb_in s"]) simp
next
  case (Cons c codes)
  then obtain b bs where bs: "kb_contents (kb_in s) = b # bs"
    by (cases "kb_contents (kb_in s)") auto
  obtain k where k: "get_byte_from_kbuf s = Inr (b, s\<lparr>kb_in := k\<rparr>)" "kb_wf k" "kb_contents k = bs"
    using get_byte_eq [OF Cons.prems(1) bs] by blast
  show ?case
  proof (cases "b = c")
    case True
    then show ?thesis
      using Cons.IH [of "s\<lparr>kb_in := k\<rparr>"] Cons.prems(2) k bs by auto
  next
    case False
    then show ?thesis
      using k by auto
  qed
qed

lemma read_ext_returns:
  assumes "kb_wf (kb_in s)" "3 \<le> length (kb_contents (kb_in s))"
  shows "\<exists>r. read_ext s = Inr r"
proof -
  obtain c bs where bs: "kb_contents (kb_in s) = c # bs" "2 \<le> length bs"
    using assms(2) by (cases "kb_contents (kb_in s)") auto
  obtain k where k: "get_byte_from_kbuf s = Inr (c, s\<lparr>kb_in := k\<rparr>)" "kb_wf k" "kb_contents k = bs"
    using get_byte_eq [OF assms(1) bs(1)] by blast
  have m: "\<exists>b k'. match_codes [x, y] (s\<lparr>kb_in := k\<rparr>) = Inr (b, s\<lparr>kb_in := k'\<rparr>) \<and> kb_wf k'" for x y
    using match_codes_returns [of "s\<lparr>kb_in := k\<rparr>" "[x, y]"] k bs(2) by simp
  show ?thesis
    using m [of "0xE0" "0x37"] m [of "0xE0" "0xAA"] k by (auto simp: read_ext_def)
qed

text \<open>Seven buffered bytes are enough for \<^verbatim>\<open>keyboard_read\<close> to return.\<close>

lemma keyboard_read_returns:
  assumes w: "kb_wf (kb_in s)" and n: "7 \<le> length (kb_contents (kb_in s))"
  shows "\<exists>r. keyboard_read s = Inr r"
proof -
  obtain c bs where bs: "kb_contents (kb_in s) = c # bs" "6 \<le> length bs"
    using n by (cases "kb_contents (kb_in s)") auto
  let ?s = "s\<lparr>code_with_E0 := 0\<rparr>"
  obtain k where k: "get_byte_from_kbuf ?s = Inr (c, ?s\<lparr>kb_in := k\<rparr>)" "kb_wf k" "kb_contents k = bs"
    using get_byte_eq [of ?s c bs] w bs(1) by auto
  have "\<exists>b k'. match_codes pausebrk_scode (?s\<lparr>kb_in := k\<rparr>) = Inr (b, ?s\<lparr>kb_in := k'\<rparr>)"
    using match_codes_returns [of "?s\<lparr>kb_in := k\<rparr>" pausebrk_scode] k bs(2)
    by (auto simp: pausebrk_scode_def)
  moreover have "\<exists>r. read_ext (?s\<lparr>kb_in := k\<rparr>) = Inr r"
    using read_ext_returns [of "?s\<lparr>kb_in := k\<rparr>"] k bs(2) by simp
  ultimately show ?thesis
    using kb_count_pos [OF w bs(1)] k(1) by (auto simp: keyboard_read_def)
qed

section \<open>Keys\<close>

lemma set_leds_kb_in [simp]: "kb_in (set_leds s) = kb_in s" "set_leds (s\<lparr>kb_in := k\<rparr>) = (set_leds s)\<lparr>kb_in := k\<rparr>"
  by (simp_all add: set_leds_def)

lemma note_key_kb_in [simp]: "kb_in (note_key key b s) = kb_in s"
  by (simp add: note_key_def)

lemma note_key_upd [simp]: "note_key key b (s\<lparr>kb_in := k\<rparr>) = (note_key key b s)\<lparr>kb_in := k\<rparr>"
  by (simp add: note_key_def set_leds_def)

lemma translate_kb_in: "kb_in (snd (translate c s)) = kb_in s"
  by (simp add: translate_def Let_def)

lemma translate_upd: "fst (translate c (s\<lparr>kb_in := k\<rparr>)) = fst (translate c s)"
proof -
  have n: "note_key key b (s\<lparr>kb_in := k, column := n\<rparr>) = (note_key key b (s\<lparr>column := n\<rparr>))\<lparr>kb_in := k\<rparr>"
    "note_key key b (s\<lparr>kb_in := k, column := n, code_with_E0 := e\<rparr>) =
     (note_key key b (s\<lparr>column := n, code_with_E0 := e\<rparr>))\<lparr>kb_in := k\<rparr>" for key b n e
    by (simp_all add: note_key_def set_leds_def)
  have "modifiers (x\<lparr>kb_in := k\<rparr>) = modifiers x" for x
    by (simp add: modifiers_def)
  then show ?thesis
    by (simp add: translate_def Let_def n)
qed

lemma keyboard_read_rest:
  assumes w: "kb_wf (kb_in s)" "kb_contents (kb_in s) = c # bs" and c: "c \<noteq> 0xE0" "c \<noteq> 0xE1"
  shows "\<exists>kb'. keyboard_read s = Inr (fst (translate c (s\<lparr>code_with_E0 := 0\<rparr>)), kb') \<and>
    kb_wf (kb_in kb') \<and> kb_contents (kb_in kb') = bs"
proof -
  obtain k where k: "keyboard_read s = Inr (translate c (s\<lparr>code_with_E0 := 0, kb_in := k\<rparr>))"
      "kb_wf k" "kb_contents k = bs"
    using keyboard_read_plain [OF w c] .
  obtain r kb' where t: "translate c (s\<lparr>code_with_E0 := 0, kb_in := k\<rparr>) = (r, kb')"
    by (cases "translate c (s\<lparr>code_with_E0 := 0, kb_in := k\<rparr>)")
  have "r = fst (translate c (s\<lparr>code_with_E0 := 0\<rparr>))"
    using translate_upd [of c k "s\<lparr>code_with_E0 := 0\<rparr>"] t by simp
  moreover have "kb_in kb' = k"
    using translate_kb_in [of c "s\<lparr>code_with_E0 := 0, kb_in := k\<rparr>"] t by simp
  ultimately show ?thesis
    using k t by auto
qed

text \<open>A key of the character part of the map: its code is the character, with the modifiers above it.\<close>

lemma plain_key_small:
  assumes "key < 0x80"
  shows "note_key key b s = s" "\<not> is_pad key"
proof -
  have less: "unat key < 0x80"
    using assms by (simp add: word_less_nat_alt)
  have ne: "key \<noteq> c" if "0x80 \<le> unat c" for c
    using less that by auto
  show "note_key key b s = s"
    by (simp add: note_key_def ne)
  show "\<not> is_pad key"
    using less by (simp add: is_pad_def word_le_nat_alt)
qed

definition plain_code :: "u8 \<Rightarrow> kb_state \<Rightarrow> u32" where
  "plain_code c s = keymap (unat (c AND 0x7F) * MAP_COLS + (if shift_l s \<noteq> 0 \<or> shift_r s \<noteq> 0 then 1 else 0))"

lemma translate_plain:
  assumes "is_make c" "plain_code c s < 0x80" "code_with_E0 s = 0"
  shows "fst (translate c s) = Some (plain_code c s OR modifiers s)"
proof -
  have "modifiers (s\<lparr>column := n\<rparr>) = modifiers s" for n
    by (simp add: modifiers_def)
  then show ?thesis
    using assms plain_key_small [OF assms(2)]
    by (simp add: translate_def Let_def plain_code_def)
qed

lemma modifiers_low: "take_bit 9 (modifiers s) = 0"
proof -
  have "modifiers s AND 0x1FF = 0"
    by (simp add: modifiers_def bit.conj_disj_distrib2)
  moreover have "mask 9 = (0x1FF :: u32)"
    by (simp add: mask_eq_exp_minus_1)
  ultimately show ?thesis
    by (simp add: take_bit_eq_mask)
qed

lemma plain_key_bits:
  assumes "key < 0x80"
  shows "(key OR modifiers s) AND FLAG_EXT = 0" "ucast (key OR modifiers s) = (ucast key :: u8)"
proof -
  have m: "\<not> bit (modifiers s) n" if "n < 9" for n
    using modifiers_low [of s] that by (metis bit_0_eq bit_take_bit_iff bot_apply bot_bool_def)
  have "unat key < 2 ^ 7"
    using assms by (simp add: word_less_nat_alt)
  then have "unat (take_bit 7 key) = unat key"
    by (simp add: unsigned_take_bit_eq take_bit_nat_eq_self)
  then have "take_bit 7 key = key"
    by (simp only: word_unat_eq_iff)
  then have k: "\<not> bit key n" if "7 \<le> n" for n
    using that by (metis bit_take_bit_iff not_less)
  have "FLAG_EXT = push_bit 8 1"
    by (simp add: push_bit_eq_mult)
  moreover have "(key OR modifiers s) AND push_bit 8 1 = 0"
  proof (rule bit_eqI)
    fix n
    have "\<not> bit (push_bit 8 (1 :: u32)) n \<or> n = 8"
      unfolding bit_push_bit_iff by (auto simp: bit_simps)
    then show "bit ((key OR modifiers s) AND push_bit 8 1) n = bit 0 n"
      unfolding bit_and_iff bit_or_iff using k [of n] m [of n] by auto
  qed
  ultimately show "(key OR modifiers s) AND FLAG_EXT = 0"
    by metis
  show "ucast (key OR modifiers s) = (ucast key :: u8)"
    by (rule bit_eqI) (auto simp: bit_ucast_iff bit_or_iff m)
qed

text \<open>
  The six bytes a keyboard sends for Pause/Break. The first one is already consumed when the
  comparison starts at the first one again.
\<close>

lemma pause_not_recognised:
  assumes w: "kb_wf (kb_in s)" "kb_contents (kb_in s) = pausebrk_scode @ bs"
  shows "\<exists>k. keyboard_read s = Inr (translate 0xE1 (s\<lparr>code_with_E0 := 0, kb_in := k\<rparr>)) \<and>
    kb_contents k = [0x45, 0xE1, 0x9D, 0xC5] @ bs"
proof -
  let ?s = "s\<lparr>code_with_E0 := 0\<rparr>"
  have w': "kb_wf (kb_in ?s)" "kb_contents (kb_in ?s) = 0xE1 # 0x1D # [0x45, 0xE1, 0x9D, 0xC5] @ bs"
    using w by (simp_all add: pausebrk_scode_def)
  obtain k1 where 1: "get_byte_from_kbuf ?s = Inr (0xE1, ?s\<lparr>kb_in := k1\<rparr>)" "kb_wf k1"
      "kb_contents k1 = 0x1D # [0x45, 0xE1, 0x9D, 0xC5] @ bs"
    using get_byte_eq [OF w'] .
  obtain k2 where 2: "get_byte_from_kbuf (?s\<lparr>kb_in := k1\<rparr>) = Inr (0x1D, ?s\<lparr>kb_in := k1\<rparr>\<lparr>kb_in := k2\<rparr>)"
      "kb_contents k2 = [0x45, 0xE1, 0x9D, 0xC5] @ bs"
    using get_byte_eq [of "?s\<lparr>kb_in := k1\<rparr>" "0x1D"] 1(2,3) by auto
  have "0 < kb_count (kb_in s)"
    using kb_count_pos [OF w'(1)] w'(2) by simp
  then show ?thesis
    using 1(1) 2 by (intro exI [of _ k2]) (simp add: keyboard_read_def pausebrk_scode_def)
qed

end
