(* ===== verification/Memory.thy ===== *)
theory Memory
  imports Prelude
begin

text \<open>
  Runs of bytes in linear memory, as \<^verbatim>\<open>phys_copy\<close> moves them: reading \<open>n\<close> bytes from an address,
  writing a list of bytes to one. Addresses wrap around at \<^verbatim>\<open>2^32\<close>, as they do on the machine.
\<close>

definition mem_bytes :: "(u32 \<Rightarrow> u8) \<Rightarrow> u32 \<Rightarrow> nat \<Rightarrow> u8 list" where
  "mem_bytes m a n = map (\<lambda>i. m (a + of_nat i)) [0..<n]"

fun write_bytes :: "u32 \<Rightarrow> u8 list \<Rightarrow> (u32 \<Rightarrow> u8) \<Rightarrow> u32 \<Rightarrow> u8" where
  "write_bytes a [] m = m"
| "write_bytes a (b # bs) m = write_bytes (a + 1) bs (m(a := b))"

lemma mem_bytes_split:
  "k \<le> n \<Longrightarrow> mem_bytes m a n = mem_bytes m a k @ mem_bytes m (a + of_nat k) (n - k)"
  by (rule nth_equalityI) (auto simp: mem_bytes_def nth_append add.assoc simp flip: of_nat_add)

lemma write_bytes_outside:
  "(\<And>i. i < length bs \<Longrightarrow> x \<noteq> a + of_nat i) \<Longrightarrow> write_bytes a bs m x = m x"
proof (induction bs arbitrary: a m)
  case (Cons b bs)
  have "x \<noteq> a"
    using Cons.prems [of 0] by simp
  moreover have "x \<noteq> a + 1 + of_nat i" if "i < length bs" for i
    using Cons.prems [of "Suc i"] that by (simp add: add.assoc)
  ultimately show ?case
    by (simp add: Cons.IH)
qed simp

lemma write_bytes_append:
  "write_bytes a (xs @ ys) m = write_bytes (a + of_nat (length xs)) ys (write_bytes a xs m)"
  by (induction xs arbitrary: a m) (simp_all add: add.assoc add.commute)

lemma write_bytes_read:
  "length bs \<le> 2 ^ 32 \<Longrightarrow> i < length bs \<Longrightarrow> write_bytes a bs m (a + of_nat i) = bs ! i"
proof (induction bs arbitrary: a m i)
  case (Cons b bs)
  show ?case
  proof (cases i)
    case 0
    have "a \<noteq> a + 1 + of_nat k" if "k < length bs" for k
    proof
      assume "a = a + 1 + of_nat k"
      then have "of_nat (Suc k) = (0 :: u32)"
        by (simp add: add.assoc)
      then have "2 ^ 32 dvd Suc k"
        by (simp add: word_of_nat_eq_0_iff take_bit_eq_0_iff del: of_nat_Suc)
      then show False
        using that Cons.prems(1) by (auto dest!: dvd_imp_le)
    qed
    then have "write_bytes (a + 1) bs (m(a := b)) a = (m(a := b)) a"
      by (intro write_bytes_outside) simp
    then show ?thesis
      using 0 by simp
  next
    case (Suc k)
    have "write_bytes (a + 1) bs (m(a := b)) (a + 1 + of_nat k) = bs ! k"
      using Suc Cons.prems by (intro Cons.IH) simp_all
    then show ?thesis
      using Suc by (simp add: add.assoc)
  qed
qed simp

text \<open>\<^verbatim>\<open>memcpy\<close> (and \<^verbatim>\<open>phys_copy\<close>, the same function) copies byte by byte, upwards.\<close>

fun memcpy :: "u32 \<Rightarrow> u32 \<Rightarrow> nat \<Rightarrow> (u32 \<Rightarrow> u8) \<Rightarrow> u32 \<Rightarrow> u8" where
  "memcpy dst src 0 m = m"
| "memcpy dst src (Suc n) m = memcpy (dst + 1) (src + 1) n (m(dst := m src))"

lemma memcpy_disjoint:
  "(\<And>i j. i < n \<Longrightarrow> j < n \<Longrightarrow> src + of_nat i \<noteq> dst + of_nat j) \<Longrightarrow>
   memcpy dst src n m = write_bytes dst (mem_bytes m src n) m"
proof (induction n arbitrary: dst src m)
  case (Suc n)
  have d: "src + of_nat i \<noteq> dst" if "i < Suc n" for i
    using Suc.prems [of i 0] that by simp
  have "src + 1 + of_nat i \<noteq> dst + 1 + of_nat j" if "i < n" "j < n" for i j
    using Suc.prems [of "Suc i" "Suc j"] that by (simp add: add.assoc)
  then have "memcpy dst src (Suc n) m = write_bytes (dst + 1) (mem_bytes (m(dst := m src)) (src + 1) n) (m(dst := m src))"
    unfolding memcpy.simps by (rule Suc.IH)
  also have "mem_bytes (m(dst := m src)) (src + 1) n = mem_bytes m (src + 1) n"
    using d [of "Suc _"] by (auto simp: mem_bytes_def add.assoc)
  also have "write_bytes (dst + 1) (mem_bytes m (src + 1) n) (m(dst := m src)) = write_bytes dst (mem_bytes m src (Suc n)) m"
    using mem_bytes_split [of 1 "Suc n" m src] by (simp add: mem_bytes_def)
  finally show ?case .
qed (simp add: mem_bytes_def)

lemma length_mem_bytes [simp]: "length (mem_bytes m a n) = n"
  by (simp add: mem_bytes_def)

lemma nth_mem_bytes [simp]: "i < n \<Longrightarrow> mem_bytes m a n ! i = m (a + of_nat i)"
  by (simp add: mem_bytes_def)

lemma take_mem_bytes: "k \<le> n \<Longrightarrow> take k (mem_bytes m a n) = mem_bytes m a k"
  by (simp add: mem_bytes_split)

lemma mem_bytes_write_bytes:
  "length bs \<le> 2 ^ 32 \<Longrightarrow> mem_bytes (write_bytes a bs m) a (length bs) = bs"
  by (rule nth_equalityI) (simp_all add: write_bytes_read)

section \<open>Words in memory\<close>

definition half_at :: "(u32 \<Rightarrow> u8) \<Rightarrow> u32 \<Rightarrow> u16" where
  "half_at m a = ucast (m a) OR push_bit 8 (ucast (m (a + 1)))"

definition word_at :: "(u32 \<Rightarrow> u8) \<Rightarrow> u32 \<Rightarrow> u32" where
  "word_at m a = ((ucast (m a) OR push_bit 8 (ucast (m (a + 1)))) OR push_bit 16 (ucast (m (a + 2))))
     OR push_bit 24 (ucast (m (a + 3)))"

definition bytes_of :: "u32 \<Rightarrow> u8 list" where
  "bytes_of w = [ucast w, ucast (drop_bit 8 w), ucast (drop_bit 16 w), ucast (drop_bit 24 w)]"

definition word_of :: "u8 list \<Rightarrow> u32" where
  "word_of bs = ((ucast (bs ! 0) OR push_bit 8 (ucast (bs ! 1))) OR push_bit 16 (ucast (bs ! 2)))
     OR push_bit 24 (ucast (bs ! 3))"

lemma word_of_bytes_of [simp]:
  "word_of [ucast w, ucast (drop_bit 8 w), ucast (drop_bit 16 w), ucast (drop_bit 24 w)] = w"
proof (rule bit_word_eqI)
  fix n assume "n < LENGTH(32)"
  then consider "n < 8" | "8 \<le> n" "n < 16" | "16 \<le> n" "n < 24" | "24 \<le> n" "n < 32"
    by fastforce
  then show "bit (word_of [ucast w, ucast (drop_bit 8 w), ucast (drop_bit 16 w), ucast (drop_bit 24 w)]) n = bit w n"
    by cases (auto simp: word_of_def bit_simps)
qed

lemma length_bytes_of [simp]: "length (bytes_of w) = 4"
  by (simp add: bytes_of_def)

end
