(* ===== verification/Tty.thy ===== *)
theory Tty
  imports Console Keyboard Ipc Memory
begin

text \<open>
  The terminal task: \<^verbatim>\<open>kernel/tty.c\<close>, \<^verbatim>\<open>include/sys/tty.h\<close>, and the parts of \<^verbatim>\<open>kernel/console.c\<close> that
  work on the table of consoles. A terminal has an input ring buffer fed from the keyboard, at
  most one pending read request, and a console.

  The messages the task sends are recorded in order in \<open>t_sent\<close>; whether a send blocks is a
  matter of message passing (theory \<^verbatim>\<open>Ipc\<close>). Memory outside the video memory is \<open>t_mem\<close>,
  addressed linearly.
\<close>

abbreviation (input) TTY_IN_BYTES :: nat where "TTY_IN_BYTES \<equiv> 256"
abbreviation (input) TTY_OUT_IN_BYTES :: nat where "TTY_OUT_IN_BYTES \<equiv> 2"
abbreviation (input) MAG_CH_PANIC :: u8 where "MAG_CH_PANIC \<equiv> 2"
abbreviation (input) MAG_CH_ASSERT :: u8 where "MAG_CH_ASSERT \<equiv> 3"

section \<open>State\<close>

record TTY =
  in_buf :: "nat \<Rightarrow> u32"
  p_inbuf_head :: nat
  p_inbuf_tail :: nat
  inbuf_count :: int
  tty_caller :: int
  tty_pro_nr :: int
  tty_read_buf :: u32
  tty_bytes_left :: int
  tty_trans_bytes :: int
  p_con :: nat

text \<open>
  A message the task sends. Of the message that wakes a reader only three fields are set; the
  others are replies to a request, sent back whole.
\<close>

datatype tty_msg = Resume int int int | Reply int MESSAGE

record tty_state =
  tty_table :: "nat \<Rightarrow> TTY"
  console_table :: "nat \<Rightarrow> CONSOLE"
  nr_cur_console :: int
  scr :: screen
  disp_pos :: int
  t_mem :: "u32 \<Rightarrow> u8"
  t_procs :: proc_tab
  t_sent :: "tty_msg list"

section \<open>Consoles of terminals\<close>

definition con_out :: "u8 \<Rightarrow> nat \<Rightarrow> tty_state \<Rightarrow> tty_state res" where
  "con_out ch i st =
     res_bind (out_char ch (console_table st i, scr st)) (\<lambda>(c, s).
     Inr (st\<lparr>console_table := (console_table st)(i := c), scr := s\<rparr>))"

definition is_cur_console :: "nat \<Rightarrow> tty_state \<Rightarrow> bool" where
  "is_cur_console i st \<longleftrightarrow> int i = nr_cur_console st"

definition set_cur_con :: "int \<Rightarrow> tty_state \<Rightarrow> tty_state" where
  "set_cur_con con_no st =
     (if con_no < 0 \<or> con_no \<ge> NR_TTYS then st
      else let c = console_table st (nat con_no)
           in st\<lparr>nr_cur_console := con_no,
                 scr := set_screen_start (cur_start_addr c)
                          (set_cursor (ucast (cur_cursor_pos c)) (scr st))\<rparr>)"

definition con_scroll :: "int \<Rightarrow> nat \<Rightarrow> tty_state \<Rightarrow> tty_state" where
  "con_scroll direction i st =
     (case scroll_screen direction (console_table st i, scr st) of (c, s) \<Rightarrow>
        st\<lparr>console_table := (console_table st)(i := c), scr := s\<rparr>)"

definition init_screen :: "nat \<Rightarrow> tty_state \<Rightarrow> tty_state res" where
  "init_screen t st =
     (let vsize = drop_bit 1 V_MEM_SIZE;
          mem_size = vsize div 3;
          orig = mem_size * of_nat t;
          c = \<lparr>orig_start_addr = orig, cur_start_addr = orig, v_mem_size = mem_size,
               v_mem_base = V_MEM_BASE, cur_cursor_pos = orig\<rparr>;
          st1 = st\<lparr>tty_table := (tty_table st)(t := (tty_table st t)\<lparr>p_con := t\<rparr>),
                   console_table := (console_table st)(t := c)\<rparr>
      in if t = 0 then
           Inr (st1\<lparr>console_table := (console_table st1)(0 := c\<lparr>cur_cursor_pos := of_int (disp_pos st1 div 2)\<rparr>),
                    disp_pos := 0\<rparr>)
         else res_bind (con_out (of_nat t + 0x30) t st1) (\<lambda>st2. con_out 0x23 t st2))"

definition init_one_tty :: "nat \<Rightarrow> tty_state \<Rightarrow> tty_state res" where
  "init_one_tty t st =
     init_screen t (st\<lparr>tty_table := (tty_table st)(t :=
       (tty_table st t)\<lparr>p_inbuf_head := 0, p_inbuf_tail := 0, inbuf_count := 0\<rparr>)\<rparr>)"

definition init_tty :: "tty_state \<Rightarrow> tty_state res" where
  "init_tty st =
     res_bind (init_one_tty 0 st) (\<lambda>st1.
     res_bind (init_one_tty 1 st1) (\<lambda>st2. init_one_tty 2 st2))"

section \<open>Input\<close>

definition tty_put :: "u32 \<Rightarrow> TTY \<Rightarrow> TTY" where
  "tty_put key p =
     (if inbuf_count p < int TTY_IN_BYTES then
        let p1 = p\<lparr>in_buf := (in_buf p)(p_inbuf_head p := key)\<rparr>;
            p2 = p1\<lparr>p_inbuf_head := p_inbuf_head p1 + 1\<rparr>;
            p3 = (if p_inbuf_head p2 = TTY_IN_BYTES then p2\<lparr>p_inbuf_head := 0\<rparr> else p2)
        in p3\<lparr>inbuf_count := inbuf_count p3 + 1\<rparr>
      else p)"

definition put_key :: "nat \<Rightarrow> u32 \<Rightarrow> tty_state \<Rightarrow> tty_state" where
  "put_key t key st = st\<lparr>tty_table := (tty_table st)(t := tty_put key (tty_table st t))\<rparr>"

definition in_process :: "u32 \<Rightarrow> nat \<Rightarrow> tty_state \<Rightarrow> tty_state" where
  "in_process key t st =
     (if key AND FLAG_EXT = 0 then put_key t key st
      else let raw_code = key AND MASK_RAW
           in if raw_code = ENTER then put_key t 10 st
              else if raw_code = BACKSPACE then put_key t 8 st
              else if raw_code \<in> {F1, F2, F3, F4, F5, F6, F7, F8, F9}
                then set_cur_con (sint (key - F1)) st
              else if raw_code = UP then
                if key AND FLAG_SHIFT_L \<noteq> 0 \<or> key AND FLAG_SHIFT_R \<noteq> 0
                then con_scroll SCR_UP (p_con (tty_table st t)) st else st
              else if raw_code = DOWN then
                if key AND FLAG_SHIFT_L \<noteq> 0 \<or> key AND FLAG_SHIFT_R \<noteq> 0
                then con_scroll SCR_DOWN (p_con (tty_table st t)) st else st
              else st)"

definition tty_dev_read :: "nat \<Rightarrow> tty_state \<times> kb_state \<Rightarrow> (tty_state \<times> kb_state) res" where
  "tty_dev_read t sk =
     (case sk of (st, kb) \<Rightarrow>
      if \<not> is_cur_console (p_con (tty_table st t)) st then Inr (st, kb)
      else res_bind (keyboard_read kb) (\<lambda>(key, kb1).
           Inr (case key of None \<Rightarrow> st | Some k \<Rightarrow> in_process k t st, kb1)))"

section \<open>Echo and pending reads\<close>

definition tty_pop :: "TTY \<Rightarrow> u32 \<times> TTY" where
  "tty_pop p =
     (let ch = in_buf p (p_inbuf_tail p);
          p1 = p\<lparr>p_inbuf_tail := p_inbuf_tail p + 1\<rparr>;
          p2 = (if p_inbuf_tail p1 = TTY_IN_BYTES then p1\<lparr>p_inbuf_tail := 0\<rparr> else p1)
      in (ch, p2\<lparr>inbuf_count := inbuf_count p2 - 1\<rparr>))"

definition printable :: "u8 \<Rightarrow> bool" where
  "printable ch \<longleftrightarrow> ch \<ge> 0x20 \<and> ch \<le> 0x7E"

definition upd_tty :: "nat \<Rightarrow> (TTY \<Rightarrow> TTY) \<Rightarrow> tty_state \<Rightarrow> tty_state" where
  "upd_tty t f st = st\<lparr>tty_table := (tty_table st)(t := f (tty_table st t))\<rparr>"

text \<open>
  The character goes to the pending read request, or takes the last one back. The code copies it from
  \<^verbatim>\<open>va2la(TASK_TTY, &ch)\<close>; the segments of the task are flat, so that the address is the variable's own and the
  assertion in \<^verbatim>\<open>va2la\<close> holds. Every address can be written: a byte in front of the reader's buffer is
  overwritten and not an error.
\<close>

definition tty_feed :: "nat \<Rightarrow> u8 \<Rightarrow> tty_state \<Rightarrow> tty_state res" where
  "tty_feed t ch st =
     (let p = tty_table st t
      in if printable ch then
           res_bind (con_out ch (p_con p) st) (\<lambda>st1.
           Inr (upd_tty t (\<lambda>p. p\<lparr>tty_bytes_left := tty_bytes_left p - 1,
                                 tty_trans_bytes := tty_trans_bytes p + 1\<rparr>)
             (st1\<lparr>t_mem := (t_mem st1)(tty_read_buf p + of_int (tty_trans_bytes p) := ch)\<rparr>)))
         else if ch = 8 then
           res_bind (con_out ch (p_con p) st) (\<lambda>st1.
           Inr (upd_tty t (\<lambda>p. p\<lparr>tty_bytes_left := tty_bytes_left p + 1,
                                 tty_trans_bytes := tty_trans_bytes p - 1\<rparr>) st1))
         else Inr st)"

definition tty_finish :: "nat \<Rightarrow> u8 \<Rightarrow> tty_state \<Rightarrow> tty_state res" where
  "tty_finish t ch st =
     (let p = tty_table st t
      in if tty_bytes_left p = 0 \<or> ch = 10 then
           res_bind (con_out 10 (p_con p) st) (\<lambda>st1.
           Inr (upd_tty t (\<lambda>p. p\<lparr>tty_bytes_left := 0\<rparr>)
             (st1\<lparr>t_sent := t_sent st1 @ [Resume (tty_caller p) (tty_pro_nr p) (tty_trans_bytes p)]\<rparr>)))
         else Inr st)"

definition tty_consume :: "nat \<Rightarrow> tty_state \<Rightarrow> tty_state res" where
  "tty_consume t st =
     (case tty_pop (tty_table st t) of (k, p) \<Rightarrow>
      let ch = ucast k :: u8; st1 = st\<lparr>tty_table := (tty_table st)(t := p)\<rparr>
      in if tty_bytes_left p > 0
         then res_bind (tty_feed t ch st1) (\<lambda>st2. tty_finish t ch st2)
         else Inr st1)"

partial_function (option) tty_dev_write :: "nat \<Rightarrow> tty_state \<Rightarrow> tty_state res option" where
  "tty_dev_write t st =
     (if inbuf_count (tty_table st t) > 0 then
        case tty_consume t st of
          Inl e \<Rightarrow> Some (Inl e)
        | Inr st1 \<Rightarrow> tty_dev_write t st1
      else Some (Inr st))"

section \<open>Requests\<close>

fun out_chars :: "u8 list \<Rightarrow> nat \<Rightarrow> tty_state \<Rightarrow> tty_state res" where
  "out_chars [] i st = Inr st"
| "out_chars (ch # chs) i st = res_bind (con_out ch i st) (\<lambda>st1. out_chars chs i st1)"

definition tty_write :: "nat \<Rightarrow> u8 list \<Rightarrow> tty_state \<Rightarrow> tty_state res" where
  "tty_write t buf st = out_chars buf (p_con (tty_table st t)) st"

fun tty_write_loop :: "nat \<Rightarrow> int \<Rightarrow> u32 \<Rightarrow> nat \<Rightarrow> tty_state \<Rightarrow> tty_state res" where
  "tty_write_loop t proc_nr buf n st =
     (if n = 0 then Inr st
      else let bytes = min TTY_OUT_IN_BYTES n
           in res_bind (va2la (t_procs st) proc_nr buf) (\<lambda>la.
              res_bind (out_chars (mem_bytes (t_mem st) la bytes) (p_con (tty_table st t)) st) (\<lambda>st1.
              tty_write_loop t proc_nr (buf + of_nat bytes) (n - bytes) st1)))"

definition tty_do_write :: "nat \<Rightarrow> MESSAGE \<Rightarrow> tty_state \<Rightarrow> tty_state res" where
  "tty_do_write t msg st =
     res_bind (tty_write_loop t (PROC_NR msg) (BUF msg) (nat (CNT msg)) st) (\<lambda>st1.
     Inr (st1\<lparr>t_sent := t_sent st1 @ [Reply (source msg) (msg\<lparr>m3i2 := int (nat (CNT msg))\<rparr>)]\<rparr>))"

definition tty_do_read :: "nat \<Rightarrow> MESSAGE \<Rightarrow> tty_state \<Rightarrow> tty_state res" where
  "tty_do_read t msg st =
     res_bind (va2la (t_procs st) (PROC_NR msg) (BUF msg)) (\<lambda>la.
     let st1 = upd_tty t (\<lambda>p. p\<lparr>tty_caller := source msg, tty_pro_nr := PROC_NR msg,
                 tty_read_buf := la, tty_bytes_left := CNT msg, tty_trans_bytes := 0\<rparr>) st
     in Inr (st1\<lparr>t_sent := t_sent st1 @
          [Reply (source msg) (msg\<lparr>mtype := SUSPEND_PROC, m3i2 := CNT msg\<rparr>)]\<rparr>))"

text \<open>
  The body of \<^verbatim>\<open>task_tty\<close>: every terminal is served once, then a message is handled. The terminal
  of a request is \<^verbatim>\<open>tty_table[msg.DEVICE]\<close>; \<open>ks\<close> carries \<^verbatim>\<open>key_pressed\<close>.
\<close>

partial_function (option) tty_serve :: "nat \<Rightarrow> tty_state \<times> kb_state \<Rightarrow> (tty_state \<times> kb_state) res option" where
  "tty_serve t sk =
     (case tty_dev_read t sk of
        Inl e \<Rightarrow> Some (Inl e)
      | Inr sk1 \<Rightarrow>
        Option.bind (tty_dev_write t (fst sk1)) (\<lambda>r.
        case r of
          Inl e \<Rightarrow> Some (Inl e)
        | Inr st2 \<Rightarrow> if inbuf_count (tty_table st2 t) > 0 then tty_serve t (st2, snd sk1)
                     else Some (Inr (st2, snd sk1))))"

definition tty_serve_res :: "nat \<Rightarrow> tty_state \<times> kb_state \<Rightarrow> (tty_state \<times> kb_state) res" where
  "tty_serve_res t sk = (case tty_serve t sk of None \<Rightarrow> Inl Hang | Some r \<Rightarrow> r)"

definition tty_poll :: "tty_state \<times> kb_state \<Rightarrow> (tty_state \<times> kb_state) res" where
  "tty_poll sk =
     res_bind (tty_serve_res 0 sk) (\<lambda>sk1.
     res_bind (tty_serve_res 1 sk1) (\<lambda>sk2. tty_serve_res 2 sk2))"

definition tty_of_device :: "MESSAGE \<Rightarrow> nat res" where
  "tty_of_device msg =
     (if 0 \<le> DEVICE msg \<and> DEVICE msg < NR_TTYS then Inr (nat (DEVICE msg))
      else Inl (BadAccess ''tty_table''))"

definition tty_dispatch :: "MESSAGE \<Rightarrow> tty_state \<times> kstate \<Rightarrow> (tty_state \<times> kstate) res" where
  "tty_dispatch msg sk =
     (case sk of (st, ks) \<Rightarrow>
      if mtype msg = DEV_OPEN then
        Inr (st\<lparr>t_sent := t_sent st @ [Reply (source msg) (reset_msg\<lparr>mtype := SYSCALL_RET\<rparr>)]\<rparr>, ks)
      else if mtype msg = DEV_READ then
        res_bind (tty_of_device msg) (\<lambda>t.
        res_bind (tty_do_read t msg st) (\<lambda>st1. Inr (st1, ks)))
      else if mtype msg = DEV_WRITE then
        res_bind (tty_of_device msg) (\<lambda>t.
        res_bind (tty_do_write t msg st) (\<lambda>st1. Inr (st1, ks)))
      else if mtype msg = HARD_INT then Inr (st, ks\<lparr>key_pressed := 0\<rparr>)
      else Inl (Panic ''tty unknown msg type''))"

section \<open>Kernel messages\<close>

text \<open>
  \<^verbatim>\<open>sys_printx\<close> on the bytes of the string up to its terminating zero. A string that starts with
  a magic character stops the machine after it has been spread over the screen.
\<close>

fun printx_loop :: "u8 list \<Rightarrow> nat \<Rightarrow> tty_state \<Rightarrow> tty_state res" where
  "printx_loop [] i st = Inr st"
| "printx_loop (ch # rest) i st =
     (if rest \<noteq> [] \<and> (hd rest = MAG_CH_PANIC \<or> hd rest = MAG_CH_ASSERT)
      then printx_loop rest i st
      else res_bind (con_out ch i st) (\<lambda>st1. printx_loop rest i st1))"

definition sys_printx :: "int \<Rightarrow> int \<Rightarrow> u8 list \<Rightarrow> tty_state \<Rightarrow> tty_state res" where
  "sys_printx reenter current p st =
     (if reenter < 0 then Inl (Panic ''k_reenter is incorrect for unknown reason'')
      else if p \<noteq> [] \<and> hd p = MAG_CH_PANIC then Inl (Panic ''printx'')
      else if p \<noteq> [] \<and> hd p = MAG_CH_ASSERT \<and> current < NR_TASKS then Inl (AssertFail ''printx'')
      else printx_loop p (p_con (tty_table st 0)) st)"

section \<open>The terminals' invariant\<close>

text \<open>
  Each terminal's ring buffer is consistent, it uses the console of its own number, and the
  consoles are well-formed and divide the video memory among themselves.
\<close>

definition tty_wf :: "TTY \<Rightarrow> bool" where
  "tty_wf p \<longleftrightarrow> ring_wf TTY_IN_BYTES (p_inbuf_head p) (p_inbuf_tail p) (inbuf_count p)"

definition tty_contents :: "TTY \<Rightarrow> u32 list" where
  "tty_contents p = ring_list TTY_IN_BYTES (in_buf p) (p_inbuf_tail p) (nat (inbuf_count p))"

definition con_wf :: "nat \<Rightarrow> CONSOLE \<Rightarrow> bool" where
  "con_wf t c \<longleftrightarrow> console_ok c \<and> unat (orig_start_addr c) = 5461 * t \<and> unat (v_mem_size c) = 5461"

definition tty_inv :: "tty_state \<Rightarrow> bool" where
  "tty_inv st \<longleftrightarrow> (\<forall>t<3. tty_wf (tty_table st t) \<and> p_con (tty_table st t) = t \<and> con_wf t (console_table st t))"

lemma tty_put_eq:
  "tty_put x p = (if inbuf_count p < 256 then p\<lparr>in_buf := (in_buf p)(p_inbuf_head p := x),
     p_inbuf_head := ring_next TTY_IN_BYTES (p_inbuf_head p), inbuf_count := inbuf_count p + 1\<rparr> else p)"
  by (simp add: tty_put_def ring_next_def Let_def)

lemma tty_pop_eq:
  "tty_pop p = (in_buf p (p_inbuf_tail p),
     p\<lparr>p_inbuf_tail := ring_next TTY_IN_BYTES (p_inbuf_tail p), inbuf_count := inbuf_count p - 1\<rparr>)"
  by (simp add: tty_pop_def ring_next_def Let_def)

lemma tty_contents_put:
  assumes "tty_wf p" "inbuf_count p < 256"
  shows "tty_contents (tty_put x p) = tty_contents p @ [x]"
proof -
  note w = ring_wf_put [OF assms(1) [unfolded tty_wf_def]]
  have n: "nat (inbuf_count p + 1) = Suc (nat (inbuf_count p))" "nat (inbuf_count p) < 256"
    using assms by (auto simp: tty_wf_def ring_wf_def)
  show ?thesis
    using assms w(3) ring_list_put [OF n(2), of "in_buf p" "p_inbuf_tail p" x] n(1)
    by (simp add: tty_contents_def tty_put_eq)
qed

lemma tty_empty_iff: "tty_contents p = [] \<longleftrightarrow> inbuf_count p \<le> 0"
  by (auto simp: tty_contents_def ring_list_def)

lemma tty_contents_pop:
  assumes "tty_wf p" "0 < inbuf_count p"
  shows "tty_contents p = fst (tty_pop p) # tty_contents (snd (tty_pop p))" "tty_wf (snd (tty_pop p))"
proof -
  have t: "p_inbuf_tail p < 256" "0 < nat (inbuf_count p)"
    using assms by (auto simp: tty_wf_def ring_wf_def)
  have "nat (inbuf_count p - 1) = nat (inbuf_count p) - 1"
    using assms(2) by simp
  then show "tty_contents p = fst (tty_pop p) # tty_contents (snd (tty_pop p))"
    using ring_list_pop [OF t, of "in_buf p"] by (simp add: tty_contents_def tty_pop_eq)
  show "tty_wf (snd (tty_pop p))"
    using ring_wf_pop [OF assms(1) [unfolded tty_wf_def] assms(2)] by (simp add: tty_wf_def tty_pop_eq)
qed

interpretation ttyq: drop_queue TTY_IN_BYTES tty_wf tty_contents tty_put tty_pop
proof
  fix p :: TTY and x :: u32
  assume w: "tty_wf p"
  show "length (tty_contents p) \<le> TTY_IN_BYTES"
    using w by (auto simp: tty_contents_def tty_wf_def ring_wf_def)
  show "tty_wf (tty_put x p)"
    using w ring_wf_put [OF w [unfolded tty_wf_def]] by (auto simp: tty_wf_def tty_put_eq)
  show "tty_contents (tty_put x p) =
      (if length (tty_contents p) < TTY_IN_BYTES then tty_contents p @ [x] else tty_contents p)"
    using w tty_contents_put [OF w]
    by (auto simp: tty_contents_def tty_put_eq tty_wf_def ring_wf_def)
  assume ne: "tty_contents p \<noteq> []"
  then have "0 < inbuf_count p"
    using tty_empty_iff [of p] by auto
  from tty_contents_pop [OF w this]
  show "tty_wf (snd (tty_pop p))" "fst (tty_pop p) = hd (tty_contents p)"
    "tty_contents (snd (tty_pop p)) = tl (tty_contents p)"
    by auto
qed

subsection \<open>Output\<close>

lemma con_out_ok:
  assumes "con_wf i (console_table st i)"
  obtains c s where "con_out ch i st = Inr (st\<lparr>console_table := (console_table st)(i := c), scr := s\<rparr>)"
    "con_wf i c" "out_char_post ch (console_table st i) (scr st) c s"
proof -
  obtain c s where "out_char ch (console_table st i, scr st) = Inr (c, s)"
      "out_char_post ch (console_table st i) (scr st) c s"
    using out_char_returns [of "console_table st i" ch "scr st"] assms by (auto simp: con_wf_def)
  then show ?thesis
    using assms by (intro that [of s c]) (auto simp: con_out_def con_wf_def out_char_post_def same_range_def)
qed

lemma tty_inv_con:
  "tty_inv st \<Longrightarrow> con_wf i c \<Longrightarrow> tty_inv (st\<lparr>console_table := (console_table st)(i := c), scr := s\<rparr>)"
  by (auto simp: tty_inv_def)

lemma cells_disjoint:
  assumes "con_wf i c" "con_wf j d" "i \<noteq> j"
  shows "cells c \<inter> cells d = {}"
proof -
  have "i < j \<or> j < i" using assms(3) by auto
  then have "5461 * i + 5461 \<le> 5461 * j \<or> 5461 * j + 5461 \<le> 5461 * i"
    by auto
  then show ?thesis
    using assms(1,2) by (auto simp: con_wf_def cells_def)
qed

text \<open>
  What printing on console \<open>i\<close> leaves alone: every other console and its cells, and everything
  that is not a console.
\<close>

definition only_console :: "nat \<Rightarrow> tty_state \<Rightarrow> tty_state \<Rightarrow> bool" where
  "only_console i st st' \<longleftrightarrow>
     (\<exists>c s. st' = st\<lparr>console_table := (console_table st)(i := c), scr := s\<rparr> \<and>
        same_range (console_table st i) c \<and>
        (\<forall>a. a \<notin> cells (console_table st i) \<longrightarrow> vmem s a = vmem (scr st) a))"

lemma only_console_refl: "only_console i st st"
  by (auto simp: only_console_def same_range_def intro!: exI [of _ "console_table st i"] exI [of _ "scr st"])

lemma same_range_cells: "same_range c c' \<Longrightarrow> cells c' = cells c"
  by (simp add: same_range_def cells_def)

lemma only_console_trans:
  assumes "only_console i st st1" "only_console i st1 st2"
  shows "only_console i st st2"
proof -
  obtain c s where 1: "st1 = st\<lparr>console_table := (console_table st)(i := c), scr := s\<rparr>"
      "same_range (console_table st i) c" "\<forall>a. a \<notin> cells (console_table st i) \<longrightarrow> vmem s a = vmem (scr st) a"
    using assms(1) by (auto simp: only_console_def)
  obtain d r where 2: "st2 = st1\<lparr>console_table := (console_table st1)(i := d), scr := r\<rparr>"
      "same_range (console_table st1 i) d" "\<forall>a. a \<notin> cells (console_table st1 i) \<longrightarrow> vmem r a = vmem (scr st1) a"
    using assms(2) by (auto simp: only_console_def)
  show ?thesis
    unfolding only_console_def using 1 2 same_range_cells [OF 1(2)]
    by (intro exI [of _ d] exI [of _ r]) (auto simp: same_range_def)
qed

lemma only_console_fields:
  assumes "only_console i st st'"
  shows "tty_table st' = tty_table st" "t_mem st' = t_mem st" "t_procs st' = t_procs st"
    "t_sent st' = t_sent st" "nr_cur_console st' = nr_cur_console st"
    "j \<noteq> i \<Longrightarrow> console_table st' j = console_table st j"
  using assms by (auto simp: only_console_def)

lemma con_out_inv:
  assumes "tty_inv st" "i < 3"
  obtains st' where "con_out ch i st = Inr st'" "tty_inv st'" "only_console i st st'"
proof -
  have "con_wf i (console_table st i)"
    using assms by (simp add: tty_inv_def)
  then show ?thesis
    by (rule con_out_ok [of i st ch])
      (use assms(1) that tty_inv_con in \<open>auto simp: only_console_def out_char_post_def\<close>)
qed

lemma out_chars_inv:
  assumes "tty_inv st" "i < 3"
  shows "\<exists>st'. out_chars chs i st = Inr st' \<and> tty_inv st' \<and> only_console i st st'"
  using assms(1)
proof (induction chs arbitrary: st)
  case Nil
  then show ?case by (simp add: only_console_refl)
next
  case (Cons ch chs)
  obtain st1 where 1: "con_out ch i st = Inr st1" "tty_inv st1" "only_console i st st1"
    using con_out_inv [OF Cons.prems assms(2)] .
  from Cons.IH [OF 1(2)] show ?case
    using 1 only_console_trans [OF 1(3)] by auto
qed

lemma out_chars_append:
  "out_chars (xs @ ys) i st = res_bind (out_chars xs i st) (\<lambda>st1. out_chars ys i st1)"
  by (induction xs arbitrary: st) (auto simp: res_bind_assoc cong: res_bind_cong)

lemma tty_inv_upd:
  assumes "tty_inv st" "t < 3" "tty_wf p" "p_con p = t"
  shows "tty_inv (st\<lparr>tty_table := (tty_table st)(t := p)\<rparr>)"
  using assms by (auto simp: tty_inv_def)

lemma tty_inv_frame [simp]:
  "tty_inv (st\<lparr>t_sent := x\<rparr>) = tty_inv st" "tty_inv (st\<lparr>t_mem := m\<rparr>) = tty_inv st"
  "tty_inv (st\<lparr>nr_cur_console := n, scr := s\<rparr>) = tty_inv st"
  by (simp_all add: tty_inv_def)

lemma tty_inv_upd_tty:
  assumes "tty_inv st" "t < 3" "tty_wf (f (tty_table st t)) = tty_wf (tty_table st t)"
    "p_con (f (tty_table st t)) = p_con (tty_table st t)"
  shows "tty_inv (upd_tty t f st)"
  unfolding upd_tty_def using assms by (intro tty_inv_upd) (auto simp: tty_inv_def)

subsection \<open>Set-up\<close>

text \<open>The three consoles: 5461 cells each, one after the other.\<close>

lemma console_parts:
  "drop_bit 1 V_MEM_SIZE div 3 = (5461 :: u32)"
proof -
  have "drop_bit 1 V_MEM_SIZE = (0x4000 :: u32)"
    by (simp add: drop_bit_eq_div)
  then show ?thesis by simp
qed

lemma unat_5461: "t < 3 \<Longrightarrow> unat (5461 * of_nat t :: u32) = 5461 * t"
proof -
  assume "t < 3"
  then consider "t = 0" | "t = 1" | "t = 2" by linarith
  then show ?thesis by cases simp_all
qed

lemma new_console_ok:
  assumes "t < 3" "5461 * t \<le> unat p" "unat p < 5461 * t + 5461"
  shows "con_wf t \<lparr>orig_start_addr = 5461 * of_nat t, cur_start_addr = 5461 * of_nat t, v_mem_size = 5461,
      v_mem_base = V_MEM_BASE, cur_cursor_pos = p\<rparr>"
  using assms unat_5461 [OF assms(1)] by (auto simp: con_wf_def console_ok_def geom_def)

definition one_tty_ok :: "nat \<Rightarrow> tty_state \<Rightarrow> bool" where
  "one_tty_ok t st \<longleftrightarrow> tty_wf (tty_table st t) \<and> p_con (tty_table st t) = t \<and> con_wf t (console_table st t)"

lemma tty_inv_one: "tty_inv st \<longleftrightarrow> one_tty_ok 0 st \<and> one_tty_ok 1 st \<and> one_tty_ok 2 st"
  unfolding tty_inv_def one_tty_ok_def by (auto simp: less_Suc_eq numeral_eq_Suc)

lemma init_one_tty_ok:
  assumes "t < 3" "t = 0 \<Longrightarrow> 0 \<le> disp_pos st \<and> disp_pos st div 2 < 5461"
  shows "\<exists>st'. init_one_tty t st = Inr st' \<and> one_tty_ok t st' \<and>
    (\<forall>u. u \<noteq> t \<longrightarrow> tty_table st' u = tty_table st u \<and> console_table st' u = console_table st u)"
proof (cases "t = 0")
  case True
  have "unat (word_of_int (disp_pos st div 2) :: u32) = nat (disp_pos st div 2)"
    using assms(2) [OF True] by (simp add: unat_eq_nat_uint uint_of_int_small)
  then have "unat (word_of_int (disp_pos st div 2) :: u32) < 5461"
    using assms(2) [OF True] by (simp add: nat_less_iff)
  then show ?thesis
    using True new_console_ok [of 0 "word_of_int (disp_pos st div 2)"]
    by (simp add: init_one_tty_def init_screen_def Let_def console_parts one_tty_ok_def tty_wf_def ring_wf_def)
next
  case False
  let ?c = "\<lparr>orig_start_addr = 5461 * of_nat t, cur_start_addr = 5461 * of_nat t, v_mem_size = 5461,
      v_mem_base = V_MEM_BASE, cur_cursor_pos = 5461 * of_nat t\<rparr>"
  let ?p = "(tty_table st t)\<lparr>p_inbuf_head := 0, p_inbuf_tail := 0, inbuf_count := 0, p_con := t\<rparr>"
  let ?st = "st\<lparr>tty_table := (tty_table st)(t := ?p), console_table := (console_table st)(t := ?c)\<rparr>"
  have c: "con_wf t (console_table ?st t)"
    using new_console_ok [OF assms(1), of "5461 * of_nat t"] unat_5461 [OF assms(1)] by simp
  obtain c1 s1 where 1: "con_out (of_nat t + 0x30) t ?st =
      Inr (?st\<lparr>console_table := (console_table ?st)(t := c1), scr := s1\<rparr>)" "con_wf t c1"
    using con_out_ok [OF c] by metis
  let ?st1 = "?st\<lparr>console_table := (console_table ?st)(t := c1), scr := s1\<rparr>"
  have c1: "con_wf t (console_table ?st1 t)"
    using 1(2) by simp
  obtain c2 s2 where 2: "con_out 0x23 t ?st1 =
      Inr (?st1\<lparr>console_table := (console_table ?st1)(t := c2), scr := s2\<rparr>)" "con_wf t c2"
    using con_out_ok [OF c1] by metis
  have "init_one_tty t st = res_bind (con_out (of_nat t + 0x30) t ?st) (\<lambda>st2. con_out 0x23 t st2)"
    using False by (simp add: init_one_tty_def init_screen_def Let_def console_parts mult.commute)
  also have "\<dots> = Inr (?st1\<lparr>console_table := (console_table ?st1)(t := c2), scr := s2\<rparr>)"
    unfolding 1(1) res_bind_Inr by (rule 2(1))
  finally show ?thesis
    using 2(2) by (auto simp: one_tty_ok_def tty_wf_def ring_wf_def)
qed

lemma one_tty_ok_frame:
  "one_tty_ok u st \<Longrightarrow> tty_table st' u = tty_table st u \<Longrightarrow> console_table st' u = console_table st u \<Longrightarrow>
   one_tty_ok u st'"
  by (simp add: one_tty_ok_def)

lemma init_tty_inv:
  assumes "0 \<le> disp_pos st" "disp_pos st < 2 * 5461"
  shows "\<exists>st'. init_tty st = Inr st' \<and> tty_inv st'"
proof -
  have "disp_pos st div 2 < 5461"
    using assms(2) by linarith
  then obtain s0 where 0: "init_one_tty 0 st = Inr s0" "one_tty_ok 0 s0"
    using init_one_tty_ok [of 0 st] assms by auto
  obtain s1 where 1: "init_one_tty 1 s0 = Inr s1" "one_tty_ok 1 s1"
      "\<forall>u. u \<noteq> 1 \<longrightarrow> tty_table s1 u = tty_table s0 u \<and> console_table s1 u = console_table s0 u"
    using init_one_tty_ok [of 1 s0] by auto
  obtain s2 where 2: "init_one_tty 2 s1 = Inr s2" "one_tty_ok 2 s2"
      "\<forall>u. u \<noteq> 2 \<longrightarrow> tty_table s2 u = tty_table s1 u \<and> console_table s2 u = console_table s1 u"
    using init_one_tty_ok [of 2 s1] by auto
  have "one_tty_ok 0 s2" "one_tty_ok 1 s2"
    using 0(2) 1(2,3) 2(3) by (auto elim!: one_tty_ok_frame)
  with 0 1 2 show ?thesis
    by (auto simp: init_tty_def tty_inv_one)
qed

subsection \<open>A pending read, seen by its reader\<close>

text \<open>
  What a reader can observe of its request: memory, the number of bytes still wanted, the number
  delivered, and the messages sent. \<open>rd_step\<close> is the effect of one typed character.
\<close>

type_synonym rd_view = "(u32 \<Rightarrow> u8) \<times> int \<times> int \<times> tty_msg list"

definition rd_feed :: "u32 \<Rightarrow> u8 \<Rightarrow> rd_view \<Rightarrow> rd_view" where
  "rd_feed base ch v = (case v of (m, left, tr, out) \<Rightarrow>
     if printable ch then (m(base + of_int tr := ch), left - 1, tr + 1, out)
     else if ch = 8 then (m, left + 1, tr - 1, out)
     else (m, left, tr, out))"

definition rd_finish :: "int \<Rightarrow> int \<Rightarrow> u8 \<Rightarrow> rd_view \<Rightarrow> rd_view" where
  "rd_finish caller nr ch v = (case v of (m, left, tr, out) \<Rightarrow>
     if left = 0 \<or> ch = 10 then (m, 0, tr, out @ [Resume caller nr tr]) else v)"

definition rd_step :: "u32 \<Rightarrow> int \<Rightarrow> int \<Rightarrow> u8 \<Rightarrow> rd_view \<Rightarrow> rd_view" where
  "rd_step base caller nr ch v =
     (if fst (snd v) > 0 then rd_finish caller nr ch (rd_feed base ch v) else v)"

definition rd_of :: "nat \<Rightarrow> tty_state \<Rightarrow> rd_view" where
  "rd_of t st = (let p = tty_table st t in (t_mem st, tty_bytes_left p, tty_trans_bytes p, t_sent st))"

text \<open>What serving terminal \<open>t\<close> keeps: its request and the other terminals.\<close>

definition same_request :: "nat \<Rightarrow> tty_state \<Rightarrow> tty_state \<Rightarrow> bool" where
  "same_request t st st' \<longleftrightarrow>
     tty_read_buf (tty_table st' t) = tty_read_buf (tty_table st t) \<and>
     tty_caller (tty_table st' t) = tty_caller (tty_table st t) \<and>
     tty_pro_nr (tty_table st' t) = tty_pro_nr (tty_table st t) \<and>
     (\<forall>u. u \<noteq> t \<longrightarrow> tty_table st' u = tty_table st u \<and> console_table st' u = console_table st u) \<and>
     t_procs st' = t_procs st \<and> nr_cur_console st' = nr_cur_console st"

lemma same_request_refl [simp]: "same_request t st st"
  by (simp add: same_request_def)

lemma same_request_trans: "same_request t st st1 \<Longrightarrow> same_request t st1 st2 \<Longrightarrow> same_request t st st2"
  by (auto simp: same_request_def)

lemma only_console_same_request: "only_console t st st' \<Longrightarrow> same_request t st st'"
  using only_console_fields by (auto simp: same_request_def)

lemma tty_feed_ok:
  assumes inv: "tty_inv st" and t: "t < 3"
  obtains st' where "tty_feed t ch st = Inr st'" "tty_inv st'" "same_request t st st'"
    "rd_of t st' = rd_feed (tty_read_buf (tty_table st t)) ch (rd_of t st)"
    "tty_contents (tty_table st' t) = tty_contents (tty_table st t)"
    "inbuf_count (tty_table st' t) = inbuf_count (tty_table st t)"
proof -
  have pc: "p_con (tty_table st t) = t" and w: "tty_wf (tty_table st t)"
    using inv t by (auto simp: tty_inv_def)
  obtain st1 where 1: "con_out ch t st = Inr st1" "tty_inv st1" "only_console t st st1"
    using con_out_inv [OF inv t] .
  note f = only_console_fields(1-5) [OF 1(3)]
  show ?thesis
  proof (cases "printable ch \<or> ch = 8")
    case True
    obtain st' where st': "tty_feed t ch st = Inr st'"
      using True 1(1) pc by (cases "printable ch") (auto simp: tty_feed_def Let_def)
    have w': "tty_wf (p\<lparr>tty_bytes_left := x, tty_trans_bytes := y\<rparr>) = tty_wf p" for p x y
      by (simp add: tty_wf_def)
    have "tty_inv st'"
      using st' True 1 pc t by (auto simp: tty_feed_def Let_def w' split: if_splits intro!: tty_inv_upd_tty)
    moreover have "same_request t st st'"
      using st' True 1(1) pc only_console_same_request [OF 1(3)]
      by (auto simp: tty_feed_def Let_def upd_tty_def same_request_def split: if_splits)
    moreover have "rd_of t st' = rd_feed (tty_read_buf (tty_table st t)) ch (rd_of t st)"
      using st' True 1(1) pc f
      by (auto simp: tty_feed_def Let_def upd_tty_def rd_of_def rd_feed_def split: if_splits)
    moreover have "tty_contents (tty_table st' t) = tty_contents (tty_table st t)"
      "inbuf_count (tty_table st' t) = inbuf_count (tty_table st t)"
      using st' True 1(1) pc f
      by (auto simp: tty_feed_def Let_def upd_tty_def tty_contents_def split: if_splits)
    ultimately show ?thesis
      using that st' by blast
  next
    case False
    then show ?thesis
      using inv by (intro that [of st]) (auto simp: tty_feed_def Let_def rd_feed_def rd_of_def)
  qed
qed

lemma tty_finish_ok:
  assumes inv: "tty_inv st" and t: "t < 3"
  obtains st' where "tty_finish t ch st = Inr st'" "tty_inv st'" "same_request t st st'"
    "rd_of t st' = rd_finish (tty_caller (tty_table st t)) (tty_pro_nr (tty_table st t)) ch (rd_of t st)"
    "tty_contents (tty_table st' t) = tty_contents (tty_table st t)"
    "inbuf_count (tty_table st' t) = inbuf_count (tty_table st t)"
proof -
  have pc: "p_con (tty_table st t) = t"
    using inv t by (auto simp: tty_inv_def)
  obtain st1 where 1: "con_out 10 t st = Inr st1" "tty_inv st1" "only_console t st st1"
    using con_out_inv [OF inv t] .
  note f = only_console_fields(1-5) [OF 1(3)]
  let ?p = "tty_table st t"
  show ?thesis
  proof (cases "tty_bytes_left ?p = 0 \<or> ch = 10")
    case True
    let ?st' = "upd_tty t (\<lambda>p. p\<lparr>tty_bytes_left := 0\<rparr>)
             (st1\<lparr>t_sent := t_sent st1 @ [Resume (tty_caller ?p) (tty_pro_nr ?p) (tty_trans_bytes ?p)]\<rparr>)"
    have w': "tty_wf (p\<lparr>tty_bytes_left := 0\<rparr>) = tty_wf p" for p
      by (simp add: tty_wf_def)
    have "tty_inv ?st'"
      using 1 t by (intro tty_inv_upd_tty) (simp_all add: w')
    moreover have "same_request t st ?st'"
      using only_console_same_request [OF 1(3)] by (auto simp: upd_tty_def same_request_def)
    ultimately show ?thesis
      using True 1(1) pc f by (intro that [of ?st'])
        (auto simp: tty_finish_def Let_def rd_of_def rd_finish_def upd_tty_def tty_contents_def)
  next
    case False
    then show ?thesis
      using inv by (intro that [of st]) (auto simp: tty_finish_def Let_def rd_finish_def rd_of_def)
  qed
qed

lemma tty_consume_ok:
  assumes inv: "tty_inv st" and t: "t < 3" and c: "tty_contents (tty_table st t) = k # ks"
  obtains st' where "tty_consume t st = Inr st'" "tty_inv st'" "same_request t st st'"
    "rd_of t st' = rd_step (tty_read_buf (tty_table st t)) (tty_caller (tty_table st t))
       (tty_pro_nr (tty_table st t)) (ucast k) (rd_of t st)"
    "tty_contents (tty_table st' t) = ks"
proof -
  let ?p = "tty_table st t"
  have w: "tty_wf ?p" "p_con ?p = t"
    using inv t by (auto simp: tty_inv_def)
  have pos: "0 < inbuf_count ?p"
    using c tty_empty_iff [of ?p] by auto
  obtain p where p: "tty_pop ?p = (k, p)" "tty_wf p" "tty_contents p = ks"
    using tty_contents_pop [OF w(1) pos] c by (cases "tty_pop ?p") auto
  have f: "tty_bytes_left p = tty_bytes_left ?p" "tty_read_buf p = tty_read_buf ?p" "p_con p = t"
      "tty_trans_bytes p = tty_trans_bytes ?p" "tty_caller p = tty_caller ?p" "tty_pro_nr p = tty_pro_nr ?p"
    using p(1) w(2) by (auto simp: tty_pop_eq)
  let ?st = "st\<lparr>tty_table := (tty_table st)(t := p)\<rparr>"
  have i: "tty_inv ?st"
    using tty_inv_upd [OF inv t p(2) f(3)] .
  have s: "same_request t st ?st" "rd_of t ?st = rd_of t st"
    using f by (auto simp: same_request_def rd_of_def Let_def)
  show ?thesis
  proof (cases "tty_bytes_left p > 0")
    case True
    obtain st2 where 2: "tty_feed t (ucast k) ?st = Inr st2" "tty_inv st2" "same_request t ?st st2"
      "rd_of t st2 = rd_feed (tty_read_buf (tty_table ?st t)) (ucast k) (rd_of t ?st)"
      "tty_contents (tty_table st2 t) = tty_contents (tty_table ?st t)"
      using tty_feed_ok [OF i t] by metis
    obtain st3 where 3: "tty_finish t (ucast k) st2 = Inr st3" "tty_inv st3" "same_request t st2 st3"
      "rd_of t st3 = rd_finish (tty_caller (tty_table st2 t)) (tty_pro_nr (tty_table st2 t)) (ucast k) (rd_of t st2)"
      "tty_contents (tty_table st3 t) = tty_contents (tty_table st2 t)"
      using tty_finish_ok [OF 2(2) t] by metis
    have "tty_consume t st = Inr st3"
      using True p(1) 2(1) 3(1) by (simp add: tty_consume_def Let_def)
    moreover have "same_request t st st3"
      using s(1) 2(3) 3(3) same_request_trans by blast
    moreover have "rd_of t st3 = rd_step (tty_read_buf ?p) (tty_caller ?p) (tty_pro_nr ?p) (ucast k) (rd_of t st)"
      using 2(3,4) 3(4) s(2) f True
      by (simp add: rd_step_def same_request_def rd_of_def Let_def)
    ultimately show ?thesis
      using that 3(2,5) 2(5) p(3) by simp
  next
    case False
    then show ?thesis
      using p i s f by (intro that [of ?st])
        (auto simp: tty_consume_def Let_def rd_step_def rd_of_def)
  qed
qed

text \<open>
  \<^verbatim>\<open>tty_dev_write\<close> ends, with the buffer empty and every buffered character handed to the reader
  in the order typed.
\<close>

lemma tty_dev_write_ok:
  assumes "tty_inv st" "t < 3"
  shows "\<exists>st'. tty_dev_write t st = Some (Inr st') \<and> tty_inv st' \<and> same_request t st st' \<and>
    tty_contents (tty_table st' t) = [] \<and>
    rd_of t st' = fold (rd_step (tty_read_buf (tty_table st t)) (tty_caller (tty_table st t))
       (tty_pro_nr (tty_table st t))) (map ucast (tty_contents (tty_table st t))) (rd_of t st)"
  using assms(1)
proof (induction "tty_contents (tty_table st t)" arbitrary: st)
  case Nil
  then have "\<not> inbuf_count (tty_table st t) > 0"
    using tty_empty_iff [of "tty_table st t"] by auto
  then have "tty_dev_write t st = Some (Inr st)"
    by (subst tty_dev_write.simps) simp
  then show ?case
    using Nil by (metis fold_simps(1) list.simps(8) same_request_refl)
next
  case (Cons k ks)
  obtain st1 where 1: "tty_consume t st = Inr st1" "tty_inv st1" "same_request t st st1"
    "rd_of t st1 = rd_step (tty_read_buf (tty_table st t)) (tty_caller (tty_table st t))
       (tty_pro_nr (tty_table st t)) (ucast k) (rd_of t st)"
    "tty_contents (tty_table st1 t) = ks"
    using tty_consume_ok [OF Cons.prems assms(2) Cons.hyps(2) [symmetric]] .
  have "inbuf_count (tty_table st t) > 0"
    using Cons.hyps(2) tty_empty_iff [of "tty_table st t"] by auto
  then have "tty_dev_write t st = tty_dev_write t st1"
    using 1(1) by (subst tty_dev_write.simps) simp
  moreover obtain st' where "tty_dev_write t st1 = Some (Inr st')" "tty_inv st'" "same_request t st1 st'"
    "tty_contents (tty_table st' t) = []"
    "rd_of t st' = fold (rd_step (tty_read_buf (tty_table st1 t)) (tty_caller (tty_table st1 t))
       (tty_pro_nr (tty_table st1 t))) (map ucast ks) (rd_of t st1)"
    using Cons.hyps(1) [OF 1(5) [symmetric] 1(2)] 1(5) by auto
  moreover have "tty_read_buf (tty_table st1 t) = tty_read_buf (tty_table st t)"
    "tty_caller (tty_table st1 t) = tty_caller (tty_table st t)"
    "tty_pro_nr (tty_table st1 t) = tty_pro_nr (tty_table st t)"
    using 1(3) by (auto simp: same_request_def)
  moreover note same_request_trans [OF 1(3)]
  ultimately show ?case
    using 1(4) Cons.hyps(2) [symmetric] by (intro exI [of _ st']) simp
qed

text \<open>A line of printable characters, seen by a reader that asked for more than the line holds.\<close>

lemma rd_step_printable:
  "printable ch \<Longrightarrow> 1 < left \<Longrightarrow>
   rd_step base caller nr ch (m, left, tr, out) = (m(base + of_int tr := ch), left - 1, tr + 1, out)"
  by (auto simp: rd_step_def rd_feed_def rd_finish_def printable_def)

lemma rd_steps_printable:
  "list_all printable chs \<Longrightarrow> int (length chs) < left \<Longrightarrow>
   fold (rd_step base caller nr) chs (m, left, tr, out) =
     (write_bytes (base + of_int tr) chs m, left - int (length chs), tr + int (length chs), out)"
proof (induction chs arbitrary: m left tr)
  case (Cons ch chs)
  then show ?case
    using rd_step_printable [of ch left base caller nr m tr out]
      Cons.IH [of "left - 1" "m(base + of_int tr := ch)" "tr + 1"]
    by (simp add: add.assoc)
qed simp

lemma rd_step_newline:
  "0 < left \<Longrightarrow> rd_step base caller nr 10 (m, left, tr, out) = (m, 0, tr, out @ [Resume caller nr tr])"
  by (simp add: rd_step_def rd_feed_def rd_finish_def printable_def)

lemma rd_line:
  "list_all printable chs \<Longrightarrow> int (length chs) < left \<Longrightarrow>
   fold (rd_step base caller nr) (chs @ [10]) (m, left, 0, out) =
     (write_bytes base chs m, 0, int (length chs), out @ [Resume caller nr (int (length chs))])"
  by (simp add: rd_steps_printable rd_step_newline)

subsection \<open>Write requests\<close>

text \<open>The processes whose addresses \<^verbatim>\<open>va2la\<close> translates without failing its assertion.\<close>

definition va2la_defined :: "proc_tab \<Rightarrow> int \<Rightarrow> bool" where
  "va2la_defined pt pid \<longleftrightarrow>
     pid \<ge> NR_TASKS + NR_NATIVE_PROCS \<or> ldt_seg_linear (pt pid) INDEX_LDT_RW = 0"

lemma va2la_linear:
  "va2la_defined pt pid \<Longrightarrow> va2la pt pid va = Inr (va + ldt_seg_linear (pt pid) INDEX_LDT_RW)"
  by (auto simp: va2la_defined_def va2la_def Let_def)

lemma tty_write_loop_eq:
  assumes "tty_inv st" "t < 3" "va2la_defined (t_procs st) nr"
  shows "tty_write_loop t nr buf n st =
    out_chars (mem_bytes (t_mem st) (buf + ldt_seg_linear (t_procs st nr) INDEX_LDT_RW) n) t st"
  using assms(1,3)
proof (induction n arbitrary: buf st rule: less_induct)
  case (less n)
  have pc: "p_con (tty_table st t) = t"
    using less.prems(1) assms(2) by (auto simp: tty_inv_def)
  let ?b = "ldt_seg_linear (t_procs st nr) INDEX_LDT_RW"
  let ?k = "min 2 n"
  show ?case
  proof (cases "n = 0")
    case True
    then show ?thesis by (simp add: mem_bytes_def)
  next
    case False
    obtain st1 where 1: "out_chars (mem_bytes (t_mem st) (buf + ?b) ?k) t st = Inr st1" "tty_inv st1"
        "only_console t st st1"
      using out_chars_inv [OF less.prems(1) assms(2)] by metis
    note f = only_console_fields [OF 1(3)]
    have "tty_write_loop t nr buf n st = tty_write_loop t nr (buf + of_nat ?k) (n - ?k) st1"
      using False 1(1) pc va2la_linear [OF less.prems(2), of buf]
      by (subst tty_write_loop.simps) (simp del: tty_write_loop.simps add: Let_def)
    also have "\<dots> = out_chars (mem_bytes (t_mem st1) (buf + of_nat ?k + ?b) (n - ?k)) t st1"
      using less.IH [of "n - ?k" st1 "buf + of_nat ?k"] False 1(2) less.prems(2) f by auto
    also have "\<dots> = res_bind (out_chars (mem_bytes (t_mem st) (buf + ?b) ?k) t st)
        (\<lambda>st1. out_chars (mem_bytes (t_mem st) (buf + ?b + of_nat ?k) (n - ?k)) t st1)"
      using 1(1) f by (simp add: ac_simps)
    also have "\<dots> = out_chars (mem_bytes (t_mem st) (buf + ?b) n) t st"
      unfolding out_chars_append [symmetric]
      using mem_bytes_split [of ?k n "t_mem st" "buf + ?b"] by simp
    finally show ?thesis .
  qed
qed

lemma tty_do_write_ok:
  assumes "tty_inv st" "t < 3" "va2la_defined (t_procs st) (PROC_NR msg)"
  shows "\<exists>st1. out_chars (mem_bytes (t_mem st)
      (BUF msg + ldt_seg_linear (t_procs st (PROC_NR msg)) INDEX_LDT_RW) (nat (CNT msg))) t st = Inr st1 \<and>
    tty_inv st1 \<and> only_console t st st1 \<and>
    tty_do_write t msg st = Inr (st1\<lparr>t_sent := t_sent st @ [Reply (source msg) (msg\<lparr>m3i2 := int (nat (CNT msg))\<rparr>)]\<rparr>)"
proof -
  obtain st1 where 1: "out_chars (mem_bytes (t_mem st)
      (BUF msg + ldt_seg_linear (t_procs st (PROC_NR msg)) INDEX_LDT_RW) (nat (CNT msg))) t st = Inr st1"
      "tty_inv st1" "only_console t st st1"
    using out_chars_inv [OF assms(1,2)] by metis
  then show ?thesis
    using tty_write_loop_eq [OF assms] only_console_fields(4) [OF 1(3)]
    by (simp add: tty_do_write_def del: tty_write_loop.simps)
qed

subsection \<open>Keys\<close>

lemma scroll_addr_ok:
  assumes ok: "console_ok c"
  shows "console_ok (scroll_addr d c)" "same_range c (scroll_addr d c)"
proof -
  note g = console_geom [OF ok]
  consider (down) "d = SCR_DOWN" "cur_start_addr c + SCREEN_SIZE < orig_start_addr c + v_mem_size c"
    | (up) "d \<noteq> SCR_DOWN" "cur_start_addr c > orig_start_addr c"
    | (stay) "scroll_addr d c = c"
    unfolding scroll_addr_def by presburger
  then show "console_ok (scroll_addr d c)"
  proof cases
    case down
    have "unat (cur_start_addr c) + 2000 < unat (orig_start_addr c) + unat (v_mem_size c)"
      using down(2) unfolding word_less_nat_alt unat_range(1,2) [OF ok] .
    then have "geom (unat (orig_start_addr c)) (unat (v_mem_size c)) (unat (cur_start_addr c) + 80)
        (unat (cur_start_addr c) + 2000)"
      using g by (intro geom_scroll_down) (auto simp: geom_def)
    then have "geom (unat (orig_start_addr c)) (unat (v_mem_size c)) (unat (cur_start_addr c) + 80)
        (unat (cur_cursor_pos c))"
      by (rule geom_cursor) (use geom_bounds(5,6) [OF g] in auto)
    then show ?thesis
      using down ok by (simp add: scroll_addr_def console_ok_def unat_range(3) [OF ok])
  next
    case up
    have "unat (orig_start_addr c) < unat (cur_start_addr c)"
      using up(2) by (simp add: word_less_nat_alt)
    from geom_scroll_up [OF g this] show ?thesis
      using up ok by (simp add: scroll_addr_def console_ok_def unat_sub_small)
  qed (use ok in simp)
  show "same_range c (scroll_addr d c)"
    by (simp add: scroll_addr_def same_range_def)
qed

lemma con_wf_scroll: "con_wf t c \<Longrightarrow> con_wf t (scroll_addr d c)"
  using scroll_addr_ok [of c d] by (simp add: con_wf_def same_range_def)

lemma con_scroll_inv: "tty_inv st \<Longrightarrow> i < 3 \<Longrightarrow> tty_inv (con_scroll d i st)"
  using con_wf_scroll [of i "console_table st i" d]
  by (auto simp: con_scroll_def scroll_screen_def Let_def tty_inv_def)

lemma p_con_put [simp]: "p_con (tty_put key p) = p_con p"
  by (simp add: tty_put_eq)

lemma put_key_inv: "tty_inv st \<Longrightarrow> t < 3 \<Longrightarrow> tty_inv (put_key t key st)"
  unfolding put_key_def
  by (intro tty_inv_upd) (auto simp: tty_inv_def ttyq.wf_put)

lemma set_cur_con_inv: "tty_inv st \<Longrightarrow> tty_inv (set_cur_con n st)"
  by (simp add: set_cur_con_def Let_def)

lemma in_process_inv: "tty_inv st \<Longrightarrow> t < 3 \<Longrightarrow> tty_inv (in_process key t st)"
proof -
  assume i: "tty_inv st" and t: "t < 3"
  then have "p_con (tty_table st t) = t"
    by (simp add: tty_inv_def)
  then show ?thesis
    unfolding in_process_def Let_def
    using put_key_inv [OF i t] set_cur_con_inv [OF i] con_scroll_inv [OF i t] i
    by (simp split: if_split)
qed

lemma tty_dev_read_ok:
  assumes "tty_inv st" "t < 3" "keyboard_read kb = Inr (k, kb')"
  shows "\<exists>st' kb2. tty_dev_read t (st, kb) = Inr (st', kb2) \<and> tty_inv st'"
  using assms in_process_inv [OF assms(1,2)]
  by (auto simp: tty_dev_read_def split: option.splits)

lemma tty_serve_ok:
  assumes "tty_inv st" "t < 3" "keyboard_read kb = Inr r"
  shows "\<exists>st' kb'. tty_serve t (st, kb) = Some (Inr (st', kb')) \<and> tty_inv st' \<and>
    tty_contents (tty_table st' t) = []"
proof -
  obtain st1 kb1 where 1: "tty_dev_read t (st, kb) = Inr (st1, kb1)" "tty_inv st1"
    using tty_dev_read_ok [OF assms(1,2)] assms(3) by (cases r) blast
  obtain st2 where 2: "tty_dev_write t st1 = Some (Inr st2)" "tty_inv st2"
      "tty_contents (tty_table st2 t) = []"
    using tty_dev_write_ok [OF 1(2) assms(2)] by blast
  have "\<not> inbuf_count (tty_table st2 t) > 0"
    using 2(3) tty_empty_iff [of "tty_table st2 t"] by simp
  then have "tty_serve t (st, kb) = Some (Inr (st2, kb1))"
    using 1(1) 2(1) by (subst tty_serve.simps) simp
  then show ?thesis
    using 2 by blast
qed

lemma tty_dispatch_inv:
  assumes "tty_inv st" "tty_dispatch msg (st, ks) = Inr (st', ks')"
    "mtype msg = DEV_WRITE \<Longrightarrow> va2la_defined (t_procs st) (PROC_NR msg)"
  shows "tty_inv st'"
proof -
  have t: "nat (DEVICE msg) < 3" if "tty_of_device msg = Inr t" for t
    using that by (auto simp: tty_of_device_def split: if_splits)
  have rd: "tty_inv st1" if "tty_do_read t msg st = Inr st1" "t < 3" for st1 t
    using that assms(1)
    by (auto simp: tty_do_read_def Let_def res_simps tty_wf_def intro!: tty_inv_upd_tty)
  have wr: "tty_inv st1" if "tty_do_write t msg st = Inr st1" "t < 3" "mtype msg = DEV_WRITE" for st1 t
    using tty_do_write_ok [OF assms(1) that(2) assms(3) [OF that(3)]] that(1) by auto
  show ?thesis
    using assms(1,2) t rd wr
    by (auto simp: tty_dispatch_def tty_of_device_def res_simps split: if_splits)
qed

text \<open>
  A key that reaches the buffer of its terminal: a plain key is stored with its flags, which the
  echo strips again.
\<close>

lemma in_process_plain:
  "key AND FLAG_EXT = 0 \<Longrightarrow> tty_inv st \<Longrightarrow> t < 3 \<Longrightarrow> length (tty_contents (tty_table st t)) < 256 \<Longrightarrow>
   tty_contents (tty_table (in_process key t st) t) = tty_contents (tty_table st t) @ [key]"
  using ttyq.contents_put [of "tty_table st t" key] by (auto simp: in_process_def put_key_def tty_inv_def)

end
