(* ===== verification/Lib.thy ===== *)
theory Lib
  imports Prelude "HOL-Library.Signed_Division"
begin

text \<open>
  The C library the tasks and the kernel share: number formatting and \<^verbatim>\<open>vsprintf\<close>
  (\<^verbatim>\<open>lib/vsprintf.c\<close>), \<^verbatim>\<open>itoa\<close> (\<^verbatim>\<open>lib/klib.c\<close>), string and memory comparison (\<^verbatim>\<open>lib/misc.c\<close>).

  A C string is the list of its characters without the terminating zero; a buffer that a function
  writes is the list of the bytes stored from its start on. The text \<^verbatim>\<open>vsprintf\<close> makes is given by its
  return value: the bytes stored can reach one byte further, because \<^verbatim>\<open>strcpy\<close> for \<^verbatim>\<open>%s\<close> stores a zero that is
  not counted and that later output overwrites. C divides towards zero, which is \<^verbatim>\<open>sdiv\<close> and
  \<^verbatim>\<open>smod\<close>; \<^verbatim>\<open>char\<close> is signed.
\<close>

section \<open>Characters\<close>

definition chr :: "int \<Rightarrow> char" where
  "chr n = char_of n"

definition schar :: "char \<Rightarrow> int" where
  "schar c = (let n = of_char c :: int in if n < 128 then n else n - 256)"

lemma of_char_less: "(of_char c :: int) < 256" "0 \<le> (of_char c :: int)"
proof -
  have "of_char c = (of_nat (of_char c) :: int)"
    by (simp add: of_nat_of_char)
  moreover have "(of_char c :: nat) < 256"
    using range_nat_of_char by auto
  ultimately show "(of_char c :: int) < 256" "0 \<le> (of_char c :: int)"
    by linarith+
qed

lemma of_char_chr: "0 \<le> n \<Longrightarrow> n < 256 \<Longrightarrow> of_char (chr n) = n"
  by (simp add: chr_def)

lemma byte_chr: "0 \<le> n \<Longrightarrow> n < 256 \<Longrightarrow> (of_char (chr n) :: u8) = of_int n"
  using of_char_chr [of n] by (metis of_int_of_char)

lemma schar_inj: "schar a = schar b \<longleftrightarrow> a = b"
proof -
  have "schar a = schar b \<longleftrightarrow> (of_char a :: int) = of_char b"
    using of_char_less [of a] of_char_less [of b] by (auto simp: schar_def Let_def)
  also have "\<dots> \<longleftrightarrow> a = b"
    by (rule of_char_eq_iff)
  finally show ?thesis .
qed

section \<open>Comparison\<close>

fun strcmp :: "string \<Rightarrow> string \<Rightarrow> int" where
  "strcmp [] [] = 0"
| "strcmp [] (b # t) = 0 - schar b"
| "strcmp (a # s) [] = schar a - 0"
| "strcmp (a # s) (b # t) = (if a \<noteq> b then schar a - schar b else strcmp s t)"

fun memcmp :: "string \<Rightarrow> string \<Rightarrow> nat \<Rightarrow> int" where
  "memcmp p1 p2 0 = 0"
| "memcmp p1 p2 (Suc n) =
     (if hd p1 \<noteq> hd p2 then schar (hd p1) - schar (hd p2) else memcmp (tl p1) (tl p2) n)"

fun strlen :: "string \<Rightarrow> int" where
  "strlen [] = 0"
| "strlen (c # s) = strlen s + 1"

lemma strlen_eq [simp]: "strlen s = int (length s)"
  by (induction s) auto

section \<open>Numbers\<close>

definition digit :: "int \<Rightarrow> char" where
  "digit m = (if m < 10 then chr (m + 0x30) else chr (m - 10 + 0x41))"

partial_function (option) i2a :: "int \<Rightarrow> int \<Rightarrow> string option" where
  "i2a val base =
     (let m = val smod base; q = val sdiv base
      in if q \<noteq> 0 then Option.bind (i2a q base) (\<lambda>s. Some (s @ [digit m])) else Some [digit m])"

text \<open>\<^verbatim>\<open>itoa\<close>: the variable \<^verbatim>\<open>flag\<close> stays 0, so a nibble is printed only if it is not zero.\<close>

definition itoa_digit :: "int \<Rightarrow> nat \<Rightarrow> string" where
  "itoa_digit num i =
     (let tmp = drop_bit i num AND 0xf
      in if tmp \<noteq> 0 then [if tmp > 9 then chr (tmp + 0x30 + 7) else chr (tmp + 0x30)] else [])"

definition itoa :: "int \<Rightarrow> string" where
  "itoa num = ''0x'' @ (if num = 0 then ''0''
     else concat (map (itoa_digit num) [28, 24, 20, 16, 12, 8, 4, 0]))"

section \<open>Formatting\<close>

text \<open>
  The arguments behind the format string. A conversion that finds no argument, or one of another
  kind, reads whatever the stack holds; a format that ends in a percent sign is read beyond its
  end. Both are accesses out of bounds.

  A conversion gives the bytes it stores, the number of bytes by which it advances \<^verbatim>\<open>p\<close> and the arguments
  left. Integers have 32 bits: negating the least one gives it back.
\<close>

datatype fmt_arg = IntArg int | StrArg string | CharArg char

definition fmt_x :: "fmt_arg list \<Rightarrow> (string \<times> nat \<times> fmt_arg list) res" where
  "fmt_x args = (case args of IntArg m # rest \<Rightarrow>
       res_bind (of_loop (i2a m 16)) (\<lambda>s. Inr (s, length s, rest)) | _ \<Rightarrow> Inl (BadAccess ''args''))"

definition fmt_s :: "fmt_arg list \<Rightarrow> (string \<times> nat \<times> fmt_arg list) res" where
  "fmt_s args = (case args of StrArg s # rest \<Rightarrow> Inr (s @ [chr 0], length s, rest) | _ \<Rightarrow> Inl (BadAccess ''args''))"

definition fmt_c :: "fmt_arg list \<Rightarrow> (string \<times> nat \<times> fmt_arg list) res" where
  "fmt_c args = (case args of CharArg c # rest \<Rightarrow> Inr ([c], 1, rest) | _ \<Rightarrow> Inl (BadAccess ''args''))"

definition neg32 :: "int \<Rightarrow> int" where
  "neg32 m = sint (of_int (m * (- 1)) :: u32)"

definition fmt_d :: "fmt_arg list \<Rightarrow> (string \<times> nat \<times> fmt_arg list) res" where
  "fmt_d args = (case args of IntArg m # rest \<Rightarrow>
       res_bind (of_loop (i2a (if m < 0 then neg32 m else m) 10)) (\<lambda>s.
         let t = (if m < 0 then ''-'' else []) @ s in Inr (t, length t, rest))
     | _ \<Rightarrow> Inl (BadAccess ''args''))"

text \<open>The bytes \<open>b\<close> stored at offset \<open>n\<close>, over what is in the buffer from an earlier conversion.\<close>

definition store_at :: "nat \<Rightarrow> string \<Rightarrow> string \<Rightarrow> string" where
  "store_at n b s = take n s @ b @ drop (n + length b) s"

text \<open>The bytes stored from the start of the buffer on, and the return value.\<close>

fun vsprintf :: "string \<Rightarrow> fmt_arg list \<Rightarrow> (string \<times> nat) res" where
  "vsprintf [] args = Inr ([], 0)"
| "vsprintf (c # fmt) args =
     (if c \<noteq> CHR ''%'' then res_bind (vsprintf fmt args) (\<lambda>(b, n). Inr (c # b, Suc n))
      else case fmt of
        [] \<Rightarrow> Inl (BadAccess ''fmt'')
      | k # fmt' \<Rightarrow>
          res_bind (if k = CHR ''x'' then fmt_x args
                    else if k = CHR ''s'' then fmt_s args
                    else if k = CHR ''c'' then fmt_c args
                    else if k = CHR ''d'' then fmt_d args
                    else Inr ([], 0, args)) (\<lambda>(s, k, rest).
          res_bind (vsprintf fmt' rest) (\<lambda>(b, n). Inr (store_at k b s, k + n))))"

section \<open>Comparison decides equality\<close>

lemma schar_zero: "schar c = 0 \<longleftrightarrow> c = chr 0"
proof -
  have "schar (chr 0) = 0"
    by (simp add: schar_def of_char_chr)
  then show ?thesis
    using schar_inj [of c "chr 0"] by simp
qed

text \<open>A C string contains no zero character.\<close>

definition c_string :: "string \<Rightarrow> bool" where
  "c_string s \<longleftrightarrow> chr 0 \<notin> set s"

lemma strcmp_0: "c_string s \<Longrightarrow> c_string t \<Longrightarrow> strcmp s t = 0 \<longleftrightarrow> s = t"
  by (induction s t rule: strcmp.induct) (auto simp: c_string_def schar_inj schar_zero)

lemma memcmp_0: "n \<le> length s \<Longrightarrow> n \<le> length t \<Longrightarrow> memcmp s t n = 0 \<longleftrightarrow> take n s = take n t"
proof (induction s t n rule: memcmp.induct)
  case (2 s t n)
  then show ?case
    by (cases s; cases t) (auto simp: schar_inj)
qed simp

section \<open>Reading numbers back\<close>

definition digit_val :: "char \<Rightarrow> int" where
  "digit_val c = (let n = of_char c in if n < 0x41 then n - 0x30 else n - 0x41 + 10)"

definition read_num :: "int \<Rightarrow> string \<Rightarrow> int" where
  "read_num base s = foldl (\<lambda>a c. a * base + digit_val c) 0 s"

lemma digit_val_digit: "0 \<le> m \<Longrightarrow> m < 16 \<Longrightarrow> digit_val (digit m) = m"
  by (auto simp: digit_val_def digit_def of_char_chr Let_def)

lemma i2a_reads:
  assumes "0 \<le> val" "2 \<le> base" "base \<le> 16"
  shows "\<exists>s. i2a val base = Some s \<and> s \<noteq> [] \<and> read_num base s = val"
  using assms(1)
proof (induction "nat val" arbitrary: val rule: less_induct)
  case less
  let ?q = "val div base" and ?m = "val mod base"
  have c: "val sdiv base = ?q" "val smod base = ?m"
    using less.prems assms(2) by (simp_all add: signed_divide_int_def signed_modulo_int_def sgn_if minus_div_mult_eq_mod)
  have m: "0 \<le> ?m" "?m < 16"
    using assms(2,3) pos_mod_bound [of base val] by (simp, linarith)
  show ?case
  proof (cases "?q = 0")
    case True
    then have "val = ?m"
      using div_mult_mod_eq [of val base] by simp
    moreover have "i2a val base = Some [digit ?m]"
      using True by (subst i2a.simps) (simp add: c)
    ultimately show ?thesis
      using m by (simp add: read_num_def digit_val_digit)
  next
    case False
    have q: "0 \<le> ?q" "?q < val"
    proof -
      have "0 < val"
        using less.prems False by (cases "val = 0") auto
      then show "0 \<le> ?q" "?q < val"
        using assms(2) by (auto simp: pos_imp_zdiv_nonneg_iff intro: int_div_less_self)
    qed
    obtain s where s: "i2a ?q base = Some s" "s \<noteq> []" "read_num base s = ?q"
      using less.hyps [of ?q] q by auto
    have "i2a val base = Some (s @ [digit ?m])"
      using False s(1) by (subst i2a.simps) (simp add: c)
    then show ?thesis
      using s m by (simp add: read_num_def digit_val_digit)
  qed
qed

text \<open>The digits printed for a number, and the number a decimal string with a sign denotes.\<close>

definition decimal :: "int \<Rightarrow> string" where
  "decimal n = the (i2a n 10)"

lemma decimal_i2a: "0 \<le> n \<Longrightarrow> i2a n 10 = Some (decimal n)"
  using i2a_reads [of n 10] by (auto simp: decimal_def)

lemma decimal_reads: "0 \<le> n \<Longrightarrow> decimal n \<noteq> [] \<and> read_num 10 (decimal n) = n"
  using i2a_reads [of n 10] by (auto simp: decimal_def)

definition read_signed :: "string \<Rightarrow> int" where
  "read_signed s = (case s of c # t \<Rightarrow> if c = CHR ''-'' then - read_num 10 t else read_num 10 s | [] \<Rightarrow> 0)"

text \<open>The numbers \<^verbatim>\<open>int\<close> holds, without the least one, and how they are printed.\<close>

definition negatable :: "int \<Rightarrow> bool" where
  "negatable m \<longleftrightarrow> - (2 ^ 31) < m \<and> m < 2 ^ 31"

lemma neg32_neg: "negatable m \<Longrightarrow> neg32 m = - m"
proof -
  assume "negatable m"
  moreover have "sint (of_int (- m) :: u32) = signed_take_bit 31 (- m)"
    by (subst signed_of_int) simp
  ultimately show ?thesis
    by (simp add: neg32_def negatable_def signed_take_bit_int_eq_self del: of_int_minus)
qed

definition signed_text :: "int \<Rightarrow> string" where
  "signed_text m = (if m < 0 then ''-'' else []) @ decimal \<bar>m\<bar>"

lemma fmt_d_decimal:
  "negatable m \<Longrightarrow> fmt_d (IntArg m # rest) = Inr (signed_text m, length (signed_text m), rest)"
  using decimal_i2a [of "\<bar>m\<bar>"] by (auto simp: fmt_d_def neg32_neg signed_text_def Let_def)

lemma digit_not_minus: "0 \<le> m \<Longrightarrow> m < 16 \<Longrightarrow> digit m \<noteq> CHR ''-''"
proof
  assume m: "0 \<le> m" "m < 16" and "digit m = CHR ''-''"
  then have "(of_char (digit m) :: int) = of_char (CHR ''-'')" by simp
  also have "of_char (CHR ''-'') = (45 :: int)" by simp
  finally show False
    using m by (simp add: digit_def of_char_chr split: if_splits)
qed

lemma i2a_no_minus:
  assumes "0 \<le> val" "2 \<le> base" "base \<le> 16" "i2a val base = Some s"
  shows "CHR ''-'' \<notin> set s"
  using assms(1,4)
proof (induction "nat val" arbitrary: val s rule: less_induct)
  case less
  let ?q = "val div base" and ?m = "val mod base"
  have c: "val sdiv base = ?q" "val smod base = ?m"
    using less.prems assms(2) by (simp_all add: signed_divide_int_def signed_modulo_int_def sgn_if minus_div_mult_eq_mod)
  have m: "digit ?m \<noteq> CHR ''-''"
    using assms(2,3) pos_mod_bound [of base val] by (intro digit_not_minus) (simp, linarith)
  show ?case
  proof (cases "?q = 0")
    case True
    then have "s = [digit ?m]"
      using less.prems(2) by (subst (asm) i2a.simps) (simp add: c)
    with m show ?thesis by auto
  next
    case False
    then have pos: "0 < val"
      using less.prems by (cases "val = 0") auto
    obtain t where t: "i2a ?q base = Some t" "s = t @ [digit ?m]"
      using False less.prems(2) by (subst (asm) (2) i2a.simps) (auto simp: c Option.bind_eq_Some_conv)
    have "?q < val"
      using pos assms(2) by (intro int_div_less_self) simp_all
    then have "CHR ''-'' \<notin> set t"
      using less.hyps [of ?q t] t(1) pos assms(2) by (simp add: pos_imp_zdiv_nonneg_iff)
    with t m show ?thesis by auto
  qed
qed

lemma read_signed_decimal: "read_signed (signed_text m) = m"
proof (cases "m < 0")
  case True
  then show ?thesis
    using decimal_reads [of "\<bar>m\<bar>"] by (simp add: read_signed_def signed_text_def)
next
  case False
  obtain c t where d: "decimal m = c # t"
    using decimal_reads [of m] False by (cases "decimal m") auto
  have "c \<noteq> CHR ''-''"
    using i2a_no_minus [of m 10 "decimal m"] decimal_i2a [of m] False d by auto
  then show ?thesis
    using False d decimal_reads [of m] by (simp add: read_signed_def signed_text_def)
qed

lemma store_at_exact [simp]: "store_at (length s) b s = s @ b"
  by (simp add: store_at_def)

lemma store_at_string [simp]: "b \<noteq> [] \<Longrightarrow> store_at (length s) b (s @ [z]) = s @ b"
  by (cases b) (simp_all add: store_at_def)

lemma store_at_string_end [simp]: "store_at (length s) [] (s @ [z]) = s @ [z]"
  by (simp add: store_at_def)

lemma vsprintf_lit:
  "CHR ''%'' \<notin> set lit \<Longrightarrow>
   vsprintf (lit @ fmt) args = res_bind (vsprintf fmt args) (\<lambda>(b, n). Inr (lit @ b, length lit + n))"
proof (induction lit)
  case (Cons c lit)
  then show ?case
    by (cases "vsprintf fmt args") auto
qed (simp add: res_bind_def split: sum.splits)

lemma vsprintf_plain: "CHR ''%'' \<notin> set lit \<Longrightarrow> vsprintf lit args = Inr (lit, length lit)"
  using vsprintf_lit [of lit "[]" args] by simp

text \<open>What one string, and one number, in a format contribute.\<close>

lemma vsprintf_s:
  "vsprintf (CHR ''%'' # CHR ''s'' # fmt) (StrArg s # args) =
   res_bind (vsprintf fmt args) (\<lambda>(b, n). Inr (store_at (length s) b (s @ [chr 0]), length s + n))"
  by (simp add: fmt_s_def)

lemma vsprintf_d:
  "negatable m \<Longrightarrow> vsprintf (CHR ''%'' # CHR ''d'' # fmt) (IntArg m # args) =
   res_bind (vsprintf fmt args) (\<lambda>(b, n). Inr (signed_text m @ b, length (signed_text m) + n))"
  by (simp add: fmt_d_decimal)

text \<open>The bytes stored are the text and at most one byte behind it.\<close>

lemma store_at_take: "k \<le> length s \<Longrightarrow> n \<le> length b \<Longrightarrow> take (k + n) (store_at k b s) = take k s @ take n b"
  by (simp add: store_at_def)

section \<open>Properties\<close>

text \<open>
  C26. Printing an integer with \<^verbatim>\<open>%d\<close> between any literal text always succeeds, leaves the text as
  it is, and the digits and the sign printed read back as the number. The integer is one of \<^verbatim>\<open>int\<close>, of
  32 bits, other than the least: that one cannot be negated (\<open>vsprintf_d_least\<close>).
\<close>
theorem vsprintf_d_roundtrip:
  assumes "CHR ''%'' \<notin> set before" "CHR ''%'' \<notin> set after" "- (2 ^ 31) < m" "m < 2 ^ 31"
  shows "\<exists>num. vsprintf (before @ ''%d'' @ after) [IntArg m] = Inr (before @ num @ after, length (before @ num @ after)) \<and>
    read_signed num = m"
proof -
  have "negatable m"
    using assms(3,4) by (simp add: negatable_def)
  then have "vsprintf (before @ ''%d'' @ after) [IntArg m] =
      Inr (before @ signed_text m @ after, length (before @ signed_text m @ after))"
    using vsprintf_lit [OF assms(1), of "''%d'' @ after" "[IntArg m]"] vsprintf_d [of m after "[]"] vsprintf_plain [OF assms(2), of "[]"]
    by (simp del: vsprintf.simps)
  then show ?thesis
    using read_signed_decimal by blast
qed

theorem vsprintf_d_roundtrip_witness:
  "\<exists>num. vsprintf (''pid:'' @ ''%d'' @ '' ok'') [IntArg (- 42)] = Inr (''pid:'' @ num @ '' ok'', length (''pid:'' @ num @ '' ok'')) \<and>
     read_signed num = - 42"
  by (rule vsprintf_d_roundtrip) simp_all

text \<open>
  The least integer is its own negation: what is printed for it are a sign and ten characters that are no digits.
\<close>
lemma vsprintf_d_least: "vsprintf ''%d'' [IntArg (- (2 ^ 31))] = Inr (''-./,),(-*,('', 11)"
proof -
  have "i2a (- (2 ^ 31)) 10 = Some ''./,),(-*,(''"
    by (simp add: i2a.simps signed_divide_int_def signed_modulo_int_def digit_def chr_def char_of_def)
  then show ?thesis
    by (simp add: fmt_d_def neg32_def store_at_def)
qed

text \<open>
  \<^verbatim>\<open>strcmp\<close> returns 0 exactly for equal strings and \<^verbatim>\<open>memcmp\<close> exactly for equal first bytes.
\<close>
lemma compare_correct:
  "(c_string s \<and> c_string t \<longrightarrow> (strcmp s t = 0 \<longleftrightarrow> s = t)) \<and>
   (n \<le> length s \<and> n \<le> length t \<longrightarrow> (memcmp s t n = 0 \<longleftrightarrow> take n s = take n t))"
  using strcmp_0 memcmp_0 by blast

lemma compare_correct_witness:
  "strcmp ''init'' ''init.c'' \<noteq> 0 \<and> memcmp ''init'' ''init.c'' 4 = 0"
proof -
  have "c_string ''init''" "c_string ''init.c''"
    by code_simp+
  then show ?thesis
    using compare_correct [of "''init''" "''init.c''" 4] by simp
qed

text \<open>
  \<^verbatim>\<open>itoa\<close> drops every zero digit, not only leading ones: 0x101 and 0x11 are both printed as
  0x11.
\<close>
lemma itoa_drops_zeros: "itoa 0x101 = ''0x11'' \<and> itoa 0x11 = ''0x11''"
  by code_simp

end
