(* ===== verification/Hd.thy ===== *)
theory Hd
  imports Memory Ipc "HOL-Library.Signed_Division"
begin

text \<open>
  The hard disk driver: \<^verbatim>\<open>kernel/hd.c\<close> and \<^verbatim>\<open>include/sys/hd.h\<close>.

  The drive itself is hardware, so every operation takes it as an argument: \<open>dev_cmd\<close> is the effect
  of writing the command registers (nothing if the drive stays busy), \<open>dev_read\<close> waits for the
  interrupt and reads a sector (nothing if no interrupt ever comes), \<open>dev_drq\<close> is the data request
  bit and \<open>dev_write\<close> sends a sector and waits for its interrupt. What the driver relies on is the
  locale \<open>ata_drive\<close> of theory \<^verbatim>\<open>Disk\<close>: a command names a range of sectors of 28-bit numbers, a count of 0 means 256,
  and the drive transfers exactly that range.
\<close>

abbreviation (input) SECTOR_SIZE :: int where "SECTOR_SIZE \<equiv> 512"
abbreviation (input) SECTOR_SIZE_SHIFT :: nat where "SECTOR_SIZE_SHIFT \<equiv> 9"
abbreviation (input) NR_PART_PER_DRIVE :: int where "NR_PART_PER_DRIVE \<equiv> 4"
abbreviation (input) NR_SUB_PER_PART :: int where "NR_SUB_PER_PART \<equiv> 16"
abbreviation (input) NR_SUB_PER_DRIVE :: int where "NR_SUB_PER_DRIVE \<equiv> 64"
abbreviation (input) NR_PRIM_PER_DRIVE :: int where "NR_PRIM_PER_DRIVE \<equiv> 5"
abbreviation (input) MAX_PRIM :: int where "MAX_PRIM \<equiv> 9"
abbreviation (input) MINOR_hd1a :: int where "MINOR_hd1a \<equiv> 0x10"
abbreviation (input) ATA_IDENTIFY :: u8 where "ATA_IDENTIFY \<equiv> 0xEC"
abbreviation (input) ATA_READ :: u8 where "ATA_READ \<equiv> 0x20"
abbreviation (input) ATA_WRITE :: u8 where "ATA_WRITE \<equiv> 0x30"
abbreviation (input) PARTITION_TABLE_OFFSET :: nat where "PARTITION_TABLE_OFFSET \<equiv> 0x1be"
abbreviation (input) NO_PART :: u8 where "NO_PART \<equiv> 0"
abbreviation (input) EXT_PART :: u8 where "EXT_PART \<equiv> 5"
abbreviation (input) DIOCTL_GET_GEO :: int where "DIOCTL_GET_GEO \<equiv> 1"
abbreviation (input) HZ :: int where "HZ \<equiv> 100"
abbreviation (input) STATUS_BSY :: int where "STATUS_BSY \<equiv> 0x80"
abbreviation (input) STATUS_DRQ :: int where "STATUS_DRQ \<equiv> 0x08"
abbreviation (input) HD_TIMEOUT :: int where "HD_TIMEOUT \<equiv> 10000"
abbreviation (input) REQUEST :: "MESSAGE \<Rightarrow> int" where "REQUEST \<equiv> m3i2"
abbreviation (input) POSITION :: "MESSAGE \<Rightarrow> u64" where "POSITION \<equiv> m3l1"

section \<open>State\<close>

record hd_cmd =
  features :: u8
  count :: u8
  lba_low :: u8
  lba_mid :: u8
  lba_high :: u8
  device :: u8
  command :: u8

record part_ent =
  boot_ind :: u8
  start_head :: u8
  start_sector :: u8
  start_cyl :: u8
  sys_id :: u8
  end_head :: u8
  end_sector :: u8
  end_cyl :: u8
  start_sect :: u32
  nr_sects :: u32

record part_info =
  pbase :: u32
  psize :: u32

record hd_info =
  open_cnt :: u32
  primary :: "nat \<Rightarrow> part_info"
  logical :: "nat \<Rightarrow> part_info"

record 'd ata_dev =
  dev_cmd :: "hd_cmd \<Rightarrow> 'd \<Rightarrow> 'd option"
  dev_read :: "'d \<Rightarrow> (u8 list \<times> 'd) option"
  dev_drq :: "'d \<Rightarrow> bool"
  dev_write :: "u8 list \<Rightarrow> 'd \<Rightarrow> 'd option"

record 'd hd_state =
  drive :: 'd
  hdbuf :: "u8 list"
  hd0 :: hd_info
  hd_mem :: "u32 \<Rightarrow> u8"
  hd_procs :: proc_tab

section \<open>Commands\<close>

text \<open>
  \<^verbatim>\<open>waitfor\<close> on the successive readings of the status register and of the clock: every element holds
  the ticks the loop condition sees and the status read after it; \<open>t\<close> are the ticks at the start. Running out of readings is the
  result \<open>None\<close>.
\<close>

fun waitfor :: "int \<Rightarrow> int \<Rightarrow> int \<Rightarrow> int \<Rightarrow> (int \<times> u8) list \<Rightarrow> bool option" where
  "waitfor msk val timeout t [] = None"
| "waitfor msk val timeout t ((now, status) # rs) =
     (if ((now - t) * 1000) sdiv HZ < timeout then
        if uint status AND msk = val then Some True else waitfor msk val timeout t rs
      else Some False)"

definition DRV_OF_DEV :: "int \<Rightarrow> int" where
  "DRV_OF_DEV dev = (if dev \<le> MAX_PRIM then dev sdiv NR_PRIM_PER_DRIVE
     else (dev - MINOR_hd1a) sdiv NR_SUB_PER_DRIVE)"

definition MAKE_DEVICE_REG :: "int \<Rightarrow> int \<Rightarrow> int \<Rightarrow> u8" where
  "MAKE_DEVICE_REG lba drv lba_highest =
     of_int (((push_bit 6 lba OR push_bit 4 drv) OR (lba_highest AND 0xf)) OR 0xA0)"

definition hd_cmd_out :: "'d ata_dev \<Rightarrow> hd_cmd \<Rightarrow> 'd hd_state \<Rightarrow> 'd hd_state res" where
  "hd_cmd_out A cmd st =
     (case dev_cmd A cmd (drive st) of
        None \<Rightarrow> Inl (Panic ''hd error.'')
      | Some d \<Rightarrow> Inr (st\<lparr>drive := d\<rparr>))"

text \<open>\<^verbatim>\<open>interrupt_wait\<close> followed by \<^verbatim>\<open>port_read\<close> of a sector into \<^verbatim>\<open>hdbuf\<close>.\<close>

definition read_hdbuf :: "'d ata_dev \<Rightarrow> 'd hd_state \<Rightarrow> 'd hd_state res" where
  "read_hdbuf A st =
     (case dev_read A (drive st) of
        None \<Rightarrow> Inl Hang
      | Some (bs, d) \<Rightarrow> Inr (st\<lparr>drive := d, hdbuf := bs @ drop (length bs) (hdbuf st)\<rparr>))"

definition lba_cmd :: "u8 \<Rightarrow> int \<Rightarrow> u8 \<Rightarrow> u32 \<Rightarrow> hd_cmd" where
  "lba_cmd cmd drv n sec_nr =
     \<lparr>features = 0, count = n, lba_low = ucast (sec_nr AND 0xFF), lba_mid = ucast (drop_bit 8 sec_nr AND 0xFF),
      lba_high = ucast (drop_bit 16 sec_nr AND 0xFF),
      device = MAKE_DEVICE_REG 1 drv (uint (drop_bit 24 sec_nr AND 0xF)), command = cmd\<rparr>"

section \<open>Partitions\<close>

definition half_of :: "u8 list \<Rightarrow> nat \<Rightarrow> u16" where
  "half_of bs i = ucast (bs ! (2 * i)) OR push_bit 8 (ucast (bs ! (2 * i + 1)))"

definition hd_identify :: "'d ata_dev \<Rightarrow> int \<Rightarrow> hd_cmd \<Rightarrow> 'd hd_state \<Rightarrow> 'd hd_state res" where
  "hd_identify A drv junk st =
     res_bind (hd_cmd_out A (junk\<lparr>command := ATA_IDENTIFY, device := MAKE_DEVICE_REG 0 drv 0\<rparr>) st) (\<lambda>st1.
     res_bind (read_hdbuf A st1) (\<lambda>st2.
     let n = push_bit 16 (ucast (half_of (hdbuf st2) 61)) + ucast (half_of (hdbuf st2) 60);
         h = hd0 st2
     in Inr (st2\<lparr>hd0 := h\<lparr>primary := (primary h)(0 := \<lparr>pbase = 0, psize = n\<rparr>)\<rparr>\<rparr>)))"

text \<open>
  \<^verbatim>\<open>print_identify_info\<close>: the texts of the drive are stored with the two bytes of every word swapped; the
  flags are bits of two words. The result is what the four \<^verbatim>\<open>printl\<close> calls print, without the fixed
  parts of their formats.
\<close>

definition iden_string :: "u8 list \<Rightarrow> nat \<Rightarrow> nat \<Rightarrow> u8 list" where
  "iden_string hdinfo idx len =
     takeWhile (\<lambda>c. c \<noteq> 0) (concat (map (\<lambda>i. [hdinfo ! (2 * idx + 2 * i + 1), hdinfo ! (2 * idx + 2 * i)]) [0..<len div 2]))"

record iden_print =
  sn_text :: "u8 list"
  model_text :: "u8 list"
  lba_text :: string
  lba48_text :: string
  mb_number :: int

definition print_identify_info :: "u8 list \<Rightarrow> iden_print" where
  "print_identify_info hdinfo =
     (let capabilities = half_of hdinfo 49; cmd_set_supported = half_of hdinfo 83;
          sectors = push_bit 16 (ucast (half_of hdinfo 61)) + ucast (half_of hdinfo 60) :: u32
      in \<lparr>sn_text = iden_string hdinfo 10 20, model_text = iden_string hdinfo 27 40,
          lba_text = (if capabilities AND 0x0200 \<noteq> 0 then ''Yes'' else ''No''),
          lba48_text = (if cmd_set_supported AND 0x0400 \<noteq> 0 then ''Yes'' else ''No''),
          mb_number = sint (sectors * 512) sdiv 1000000\<rparr>)"

definition part_ent_at :: "u8 list \<Rightarrow> nat \<Rightarrow> part_ent" where
  "part_ent_at buf i =
     (let e = drop (PARTITION_TABLE_OFFSET + 16 * i) buf
      in \<lparr>boot_ind = e ! 0, start_head = e ! 1, start_sector = e ! 2, start_cyl = e ! 3, sys_id = e ! 4,
          end_head = e ! 5, end_sector = e ! 6, end_cyl = e ! 7,
          start_sect = word_of (take 4 (drop 8 e)), nr_sects = word_of (take 4 (drop 12 e))\<rparr>)"

definition get_part_table :: "'d ata_dev \<Rightarrow> int \<Rightarrow> u32 \<Rightarrow> 'd hd_state \<Rightarrow> (part_ent list \<times> 'd hd_state) res" where
  "get_part_table A drv sec_nr st =
     res_bind (hd_cmd_out A (lba_cmd ATA_READ drv 1 sec_nr) st) (\<lambda>st1.
     res_bind (read_hdbuf A st1) (\<lambda>st2.
     Inr (map (part_ent_at (hdbuf st2)) [0..<4], st2)))"

definition set_logical :: "nat \<Rightarrow> u32 \<Rightarrow> u32 \<Rightarrow> 'd hd_state \<Rightarrow> 'd hd_state" where
  "set_logical i b n st =
     st\<lparr>hd0 := (hd0 st)\<lparr>logical := (logical (hd0 st))(i := \<lparr>pbase = b, psize = n\<rparr>)\<rparr>\<rparr>"

definition set_primary :: "nat \<Rightarrow> u32 \<Rightarrow> u32 \<Rightarrow> 'd hd_state \<Rightarrow> 'd hd_state" where
  "set_primary i b n st =
     st\<lparr>hd0 := (hd0 st)\<lparr>primary := (primary (hd0 st))(i := \<lparr>pbase = b, psize = n\<rparr>)\<rparr>\<rparr>"

text \<open>The chain of extended partition tables: at most 16, until an entry says there is no further one.\<close>

fun partition_ext :: "'d ata_dev \<Rightarrow> int \<Rightarrow> u32 \<Rightarrow> nat \<Rightarrow> nat list \<Rightarrow> u32 \<Rightarrow> 'd hd_state \<Rightarrow> 'd hd_state res" where
  "partition_ext A drv sec_base nr_base [] ext_start st = Inr st"
| "partition_ext A drv sec_base nr_base (i # is) ext_start st =
     res_bind (get_part_table A drv ext_start st) (\<lambda>(ents, st1).
     let st2 = set_logical (nr_base + i) (ext_start + start_sect (ents ! 0)) (nr_sects (ents ! 0)) st1;
         ext_start' = sec_base + start_sect (ents ! 1)
     in if sys_id (ents ! 1) = NO_PART then Inr st2
        else partition_ext A drv sec_base nr_base is ext_start' st2)"

definition partition_extended :: "'d ata_dev \<Rightarrow> int \<Rightarrow> 'd hd_state \<Rightarrow> 'd hd_state res" where
  "partition_extended A dev st =
     (let drv = DRV_OF_DEV dev; j = dev smod NR_PRIM_PER_DRIVE;
          sec_base = pbase (primary (hd0 st) (nat j))
      in partition_ext A drv sec_base (nat ((j - 1) * NR_SUB_PER_PART)) [0..<16] sec_base st)"

fun partition_prim :: "'d ata_dev \<Rightarrow> (nat \<times> part_ent) list \<Rightarrow> int \<Rightarrow> 'd hd_state \<Rightarrow> (int \<times> 'd hd_state) res" where
  "partition_prim A [] nr_prim_parts st = Inr (nr_prim_parts, st)"
| "partition_prim A ((i, e) # ents) nr_prim_parts st =
     (if sys_id e = NO_PART then partition_prim A ents nr_prim_parts st
      else let dev_nr = i + 1; st1 = set_primary dev_nr (start_sect e) (nr_sects e) st
           in res_bind (if sys_id e = EXT_PART then partition_extended A (int dev_nr) st1 else Inr st1) (\<lambda>st2.
              partition_prim A ents (nr_prim_parts + 1) st2))"

definition partition_primary :: "'d ata_dev \<Rightarrow> int \<Rightarrow> 'd hd_state \<Rightarrow> 'd hd_state res" where
  "partition_primary A dev st =
     (let drv = DRV_OF_DEV dev
      in res_bind (get_part_table A drv (of_int drv) st) (\<lambda>(ents, st1).
         res_bind (partition_prim A (zip [0..<4] ents) 0 st1) (\<lambda>(n, st2).
         res_bind (assert_c (n \<noteq> 0) ''nr_prim_parts != 0'') (\<lambda>_. Inr st2))))"

section \<open>Requests\<close>

definition hd_open :: "'d ata_dev \<Rightarrow> int \<Rightarrow> hd_cmd \<Rightarrow> 'd hd_state \<Rightarrow> 'd hd_state res" where
  "hd_open A dev junk st =
     (let drv = DRV_OF_DEV dev
      in res_bind (assert_c (drv = 0) ''drive == 0'') (\<lambda>_.
         res_bind (hd_identify A drv junk st) (\<lambda>st1.
         let c = open_cnt (hd0 st1); st2 = st1\<lparr>hd0 := (hd0 st1)\<lparr>open_cnt := c + 1\<rparr>\<rparr>
         in if c = 0 then partition_primary A (drv * (NR_PART_PER_DRIVE + 1)) st2 else Inr st2)))"

definition hd_close :: "int \<Rightarrow> 'd hd_state \<Rightarrow> 'd hd_state res" where
  "hd_close dev st =
     res_bind (assert_c (DRV_OF_DEV dev = 0) ''drive == 0'') (\<lambda>_.
     Inr (st\<lparr>hd0 := (hd0 st)\<lparr>open_cnt := open_cnt (hd0 st) - 1\<rparr>\<rparr>))"

text \<open>The entry for a minor device number; the arrays have 5 and 64 entries.\<close>

definition part_of_dev :: "int \<Rightarrow> hd_info \<Rightarrow> part_info res" where
  "part_of_dev dev h =
     (if dev \<le> MAX_PRIM then
        if 0 \<le> dev \<and> dev < NR_PRIM_PER_DRIVE then Inr (primary h (nat dev)) else Inl (BadAccess ''primary'')
      else let i = (dev - MINOR_hd1a) smod NR_SUB_PER_DRIVE
           in if 0 \<le> i then Inr (logical h (nat i)) else Inl (BadAccess ''logical''))"

definition hd_read_step :: "'d ata_dev \<Rightarrow> u32 \<Rightarrow> nat \<Rightarrow> 'd hd_state \<Rightarrow> 'd hd_state res" where
  "hd_read_step A la bytes_proc st =
     res_bind (read_hdbuf A st) (\<lambda>st1.
     Inr (st1\<lparr>hd_mem := write_bytes la (take bytes_proc (hdbuf st1)) (hd_mem st1)\<rparr>))"

definition hd_write_step :: "'d ata_dev \<Rightarrow> u32 \<Rightarrow> nat \<Rightarrow> 'd hd_state \<Rightarrow> 'd hd_state res" where
  "hd_write_step A la bytes_proc st =
     (if \<not> dev_drq A (drive st) then Inl (Panic ''hd writing error!'')
      else case dev_write A (mem_bytes (hd_mem st) la bytes_proc) (drive st) of
             None \<Rightarrow> Inl Hang
           | Some d \<Rightarrow> Inr (st\<lparr>drive := d\<rparr>))"

function hd_rdwt_loop :: "'d ata_dev \<Rightarrow> bool \<Rightarrow> u32 \<Rightarrow> nat \<Rightarrow> 'd hd_state \<Rightarrow> 'd hd_state res" where
  "hd_rdwt_loop A rd la bytes_left st =
     (if bytes_left = 0 then Inr st
      else let bytes_proc = min 512 bytes_left
           in res_bind (if rd then hd_read_step A la bytes_proc st else hd_write_step A la bytes_proc st) (\<lambda>st1.
              hd_rdwt_loop A rd (la + of_nat bytes_proc) (bytes_left - bytes_proc) st1))"
  by pat_completeness auto
termination
  by (relation "measure (\<lambda>(A, rd, la, n, st). n)") auto

declare hd_rdwt_loop.simps [simp del]

lemma hd_rdwt_loop_0 [simp]: "hd_rdwt_loop A rd la 0 st = Inr st"
  by (subst hd_rdwt_loop.simps) simp

text \<open>
  \<^verbatim>\<open>hd_rdwt\<close>. The bound \<^verbatim>\<open>1<<31\<close> of the first assertion is a negative \<^verbatim>\<open>int\<close>, which the comparison with
  an unsigned 64-bit number makes huge. A negative byte count is the size of the first transfer, which
  \<^verbatim>\<open>phys_copy\<close> and \<^verbatim>\<open>port_write\<close> count down from as an unsigned number.
\<close>

definition hd_rdwt :: "'d ata_dev \<Rightarrow> MESSAGE \<Rightarrow> 'd hd_state \<Rightarrow> 'd hd_state res" where
  "hd_rdwt A msg st =
     (let pos = POSITION msg; dev = DEVICE msg; drv = DRV_OF_DEV dev
      in res_bind (assert_c (drop_bit SECTOR_SIZE_SHIFT pos < 0xFFFFFFFF80000000) ''(pos>>SECTOR_SIZE_SHIFT) < (1<<31)'') (\<lambda>_.
         res_bind (assert_c (pos AND 0x1ff = 0) ''(pos & 0x1ff) == 0'') (\<lambda>_.
         res_bind (part_of_dev dev (hd0 st)) (\<lambda>p.
         let sec_nr = ucast (drop_bit SECTOR_SIZE_SHIFT pos) + pbase p;
             rd = (mtype msg = DEV_READ)
         in res_bind (va2la (hd_procs st) (PROC_NR msg) (BUF msg)) (\<lambda>la.
            res_bind (hd_cmd_out A (lba_cmd (if rd then ATA_READ else ATA_WRITE) drv
              (of_int ((CNT msg + SECTOR_SIZE - 1) sdiv SECTOR_SIZE)) sec_nr) st) (\<lambda>st1.
            if CNT msg < 0 then Inl (BadAccess ''la'') else hd_rdwt_loop A rd la (nat (CNT msg)) st1))))))"

definition hd_ioctl :: "MESSAGE \<Rightarrow> 'd hd_state \<Rightarrow> 'd hd_state res" where
  "hd_ioctl msg st =
     (if DRV_OF_DEV (DEVICE msg) \<noteq> 0 then Inl (BadAccess ''hd_info'')
      else if REQUEST msg = DIOCTL_GET_GEO then
        res_bind (va2la (hd_procs st) (PROC_NR msg) (BUF msg)) (\<lambda>dst.
        res_bind (part_of_dev (DEVICE msg) (hd0 st)) (\<lambda>p.
        Inr (st\<lparr>hd_mem := write_bytes dst (bytes_of (pbase p) @ bytes_of (psize p)) (hd_mem st)\<rparr>)))
      else Inl (AssertFail ''0''))"

definition init_hd :: "u8 \<Rightarrow> 'd hd_state \<Rightarrow> 'd hd_state res" where
  "init_hd pNrDrives st =
     res_bind (assert_c (pNrDrives \<noteq> 0) ''*pNrDrives'') (\<lambda>_.
     Inr (st\<lparr>hd0 := \<lparr>open_cnt = 0, primary = (\<lambda>_. \<lparr>pbase = 0, psize = 0\<rparr>),
                      logical = (\<lambda>_. \<lparr>pbase = 0, psize = 0\<rparr>)\<rparr>\<rparr>))"

text \<open>The interrupt handler keeps the status (reading it acknowledges the interrupt) and informs the task.\<close>

definition hd_handler :: "u8 \<Rightarrow> u8 \<times> kstate \<Rightarrow> (u8 \<times> kstate) res" where
  "hd_handler status hs = res_bind (inform_int TASK_HD (snd hs)) (\<lambda>s. Inr (status, s))"

text \<open>The dispatch of \<^verbatim>\<open>task_hd\<close>; the request itself is sent back as the answer.\<close>

definition hd_dispatch :: "'d ata_dev \<Rightarrow> hd_cmd \<Rightarrow> MESSAGE \<Rightarrow> 'd hd_state \<Rightarrow> 'd hd_state res" where
  "hd_dispatch A junk msg st =
     (if mtype msg = DEV_OPEN then hd_open A (DEVICE msg) junk st
      else if mtype msg = DEV_CLOSE then hd_close (DEVICE msg) st
      else if mtype msg = DEV_READ \<or> mtype msg = DEV_WRITE then hd_rdwt A msg st
      else if mtype msg = DEV_IOCTL then hd_ioctl msg st
      else Inl (Panic ''hd unknown msg type''))"

end
