(* ===== verification/Buffer.thy ===== *)
theory Buffer
  imports Memory
begin

text \<open>
  A buffer as a function from offsets to bytes: the file system's \<^verbatim>\<open>fsbuf\<close> and the bytes of a disk
  partition. Structures are read and written at their offsets, little-endian.
\<close>

type_synonym buffer = "nat \<Rightarrow> u8"

definition buf_bytes :: "buffer \<Rightarrow> nat \<Rightarrow> nat \<Rightarrow> u8 list" where
  "buf_bytes f a n = map (\<lambda>i. f (a + i)) [0..<n]"

definition buf_write :: "nat \<Rightarrow> u8 list \<Rightarrow> buffer \<Rightarrow> buffer" where
  "buf_write a bs f = (\<lambda>i. if a \<le> i \<and> i < a + length bs then bs ! (i - a) else f i)"

definition buf_word :: "buffer \<Rightarrow> nat \<Rightarrow> u32" where
  "buf_word f a = word_of (buf_bytes f a 4)"

definition buf_set :: "nat \<Rightarrow> u32 \<Rightarrow> buffer \<Rightarrow> buffer" where
  "buf_set a w f = buf_write a (bytes_of w) f"

text \<open>\<open>n\<close> bytes of one buffer copied into another.\<close>

definition copy_range :: "buffer \<Rightarrow> nat \<Rightarrow> buffer \<Rightarrow> nat \<Rightarrow> nat \<Rightarrow> buffer" where
  "copy_range src sa dst da n = (\<lambda>i. if da \<le> i \<and> i < da + n then src (sa + (i - da)) else dst i)"

named_theorems buf_simps "reading a buffer that has been written"

lemma length_buf_bytes [simp]: "length (buf_bytes f a n) = n"
  by (simp add: buf_bytes_def)

lemma nth_buf_bytes [simp]: "i < n \<Longrightarrow> buf_bytes f a n ! i = f (a + i)"
  by (simp add: buf_bytes_def)

lemma buf_bytes_cong: "(\<And>i. a \<le> i \<Longrightarrow> i < a + n \<Longrightarrow> f i = g i) \<Longrightarrow> buf_bytes f a n = buf_bytes g a n"
  by (simp add: buf_bytes_def)

lemma buf_word_cong: "(\<And>i. a \<le> i \<Longrightarrow> i < a + 4 \<Longrightarrow> f i = g i) \<Longrightarrow> buf_word f a = buf_word g a"
  unfolding buf_word_def by (simp cong: buf_bytes_cong)

lemma buf_bytes_write_same [buf_simps]: "n = length bs \<Longrightarrow> buf_bytes (buf_write a bs f) a n = bs"
  by (rule nth_equalityI) (simp_all add: buf_write_def)

lemma buf_write_other [buf_simps]: "i < a \<or> a + length bs \<le> i \<Longrightarrow> buf_write a bs f i = f i"
  by (auto simp: buf_write_def)

lemma buf_word_set_same [buf_simps]: "buf_word (buf_set a w f) a = w"
  unfolding buf_word_def buf_set_def by (simp add: buf_bytes_write_same) (simp add: bytes_of_def)

lemma buf_word_set_other [buf_simps]: "b + 4 \<le> a \<or> a + 4 \<le> b \<Longrightarrow> buf_word (buf_set a w f) b = buf_word f b"
  by (rule buf_word_cong) (auto simp: buf_set_def buf_write_def)

lemma buf_word_write_other [buf_simps]: "b + 4 \<le> a \<or> a + length bs \<le> b \<Longrightarrow> buf_word (buf_write a bs f) b = buf_word f b"
  by (rule buf_word_cong) (auto simp: buf_write_def)

lemma copy_range_in [buf_simps]: "da \<le> i \<Longrightarrow> i < da + n \<Longrightarrow> copy_range src sa dst da n i = src (sa + (i - da))"
  by (simp add: copy_range_def)

lemma copy_range_out [buf_simps]: "i < da \<or> da + n \<le> i \<Longrightarrow> copy_range src sa dst da n i = dst i"
  by (auto simp: copy_range_def)

lemma buf_bytes_copy [buf_simps]:
  "da \<le> a \<Longrightarrow> a + k \<le> da + n \<Longrightarrow> buf_bytes (copy_range src sa dst da n) a k = buf_bytes src (sa + (a - da)) k"
  by (rule nth_equalityI) (auto simp: copy_range_def add.assoc)

lemma buf_word_copy [buf_simps]:
  "da \<le> a \<Longrightarrow> a + 4 \<le> da + n \<Longrightarrow> buf_word (copy_range src sa dst da n) a = buf_word src (sa + (a - da))"
  by (simp add: buf_word_def buf_bytes_copy)

text \<open>Reading a range, changing it and writing it back changes only that.\<close>

lemma copy_range_self [buf_simps]: "copy_range f a f a n = f"
  by (rule ext) (simp add: copy_range_def)

lemma copy_back:
  assumes "b + length bs \<le> n"
  shows "copy_range (buf_write b bs (copy_range d a f 0 n)) 0 d a n = buf_write (a + b) bs d"
  using assms by (auto simp: copy_range_def buf_write_def fun_eq_iff)

lemma buf_write_append: "buf_write (a + length xs) ys (buf_write a xs f) = buf_write a (xs @ ys) f"
  by (auto simp: buf_write_def fun_eq_iff nth_append)

lemma buf_write_copy: "copy_range f b d a n = buf_write a (buf_bytes f b n) d"
  by (auto simp: copy_range_def buf_write_def fun_eq_iff)

lemma buf_bytes_write_other [buf_simps]:
  "b + n \<le> a \<or> a + length bs \<le> b \<Longrightarrow> buf_bytes (buf_write a bs f) b n = buf_bytes f b n"
  by (rule buf_bytes_cong) (auto simp: buf_write_def)

lemma buf_write_fun_upd: "f(a := b) = buf_write a [b] f"
  by (auto simp: buf_write_def fun_eq_iff)

end
