(* ===== verification/Fs.thy ===== *)
theory Fs
  imports Hd Buffer Boot
begin

text \<open>
  The data and the lower half of the file system task: \<^verbatim>\<open>include/sys/fs.h\<close> and \<^verbatim>\<open>fs/main.c\<close>.

  \<open>fs_disk\<close> holds the bytes of the partitions by minor device number, \<open>fsbuf\<close> the sector buffer at
  6 MB and \<open>fs_mem\<close> the memory of the processes, which does not overlap the buffer. Pointers into
  \<^verbatim>\<open>inode_table\<close>, \<^verbatim>\<open>fd_table\<close> and \<^verbatim>\<open>super_block\<close> are indices. A sector request goes to the disk driver; its
  effect on the buffer and the disk is \<open>disk_rw\<close>, and that the driver implements it is proved in theory
  \<^verbatim>\<open>Files\<close>. Messages to the other drivers are recorded in \<open>fs_sent\<close>.
\<close>

abbreviation (input) NR_FILE_DESC :: nat where "NR_FILE_DESC \<equiv> 64"
abbreviation (input) NR_INODE :: nat where "NR_INODE \<equiv> 64"
abbreviation (input) NR_SUPER_BLOCK :: nat where "NR_SUPER_BLOCK \<equiv> 8"
abbreviation (input) NR_DEFAULT_FILE_SECTS :: u32 where "NR_DEFAULT_FILE_SECTS \<equiv> 2048"
abbreviation (input) I_TYPE_MASK :: u32 where "I_TYPE_MASK \<equiv> 0xF000"
abbreviation (input) I_REGULAR :: u32 where "I_REGULAR \<equiv> 0x8000"
abbreviation (input) I_BLOCK_SPECIAL :: u32 where "I_BLOCK_SPECIAL \<equiv> 0x6000"
abbreviation (input) I_DIRECTORY :: u32 where "I_DIRECTORY \<equiv> 0x4000"
abbreviation (input) I_CHAR_SPECIAL :: u32 where "I_CHAR_SPECIAL \<equiv> 0x2000"
abbreviation (input) INVALID_INODE :: int where "INVALID_INODE \<equiv> 0"
abbreviation (input) ROOT_INODE :: int where "ROOT_INODE \<equiv> 1"
abbreviation (input) NO_DEV :: int where "NO_DEV \<equiv> 0"
abbreviation (input) DEV_HD :: int where "DEV_HD \<equiv> 3"
abbreviation (input) DEV_CHAR_TTY :: int where "DEV_CHAR_TTY \<equiv> 4"
abbreviation (input) MAJOR_SHIFT :: nat where "MAJOR_SHIFT \<equiv> 8"
abbreviation (input) MINOR_hd2a :: int where "MINOR_hd2a \<equiv> 0x20"
abbreviation (input) MINOR_BOOT :: int where "MINOR_BOOT \<equiv> MINOR_hd2a"
abbreviation (input) MAGIC_V1 :: u32 where "MAGIC_V1 \<equiv> 0x111"
abbreviation (input) INODE_SIZE :: int where "INODE_SIZE \<equiv> 32"
abbreviation (input) MAX_FILENAME_LEN :: nat where "MAX_FILENAME_LEN \<equiv> 12"
abbreviation (input) DIR_ENT_SIZE :: nat where "DIR_ENT_SIZE \<equiv> 16"
abbreviation (input) INSTALL_START_SECT :: u32 where "INSTALL_START_SECT \<equiv> 0x8000"
abbreviation (input) INSTALL_NR_SECTS :: u32 where "INSTALL_NR_SECTS \<equiv> 0x800"
abbreviation (input) FSBUF_SIZE :: int where "FSBUF_SIZE \<equiv> 0x100000"

definition MAKE_DEV :: "int \<Rightarrow> int \<Rightarrow> int" where "MAKE_DEV a b = push_bit MAJOR_SHIFT a OR b"
definition MAJOR :: "int \<Rightarrow> int" where "MAJOR x = drop_bit MAJOR_SHIFT x AND 0xff"
definition MINOR :: "int \<Rightarrow> int" where "MINOR x = x AND 0xff"

abbreviation (input) ROOT_DEV :: int where "ROOT_DEV \<equiv> 0x320"

lemma ROOT_DEV_eq: "MAKE_DEV DEV_HD MINOR_BOOT = ROOT_DEV"
  by (simp add: MAKE_DEV_def)

section \<open>State\<close>

record super_block =
  magic :: u32
  nr_inodes :: u32
  sb_nr_sects :: u32
  nr_imap_sects :: u32
  nr_smap_sects :: u32
  n_1st_sect :: u32
  nr_inode_sects :: u32
  sb_root_inode :: u32
  inode_size :: u32
  inode_iszie_off :: u32
  inode_start_off :: u32
  dir_ent_size :: u32
  dir_ent_inode_off :: u32
  dir_ent_fname_off :: u32
  sb_dev :: int

record inode =
  i_mode :: u32
  i_size :: u32
  i_start_sect :: u32
  i_nr_sects :: u32
  i_dev :: int
  i_cnt :: int
  i_num :: int

record file_desc =
  fd_mode :: int
  fd_pos :: int
  fd_cnt :: int
  fd_inode :: "nat option"

record fs_state =
  fs_procs :: proc_tab
  fd_table :: "nat \<Rightarrow> file_desc"
  inode_table :: "nat \<Rightarrow> inode"
  super_blocks :: "nat \<Rightarrow> super_block"
  root_inode :: nat
  fs_sb :: super_block
  fsbuf :: buffer
  fs_disk :: "int \<Rightarrow> buffer"
  fs_mem :: "u32 \<Rightarrow> u8"
  fs_sent :: "(int \<times> MESSAGE) list"

definition zero_inode :: inode where
  "zero_inode = \<lparr>i_mode = 0, i_size = 0, i_start_sect = 0, i_nr_sects = 0, i_dev = 0, i_cnt = 0, i_num = 0\<rparr>"

definition zero_fd :: file_desc where
  "zero_fd = \<lparr>fd_mode = 0, fd_pos = 0, fd_cnt = 0, fd_inode = None\<rparr>"

definition upd_inode :: "nat \<Rightarrow> (inode \<Rightarrow> inode) \<Rightarrow> fs_state \<Rightarrow> fs_state" where
  "upd_inode i f st = st\<lparr>inode_table := (inode_table st)(i := f (inode_table st i))\<rparr>"

definition upd_fd :: "nat \<Rightarrow> (file_desc \<Rightarrow> file_desc) \<Rightarrow> fs_state \<Rightarrow> fs_state" where
  "upd_fd k f st = st\<lparr>fd_table := (fd_table st)(k := f (fd_table st k))\<rparr>"

definition set_filp :: "int \<Rightarrow> nat \<Rightarrow> nat option \<Rightarrow> fs_state \<Rightarrow> fs_state" where
  "set_filp p fd v st =
     st\<lparr>fs_procs := (fs_procs st)(p := (fs_procs st p)\<lparr>filp := (filp (fs_procs st p))(fd := v)\<rparr>)\<rparr>"

section \<open>Sectors\<close>

definition driver_of :: "int \<Rightarrow> int res" where
  "driver_of dev =
     (if MAJOR dev < int (length dd_map) then
        res_bind (assert_c (dd_map ! nat (MAJOR dev) \<noteq> INVALID_DRIVER) ''driver_nr != INVALID_DRIVER'') (\<lambda>_.
        Inr (dd_map ! nat (MAJOR dev)))
      else Inl (BadAccess ''dd_map''))"

text \<open>
  The effect of a request on the disk driver: positions are multiples of the sector size, more than
  256 sectors at once, or a part of a sector to write, make it hang or panic. No other driver moves sectors.
\<close>

definition disk_rw :: "int \<Rightarrow> int \<Rightarrow> int \<Rightarrow> int \<Rightarrow> fs_state \<Rightarrow> fs_state res" where
  "disk_rw io minor pos bytes st =
     (if pos < 0 \<or> bytes < 0 then Inl (BadAccess ''disk'')
      else if pos mod 512 \<noteq> 0 then Inl (AssertFail ''(pos & 0x1ff) == 0'')
      else if bytes > 131072 then Inl (if io = DEV_READ then Hang else Panic ''hd writing error!'')
      else if io \<noteq> DEV_READ \<and> bytes mod 512 \<noteq> 0 then Inl Hang
      else if io = DEV_READ then Inr (st\<lparr>fsbuf := copy_range (fs_disk st minor) (nat pos) (fsbuf st) 0 (nat bytes)\<rparr>)
      else Inr (st\<lparr>fs_disk := (fs_disk st)(minor := copy_range (fsbuf st) 0 (fs_disk st minor) (nat pos) (nat bytes))\<rparr>))"

text \<open>The request as the driver gets it; the other fields of the message are whatever the stack holds.\<close>

definition rw_msg :: "MESSAGE \<Rightarrow> int \<Rightarrow> int \<Rightarrow> int \<Rightarrow> int \<Rightarrow> MESSAGE" where
  "rw_msg junk io dev pos bytes = junk\<lparr>mtype := io, m3i4 := MINOR dev, m3l1 := of_int pos, m3i2 := bytes, m3i3 := TASK_FS, m3p2 := 0x600000\<rparr>"

definition rw_sector :: "int \<Rightarrow> int \<Rightarrow> int \<Rightarrow> int \<Rightarrow> fs_state \<Rightarrow> fs_state res" where
  "rw_sector io dev pos bytes st =
     res_bind (driver_of dev) (\<lambda>d.
     if d = TASK_HD then disk_rw io (MINOR dev) pos bytes st else Inl (BadAccess ''driver''))"

definition RD_SECT :: "int \<Rightarrow> int \<Rightarrow> fs_state \<Rightarrow> fs_state res" where
  "RD_SECT dev sect_nr st = rw_sector DEV_READ dev (sect_nr * SECTOR_SIZE) SECTOR_SIZE st"

definition WR_SECT :: "int \<Rightarrow> int \<Rightarrow> fs_state \<Rightarrow> fs_state res" where
  "WR_SECT dev sect_nr st = rw_sector DEV_WRITE dev (sect_nr * SECTOR_SIZE) SECTOR_SIZE st"

definition fill_fsbuf :: "u8 \<Rightarrow> fs_state \<Rightarrow> fs_state" where
  "fill_fsbuf b st = st\<lparr>fsbuf := buf_write 0 (replicate 512 b) (fsbuf st)\<rparr>"

section \<open>Super blocks\<close>

definition super_words :: "super_block \<Rightarrow> u32 list" where
  "super_words s = [magic s, nr_inodes s, sb_nr_sects s, nr_imap_sects s, nr_smap_sects s, n_1st_sect s, nr_inode_sects s,
     sb_root_inode s, inode_size s, inode_iszie_off s, inode_start_off s, dir_ent_size s, dir_ent_inode_off s, dir_ent_fname_off s,
     of_int (sb_dev s)]"

definition super_block_at :: "buffer \<Rightarrow> super_block" where
  "super_block_at f = \<lparr>magic = buf_word f 0, nr_inodes = buf_word f 4, sb_nr_sects = buf_word f 8, nr_imap_sects = buf_word f 12,
     nr_smap_sects = buf_word f 16, n_1st_sect = buf_word f 20, nr_inode_sects = buf_word f 24, sb_root_inode = buf_word f 28,
     inode_size = buf_word f 32, inode_iszie_off = buf_word f 36, inode_start_off = buf_word f 40, dir_ent_size = buf_word f 44,
     dir_ent_inode_off = buf_word f 48, dir_ent_fname_off = buf_word f 52, sb_dev = sint (buf_word f 56)\<rparr>"

fun free_super :: "(nat \<Rightarrow> super_block) \<Rightarrow> nat list \<Rightarrow> nat" where
  "free_super s [] = NR_SUPER_BLOCK"
| "free_super s (i # is) = (if sb_dev (s i) = NO_DEV then i else free_super s is)"

definition read_super_block :: "int \<Rightarrow> fs_state \<Rightarrow> fs_state res" where
  "read_super_block dev st =
     res_bind (rw_sector DEV_READ dev SECTOR_SIZE SECTOR_SIZE st) (\<lambda>st1.
     let i = free_super (super_blocks st1) [0..<NR_SUPER_BLOCK]
     in if i \<ge> NR_SUPER_BLOCK then Inl (Panic ''super_block slots used up'')
        else res_bind (assert_c (i = 0) ''i == 0'') (\<lambda>_.
          Inr (st1\<lparr>super_blocks := (super_blocks st1)(i := (super_block_at (fsbuf st1))\<lparr>sb_dev := dev\<rparr>)\<rparr>)))"

text \<open>
  \<^verbatim>\<open>get_super_block\<close> assigns \<^verbatim>\<open>dev\<close> to \<^verbatim>\<open>sb_dev\<close> where it means to compare: the first entry is always taken.
\<close>

definition get_super_block :: "int \<Rightarrow> fs_state \<Rightarrow> (super_block \<times> fs_state) res" where
  "get_super_block dev st =
     (if dev \<noteq> 0 then
        let s = (super_blocks st 0)\<lparr>sb_dev := dev\<rparr> in Inr (s, st\<lparr>super_blocks := (super_blocks st)(0 := s)\<rparr>)
      else Inl (Panic ''super block of dev is not found''))"

section \<open>Inodes\<close>

fun find_inode :: "(nat \<Rightarrow> inode) \<Rightarrow> int \<Rightarrow> int \<Rightarrow> nat list \<Rightarrow> nat option \<Rightarrow> nat option \<times> nat option" where
  "find_inode t dev n [] q = (None, q)"
| "find_inode t dev n (p # ps) q =
     (if i_cnt (t p) \<noteq> 0 then
        if i_dev (t p) = dev \<and> i_num (t p) = n then (Some p, q) else find_inode t dev n ps q
      else find_inode t dev n ps (if q = None then Some p else q))"

text \<open>The sector of an inode and its offset in the sector.\<close>

definition inode_sect :: "super_block \<Rightarrow> int \<Rightarrow> int" where
  "inode_sect s inode_nr =
     sint (((1 + 1 + nr_imap_sects s) + nr_smap_sects s) + of_int (((inode_nr - 1) * INODE_SIZE) sdiv SECTOR_SIZE))"

definition inode_off :: "int \<Rightarrow> int" where
  "inode_off inode_nr = ((inode_nr - 1) smod (SECTOR_SIZE sdiv INODE_SIZE)) * INODE_SIZE"

definition load_inode :: "buffer \<Rightarrow> nat \<Rightarrow> inode \<Rightarrow> inode" where
  "load_inode f a p = p\<lparr>i_mode := buf_word f a, i_size := buf_word f (a + 4), i_start_sect := buf_word f (a + 8),
     i_nr_sects := buf_word f (a + 12)\<rparr>"

definition store_inode :: "inode \<Rightarrow> nat \<Rightarrow> buffer \<Rightarrow> buffer" where
  "store_inode p a f = buf_set (a + 12) (i_nr_sects p) (buf_set (a + 8) (i_start_sect p) (buf_set (a + 4) (i_size p) (buf_set a (i_mode p) f)))"

definition get_inode :: "int \<Rightarrow> int \<Rightarrow> fs_state \<Rightarrow> (nat \<times> fs_state) res" where
  "get_inode dev inode_nr st =
     (case find_inode (inode_table st) dev inode_nr [0..<NR_INODE] None of
        (Some p, _) \<Rightarrow> Inr (p, upd_inode p (\<lambda>x. x\<lparr>i_cnt := i_cnt x + 1\<rparr>) st)
      | (None, None) \<Rightarrow> Inl (Panic ''invalid inode'')
      | (None, Some q) \<Rightarrow>
          let st1 = upd_inode q (\<lambda>x. x\<lparr>i_dev := dev, i_num := inode_nr, i_cnt := 1\<rparr>) st
          in res_bind (get_super_block dev st1) (\<lambda>(s, st2).
             res_bind (RD_SECT dev (inode_sect s inode_nr) st2) (\<lambda>st3.
             if inode_off inode_nr < 0 then Inl (BadAccess ''fsbuf'')
             else Inr (q, upd_inode q (load_inode (fsbuf st3) (nat (inode_off inode_nr))) st3))))"

definition put_inode :: "nat \<Rightarrow> fs_state \<Rightarrow> fs_state res" where
  "put_inode p st =
     res_bind (assert_c (i_cnt (inode_table st p) > 0) ''pNode->i_cnt > 0'') (\<lambda>_.
     Inr (upd_inode p (\<lambda>x. x\<lparr>i_cnt := i_cnt x - 1\<rparr>) st))"

definition sync_inode :: "nat \<Rightarrow> fs_state \<Rightarrow> fs_state res" where
  "sync_inode p st =
     (let inode_nr = i_num (inode_table st p); dev = i_dev (inode_table st p)
      in res_bind (get_super_block dev st) (\<lambda>(s, st1).
         res_bind (RD_SECT dev (inode_sect s inode_nr) st1) (\<lambda>st2.
         if inode_off inode_nr < 0 then Inl (BadAccess ''fsbuf'')
         else WR_SECT dev (inode_sect s inode_nr)
                (st2\<lparr>fsbuf := store_inode (inode_table st2 p) (nat (inode_off inode_nr)) (fsbuf st2)\<rparr>))))"

section \<open>Making a file system\<close>

text \<open>
  The request for the place and size of the partition, with the address of \<^verbatim>\<open>geo\<close>; \<^verbatim>\<open>PROC_NR\<close>, which tells the driver
  whose memory it is an address of, is whatever the stack holds. The answer as it stands in memory.
\<close>

definition geo_msg :: "MESSAGE \<Rightarrow> u32 \<Rightarrow> MESSAGE" where
  "geo_msg junk buf = junk\<lparr>mtype := DEV_IOCTL, m3i2 := 1, m3p2 := buf, m3i4 := MINOR ROOT_DEV\<rparr>"

definition geo_at :: "(u32 \<Rightarrow> u8) \<Rightarrow> u32 \<Rightarrow> part_info" where
  "geo_at m a = \<lparr>pbase = word_of (mem_bytes m a 4), psize = word_of (mem_bytes m (a + 4) 4)\<rparr>"

text \<open>
  \<open>geo\<close> is what \<^verbatim>\<open>set_superblock\<close> finds in its variable after the exchange of that message with the driver: the partition in
  the driver's table when the message happens to name a process with the file system's segments (lemma \<open>geo_reply\<close> of
  \<^verbatim>\<open>Files\<close>), and what was there before when it does not. What \<^verbatim>\<open>set_superblock\<close> does not assign keeps the value of \<^verbatim>\<open>sb\<close>.\<close>

definition set_superblock :: "part_info \<Rightarrow> fs_state \<Rightarrow> fs_state res" where
  "set_superblock geo st =
     (let s = (fs_sb st)\<lparr>magic := MAGIC_V1, nr_inodes := 4096, sb_nr_sects := psize geo, nr_imap_sects := 1,
                nr_smap_sects := psize geo div 4096 + 1, nr_inode_sects := 4096 * 32 div 512,
                n_1st_sect := 1 + 1 + 1 + (psize geo div 4096 + 1) + 4096 * 32 div 512, sb_root_inode := 1, inode_size := 32,
                inode_iszie_off := 4, inode_start_off := 8, dir_ent_inode_off := 0, dir_ent_fname_off := 4\<rparr>;
          st1 = fill_fsbuf 0xF0 (st\<lparr>fs_sb := s\<rparr>)
      in WR_SECT ROOT_DEV 1 (st1\<lparr>fsbuf := buf_write 0 (concat (map bytes_of (super_words s))) (fsbuf st1)\<rparr>))"

definition set_imap :: "fs_state \<Rightarrow> fs_state res" where
  "set_imap st =
     (let st1 = fill_fsbuf 0 st
      in WR_SECT ROOT_DEV 2 (st1\<lparr>fsbuf := (fsbuf st1)(0 := 0x3F)\<rparr>))"

text \<open>Setting bits one by one in the sector map, writing back a sector that is complete.\<close>

fun smap_mark :: "nat \<Rightarrow> nat \<Rightarrow> nat \<Rightarrow> int \<Rightarrow> int \<Rightarrow> fs_state \<Rightarrow> fs_state res" where
  "smap_mark 0 k byte blk0 sect st = WR_SECT ROOT_DEV (blk0 + sect) st"
| "smap_mark (Suc bit_left) k byte blk0 sect st =
     (let st1 = st\<lparr>fsbuf := (fsbuf st)(byte := fsbuf st byte OR push_bit k 1)\<rparr>
      in if k + 1 = 8 then
           if byte + 1 = 512 then
             res_bind (WR_SECT ROOT_DEV (blk0 + sect) st1) (\<lambda>st2.
             res_bind (RD_SECT ROOT_DEV (blk0 + (sect + 1)) st2) (\<lambda>st3.
             smap_mark bit_left 0 0 blk0 (sect + 1) st3))
           else smap_mark bit_left 0 (byte + 1) blk0 sect st1
         else smap_mark bit_left (k + 1) byte blk0 sect st1)"

fun clear_sects :: "int list \<Rightarrow> fs_state \<Rightarrow> fs_state res" where
  "clear_sects [] st = Inr st"
| "clear_sects (n # ns) st = res_bind (WR_SECT ROOT_DEV n st) (clear_sects ns)"

definition set_smap :: "fs_state \<Rightarrow> fs_state res" where
  "set_smap st =
     (let s = fs_sb st; blk0 = 2 + uint (nr_imap_sects s); st1 = fill_fsbuf 0 st;
          st2 = st1\<lparr>fsbuf := (buf_write 0 (replicate 256 0xFF) (fsbuf st1))(256 := fsbuf st1 256 OR 1)\<rparr>
      in res_bind (WR_SECT ROOT_DEV blk0 st2) (\<lambda>st3.
         res_bind (clear_sects (map (\<lambda>i. blk0 + i) [1..uint (nr_smap_sects s) - 1]) (fill_fsbuf 0 st3)) (\<lambda>st4.
         let bit_off = sint (INSTALL_START_SECT - n_1st_sect s + 1)
         in if bit_off < 0 then Inl (BadAccess ''fsbuf'')
            else let bit_off_in_byte = nat (bit_off mod 8); sect_beg = bit_off div 8 div 512; byte_off_in_sect = nat (bit_off div 8 mod 512)
                 in res_bind (RD_SECT ROOT_DEV (blk0 + sect_beg) st4) (\<lambda>st5.
                    smap_mark 0x800 bit_off_in_byte byte_off_in_sect blk0 sect_beg st5))))"

definition inode_bytes :: "u32 \<Rightarrow> u32 \<Rightarrow> u32 \<Rightarrow> u32 \<Rightarrow> u8 list" where
  "inode_bytes mode isize start n = concat (map bytes_of [mode, isize, start, n])"

definition set_inode_array :: "fs_state \<Rightarrow> fs_state res" where
  "set_inode_array st =
     (let s = fs_sb st; st1 = fill_fsbuf 0 st;
          f0 = buf_write 0 (inode_bytes I_DIRECTORY (5 * 16) (n_1st_sect s) NR_DEFAULT_FILE_SECTS) (fsbuf st1);
          f1 = fold (\<lambda>i. buf_write ((i + 1) * 32) (inode_bytes I_CHAR_SPECIAL 0 (of_int (MAKE_DEV DEV_CHAR_TTY (int i))) 0)) [0, 1, 2] f0;
          f2 = buf_write (4 * 32) (inode_bytes I_REGULAR (INSTALL_NR_SECTS * 512) INSTALL_START_SECT INSTALL_NR_SECTS) f1
      in WR_SECT ROOT_DEV (2 + uint (nr_imap_sects s) + uint (nr_smap_sects s)) (st1\<lparr>fsbuf := f2\<rparr>))"

text \<open>A string in memory, with its terminating zero; the names of the first files.\<close>

definition c_bytes :: "string \<Rightarrow> u8 list" where
  "c_bytes s = map of_char s"

definition tty_name :: "nat \<Rightarrow> string" where
  "tty_name i = ''dev_tty'' @ [char_of (48 + i)]"

definition dirent_bytes :: "int \<Rightarrow> u8 list \<Rightarrow> u8 list" where
  "dirent_bytes n name = bytes_of (of_int n) @ name"

definition set_root_de :: "fs_state \<Rightarrow> fs_state res" where
  "set_root_de st =
     (let st1 = fill_fsbuf 0 st;
          f0 = buf_write 0 (dirent_bytes ROOT_INODE (c_bytes ''.'' @ [0])) (fsbuf st1);
          f1 = fold (\<lambda>i. buf_write (16 * (i + 1)) (dirent_bytes (int i + 2) (c_bytes (tty_name i)))) [0, 1, 2] f0;
          f2 = buf_write (16 * 4) (dirent_bytes 5 (c_bytes ''cmd.tar'')) f1
      in WR_SECT ROOT_DEV (uint (n_1st_sect (fs_sb st))) (st1\<lparr>fsbuf := f2\<rparr>))"

definition mkfs :: "part_info \<Rightarrow> fs_state \<Rightarrow> fs_state res" where
  "mkfs geo st =
     res_bind (set_superblock geo st) (\<lambda>st1.
     res_bind (set_imap st1) (\<lambda>st2.
     res_bind (set_smap st2) (\<lambda>st3.
     res_bind (set_inode_array st3) set_root_de)))"

definition fs_send :: "int \<Rightarrow> MESSAGE \<Rightarrow> fs_state \<Rightarrow> fs_state" where
  "fs_send dst m st = st\<lparr>fs_sent := fs_sent st @ [(dst, m)]\<rparr>"

definition init_fs :: "part_info \<Rightarrow> MESSAGE \<Rightarrow> fs_state \<Rightarrow> fs_state res" where
  "init_fs geo junk st =
     (let st1 = st\<lparr>fd_table := (\<lambda>i. if i < NR_FILE_DESC then zero_fd else fd_table st i),
                    inode_table := (\<lambda>i. if i < NR_INODE then zero_inode else inode_table st i),
                    super_blocks := (\<lambda>i. if i < NR_SUPER_BLOCK then (super_blocks st i)\<lparr>sb_dev := NO_DEV\<rparr> else super_blocks st i)\<rparr>;
          st2 = fs_send TASK_HD (junk\<lparr>mtype := DEV_OPEN, m3i4 := MINOR ROOT_DEV\<rparr>) st1
      in res_bind (RD_SECT ROOT_DEV 1 st2) (\<lambda>st3.
         res_bind (if magic (super_block_at (fsbuf st3)) \<noteq> MAGIC_V1 then mkfs geo st3 else Inr st3) (\<lambda>st4.
         res_bind (read_super_block ROOT_DEV st4) (\<lambda>st5.
         res_bind (get_super_block ROOT_DEV st5) (\<lambda>(s, st6).
         res_bind (assert_c (magic s = MAGIC_V1) ''sb->magic == MAGIC_V1'') (\<lambda>_.
         res_bind (get_inode ROOT_DEV ROOT_INODE st6) (\<lambda>(r, st7).
         Inr (st7\<lparr>root_inode := r\<rparr>))))))))"

section \<open>Processes that begin and end\<close>

text \<open>A descriptor without an inode would be a null pointer.\<close>

definition fork_fd :: "int \<Rightarrow> nat \<Rightarrow> fs_state \<Rightarrow> fs_state res" where
  "fork_fd p i st =
     (case filp (fs_procs st p) i of
        None \<Rightarrow> Inr st
      | Some k \<Rightarrow>
          (case fd_inode (fd_table st k) of
             None \<Rightarrow> Inl (BadAccess ''fd_inode'')
           | Some n \<Rightarrow> Inr (upd_inode n (\<lambda>x. x\<lparr>i_cnt := i_cnt x + 1\<rparr>) (upd_fd k (\<lambda>x. x\<lparr>fd_cnt := fd_cnt x + 1\<rparr>) st))))"

definition exit_fd :: "int \<Rightarrow> nat \<Rightarrow> fs_state \<Rightarrow> fs_state res" where
  "exit_fd p i st =
     (case filp (fs_procs st p) i of
        None \<Rightarrow> Inr st
      | Some k \<Rightarrow>
          (case fd_inode (fd_table st k) of
             None \<Rightarrow> Inl (BadAccess ''fd_inode'')
           | Some n \<Rightarrow>
               let st1 = upd_inode n (\<lambda>x. x\<lparr>i_cnt := i_cnt x - 1\<rparr>) st;
                   st2 = upd_fd k (\<lambda>x. x\<lparr>fd_cnt := fd_cnt x - 1\<rparr>) st1;
                   st3 = (if fd_cnt (fd_table st2 k) = 0 then upd_fd k (\<lambda>x. x\<lparr>fd_inode := None\<rparr>) st2 else st2)
               in Inr (set_filp p i None st3)))"

fun each_fd :: "(nat \<Rightarrow> fs_state \<Rightarrow> fs_state res) \<Rightarrow> nat list \<Rightarrow> fs_state \<Rightarrow> fs_state res" where
  "each_fd f [] st = Inr st"
| "each_fd f (i # is) st = res_bind (f i st) (each_fd f is)"

definition fs_fork :: "MESSAGE \<Rightarrow> fs_state \<Rightarrow> fs_state res" where
  "fs_fork msg st = (if \<not> valid_pid (PID msg) then Inl (BadAccess ''proc_table'') else each_fd (fork_fd (PID msg)) [0..<NR_FILES] st)"

definition fs_exit :: "MESSAGE \<Rightarrow> fs_state \<Rightarrow> fs_state res" where
  "fs_exit msg st = (if \<not> valid_pid (PID msg) then Inl (BadAccess ''proc_table'') else each_fd (exit_fd (PID msg)) [0..<NR_FILES] st)"

end
