(* ===== verification/Diagnostics.thy ===== *)
theory Diagnostics
  imports Tty Lib Hd Fs
begin

text \<open>
  What the kernel prints when something goes wrong: writing strings and numbers directly to the video memory
  (\<^verbatim>\<open>disp_str\<close> of \<^verbatim>\<open>lib/kliba.asm\<close>, \<^verbatim>\<open>disp_int\<close>), the report of an exception (\<^verbatim>\<open>kernel/protect.c\<close>), and the kernel's
  messages (\<^verbatim>\<open>printl\<close>, \<^verbatim>\<open>panic\<close>, \<^verbatim>\<open>assertion_failure\<close>, \<^verbatim>\<open>spin\<close>), which end in \<^verbatim>\<open>sys_printx\<close>. It also shows why a failed
  assertion and a panic are values from which nothing returns.
\<close>

section \<open>The first screen\<close>

text \<open>
  The position \<^verbatim>\<open>disp_pos\<close> counts bytes. A line feed divides the low half of the position by 160 with an 8-bit
  quotient, which is a divide error when it does not fit, and multiplies the low byte of the next line number. A
  character beyond the 64 kilobytes of the video segment is a protection fault.
\<close>

fun disp_loop :: "string \<Rightarrow> u8 \<Rightarrow> int \<times> screen \<Rightarrow> (int \<times> screen) res" where
  "disp_loop [] color d = Inr d"
| "disp_loop (c # rest) color (pos, s) =
     (if c = chr 0x0A then
        (let q = pos mod 0x10000 div 160
         in if q > 0xFF then Inl (BadAccess ''div'') else disp_loop rest color ((q + 1) mod 0x100 * 160, s))
      else if pos > 0xFFFE then Inl (BadAccess ''gs'')
      else disp_loop rest color (pos + 2, s\<lparr>vmem := (vmem s)(V_MEM_BASE + of_int pos := of_char c, V_MEM_BASE + of_int pos + 1 := color)\<rparr>))"

definition disp_color_str :: "string \<Rightarrow> u8 \<Rightarrow> int \<times> screen \<Rightarrow> (int \<times> screen) res" where
  "disp_color_str info color d = disp_loop info color d"

definition disp_str :: "string \<Rightarrow> int \<times> screen \<Rightarrow> (int \<times> screen) res" where
  "disp_str info d = disp_loop info 0x0F d"

definition disp_int :: "int \<Rightarrow> int \<times> screen \<Rightarrow> (int \<times> screen) res" where
  "disp_int input d = disp_str (itoa input) d"

fun disp_spaces :: "nat \<Rightarrow> int \<times> screen \<Rightarrow> (int \<times> screen) res" where
  "disp_spaces 0 d = Inr d"
| "disp_spaces (Suc n) d = res_bind (disp_str '' '' d) (disp_spaces n)"

definition clear_lines :: "nat \<Rightarrow> int \<times> screen \<Rightarrow> (int \<times> screen) res" where
  "clear_lines n d = res_bind (disp_spaces (80 * n) (0, snd d)) (\<lambda>d1. Inr (0, snd d1))"

definition spurious_irq :: "int \<Rightarrow> int \<times> screen \<Rightarrow> (int \<times> screen) res" where
  "spurious_irq irq d = res_bind (disp_str ''spurious_irq: '' d) (\<lambda>d1. res_bind (disp_int irq d1) (disp_str [chr 0x0A]))"

section \<open>Exceptions\<close>

text \<open>The texts; the dash in two of them is three bytes of UTF-8.\<close>

definition err_msg :: "string list" where
  "err_msg = [''#DE Divide Error'', ''#DB RESERVED'', [chr 0xE2, chr 0x80, chr 0x94] @ ''  NMI Interrupt'', ''#BP Breakpoint'', ''#OF Overflow'',
     ''#BR BOUND Range Exceeded'', ''#UD Invalid Opcode (Undefined Opcode)'', ''#NM Device Not Available (No Math Coprocessor)'',
     ''#DF Double Fault'', ''    Coprocessor Segment Overrun (reserved)'', ''#TS Invalid TSS'', ''#NP Segment Not Present'',
     ''#SS Stack-Segment Fault'', ''#GP General Protection'', ''#PF Page Fault'', [chr 0xE2, chr 0x80, chr 0x94] @ ''  (Intel reserved. Do not use.)'',
     ''#MF x87 FPU Floating-Point Error (Math Fault)'', ''#AC Alignment Check'', ''#MC Machine Check'', ''#XF SIMD Floating-Point Exception'']"

text \<open>The second part of the report: the registers, below two line feeds.\<close>

definition report_regs :: "int \<Rightarrow> int \<Rightarrow> int \<Rightarrow> int \<Rightarrow> int \<times> screen \<Rightarrow> (int \<times> screen) res" where
  "report_regs err_code eip_reg cs_reg eflags_reg d4 =
       res_bind (disp_color_str ''EFLAGS:'' 0x74 d4) (\<lambda>d5.
       res_bind (disp_int eflags_reg d5) (\<lambda>d6.
       res_bind (disp_color_str ''CS:'' 0x74 d6) (\<lambda>d7.
       res_bind (disp_int cs_reg d7) (\<lambda>d8.
       res_bind (disp_color_str ''EIP:'' 0x74 d8) (\<lambda>d9.
       res_bind (disp_int eip_reg d9) (\<lambda>d10.
       if (of_int err_code :: u32) \<noteq> 0xFFFFFFFF
       then res_bind (disp_color_str ''Error code:'' 0x74 d10) (disp_int err_code)
       else Inr d10))))))"

definition exception_handler :: "int \<Rightarrow> int \<Rightarrow> int \<Rightarrow> int \<Rightarrow> int \<Rightarrow> int \<times> screen \<Rightarrow> (int \<times> screen) res" where
  "exception_handler vec_no err_code eip_reg cs_reg eflags_reg d =
     res_bind (clear_lines 5 d) (\<lambda>d1.
     if vec_no < 0 \<or> vec_no \<ge> int (length err_msg) then Inl (BadAccess ''err_msg'')
     else
       res_bind (disp_color_str ''Exception! --> '' 0x74 d1) (\<lambda>d2.
       res_bind (disp_color_str (err_msg ! nat vec_no) 0x74 d2) (\<lambda>d3.
       res_bind (disp_color_str [chr 0x0A, chr 0x0A] 0x74 d3) (\<lambda>d4.
       report_regs err_code eip_reg cs_reg eflags_reg d4))))"

section \<open>Messages of the kernel\<close>

text \<open>
  \<^verbatim>\<open>printl\<close> formats into 256 bytes and prints the string up to its first zero byte; what \<^verbatim>\<open>vsprintf\<close> stores and the
  zero it adds have to fit. \<open>reenter\<close> is \<^verbatim>\<open>k_reenter\<close> and
  \<open>current\<close> the number of the running process. \<^verbatim>\<open>panic\<close> formats into an array on its stack without ending the
  string: \<open>junk\<close> are the bytes behind it up to the first zero.
\<close>

definition printl :: "int \<Rightarrow> int \<Rightarrow> string \<Rightarrow> fmt_arg list \<Rightarrow> tty_state \<Rightarrow> tty_state res" where
  "printl reenter current fmt args st =
     res_bind (vsprintf fmt args) (\<lambda>(s, len).
     if length s > 256 \<or> len > 255 then Inl (BadAccess ''buf'')
     else sys_printx reenter current (takeWhile (\<lambda>b. b \<noteq> 0) (c_bytes (take len s))) st)"

definition panic :: "int \<Rightarrow> int \<Rightarrow> string \<Rightarrow> string \<Rightarrow> fmt_arg list \<Rightarrow> tty_state \<Rightarrow> tty_state res" where
  "panic reenter current junk fmt args st =
     res_bind (vsprintf fmt args) (\<lambda>(s, len).
     if length s > 256 then Inl (BadAccess ''buf'')
     else printl reenter current ''%c !!panic!! %s'' [CharArg (chr 2), StrArg (takeWhile (\<lambda>c. c \<noteq> chr 0) (s @ junk))] st)"

definition spin :: "int \<Rightarrow> int \<Rightarrow> string \<Rightarrow> tty_state \<Rightarrow> tty_state res" where
  "spin reenter current func_name st =
     res_bind (printl reenter current ([chr 0x0A] @ ''spinning in %s......'' @ [chr 0x0A]) [StrArg func_name] st) (\<lambda>_. Inl Hang)"

definition assertion_failure :: "int \<Rightarrow> int \<Rightarrow> string \<Rightarrow> string \<Rightarrow> string \<Rightarrow> int \<Rightarrow> tty_state \<Rightarrow> tty_state res" where
  "assertion_failure reenter current expr file base_file line st =
     res_bind (printl reenter current ''%c assert(%s) failed:file:%s,base_file:%s,ln:%d''
       [CharArg (chr 3), StrArg expr, StrArg file, StrArg base_file, IntArg line] st) (spin reenter current ''assertion_failure()'')"

text \<open>
  The listing of the partitions of the drive, primary and then logical. The numbers go to \<^verbatim>\<open>%d\<close> and \<^verbatim>\<open>%x\<close> as signed
  integers.
\<close>

definition print_part :: "int \<Rightarrow> int \<Rightarrow> string \<Rightarrow> nat \<Rightarrow> part_info \<Rightarrow> tty_state \<Rightarrow> tty_state res" where
  "print_part reenter current indent i p =
     printl reenter current (''%sPart_%d: base %d(0x%x), size %d(0x%x)(in sector)'' @ [chr 0x0A])
       [StrArg indent, IntArg (int i), IntArg (sint (pbase p)), IntArg (sint (pbase p)), IntArg (sint (psize p)), IntArg (sint (psize p))]"

fun print_parts :: "int \<Rightarrow> int \<Rightarrow> (nat \<Rightarrow> string) \<Rightarrow> (nat \<Rightarrow> part_info) \<Rightarrow> nat list \<Rightarrow> tty_state \<Rightarrow> tty_state res" where
  "print_parts reenter current indent parts [] st = Inr st"
| "print_parts reenter current indent parts (i # rest) st =
     res_bind (print_part reenter current (indent i) i (parts i) st) (print_parts reenter current indent parts rest)"

definition print_hdinfo :: "int \<Rightarrow> int \<Rightarrow> hd_info \<Rightarrow> tty_state \<Rightarrow> tty_state res" where
  "print_hdinfo reenter current h st =
     res_bind (print_parts reenter current (\<lambda>i. if i = 0 then '' '' else ''     '') (primary h) [0..<nat NR_PRIM_PER_DRIVE] st)
       (print_parts reenter current (\<lambda>_. ''         '') (logical h) (filter (\<lambda>i. psize (logical h i) \<noteq> 0) [0..<nat NR_SUB_PER_DRIVE]))"

section \<open>What they show\<close>

text \<open>The bytes of a string on the screen.\<close>

definition cell_bytes :: "string \<Rightarrow> u8 \<Rightarrow> u8 list" where
  "cell_bytes s color = concat (map (\<lambda>c. [of_char c, color]) s)"

lemma length_cell_bytes [simp]: "length (cell_bytes s color) = 2 * length s"
  by (induction s) (simp_all add: cell_bytes_def)

lemma disp_loop_line:
  assumes "chr 0x0A \<notin> set s" "pos + 2 * int (length s) \<le> 0xFFFF"
  shows "disp_loop s color (pos, sc) =
    Inr (pos + 2 * int (length s), sc\<lparr>vmem := write_bytes (V_MEM_BASE + of_int pos) (cell_bytes s color) (vmem sc)\<rparr>)"
  using assms
proof (induction s arbitrary: pos sc)
  case (Cons c s)
  then show ?case
    by (auto simp: cell_bytes_def add.assoc)
qed (simp add: cell_bytes_def)

text \<open>
  \<open>prints lo hi k f\<close>: started inside the bytes from \<open>lo\<close> to \<open>hi\<close> of the video memory with room for \<open>k\<close> characters, \<open>f\<close>
  returns, moves on by at most \<open>k\<close> characters and changes only these bytes.
\<close>

definition shown :: "int \<Rightarrow> int \<Rightarrow> screen \<Rightarrow> screen \<Rightarrow> bool" where
  "shown lo hi sc sc' \<longleftrightarrow> crtc sc' = crtc sc \<and> (\<forall>a. uint (a - V_MEM_BASE) < lo \<or> hi \<le> uint (a - V_MEM_BASE) \<longrightarrow> vmem sc' a = vmem sc a)"

definition prints :: "int \<Rightarrow> int \<Rightarrow> int \<Rightarrow> (int \<times> screen \<Rightarrow> (int \<times> screen) res) \<Rightarrow> bool" where
  "prints lo hi k f \<longleftrightarrow> (\<forall>pos sc. lo \<le> pos \<and> pos + 2 * k \<le> hi \<longrightarrow>
     (\<exists>pos' sc'. f (pos, sc) = Inr (pos', sc') \<and> pos \<le> pos' \<and> pos' \<le> pos + 2 * k \<and> shown lo hi sc sc'))"

lemma printsD:
  "prints lo hi k f \<Longrightarrow> lo \<le> pos \<Longrightarrow> pos + 2 * k \<le> hi \<Longrightarrow>
   \<exists>pos' sc'. f (pos, sc) = Inr (pos', sc') \<and> pos \<le> pos' \<and> pos' \<le> pos + 2 * k \<and> shown lo hi sc sc'"
  unfolding prints_def by blast

lemma shown_trans: "shown lo hi s1 s2 \<Longrightarrow> shown lo hi s2 s3 \<Longrightarrow> shown lo hi s1 s3"
  by (simp add: shown_def)

lemma prints_bind:
  assumes "prints lo hi j f" "prints lo hi k g" "0 \<le> j" "0 \<le> k"
  shows "prints lo hi (j + k) (\<lambda>d. res_bind (f d) g)"
  unfolding prints_def
proof (intro allI impI)
  fix pos sc assume pos: "lo \<le> pos \<and> pos + 2 * (j + k) \<le> hi"
  have "lo \<le> pos \<and> pos + 2 * j \<le> hi"
    using pos assms(4) by auto
  then obtain p1 s1 where 1: "f (pos, sc) = Inr (p1, s1)" "pos \<le> p1" "p1 \<le> pos + 2 * j" "shown lo hi sc s1"
    using assms(1) unfolding prints_def by blast
  then have "lo \<le> p1 \<and> p1 + 2 * k \<le> hi"
    using pos by auto
  then obtain p2 s2 where "g (p1, s1) = Inr (p2, s2)" "p1 \<le> p2" "p2 \<le> p1 + 2 * k" "shown lo hi s1 s2"
    using assms(2) unfolding prints_def by blast
  with 1 show "\<exists>pos' sc'. res_bind (f (pos, sc)) g = Inr (pos', sc') \<and> pos \<le> pos' \<and> pos' \<le> pos + 2 * (j + k) \<and> shown lo hi sc sc'"
    by (intro exI [of _ p2] exI [of _ s2]) (auto intro: shown_trans)
qed

lemma prints_return: "0 \<le> k \<Longrightarrow> prints lo hi k Inr"
  by (auto simp: prints_def shown_def)

lemma prints_disp:
  assumes "chr 0x0A \<notin> set s" "int (length s) \<le> k" "0 \<le> lo" "hi \<le> 0xFFFF"
  shows "prints lo hi k (disp_loop s color)"
  unfolding prints_def
proof (intro allI impI)
  fix pos sc assume pos: "lo \<le> pos \<and> pos + 2 * k \<le> hi"
  have out: "write_bytes (V_MEM_BASE + of_int pos) (cell_bytes s color) m a = m a"
    if "uint (a - V_MEM_BASE) < lo \<or> hi \<le> uint (a - V_MEM_BASE)" for a m
  proof (rule write_bytes_outside)
    fix i assume i: "i < length (cell_bytes s color)"
    show "a \<noteq> V_MEM_BASE + of_int pos + of_nat i"
    proof
      assume "a = V_MEM_BASE + of_int pos + of_nat i"
      then have "a - V_MEM_BASE = of_int (pos + int i)"
        by simp
      then have "uint (a - V_MEM_BASE) = pos + int i"
        using pos i assms by (simp only: uint_word_of_int) (simp add: take_bit_int_eq_self unsigned_of_int)
      then show False
        using that pos i assms(2) by auto
    qed
  qed
  have "pos + 2 * int (length s) \<le> 0xFFFF"
    using pos assms(2,4) by linarith
  from disp_loop_line [OF assms(1) this, of color sc]
  show "\<exists>pos' sc'. disp_loop s color (pos, sc) = Inr (pos', sc') \<and> pos \<le> pos' \<and> pos' \<le> pos + 2 * k \<and> shown lo hi sc sc'"
    using assms(2) out by (auto simp: shown_def)
qed

lemma chr_eq: "0 \<le> m \<Longrightarrow> m < 256 \<Longrightarrow> 0 \<le> n \<Longrightarrow> n < 256 \<Longrightarrow> chr m = chr n \<longleftrightarrow> m = n"
  using of_char_chr by metis

lemma itoa_digit_line: "chr 0x0A \<notin> set (itoa_digit n i)" "length (itoa_digit n i) \<le> 1"
proof -
  define t where "t = drop_bit i n AND 0xf"
  have "0 \<le> t" "t < 16"
    by (simp_all add: t_def AND_upper2' order.strict_trans1)
  then show "chr 0x0A \<notin> set (itoa_digit n i)" "length (itoa_digit n i) \<le> 1"
    by (simp_all add: itoa_digit_def Let_def chr_eq flip: t_def)
qed

lemma itoa_line: "chr 0x0A \<notin> set (itoa n)" "length (itoa n) \<le> 10"
proof -
  have "chr 0x0A \<notin> set ''0x0''"
    by (simp add: chr_def char_of_def)
  then show "chr 0x0A \<notin> set (itoa n)"
    using itoa_digit_line(1) by (auto simp: itoa_def)
  have "length (concat (map (itoa_digit n) xs)) \<le> length xs" for xs
  proof (induction xs)
    case (Cons x xs)
    then show ?case
      using itoa_digit_line(2) [of n x] by simp
  qed simp
  from this [of "[28, 24, 20, 16, 12, 8, 4, 0]"] show "length (itoa n) \<le> 10"
    by (simp add: itoa_def)
qed

lemma prints_int: "0 \<le> lo \<Longrightarrow> hi \<le> 0xFFFF \<Longrightarrow> prints lo hi 10 (disp_int n)"
  unfolding disp_int_def disp_str_def using itoa_line [of n] by (intro prints_disp) auto

lemma prints_spaces: "0 \<le> lo \<Longrightarrow> hi \<le> 0xFFFF \<Longrightarrow> prints lo hi (int n) (disp_spaces n)"
proof (induction n)
  case (Suc n)
  have "prints lo hi 1 (disp_str '' '')"
    unfolding disp_str_def using Suc.prems by (intro prints_disp) (simp_all add: chr_def char_of_def)
  from prints_bind [OF this Suc.IH [OF Suc.prems]] show ?case
    by (simp add: disp_spaces.simps(2) [abs_def])
qed (simp add: prints_return disp_spaces.simps(1) [abs_def])

lemma prints_lit:
  assumes "chr 0x0A \<notin> set s" "0 \<le> lo" "hi \<le> 0xFFFF"
  shows "prints lo hi (int (length s)) (disp_color_str s c)"
  using prints_disp [OF assms(1) order.refl assms(2,3)] by (simp add: disp_color_str_def [abs_def])

lemma prints_regs:
  assumes "0 \<le> lo" "hi \<le> 0xFFFF"
  shows "prints lo hi 65 (report_regs err_code ip sel fl)"
proof -
  have lit: "chr 0x0A \<notin> set ''EFLAGS:''" "chr 0x0A \<notin> set ''CS:''" "chr 0x0A \<notin> set ''EIP:''" "chr 0x0A \<notin> set ''Error code:''"
    by (simp_all add: chr_def char_of_def)
  note l = lit [THEN prints_lit [OF _ assms, where c = "0x74"]]
  note i = prints_int [OF assms]
  have "prints lo hi 21 (\<lambda>d. if (of_int err_code :: u32) \<noteq> 0xFFFFFFFF
       then res_bind (disp_color_str ''Error code:'' 0x74 d) (disp_int err_code) else Inr d)"
    using prints_bind [OF l(4) i] prints_return [of 21 lo hi] by (cases "word_of_int err_code = (0xFFFFFFFF :: u32)") simp_all
  from prints_bind [OF l(1) prints_bind [OF i [of fl] prints_bind [OF l(2) prints_bind [OF i [of sel] prints_bind [OF l(3) prints_bind [OF i [of ip] this]]]]]]
  show ?thesis
    by (simp add: report_regs_def [abs_def])
qed

lemma err_msg_line: "i < 20 \<Longrightarrow> chr 0x0A \<notin> set (err_msg ! i) \<and> length (err_msg ! i) \<le> 48"
proof -
  have "list_all (\<lambda>m. chr 0x0A \<notin> set m \<and> length m \<le> 48) err_msg" "length err_msg = 20"
    by (simp_all add: err_msg_def chr_def char_of_def)
  then show "i < 20 \<Longrightarrow> ?thesis"
    by (simp add: list_all_length)
qed

text \<open>The first line of the report.\<close>

lemma report_line:
  assumes "chr 0x0A \<notin> set s" "length s \<le> 48"
  shows "\<exists>sc'. res_bind (disp_color_str ''Exception! --> '' c (0, sc)) (\<lambda>d2. res_bind (disp_color_str s c d2) (\<lambda>d3. disp_color_str [chr 0x0A, chr 0x0A] c d3)) =
     Inr (320, sc') \<and> shown 0 160 sc sc' \<and> mem_bytes (vmem sc') V_MEM_BASE (2 * (15 + length s)) = cell_bytes (''Exception! --> '' @ s) c"
proof -
  let ?h = "''Exception! --> ''"
  define sc' where "sc' = sc\<lparr>vmem := write_bytes V_MEM_BASE (cell_bytes (?h @ s) c) (vmem sc)\<rparr>"
  have h: "chr 0x0A \<notin> set (?h @ s)" "int (length (?h @ s)) \<le> 80"
    using assms by (simp_all add: chr_def char_of_def)
  have w: "sc' = sc\<lparr>vmem := write_bytes (V_MEM_BASE + 30) (cell_bytes s c) (write_bytes V_MEM_BASE (cell_bytes ?h c) (vmem sc))\<rparr>"
    using write_bytes_append [of V_MEM_BASE "cell_bytes ?h c" "cell_bytes s c" "vmem sc"] by (simp add: sc'_def cell_bytes_def)
  have h1: "chr 0x0A \<notin> set ?h"
    using h(1) by simp
  have "disp_color_str ?h c (0, sc) = Inr (30, sc\<lparr>vmem := write_bytes V_MEM_BASE (cell_bytes ?h c) (vmem sc)\<rparr>)"
    using disp_loop_line [OF h1, of 0 c sc] by (simp add: disp_color_str_def)
  moreover have "disp_color_str s c (30, sc\<lparr>vmem := write_bytes V_MEM_BASE (cell_bytes ?h c) (vmem sc)\<rparr>) = Inr (30 + 2 * int (length s), sc')"
    using disp_loop_line [OF assms(1), of 30 c] assms(2) by (simp add: disp_color_str_def w)
  moreover have "disp_color_str [chr 0x0A, chr 0x0A] c (30 + 2 * int (length s), sc') = Inr (320, sc')"
  proof -
    have "(30 + 2 * int (length s)) mod 0x10000 div 160 = 0"
      using assms(2) by simp
    then show ?thesis
      by (simp add: disp_color_str_def)
  qed
  moreover have "mem_bytes (vmem sc') V_MEM_BASE (2 * (15 + length s)) = cell_bytes (?h @ s) c"
  proof -
    have n: "length (cell_bytes (?h @ s) c) = 2 * (15 + length s)" "2 * (15 + length s) \<le> 2 ^ 32"
      using assms(2) by simp_all
    have v: "vmem sc' = write_bytes V_MEM_BASE (cell_bytes (?h @ s) c) (vmem sc)"
      by (simp add: sc'_def)
    show ?thesis
      unfolding v by (rule mem_bytes_write_bytes [of "cell_bytes (?h @ s) c", unfolded n(1), OF n(2)])
  qed
  moreover have "shown 0 160 sc sc'"
    using printsD [OF prints_disp [OF h, of 0 160 c], of 0 sc] disp_loop_line [OF h(1), of 0 c sc] h(2) by (auto simp: sc'_def)
  ultimately show ?thesis
    by simp
qed

text \<open>
  The report of an exception: for each of the 20 vectors with a text, \<^verbatim>\<open>exception_handler\<close> returns, shows the text of the exception
  on the first line of the screen, and changes nothing but the five lines it has cleared.
\<close>
theorem exception_report:
  assumes "0 \<le> vec" "vec < 20"
  shows "\<exists>pos' sc'. exception_handler vec err_code ip sel fl (pos, sc) = Inr (pos', sc') \<and> pos' \<le> 450 \<and>
     (\<forall>a. 800 \<le> uint (a - V_MEM_BASE) \<longrightarrow> vmem sc' a = vmem sc a) \<and>
     mem_bytes (vmem sc') V_MEM_BASE (2 * (15 + length (err_msg ! nat vec))) = cell_bytes (''Exception! --> '' @ err_msg ! nat vec) 0x74"
proof -
  let ?s = "err_msg ! nat vec"
  have s: "chr 0x0A \<notin> set ?s" "length ?s \<le> 48" and n: "length err_msg = 20"
    using err_msg_line [of "nat vec"] assms by (simp_all add: err_msg_def)
  obtain p1 sc1 where 1: "disp_spaces 400 (0, sc) = Inr (p1, sc1)" "shown 0 800 sc sc1"
    using printsD [OF prints_spaces [of 0 800 400], of 0 sc] by auto
  obtain sc2 where 2: "res_bind (disp_color_str ''Exception! --> '' 0x74 (0, sc1)) (\<lambda>d2. res_bind (disp_color_str ?s 0x74 d2) (\<lambda>d3. disp_color_str [chr 0x0A, chr 0x0A] 0x74 d3)) =
      Inr (320, sc2)" "shown 0 160 sc1 sc2" "mem_bytes (vmem sc2) V_MEM_BASE (2 * (15 + length ?s)) = cell_bytes (''Exception! --> '' @ ?s) 0x74"
    using report_line [OF s, where c = "0x74" and sc = sc1] by blast
  obtain p3 sc3 where 3: "report_regs err_code ip sel fl (320, sc2) = Inr (p3, sc3)" "p3 \<le> 450" "shown 320 800 sc2 sc3"
    using printsD [OF prints_regs [of 320 800 err_code ip sel fl], of 320 sc2] by auto
  have "vmem sc3 (V_MEM_BASE + of_nat i) = vmem sc2 (V_MEM_BASE + of_nat i)" if "i < 2 * (15 + length ?s)" for i
  proof -
    have "uint (of_nat i :: u32) < 320"
      using that s(2) by (simp add: unsigned_of_nat take_bit_nat_eq_self)
    then show ?thesis
      using 3(3) by (simp add: shown_def)
  qed
  then have "mem_bytes (vmem sc3) V_MEM_BASE (2 * (15 + length ?s)) = mem_bytes (vmem sc2) V_MEM_BASE (2 * (15 + length ?s))"
    by (simp add: mem_bytes_def del: of_nat_add of_nat_mult)
  moreover have "vmem sc3 a = vmem sc a" if "800 \<le> uint (a - V_MEM_BASE)" for a
    using that 1(2) 2(2) 3(3) by (simp add: shown_def)
  moreover have "exception_handler vec err_code ip sel fl (pos, sc) = Inr (p3, sc3)"
    using 1(1) 2(1) 3(1) assms n by (auto simp: exception_handler_def clear_lines_def elim!: res_bindE)
  ultimately show ?thesis
    using 2(3) 3(2) by auto
qed

section \<open>Nothing returns from a panic or a failed assertion\<close>

lemma bytes_start: "0 < b \<Longrightarrow> b < 256 \<Longrightarrow> takeWhile (\<lambda>x. x \<noteq> 0) (c_bytes (chr b # s)) = of_int b # takeWhile (\<lambda>x. x \<noteq> 0) (c_bytes s)"
proof -
  assume b: "0 < b" "b < 256"
  have "(of_char (chr b) :: u8) = of_int b"
    using b by (simp add: byte_chr)
  moreover have "(of_int b :: u8) \<noteq> 0"
    using b zdvd_not_zless [of b 256] by (simp add: word_of_int_eq_0_iff take_bit_eq_0_iff)
  ultimately show ?thesis
    by (simp add: c_bytes_def)
qed

text \<open>A panic stops the machine in every process and in the kernel, if the text fits into the buffer.\<close>

lemma panic_stops:
  assumes "vsprintf fmt args = Inr (s, len)" "length (s @ junk) \<le> 243"
  shows "\<exists>m. panic reenter current junk fmt args st = Inl (Panic m)"
proof -
  let ?t = "takeWhile (\<lambda>c. c \<noteq> chr 0) (s @ junk)"
  have len: "length ?t \<le> 243"
    using assms(2) length_takeWhile_le [of "\<lambda>c. c \<noteq> chr 0" "s @ junk"] by linarith
  let ?p = "'' !!panic!! '' @ ?t"
  have v: "vsprintf ''%c !!panic!! %s'' [CharArg (chr 2), StrArg ?t] = Inr ((chr 2 # ?p) @ [chr 0], length (chr 2 # ?p))"
    by (simp add: fmt_c_def fmt_s_def store_at_def)
  have n: "length (chr 2 # ?p) \<le> 255"
    using len by simp
  have "take (length (chr 2 # ?p)) ((chr 2 # ?p) @ [chr 0]) = chr 2 # ?p"
    by (simp only: take_append) simp
  then have "printl reenter current ''%c !!panic!! %s'' [CharArg (chr 2), StrArg ?t] st =
      sys_printx reenter current (2 # takeWhile (\<lambda>b. b \<noteq> 0) (c_bytes ?p)) st"
    using v n bytes_start [of 2 ?p] by (simp add: printl_def del: vsprintf.simps)
  then show ?thesis
    using assms by (auto simp: panic_def sys_printx_def)
qed

lemma assertion_returns_nothing: "assertion_failure reenter current expr file base_file line st \<noteq> Inr st'"
  by (auto simp: assertion_failure_def spin_def elim!: res_bindE split: sum.splits)

text \<open>In a task a failed assertion stops the machine; the process that failed does not get as far as the loop of \<^verbatim>\<open>spin\<close>.\<close>

lemma assertion_in_task:
  assumes "0 \<le> reenter" "current < NR_TASKS" "vsprintf ''%c assert(%s) failed:file:%s,base_file:%s,ln:%d'' [CharArg (chr 3), StrArg expr, StrArg file, StrArg base_file, IntArg line] = Inr (s, len)"
    "length s \<le> 256" "len \<le> 255"
  shows "\<exists>m. assertion_failure reenter current expr file base_file line st = Inl (AssertFail m)"
proof -
  have "\<exists>s'. s = chr 3 # s' \<and> 0 < len"
    using assms(3) by (auto simp: fmt_c_def store_at_def elim!: res_bindE)
  then obtain s' where "take len s = chr 3 # take (len - 1) s'"
    by (auto simp: take_Cons')
  then show ?thesis
    using assms bytes_start [of 3] by (auto simp: assertion_failure_def printl_def sys_printx_def simp del: vsprintf.simps)
qed

end
