(* ===== verification/Mm.thy ===== *)
theory Mm
  imports Lib Memory Ipc_Steps
begin

text \<open>
  The memory manager task: \<^verbatim>\<open>mm/main.c\<close> and \<^verbatim>\<open>mm/forkexit.c\<close>. It owns the life of a process: the
  allocation of its memory, \<^verbatim>\<open>fork\<close>, \<^verbatim>\<open>exit\<close> and \<^verbatim>\<open>wait\<close>.

  The messages the task sends are recorded in order in \<open>mm_sent\<close>, each with the function (SEND or
  BOTH) and the destination. A local message that the code fills only in part starts from \<open>mm_junk\<close>,
  the unknown contents of the stack. Reading the name of a process that has no
  zero in its 16-byte array, or writing beyond the array, is an access out of bounds.
\<close>

record mm_state =
  mm_procs :: proc_tab
  mm_mem :: "u32 \<Rightarrow> u8"
  memory_size :: int
  mm_sent :: "(int \<times> int \<times> MESSAGE) list"
  mm_junk :: MESSAGE

section \<open>Operations\<close>

definition mm_send :: "int \<Rightarrow> int \<Rightarrow> MESSAGE \<Rightarrow> mm_state \<Rightarrow> mm_state" where
  "mm_send function dst m st = st\<lparr>mm_sent := mm_sent st @ [(function, dst, m)]\<rparr>"

definition mm_upd :: "int \<Rightarrow> (PROCESS \<Rightarrow> PROCESS) \<Rightarrow> mm_state \<Rightarrow> mm_state" where
  "mm_upd i f st = st\<lparr>mm_procs := (mm_procs st)(i := f (mm_procs st i))\<rparr>"

definition alloc_mem :: "int \<Rightarrow> int \<Rightarrow> mm_state \<Rightarrow> int res" where
  "alloc_mem pid mem_size st =
     res_bind (assert_c (pid \<ge> NR_TASKS + NR_NATIVE_PROCS) ''pid >= NR_TASKS + NR_NATIVE_PROCS'') (\<lambda>_.
     if mem_size > PROC_DEFAULT_IMG_SIZE then Inl (Panic ''alloc mem_size too large!'')
     else let base = PROC_ALLOC_BASE + (pid - (NR_TASKS + NR_NATIVE_PROCS)) * PROC_DEFAULT_IMG_SIZE
          in if base + mem_size > memory_size st then Inl (Panic ''mem overflow'') else Inr base)"

fun find_slot :: "proc_tab \<Rightarrow> int list \<Rightarrow> int" where
  "find_slot pt [] = NR_TASKS + NR_PROCS"
| "find_slot pt (i # is) = (if p_flags (pt i) = FREE_SLOT then i else find_slot pt is)"

text \<open>The base, limit and size that \<^verbatim>\<open>do_fork\<close> reads from a segment descriptor of the caller.\<close>

definition seg_base_of :: "DESCRIPTOR \<Rightarrow> u32" where
  "seg_base_of d = reassembly (ucast (base_high d)) 24 (ucast (base_mid d)) 16 (ucast (base_low d))"

definition T_limit :: "DESCRIPTOR \<Rightarrow> u32" where
  "T_limit d = reassembly 0 0 (ucast (limit_high_attr2 d) AND 0xF) 16 (ucast (limit_low d))"

definition D_limit :: "DESCRIPTOR \<Rightarrow> u32" where
  "D_limit d = reassembly (ucast (limit_high_attr2 d) AND 0xF) 16 0 0 (ucast (limit_low d))"

definition seg_size :: "u32 \<Rightarrow> DESCRIPTOR \<Rightarrow> u32" where
  "seg_size limit d = (1 + limit) * (if limit_high_attr2 d AND 0x80 \<noteq> 0 then 4096 else 1)"

definition child_ldts :: "(nat \<Rightarrow> DESCRIPTOR) \<Rightarrow> u32 \<Rightarrow> nat \<Rightarrow> DESCRIPTOR" where
  "child_ldts l child_base = l(
     INDEX_LDT_C := init_descriptor (l INDEX_LDT_C) child_base
       (of_int (drop_bit LIMIT_4K_SHIFT (PROC_DEFAULT_IMG_SIZE - 1)))
       (((DA_32 OR DA_C) OR push_bit 5 PRIVILEGE_USER) OR DA_LIMIT_4K),
     INDEX_LDT_RW := init_descriptor (l INDEX_LDT_RW) child_base
       (of_int (drop_bit LIMIT_4K_SHIFT (PROC_DEFAULT_IMG_SIZE - 1)))
       (((DA_32 OR DA_DRW) OR push_bit 5 PRIVILEGE_USER) OR DA_LIMIT_4K))"

text \<open>
  The copy of the caller's table entry: everything but the selector, the parent and the name. The name is printed
  over the copy of the caller's, and \<^verbatim>\<open>sprintf\<close> does not end it with a zero: what lies behind it in the array is
  what lay there in the caller's.
\<close>

definition fork_entry :: "int \<Rightarrow> int \<Rightarrow> mm_state \<Rightarrow> PROCESS res" where
  "fork_entry pid parent_pid st =
     (let old = p_name (mm_procs st parent_pid)
      in if CHR 0x00 \<notin> set old then Inl (BadAccess ''p_name'')
         else res_bind (vsprintf ''%s_%d'' [StrArg (c_name old), IntArg pid]) (\<lambda>(s, len).
              if length s > 16 then Inl (BadAccess ''p_name'')
              else Inr ((mm_procs st parent_pid)\<lparr>ldt_sel := ldt_sel (mm_procs st pid), p_parent := parent_pid,
                          p_name := store_at 0 s old\<rparr>)))"

definition do_fork :: "MESSAGE \<Rightarrow> mm_state \<Rightarrow> (int \<times> MESSAGE \<times> mm_state) res" where
  "do_fork msg st =
     (let parent_pid = source msg; pid = find_slot (mm_procs st) all_procs
      in res_bind (assert_c (pid \<ge> NR_TASKS + NR_NATIVE_PROCS) ''i >= NR_TASKS + NR_NATIVE_PROCS'') (\<lambda>_.
         if pid = NR_TASKS + NR_PROCS then Inr (- 1, msg, st)
         else res_bind (fork_entry pid parent_pid st) (\<lambda>child.
         let pTD = ldts (mm_procs st parent_pid) INDEX_LDT_C;
             pDD = ldts (mm_procs st parent_pid) INDEX_LDT_RW;
             caller_T_base = seg_base_of pTD; caller_T_limit = T_limit pTD;
             caller_T_size = seg_size caller_T_limit pTD;
             caller_D_base = seg_base_of pDD; caller_D_limit = D_limit pDD;
             caller_D_size = seg_size caller_D_limit pDD
         in res_bind (assert_c (caller_T_base = caller_D_base \<and> caller_T_limit = caller_D_limit \<and>
                                caller_T_size = caller_D_size) ''caller_T == caller_D'') (\<lambda>_.
            res_bind (alloc_mem pid (sint caller_T_size) st) (\<lambda>child_base.
            let mem' = memcpy (of_int child_base) caller_T_base (unat caller_T_size) (mm_mem st);
                child' = child\<lparr>ldts := child_ldts (ldts child) (of_int child_base)\<rparr>;
                st1 = st\<lparr>mm_procs := (mm_procs st)(pid := child'), mm_mem := mem'\<rparr>;
                st2 = mm_send BOTH TASK_FS ((mm_junk st)\<lparr>mtype := FORK, m3i2 := pid\<rparr>) st1;
                st3 = mm_send SEND pid ((mm_junk st)\<lparr>m3i2 := 0, m3i1 := 0, mtype := SYSCALL_RET\<rparr>) st2
            in Inr (0, msg\<lparr>m3i2 := pid\<rparr>, st3))))))"

definition cleanup :: "int \<Rightarrow> mm_state \<Rightarrow> mm_state" where
  "cleanup i st =
     mm_upd i (\<lambda>p. p\<lparr>p_flags := FREE_SLOT\<rparr>)
       (mm_send SEND (p_parent (mm_procs st i))
         ((mm_junk st)\<lparr>mtype := SYSCALL_RET, m3i2 := i, m3i1 := exit_status (mm_procs st i)\<rparr>) st)"

definition clear_flag :: "int \<Rightarrow> PROCESS \<Rightarrow> PROCESS" where
  "clear_flag m p = p\<lparr>p_flags := p_flags p AND NOT m\<rparr>"

definition set_flag :: "int \<Rightarrow> PROCESS \<Rightarrow> PROCESS" where
  "set_flag m p = p\<lparr>p_flags := p_flags p OR m\<rparr>"

text \<open>The second half of \<^verbatim>\<open>do_exit\<close>: a child of the exiting process is handed to INIT.\<close>

definition adopt :: "int \<Rightarrow> int \<Rightarrow> mm_state \<Rightarrow> mm_state" where
  "adopt pid i st =
     (if p_parent (mm_procs st i) = pid then
        let st1 = mm_upd i (\<lambda>p. p\<lparr>p_parent := INIT\<rparr>) st
        in if flag HANGING (mm_procs st1 i) \<and> flag WAITING (mm_procs st1 INIT)
           then cleanup i (mm_upd INIT (clear_flag WAITING) st1)
           else st1
      else st)"

definition exit_parent :: "int \<Rightarrow> mm_state \<Rightarrow> mm_state res" where
  "exit_parent pid st =
     (let parent = p_parent (mm_procs st pid)
      in if \<not> valid_pid parent then Inl (BadAccess ''proc_table'')
         else if flag WAITING (mm_procs st parent)
           then Inr (cleanup pid (mm_upd parent (clear_flag WAITING) st))
         else Inr (mm_upd pid (set_flag HANGING) st))"

definition do_exit :: "MESSAGE \<Rightarrow> mm_state \<Rightarrow> mm_state res" where
  "do_exit msg st =
     (let pid = source msg;
          st1 = mm_send BOTH TASK_FS ((mm_junk st)\<lparr>mtype := EXIT, m3i2 := pid\<rparr>) st;
          st2 = mm_upd pid (\<lambda>p. p\<lparr>exit_status := STATUS msg\<rparr>) st1
      in res_bind (exit_parent pid st2) (\<lambda>st3. Inr (fold (adopt pid) all_procs st3)))"

text \<open>The scan of \<^verbatim>\<open>do_wait\<close>: whether the caller has a child, and the first one that hangs.\<close>

fun wait_scan :: "proc_tab \<Rightarrow> int \<Rightarrow> int list \<Rightarrow> bool \<Rightarrow> bool \<times> int option" where
  "wait_scan pt pid [] hasChild = (hasChild, None)"
| "wait_scan pt pid (i # is) hasChild =
     (if p_parent (pt i) \<noteq> pid then wait_scan pt pid is hasChild
      else if flag HANGING (pt i) then (True, Some i)
      else wait_scan pt pid is True)"

definition do_wait :: "MESSAGE \<Rightarrow> mm_state \<Rightarrow> mm_state" where
  "do_wait msg st =
     (let pid = source msg
      in case wait_scan (mm_procs st) pid all_procs False of
           (_, Some i) \<Rightarrow> cleanup i st
         | (True, None) \<Rightarrow> mm_upd pid (set_flag WAITING) st
         | (False, None) \<Rightarrow> mm_send SEND pid
             ((mm_junk st)\<lparr>mtype := SYSCALL_RET, m3i2 := NO_TASK, m3i1 := - 1\<rparr>) st)"

section \<open>Flags\<close>

lemma flag_clear:
  "\<not> flag WAITING (clear_flag WAITING p)" "flag HANGING (clear_flag WAITING p) = flag HANGING p"
  "flag SENDING (clear_flag WAITING p) = flag SENDING p" "flag RECEIVING (clear_flag WAITING p) = flag RECEIVING p"
  by (simp_all add: clear_flag_def flag_def and.assoc)

lemma flag_set:
  "flag WAITING (set_flag WAITING p)" "flag HANGING (set_flag HANGING p)"
  "flag HANGING (set_flag WAITING p) = flag HANGING p" "flag WAITING (set_flag HANGING p) = flag WAITING p"
  by (simp_all add: set_flag_def flag_def bit.conj_disj_distrib2 or_eq_0_iff)

lemma flag_free [simp]: "\<not> flag HANGING (p\<lparr>p_flags := FREE_SLOT\<rparr>)" "\<not> flag WAITING (p\<lparr>p_flags := FREE_SLOT\<rparr>)"
  by (simp_all add: flag_def)

lemma flag_other_fields [simp]:
  "flag m (p\<lparr>p_parent := x\<rparr>) = flag m p" "flag m (p\<lparr>exit_status := y\<rparr>) = flag m p"
  "flag m (p\<lparr>ldts := l\<rparr>) = flag m p"
  by (simp_all add: flag_def)

lemma flag_fields_kept [simp]:
  "p_parent (clear_flag m p) = p_parent p" "p_parent (set_flag m p) = p_parent p"
  "exit_status (clear_flag m p) = exit_status p" "exit_status (set_flag m p) = exit_status p"
  by (simp_all add: clear_flag_def set_flag_def)

lemma mm_simps [simp]:
  "mm_procs (mm_send fn d m st) = mm_procs st" "mm_sent (mm_send fn d m st) = mm_sent st @ [(fn, d, m)]"
  "mm_junk (mm_send fn d m st) = mm_junk st" "mm_mem (mm_send fn d m st) = mm_mem st"
  "mm_procs (mm_upd i f st) = (mm_procs st)(i := f (mm_procs st i))" "mm_sent (mm_upd i f st) = mm_sent st"
  "mm_junk (mm_upd i f st) = mm_junk st" "mm_mem (mm_upd i f st) = mm_mem st"
  "memory_size (mm_send fn d m st) = memory_size st" "memory_size (mm_upd i f st) = memory_size st"
  by (simp_all add: mm_send_def mm_upd_def)

lemma cleanup_procs [simp]:
  "mm_procs (cleanup i st) = (mm_procs st)(i := (mm_procs st i)\<lparr>p_flags := FREE_SLOT\<rparr>)"
  "mm_junk (cleanup i st) = mm_junk st"
  by (simp_all add: cleanup_def)

text \<open>The message with which a parent learns that a child has ended.\<close>

definition exit_report :: "mm_state \<Rightarrow> int \<Rightarrow> int \<Rightarrow> MESSAGE" where
  "exit_report st child status = (mm_junk st)\<lparr>mtype := SYSCALL_RET, m3i2 := child, m3i1 := status\<rparr>"

lemma cleanup_sent [simp]:
  "mm_sent (cleanup i st) = mm_sent st @
     [(SEND, p_parent (mm_procs st i), exit_report st i (exit_status (mm_procs st i)))]"
  by (simp add: cleanup_def exit_report_def)

section \<open>Memory\<close>

lemma alloc_mem_Inr:
  "alloc_mem pid n st = Inr base \<Longrightarrow>
   7 \<le> pid \<and> n \<le> 0x100000 \<and> base = 0xA00000 + (pid - 7) * 0x100000 \<and> base + n \<le> memory_size st"
  by (auto simp: alloc_mem_def Let_def split: if_splits)

section \<open>Parents and children\<close>

text \<open>
  No ended child waits for a parent that waits for it: whenever a process hangs, its parent is not
  in \<^verbatim>\<open>wait\<close>.
\<close>

definition wait_inv :: "proc_tab \<Rightarrow> bool" where
  "wait_inv pt \<longleftrightarrow>
     (\<forall>i. valid_pid i \<and> flag HANGING (pt i) \<longrightarrow> \<not> flag WAITING (pt (p_parent (pt i))))"

lemma adopt_wait_inv:
  assumes "wait_inv (mm_procs st)" "valid_pid i"
  shows "wait_inv (mm_procs (adopt pid i st))"
proof (cases "p_parent (mm_procs st i) = pid")
  case True
  let ?p = "mm_procs st i"
  show ?thesis
  proof (cases "flag HANGING ?p \<and> flag WAITING (mm_procs (mm_upd i (\<lambda>p. p\<lparr>p_parent := INIT\<rparr>) st) INIT)")
    case t: True
    then show ?thesis
      using assms True by (auto simp: adopt_def wait_inv_def flag_clear Let_def)
  next
    case False
    then show ?thesis
      using assms True by (auto simp: adopt_def wait_inv_def Let_def)
  qed
next
  case False
  then show ?thesis
    using assms by (simp add: adopt_def)
qed

lemma fold_adopt_wait_inv:
  "wait_inv (mm_procs st) \<Longrightarrow> (\<And>i. i \<in> set is \<Longrightarrow> valid_pid i) \<Longrightarrow>
   wait_inv (mm_procs (fold (adopt pid) is st))"
  by (induction "is" arbitrary: st) (auto intro: adopt_wait_inv)

lemma exit_parent_wait_inv:
  assumes "wait_inv (mm_procs st)" "valid_pid pid" "exit_parent pid st = Inr st'"
    "p_parent (mm_procs st pid) \<noteq> pid"
  shows "wait_inv (mm_procs st')"
  using assms
  by (auto simp: exit_parent_def wait_inv_def flag_clear flag_set Let_def split: if_splits)

lemma do_exit_wait_inv:
  assumes "wait_inv (mm_procs st)" "valid_pid (source msg)" "do_exit msg st = Inr st'"
    "p_parent (mm_procs st (source msg)) \<noteq> source msg"
  shows "wait_inv (mm_procs st')"
proof -
  let ?st = "mm_upd (source msg) (\<lambda>p. p\<lparr>exit_status := STATUS msg\<rparr>)
    (mm_send BOTH TASK_FS ((mm_junk st)\<lparr>mtype := EXIT, m3i2 := source msg\<rparr>) st)"
  obtain st3 where 3: "exit_parent (source msg) ?st = Inr st3" "st' = fold (adopt (source msg)) all_procs st3"
    using assms(3) by (auto simp: do_exit_def Let_def res_simps)
  have "wait_inv (mm_procs ?st)"
    using assms(1) by (auto simp: wait_inv_def)
  then have "wait_inv (mm_procs st3)"
    using exit_parent_wait_inv [OF _ assms(2) 3(1)] assms(4) by simp
  then show ?thesis
    unfolding 3(2) by (rule fold_adopt_wait_inv) simp
qed

lemma wait_scan_None:
  "wait_scan pt pid is h = (b, None) \<Longrightarrow>
   (b \<longleftrightarrow> h \<or> (\<exists>i\<in>set is. p_parent (pt i) = pid)) \<and> (\<forall>i\<in>set is. p_parent (pt i) = pid \<longrightarrow> \<not> flag HANGING (pt i))"
  by (induction pt pid "is" h rule: wait_scan.induct) (auto split: if_splits)

lemma wait_scan_Some:
  "wait_scan pt pid is h = (b, Some i) \<Longrightarrow> i \<in> set is \<and> p_parent (pt i) = pid \<and> flag HANGING (pt i)"
  by (induction pt pid "is" h rule: wait_scan.induct) (auto split: if_splits)

lemma do_wait_cases:
  "wait_scan (mm_procs st) (source msg) all_procs False = (b, Some i) \<Longrightarrow> do_wait msg st = cleanup i st"
  "wait_scan (mm_procs st) (source msg) all_procs False = (True, None) \<Longrightarrow>
     do_wait msg st = mm_upd (source msg) (set_flag WAITING) st"
  "wait_scan (mm_procs st) (source msg) all_procs False = (False, None) \<Longrightarrow>
     do_wait msg st = mm_send SEND (source msg) (exit_report st NO_TASK (- 1)) st"
  by (cases b; simp add: do_wait_def Let_def exit_report_def)+

lemma do_wait_wait_inv:
  assumes "wait_inv (mm_procs st)" "\<not> flag HANGING (mm_procs st (source msg))"
  shows "wait_inv (mm_procs (do_wait msg st))"
proof -
  obtain b r where w: "wait_scan (mm_procs st) (source msg) all_procs False = (b, r)"
    by (cases "wait_scan (mm_procs st) (source msg) all_procs False")
  show ?thesis
  proof (cases r)
    case (Some i)
    then show ?thesis
      using w assms by (auto simp: do_wait_cases(1) wait_inv_def)
  next
    case None
    with w have n: "\<forall>i. valid_pid i \<longrightarrow> p_parent (mm_procs st i) = source msg \<longrightarrow> \<not> flag HANGING (mm_procs st i)"
      using wait_scan_None [of "mm_procs st" "source msg" all_procs False b] by auto
    show ?thesis
      using None w assms n by (cases b) (auto simp: do_wait_cases wait_inv_def flag_set)
  qed
qed

section \<open>Forking\<close>

lemma find_slot_in: "find_slot pt is \<noteq> 37 \<Longrightarrow> find_slot pt is \<in> set is \<and> p_flags (pt (find_slot pt is)) = FREE_SLOT"
  by (induction "is") auto

lemma find_slot_free:
  "find_slot pt all_procs \<noteq> 37 \<Longrightarrow>
   valid_pid (find_slot pt all_procs) \<and> p_flags (pt (find_slot pt all_procs)) = FREE_SLOT"
  using find_slot_in [of pt all_procs] by simp

lemma find_slot_first:
  "sorted_wrt (<) is \<Longrightarrow> i \<in> set is \<Longrightarrow> p_flags (pt i) = FREE_SLOT \<Longrightarrow>
   (\<And>j. j \<in> set is \<Longrightarrow> j < i \<Longrightarrow> p_flags (pt j) \<noteq> FREE_SLOT) \<Longrightarrow> find_slot pt is = i"
  by (induction "is") auto

lemma find_slot_unique:
  assumes "valid_pid i" "p_flags (pt i) = FREE_SLOT" "\<And>j. valid_pid j \<Longrightarrow> j < i \<Longrightarrow> p_flags (pt j) \<noteq> FREE_SLOT"
  shows "find_slot pt all_procs = i"
  using assms by (intro find_slot_first) (simp_all add: all_procs_def valid_pid_def)

lemma limits_agree: "D_limit d = T_limit d"
  by (simp add: D_limit_def T_limit_def reassembly_def)

lemma fork_name:
  assumes "0 \<le> pid" "pid < 37"
  shows "vsprintf ''%s_%d'' [StrArg name, IntArg pid] =
    Inr (name @ ''_'' @ decimal pid, length (name @ ''_'' @ decimal pid))"
proof -
  have "negatable pid" "signed_text pid = decimal pid"
    using assms by (simp_all add: negatable_def signed_text_def)
  then have "vsprintf ''_%d'' [IntArg pid] = Inr (''_'' @ decimal pid, Suc (length (decimal pid)))"
    using vsprintf_lit [of "''_''" "''%d''" "[IntArg pid]"] vsprintf_d [of pid "[]" "[]"] by (simp add: fmt_d_decimal)
  then show ?thesis
    using vsprintf_s [of "''_%d''" name "[IntArg pid]"] by (simp del: vsprintf.simps)
qed

text \<open>The name array of a child.\<close>

definition child_name :: "string \<Rightarrow> int \<Rightarrow> string" where
  "child_name old pid = store_at 0 (c_name old @ ''_'' @ decimal pid) old"

definition name_fits :: "string \<Rightarrow> int \<Rightarrow> bool" where
  "name_fits old pid \<longleftrightarrow> CHR 0x00 \<in> set old \<and> length (c_name old) + 1 + length (decimal pid) \<le> 16"

text \<open>
  The situations in which \<^verbatim>\<open>fork\<close> succeeds: a free slot behind the native processes, a name that
  ends and still fits, one segment for code and data that fits into the child's image, enough memory.
\<close>

definition fork_ready :: "int \<Rightarrow> int \<Rightarrow> mm_state \<Rightarrow> bool" where
  "fork_ready parent pid st \<longleftrightarrow>
     find_slot (mm_procs st) all_procs = pid \<and> 7 \<le> pid \<and> pid < 37 \<and>
     name_fits (p_name (mm_procs st parent)) pid \<and>
     (let c = ldts (mm_procs st parent) INDEX_LDT_C; d = ldts (mm_procs st parent) INDEX_LDT_RW
      in seg_base_of c = seg_base_of d \<and> T_limit c = T_limit d \<and>
         seg_size (T_limit c) c = seg_size (T_limit c) d \<and>
         unat (seg_size (T_limit c) c) \<le> 0x100000 \<and>
         (unat (seg_base_of c) + unat (seg_size (T_limit c) c) \<le> 0xA00000 + nat (pid - 7) * 0x100000 \<or>
          0xA00000 + nat (pid - 7) * 0x100000 + 0x100000 \<le> unat (seg_base_of c) \<and>
          unat (seg_base_of c) + unat (seg_size (T_limit c) c) \<le> 0x100000000)) \<and>
     0xA00000 + (pid - 7) * 0x100000 + 0x100000 \<le> memory_size st"

text \<open>Where a process's image lies, and what a process can see there.\<close>

definition image_base :: "int \<Rightarrow> u32" where
  "image_base pid = of_int (0xA00000 + (pid - 7) * 0x100000)"

definition image_bytes :: "proc_tab \<Rightarrow> (u32 \<Rightarrow> u8) \<Rightarrow> int \<Rightarrow> u8 list" where
  "image_bytes pt m pid =
     (let c = ldts (pt pid) INDEX_LDT_C in mem_bytes m (seg_base_of c) (unat (seg_size (T_limit c) c)))"

definition child_entry :: "PROCESS \<Rightarrow> PROCESS \<Rightarrow> int \<Rightarrow> int \<Rightarrow> PROCESS" where
  "child_entry parent slot ppid pid = parent\<lparr>ldt_sel := ldt_sel slot, p_parent := ppid,
     p_name := child_name (p_name parent) pid, ldts := child_ldts (ldts parent) (image_base pid)\<rparr>"

lemma unat_image_base: "7 \<le> pid \<Longrightarrow> pid < 37 \<Longrightarrow> unat (image_base pid) = 0xA00000 + nat (pid - 7) * 0x100000"
proof -
  assume p: "7 \<le> pid" "pid < 37"
  then have "uint (image_base pid) = 0xA00000 + (pid - 7) * 0x100000"
    unfolding image_base_def by (intro uint_of_int_small) auto
  then show ?thesis
    using p by (simp add: unat_eq_nat_uint nat_add_distrib nat_mult_distrib)
qed

lemma ranges_disjoint:
  fixes a b :: u32
  assumes "unat a + n \<le> unat b \<or> unat b + n \<le> unat a" "unat a + n \<le> 0x100000000" "unat b + n \<le> 0x100000000" "i < n" "j < n"
  shows "a + of_nat i \<noteq> b + of_nat j"
proof -
  have "unat (a + of_nat i) = unat a + i" "unat (b + of_nat j) = unat b + j"
    using assms by (auto intro!: unat_add_nat)
  then show ?thesis
    using assms by auto
qed

lemma fork_entry_ready:
  assumes "7 \<le> pid" "pid < 37" "name_fits (p_name (mm_procs st parent)) pid"
  shows "fork_entry pid parent st = Inr ((mm_procs st parent)\<lparr>ldt_sel := ldt_sel (mm_procs st pid),
    p_parent := parent, p_name := child_name (p_name (mm_procs st parent)) pid\<rparr>)"
  using assms fork_name [of pid "c_name (p_name (mm_procs st parent))"]
  by (simp add: fork_entry_def child_name_def name_fits_def Let_def del: vsprintf.simps)

lemma do_fork_ready:
  assumes r: "fork_ready (source msg) pid st"
  defines "pt \<equiv> mm_procs st"
  defines "c \<equiv> ldts (pt (source msg)) INDEX_LDT_C"
  shows "do_fork msg st = Inr (0, msg\<lparr>m3i2 := pid\<rparr>,
      mm_send SEND pid ((mm_junk st)\<lparr>m3i2 := 0, m3i1 := 0, mtype := SYSCALL_RET\<rparr>)
       (mm_send BOTH TASK_FS ((mm_junk st)\<lparr>mtype := FORK, m3i2 := pid\<rparr>)
        (st\<lparr>mm_procs := pt(pid := child_entry (pt (source msg)) (pt pid) (source msg) pid),
            mm_mem := write_bytes (image_base pid) (image_bytes pt (mm_mem st) (source msg)) (mm_mem st)\<rparr>)))"
proof -
  let ?n = "unat (seg_size (T_limit c) c)"
  have pid: "find_slot pt all_procs = pid" "7 \<le> pid" "pid < 37"
    using r by (simp_all add: fork_ready_def pt_def)
  have mem: "0xA00000 + (pid - 7) * 0x100000 + 0x100000 \<le> memory_size st"
    using r unfolding fork_ready_def by blast
  have segs: "seg_base_of c = seg_base_of (ldts (pt (source msg)) INDEX_LDT_RW)"
      "T_limit c = D_limit (ldts (pt (source msg)) INDEX_LDT_RW)"
      "seg_size (T_limit c) c = seg_size (T_limit c) (ldts (pt (source msg)) INDEX_LDT_RW)"
    and n: "?n \<le> 0x100000"
    and d: "unat (seg_base_of c) + ?n \<le> 0xA00000 + nat (pid - 7) * 0x100000 \<or>
      0xA00000 + nat (pid - 7) * 0x100000 + 0x100000 \<le> unat (seg_base_of c) \<and> unat (seg_base_of c) + ?n \<le> 0x100000000"
    using r unfolding fork_ready_def Let_def limits_agree c_def pt_def by blast+
  note u = unat_image_base [OF pid(2,3)]
  have small: "nat (pid - 7) * 0x100000 \<le> 30 * 0x100000"
    using pid by (intro mult_le_mono1) simp
  have "seg_base_of c + of_nat i \<noteq> image_base pid + of_nat j" if "i < ?n" "j < ?n" for i j
    using that n d small u by (intro ranges_disjoint [of _ ?n]) linarith+
  then have cp: "memcpy (image_base pid) (seg_base_of c) ?n (mm_mem st) =
      write_bytes (image_base pid) (image_bytes pt (mm_mem st) (source msg)) (mm_mem st)"
    by (subst memcpy_disjoint) (simp_all add: image_bytes_def Let_def c_def)
  have sn: "sint (seg_size (T_limit c) c) = int ?n"
    using n by (intro sint_small) linarith
  have sn2: "int ?n \<le> 0x100000"
    using n by linarith
  have "alloc_mem pid (sint (seg_size (T_limit c) c)) st = Inr (0xA00000 + (pid - 7) * 0x100000)"
    unfolding sn alloc_mem_def Let_def using pid(2) sn2 mem by auto
  moreover have "fork_entry pid (source msg) st = Inr ((pt (source msg))\<lparr>ldt_sel := ldt_sel (pt pid),
      p_parent := source msg, p_name := child_name (p_name (pt (source msg))) pid\<rparr>)"
    using r unfolding pt_def by (intro fork_entry_ready) (simp_all add: fork_ready_def)
  ultimately show ?thesis
    using pid segs cp
    unfolding do_fork_def pt_def [symmetric] c_def image_base_def
    by (simp add: Let_def child_entry_def image_base_def)
qed

end
