(* ===== verification/Exec.thy ===== *)
theory Exec
  imports Mm
begin

text \<open>
  Loading programs: the ELF headers (\<^verbatim>\<open>include/sys/elf.h\<close>), the kernel's own layout
  (\<^verbatim>\<open>get_kernel_map\<close> of \<^verbatim>\<open>lib/klib.c\<close>), the argument block that \<^verbatim>\<open>execv\<close> builds (\<^verbatim>\<open>lib/exec.c\<close>) and the
  part of the memory manager that loads the image and moves the block to the new stack
  (\<^verbatim>\<open>mm/exec.c\<close>).

  Headers are read from memory byte by byte, little endian. The file that \<^verbatim>\<open>do_exec\<close> reads with
  \<^verbatim>\<open>stat\<close>, \<^verbatim>\<open>open\<close> and \<^verbatim>\<open>read\<close> is an argument of the model: the contents under a path, or nothing.
\<close>

abbreviation (input) PT_LOAD :: u32 where "PT_LOAD \<equiv> 1"
abbreviation (input) MAX_PATH :: int where "MAX_PATH \<equiv> 128"
abbreviation (input) MMBUF_SIZE :: int where "MMBUF_SIZE \<equiv> 0x100000"
abbreviation (input) mmbuf :: u32 where "mmbuf \<equiv> 0x700000"
abbreviation (input) BUF_LEN :: "MESSAGE \<Rightarrow> int" where "BUF_LEN \<equiv> m3i3"
abbreviation (input) BOOT_PARAM_ADDR :: u32 where "BOOT_PARAM_ADDR \<equiv> 0x900"
abbreviation (input) BOOT_PARAM_MAGIC :: u32 where "BOOT_PARAM_MAGIC \<equiv> 0xB007"
abbreviation (input) BI_MAG :: u32 where "BI_MAG \<equiv> 0"
abbreviation (input) BI_MEM_SIZE :: u32 where "BI_MEM_SIZE \<equiv> 1"
abbreviation (input) BI_KERNEL_FILE :: u32 where "BI_KERNEL_FILE \<equiv> 2"

section \<open>ELF headers\<close>

record Elf32_Ehdr =
  e_ident :: "u8 list"
  e_type :: u16
  e_machine :: u16
  e_version :: u32
  e_entry :: u32
  e_phoff :: u32
  e_shoff :: u32
  e_flags :: u32
  e_ehsize :: u16
  e_phentsize :: u16
  e_phnum :: u16
  e_shentsize :: u16
  e_shnum :: u16
  e_shstrndx :: u16

record Elf32_Phdr =
  p_type :: u32
  p_offset :: u32
  p_vaddr :: u32
  p_paddr :: u32
  p_filesz :: u32
  p_memsz :: u32
  ph_flags :: u32
  p_align :: u32

text \<open>The structures laid over memory: each field at its offset.\<close>

definition ehdr_at :: "(u32 \<Rightarrow> u8) \<Rightarrow> u32 \<Rightarrow> Elf32_Ehdr" where
  "ehdr_at m a = \<lparr>e_ident = mem_bytes m a 16, e_type = half_at m (a + 16), e_machine = half_at m (a + 18),
     e_version = word_at m (a + 20), e_entry = word_at m (a + 24), e_phoff = word_at m (a + 28),
     e_shoff = word_at m (a + 32), e_flags = word_at m (a + 36), e_ehsize = half_at m (a + 40),
     e_phentsize = half_at m (a + 42), e_phnum = half_at m (a + 44), e_shentsize = half_at m (a + 46),
     e_shnum = half_at m (a + 48), e_shstrndx = half_at m (a + 50)\<rparr>"

definition phdr_at :: "(u32 \<Rightarrow> u8) \<Rightarrow> u32 \<Rightarrow> Elf32_Phdr" where
  "phdr_at m a = \<lparr>p_type = word_at m a, p_offset = word_at m (a + 4), p_vaddr = word_at m (a + 8),
     p_paddr = word_at m (a + 12), p_filesz = word_at m (a + 16), p_memsz = word_at m (a + 20),
     ph_flags = word_at m (a + 24), p_align = word_at m (a + 28)\<rparr>"

definition phdr_addr :: "u32 \<Rightarrow> Elf32_Ehdr \<Rightarrow> nat \<Rightarrow> u32" where
  "phdr_addr file h i = file + e_phoff h + of_nat i * ucast (e_phentsize h)"

section \<open>The kernel's layout\<close>

definition elf_magic :: "(u32 \<Rightarrow> u8) \<Rightarrow> u32 \<Rightarrow> bool" where
  "elf_magic m a \<longleftrightarrow> mem_bytes m a 4 = [0x7f, 0x45, 0x4c, 0x46]"

definition get_boot_param :: "(u32 \<Rightarrow> u8) \<Rightarrow> (int \<times> u32) res" where
  "get_boot_param m =
     (let p = (\<lambda>i. word_at m (BOOT_PARAM_ADDR + 4 * i))
      in res_bind (assert_c (p BI_MAG = BOOT_PARAM_MAGIC) ''p[BI_MAG] == BOOT_PARAM_MAGIC'') (\<lambda>_.
         res_bind (assert_c (elf_magic m (p BI_KERNEL_FILE)) ''memcmp(pbp->kernel_file, ELFMAG, SELFMAG) == 0'') (\<lambda>_.
         Inr (sint (p BI_MEM_SIZE), p BI_KERNEL_FILE))))"

definition map_step :: "Elf32_Phdr \<Rightarrow> u32 \<times> u32 \<Rightarrow> u32 \<times> u32" where
  "map_step h bt =
     (case bt of (b, t) \<Rightarrow>
      if p_type h = PT_LOAD then
        let bottom = p_vaddr h; top = p_vaddr h + p_memsz h
        in (if b > bottom then bottom else b, if t < top then top else t)
      else (b, t))"

text \<open>
  \<^verbatim>\<open>get_kernel_map\<close>: the lowest address and the limit of the loadable segments; \<open>None\<close> is the return
  value -1. The loop runs over as many program headers as the file has sections.
\<close>

definition get_kernel_map :: "(u32 \<Rightarrow> u8) \<Rightarrow> (u32 \<times> u32) option res" where
  "get_kernel_map m =
     res_bind (get_boot_param m) (\<lambda>(_, file).
     if \<not> elf_magic m file then Inr None
     else let h = ehdr_at m file;
              hs = map (\<lambda>i. phdr_at m (phdr_addr file h i)) [0..<unat (e_shnum h)]
          in case fold map_step hs (NOT 0, 0) of (b, t) \<Rightarrow>
             res_bind (assert_c (b < t) ''*b < t'') (\<lambda>_. Inr (Some (b, t - b - 1))))"

section \<open>The argument block\<close>

text \<open>
  \<^verbatim>\<open>execv\<close>: one pointer per argument, a null pointer, then the strings, each with its terminating
  zero. \<open>stk\<close> is the address of the block in the caller; the pointers are addresses there.
\<close>

fun exec_strings :: "u32 \<Rightarrow> nat \<Rightarrow> u8 list list \<Rightarrow> u32 list \<times> u8 list" where
  "exec_strings stk stack_len [] = ([], [])"
| "exec_strings stk stack_len (a # as) =
     (case exec_strings stk (stack_len + length a + 1) as of (ps, bs) \<Rightarrow>
        ((stk + of_nat stack_len) # ps, a @ [0] @ bs))"

definition exec_block :: "u32 \<Rightarrow> u8 list list \<Rightarrow> u8 list" where
  "exec_block stk argv =
     (case exec_strings stk (4 * length argv + 4) argv of (ps, bs) \<Rightarrow>
        concat (map bytes_of ps) @ [0, 0, 0, 0] @ bs)"

definition execv :: "u32 \<Rightarrow> u32 \<Rightarrow> u8 list \<Rightarrow> u8 list list \<Rightarrow> MESSAGE \<Rightarrow> (u8 list \<times> MESSAGE) res" where
  "execv stk path_addr path argv junk =
     res_bind (assert_c (\<forall>i<length argv. 4 * int i + 2 * 4 < PROC_ORIGIN_STACK)
       ''stack_len + 2 * sizeof(char*) < PROC_ORIGIN_STACK'') (\<lambda>_.
     let block = exec_block stk argv
     in if int (length block) > PROC_ORIGIN_STACK then Inl (BadAccess ''stk'')
        else Inr (block, junk\<lparr>mtype := EXEC, m3p1 := path_addr, m3i2 := int (length path), m3p2 := stk,
                              m3i3 := int (length block)\<rparr>))"

section \<open>Loading\<close>

text \<open>The loop that moves the pointers of the block; it stops at the null pointer.\<close>

fun relocate :: "u32 \<Rightarrow> u8 list \<Rightarrow> (u8 list \<times> nat) res" where
  "relocate delta (b0 # b1 # b2 # b3 # bs) =
     (let p = word_of [b0, b1, b2, b3]
      in if p = 0 then Inr (b0 # b1 # b2 # b3 # bs, 0)
         else res_bind (relocate delta bs) (\<lambda>(bs', argc). Inr (bytes_of (p + delta) @ bs', argc + 1)))"
| "relocate delta bs = Inl (BadAccess ''stk'')"

definition load_segment :: "int \<Rightarrow> Elf32_Phdr \<Rightarrow> mm_state \<Rightarrow> mm_state res" where
  "load_segment src h st =
     (if p_type h = PT_LOAD then
        res_bind (va2la (mm_procs st) src (p_vaddr h)) (\<lambda>to.
        res_bind (va2la (mm_procs st) TASK_MM (mmbuf + p_offset h)) (\<lambda>from.
        let st1 = st\<lparr>mm_mem := memcpy to from (unat (p_filesz h)) (mm_mem st)\<rparr>
        in res_bind (assert_c (p_vaddr h < of_int PROC_DEFAULT_IMG_SIZE) ''pPh->p_vaddr < PROC_DEFAULT_IMG_SIZE'')
             (\<lambda>_. Inr st1)))
      else Inr st)"

fun load_segments :: "int \<Rightarrow> nat list \<Rightarrow> mm_state \<Rightarrow> mm_state res" where
  "load_segments src [] st = Inr st"
| "load_segments src (i # is) st =
     (let h = ehdr_at (mm_mem st) mmbuf
      in res_bind (load_segment src (phdr_at (mm_mem st) (phdr_addr mmbuf h i)) st) (\<lambda>st1.
         load_segments src is st1))"

text \<open>The new stack and the registers, from the end of the loop over the program headers on.\<close>

definition exec_stack :: "MESSAGE \<Rightarrow> u8 list \<Rightarrow> mm_state \<Rightarrow> mm_state res" where
  "exec_stack msg path st =
     (let src = source msg; buf_len = nat (BUF_LEN msg)
      in if BUF_LEN msg > PROC_ORIGIN_STACK then Inl (BadAccess ''stk'')
         else res_bind (va2la (mm_procs st) src (BUF msg)) (\<lambda>from.
         let stk = mem_bytes (mm_mem st) from buf_len;
             stk_pos = of_int (PROC_DEFAULT_IMG_SIZE - PROC_ORIGIN_STACK);
             delta = stk_pos - BUF msg
         in res_bind (relocate delta stk) (\<lambda>(stk', argc).
            res_bind (va2la (mm_procs st) src stk_pos) (\<lambda>to.
            if length path \<ge> 16 then Inl (BadAccess ''p_name'')
            else let regs' = (regs (mm_procs st src))\<lparr>eax := stk_pos, ecx := of_nat argc,
                               eip := e_entry (ehdr_at (mm_mem st) mmbuf), esp := stk_pos\<rparr>
                 in Inr (mm_upd src (\<lambda>p. p\<lparr>regs := regs', p_name := copy_name (map (\<lambda>b. chr (uint b)) path) (p_name p)\<rparr>)
                      (st\<lparr>mm_mem := write_bytes to stk' (mm_mem st)\<rparr>))))))"

text \<open>A path as the bytes up to the terminating zero that \<^verbatim>\<open>do_exec\<close> appends.\<close>

definition do_exec :: "(u8 list \<Rightarrow> u8 list option) \<Rightarrow> MESSAGE \<Rightarrow> mm_state \<Rightarrow> (int \<times> mm_state) res" where
  "do_exec file msg st =
     (let src = source msg
      in res_bind (assert_c (NAME_LEN msg < MAX_PATH) ''msg->NAME_LEN < MAX_PATH'') (\<lambda>_.
         res_bind (va2la (mm_procs st) src (PATHNAME msg)) (\<lambda>from.
         let path = takeWhile (\<lambda>b. b \<noteq> 0) (mem_bytes (mm_mem st) from (nat (NAME_LEN msg)))
         in case file path of
              None \<Rightarrow> Inr (- 1, st)
            | Some contents \<Rightarrow>
                res_bind (assert_c (int (length contents) \<le> MMBUF_SIZE) ''s.st_size <= MMBUF_SIZE'') (\<lambda>_.
                let st1 = st\<lparr>mm_mem := write_bytes mmbuf contents (mm_mem st)\<rparr>
                in res_bind (load_segments src [0..<unat (e_phnum (ehdr_at (mm_mem st1) mmbuf))] st1) (\<lambda>st2.
                   res_bind (exec_stack msg path st2) (\<lambda>st3. Inr (0, st3)))))))"

text \<open>The dispatch of \<^verbatim>\<open>task_mm\<close> on a received message.\<close>

definition mm_reply :: "int \<Rightarrow> MESSAGE \<Rightarrow> mm_state \<Rightarrow> mm_state" where
  "mm_reply src msg st = mm_send SEND src (msg\<lparr>mtype := SYSCALL_RET\<rparr>) st"

definition mm_dispatch :: "(u8 list \<Rightarrow> u8 list option) \<Rightarrow> MESSAGE \<Rightarrow> mm_state \<Rightarrow> mm_state res" where
  "mm_dispatch file msg st =
     (if mtype msg = FORK then
        res_bind (do_fork msg st) (\<lambda>(r, msg', st1). Inr (mm_reply (source msg) (msg'\<lparr>m3i1 := r\<rparr>) st1))
      else if mtype msg = EXIT then do_exit msg st
      else if mtype msg = WAIT then Inr (do_wait msg st)
      else if mtype msg = EXEC then
        res_bind (do_exec file msg st) (\<lambda>(r, st1). Inr (mm_reply (source msg) (msg\<lparr>m3i1 := r\<rparr>) st1))
      else Inl (Panic ''mm unknown msg type''))"

definition init_mm :: "mm_state \<Rightarrow> mm_state res" where
  "init_mm st = res_bind (get_boot_param (mm_mem st)) (\<lambda>(size, _). Inr (st\<lparr>memory_size := size\<rparr>))"

section \<open>The block moves as a whole\<close>

lemma length_concat_bytes [simp]: "length (concat (map bytes_of ps)) = 4 * length ps"
  by (induction ps) simp_all

lemma relocate_block:
  "0 \<notin> set ps \<Longrightarrow> relocate delta (concat (map bytes_of ps) @ [0, 0, 0, 0] @ bs) =
     Inr (concat (map (\<lambda>p. bytes_of (p + delta)) ps) @ [0, 0, 0, 0] @ bs, length ps)"
proof (induction ps)
  case Nil
  have "word_of [0, 0, 0, 0] = 0"
    by (simp add: word_of_def)
  then show ?case by simp
next
  case (Cons p ps)
  then show ?case by (simp add: bytes_of_def)
qed

lemma exec_strings_move:
  "exec_strings (stk + d) n argv =
     (map (\<lambda>p. p + d) (fst (exec_strings stk n argv)), snd (exec_strings stk n argv))"
  by (induction stk n argv rule: exec_strings.induct) (auto split: prod.splits simp: ac_simps)

lemma length_exec_pointers [simp]: "length (fst (exec_strings stk n argv)) = length argv"
  by (induction stk n argv rule: exec_strings.induct) (auto split: prod.splits)

lemma nth_exec_pointers:
  "i < length argv \<Longrightarrow> fst (exec_strings stk n argv) ! i = stk + of_nat (n + length (concat (map (\<lambda>a. a @ [0::u8]) (take i argv))))"
proof (induction stk n argv arbitrary: i rule: exec_strings.induct)
  case (2 stk n a as)
  then show ?case
    by (cases i) (auto split: prod.splits simp: ac_simps)
qed simp

lemma exec_bytes: "snd (exec_strings stk n argv) = concat (map (\<lambda>a. a @ [0]) argv)"
  by (induction stk n argv rule: exec_strings.induct) (auto split: prod.splits)

lemma length_exec_block: "length (exec_block stk argv) = 4 * length argv + 4 + length (concat (map (\<lambda>a. a @ [0::u8]) argv))"
  using exec_bytes [of stk "4 * length argv + 4" argv]
  by (auto simp: exec_block_def split: prod.splits) (metis fst_conv length_exec_pointers)

lemma exec_block_eq:
  "exec_block stk argv = concat (map bytes_of (fst (exec_strings stk (4 * length argv + 4) argv))) @ [0, 0, 0, 0] @
     concat (map (\<lambda>a. a @ [0]) argv)"
  using exec_bytes [of stk "4 * length argv + 4" argv] by (auto simp: exec_block_def split: prod.splits)

lemma exec_offset_bound:
  "i < length argv \<Longrightarrow> length (concat (map (\<lambda>a. a @ [0::u8]) (take i argv))) < length (concat (map (\<lambda>a. a @ [0::u8]) argv))"
proof (induction argv arbitrary: i)
  case (Cons a as)
  then show ?case
    by (cases i) auto
qed simp

text \<open>A block that does not reach the end of the address space has no null pointer in it.\<close>

lemma exec_pointers_nonzero:
  assumes "0 < unat stk" "unat stk + length (exec_block stk argv) \<le> 2 ^ 32"
  shows "0 \<notin> set (fst (exec_strings stk (4 * length argv + 4) argv))"
proof
  assume "0 \<in> set (fst (exec_strings stk (4 * length argv + 4) argv))"
  then obtain i where i: "i < length argv" "fst (exec_strings stk (4 * length argv + 4) argv) ! i = 0"
    by (auto simp: in_set_conv_nth)
  let ?k = "4 * length argv + 4 + length (concat (map (\<lambda>a. a @ [0::u8]) (take i argv)))"
  have "?k < length (exec_block stk argv)"
    using exec_offset_bound [OF i(1)] by (simp add: length_exec_block)
  then have "unat (stk + of_nat ?k) = unat stk + ?k"
    by (rule unat_add_nat [OF assms(2)])
  then show False
    using i nth_exec_pointers [OF i(1), of stk "4 * length argv + 4"] assms(1) by simp
qed

lemma relocate_exec_block:
  assumes "0 < unat stk" "unat stk + length (exec_block stk argv) \<le> 2 ^ 32"
  shows "relocate delta (exec_block stk argv) = Inr (exec_block (stk + delta) argv, length argv)"
  unfolding exec_block_eq
  using relocate_block [OF exec_pointers_nonzero [OF assms], of delta "concat (map (\<lambda>a. a @ [0]) argv)"]
  by (simp add: exec_strings_move comp_def)

text \<open>What the new program finds: the strings its argument vector points to.\<close>

definition read_argv :: "u32 \<Rightarrow> u8 list \<Rightarrow> nat \<Rightarrow> u8 list list" where
  "read_argv stk blk argc =
     map (\<lambda>i. takeWhile (\<lambda>b. b \<noteq> 0) (drop (unat (word_of (take 4 (drop (4 * i) blk)) - stk)) blk)) [0..<argc]"

lemma take_drop_concat:
  "i < length ps \<Longrightarrow> take 4 (drop (4 * i) (concat (map bytes_of ps) @ rest)) = bytes_of (ps ! i)"
proof (induction ps arbitrary: i)
  case (Cons p ps)
  show ?case
  proof (cases i)
    case 0
    then show ?thesis by simp
  next
    case (Suc k)
    have "drop (4 * i) (concat (map bytes_of (p # ps)) @ rest) = drop (4 * k) (concat (map bytes_of ps) @ rest)"
      using Suc by simp
    then show ?thesis
      using Cons Suc by simp
  qed
qed simp

lemma drop_concat_strings:
  "i < length argv \<Longrightarrow>
   drop (length (concat (map (\<lambda>a. a @ [0::u8]) (take i argv)))) (concat (map (\<lambda>a. a @ [0]) argv)) =
   argv ! i @ 0 # concat (map (\<lambda>a. a @ [0]) (drop (Suc i) argv))"
proof (induction argv arbitrary: i)
  case (Cons a as)
  then show ?case
    by (cases i) auto
qed simp

lemma read_argv_exec_block:
  assumes "\<forall>a\<in>set argv. 0 \<notin> set a" "length (exec_block stk argv) \<le> 2 ^ 32"
  shows "read_argv stk (exec_block stk argv) (length argv) = argv"
proof (rule nth_equalityI)
  fix i assume "i < length (read_argv stk (exec_block stk argv) (length argv))"
  then have i: "i < length argv"
    by (simp add: read_argv_def)
  let ?n = "4 * length argv + 4"
  let ?k = "length (concat (map (\<lambda>a. a @ [0::u8]) (take i argv)))"
  have "take 4 (drop (4 * i) (exec_block stk argv)) = bytes_of (stk + of_nat (?n + ?k))"
    unfolding exec_block_eq using take_drop_concat [of i "fst (exec_strings stk ?n argv)"] i
      nth_exec_pointers [OF i, of stk ?n] by simp
  then have p: "word_of (take 4 (drop (4 * i) (exec_block stk argv))) - stk = of_nat (?n + ?k)"
    by (simp add: bytes_of_def)
  have "?n + ?k < length (exec_block stk argv)"
    using exec_offset_bound [OF i] by (simp add: length_exec_block)
  then have "?n + ?k < 2 ^ 32"
    using assms(2) by linarith
  then have u: "unat (of_nat (?n + ?k) :: u32) = ?n + ?k"
    unfolding unsigned_of_nat by (simp add: take_bit_nat_eq_self)
  have "drop (?n + ?k) (exec_block stk argv) = argv ! i @ 0 # concat (map (\<lambda>a. a @ [0]) (drop (Suc i) argv))"
    unfolding exec_block_eq using drop_concat_strings [OF i] by (simp add: eval_nat_numeral comp_def)
  moreover have "takeWhile (\<lambda>b. b \<noteq> 0) (argv ! i @ 0 # rest) = argv ! i" for rest
    using assms(1) i by (subst takeWhile_append2) (auto dest: nth_mem)
  ultimately show "read_argv stk (exec_block stk argv) (length argv) ! i = argv ! i"
    using i p u by (simp add: read_argv_def)
qed (simp add: read_argv_def)

section \<open>The kernel's segments\<close>

lemma map_step_bounds:
  "fst (map_step h bt) \<le> fst bt \<and> snd bt \<le> snd (map_step h bt) \<and>
   (p_type h = PT_LOAD \<longrightarrow> fst (map_step h bt) \<le> p_vaddr h \<and> p_vaddr h + p_memsz h \<le> snd (map_step h bt))"
  by (cases bt) (auto simp: map_step_def Let_def not_less)

lemma fold_map_step_bounds:
  "fst (fold map_step hs bt) \<le> fst bt \<and> snd bt \<le> snd (fold map_step hs bt) \<and>
   (\<forall>h\<in>set hs. p_type h = PT_LOAD \<longrightarrow>
      fst (fold map_step hs bt) \<le> p_vaddr h \<and> p_vaddr h + p_memsz h \<le> snd (fold map_step hs bt))"
proof (induction hs arbitrary: bt)
  case (Cons h hs)
  note IH = Cons.IH [of "map_step h bt"] and m = map_step_bounds [of h bt]
  show ?case
    using IH m by (auto intro: order_trans)
qed simp

end
