(* ===== verification/Processes.thy ===== *)
theory Processes
  imports Exec Kernel
begin

text \<open>
  The life of a process: what \<^verbatim>\<open>fork\<close>, \<^verbatim>\<open>exit\<close> and \<^verbatim>\<open>wait\<close> of theory \<^verbatim>\<open>Mm\<close> promise, alone and together
  with the message passing of the kernel, with a concrete process table to apply them to.
\<close>

section \<open>A new entry in the process table\<close>

text \<open>An entry at which nobody is queued can be overwritten by one that is not sending.\<close>

lemma ipc_inv_new_entry:
  assumes inv: "ipc_inv Q pt" and i: "7 \<le> i"
    and s: "\<not> flag SENDING (pt i)" "\<not> flag SENDING p" "proc_ok i p" "Q i = []" "q_sending p = None"
  shows "ipc_inv Q (pt(i := p))"
proof -
  have w: "waits (pt(i := p)) = waits pt"
    using s(1,2) by (rule waits_upd_idle)
  have q: "queue_ok Q (pt(i := p)) j" if "valid_pid j" for j
  proof -
    have qj: "queue_ok Q pt j"
      using ipc_invD(2) [OF inv that] .
    have "i \<notin> set (Q j)"
      using qj s(1) by (auto simp: queue_ok_def waits_def)
    then have "qpath (\<lambda>k. next_sending ((pt(i := p)) k)) x (Q j) = qpath (\<lambda>k. next_sending (pt k)) x (Q j)" for x
      by (intro qpath_cong) auto
    then show ?thesis
      using qj s(4,5) w by (cases "j = i") (auto simp: queue_ok_def)
  qed
  have "flat_native (pt(i := p))"
    using ipc_invD(4) [OF inv] i by (auto simp: flat_native_def)
  then show ?thesis
    using inv s(3) q w by (auto simp: ipc_inv_def)
qed

lemma child_entry_fields [simp]:
  "p_flags (child_entry p s ppid pid) = p_flags p" "p_msg (child_entry p s ppid pid) = p_msg p"
  "p_recvfrom (child_entry p s ppid pid) = p_recvfrom p" "p_sendto (child_entry p s ppid pid) = p_sendto p"
  "q_sending (child_entry p s ppid pid) = q_sending p" "p_parent (child_entry p s ppid pid) = ppid"
  "has_int_msg (child_entry p s ppid pid) = has_int_msg p" "regs (child_entry p s ppid pid) = regs p"
  "ldts (child_entry p s ppid pid) = child_ldts (ldts p) (image_base pid)" "filp (child_entry p s ppid pid) = filp p"
  "flag m (child_entry p s ppid pid) = flag m p"
  by (simp_all add: child_entry_def flag_def)

lemma seg_base_descriptor: "seg_base_of d = descriptor_base d"
  by (simp add: seg_base_of_def reassembly_base)

lemma child_segments [simp]:
  "seg_base_of (child_ldts l b INDEX_LDT_C) = b" "ldt_seg_linear (p\<lparr>ldts := child_ldts l b\<rparr>) INDEX_LDT_RW = b"
  by (simp_all add: seg_base_descriptor child_ldts_def ldt_seg_linear_def)

text \<open>What \<^verbatim>\<open>fork\<close> leaves in the process table and in memory.\<close>

definition fork_post :: "int \<Rightarrow> int \<Rightarrow> mm_state \<Rightarrow> mm_state \<Rightarrow> bool" where
  "fork_post parent pid st st' \<longleftrightarrow>
     mm_procs st' = (mm_procs st)(pid := child_entry (mm_procs st parent) (mm_procs st pid) parent pid) \<and>
     mem_bytes (mm_mem st') (image_base pid) (length (image_bytes (mm_procs st) (mm_mem st) parent)) =
       image_bytes (mm_procs st) (mm_mem st) parent \<and>
     (\<forall>a. unat a < unat (image_base pid) \<or> unat (image_base pid) + 0x100000 \<le> unat a \<longrightarrow>
        mm_mem st' a = mm_mem st a) \<and>
     mm_sent st' = mm_sent st @ [(BOTH, TASK_FS, (mm_junk st)\<lparr>mtype := FORK, m3i2 := pid\<rparr>),
       (SEND, pid, (mm_junk st)\<lparr>m3i2 := 0, m3i1 := 0, mtype := SYSCALL_RET\<rparr>)]"

lemma do_fork_post:
  assumes r: "fork_ready (source msg) pid st"
  shows "\<exists>st'. do_fork msg st = Inr (0, msg\<lparr>m3i2 := pid\<rparr>, st') \<and> fork_post (source msg) pid st st'"
proof -
  let ?img = "image_bytes (mm_procs st) (mm_mem st) (source msg)"
  have n: "length ?img \<le> 0x100000"
    using r unfolding fork_ready_def Let_def image_bytes_def length_mem_bytes by blast
  have pid: "7 \<le> pid" "pid < 37"
    using r by (simp_all add: fork_ready_def)
  note u = unat_image_base [OF pid]
  have small: "nat (pid - 7) * 0x100000 \<le> 30 * 0x100000"
    using pid by (intro mult_le_mono1) simp
  have rd: "mem_bytes (write_bytes (image_base pid) ?img (mm_mem st)) (image_base pid) (length ?img) = ?img"
    using n by (intro mem_bytes_write_bytes) simp
  have out: "write_bytes (image_base pid) ?img (mm_mem st) a = mm_mem st a"
    if "unat a < unat (image_base pid) \<or> unat (image_base pid) + 0x100000 \<le> unat a" for a
  proof (rule write_bytes_outside)
    fix i assume i: "i < length ?img"
    have "unat (image_base pid + of_nat i) = unat (image_base pid) + i"
      using i n u small by (intro unat_add_nat [of _ "length ?img"]) simp_all
    then show "a \<noteq> image_base pid + of_nat i"
      using that i n by auto
  qed
  show ?thesis
    unfolding do_fork_ready [OF r] fork_post_def using rd out by simp
qed

section \<open>Properties of fork\<close>

text \<open>
  C19. \<^verbatim>\<open>fork\<close> succeeds whenever a slot is free, the name fits and the caller's image fits: the child
  is a copy of the caller (registers, open files, state of its message passing) with its own
  descriptors, its memory is a byte for byte copy at the child's place, no other entry of the
  process table and no byte outside the child's image changes, and the file system and the child
  are told.
\<close>
theorem fork_correct:
  assumes "fork_ready (source msg) pid st"
  shows "\<exists>st'. do_fork msg st = Inr (0, msg\<lparr>m3i2 := pid\<rparr>, st') \<and> fork_post (source msg) pid st st'"
  using do_fork_post [OF assms] .

text \<open>A table in which process 7 waits for the answer to its \<^verbatim>\<open>fork\<close>.\<close>

definition shell :: PROCESS where
  "shell = zero_process\<lparr>p_name := copy_name ''sh'' (replicate 16 (CHR 0x00)), p_flags := RECEIVING, p_recvfrom := TASK_MM, p_sendto := NO_TASK,
     p_msg := 0x2000, p_parent := INIT, ldts := child_ldts (\<lambda>_. zero_descriptor) 0xA00000\<rparr>"

definition idle :: PROCESS where
  "idle = zero_process\<lparr>p_recvfrom := NO_TASK, p_sendto := NO_TASK, p_parent := NO_TASK\<rparr>"

definition slot :: PROCESS where
  "slot = idle\<lparr>p_flags := FREE_SLOT\<rparr>"

definition table0 :: proc_tab where
  "table0 i = (if i < 7 then idle else if i = 7 then shell else slot)"

definition mm0 :: mm_state where
  "mm0 = \<lparr>mm_procs = table0, mm_mem = (\<lambda>a. ucast a), memory_size = 0x2000000, mm_sent = [], mm_junk = reset_msg\<rparr>"

definition fork_msg :: MESSAGE where
  "fork_msg = reset_msg\<lparr>source := 7, mtype := FORK\<rparr>"

lemma child_limit:
  "T_limit (child_ldts l b INDEX_LDT_C) = 0xFF" "T_limit (child_ldts l b INDEX_LDT_RW) = 0xFF"
  "limit_high_attr2 (child_ldts l b INDEX_LDT_C) AND 0x80 \<noteq> 0"
  "limit_high_attr2 (child_ldts l b INDEX_LDT_RW) AND 0x80 \<noteq> 0"
  by (simp_all add: child_ldts_def init_descriptor_def T_limit_def reassembly_def)

lemma child_base_rw: "seg_base_of (child_ldts l b INDEX_LDT_RW) = b"
  by (simp add: child_ldts_def seg_base_descriptor)

lemma child_seg_size:
  "seg_size 0xFF (child_ldts l b INDEX_LDT_C) = 0x100000" "seg_size 0xFF (child_ldts l b INDEX_LDT_RW) = 0x100000"
  using child_limit(3,4) by (simp_all add: seg_size_def)

lemma table0_flags: "p_flags (table0 i) = (if i < 7 then 0 else if i = 7 then RECEIVING else FREE_SLOT)"
  by (simp add: table0_def idle_def shell_def slot_def zero_process_def)

lemma decimal_8: "decimal 8 = ''8''"
proof -
  have "chr 56 = CHR ''8''"
    by code_simp
  then show ?thesis
    by (simp add: decimal_def i2a.simps [of 8] signed_divide_int_def signed_modulo_int_def digit_def)
qed

lemma fork_ready0: "fork_ready 7 8 mm0"
proof -
  have "find_slot table0 all_procs = 8"
    by (rule find_slot_unique) (auto simp: table0_flags valid_pid_def)
  moreover have "name_fits (p_name (table0 7)) 8" "ldts (table0 7) = child_ldts (\<lambda>_. zero_descriptor) 0xA00000"
    by (simp_all add: table0_def shell_def name_fits_def decimal_8) (simp add: copy_name_def)
  ultimately show ?thesis
    unfolding fork_ready_def Let_def
    by (simp add: mm0_def child_limit child_seg_size child_base_rw decimal_8 del: One_nat_def)
qed

theorem fork_correct_witness:
  "fork_ready 7 8 mm0 \<and>
   (\<exists>st'. do_fork fork_msg mm0 = Inr (0, fork_msg\<lparr>m3i2 := 8\<rparr>, st') \<and> fork_post 7 8 mm0 st')"
  using fork_correct [of fork_msg 8 mm0] fork_ready0 by (simp add: fork_msg_def)

text \<open>
  The name of a child is the caller's name and its own number, as long as a zero follows in the array. \<^verbatim>\<open>sprintf\<close> stores none: after
  the caller has loaded a program with a shorter name, a piece of the old one remains behind the zero and becomes part of the
  child's name.
\<close>
lemma child_name_clean:
  assumes "CHR 0x00 \<notin> set (decimal pid)" "drop (length (c_name old) + 1 + length (decimal pid)) old = CHR 0x00 # rest"
  shows "c_name (child_name old pid) = c_name old @ ''_'' @ decimal pid"
proof -
  let ?s = "c_name old @ ''_'' @ decimal pid"
  have "CHR 0x00 \<notin> set ?s"
    using assms(1) set_takeWhileD [of _ "\<lambda>c. c \<noteq> CHR 0x00" old] by (auto simp: c_name_def)
  moreover have "child_name old pid = ?s @ CHR 0x00 # rest"
    using assms(2) by (simp add: child_name_def store_at_def)
  ultimately show ?thesis
    using c_name_ends [of ?s rest] by simp
qed

lemma child_name_stale:
  "c_name (child_name (copy_name ''ab'' (''INIT_7'' @ replicate 10 (CHR 0x00))) 8) = ''ab_8_7''"
  by (simp add: child_name_def c_name_def copy_name_def store_at_def decimal_8 numeral_eq_Suc)

text \<open>A new entry that shares the sender queue of another.\<close>

lemma aliased_queue:
  assumes inv: "ipc_inv Q pt" "valid_pid i" "valid_pid j" "i \<noteq> j"
    and q: "q_sending (pt i) \<noteq> None" "q_sending c = q_sending (pt i)" "\<not> flag SENDING (pt j)" "\<not> flag SENDING c"
  shows "\<not> ipc_inv Q' (pt(j := c))"
proof
  assume inv': "ipc_inv Q' (pt(j := c))"
  obtain x where x: "q_sending (pt i) = Some x"
    using q(1) by auto
  have w: "waits (pt(j := c)) = waits pt"
    using q(3,4) by (rule waits_upd_idle)
  have "x \<in> set (Q i)"
    using ipc_invD(2) [OF inv(1,2)] x by (cases "Q i") (auto simp: queue_ok_def)
  then have "(x, i) \<in> waits pt"
    using ipc_invD(2) [OF inv(1,2)] by (simp add: queue_ok_def)
  moreover have "x \<in> set (Q' j)"
    using ipc_invD(2) [OF inv' inv(3)] x q(2) by (cases "Q' j") (auto simp: queue_ok_def)
  then have "(x, j) \<in> waits pt"
    using ipc_invD(2) [OF inv' inv(3)] w by (simp add: queue_ok_def)
  ultimately show False
    using inv(4) by (simp add: waits_def)
qed

text \<open>
  C20. The answer to \<^verbatim>\<open>fork\<close> reaches the child: if no sender is queued at the caller, nor at the free slot the child gets, then after \<^verbatim>\<open>do_fork\<close> the
  invariant of message passing still holds, and the kernel delivers the memory manager's message to the child at once, into the
  child's own copy of the caller's buffer, and makes the child runnable. With a sender queued at the caller \<^verbatim>\<open>do_fork\<close> also
  returns, but the child's entry is a copy of the caller's with its \<^verbatim>\<open>q_sending\<close>: the child's queue is the caller's, and the invariant does
  not hold afterwards for any assignment of senders to processes.
\<close>
theorem fork_wakes_child:
  assumes r: "fork_ready (source msg) pid st" and inv: "ipc_inv Q (mm_procs st)" and v: "valid_pid (source msg)"
    and p: "p_flags (mm_procs st (source msg)) = RECEIVING" "p_recvfrom (mm_procs st (source msg)) = TASK_MM"
    and mm: "p_flags (mm_procs st TASK_MM) = 0" and q: "Q pid = []" and m: "m \<noteq> 0"
  shows "\<exists>st'. do_fork msg st = Inr (0, msg\<lparr>m3i2 := pid\<rparr>, st') \<and>
    (if q_sending (mm_procs st (source msg)) = None then
       ipc_inv Q (mm_procs st') \<and>
       (\<forall>ks. proc_table ks = mm_procs st' \<longrightarrow>
         (\<exists>ks'. msg_send TASK_MM pid m ks = Inr ks' \<and> p_flags (proc_table ks' pid) = 0 \<and>
            msgmem ks' = (msgmem ks)(p_msg (mm_procs st (source msg)) + image_base pid := msgmem ks m)))
     else \<forall>Q'. \<not> ipc_inv Q' (mm_procs st'))"
proof -
  obtain st' where st': "do_fork msg st = Inr (0, msg\<lparr>m3i2 := pid\<rparr>, st')" "fork_post (source msg) pid st st'"
    using do_fork_post [OF r] by blast
  let ?c = "child_entry (mm_procs st (source msg)) (mm_procs st pid) (source msg) pid"
  have pid: "7 \<le> pid" "pid < 37" "valid_pid pid" "find_slot (mm_procs st) all_procs = pid"
    using r by (auto simp: fork_ready_def valid_pid_def)
  have free: "p_flags (mm_procs st pid) = FREE_SLOT"
    using find_slot_free [of "mm_procs st"] pid by simp
  have pt: "mm_procs st' = (mm_procs st)(pid := ?c)"
    using st'(2) by (simp add: fork_post_def)
  have po: "proc_ok (source msg) (mm_procs st (source msg))"
    using ipc_invD(1) [OF inv v] .
  have "proc_ok pid ?c"
    using po p by (auto simp: proc_ok_def)
  then have inv': "ipc_inv Q (mm_procs st')" if "q_sending (mm_procs st (source msg)) = None"
    unfolding pt using inv pid(1) free p q that by (intro ipc_inv_new_entry) simp_all
  have deliver: "\<exists>ks'. msg_send TASK_MM pid m ks = Inr ks' \<and> p_flags (proc_table ks' pid) = 0 \<and>
      msgmem ks' = (msgmem ks)(p_msg (mm_procs st (source msg)) + image_base pid := msgmem ks m)"
    if k: "proc_table ks = mm_procs st'" and none: "q_sending (mm_procs st (source msg)) = None" for ks
  proof -
    have rf: "receives_from (proc_table ks pid) TASK_MM" "p_flags (proc_table ks pid) = RECEIVING"
      using p by (simp_all add: k pt receives_from_def)
    have "\<not> flag SENDING (proc_table ks pid)"
      using p by (simp add: k pt)
    then have nw: "(pid, TASK_MM) \<notin> (waits (proc_table ks))\<^sup>+"
      by (auto simp: waits_def dest!: tranclD)
    obtain ks' where ks': "msg_send TASK_MM pid m ks = Inr ks'" "send_outcome Q TASK_MM pid m ks ks'"
      using msg_send_spec [of Q ks TASK_MM pid m] inv' [OF none] k pid mm m rf nw pt by (auto simp: valid_pid_def)
    have "la_of (proc_table ks) TASK_MM m = m"
      using ipc_invD(4) [OF inv' [OF none]] by (simp add: k la_of_def flat_native_def valid_pid_def)
    moreover have "la_of (proc_table ks) pid (p_msg (proc_table ks pid)) =
        p_msg (mm_procs st (source msg)) + image_base pid"
      by (simp add: k pt la_of_def ldt_seg_linear_def child_ldts_def)
    ultimately show ?thesis
      using ks' rf(1) by (auto simp: send_outcome_def)
  qed
  have "\<not> ipc_inv Q' (mm_procs st')" if "q_sending (mm_procs st (source msg)) \<noteq> None" for Q'
  proof -
    have "source msg \<noteq> pid"
      using free p(1) by auto
    then show ?thesis
      unfolding pt using that inv v pid(3) free p by (intro aliased_queue [of Q]) simp_all
  qed
  then show ?thesis
    using st'(1) inv' deliver by auto
qed

lemma table0_inv: "ipc_inv (\<lambda>_. []) table0"
proof -
  have s: "\<not> flag SENDING (table0 i)" for i
    by (simp add: flag_def table0_flags)
  then have w: "waits table0 = {}"
    by (simp add: waits_def)
  have "proc_ok i (table0 i)" if "valid_pid i" for i
    using that by (auto simp: proc_ok_def table0_def flag_def idle_def shell_def slot_def zero_process_def)
  moreover have "queue_ok (\<lambda>_. []) table0 i" for i
    by (simp add: queue_ok_def w table0_def idle_def shell_def slot_def zero_process_def)
  moreover have "flat_native table0"
    by (auto simp: flat_native_def table0_def idle_def zero_process_def zero_descriptor_def ldt_seg_linear_def
        descriptor_base_def)
  ultimately show ?thesis
    by (simp add: ipc_inv_def w acyclic_def)
qed

theorem fork_wakes_child_witness:
  "\<exists>st'. do_fork fork_msg mm0 = Inr (0, fork_msg\<lparr>m3i2 := 8\<rparr>, st') \<and> ipc_inv (\<lambda>_. []) (mm_procs st') \<and>
    (\<exists>ks'. msg_send TASK_MM 8 0x5000 (cold\<lparr>proc_table := mm_procs st'\<rparr>) = Inr ks' \<and>
       p_flags (proc_table ks' 8) = 0)"
proof -
  have src: "source fork_msg = 7" "mm_procs mm0 = table0"
    by (simp_all add: fork_msg_def mm0_def)
  have f: "p_flags (table0 7) = RECEIVING" "p_recvfrom (table0 7) = TASK_MM" "q_sending (table0 7) = None"
    "p_flags (table0 TASK_MM) = 0"
    by (simp_all add: table0_def shell_def idle_def zero_process_def)
  have v: "valid_pid 7"
    by (simp add: valid_pid_def)
  obtain st' where "do_fork fork_msg mm0 = Inr (0, fork_msg\<lparr>m3i2 := 8\<rparr>, st')" "ipc_inv (\<lambda>_. []) (mm_procs st')"
    "\<forall>ks. proc_table ks = mm_procs st' \<longrightarrow> (\<exists>ks'. msg_send TASK_MM 8 0x5000 ks = Inr ks' \<and>
       p_flags (proc_table ks' 8) = 0)"
    using fork_wakes_child [of fork_msg 8 mm0 "\<lambda>_. []" "0x5000", unfolded src, OF fork_ready0 table0_inv v f(1,2,4)] f(3)
    by fastforce
  moreover have "proc_table (cold\<lparr>proc_table := mm_procs st'\<rparr>) = mm_procs st'"
    by simp
  ultimately show ?thesis
    by blast
qed

text \<open>
  C23. The memory of two processes never overlaps: whatever \<^verbatim>\<open>alloc_mem\<close> grants to different process
  numbers are disjoint ranges, above the kernel's buffers and inside the machine's memory.
\<close>
theorem alloc_mem_disjoint:
  assumes "alloc_mem p n st = Inr a" "alloc_mem q k st = Inr b" "p \<noteq> q"
  shows "{a..<a + n} \<inter> {b..<b + k} = {} \<and> 0xA00000 \<le> a \<and> a + n \<le> memory_size st"
proof -
  note A = alloc_mem_Inr [OF assms(1)] and B = alloc_mem_Inr [OF assms(2)]
  have "p + 1 \<le> q \<or> q + 1 \<le> p"
    using assms(3) by linarith
  then have "(p - 7) * 0x100000 + 0x100000 \<le> (q - 7) * 0x100000 \<or> (q - 7) * 0x100000 + 0x100000 \<le> (p - 7) * 0x100000"
    by auto
  then have "a + 0x100000 \<le> b \<or> b + 0x100000 \<le> a"
    using A B by auto
  then show ?thesis
    using A B by auto
qed

theorem alloc_mem_disjoint_witness:
  "alloc_mem 7 0x100000 mm0 = Inr 0xA00000 \<and> alloc_mem 8 0x1000 mm0 = Inr 0xB00000 \<and>
   {0xA00000..<0xA00000 + 0x100000} \<inter> {0xB00000..<0xB00000 + 0x1000 :: int} = {}"
proof -
  have "alloc_mem 7 0x100000 mm0 = Inr 0xA00000" "alloc_mem 8 0x1000 mm0 = Inr 0xB00000"
    by (simp_all add: alloc_mem_def mm0_def)
  then show ?thesis
    using alloc_mem_disjoint [of 7 "0x100000" mm0 "0xA00000" 8 "0x1000" "0xB00000"] by simp
qed

section \<open>Properties of exit and wait\<close>

lemma fold_adopt_none:
  "(\<And>i. i \<in> set is \<Longrightarrow> p_parent (mm_procs st i) \<noteq> pid) \<Longrightarrow> fold (adopt pid) is st = st"
  by (induction "is") (simp_all add: adopt_def)

lemma exit_parent_children:
  assumes "exit_parent pid st = Inr st'"
  shows "p_parent (mm_procs st' i) = p_parent (mm_procs st i)"
  using assms by (auto simp: exit_parent_def Let_def split: if_splits)

text \<open>
  A family in which one child can end: the child belongs to the parent, has no children of its
  own, and no other child of the parent hangs.
\<close>

definition one_child_ends :: "int \<Rightarrow> int \<Rightarrow> proc_tab \<Rightarrow> bool" where
  "one_child_ends parent child pt \<longleftrightarrow> valid_pid child \<and> valid_pid parent \<and> parent \<noteq> child \<and>
     p_parent (pt child) = parent \<and> \<not> flag HANGING (pt child) \<and> \<not> flag WAITING (pt parent) \<and>
     (\<forall>i. valid_pid i \<longrightarrow> (p_parent (pt i) = parent \<longrightarrow> \<not> flag HANGING (pt i)) \<and> p_parent (pt i) \<noteq> child)"

definition reaped :: "int \<Rightarrow> int \<Rightarrow> int \<Rightarrow> mm_state \<Rightarrow> mm_state \<Rightarrow> bool" where
  "reaped parent child status st st' \<longleftrightarrow>
     mm_sent st' = mm_sent st @ [(BOTH, TASK_FS, (mm_junk st)\<lparr>mtype := EXIT, m3i2 := child\<rparr>),
       (SEND, parent, exit_report st child status)] \<and>
     p_flags (mm_procs st' child) = FREE_SLOT \<and> \<not> flag WAITING (mm_procs st' parent) \<and>
     (\<forall>i. i \<noteq> child \<longrightarrow> i \<noteq> parent \<longrightarrow> mm_procs st' i = mm_procs st i)"

lemma exit_then_wait:
  assumes f: "one_child_ends parent child (mm_procs st)" and src: "source ex = child" "source wt = parent"
  shows "\<exists>st1. do_exit ex st = Inr st1 \<and> reaped parent child (STATUS ex) st (do_wait wt st1)"
proof -
  let ?a = "mm_upd child (\<lambda>p. p\<lparr>exit_status := STATUS ex\<rparr>)
    (mm_send BOTH TASK_FS ((mm_junk st)\<lparr>mtype := EXIT, m3i2 := child\<rparr>) st)"
  let ?st1 = "mm_upd child (set_flag HANGING) ?a"
  have "exit_parent child ?a = Inr ?st1"
    using f by (simp add: one_child_ends_def exit_parent_def)
  moreover have "fold (adopt child) all_procs ?st1 = ?st1"
    using f by (intro fold_adopt_none) (auto simp: one_child_ends_def)
  ultimately have 1: "do_exit ex st = Inr ?st1"
    using src by (simp add: do_exit_def Let_def)
  obtain b r where w: "wait_scan (mm_procs ?st1) parent all_procs False = (b, r)"
    by (cases "wait_scan (mm_procs ?st1) parent all_procs False")
  have hang: "flag HANGING (mm_procs ?st1 child)" "p_parent (mm_procs ?st1 child) = parent" "child \<in> set all_procs"
    using f by (simp_all add: one_child_ends_def flag_set)
  have "r \<noteq> None"
  proof
    assume "r = None"
    with w have "wait_scan (mm_procs ?st1) parent all_procs False = (b, None)"
      by (simp only:)
    from wait_scan_None [OF this] hang show False
      by blast
  qed
  then have "r = Some child"
    using w wait_scan_Some [of "mm_procs ?st1" parent all_procs False b] f
    by (auto simp: one_child_ends_def split: if_splits)
  then have "do_wait wt ?st1 = cleanup child ?st1"
    using do_wait_cases(1) [of ?st1 wt b child] w src by simp
  then show ?thesis
    using 1 f by (auto simp: reaped_def one_child_ends_def exit_report_def)
qed

lemma wait_then_exit:
  assumes f: "one_child_ends parent child (mm_procs st)" and src: "source ex = child" "source wt = parent"
  shows "\<exists>st2. do_exit ex (do_wait wt st) = Inr st2 \<and> reaped parent child (STATUS ex) st st2"
proof -
  obtain b r where w: "wait_scan (mm_procs st) parent all_procs False = (b, r)"
    by (cases "wait_scan (mm_procs st) parent all_procs False")
  have "r = None"
    using w wait_scan_Some [of "mm_procs st" parent all_procs False b] f
    by (cases r) (auto simp: one_child_ends_def)
  moreover from this have "b"
    using w wait_scan_None [of "mm_procs st" parent all_procs False b] f
    by (auto simp: one_child_ends_def)
  ultimately have 1: "do_wait wt st = mm_upd parent (set_flag WAITING) st"
    using do_wait_cases(2) [of st wt] w src by simp
  let ?w = "mm_upd parent (set_flag WAITING) st"
  let ?a = "mm_upd child (\<lambda>p. p\<lparr>exit_status := STATUS ex\<rparr>)
    (mm_send BOTH TASK_FS ((mm_junk st)\<lparr>mtype := EXIT, m3i2 := child\<rparr>) ?w)"
  let ?st2 = "cleanup child (mm_upd parent (clear_flag WAITING) ?a)"
  have "exit_parent child ?a = Inr ?st2"
    using f by (simp add: one_child_ends_def exit_parent_def flag_set)
  moreover have "fold (adopt child) all_procs ?st2 = ?st2"
    using f by (intro fold_adopt_none) (auto simp: one_child_ends_def)
  ultimately have "do_exit ex ?w = Inr ?st2"
    using src by (simp add: do_exit_def Let_def)
  then show ?thesis
    unfolding 1 using f by (auto simp: reaped_def one_child_ends_def exit_report_def flag_clear)
qed

text \<open>
  C21. The exit status of a process reaches its parent exactly once, whichever of \<^verbatim>\<open>exit\<close> and \<^verbatim>\<open>wait\<close> comes
  first. If the parent already waits, \<^verbatim>\<open>exit\<close> wakes it with the child's number and status; if not,
  the child hangs until the parent's \<^verbatim>\<open>wait\<close> collects the same report. Either way the child's slot
  is free afterwards, the parent does not wait any more, and no other process is touched.
\<close>
theorem exit_wait_rendezvous:
  assumes "one_child_ends parent child (mm_procs st)" "source ex = child" "source wt = parent"
  shows "(\<exists>st1. do_exit ex st = Inr st1 \<and> reaped parent child (STATUS ex) st (do_wait wt st1)) \<and>
    (\<exists>st2. do_exit ex (do_wait wt st) = Inr st2 \<and> reaped parent child (STATUS ex) st st2)"
  using exit_then_wait [OF assms] wait_then_exit [OF assms] by blast

definition exit_msg :: MESSAGE where
  "exit_msg = reset_msg\<lparr>source := 7, mtype := EXIT, m3i1 := 42\<rparr>"

definition wait_msg :: MESSAGE where
  "wait_msg = reset_msg\<lparr>source := INIT, mtype := WAIT\<rparr>"

lemma table0_family: "one_child_ends INIT 7 (mm_procs mm0)"
  by (auto simp: one_child_ends_def mm0_def table0_def idle_def shell_def slot_def zero_process_def valid_pid_def
      flag_def split: if_splits)

theorem exit_wait_rendezvous_witness:
  "(\<exists>st1. do_exit exit_msg mm0 = Inr st1 \<and> reaped INIT 7 42 mm0 (do_wait wait_msg st1)) \<and>
   (\<exists>st2. do_exit exit_msg (do_wait wait_msg mm0) = Inr st2 \<and> reaped INIT 7 42 mm0 st2)"
  using exit_wait_rendezvous [OF table0_family, of exit_msg wait_msg] by (simp add: exit_msg_def wait_msg_def)

text \<open>
  C22. No child hangs under a parent that waits: \<^verbatim>\<open>exit\<close> (with the adoption of orphans by INIT) and \<^verbatim>\<open>wait\<close>
  keep this invariant, so a waiting parent has no ended child it could have collected.
\<close>
theorem wait_invariant:
  assumes "wait_inv (mm_procs st)" "valid_pid (source msg)" "valid_pid (p_parent (mm_procs st (source msg)))"
    "p_parent (mm_procs st (source msg)) \<noteq> source msg" "\<not> flag HANGING (mm_procs st (source msg))"
  shows "wait_inv (mm_procs (do_wait msg st)) \<and> (\<exists>st'. do_exit msg st = Inr st' \<and> wait_inv (mm_procs st'))"
proof -
  have "\<exists>st'. do_exit msg st = Inr st'"
    using assms(3) by (simp add: do_exit_def exit_parent_def Let_def)
  then show ?thesis
    using do_wait_wait_inv [OF assms(1,5)] do_exit_wait_inv [OF assms(1,2) _ assms(4)] by blast
qed

theorem wait_invariant_witness:
  "wait_inv (mm_procs (do_wait exit_msg mm0)) \<and> (\<exists>st'. do_exit exit_msg mm0 = Inr st' \<and> wait_inv (mm_procs st'))"
proof -
  have "wait_inv (mm_procs mm0)"
    by (auto simp: wait_inv_def mm0_def flag_def table0_flags)
  moreover have "valid_pid (source exit_msg)" "p_parent (mm_procs mm0 (source exit_msg)) \<noteq> source exit_msg"
    "\<not> flag HANGING (mm_procs mm0 (source exit_msg))" "valid_pid (p_parent (mm_procs mm0 (source exit_msg)))"
    by (simp_all add: exit_msg_def mm0_def table0_def shell_def valid_pid_def flag_def)
  ultimately show ?thesis
    by (intro wait_invariant)
qed

text \<open>
  What can happen while process \<open>p\<close> waits: the memory manager handles requests of other processes that exist, and between two
  requests the kernel and the processes run, which change neither who is whose parent nor which processes wait, hang
  or are free. (A message of \<open>p\<close> itself does not come: it is blocked until the memory manager answers.)
\<close>

definition kernel_keeps :: "proc_tab \<Rightarrow> proc_tab \<Rightarrow> bool" where
  "kernel_keeps pt pt' \<longleftrightarrow> (\<forall>i. p_parent (pt' i) = p_parent (pt i) \<and> flag WAITING (pt' i) = flag WAITING (pt i) \<and>
     flag HANGING (pt' i) = flag HANGING (pt i) \<and> (p_flags (pt' i) = FREE_SLOT \<longleftrightarrow> p_flags (pt i) = FREE_SLOT))"

inductive others_run :: "(u8 list \<Rightarrow> u8 list option) \<Rightarrow> int \<Rightarrow> mm_state \<Rightarrow> mm_state \<Rightarrow> bool" for fl p where
  run_start: "others_run fl p st st"
| run_request: "others_run fl p st st1 \<Longrightarrow> valid_pid (source m) \<Longrightarrow> source m \<noteq> p \<Longrightarrow>
    p_flags (mm_procs st1 (source m)) \<noteq> FREE_SLOT \<Longrightarrow> mm_dispatch fl m st1 = Inr st2 \<Longrightarrow> others_run fl p st st2"
| run_kernel: "others_run fl p st st1 \<Longrightarrow> kernel_keeps (mm_procs st1) pt \<Longrightarrow>
    others_run fl p st (st1\<lparr>mm_procs := pt, mm_mem := mem\<rparr>)"

text \<open>A process that waits and has only freed slots as children, and no message to it.\<close>

definition vain :: "int \<Rightarrow> (int \<times> int \<times> MESSAGE) list \<Rightarrow> mm_state \<Rightarrow> bool" where
  "vain p old st \<longleftrightarrow> flag WAITING (mm_procs st p) \<and> \<not> flag HANGING (mm_procs st p) \<and>
     (\<forall>i. valid_pid i \<and> p_parent (mm_procs st i) = p \<longrightarrow> p_flags (mm_procs st i) = FREE_SLOT) \<and>
     (\<exists>later. mm_sent st = old @ later \<and> (\<forall>x\<in>set later. fst (snd x) \<noteq> p))"

lemma flag_not_free: "flag WAITING p \<Longrightarrow> p_flags p \<noteq> FREE_SLOT"
  by (auto simp: flag_def)

lemma vain_send: "vain p old st \<Longrightarrow> d \<noteq> p \<Longrightarrow> vain p old (mm_send fn d m st)"
  by (fastforce simp: vain_def)

lemma vain_upd:
  assumes "vain p old st" "i \<noteq> p" "p_parent (f (mm_procs st i)) \<noteq> p \<or> p_flags (f (mm_procs st i)) = FREE_SLOT"
  shows "vain p old (mm_upd i f st)"
  using assms by (auto simp: vain_def)

lemma vain_cleanup:
  assumes "vain p old st" "i \<noteq> p" "p_parent (mm_procs st i) \<noteq> p"
  shows "vain p old (cleanup i st)"
  unfolding cleanup_def using assms by (intro vain_upd vain_send) simp_all

lemma vain_parent: "vain p old st \<Longrightarrow> valid_pid i \<Longrightarrow> p_flags (mm_procs st i) \<noteq> FREE_SLOT \<Longrightarrow> p_parent (mm_procs st i) \<noteq> p"
  by (auto simp: vain_def)

lemma vain_unwait: 
  assumes "vain p old st" "valid_pid i" "i \<noteq> p" "flag WAITING (mm_procs st i)"
  shows "vain p old (mm_upd i (clear_flag WAITING) st)"
  using assms vain_parent [OF assms(1,2)] flag_not_free by (intro vain_upd) auto

lemma vain_adopt:
  assumes "vain p old st" "pid \<noteq> p" "INIT < p"
  shows "vain p old (adopt pid i st)"
proof (cases "p_parent (mm_procs st i) = pid")
  case True
  let ?st1 = "mm_upd i (\<lambda>q. q\<lparr>p_parent := INIT\<rparr>) st"
  have v: "vain p old ?st1"
    using assms(1,3) by (auto simp: vain_def)
  show ?thesis
  proof (cases "flag HANGING (mm_procs ?st1 i) \<and> flag WAITING (mm_procs ?st1 INIT)")
    case hang: True
    have i: "i \<noteq> p"
      using v hang by (auto simp: vain_def)
    have "vain p old (mm_upd INIT (clear_flag WAITING) ?st1)"
      using v hang assms(3) by (intro vain_unwait) (auto simp: valid_pid_def)
    then have "vain p old (cleanup i (mm_upd INIT (clear_flag WAITING) ?st1))"
      using i assms(3) by (intro vain_cleanup) auto
    then show ?thesis
      using True hang by (simp add: adopt_def Let_def)
  next
    case False
    then show ?thesis
      using True v by (auto simp: adopt_def Let_def)
  qed
qed (simp add: adopt_def assms(1))

lemma vain_fold_adopt: "vain p old st \<Longrightarrow> pid \<noteq> p \<Longrightarrow> INIT < p \<Longrightarrow> vain p old (fold (adopt pid) is st)"
  by (induction "is" arbitrary: st) (simp_all add: vain_adopt)

lemma vain_exit:
  assumes v: "vain p old st" "INIT < p" and s: "valid_pid (source msg)" "source msg \<noteq> p" "p_flags (mm_procs st (source msg)) \<noteq> FREE_SLOT"
    and e: "do_exit msg st = Inr st'"
  shows "vain p old st'"
proof -
  let ?st2 = "mm_upd (source msg) (\<lambda>q. q\<lparr>exit_status := STATUS msg\<rparr>)
    (mm_send BOTH TASK_FS ((mm_junk st)\<lparr>mtype := EXIT, m3i2 := source msg\<rparr>) st)"
  have par: "p_parent (mm_procs st (source msg)) \<noteq> p"
    using v(1) s by (intro vain_parent)
  have v2: "vain p old ?st2"
    using v s(2) par by (intro vain_upd vain_send) simp_all
  obtain st3 where st3: "exit_parent (source msg) ?st2 = Inr st3" "st' = fold (adopt (source msg)) all_procs st3"
    using e by (auto simp: do_exit_def Let_def elim!: res_bindE)
  have "vain p old st3"
  proof (cases "flag WAITING (mm_procs ?st2 (p_parent (mm_procs ?st2 (source msg))))")
    case True
    have "vain p old (mm_upd (p_parent (mm_procs ?st2 (source msg))) (clear_flag WAITING) ?st2)"
      using v2 True st3(1) par by (intro vain_unwait) (auto simp: exit_parent_def Let_def split: if_splits)
    then have "vain p old (cleanup (source msg) (mm_upd (p_parent (mm_procs ?st2 (source msg))) (clear_flag WAITING) ?st2))"
      using s(2) par by (intro vain_cleanup) auto
    then show ?thesis
      using st3(1) True by (simp add: exit_parent_def Let_def split: if_splits)
  next
    case False
    then have "st3 = mm_upd (source msg) (set_flag HANGING) ?st2"
      using st3(1) by (simp add: exit_parent_def Let_def split: if_splits)
    then show ?thesis
      using v2 s(2) par by (auto intro!: vain_upd)
  qed
  then show ?thesis
    using st3(2) s(2) v(2) by (simp add: vain_fold_adopt)
qed

lemma vain_wait:
  assumes v: "vain p old st" and s: "valid_pid (source msg)" "source msg \<noteq> p" "p_flags (mm_procs st (source msg)) \<noteq> FREE_SLOT"
  shows "vain p old (do_wait msg st)"
proof -
  obtain b r where w: "wait_scan (mm_procs st) (source msg) all_procs False = (b, r)"
    by (cases "wait_scan (mm_procs st) (source msg) all_procs False")
  show ?thesis
  proof (cases r)
    case (Some i)
    then have i: "p_parent (mm_procs st i) = source msg" "flag HANGING (mm_procs st i)"
      using wait_scan_Some w by blast+
    then have "i \<noteq> p"
      using v by (auto simp: vain_def)
    then show ?thesis
      using w Some i s(2) v by (simp add: do_wait_cases vain_cleanup)
  next
    case None
    show ?thesis
      using w None v s(2) vain_parent [OF v s(1,3)]
      by (cases b) (auto simp: do_wait_cases intro!: vain_send vain_upd)
  qed
qed

lemma fork_entry_parent: "fork_entry pid parent st = Inr child \<Longrightarrow> p_parent child = parent"
  by (auto simp: fork_entry_def Let_def elim!: res_bindE split: if_splits)

lemma do_fork_effect:
  assumes "do_fork msg st = Inr (r, msg', st')"
  shows "st' = st \<or> (\<exists>pid child mem m1 m2. p_flags (mm_procs st pid) = FREE_SLOT \<and> p_parent child = source msg \<and>
    st' = mm_send SEND pid m2 (mm_send BOTH TASK_FS m1 (st\<lparr>mm_procs := (mm_procs st)(pid := child), mm_mem := mem\<rparr>)))"
proof (cases "find_slot (mm_procs st) all_procs = 37")
  case True
  then show ?thesis
    using assms by (auto simp: do_fork_def Let_def elim!: res_bindE)
next
  case False
  then have "p_flags (mm_procs st (find_slot (mm_procs st) all_procs)) = FREE_SLOT"
    using find_slot_free by blast
  moreover obtain child base n where "fork_entry (find_slot (mm_procs st) all_procs) (source msg) st = Inr child"
    "st' = mm_send SEND (find_slot (mm_procs st) all_procs) ((mm_junk st)\<lparr>m3i2 := 0, m3i1 := 0, mtype := SYSCALL_RET\<rparr>)
      (mm_send BOTH TASK_FS ((mm_junk st)\<lparr>mtype := FORK, m3i2 := find_slot (mm_procs st) all_procs\<rparr>)
        (st\<lparr>mm_procs := (mm_procs st)(find_slot (mm_procs st) all_procs := child\<lparr>ldts := child_ldts (ldts child) base\<rparr>),
            mm_mem := memcpy base (seg_base_of (ldts (mm_procs st (source msg)) INDEX_LDT_C)) n (mm_mem st)\<rparr>))"
    using assms False unfolding do_fork_def Let_def by (auto elim!: res_bindE split: if_splits)
  ultimately show ?thesis
    using fork_entry_parent
    by (intro disjI2 exI [of _ "find_slot (mm_procs st) all_procs"] exI [of _ "child\<lparr>ldts := child_ldts (ldts child) base\<rparr>"]) auto
qed

lemma vain_fork:
  assumes v: "vain p old st" "INIT < p" and "source msg \<noteq> p" "do_fork msg st = Inr (r, msg', st')"
  shows "vain p old st'"
  using do_fork_effect [OF assms(4)]
proof
  assume "\<exists>pid child mem m1 m2. p_flags (mm_procs st pid) = FREE_SLOT \<and> p_parent child = source msg \<and>
    st' = mm_send SEND pid m2 (mm_send BOTH TASK_FS m1 (st\<lparr>mm_procs := (mm_procs st)(pid := child), mm_mem := mem\<rparr>))"
  then obtain pid child mem m1 m2 where c: "p_flags (mm_procs st pid) = FREE_SLOT" "p_parent child = source msg"
    "st' = mm_send SEND pid m2 (mm_send BOTH TASK_FS m1 (st\<lparr>mm_procs := (mm_procs st)(pid := child), mm_mem := mem\<rparr>))"
    by blast
  have "pid \<noteq> p"
    using v(1) c(1) flag_not_free by (auto simp: vain_def)
  moreover from this have "vain p old (st\<lparr>mm_procs := (mm_procs st)(pid := child), mm_mem := mem\<rparr>)"
    using v(1) c(2) assms(3) by (auto simp: vain_def)
  ultimately show ?thesis
    unfolding c(3) using v(2) by (intro vain_send) simp_all
qed (simp add: v)

text \<open>Loading a program changes neither parents nor flags.\<close>

definition table_kept :: "mm_state \<Rightarrow> mm_state \<Rightarrow> bool" where
  "table_kept st st' \<longleftrightarrow> mm_sent st' = mm_sent st \<and>
     (\<forall>i. p_parent (mm_procs st' i) = p_parent (mm_procs st i) \<and> p_flags (mm_procs st' i) = p_flags (mm_procs st i))"

lemma load_segments_kept: "load_segments src is st = Inr st' \<Longrightarrow> table_kept st st'"
proof (induction "is" arbitrary: st)
  case (Cons i ps)
  then obtain st1 where st1: "load_segment src (phdr_at (mm_mem st) (phdr_addr mmbuf (ehdr_at (mm_mem st) mmbuf) i)) st = Inr st1"
      "load_segments src ps st1 = Inr st'"
    by (auto simp: Let_def elim!: res_bindE)
  have "table_kept st st1"
    using st1(1) by (auto simp: load_segment_def table_kept_def Let_def elim!: res_bindE split: if_splits)
  then show ?case
    using Cons.IH [OF st1(2)] by (simp add: table_kept_def)
qed (simp add: table_kept_def)

lemma table_kept_trans: "table_kept a b \<Longrightarrow> table_kept b c \<Longrightarrow> table_kept a c"
  by (simp add: table_kept_def)

lemma exec_stack_kept: "exec_stack msg path st = Inr st' \<Longrightarrow> table_kept st st'"
  by (auto simp: exec_stack_def table_kept_def Let_def elim!: res_bindE split: if_splits)

lemma do_exec_kept:
  assumes "do_exec file msg st = Inr (r, st')"
  shows "table_kept st st'"
proof -
  consider "st' = st" | mem segs path st2 where "load_segments (source msg) segs (st\<lparr>mm_mem := mem\<rparr>) = Inr st2" "exec_stack msg path st2 = Inr st'"
    using assms unfolding do_exec_def Let_def by (auto elim!: res_bindE split: option.splits if_splits)
  then show ?thesis
  proof cases
    case 2
    have "table_kept st (st\<lparr>mm_mem := mem\<rparr>)"
      by (simp add: table_kept_def)
    then show ?thesis
      using load_segments_kept [OF 2(1)] exec_stack_kept [OF 2(2)] table_kept_trans by blast
  qed (simp add: table_kept_def)
qed

lemma vain_cong:
  assumes "vain p old st" "mm_sent st' = mm_sent st" "kernel_keeps (mm_procs st) (mm_procs st')"
  shows "vain p old st'"
  using assms by (simp add: vain_def kernel_keeps_def)

lemma vain_dispatch:
  assumes v: "vain p old st" "INIT < p" and s: "valid_pid (source m)" "source m \<noteq> p" "p_flags (mm_procs st (source m)) \<noteq> FREE_SLOT"
    and d: "mm_dispatch file m st = Inr st'"
  shows "vain p old st'"
proof -
  have "vain p old st1" if "do_exec file m st = Inr (r, st1)" for r st1
    using do_exec_kept [OF that] v(1) by (intro vain_cong [of p old st st1]) (simp_all add: table_kept_def kernel_keeps_def flag_def)
  then show ?thesis
    using d vain_fork [OF v s(2)] vain_exit [OF v s] vain_wait [OF v(1) s] s(2)
    by (auto simp: mm_dispatch_def mm_reply_def elim!: res_bindE intro!: vain_send split: if_splits)
qed

lemma vain_run: "others_run fl p st st' \<Longrightarrow> INIT < p \<Longrightarrow> vain p old st \<Longrightarrow> vain p old st'"
  by (induction rule: others_run.induct) (auto intro: vain_dispatch vain_cong)

lemma wait_sleeps:
  assumes "valid_pid dead" "p_parent (mm_procs st dead) = source msg"
    "\<forall>i. valid_pid i \<and> p_parent (mm_procs st i) = source msg \<longrightarrow> p_flags (mm_procs st i) = FREE_SLOT"
  shows "do_wait msg st = mm_upd (source msg) (set_flag WAITING) st"
proof -
  have nh: "\<not> flag HANGING (mm_procs st i)" if "valid_pid i" "p_parent (mm_procs st i) = source msg" for i
    using assms(3) that by (simp add: flag_def)
  obtain b r where w: "wait_scan (mm_procs st) (source msg) all_procs False = (b, r)"
    by (cases "wait_scan (mm_procs st) (source msg) all_procs False")
  have "r = None"
    using w wait_scan_Some [of "mm_procs st" "source msg" all_procs False b] nh by (cases r) auto
  moreover from this have "b"
    using w wait_scan_None [of "mm_procs st" "source msg" all_procs False b] assms(1,2) by auto
  ultimately show ?thesis
    using do_wait_cases(2) [of st msg] w by simp
qed

text \<open>
  C24. \<^verbatim>\<open>wait\<close> counts dead children: the slot of a child that was collected keeps its parent, so a later
  \<^verbatim>\<open>wait\<close> of the same parent finds a child although all are gone, and puts the parent to sleep
  without an answer instead of returning \<^verbatim>\<open>NO_TASK\<close>. A process other than INIT sleeps for ever: whatever the other
  processes request of the memory manager afterwards, in whatever order, it stays in \<^verbatim>\<open>wait\<close> and no message is sent to it.
  (INIT gets the orphans of others, and one of them can wake it.)
\<close>
theorem wait_counts_dead_children:
  assumes "valid_pid dead" "p_parent (mm_procs st dead) = source msg"
    "\<forall>i. valid_pid i \<and> p_parent (mm_procs st i) = source msg \<longrightarrow> p_flags (mm_procs st i) = FREE_SLOT"
    and caller: "INIT < source msg" "valid_pid (source msg)" "p_flags (mm_procs st (source msg)) \<noteq> FREE_SLOT" "\<not> flag HANGING (mm_procs st (source msg))"
    and later: "others_run file (source msg) (do_wait msg st) st'"
  shows "do_wait msg st = mm_upd (source msg) (set_flag WAITING) st \<and> flag WAITING (mm_procs st' (source msg)) \<and>
    (\<exists>sent. mm_sent st' = mm_sent st @ sent \<and> (\<forall>(fn, dst, m)\<in>set sent. dst \<noteq> source msg))"
proof -
  note w = wait_sleeps [OF assms(1-3)]
  have "vain (source msg) (mm_sent st) (do_wait msg st)"
    unfolding w using assms(3) caller by (auto simp: vain_def flag_set)
  then have "vain (source msg) (mm_sent st) st'"
    using vain_run [OF later caller(1)] by blast
  then show ?thesis
    using w by (fastforce simp: vain_def)
qed

text \<open>Process 7 has collected its only child, process 8, and waits again; then INIT forks.\<close>

definition mm_dead :: mm_state where
  "mm_dead = mm0\<lparr>mm_procs := table0(8 := slot\<lparr>p_parent := 7\<rparr>)\<rparr>"

definition wait_msg7 :: MESSAGE where
  "wait_msg7 = reset_msg\<lparr>source := 7, mtype := WAIT\<rparr>"

definition init_waits :: MESSAGE where
  "init_waits = reset_msg\<lparr>source := INIT, mtype := WAIT\<rparr>"

theorem wait_counts_dead_children_witness:
  "\<exists>st'. mm_dispatch (\<lambda>_. None) init_waits (do_wait wait_msg7 mm_dead) = Inr st' \<and>
     flag WAITING (mm_procs st' 7) \<and> (\<forall>(fn, dst, m)\<in>set (mm_sent st'). dst \<noteq> 7)"
proof -
  let ?st = "do_wait wait_msg7 mm_dead" and ?st' = "do_wait init_waits (do_wait wait_msg7 mm_dead)"
  have m: "source wait_msg7 = 7" "source init_waits = INIT" "mtype init_waits = WAIT" "mm_sent mm_dead = []"
    by (simp_all add: wait_msg7_def init_waits_def mm_dead_def mm0_def)
  have h: "valid_pid 8" "valid_pid 7" "p_parent (mm_procs mm_dead 8) = 7" "p_flags (mm_procs mm_dead 7) = RECEIVING"
    by (simp_all add: mm_dead_def mm0_def table0_def shell_def valid_pid_def)
  have c: "\<forall>i. valid_pid i \<and> p_parent (mm_procs mm_dead i) = 7 \<longrightarrow> p_flags (mm_procs mm_dead i) = FREE_SLOT"
    by (auto simp: mm_dead_def mm0_def table0_def idle_def shell_def slot_def zero_process_def)
  have w: "?st = mm_upd 7 (set_flag WAITING) mm_dead"
    using wait_sleeps [of 8 mm_dead wait_msg7] h c m by simp
  have d: "mm_dispatch (\<lambda>_. None) init_waits ?st = Inr ?st'"
    by (simp add: mm_dispatch_def m)
  moreover have "p_flags (mm_procs ?st INIT) = 0"
    unfolding w by (simp add: mm_dead_def mm0_def table0_flags)
  ultimately have "others_run (\<lambda>_. None) 7 ?st ?st'"
    using run_request [OF run_start, of init_waits 7 ?st "\<lambda>_. None" ?st'] m by (simp add: valid_pid_def)
  then show ?thesis
    using wait_counts_dead_children [of 8 mm_dead wait_msg7 "\<lambda>_. None" ?st'] h c m d by (auto simp: flag_def)
qed

section \<open>Properties of exec\<close>

text \<open>
  Arguments survive \<^verbatim>\<open>exec\<close>: the memory manager finds as many arguments as \<^verbatim>\<open>execv\<close> packed, and after
  the block has been moved to the new stack and its pointers adjusted, the argument vector there
  denotes exactly the strings the caller passed.
\<close>
lemma exec_args_roundtrip:
  assumes "0 < unat stk" "unat stk + length (exec_block stk argv) \<le> 2 ^ 32" "\<forall>a\<in>set argv. 0 \<notin> set a"
  shows "\<exists>block'. relocate (pos - stk) (exec_block stk argv) = Inr (block', length argv) \<and>
    length block' = length (exec_block stk argv) \<and> read_argv pos block' (length argv) = argv"
proof -
  have "length (exec_block pos argv) = length (exec_block stk argv)"
    by (simp add: length_exec_block)
  moreover have "length (exec_block pos argv) \<le> 2 ^ 32"
    using assms(2) by (simp add: length_exec_block)
  ultimately show ?thesis
    using relocate_exec_block [OF assms(1,2), of "pos - stk"] read_argv_exec_block [OF assms(3), of pos] by simp
qed

lemma exec_args_roundtrip_witness:
  "\<exists>block'. relocate (0xFFC00 - 0x8000) (exec_block 0x8000 [[0x6C, 0x73], [0x2F]]) =
       Inr (block', length [[0x6C :: u8, 0x73], [0x2F]]) \<and>
     read_argv 0xFFC00 block' (length [[0x6C :: u8, 0x73], [0x2F]]) = [[0x6C, 0x73], [0x2F]]"
proof -
  have "\<forall>a\<in>set [[0x6C :: u8, 0x73], [0x2F]]. 0 \<notin> set a" "0 < unat (0x8000 :: u32)"
    "unat (0x8000 :: u32) + length (exec_block 0x8000 [[0x6C, 0x73], [0x2F]]) \<le> 2 ^ 32"
    by (simp_all add: length_exec_block)
  then show ?thesis
    using exec_args_roundtrip [of "0x8000" "[[0x6C, 0x73], [0x2F]]" "0xFFC00"] by blast
qed

text \<open>
  C25. Loading replaces stack and registers: with the caller's argument block in its memory and a path
  that fits, the final part of \<^verbatim>\<open>do_exec\<close> returns; the process starts at the entry point of the file
  with its stack pointer on the moved block, the number of arguments in \<^verbatim>\<open>ecx\<close>, and the block on the
  stack denotes the caller's arguments.
\<close>
theorem exec_stack_correct:
  assumes src: "7 \<le> source msg" and blk: "BUF_LEN msg = int (length (exec_block (BUF msg) argv))"
      "BUF_LEN msg \<le> 0x400"
    and mem: "mem_bytes (mm_mem st) (BUF msg + ldt_seg_linear (mm_procs st (source msg)) INDEX_LDT_RW)
      (length (exec_block (BUF msg) argv)) = exec_block (BUF msg) argv"
    and a: "0 < unat (BUF msg)" "unat (BUF msg) + length (exec_block (BUF msg) argv) \<le> 2 ^ 32"
      "\<forall>a\<in>set argv. 0 \<notin> set a" and path: "length path < 16"
  shows "\<exists>st'. exec_stack msg path st = Inr st' \<and>
    (let p = mm_procs st' (source msg); la = 0xFFC00 + ldt_seg_linear (mm_procs st (source msg)) INDEX_LDT_RW
     in esp (regs p) = 0xFFC00 \<and> eax (regs p) = 0xFFC00 \<and> ecx (regs p) = of_nat (length argv) \<and>
        eip (regs p) = e_entry (ehdr_at (mm_mem st) mmbuf) \<and>
        read_argv 0xFFC00 (mem_bytes (mm_mem st') la (length (exec_block (BUF msg) argv))) (length argv) = argv) \<and>
    (\<forall>i. i \<noteq> source msg \<longrightarrow> mm_procs st' i = mm_procs st i)"
proof -
  let ?b = "ldt_seg_linear (mm_procs st (source msg)) INDEX_LDT_RW"
  let ?blk = "exec_block 0xFFC00 argv"
  have va: "va2la (mm_procs st) (source msg) x = Inr (x + ?b)" for x
    using src by (simp add: va2la_def Let_def)
  have len: "length ?blk = length (exec_block (BUF msg) argv)"
    by (simp add: length_exec_block)
  have small: "length ?blk \<le> 2 ^ 32"
    using blk len by simp
  have rel: "relocate (0xFFC00 - BUF msg) (exec_block (BUF msg) argv) = Inr (?blk, length argv)"
    using relocate_exec_block [OF a(1,2), of "0xFFC00 - BUF msg"] by simp
  have "exec_stack msg path st = Inr (mm_upd (source msg) (\<lambda>p. p\<lparr>regs := (regs (mm_procs st (source msg)))\<lparr>eax := 0xFFC00,
      ecx := of_nat (length argv), eip := e_entry (ehdr_at (mm_mem st) mmbuf), esp := 0xFFC00\<rparr>,
      p_name := copy_name (map (\<lambda>b. chr (uint b)) path) (p_name p)\<rparr>) (st\<lparr>mm_mem := write_bytes (0xFFC00 + ?b) ?blk (mm_mem st)\<rparr>))"
    using va blk mem rel path by (simp add: exec_stack_def Let_def)
  then show ?thesis
    using mem_bytes_write_bytes [OF small] len read_argv_exec_block [OF a(3) small] by (simp add: Let_def)
qed

definition exec_msg :: MESSAGE where
  "exec_msg = reset_msg\<lparr>source := 7, mtype := EXEC, m3p2 := 0x8000, m3i3 := 11\<rparr>"

definition mm_exec :: mm_state where
  "mm_exec = mm0\<lparr>mm_mem := write_bytes (0x8000 + 0xA00000) (exec_block 0x8000 [[0x6C, 0x73]]) (\<lambda>_. 0)\<rparr>"

theorem exec_stack_correct_witness:
  "\<exists>st'. exec_stack exec_msg [0x6C, 0x73] mm_exec = Inr st' \<and> esp (regs (mm_procs st' 7)) = 0xFFC00 \<and>
     ecx (regs (mm_procs st' 7)) = 1"
proof -
  have len: "length (exec_block 0x8000 [[0x6C, 0x73]]) = 11"
    by (simp add: length_exec_block)
  have b: "ldt_seg_linear (mm_procs mm_exec 7) INDEX_LDT_RW = 0xA00000"
    by (simp add: mm_exec_def mm0_def table0_def shell_def ldt_seg_linear_def child_ldts_def)
  have m: "mem_bytes (mm_mem mm_exec) (0x8000 + 0xA00000) (length (exec_block 0x8000 [[0x6C, 0x73]])) =
      exec_block 0x8000 [[0x6C, 0x73]]"
  proof -
    have "length (exec_block 0x8000 [[0x6C, 0x73]]) \<le> 2 ^ 32"
      by (simp add: len)
    from mem_bytes_write_bytes [OF this] show ?thesis
      by (simp add: mm_exec_def)
  qed
  show ?thesis
    using exec_stack_correct [of exec_msg "[[0x6C, 0x73]]" mm_exec "[0x6C, 0x73]"] len b m
    by (auto simp: exec_msg_def Let_def reset_msg_def)
qed

text \<open>
  The kernel's map covers the kernel: every loadable segment among the program headers examined
  lies between the base and the limit that \<^verbatim>\<open>get_kernel_map\<close> returns.
\<close>
theorem kernel_map_covers:
  assumes "get_boot_param m = Inr (msize, file)" "get_kernel_map m = Inr (Some (b, l))"
    "i < unat (e_shnum (ehdr_at m file))"
    "p_type (phdr_at m (phdr_addr file (ehdr_at m file) i)) = PT_LOAD"
  defines "h \<equiv> phdr_at m (phdr_addr file (ehdr_at m file) i)"
  shows "b \<le> p_vaddr h \<and> p_vaddr h + p_memsz h \<le> b + l + 1"
proof -
  let ?hs = "map (\<lambda>i. phdr_at m (phdr_addr file (ehdr_at m file) i)) [0..<unat (e_shnum (ehdr_at m file))]"
  obtain t where t: "fold map_step ?hs (NOT 0, 0) = (b, t)" "l = t - b - 1"
    using assms(1,2) by (auto simp: get_kernel_map_def Let_def split: prod.splits if_splits)
  have "h \<in> set ?hs"
    using assms(3) by (auto simp: h_def)
  then show ?thesis
    using fold_map_step_bounds [of ?hs "(NOT 0, 0)"] t assms(4) by (auto simp: h_def)
qed

text \<open>A loader's memory with a kernel file of one loadable segment.\<close>

definition kmem :: "u32 \<Rightarrow> u8" where
  "kmem a = (if a = 0x900 then 0x07 else if a = 0x901 then 0xB0 else if a = 0x907 then 0x02
     else if a = 0x90A then 0x01 else if a = 0x10000 then 0x7F else if a = 0x10001 then 0x45
     else if a = 0x10002 then 0x4C else if a = 0x10003 then 0x46 else if a = 0x1001C then 52
     else if a = 0x1002A then 32 else if a = 0x1002C then 1 else if a = 0x10030 then 1
     else if a = 0x10034 then 1 else if a = 0x1003D then 0x10 else if a = 0x10049 then 0x05 else 0)"

theorem kernel_map_covers_witness:
  "get_kernel_map kmem = Inr (Some (0x1000, 0x4FF)) \<and>
   (0x1000 :: u32) \<le> p_vaddr (phdr_at kmem 0x10034) \<and>
   p_vaddr (phdr_at kmem 0x10034) + p_memsz (phdr_at kmem 0x10034) \<le> 0x1000 + 0x4FF + 1"
proof -
  have e: "e_phoff (ehdr_at kmem 0x10000) = 52" "e_phentsize (ehdr_at kmem 0x10000) = 32"
      "e_shnum (ehdr_at kmem 0x10000) = 1"
    by (simp_all add: ehdr_at_def word_at_def half_at_def kmem_def)
  have h: "p_type (phdr_at kmem 0x10034) = 1" "p_vaddr (phdr_at kmem 0x10034) = 0x1000"
      "p_memsz (phdr_at kmem 0x10034) = 0x500"
    by (simp_all add: phdr_at_def word_at_def kmem_def)
  have four: "[0..<4] = [0, 1, 2, 3]"
    by (simp add: eval_nat_numeral)
  have mag: "elf_magic kmem 0x10000"
    unfolding elf_magic_def mem_bytes_def four by (simp add: kmem_def)
  have w: "word_at kmem 0x900 = 0xB007" "word_at kmem 0x904 = 0x2000000" "word_at kmem 0x908 = 0x10000"
    by (simp_all add: word_at_def kmem_def)
  have "sint (0x2000000 :: u32) = 0x2000000"
    by simp
  then have b: "get_boot_param kmem = Inr (0x2000000, 0x10000)"
    by (simp add: get_boot_param_def Let_def w mag)
  have a: "phdr_addr 0x10000 (ehdr_at kmem 0x10000) 0 = 0x10034" "unat (e_shnum (ehdr_at kmem 0x10000)) = 1"
    by (simp_all add: phdr_addr_def e)
  have hs: "map (\<lambda>i. phdr_at kmem (phdr_addr 0x10000 (ehdr_at kmem 0x10000) i)) [0..<1] = [phdr_at kmem 0x10034]"
    using a(1) by simp
  have "fold map_step [phdr_at kmem 0x10034] (NOT 0, 0) = (0x1000, 0x1500)"
    by (simp add: map_step_def h)
  then have g: "get_kernel_map kmem = Inr (Some (0x1000, 0x4FF))"
    unfolding get_kernel_map_def b res_bind_Inr prod.case Let_def a(2) hs by (simp add: mag)
  have t: "p_type (phdr_at kmem (phdr_addr 0x10000 (ehdr_at kmem 0x10000) 0)) = PT_LOAD"
    unfolding a(1) by (rule h)
  have "0 < unat (e_shnum (ehdr_at kmem 0x10000))"
    unfolding a(2) by simp
  from kernel_map_covers [OF b g this t] show ?thesis
    unfolding a(1) using g by simp
qed

end
