(* ===== verification/Fs_Ops.thy ===== *)
theory Fs_Ops
  imports Fs
begin

text \<open>
  The requests of the file system task: \<^verbatim>\<open>fs/misc.c\<close>, \<^verbatim>\<open>fs/open.c\<close>, \<^verbatim>\<open>fs/read_write.c\<close>, \<^verbatim>\<open>fs/lseek.c\<close>,
  \<^verbatim>\<open>fs/link.c\<close> and the dispatch of \<^verbatim>\<open>fs/main.c\<close>.

  A path is the list of its bytes up to the terminating zero. \<open>pid\<close> is the caller (\<^verbatim>\<open>pcaller\<close>). The
  answer of a character device driver to a message is the argument \<open>ans\<close>.
\<close>

abbreviation (input) O_CREAT :: int where "O_CREAT \<equiv> 1"
abbreviation (input) O_RDWR :: int where "O_RDWR \<equiv> 2"
abbreviation (input) O_TRUNC :: int where "O_TRUNC \<equiv> 4"
abbreviation (input) SEEK_SET :: int where "SEEK_SET \<equiv> 1"
abbreviation (input) SEEK_CUR :: int where "SEEK_CUR \<equiv> 2"
abbreviation (input) SEEK_END :: int where "SEEK_END \<equiv> 3"
abbreviation (input) MAX_PATH :: nat where "MAX_PATH \<equiv> 128"
abbreviation (input) OFFSET :: "MESSAGE \<Rightarrow> int" where "OFFSET \<equiv> m3i2"
abbreviation (input) WHENCE :: "MESSAGE \<Rightarrow> int" where "WHENCE \<equiv> m3i3"

section \<open>Paths\<close>

text \<open>
  \<^verbatim>\<open>strip_path\<close> copies at most 12 characters and then the terminating zero; \<open>n\<close> is the size of the
  caller's array. The directory is always the root directory.
\<close>

fun strip_loop :: "nat \<Rightarrow> u8 list \<Rightarrow> u8 list option" where
  "strip_loop n [] = Some []"
| "strip_loop n (c # rest) =
     (if n = 0 then Some [] else if c = 0x2F then None else map_option (\<lambda>s. c # s) (strip_loop (n - 1) rest))"

definition strip_path :: "nat \<Rightarrow> u8 list \<Rightarrow> u8 list option res" where
  "strip_path n path =
     (case strip_loop MAX_FILENAME_LEN (if path \<noteq> [] \<and> hd path = 0x2F then tl path else path) of
        None \<Rightarrow> Inr None
      | Some name \<Rightarrow> if length name < n then Inr (Some name) else Inl (BadAccess ''filename''))"

text \<open>\<^verbatim>\<open>strcmp\<close> of a name and the zero-terminated string at an offset of the buffer gives 0.\<close>

fun name_at :: "u8 list \<Rightarrow> buffer \<Rightarrow> nat \<Rightarrow> bool" where
  "name_at [] f a \<longleftrightarrow> f a = 0"
| "name_at (c # rest) f a \<longleftrightarrow> f a = c \<and> name_at rest f (Suc a)"

fun search_block :: "buffer \<Rightarrow> u8 list \<Rightarrow> nat list \<Rightarrow> nat \<Rightarrow> nat \<Rightarrow> int option \<times> nat" where
  "search_block f name [] m n = (None, m)"
| "search_block f name (j # js) m n =
     (if name_at name f (16 * j + 4) then (Some (sint (buf_word f (16 * j))), m)
      else if m + 1 > n then (None, m + 1) else search_block f name js (m + 1) n)"

fun search_blocks :: "int \<Rightarrow> int \<Rightarrow> nat list \<Rightarrow> u8 list \<Rightarrow> nat \<Rightarrow> nat \<Rightarrow> fs_state \<Rightarrow> (int \<times> fs_state) res" where
  "search_blocks dev blk0 [] name m n st = Inr (0, st)"
| "search_blocks dev blk0 (i # is) name m n st =
     res_bind (RD_SECT dev (blk0 + int i) st) (\<lambda>st1.
     case search_block (fsbuf st1) name [0..<32] m n of
       (Some nr, m') \<Rightarrow> Inr (nr, st1)
     | (None, m') \<Rightarrow> if m' > n then Inr (0, st1) else search_blocks dev blk0 is name m' n st1)"

definition search_file :: "u8 list \<Rightarrow> fs_state \<Rightarrow> (int \<times> fs_state) res" where
  "search_file path st =
     (let dir = inode_table st (root_inode st)
      in res_bind (strip_path MAX_FILENAME_LEN path) (\<lambda>r.
         case r of
           None \<Rightarrow> Inr (0, st)
         | Some name \<Rightarrow>
             if name = [] then Inr (i_num dir, st)
             else res_bind (assert_c (i_dev dir = ROOT_DEV) ''dir_inode->i_dev == ROOT_DEV'') (\<lambda>_.
               search_blocks (i_dev dir) (sint (i_start_sect dir)) [0..<unat ((i_size dir + 512 - 1) div 512)] name 0
                 (unat (i_size dir div 16)) st)))"

text \<open>Copying a path from the caller; the array has \<^verbatim>\<open>MAX_PATH\<close> bytes and a zero is stored behind the path.\<close>

definition fetch_path :: "int \<Rightarrow> u32 \<Rightarrow> int \<Rightarrow> fs_state \<Rightarrow> u8 list res" where
  "fetch_path pid va len st =
     (if len < 0 \<or> len \<ge> int MAX_PATH then Inl (BadAccess ''path'')
      else res_bind (va2la (fs_procs st) pid va) (\<lambda>la.
           Inr (takeWhile (\<lambda>c. c \<noteq> 0) (mem_bytes (fs_mem st) la (nat len)))))"

definition is_special :: "u32 \<Rightarrow> bool" where
  "is_special m \<longleftrightarrow> m AND I_TYPE_MASK = I_BLOCK_SPECIAL \<or> m AND I_TYPE_MASK = I_CHAR_SPECIAL"

definition stat_bytes :: "inode \<Rightarrow> u8 list" where
  "stat_bytes x = concat (map bytes_of [of_int (i_dev x), of_int (i_num x), i_mode x,
     if is_special (i_mode x) then i_start_sect x else of_int NO_DEV, i_size x])"

definition do_stat :: "MESSAGE \<Rightarrow> fs_state \<Rightarrow> (int \<times> fs_state) res" where
  "do_stat msg st =
     res_bind (assert_c (NAME_LEN msg < int MAX_PATH) ''msg->NAME_LEN < MAX_PATH'') (\<lambda>_.
     res_bind (fetch_path (source msg) (PATHNAME msg) (NAME_LEN msg) st) (\<lambda>path.
     res_bind (search_file path st) (\<lambda>(inode_nr, st1).
     if inode_nr = 0 then Inr (- 1, st1)
     else res_bind (strip_path MAX_PATH path) (\<lambda>r.
          res_bind (assert_c (r \<noteq> None) ''0'') (\<lambda>_.
          res_bind (get_inode (i_dev (inode_table st1 (root_inode st1))) inode_nr st1) (\<lambda>(p, st2).
          let s = stat_bytes (inode_table st2 p)
          in res_bind (put_inode p st2) (\<lambda>st3.
             res_bind (va2la (fs_procs st3) (source msg) (BUF msg)) (\<lambda>la.
             Inr (0, st3\<lparr>fs_mem := write_bytes la s (fs_mem st3)\<rparr>)))))))))"

section \<open>Allocation\<close>

fun free_bit :: "u8 \<Rightarrow> nat list \<Rightarrow> nat option" where
  "free_bit b [] = None"
| "free_bit b (k # ks) = (if b AND push_bit k 1 = 0 then Some k else free_bit b ks)"

fun find_bit :: "buffer \<Rightarrow> nat list \<Rightarrow> (nat \<times> nat) option" where
  "find_bit f [] = None"
| "find_bit f (j # js) =
     (if f j = 0xff then find_bit f js
      else case free_bit (f j) [0..<8] of None \<Rightarrow> find_bit f js | Some k \<Rightarrow> Some (j, k))"

fun alloc_imap_loop :: "int \<Rightarrow> nat list \<Rightarrow> fs_state \<Rightarrow> (int \<times> fs_state) res" where
  "alloc_imap_loop dev [] st = Inl (Panic ''inode map is probably full'')"
| "alloc_imap_loop dev (i # is) st =
     res_bind (RD_SECT dev (2 + int i) st) (\<lambda>st1.
     case find_bit (fsbuf st1) [0..<512] of
       None \<Rightarrow> alloc_imap_loop dev is st1
     | Some (j, k) \<Rightarrow>
         res_bind (WR_SECT dev (2 + int i) (st1\<lparr>fsbuf := (fsbuf st1)(j := fsbuf st1 j OR push_bit k 1)\<rparr>)) (\<lambda>st2.
         Inr (int ((j + i * 512) * 8 + k), st2)))"

definition alloc_imap_bit :: "int \<Rightarrow> fs_state \<Rightarrow> (int \<times> fs_state) res" where
  "alloc_imap_bit dev st =
     res_bind (get_super_block dev st) (\<lambda>(s, st1). alloc_imap_loop dev [0..<unat (nr_imap_sects s)] st1)"

text \<open>
  One byte of the sector map: every free bit is taken while sectors are missing. \<open>sect_nr\<close> is the first
  sector taken (0 if none), \<open>left\<close> the number of sectors still missing.
\<close>

fun smap_byte :: "nat \<Rightarrow> nat \<Rightarrow> u32 \<Rightarrow> nat list \<Rightarrow> buffer \<times> int \<times> int \<Rightarrow> (buffer \<times> int \<times> int) res" where
  "smap_byte i j n1 [] s = Inr s"
| "smap_byte i j n1 (k # ks) (f, sect_nr, left) =
     (if f j AND push_bit k 1 \<noteq> 0 then smap_byte i j n1 ks (f, sect_nr, left)
      else let sect_nr' = (if sect_nr = 0 then sint (of_nat ((j + i * 512) * 8 + k) - 1 + n1) else sect_nr)
           in if left > 0 then smap_byte i j n1 ks (f(j := f j OR push_bit k 1), sect_nr', left - 1)
              else res_bind (assert_c (left = 0) ''nr_sects_to_alloc == 0'') (\<lambda>_. Inr (f, sect_nr', left)))"

fun smap_sector :: "nat \<Rightarrow> u32 \<Rightarrow> nat list \<Rightarrow> buffer \<times> int \<times> int \<Rightarrow> (buffer \<times> int \<times> int) res" where
  "smap_sector i n1 [] s = Inr s"
| "smap_sector i n1 (j # js) s =
     (if fst s j = 0xff then smap_sector i n1 js s
      else res_bind (smap_byte i j n1 [0..<8] s) (smap_sector i n1 js))"

fun alloc_smap_loop :: "int \<Rightarrow> int \<Rightarrow> u32 \<Rightarrow> nat list \<Rightarrow> int \<Rightarrow> int \<Rightarrow> fs_state \<Rightarrow> (int \<times> int \<times> fs_state) res" where
  "alloc_smap_loop dev blk0 n1 [] sect_nr left st = Inr (sect_nr, left, st)"
| "alloc_smap_loop dev blk0 n1 (i # is) sect_nr left st =
     res_bind (RD_SECT dev (blk0 + int i) st) (\<lambda>st1.
     res_bind (smap_sector i n1 [0..<512] (fsbuf st1, sect_nr, left)) (\<lambda>(f, sect_nr', left').
     let st2 = st1\<lparr>fsbuf := f\<rparr>
     in res_bind (if sect_nr' \<noteq> 0 then WR_SECT dev (blk0 + int i) st2 else Inr st2) (\<lambda>st3.
        if left' = 0 then Inr (sect_nr', left', st3) else alloc_smap_loop dev blk0 n1 is sect_nr' left' st3)))"

definition alloc_smap_bit :: "int \<Rightarrow> int \<Rightarrow> fs_state \<Rightarrow> (int \<times> fs_state) res" where
  "alloc_smap_bit dev nr_sects_to_alloc st =
     res_bind (get_super_block dev st) (\<lambda>(s, st1).
     res_bind (alloc_smap_loop dev (2 + uint (nr_imap_sects s)) (n_1st_sect s) [0..<unat (nr_smap_sects s)] 0 nr_sects_to_alloc st1)
       (\<lambda>(sect_nr, left, st2).
     res_bind (assert_c (left = 0) ''nr_sects_to_alloc == 0'') (\<lambda>_. Inr (sect_nr, st2))))"

definition new_inode :: "int \<Rightarrow> int \<Rightarrow> int \<Rightarrow> fs_state \<Rightarrow> (nat \<times> fs_state) res" where
  "new_inode dev inode_nr start st =
     res_bind (get_inode dev inode_nr st) (\<lambda>(p, st1).
     let st2 = upd_inode p (\<lambda>x. \<lparr>i_mode = I_REGULAR, i_size = 0, i_start_sect = of_int start, i_nr_sects = NR_DEFAULT_FILE_SECTS,
                 i_dev = dev, i_cnt = 1, i_num = inode_nr\<rparr>) st1
     in res_bind (sync_inode p st2) (\<lambda>st3. Inr (p, st3)))"

section \<open>Directory entries\<close>

fun slot_scan :: "buffer \<Rightarrow> nat \<Rightarrow> nat \<Rightarrow> nat \<Rightarrow> nat option \<times> nat \<times> nat" where
  "slot_scan f en 0 nr_dir = (None, en, nr_dir)"
| "slot_scan f en (Suc c) nr_dir =
     (if nr_dir = 0 then (None, en, nr_dir)
      else if buf_word f en = 0 then (Some en, en, nr_dir) else slot_scan f (en + 16) c (nr_dir - 1))"

fun slot_search :: "nat \<Rightarrow> int \<Rightarrow> nat list \<Rightarrow> nat \<Rightarrow> fs_state \<Rightarrow> (nat \<times> nat \<times> fs_state) res" where
  "slot_search de sect_nr [] nr_dir st = Inl (BadAccess ''dst'')"
| "slot_search de sect_nr (i # is) nr_dir st =
     res_bind (RD_SECT (i_dev (inode_table st de)) (sect_nr + int i) st) (\<lambda>st1.
     case slot_scan (fsbuf st1) 0 32 nr_dir of
       (Some dst, _, _) \<Rightarrow> Inr (i, dst, st1)
     | (None, en, nr_dir') \<Rightarrow>
         if nr_dir' = 0 then Inr (i, en, upd_inode de (\<lambda>x. x\<lparr>i_size := i_size x + 16\<rparr>) st1)
         else slot_search de sect_nr is nr_dir' st1)"

definition new_directory_entry :: "nat \<Rightarrow> u8 list \<Rightarrow> int \<Rightarrow> fs_state \<Rightarrow> fs_state res" where
  "new_directory_entry de filename inode_nr st =
     (let x = inode_table st de; sect_nr = sint (i_start_sect x)
      in res_bind (slot_search de sect_nr [0..<unat (i_nr_sects x)] (unat (i_size x div 16)) st) (\<lambda>(i, dst, st1).
         let st2 = st1\<lparr>fsbuf := buf_write dst (dirent_bytes inode_nr (filename @ [0])) (fsbuf st1)\<rparr>
         in res_bind (WR_SECT (i_dev x) (int i + sect_nr) st2) (sync_inode de)))"

definition create_file :: "u8 list \<Rightarrow> fs_state \<Rightarrow> (nat option \<times> fs_state) res" where
  "create_file path st =
     (let dir = root_inode st; dev = i_dev (inode_table st dir)
      in res_bind (strip_path MAX_FILENAME_LEN path) (\<lambda>r.
         case r of
           None \<Rightarrow> Inr (None, st)
         | Some filename \<Rightarrow>
             res_bind (alloc_imap_bit dev st) (\<lambda>(inode_nr, st1).
             res_bind (alloc_smap_bit dev (uint NR_DEFAULT_FILE_SECTS) st1) (\<lambda>(sect_nr, st2).
             res_bind (new_inode dev inode_nr sect_nr st2) (\<lambda>(p, st3).
             res_bind (new_directory_entry dir filename inode_nr st3) (\<lambda>st4. Inr (Some p, st4)))))))"

section \<open>Open and close\<close>

fun first_free :: "(nat \<Rightarrow> nat option) \<Rightarrow> nat list \<Rightarrow> nat option" where
  "first_free f [] = None"
| "first_free f (i # is) = (if f i = None then Some i else first_free f is)"

text \<open>
  The node to open, if there is one: a new file or an existing one. The assertion about the flags of an
  existing file is always true, because \<^verbatim>\<open>==\<close> binds stronger than \<^verbatim>\<open>|\<close>.
\<close>

definition open_node :: "u8 list \<Rightarrow> int \<Rightarrow> fs_state \<Rightarrow> ((int \<times> nat) option \<times> fs_state) res" where
  "open_node path flags st =
     res_bind (search_file path st) (\<lambda>(inode_nr, st1).
     if inode_nr = INVALID_INODE then
       if flags AND O_CREAT \<noteq> 0 then
         res_bind (create_file path st1) (\<lambda>(r, st2).
         case r of None \<Rightarrow> Inl (BadAccess ''pNode'') | Some p \<Rightarrow> Inr (Some (i_num (inode_table st2 p), p), st2))
       else Inr (None, st1)
     else if flags AND O_RDWR \<noteq> 0 then
       if flags AND O_CREAT \<noteq> 0 \<and> flags AND O_TRUNC = 0 then Inr (None, st1)
       else res_bind (strip_path MAX_FILENAME_LEN path) (\<lambda>_.
            res_bind (get_inode (i_dev (inode_table st1 (root_inode st1))) inode_nr st1) (\<lambda>(p, st2).
            Inr (Some (inode_nr, p), st2)))
     else Inr (None, st1))"

definition open_device :: "nat \<Rightarrow> MESSAGE \<Rightarrow> fs_state \<Rightarrow> fs_state res" where
  "open_device p junk st =
     (let x = inode_table st p; dev = uint (i_start_sect x)
      in if i_mode x = I_CHAR_SPECIAL then
           res_bind (driver_of dev) (\<lambda>d. Inr (fs_send d (junk\<lparr>mtype := DEV_OPEN, m3i4 := MINOR dev\<rparr>) st))
         else if i_mode x = I_DIRECTORY then
           res_bind (assert_c (i_num x = ROOT_INODE) ''pNode->i_num == ROOT_INODE'') (\<lambda>_. Inr st)
         else res_bind (assert_c (i_mode x = I_REGULAR) ''I_REGULAR == imode'') (\<lambda>_. Inr st))"

definition do_open :: "int \<Rightarrow> MESSAGE \<Rightarrow> MESSAGE \<Rightarrow> fs_state \<Rightarrow> (int \<times> fs_state) res" where
  "do_open pid junk msg st =
     res_bind (fetch_path pid (PATHNAME msg) (NAME_LEN msg) st) (\<lambda>path.
     case first_free (filp (fs_procs st pid)) [0..<NR_FILES] of
       None \<Rightarrow> Inl (Panic ''fd slot is full'')
     | Some fd \<Rightarrow>
         (case first_free (\<lambda>i. fd_inode (fd_table st i)) [0..<NR_FILE_DESC] of
            None \<Rightarrow> Inl (Panic ''fd table is full'')
          | Some i \<Rightarrow>
              res_bind (open_node path (FLAGS msg) st) (\<lambda>(r, st1).
              case r of
                None \<Rightarrow> Inr (- 1, st1)
              | Some (inode_nr, p) \<Rightarrow>
                  res_bind (if FLAGS msg AND O_TRUNC \<noteq> 0 then sync_inode p (upd_inode p (\<lambda>x. x\<lparr>i_size := 0\<rparr>) st1) else Inr st1) (\<lambda>st2.
                  res_bind (assert_c (inode_nr \<noteq> 0) ''0 != inode_nr && 0 != pNode'') (\<lambda>_.
                  let st3 = upd_fd i (\<lambda>x. x\<lparr>fd_inode := Some p, fd_cnt := 1, fd_mode := FLAGS msg, fd_pos := 0\<rparr>) (set_filp pid fd (Some i) st2)
                  in res_bind (open_device p junk st3) (\<lambda>st4. Inr (int fd, st4)))))))"

definition do_close :: "int \<Rightarrow> MESSAGE \<Rightarrow> fs_state \<Rightarrow> (int \<times> fs_state) res" where
  "do_close pid msg st =
     (let fd = FD msg
      in if fd < 0 \<or> fd \<ge> int NR_FILES then Inr (- 1, st)
         else case filp (fs_procs st pid) (nat fd) of
                None \<Rightarrow> Inl (BadAccess ''filp'')
              | Some k \<Rightarrow>
                  (case fd_inode (fd_table st k) of
                     None \<Rightarrow> Inl (BadAccess ''fd_inode'')
                   | Some p \<Rightarrow>
                       res_bind (put_inode p st) (\<lambda>st1.
                       let st2 = upd_fd k (\<lambda>x. x\<lparr>fd_cnt := fd_cnt x - 1\<rparr>) st1;
                           st3 = (if fd_cnt (fd_table st2 k) = 0 then upd_fd k (\<lambda>x. x\<lparr>fd_inode := None\<rparr>) st2 else st2)
                       in Inr (0, set_filp pid (nat fd) None st3))))"

section \<open>Read, write and seek\<close>

text \<open>The descriptor and inode behind a file number, as the assertions of \<^verbatim>\<open>do_rdwt\<close> and \<^verbatim>\<open>do_lseek\<close> check them.\<close>

definition open_file :: "int \<Rightarrow> int \<Rightarrow> fs_state \<Rightarrow> (nat \<times> nat) res" where
  "open_file pid fd st =
     (case filp (fs_procs st pid) (nat fd) of
        None \<Rightarrow> Inl (AssertFail ''filp[fd]'')
      | Some k \<Rightarrow>
          res_bind (assert_c (k < NR_FILE_DESC) ''filp[fd]'') (\<lambda>_.
          case fd_inode (fd_table st k) of
            None \<Rightarrow> Inl (AssertFail ''fd_inode'')
          | Some p \<Rightarrow> Inr (k, p)))"

definition min_u32 :: "u32 \<Rightarrow> int \<Rightarrow> int" where
  "min_u32 a b = sint (if a > of_int b then of_int b else a)"

text \<open>The copy between the buffer and the caller, for one chunk of sectors. \<open>rd\<close> is a read request.\<close>

definition copy_to_user :: "int \<Rightarrow> u32 \<Rightarrow> int \<Rightarrow> int \<Rightarrow> fs_state \<Rightarrow> fs_state res" where
  "copy_to_user pid va off bytes st =
     (if bytes < 0 then Inl (BadAccess ''fsbuf'')
      else res_bind (va2la (fs_procs st) pid va) (\<lambda>la.
           Inr (st\<lparr>fs_mem := write_bytes la (buf_bytes (fsbuf st) (nat off) (nat bytes)) (fs_mem st)\<rparr>)))"

definition copy_from_user :: "int \<Rightarrow> u32 \<Rightarrow> int \<Rightarrow> int \<Rightarrow> fs_state \<Rightarrow> fs_state res" where
  "copy_from_user pid va off bytes st =
     (if bytes < 0 then Inl (BadAccess ''fsbuf'')
      else res_bind (va2la (fs_procs st) pid va) (\<lambda>la.
           Inr (st\<lparr>fsbuf := buf_write (nat off) (mem_bytes (fs_mem st) la (nat bytes)) (fsbuf st)\<rparr>)))"

text \<open>
  The loop over the chunks from sector \<open>i\<close> to \<open>sect_end\<close>. It returns the number of bytes moved; the
  position of the descriptor \<open>k\<close> moves along.
\<close>

function rdwt_loop :: "bool \<Rightarrow> MESSAGE \<Rightarrow> nat \<Rightarrow> int \<Rightarrow> int \<Rightarrow> int \<Rightarrow> int \<Rightarrow> int \<Rightarrow> int \<Rightarrow> int \<Rightarrow> int \<Rightarrow> fs_state \<Rightarrow> (int \<times> fs_state) res" where
  "rdwt_loop rd msg k dev chunk pos_end i sect_end off bytes_proc bytes_left st =
     (if i > sect_end then Inr (bytes_proc, st)
      else if chunk \<le> 0 then Inl Hang
      else res_bind (rw_sector DEV_READ dev (i * SECTOR_SIZE) (chunk * SECTOR_SIZE) st) (\<lambda>st1.
        let bytes = min (chunk * SECTOR_SIZE) bytes_left; pos = fd_pos (fd_table st1 k)
        in if rd \<and> pos_end \<le> pos then Inr (bytes_proc, st1)
           else let bytes' = (if rd then min (pos_end - pos) bytes else bytes)
                in res_bind (if rd then copy_to_user (source msg) (BUF msg + of_int bytes_proc) off bytes' st1
                             else res_bind (assert_c (mtype msg = WRITE) ''WRITE == msg->type'') (\<lambda>_.
                                  res_bind (copy_from_user (source msg) (BUF msg + of_int bytes_proc) off bytes' st1)
                                    (rw_sector DEV_WRITE dev (i * SECTOR_SIZE) (chunk * SECTOR_SIZE)))) (\<lambda>st2.
                   rdwt_loop rd msg k dev chunk pos_end (i + chunk) sect_end 0 (bytes_proc + bytes') (bytes_left - bytes')
                     (upd_fd k (\<lambda>x. x\<lparr>fd_pos := fd_pos x + bytes'\<rparr>) st2))))"
  by pat_completeness auto
termination
  by (relation "measure (\<lambda>(rd, msg, k, dev, chunk, pos_end, i, sect_end, off, bytes_proc, bytes_left, st). nat (sect_end + 1 - i))") auto

declare rdwt_loop.simps [simp del]

definition rdwt_file :: "MESSAGE \<Rightarrow> nat \<Rightarrow> nat \<Rightarrow> fs_state \<Rightarrow> (int \<times> fs_state) res" where
  "rdwt_file msg k p st =
     (let x = inode_table st p; pos = fd_pos (fd_table st k); cnt = CNT msg; rd = (mtype msg = READ);
          pos_end = (if rd then min_u32 (i_size x) (pos + cnt) else min_u32 (i_nr_sects x * 512) (pos + cnt));
          off = pos smod SECTOR_SIZE;
          sect_beg = sint (i_start_sect x + of_int (drop_bit SECTOR_SIZE_SHIFT pos));
          sect_end = sint (i_start_sect x + of_int (drop_bit SECTOR_SIZE_SHIFT pos_end));
          chunk = min (sect_end - sect_beg + 1) (drop_bit SECTOR_SIZE_SHIFT FSBUF_SIZE)
      in if off < 0 then Inl (BadAccess ''fsbuf'')
         else res_bind (rdwt_loop rd msg k (i_dev x) chunk pos_end sect_beg sect_end off 0 cnt st) (\<lambda>(n, st1).
              if of_int (fd_pos (fd_table st1 k)) > i_size (inode_table st1 p) then
                res_bind (sync_inode p (upd_inode p (\<lambda>x. x\<lparr>i_size := of_int (fd_pos (fd_table st1 k))\<rparr>) st1)) (\<lambda>st2. Inr (n, st2))
              else Inr (n, st1)))"

text \<open>A request for a character device is passed on to its driver, whose answer replaces the message.\<close>

definition rdwt_char :: "MESSAGE \<Rightarrow> MESSAGE \<Rightarrow> nat \<Rightarrow> fs_state \<Rightarrow> (int \<times> MESSAGE \<times> fs_state) res" where
  "rdwt_char ans msg p st =
     (let dev = sint (i_start_sect (inode_table st p));
          m = msg\<lparr>mtype := if mtype msg = READ then DEV_READ else DEV_WRITE, m3i4 := MINOR dev, m3i3 := source msg\<rparr>
      in res_bind (driver_of dev) (\<lambda>d. Inr (CNT ans, ans, fs_send d m st)))"

definition do_rdwt :: "int \<Rightarrow> MESSAGE \<Rightarrow> MESSAGE \<Rightarrow> fs_state \<Rightarrow> (int \<times> MESSAGE \<times> fs_state) res" where
  "do_rdwt pid ans msg st =
     (if FD msg < 0 \<or> FD msg \<ge> int NR_FILES then Inr (- 1, msg, st)
      else res_bind (open_file pid (FD msg) st) (\<lambda>(k, p).
        if fd_mode (fd_table st k) AND O_RDWR = 0 then Inr (- 2, msg, st)
        else let mode = I_TYPE_MASK AND i_mode (inode_table st p)
             in if mode = I_CHAR_SPECIAL then rdwt_char ans msg p st
                else res_bind (assert_c (mode = I_DIRECTORY \<or> mode = I_REGULAR) ''I_DIRECTORY == i_mode || I_REGULAR == i_mode'') (\<lambda>_.
                     res_bind (rdwt_file msg k p st) (\<lambda>(n, st1). Inr (n, msg, st1)))))"

definition SET_RANGE :: "int \<Rightarrow> int \<Rightarrow> int \<Rightarrow> int" where
  "SET_RANGE val lo hi = (let v = (if val \<ge> lo then val else lo) in if v \<le> hi then v else hi)"

definition do_lseek :: "int \<Rightarrow> MESSAGE \<Rightarrow> fs_state \<Rightarrow> (int \<times> fs_state) res" where
  "do_lseek pid msg st =
     (if FD msg < 0 \<or> FD msg \<ge> int NR_FILES then Inr (- 1, st)
      else res_bind (open_file pid (FD msg) st) (\<lambda>(k, p).
        let x = inode_table st p; file_size = sint (i_size x); pos_end = sint (i_nr_sects x * 512 - 1);
            pos = fd_pos (fd_table st k)
        in if i_mode x \<noteq> I_REGULAR then Inr (- 1, st)
           else res_bind (if WHENCE msg = SEEK_SET then Inr (OFFSET msg)
                          else if WHENCE msg = SEEK_CUR then Inr (pos + OFFSET msg)
                          else if WHENCE msg = SEEK_END then Inr (file_size + OFFSET msg)
                          else Inl (AssertFail ''0'')) (\<lambda>pos'.
                let v = SET_RANGE pos' 0 pos_end in Inr (v, upd_fd k (\<lambda>x. x\<lparr>fd_pos := v\<rparr>) st))))"

section \<open>Unlink\<close>

text \<open>Clearing the bit of an inode, and the bits of its sectors: the first byte, whole bytes, the last byte.\<close>

definition clear_imap :: "int \<Rightarrow> int \<Rightarrow> fs_state \<Rightarrow> fs_state res" where
  "clear_imap dev inode_nr st =
     res_bind (RD_SECT dev 2 st) (\<lambda>st1.
     let byte_idx = inode_nr sdiv 8; bit_idx = inode_nr smod 8
     in if byte_idx < 0 \<or> bit_idx < 0 then Inl (BadAccess ''fsbuf'')
        else res_bind (assert_c (byte_idx < SECTOR_SIZE) ''byte_idx < SECTOR_SIZE'') (\<lambda>_.
             let j = nat byte_idx; k = nat bit_idx
             in res_bind (assert_c (fsbuf st1 j AND push_bit k 1 \<noteq> 0) ''fsbuf[byte_idx] & (1<<bit_idx)'') (\<lambda>_.
                WR_SECT dev 2 (st1\<lparr>fsbuf := (fsbuf st1)(j := fsbuf st1 j AND NOT (push_bit k 1))\<rparr>))))"

fun clear_first :: "nat \<Rightarrow> nat list \<Rightarrow> int \<Rightarrow> fs_state \<Rightarrow> (int \<times> fs_state) res" where
  "clear_first j [] bits_left st = Inr (bits_left, st)"
| "clear_first j (k # ks) bits_left st =
     (if bits_left \<le> 0 then Inr (bits_left, st)
      else res_bind (assert_c (fsbuf st j AND push_bit k 1 \<noteq> 0) ''fsbuf[byte_idx] & (1<<i)'') (\<lambda>_.
           clear_first j ks (bits_left - 1) (st\<lparr>fsbuf := (fsbuf st)(j := fsbuf st j AND NOT (push_bit k 1))\<rparr>)))"

definition next_smap :: "int \<Rightarrow> nat \<Rightarrow> int \<Rightarrow> fs_state \<Rightarrow> (nat \<times> int \<times> fs_state) res" where
  "next_smap dev i sect st =
     (if i = 512 then
        res_bind (WR_SECT dev sect st) (\<lambda>st1.
        res_bind (RD_SECT dev (sect + 1) st1) (\<lambda>st2. Inr (0, sect + 1, st2)))
      else Inr (i, sect, st))"

fun clear_middle :: "int \<Rightarrow> nat \<Rightarrow> nat \<Rightarrow> int \<Rightarrow> int \<Rightarrow> fs_state \<Rightarrow> (nat \<times> int \<times> int \<times> fs_state) res" where
  "clear_middle dev 0 i sect bits_left st = Inr (i, sect, bits_left, st)"
| "clear_middle dev (Suc c) i sect bits_left st =
     (if bits_left \<le> 0 then Inr (i, sect, bits_left, st)
      else res_bind (next_smap dev i sect st) (\<lambda>(i', sect', st1).
           res_bind (assert_c (fsbuf st1 i' = 0xFF) ''fsbuf[i] == 0xFF'') (\<lambda>_.
           clear_middle dev c (i' + 1) sect' (bits_left - 8) (st1\<lparr>fsbuf := (fsbuf st1)(i' := 0)\<rparr>))))"

text \<open>The last assertion reads \<^verbatim>\<open>fsbuf[i] & mask == mask\<close>, which is \<^verbatim>\<open>fsbuf[i] & 1\<close>.\<close>

definition clear_smap :: "int \<Rightarrow> int \<Rightarrow> int \<Rightarrow> fs_state \<Rightarrow> fs_state res" where
  "clear_smap dev bit_idx nr st =
     (if bit_idx < 0 then Inl (BadAccess ''fsbuf'')
      else let byte_idx = bit_idx div 8; byte_cnt = (nr - (8 - bit_idx mod 8)) sdiv 8; sect_beg = 3 + byte_idx div 512;
               j = nat (byte_idx mod 512)
           in res_bind (RD_SECT dev sect_beg st) (\<lambda>st1.
              res_bind (clear_first j [nat (bit_idx mod 8)..<8] nr st1) (\<lambda>(left1, st2).
              res_bind (clear_middle dev (nat byte_cnt) (j + 1) sect_beg left1 st2) (\<lambda>(i2, sect2, left2, st3).
              res_bind (next_smap dev i2 sect2 st3) (\<lambda>(i3, sect3, st4).
              res_bind (assert_c (left2 < 8) ''bits_left < 8'') (\<lambda>_.
              res_bind (assert_c (fsbuf st4 i3 AND 1 \<noteq> 0) ''fsbuf[i] & mask == mask'') (\<lambda>_.
              WR_SECT dev sect3 (st4\<lparr>fsbuf := (fsbuf st4)(i3 := fsbuf st4 i3 AND push_bit (nat left2) (- 1))\<rparr>))))))))"

text \<open>The search for the directory entry counts the used entries before it.\<close>

fun unlink_scan :: "buffer \<Rightarrow> int \<Rightarrow> nat \<Rightarrow> nat \<Rightarrow> nat \<Rightarrow> nat \<Rightarrow> nat \<Rightarrow> nat option \<times> nat \<times> nat" where
  "unlink_scan f inode_nr en 0 nr_dir m dir_size = (None, m, dir_size)"
| "unlink_scan f inode_nr en (Suc c) nr_dir m dir_size =
     (if m \<ge> nr_dir then (None, m, dir_size)
      else if sint (buf_word f en) = inode_nr then (Some en, m + 1, dir_size)
      else unlink_scan f inode_nr (en + 16) c nr_dir (m + 1) (if buf_word f en \<noteq> 0 then dir_size + 16 else dir_size))"

fun unlink_loop :: "int \<Rightarrow> int \<Rightarrow> nat list \<Rightarrow> int \<Rightarrow> nat \<Rightarrow> nat \<Rightarrow> nat \<Rightarrow> fs_state \<Rightarrow> (nat \<times> nat \<times> fs_state) res" where
  "unlink_loop dev sect_nr [] inode_nr nr_dir m dir_size st = Inl (AssertFail ''flag'')"
| "unlink_loop dev sect_nr (i # is) inode_nr nr_dir m dir_size st =
     res_bind (RD_SECT dev (sect_nr + int i) st) (\<lambda>st1.
     case unlink_scan (fsbuf st1) inode_nr 0 32 nr_dir m dir_size of
       (Some en, m', dir_size') \<Rightarrow>
         res_bind (WR_SECT dev (sect_nr + int i) (st1\<lparr>fsbuf := buf_write en (replicate 16 0) (fsbuf st1)\<rparr>)) (\<lambda>st2.
         Inr (m', dir_size', st2))
     | (None, m', dir_size') \<Rightarrow> unlink_loop dev sect_nr is inode_nr nr_dir m' dir_size' st1)"

definition unlink_node :: "int \<Rightarrow> nat \<Rightarrow> fs_state \<Rightarrow> (int \<times> fs_state) res" where
  "unlink_node inode_nr p st =
     (let dir = root_inode st; dev = i_dev (inode_table st dir); x = inode_table st p
      in res_bind (clear_imap dev inode_nr st) (\<lambda>st1.
         res_bind (get_super_block dev st1) (\<lambda>(s, st2).
         res_bind (clear_smap dev (sint (i_start_sect x - n_1st_sect s + 1)) (sint (i_nr_sects x)) st2) (\<lambda>st3.
         res_bind (put_inode p (upd_inode p (\<lambda>x. x\<lparr>i_mode := 0, i_size := 0, i_start_sect := 0, i_nr_sects := 0\<rparr>) st3)) (\<lambda>st4.
         res_bind (sync_inode p st4) (\<lambda>st5.
         let d = inode_table st5 dir; nr_dir = unat (i_size d div 16)
         in res_bind (unlink_loop dev (sint (i_start_sect d)) [0..<unat (i_nr_sects d)] inode_nr nr_dir 0 0 st5) (\<lambda>(m, dir_size, st6).
            if m = nr_dir then
              res_bind (sync_inode dir (upd_inode dir (\<lambda>x. x\<lparr>i_size := of_nat dir_size\<rparr>) st6)) (\<lambda>st7. Inr (0, st7))
            else Inr (0, st6))))))))"

definition do_unlink :: "int \<Rightarrow> MESSAGE \<Rightarrow> fs_state \<Rightarrow> (int \<times> fs_state) res" where
  "do_unlink pid msg st =
     res_bind (assert_c (NAME_LEN msg < int MAX_PATH) ''str_len < MAX_PATH'') (\<lambda>_.
     res_bind (fetch_path pid (PATHNAME msg) (NAME_LEN msg) st) (\<lambda>path.
     if path = [0x2F] then Inr (- 1, st)
     else res_bind (search_file path st) (\<lambda>(inode_nr, st1).
       if inode_nr = INVALID_INODE then Inr (- 1, st1)
       else res_bind (strip_path MAX_PATH path) (\<lambda>r.
         if r = None then Inr (- 1, st1)
         else res_bind (get_inode (i_dev (inode_table st1 (root_inode st1))) inode_nr st1) (\<lambda>(p, st2).
              if i_mode (inode_table st2 p) \<noteq> I_REGULAR then Inr (- 1, st2)
              else if 1 < i_cnt (inode_table st2 p) then Inr (- 1, st2)
              else unlink_node inode_nr p st2)))))"

section \<open>The task\<close>

text \<open>
  The dispatch of \<^verbatim>\<open>task_fs\<close>: the destination and the answer, unless the caller stays suspended.
\<close>

definition fs_result :: "(int \<Rightarrow> MESSAGE \<Rightarrow> MESSAGE) \<Rightarrow> MESSAGE \<Rightarrow> (int \<times> fs_state) res \<Rightarrow> (MESSAGE \<times> fs_state) res" where
  "fs_result set_val msg r = res_bind r (\<lambda>(v, st). Inr (set_val v msg, st))"

definition fs_handle :: "MESSAGE \<Rightarrow> MESSAGE \<Rightarrow> MESSAGE \<Rightarrow> fs_state \<Rightarrow> (MESSAGE \<times> fs_state) res" where
  "fs_handle ans junk msg st =
     (if mtype msg = OPEN then fs_result (\<lambda>v m. m\<lparr>m3i1 := v\<rparr>) msg (do_open (source msg) junk msg st)
      else if mtype msg = CLOSE then fs_result (\<lambda>v m. m\<lparr>m3i1 := v\<rparr>) msg (do_close (source msg) msg st)
      else if mtype msg = READ \<or> mtype msg = WRITE then
        res_bind (do_rdwt (source msg) ans msg st) (\<lambda>(v, m, st1). Inr (m\<lparr>m3i2 := v\<rparr>, st1))
      else if mtype msg = UNLINK then fs_result (\<lambda>v m. m\<lparr>m3i1 := v\<rparr>) msg (do_unlink (source msg) msg st)
      else if mtype msg = LSEEK then fs_result (\<lambda>v m. m\<lparr>m3i2 := v\<rparr>) msg (do_lseek (source msg) msg st)
      else if mtype msg = RESUME_PROC then Inr (msg, st)
      else if mtype msg = FORK then res_bind (fs_fork msg st) (\<lambda>st1. Inr (msg, st1))
      else if mtype msg = EXIT then res_bind (fs_exit msg st) (\<lambda>st1. Inr (msg, st1))
      else if mtype msg = STAT then fs_result (\<lambda>v m. m\<lparr>m3i1 := v\<rparr>) msg (do_stat msg st)
      else Inl (Panic ''fs unknown msg type''))"

definition fs_dispatch :: "MESSAGE \<Rightarrow> MESSAGE \<Rightarrow> MESSAGE \<Rightarrow> fs_state \<Rightarrow> ((int \<times> MESSAGE) option \<times> fs_state) res" where
  "fs_dispatch ans junk msg st =
     res_bind (fs_handle ans junk msg st) (\<lambda>(m, st1).
     let src = (if mtype msg = RESUME_PROC then PROC_NR msg else source msg)
     in Inr (if mtype m = SUSPEND_PROC then None else Some (src, m\<lparr>mtype := SYSCALL_RET\<rparr>), st1))"

end
