(* ===== verification/Fs_Refs.thy ===== *)
theory Fs_Refs
  imports Fs_Ops
begin

text \<open>
  Reference counts of the file system: \<^verbatim>\<open>fd_cnt\<close> of a descriptor is the number of file slots of processes
  that point to it, \<^verbatim>\<open>i_cnt\<close> of a cached inode the number of those slots through all its descriptors (and
  one for the root directory), and of the references that were taken and never given back, which a list \<open>L\<close> of
  cache slots records. The counts decide when a descriptor or a cache slot may be reused.
\<close>

section \<open>The invariant\<close>

text \<open>The part of the state the counts are about.\<close>

record ref_view =
  v_filp :: "int \<Rightarrow> nat \<Rightarrow> nat option"
  v_cnt :: "nat \<Rightarrow> int"
  v_node :: "nat \<Rightarrow> nat option"
  v_icnt :: "nat \<Rightarrow> int"
  v_id :: "nat \<Rightarrow> int \<times> int"
  v_root :: nat

definition view :: "fs_state \<Rightarrow> ref_view" where
  "view st = \<lparr>v_filp = (\<lambda>p. filp (fs_procs st p)), v_cnt = (\<lambda>k. fd_cnt (fd_table st k)), v_node = (\<lambda>k. fd_inode (fd_table st k)),
     v_icnt = (\<lambda>n. i_cnt (inode_table st n)), v_id = (\<lambda>n. (i_dev (inode_table st n), i_num (inode_table st n))),
     v_root = root_inode st\<rparr>"

definition file_slots :: "(int \<times> nat) set" where
  "file_slots = {p. valid_pid p} \<times> {..<64}"

definition refs :: "(int \<Rightarrow> nat \<Rightarrow> nat option) \<Rightarrow> nat \<Rightarrow> int" where
  "refs f k = (\<Sum>x\<in>file_slots. of_bool (f (fst x) (snd x) = Some k))"

definition node_refs :: "ref_view \<Rightarrow> nat \<Rightarrow> int" where
  "node_refs v n = (\<Sum>k<64. if v_node v k = Some n then v_cnt v k else 0) + of_bool (n = v_root v)"

definition view_inv :: "nat list \<Rightarrow> ref_view \<Rightarrow> bool" where
  "view_inv L v \<longleftrightarrow>
     (\<forall>p i k. valid_pid p \<longrightarrow> i < 64 \<longrightarrow> v_filp v p i = Some k \<longrightarrow> k < 64 \<and> v_node v k \<noteq> None) \<and>
     (\<forall>k < 64. \<forall>n. v_node v k = Some n \<longrightarrow> n < 64 \<and> v_cnt v k = refs (v_filp v) k) \<and>
     (\<forall>n < 64. v_icnt v n = node_refs v n + int (count_list L n)) \<and> v_root v < 64 \<and>
     (\<forall>n < 64. \<forall>n' < 64. v_icnt v n \<noteq> 0 \<longrightarrow> v_icnt v n' \<noteq> 0 \<longrightarrow> v_id v n = v_id v n' \<longrightarrow> n = n')"

definition ref_inv :: "nat list \<Rightarrow> fs_state \<Rightarrow> bool" where
  "ref_inv L st \<longleftrightarrow> view_inv L (view st)"

lemma finite_file_slots [simp]: "finite file_slots"
proof -
  have "{p. valid_pid p} \<subseteq> {0..36}"
    by (auto simp: valid_pid_def)
  then show ?thesis
    unfolding file_slots_def by (intro finite_cartesian_product) (auto intro: finite_subset)
qed

lemma refs_nonneg: "0 \<le> refs f k"
  unfolding refs_def by (intro sum_nonneg) simp

lemma refs_update:
  assumes "valid_pid p" "i < 64"
  shows "refs (f(p := (f p)(i := v))) k = refs f k - of_bool (f p i = Some k) + of_bool (v = Some k)"
proof -
  have "refs (f(p := (f p)(i := v))) k = refs f k - of_bool (f (fst (p, i)) (snd (p, i)) = Some k)
      + of_bool ((f(p := (f p)(i := v))) (fst (p, i)) (snd (p, i)) = Some k)"
    unfolding refs_def using assms by (intro sum_change) (auto simp: file_slots_def)
  then show ?thesis
    by simp
qed

lemma refs_zero:
  assumes "\<And>p i. valid_pid p \<Longrightarrow> i < 64 \<Longrightarrow> f p i \<noteq> Some k"
  shows "refs f k = 0"
  unfolding refs_def using assms by (intro sum.neutral) (auto simp: file_slots_def)

lemma refs_pos:
  assumes "valid_pid p" "i < 64" "f p i = Some k"
  shows "0 < refs f k"
proof -
  have "of_bool (f (fst (p, i)) (snd (p, i)) = Some k) \<le> refs f k"
    unfolding refs_def using assms by (intro member_le_sum) (auto simp: file_slots_def)
  then show ?thesis
    using assms(3) by simp
qed

lemma node_refs_nonneg:
  assumes "\<And>k. k < 64 \<Longrightarrow> v_node v k = Some n \<Longrightarrow> 0 \<le> v_cnt v k"
  shows "0 \<le> node_refs v n"
  unfolding node_refs_def using assms by (intro add_nonneg_nonneg sum_nonneg) auto

text \<open>The parts of the invariant as rules.\<close>

lemma view_slot: "view_inv L v \<Longrightarrow> valid_pid p \<Longrightarrow> i < 64 \<Longrightarrow> v_filp v p i = Some k \<Longrightarrow> k < 64 \<and> v_node v k \<noteq> None"
  unfolding view_inv_def by blast

lemma view_desc: "view_inv L v \<Longrightarrow> k < 64 \<Longrightarrow> v_node v k = Some n \<Longrightarrow> n < 64 \<and> v_cnt v k = refs (v_filp v) k"
  unfolding view_inv_def by blast

lemma view_icnt: "view_inv L v \<Longrightarrow> n < 64 \<Longrightarrow> v_icnt v n = node_refs v n + int (count_list L n)"
  unfolding view_inv_def by blast

lemma view_icnt_nonneg: "view_inv L v \<Longrightarrow> n < 64 \<Longrightarrow> 0 \<le> v_icnt v n"
  by (auto simp: view_icnt view_desc refs_nonneg intro!: add_nonneg_nonneg node_refs_nonneg)

lemma view_unique:
  "view_inv L v \<Longrightarrow> n < 64 \<Longrightarrow> n' < 64 \<Longrightarrow> v_icnt v n \<noteq> 0 \<Longrightarrow> v_icnt v n' \<noteq> 0 \<Longrightarrow> v_id v n = v_id v n' \<Longrightarrow> n = n'"
  unfolding view_inv_def by blast

lemma view_live:
  assumes "view_inv L v" "k < 64" "v_node v k = Some n" "0 < v_cnt v k"
  shows "0 < v_icnt v n"
proof -
  have "(if v_node v k = Some n then v_cnt v k else 0) \<le> (\<Sum>k<64. if v_node v k = Some n then v_cnt v k else 0)"
    using assms(1,2) by (intro member_le_sum) (auto simp: view_desc refs_nonneg)
  then have "0 < (\<Sum>k<64. if v_node v k = Some n then v_cnt v k else 0)"
    using assms(3,4) by simp
  then have "0 < node_refs v n"
    unfolding node_refs_def by (rule add_pos_nonneg) simp
  then show ?thesis
    using view_desc [OF assms(1-3)] view_icnt [OF assms(1)] by simp
qed

lemma view_invI:
  assumes "\<And>p i k. valid_pid p \<Longrightarrow> i < 64 \<Longrightarrow> v_filp v p i = Some k \<Longrightarrow> k < 64 \<and> v_node v k \<noteq> None"
    "\<And>k n. k < 64 \<Longrightarrow> v_node v k = Some n \<Longrightarrow> n < 64 \<and> v_cnt v k = refs (v_filp v) k"
    "\<And>n. n < 64 \<Longrightarrow> v_icnt v n = node_refs v n + int (count_list L n)" "v_root v < 64"
    "\<And>n n'. n < 64 \<Longrightarrow> n' < 64 \<Longrightarrow> v_icnt v n \<noteq> 0 \<Longrightarrow> v_icnt v n' \<noteq> 0 \<Longrightarrow> v_id v n = v_id v n' \<Longrightarrow> n = n'"
  shows "view_inv L v"
  unfolding view_inv_def using assms by blast

section \<open>Elementary changes\<close>

text \<open>A slot stops pointing to its descriptor.\<close>

definition drop_ref :: "int \<Rightarrow> nat \<Rightarrow> nat \<Rightarrow> nat \<Rightarrow> ref_view \<Rightarrow> ref_view" where
  "drop_ref p i k n v = v\<lparr>v_filp := (v_filp v)(p := (v_filp v p)(i := None)), v_cnt := (v_cnt v)(k := v_cnt v k - 1),
     v_node := (v_node v)(k := if v_cnt v k - 1 = 0 then None else v_node v k), v_icnt := (v_icnt v)(n := v_icnt v n - 1)\<rparr>"

text \<open>A free slot starts pointing to a descriptor in use.\<close>

definition add_ref :: "int \<Rightarrow> nat \<Rightarrow> nat \<Rightarrow> nat \<Rightarrow> ref_view \<Rightarrow> ref_view" where
  "add_ref p i k n v = v\<lparr>v_filp := (v_filp v)(p := (v_filp v p)(i := Some k)), v_cnt := (v_cnt v)(k := v_cnt v k + 1),
     v_icnt := (v_icnt v)(n := v_icnt v n + 1)\<rparr>"

lemma drop_ref_inv:
  assumes v: "view_inv L v" and p: "valid_pid p" "i < 64" "v_filp v p i = Some k" "v_node v k = Some n"
  shows "view_inv L (drop_ref p i k n v)"
proof -
  have k: "k < 64" "n < 64" "v_cnt v k = refs (v_filp v) k"
    using v p unfolding view_inv_def by blast+
  have r: "refs (v_filp (drop_ref p i k n v)) k' = refs (v_filp v) k' - of_bool (k' = k)" for k'
    unfolding drop_ref_def using p refs_update [OF p(1,2)] by auto
  have s: "(\<Sum>k'<64. if v_node (drop_ref p i k n v) k' = Some n' then v_cnt (drop_ref p i k n v) k' else 0) =
      (\<Sum>k'<64. if v_node v k' = Some n' then v_cnt v k' else 0) - of_bool (n' = n)" for n'
    using k(1) p(4) by (subst sum_change [where a = k and f = "\<lambda>k'. if v_node v k' = Some n' then v_cnt v k' else 0"])
      (auto simp: drop_ref_def)
  have none: "v_filp v q j \<noteq> Some k" if "valid_pid q" "j < 64" "(q, j) \<noteq> (p, i)" "v_cnt v k - 1 = 0" for q j
  proof
    assume "v_filp v q j = Some k"
    then have "0 < refs ((v_filp v)(p := (v_filp v p)(i := None))) k"
      using that by (intro refs_pos [of q j]) (auto simp: fun_upd_def)
    then show False
      using that(4) k(3) r [of k] by (simp add: drop_ref_def)
  qed
  show ?thesis
  proof (rule view_invI)
    fix q j k' assume q: "valid_pid q" "j < 64" "v_filp (drop_ref p i k n v) q j = Some k'"
    then have q': "(q, j) \<noteq> (p, i)" "v_filp v q j = Some k'"
      by (auto simp: drop_ref_def split: if_splits)
    show "k' < 64 \<and> v_node (drop_ref p i k n v) k' \<noteq> None"
      using view_slot [OF v q(1,2) q'(2)] none [OF q(1,2) q'(1)] q'(2) by (cases "k' = k") (auto simp: drop_ref_def)
  next
    fix k' n' assume "k' < 64" "v_node (drop_ref p i k n v) k' = Some n'"
    then show "n' < 64 \<and> v_cnt (drop_ref p i k n v) k' = refs (v_filp (drop_ref p i k n v)) k'"
      unfolding r using view_desc [OF v, of k' n'] by (auto simp: drop_ref_def split: if_splits)
  next
    fix n' assume "n' < (64 :: nat)"
    then show "v_icnt (drop_ref p i k n v) n' = node_refs (drop_ref p i k n v) n' + int (count_list L n')"
      using view_icnt [OF v] unfolding node_refs_def s by (auto simp: drop_ref_def)
  next
    show "v_root (drop_ref p i k n v) < 64"
      using v unfolding view_inv_def by (simp add: drop_ref_def)
  next
    have "0 < v_icnt v n"
      using k p refs_pos [of p i "v_filp v" k] by (intro view_live [OF v k(1) p(4)]) simp
    then have "v_icnt v a \<noteq> 0" if "v_icnt (drop_ref p i k n v) a \<noteq> 0" for a
      using that by (cases "a = n") (simp_all add: drop_ref_def)
    then show "a = b" if "a < 64" "b < 64" "v_icnt (drop_ref p i k n v) a \<noteq> 0" "v_icnt (drop_ref p i k n v) b \<noteq> 0"
      "v_id (drop_ref p i k n v) a = v_id (drop_ref p i k n v) b" for a b
      using view_unique [OF v that(1,2)] that(3-5) by (simp add: drop_ref_def)
  qed
qed

lemma add_ref_inv:
  assumes v: "view_inv L v" and p: "valid_pid p" "i < 64" "v_filp v p i = None" "v_node v k = Some n" "k < 64" "0 < v_cnt v k"
  shows "view_inv L (add_ref p i k n v)"
proof -
  have k: "n < 64" "v_cnt v k = refs (v_filp v) k"
    using view_desc [OF v p(5,4)] by blast+
  have r: "refs (v_filp (add_ref p i k n v)) k' = refs (v_filp v) k' + of_bool (k' = k)" for k'
    unfolding add_ref_def using p refs_update [OF p(1,2)] by auto
  have s: "(\<Sum>k'<64. if v_node (add_ref p i k n v) k' = Some n' then v_cnt (add_ref p i k n v) k' else 0) =
      (\<Sum>k'<64. if v_node v k' = Some n' then v_cnt v k' else 0) + of_bool (n' = n)" for n'
    using p(4,5) by (subst sum_change [where a = k and f = "\<lambda>k'. if v_node v k' = Some n' then v_cnt v k' else 0"])
      (auto simp: add_ref_def)
  show ?thesis
  proof (rule view_invI)
    fix q j k' assume q: "valid_pid q" "j < 64" "v_filp (add_ref p i k n v) q j = Some k'"
    show "k' < 64 \<and> v_node (add_ref p i k n v) k' \<noteq> None"
      using view_slot [OF v q(1,2), of k'] q(3) p(4,5) by (cases "(q, j) = (p, i)") (auto simp: add_ref_def split: if_splits)
  next
    fix k' n' assume "k' < 64" "v_node (add_ref p i k n v) k' = Some n'"
    then show "n' < 64 \<and> v_cnt (add_ref p i k n v) k' = refs (v_filp (add_ref p i k n v)) k'"
      unfolding r using view_desc [OF v, of k' n'] by (auto simp: add_ref_def split: if_splits)
  next
    fix n' assume "n' < (64 :: nat)"
    then show "v_icnt (add_ref p i k n v) n' = node_refs (add_ref p i k n v) n' + int (count_list L n')"
      using view_icnt [OF v] unfolding node_refs_def s by (auto simp: add_ref_def)
  next
    show "v_root (add_ref p i k n v) < 64"
      using v unfolding view_inv_def by (simp add: add_ref_def)
  next
    have "0 < v_icnt v n"
      by (rule view_live [OF v p(5,4,6)])
    then have "v_icnt v a \<noteq> 0" if "v_icnt (add_ref p i k n v) a \<noteq> 0" for a
      using that by (cases "a = n") (simp_all add: add_ref_def)
    then show "a = b" if "a < 64" "b < 64" "v_icnt (add_ref p i k n v) a \<noteq> 0" "v_icnt (add_ref p i k n v) b \<noteq> 0"
      "v_id (add_ref p i k n v) a = v_id (add_ref p i k n v) b" for a b
      using view_unique [OF v that(1,2)] that(3-5) by (simp add: add_ref_def)
  qed
qed

text \<open>
  A free slot and a free descriptor open a node: one that is cached and in use, or one that gets the
  cache slot \<open>n\<close> of an unused one.
\<close>

definition open_ref :: "int \<Rightarrow> nat \<Rightarrow> nat \<Rightarrow> nat \<Rightarrow> int \<times> int \<Rightarrow> ref_view \<Rightarrow> ref_view" where
  "open_ref p i k n ident v = v\<lparr>v_filp := (v_filp v)(p := (v_filp v p)(i := Some k)), v_cnt := (v_cnt v)(k := 1),
     v_node := (v_node v)(k := Some n), v_icnt := (v_icnt v)(n := v_icnt v n + 1), v_id := (v_id v)(n := ident)\<rparr>"

lemma open_ref_inv:
  assumes v: "view_inv L v" and p: "valid_pid p" "i < 64" "v_filp v p i = None" "v_node v k = None" "k < 64" "n < 64"
    and live: "v_icnt v n \<noteq> 0 \<Longrightarrow> v_id v n = ident"
    and fresh: "v_icnt v n = 0 \<Longrightarrow> \<forall>n' < 64. v_icnt v n' \<noteq> 0 \<longrightarrow> v_id v n' \<noteq> ident"
  shows "view_inv L (open_ref p i k n ident v)"
proof -
  have "refs (v_filp v) k = 0"
    using view_slot [OF v] p(4) by (intro refs_zero) fastforce
  then have r: "refs (v_filp (open_ref p i k n ident v)) k' = (if k' = k then 1 else refs (v_filp v) k')" for k'
    unfolding open_ref_def using p refs_update [OF p(1,2)] by auto
  have s: "(\<Sum>k'<64. if v_node (open_ref p i k n ident v) k' = Some n' then v_cnt (open_ref p i k n ident v) k' else 0) =
      (\<Sum>k'<64. if v_node v k' = Some n' then v_cnt v k' else 0) + of_bool (n' = n)" for n'
    using p(4,5) by (subst sum_change [where a = k and f = "\<lambda>k'. if v_node v k' = Some n' then v_cnt v k' else 0"])
      (auto simp: open_ref_def)
  show ?thesis
  proof (rule view_invI)
    fix q j k' assume q: "valid_pid q" "j < 64" "v_filp (open_ref p i k n ident v) q j = Some k'"
    show "k' < 64 \<and> v_node (open_ref p i k n ident v) k' \<noteq> None"
      using view_slot [OF v q(1,2), of k'] q(3) p(5) by (cases "(q, j) = (p, i)") (auto simp: open_ref_def split: if_splits)
  next
    fix k' n' assume "k' < 64" "v_node (open_ref p i k n ident v) k' = Some n'"
    then show "n' < 64 \<and> v_cnt (open_ref p i k n ident v) k' = refs (v_filp (open_ref p i k n ident v)) k'"
      unfolding r using view_desc [OF v, of k' n'] p(6) by (auto simp: open_ref_def split: if_splits)
  next
    fix n' assume "n' < (64 :: nat)"
    then show "v_icnt (open_ref p i k n ident v) n' = node_refs (open_ref p i k n ident v) n' + int (count_list L n')"
      using view_icnt [OF v] unfolding node_refs_def s by (auto simp: open_ref_def)
  next
    show "v_root (open_ref p i k n ident v) < 64"
      using v unfolding view_inv_def by (simp add: open_ref_def)
  next
    show "a = b" if "a < 64" "b < 64" "v_icnt (open_ref p i k n ident v) a \<noteq> 0" "v_icnt (open_ref p i k n ident v) b \<noteq> 0"
      "v_id (open_ref p i k n ident v) a = v_id (open_ref p i k n ident v) b" for a b
      using view_unique [OF v that(1,2)] that live fresh by (auto simp: open_ref_def split: if_splits)
  qed
qed

section \<open>Operations that leave the counts alone\<close>

named_theorems view_frame "operations after which the counts are what they were"

lemma view_upd [simp]:
  "view (st\<lparr>fsbuf := f\<rparr>) = view st" "view (st\<lparr>fs_disk := d\<rparr>) = view st" "view (st\<lparr>super_blocks := b\<rparr>) = view st"
  "view (st\<lparr>fs_mem := m\<rparr>) = view st" "view (st\<lparr>fs_sent := l\<rparr>) = view st" "view (fs_send dst msg st) = view st"
  by (simp_all add: view_def fs_send_def)

lemma view_upd_inode:
  "(\<And>x. i_cnt (f x) = i_cnt x \<and> i_dev (f x) = i_dev x \<and> i_num (f x) = i_num x) \<Longrightarrow> view (upd_inode p f st) = view st"
  by (auto simp: view_def upd_inode_def fun_eq_iff)

lemma view_upd_fd:
  "(\<And>x. fd_cnt (f x) = fd_cnt x \<and> fd_inode (f x) = fd_inode x) \<Longrightarrow> view (upd_fd k f st) = view st"
  by (auto simp: view_def upd_fd_def fun_eq_iff)

lemma view_upd_size [simp]:
  "view (upd_inode p (\<lambda>x. x\<lparr>i_size := s x\<rparr>) st) = view st" "view (upd_inode p (load_inode f a) st) = view st"
  "view (upd_inode p (\<lambda>x. x\<lparr>i_mode := m, i_size := z, i_start_sect := b, i_nr_sects := n\<rparr>) st) = view st"
  "view (upd_fd k (\<lambda>x. x\<lparr>fd_pos := g x\<rparr>) st) = view st"
  by (rule view_upd_inode view_upd_fd, simp add: load_inode_def)+

lemma rw_sector_view [view_frame]: "rw_sector io dev pos bytes st = Inr st' \<Longrightarrow> view st' = view st"
  by (auto simp: rw_sector_def disk_rw_def res_simps split: if_split_asm)

lemma sect_view [view_frame]:
  "RD_SECT dev n st = Inr st' \<Longrightarrow> view st' = view st" "WR_SECT dev n st = Inr st' \<Longrightarrow> view st' = view st"
  unfolding RD_SECT_def WR_SECT_def by (auto dest: rw_sector_view)

lemma get_super_block_view [view_frame]: "get_super_block dev st = Inr (s, st') \<Longrightarrow> view st' = view st"
  by (auto simp: get_super_block_def Let_def split: if_split_asm)

lemma sync_inode_view [view_frame]: "sync_inode p st = Inr st' \<Longrightarrow> view st' = view st"
  by (auto simp: sync_inode_def Let_def res_simps split: if_split_asm dest!: view_frame)

lemma search_blocks_view: "search_blocks dev b is name m n st = Inr (r, st') \<Longrightarrow> view st' = view st"
  by (induction "is" arbitrary: m st)
    (auto simp: res_simps prod.case_eq_if split: option.split_asm if_split_asm dest!: view_frame)

lemma search_file_view [view_frame]: "search_file path st = Inr (r, st') \<Longrightarrow> view st' = view st"
  by (auto simp: search_file_def Let_def res_simps split: option.split_asm if_split_asm dest!: search_blocks_view)

lemma alloc_imap_loop_view: "alloc_imap_loop dev is st = Inr (r, st') \<Longrightarrow> view st' = view st"
  by (induction "is" arbitrary: st)
    (auto simp: res_simps split: option.split_asm dest!: view_frame)

lemma alloc_imap_bit_view [view_frame]: "alloc_imap_bit dev st = Inr (r, st') \<Longrightarrow> view st' = view st"
  by (auto simp: alloc_imap_bit_def res_simps dest!: view_frame alloc_imap_loop_view)

lemma alloc_smap_loop_view: "alloc_smap_loop dev b n1 is sect left st = Inr (r, l, st') \<Longrightarrow> view st' = view st"
  by (induction "is" arbitrary: sect left st)
    (auto simp: res_simps Let_def split: if_split_asm dest!: view_frame)

lemma alloc_smap_bit_view [view_frame]: "alloc_smap_bit dev n st = Inr (r, st') \<Longrightarrow> view st' = view st"
  by (auto simp: alloc_smap_bit_def res_simps split: if_split_asm dest!: view_frame alloc_smap_loop_view)

lemma slot_search_view: "slot_search de b is n st = Inr (i, d, st') \<Longrightarrow> view st' = view st"
  by (induction "is" arbitrary: n st)
    (auto simp: res_simps prod.case_eq_if split: option.split_asm if_split_asm dest!: view_frame)

lemma new_directory_entry_view [view_frame]: "new_directory_entry de name nr st = Inr st' \<Longrightarrow> view st' = view st"
  by (auto simp: new_directory_entry_def Let_def res_simps dest!: view_frame slot_search_view)

lemma clear_imap_view [view_frame]: "clear_imap dev n st = Inr st' \<Longrightarrow> view st' = view st"
  by (auto simp: clear_imap_def Let_def res_simps split: if_split_asm dest!: view_frame)

lemma clear_first_view: "clear_first j ks n st = Inr (r, st') \<Longrightarrow> view st' = view st"
  by (induction ks arbitrary: n st) (auto simp: res_simps split: if_split_asm)

lemma next_smap_view [view_frame]: "next_smap dev i s st = Inr (i', s', st') \<Longrightarrow> view st' = view st"
  by (auto simp: next_smap_def res_simps split: if_split_asm dest!: view_frame)

lemma clear_middle_view: "clear_middle dev c i s n st = Inr (i', s', n', st') \<Longrightarrow> view st' = view st"
  by (induction c arbitrary: i s n st) (auto simp: res_simps split: if_split_asm dest!: view_frame)

lemma clear_smap_view [view_frame]: "clear_smap dev b n st = Inr st' \<Longrightarrow> view st' = view st"
  by (auto simp: clear_smap_def Let_def res_simps split: if_split_asm dest!: view_frame clear_first_view clear_middle_view)

lemma unlink_loop_view: "unlink_loop dev b is nr n m z st = Inr (m', z', st') \<Longrightarrow> view st' = view st"
  by (induction "is" arbitrary: m z st)
    (auto simp: res_simps prod.case_eq_if split: option.split_asm dest!: view_frame)

lemma copy_user_view [view_frame]:
  "copy_to_user pid va off n st = Inr st' \<Longrightarrow> view st' = view st" "copy_from_user pid va off n st = Inr st' \<Longrightarrow> view st' = view st"
  by (auto simp: copy_to_user_def copy_from_user_def res_simps split: if_split_asm)

lemma rdwt_loop_view:
  "rdwt_loop rd msg k dev chunk pe i se off n left st = Inr (n', st') \<Longrightarrow> view st' = view st"
proof (induction "nat (se + 1 - i)" arbitrary: i off n left st rule: less_induct)
  case less
  have IH: "view st' = view st1"
    if "rdwt_loop rd1 msg k dev chunk pe (i + chunk) se off1 n1 left1 st1 = Inr (n', st')" "rd1 = rd" "\<not> se < i" "\<not> chunk \<le> 0"
    for rd1 off1 n1 left1 st1
    using that(2-4) by (intro less.hyps [OF _ that(1) [unfolded that(2)]]) simp
  show ?case
    using less.prems by (subst (asm) rdwt_loop.simps)
      (auto simp: res_simps Let_def split: if_split_asm dest!: view_frame dest: IH)
qed

lemma rdwt_file_view [view_frame]: "rdwt_file msg k p st = Inr (n, st') \<Longrightarrow> view st' = view st"
  by (auto simp: rdwt_file_def Let_def res_simps split: if_split_asm dest!: view_frame rdwt_loop_view)

lemma do_rdwt_view [view_frame]: "do_rdwt pid ans msg st = Inr (n, m, st') \<Longrightarrow> view st' = view st"
  by (auto simp: do_rdwt_def rdwt_char_def Let_def res_simps split: if_split_asm dest!: view_frame)

lemma do_lseek_view [view_frame]: "do_lseek pid msg st = Inr (n, st') \<Longrightarrow> view st' = view st"
  by (auto simp: do_lseek_def Let_def res_simps split: if_split_asm)

section \<open>Getting and putting inodes\<close>

definition get_ref :: "nat \<Rightarrow> int \<times> int \<Rightarrow> ref_view \<Rightarrow> ref_view" where
  "get_ref n ident v = v\<lparr>v_icnt := (v_icnt v)(n := v_icnt v n + 1), v_id := (v_id v)(n := ident)\<rparr>"

text \<open>The slot \<open>n\<close> of the cache may hold the inode \<open>ident\<close>: it already does, or it is unused and no other slot does.\<close>

definition may_hold :: "ref_view \<Rightarrow> nat \<Rightarrow> int \<times> int \<Rightarrow> bool" where
  "may_hold v n ident \<longleftrightarrow> n < 64 \<and>
     (if v_icnt v n \<noteq> 0 then v_id v n = ident else \<forall>n' < 64. v_icnt v n' \<noteq> 0 \<longrightarrow> v_id v n' \<noteq> ident)"

lemma find_inode_Some:
  "find_inode t dev nr ps q = (Some p, q') \<Longrightarrow> p \<in> set ps \<and> i_cnt (t p) \<noteq> 0 \<and> i_dev (t p) = dev \<and> i_num (t p) = nr"
  by (induction ps arbitrary: q) (auto split: if_split_asm)

lemma find_inode_None:
  "find_inode t dev nr ps q = (None, q') \<Longrightarrow>
     (\<forall>p\<in>set ps. i_cnt (t p) \<noteq> 0 \<longrightarrow> (i_dev (t p), i_num (t p)) \<noteq> (dev, nr)) \<and>
     (\<forall>p. q' = Some p \<longrightarrow> q = Some p \<or> p \<in> set ps \<and> i_cnt (t p) = 0)"
  by (induction ps arbitrary: q) (auto split: if_split_asm)

lemma find_inode_table:
  assumes "find_inode (inode_table st) dev nr [0..<64] None = (r, q)"
  shows "r = Some p \<Longrightarrow> v_icnt (view st) p \<noteq> 0 \<and> may_hold (view st) p (dev, nr)"
    "r = None \<Longrightarrow> q = Some p \<Longrightarrow> v_icnt (view st) p = 0 \<and> may_hold (view st) p (dev, nr)"
  using assms find_inode_Some [of "inode_table st" dev nr "[0..<64]" None p q] find_inode_None [of "inode_table st" dev nr "[0..<64]" None q]
  by (auto simp: may_hold_def view_def)

lemma get_inode_view:
  assumes "get_inode dev nr st = Inr (p, st')"
  shows "view st' = get_ref p (dev, nr) (view st) \<and> may_hold (view st) p (dev, nr)"
proof (cases "find_inode (inode_table st) dev nr [0..<64] None")
  case (Pair r q)
  note f = find_inode_table [OF Pair]
  show ?thesis
  proof (cases r)
    case None
    then obtain i where q: "q = Some i"
      using assms Pair by (cases q) (auto simp: get_inode_def)
    have "view (upd_inode i (\<lambda>x. x\<lparr>i_dev := dev, i_num := nr, i_cnt := 1\<rparr>) st) = get_ref i (dev, nr) (view st)"
      using f(2) [OF None q] by (auto simp: view_def get_ref_def upd_inode_def fun_eq_iff)
    moreover have "p = i \<and> view st' = view (upd_inode i (\<lambda>x. x\<lparr>i_dev := dev, i_num := nr, i_cnt := 1\<rparr>) st)"
      using assms Pair None q by (auto simp: get_inode_def Let_def res_simps split: if_split_asm dest!: view_frame)
    ultimately show ?thesis
      using f(2) [OF None q] by simp
  next
    case (Some i)
    then have "p = i" "st' = upd_inode i (\<lambda>x. x\<lparr>i_cnt := i_cnt x + 1\<rparr>) st"
      using assms Pair by (auto simp: get_inode_def)
    then show ?thesis
      using f(1) [OF Some] by (auto simp: view_def get_ref_def upd_inode_def may_hold_def fun_eq_iff)
  qed
qed

text \<open>A reference that is taken and given back, as \<^verbatim>\<open>do_stat\<close> does.\<close>

definition put_ref :: "nat \<Rightarrow> ref_view \<Rightarrow> ref_view" where
  "put_ref n v = v\<lparr>v_icnt := (v_icnt v)(n := v_icnt v n - 1)\<rparr>"

lemma put_inode_view: "put_inode p st = Inr st' \<Longrightarrow> view st' = put_ref p (view st) \<and> 0 < v_icnt (view st) p"
  by (auto simp: put_inode_def res_simps view_def put_ref_def upd_inode_def fun_eq_iff split: if_split_asm)

lemma get_put_inv:
  assumes v: "view_inv L v" and h: "may_hold v n ident"
  shows "view_inv L (put_ref n (get_ref n ident v))"
proof -
  have e: "put_ref n (get_ref n ident v) = v\<lparr>v_id := (v_id v)(n := ident)\<rparr>"
    by (cases v) (simp add: put_ref_def get_ref_def fun_eq_iff)
  have id: "((v_id v)(n := ident)) a = v_id v a" if "v_icnt v a \<noteq> 0" for a
    using that h by (auto simp: may_hold_def)
  show ?thesis
    unfolding e
  proof (rule view_invI, goal_cases)
    case (1 p i k)
    then show ?case using view_slot [OF v 1(1,2), of k] by simp
  next
    case (2 k n)
    then show ?case using view_desc [OF v 2(1), of n] by simp
  next
    case (3 n)
    then show ?case using view_icnt [OF v 3] by (simp add: node_refs_def cong: if_cong)
  next
    case 4
    show ?case using v by (simp add: view_inv_def)
  next
    case (5 a b)
    then show ?case using view_unique [OF v 5(1,2)] id by simp
  qed
qed

text \<open>A reference that is taken and kept.\<close>

lemma get_keep_inv:
  assumes v: "view_inv L v" and h: "may_hold v n ident"
  shows "view_inv (n # L) (get_ref n ident v)"
proof -
  have id: "((v_id v)(n := ident)) a = v_id v a" if "v_icnt v a \<noteq> 0" for a
    using that h by (auto simp: may_hold_def)
  show ?thesis
  proof (rule view_invI, goal_cases)
    case (1 p i k)
    then show ?case using view_slot [OF v 1(1,2), of k] by (simp add: get_ref_def)
  next
    case (2 k m)
    then show ?case using view_desc [OF v 2(1), of m] by (simp add: get_ref_def)
  next
    case (3 m)
    then show ?case using view_icnt [OF v 3] by (auto simp: get_ref_def node_refs_def cong: if_cong)
  next
    case 4
    show ?case using v by (simp add: view_inv_def get_ref_def)
  next
    case (5 a b)
    then show ?case
      using view_unique [OF v 5(1,2)] id [of a] id [of b] h by (auto simp: get_ref_def may_hold_def split: if_split_asm)
  qed
qed

section \<open>The inode map\<close>

text \<open>A number is in use in the inode map of a device.\<close>

definition imap_bit :: "int \<Rightarrow> fs_state \<Rightarrow> int \<Rightarrow> bool" where
  "imap_bit dev st nr \<longleftrightarrow> bit (fs_disk st (MINOR dev) (1024 + nat nr div 8)) (nat nr mod 8)"

lemma RD_SECT_eq: "RD_SECT dev n st = Inr st' \<Longrightarrow> 0 \<le> n \<and> st' = st\<lparr>fsbuf := copy_range (fs_disk st (MINOR dev)) (512 * nat n) (fsbuf st) 0 512\<rparr>"
  by (auto simp: RD_SECT_def rw_sector_def disk_rw_def res_simps nat_mult_distrib mult.commute split: if_split_asm)

lemma WR_SECT_eq: "WR_SECT dev n st = Inr st' \<Longrightarrow>
    0 \<le> n \<and> st' = st\<lparr>fs_disk := (fs_disk st)(MINOR dev := copy_range (fsbuf st) 0 (fs_disk st (MINOR dev)) (512 * nat n) 512)\<rparr>"
  by (auto simp: WR_SECT_def rw_sector_def disk_rw_def res_simps nat_mult_distrib mult.commute split: if_split_asm)

lemma free_bit_Some: "free_bit b ks = Some k \<Longrightarrow> set ks \<subseteq> {..<8} \<Longrightarrow> k < 8 \<and> \<not> bit b k"
  by (induction ks) (auto simp: and_exp_eq_0_iff_not_bit split: if_split_asm)

lemma find_bit_Some: "find_bit f js = Some (j, k) \<Longrightarrow> j \<in> set js \<and> k < 8 \<and> \<not> bit (f j) k"
  by (induction js) (auto split: if_split_asm option.split_asm dest: free_bit_Some)

text \<open>Reading a sector, changing a byte of the buffer and writing the sector back changes that byte of the disk.\<close>

lemma byte_rewrite:
  assumes "j < 512"
  shows "copy_range ((copy_range d a f 0 512)(j := b)) 0 d a 512 = d(a + j := b)"
  using assms by (auto simp: copy_range_def fun_eq_iff)

lemma alloc_imap_loop_spec:
  assumes "alloc_imap_loop dev is st = Inr (nr, st')"
  shows "\<exists>i j k. nr = int ((j + i * 512) * 8 + k) \<and> j < 512 \<and> k < 8 \<and> \<not> bit (fs_disk st (MINOR dev) (512 * (2 + i) + j)) k \<and>
    fs_disk st' = (fs_disk st)(MINOR dev := (fs_disk st (MINOR dev))
      (512 * (2 + i) + j := fs_disk st (MINOR dev) (512 * (2 + i) + j) OR push_bit k 1))"
  using assms
proof (induction "is" arbitrary: st)
  case (Cons i js)
  then obtain st1 where rd: "RD_SECT dev (2 + int i) st = Inr st1"
    by (auto simp: res_simps)
  have d: "st1 = st\<lparr>fsbuf := copy_range (fs_disk st (MINOR dev)) (512 * (2 + i)) (fsbuf st) 0 512\<rparr>"
    using RD_SECT_eq [OF rd] by (simp add: nat_add_distrib)
  show ?case
  proof (cases "find_bit (fsbuf st1) [0..<512]")
    case None
    then show ?thesis
      using Cons.IH [of st1] Cons.prems rd d by simp
  next
    case (Some r)
    then obtain j k where r: "find_bit (fsbuf st1) [0..<512] = Some (j, k)"
      by (cases r) auto
    have jk: "j < 512" "k < 8" "\<not> bit (fs_disk st (MINOR dev) (512 * (2 + i) + j)) k" "fsbuf st1 j = fs_disk st (MINOR dev) (512 * (2 + i) + j)"
      using find_bit_Some [OF r] by (auto simp: d copy_range_def)
    have "nr = int ((j + i * 512) * 8 + k) \<and>
        WR_SECT dev (2 + int i) (st1\<lparr>fsbuf := (fsbuf st1)(j := fsbuf st1 j OR push_bit k 1)\<rparr>) = Inr st'"
      using Cons.prems rd r by (auto simp: res_simps)
    then have "nr = int ((j + i * 512) * 8 + k) \<and> fs_disk st' = (fs_disk st)(MINOR dev := (fs_disk st (MINOR dev))
        (512 * (2 + i) + j := fs_disk st (MINOR dev) (512 * (2 + i) + j) OR push_bit k 1))"
      using jk(4) byte_rewrite [OF jk(1), of "fs_disk st (MINOR dev)" "512 * (2 + i)" "fsbuf st"]
      by (auto simp: d nat_add_distrib dest!: WR_SECT_eq)
    then show ?thesis
      using jk(1-3) by blast
  qed
qed simp

lemma imap_index:
  fixes k :: nat
  assumes "k < 8"
  shows "nat (int (m * 8 + k)) div 8 = m" "nat (int (m * 8 + k)) mod 8 = k"
  using assms unfolding nat_int by simp_all

lemma alloc_imap_spec:
  assumes "alloc_imap_bit dev st = Inr (nr, st')"
  shows "0 \<le> nr" "\<not> imap_bit dev st nr" "0 \<le> n \<Longrightarrow> imap_bit dev st' n \<longleftrightarrow> n = nr \<or> imap_bit dev st n"
proof -
  obtain s st1 where s: "get_super_block dev st = Inr (s, st1)" "alloc_imap_loop dev [0..<unat (nr_imap_sects s)] st1 = Inr (nr, st')"
    using assms by (auto simp: alloc_imap_bit_def res_simps)
  have d: "fs_disk st1 = fs_disk st"
    using s(1) by (auto simp: get_super_block_def Let_def split: if_split_asm)
  obtain i j k where r: "nr = int ((j + i * 512) * 8 + k)" "j < 512" "k < 8" "\<not> bit (fs_disk st (MINOR dev) (512 * (2 + i) + j)) k"
    "fs_disk st' = (fs_disk st)(MINOR dev := (fs_disk st (MINOR dev))
      (512 * (2 + i) + j := fs_disk st (MINOR dev) (512 * (2 + i) + j) OR push_bit k 1))"
    using alloc_imap_loop_spec [OF s(2)] unfolding d by blast
  have a: "512 * (2 + i) + j = 1024 + (j + i * 512)"
    by simp
  note x = imap_index [OF r(3), of "j + i * 512", folded r(1)]
  show "0 \<le> nr"
    by (simp add: r(1))
  show "\<not> imap_bit dev st nr"
    unfolding imap_bit_def x by (rule r(4) [unfolded a])
  have "n = nr" if "0 \<le> n" "nat n div 8 = j + i * 512" "nat n mod 8 = k"
    using that r(1) div_mult_mod_eq [of "nat n" 8] by simp
  then show "imap_bit dev st' n \<longleftrightarrow> n = nr \<or> imap_bit dev st n" if "0 \<le> n"
    using that x r(3) unfolding imap_bit_def r(5) a by (auto simp: bit_simps)
qed

section \<open>Requests\<close>

lemma do_close_view:
  assumes "do_close pid msg st = Inr (r, st')"
  shows "view st' = view st \<or> (\<exists>i k n. i < 64 \<and> v_filp (view st) pid i = Some k \<and> v_node (view st) k = Some n \<and>
    view st' = drop_ref pid i k n (view st))"
proof (cases "FD msg < 0 \<or> FD msg \<ge> 64")
  case True
  then show ?thesis
    using assms by (auto simp: do_close_def)
next
  case False
  then obtain k n where kn: "filp (fs_procs st pid) (nat (FD msg)) = Some k" "fd_inode (fd_table st k) = Some n"
    using assms by (auto simp: do_close_def Let_def split: option.split_asm)
  then have "view st' = drop_ref pid (nat (FD msg)) k n (view st)"
    using assms False
    by (auto simp: do_close_def put_inode_def view_def drop_ref_def upd_inode_def upd_fd_def set_filp_def Let_def fun_eq_iff
        split: if_split_asm)
  moreover have "nat (FD msg) < 64" "v_filp (view st) pid (nat (FD msg)) = Some k" "v_node (view st) k = Some n"
    using kn False by (auto simp: view_def)
  ultimately show ?thesis
    by blast
qed

lemma do_close_inv: "ref_inv L st \<Longrightarrow> valid_pid pid \<Longrightarrow> do_close pid msg st = Inr (r, st') \<Longrightarrow> ref_inv L st'"
  unfolding ref_inv_def by (drule do_close_view) (auto intro: drop_ref_inv)

lemma exit_fd_inv:
  assumes "ref_inv L st" "valid_pid pid" "i < 64" "exit_fd pid i st = Inr st'"
  shows "ref_inv L st'"
proof (cases "filp (fs_procs st pid) i")
  case None
  then show ?thesis
    using assms by (simp add: exit_fd_def)
next
  case (Some k)
  then obtain n where n: "fd_inode (fd_table st k) = Some n"
    using assms(4) by (auto simp: exit_fd_def split: option.split_asm)
  have "view st' = drop_ref pid i k n (view st)"
    using assms(4) Some n
    by (auto simp: exit_fd_def view_def drop_ref_def upd_inode_def upd_fd_def set_filp_def Let_def fun_eq_iff split: if_split_asm)
  then show ?thesis
    using drop_ref_inv [of L "view st" pid i k n] assms Some n by (simp add: ref_inv_def view_def)
qed

lemma each_fd_inv:
  assumes "\<And>i st st'. i \<in> set js \<Longrightarrow> P st \<Longrightarrow> f i st = Inr st' \<Longrightarrow> P st'"
  shows "P st \<Longrightarrow> each_fd f js st = Inr st' \<Longrightarrow> P st'"
  using assms by (induction js arbitrary: st) (auto simp: res_simps)

lemma fs_exit_inv:
  assumes "ref_inv L st" "fs_exit msg st = Inr st'"
  shows "ref_inv L st'"
proof -
  have p: "valid_pid (PID msg)" "each_fd (exit_fd (PID msg)) [0..<64] st = Inr st'"
    using assms(2) by (auto simp: fs_exit_def split: if_split_asm)
  show ?thesis
    by (rule each_fd_inv [of "[0..<64]" "ref_inv L", OF _ assms(1) p(2)]) (auto intro: exit_fd_inv [OF _ p(1)])
qed

lemma do_stat_view:
  assumes "do_stat msg st = Inr (r, st')"
  shows "view st' = view st \<or> (\<exists>n ident. may_hold (view st) n ident \<and> view st' = put_ref n (get_ref n ident (view st)))"
proof -
  obtain path nr st1 where s: "search_file path st = Inr (nr, st1)"
    and r: "nr = 0 \<and> st' = st1 \<or> (\<exists>dev p st2 st3 m. get_inode dev nr st1 = Inr (p, st2) \<and> put_inode p st2 = Inr st3 \<and> st' = st3\<lparr>fs_mem := m\<rparr>)"
    using assms by (simp add: do_stat_def res_simps Let_def split: if_split_asm) blast+
  show ?thesis
    using r search_file_view [OF s]
    by (elim disjE exE conjE) (simp, metis get_inode_view put_inode_view view_upd(4))
qed

lemma do_stat_inv: "ref_inv L st \<Longrightarrow> do_stat msg st = Inr (r, st') \<Longrightarrow> ref_inv L st'"
  unfolding ref_inv_def by (drule do_stat_view) (auto intro: get_put_inv)

text \<open>Every inode in use in the cache has its bit in the inode map of its device.\<close>

definition imap_ok :: "fs_state \<Rightarrow> bool" where
  "imap_ok st \<longleftrightarrow> (\<forall>n < 64. i_cnt (inode_table st n) \<noteq> 0 \<longrightarrow> imap_bit (i_dev (inode_table st n)) st (i_num (inode_table st n)))"

lemma RD_SECT_disk: "RD_SECT dev n st = Inr st' \<Longrightarrow> fs_disk st' = fs_disk st"
  by (auto dest: RD_SECT_eq)

lemma search_blocks_disk: "search_blocks dev b is name m n st = Inr (r, st') \<Longrightarrow> fs_disk st' = fs_disk st"
  by (induction "is" arbitrary: m st)
    (auto simp: res_simps prod.case_eq_if split: option.split_asm if_split_asm dest!: RD_SECT_disk)

lemma search_file_disk: "search_file path st = Inr (r, st') \<Longrightarrow> fs_disk st' = fs_disk st"
  by (auto simp: search_file_def Let_def res_simps split: option.split_asm if_split_asm dest!: search_blocks_disk)

lemma imap_ok_view: "view st' = view st \<Longrightarrow> fs_disk st' = fs_disk st \<Longrightarrow> imap_ok st' = imap_ok st"
  by (simp add: imap_ok_def imap_bit_def view_def fun_eq_iff)

lemma alloc_imap_fresh:
  assumes "imap_ok st" "alloc_imap_bit dev st = Inr (nr, st')"
  shows "\<forall>n < 64. v_icnt (view st) n \<noteq> 0 \<longrightarrow> v_id (view st) n \<noteq> (dev, nr)"
proof (intro allI impI notI)
  fix n :: nat assume n: "n < 64" "v_icnt (view st) n \<noteq> 0" "v_id (view st) n = (dev, nr)"
  then have "imap_bit dev st nr"
    using assms(1) unfolding imap_ok_def by (simp add: view_def) blast
  then show False
    using alloc_imap_spec(2) [OF assms(2)] by simp
qed

lemma new_inode_view:
  assumes "new_inode dev nr start st = Inr (p, st')" "\<forall>n < 64. v_icnt (view st) n \<noteq> 0 \<longrightarrow> v_id (view st) n \<noteq> (dev, nr)"
  shows "may_hold (view st) p (dev, nr) \<and> view st' = get_ref p (dev, nr) (view st)"
proof -
  obtain st1 where g: "get_inode dev nr st = Inr (p, st1)" and s: "sync_inode p (upd_inode p (\<lambda>x. \<lparr>i_mode = I_REGULAR, i_size = 0, i_start_sect = of_int start,
      i_nr_sects = NR_DEFAULT_FILE_SECTS, i_dev = dev, i_cnt = 1, i_num = nr\<rparr>) st1) = Inr st'"
    using assms(1) by (auto simp: new_inode_def Let_def res_simps)
  note v = get_inode_view [OF g]
  have z: "v_icnt (view st) p = 0"
    using v assms(2) by (auto simp: may_hold_def split: if_split_asm)
  have "view (upd_inode p (\<lambda>x. \<lparr>i_mode = m, i_size = z, i_start_sect = b, i_nr_sects = c, i_dev = dev, i_cnt = 1, i_num = nr\<rparr>) st1) =
      (view st1)\<lparr>v_icnt := (v_icnt (view st1))(p := 1), v_id := (v_id (view st1))(p := (dev, nr))\<rparr>" for m z b c
    by (auto simp: view_def upd_inode_def fun_eq_iff)
  then have "view st' = (view st1)\<lparr>v_icnt := (v_icnt (view st1))(p := 1), v_id := (v_id (view st1))(p := (dev, nr))\<rparr>"
    using sync_inode_view [OF s] by simp
  then show ?thesis
    using v z by (simp add: get_ref_def)
qed

text \<open>An inode number of a device that a slot in use of the cache has.\<close>

definition number_cached :: "int \<Rightarrow> int \<Rightarrow> fs_state \<Rightarrow> bool" where
  "number_cached dev nr st \<longleftrightarrow>
     list_ex (\<lambda>n. i_cnt (inode_table st n) \<noteq> 0 \<and> i_dev (inode_table st n) = dev \<and> i_num (inode_table st n) = nr) [0..<NR_INODE]"

lemma number_cached_view: "\<not> number_cached dev nr st \<longleftrightarrow> (\<forall>n < 64. v_icnt (view st) n \<noteq> 0 \<longrightarrow> v_id (view st) n \<noteq> (dev, nr))"
  by (auto simp: number_cached_def list_ex_iff view_def)

text \<open>
  The request creates a file, and the number the inode map has for it is the number of an inode in use:
  \<^verbatim>\<open>new_inode\<close> finds the cached one and sets its count to 1.
\<close>

definition takes_cached :: "MESSAGE \<Rightarrow> fs_state \<Rightarrow> bool" where
  "takes_cached msg st \<longleftrightarrow> mtype msg = OPEN \<and> FLAGS msg AND O_CREAT \<noteq> 0 \<and>
     (case res_bind (fetch_path (source msg) (PATHNAME msg) (NAME_LEN msg) st) (\<lambda>path.
           res_bind (search_file path st) (\<lambda>(inode_nr, st1).
           if inode_nr = INVALID_INODE then
             let dev = i_dev (inode_table st1 (root_inode st1))
             in res_bind (alloc_imap_bit dev st1) (\<lambda>(nr, _). Inr (number_cached dev nr st1))
           else Inr False))
      of Inl _ \<Rightarrow> False | Inr b \<Rightarrow> b)"

lemma takes_cached_map:
  assumes "takes_cached msg st"
  shows "\<not> imap_ok st"
proof -
  obtain path nr st1 st2 where "mtype msg = OPEN" "search_file path st = Inr (0, st1)"
      "alloc_imap_bit (i_dev (inode_table st1 (root_inode st1))) st1 = Inr (nr, st2)" "number_cached (i_dev (inode_table st1 (root_inode st1))) nr st1"
    using assms unfolding takes_cached_def
    by (auto simp: Let_def elim!: res_bindE split: sum.split_asm if_split_asm)
  then show ?thesis
    using alloc_imap_fresh [of st1] imap_ok_view [of st1 st] by (auto simp: number_cached_view [symmetric] dest: search_file_view search_file_disk)
qed

lemma create_file_view:
  assumes "create_file path st = Inr (Some p, st')"
    and fresh: "\<And>nr st1. alloc_imap_bit (i_dev (inode_table st (root_inode st))) st = Inr (nr, st1) \<Longrightarrow>
      \<not> number_cached (i_dev (inode_table st (root_inode st))) nr st"
  shows "\<exists>ident. may_hold (view st) p ident \<and> view st' = get_ref p ident (view st)"
proof -
  obtain name nr sect st1 st2 st3 where a: "alloc_imap_bit (i_dev (inode_table st (root_inode st))) st = Inr (nr, st1)"
      "alloc_smap_bit (i_dev (inode_table st (root_inode st))) (uint NR_DEFAULT_FILE_SECTS) st1 = Inr (sect, st2)"
    and n: "new_inode (i_dev (inode_table st (root_inode st))) nr sect st2 = Inr (p, st3)"
    and d: "new_directory_entry (root_inode st) name nr st3 = Inr st'"
    using assms(1) by (auto simp: create_file_def Let_def res_simps split: option.split_asm)
  then have v: "view st2 = view st" "\<forall>n < 64. v_icnt (view st) n \<noteq> 0 \<longrightarrow> v_id (view st) n \<noteq> (i_dev (inode_table st (root_inode st)), nr)"
    using fresh [OF a(1)] unfolding number_cached_view by (auto dest!: view_frame)
  then show ?thesis
    using new_inode_view [OF n] new_directory_entry_view [OF d] by auto
qed

lemma open_node_view:
  assumes "open_node path flags st = Inr (r, st')"
    and fresh: "\<And>st1 nr st2. flags AND O_CREAT \<noteq> 0 \<Longrightarrow> search_file path st = Inr (0, st1) \<Longrightarrow>
      alloc_imap_bit (i_dev (inode_table st1 (root_inode st1))) st1 = Inr (nr, st2) \<Longrightarrow>
      \<not> number_cached (i_dev (inode_table st1 (root_inode st1))) nr st1"
  shows "r = None \<Longrightarrow> view st' = view st"
    "r = Some (nr, p) \<Longrightarrow> \<exists>ident. may_hold (view st) p ident \<and> view st' = get_ref p ident (view st)"
proof -
  obtain n st1 where s: "search_file path st = Inr (n, st1)"
    using assms(1) by (auto simp: open_node_def res_simps)
  note v = search_file_view [OF s]
  show "view st' = view st" if "r = None"
    using assms(1) that v s by (auto simp: open_node_def res_simps split: if_split_asm option.split_asm)
  show "\<exists>ident. may_hold (view st) p ident \<and> view st' = get_ref p ident (view st)" if rs: "r = Some (nr, p)"
  proof (cases "n = 0")
    case True
    then have "create_file path st1 = Inr (Some p, st')" "flags AND O_CREAT \<noteq> 0"
      using assms(1) rs s by (auto simp: open_node_def res_simps split: if_split_asm option.split_asm)
    then show ?thesis
      using create_file_view [of path st1 p st'] fresh [of st1] s True v by simp
  next
    case False
    then obtain dev where "get_inode dev n st1 = Inr (p, st')"
      using assms(1) rs s by (auto simp: open_node_def res_simps split: if_split_asm option.split_asm)
    then show ?thesis
      using get_inode_view [of dev n st1 p st'] v by auto
  qed
qed

lemma first_free_Some: "first_free f ks = Some i \<Longrightarrow> i \<in> set ks \<and> f i = None"
  by (induction ks) (auto split: if_split_asm)

lemma open_view:
  "view st = get_ref p ident v \<Longrightarrow>
     view (upd_fd i (\<lambda>x. x\<lparr>fd_inode := Some p, fd_cnt := 1, fd_mode := m, fd_pos := z\<rparr>) (set_filp pid fd (Some i) st)) = open_ref pid fd i p ident v"
  by (cases v) (auto simp: view_def get_ref_def open_ref_def upd_fd_def set_filp_def fun_eq_iff)

lemma open_device_view [view_frame]: "open_device p junk st = Inr st' \<Longrightarrow> view st' = view st"
  by (auto simp: open_device_def Let_def res_simps split: if_split_asm)

lemma do_open_inv:
  assumes "ref_inv L st" "valid_pid (source msg)" "mtype msg = OPEN" "\<not> takes_cached msg st" "do_open (source msg) junk msg st = Inr (r, st')"
  shows "ref_inv L st'"
proof -
  obtain path fd i x st1 where f: "first_free (filp (fs_procs st (source msg))) [0..<64] = Some fd"
      "first_free (\<lambda>i. fd_inode (fd_table st i)) [0..<64] = Some i" and o: "fetch_path (source msg) (PATHNAME msg) (NAME_LEN msg) st = Inr path" "open_node path (FLAGS msg) st = Inr (x, st1)"
    using assms(5) by (auto simp: do_open_def elim!: res_bindE split: option.split_asm)
  have fresh: "\<not> number_cached (i_dev (inode_table st1 (root_inode st1))) nr st1"
    if "FLAGS msg AND O_CREAT \<noteq> 0" "search_file path st = Inr (0, st1)"
      "alloc_imap_bit (i_dev (inode_table st1 (root_inode st1))) st1 = Inr (nr, st2)" for st1 nr st2
    using assms(3,4) o(1) that by (simp add: takes_cached_def)
  show ?thesis
  proof (cases x)
    case None
    then have "st' = st1"
      using assms(5) f o by (auto simp: do_open_def elim!: res_bindE)
    then show ?thesis
      using open_node_view(1) [OF o(2)] fresh None assms(1) by (simp add: ref_inv_def)
  next
    case (Some y)
    then obtain nr p where y: "x = Some (nr, p)"
      by (cases y) auto
    obtain ident where v: "may_hold (view st) p ident" "view st1 = get_ref p ident (view st)"
      using open_node_view(2) [OF o(2), of nr p] fresh y by blast
    obtain st2 where t: "(if FLAGS msg AND O_TRUNC \<noteq> 0 then sync_inode p (upd_inode p (\<lambda>x. x\<lparr>i_size := 0\<rparr>) st1) else Inr st1) = Inr st2"
      and d: "open_device p junk (upd_fd i (\<lambda>x. x\<lparr>fd_inode := Some p, fd_cnt := 1, fd_mode := FLAGS msg, fd_pos := 0\<rparr>) (set_filp (source msg) fd (Some i) st2)) = Inr st'"
      using assms(5) f o y by (auto simp: do_open_def Let_def elim!: res_bindE split: if_split_asm)
    have "view st2 = get_ref p ident (view st)"
      using t v(2) by (auto split: if_split_asm dest!: view_frame)
    then have "view st' = open_ref (source msg) fd i p ident (view st)"
      using open_device_view [OF d] open_view [of st2] by simp
    moreover have "view_inv L (open_ref (source msg) fd i p ident (view st))"
      using assms(1) v(1) first_free_Some [OF f(1)] first_free_Some [OF f(2)]
      by (intro open_ref_inv assms(2)) (auto simp: ref_inv_def may_hold_def view_def split: if_split_asm)
    ultimately show ?thesis
      by (simp add: ref_inv_def)
  qed
qed

lemma unlink_node_view: "unlink_node nr p st = Inr (r, st') \<Longrightarrow> view st' = put_ref p (view st)"
  by (auto simp: unlink_node_def Let_def elim!: res_bindE split: if_split_asm dest!: view_frame unlink_loop_view put_inode_view)

text \<open>
  The slot of the cache whose reference an unlink request keeps: \<^verbatim>\<open>do_unlink\<close> gets the inode of the
  file and returns without putting it when the file is not a regular one or is open.
\<close>

definition unlink_kept :: "MESSAGE \<Rightarrow> fs_state \<Rightarrow> nat list" where
  "unlink_kept msg st =
     (if mtype msg \<noteq> UNLINK then []
      else case res_bind (fetch_path (source msg) (PATHNAME msg) (NAME_LEN msg) st) (\<lambda>path.
             if path = [0x2F] then Inr []
             else res_bind (search_file path st) (\<lambda>(inode_nr, st1).
               if inode_nr = INVALID_INODE then Inr []
               else res_bind (strip_path MAX_PATH path) (\<lambda>r.
                 if r = None then Inr []
                 else res_bind (get_inode (i_dev (inode_table st1 (root_inode st1))) inode_nr st1) (\<lambda>(p, st2).
                      Inr (if i_mode (inode_table st2 p) \<noteq> I_REGULAR \<or> 1 < i_cnt (inode_table st2 p) then [p] else [])))))
           of Inl _ \<Rightarrow> [] | Inr ps \<Rightarrow> ps)"

lemma do_unlink_inv:
  assumes "ref_inv L st" "mtype msg = UNLINK" "do_unlink (source msg) msg st = Inr (r, st')"
  shows "ref_inv (unlink_kept msg st @ L) st'"
proof -
  obtain path where f: "fetch_path (source msg) (PATHNAME msg) (NAME_LEN msg) st = Inr path"
    using assms(3) by (auto simp: do_unlink_def elim!: res_bindE split: if_split_asm)
  show ?thesis
  proof (cases "path = [0x2F]")
    case True
    then show ?thesis
      using assms f by (auto simp: do_unlink_def unlink_kept_def elim!: res_bindE split: if_split_asm)
  next
    case False
    then obtain nr st1 where s: "search_file path st = Inr (nr, st1)"
      using assms(3) f by (auto simp: do_unlink_def elim!: res_bindE split: if_split_asm)
    note v = search_file_view [OF s]
    show ?thesis
    proof (cases "nr = INVALID_INODE \<or> strip_path MAX_PATH path = Inr None")
      case True
      then show ?thesis
        using assms f False s v by (auto simp: do_unlink_def unlink_kept_def ref_inv_def elim!: res_bindE split: if_split_asm)
    next
      case not: False
      then obtain z p st2 where z: "strip_path MAX_PATH path = Inr (Some z)"
        and g: "get_inode (i_dev (inode_table st1 (root_inode st1))) nr st1 = Inr (p, st2)"
        and u: "(if i_mode (inode_table st2 p) \<noteq> I_REGULAR \<or> 1 < i_cnt (inode_table st2 p) then Inr (- 1, st2) else unlink_node nr p st2) = Inr (r, st')"
        using assms(3) f False s by (auto simp: do_unlink_def elim!: res_bindE split: if_split_asm)
      have k: "unlink_kept msg st = (if i_mode (inode_table st2 p) \<noteq> I_REGULAR \<or> 1 < i_cnt (inode_table st2 p) then [p] else [])"
        using assms(2) f False s not z g by (simp add: unlink_kept_def)
      note gv = get_inode_view [OF g, unfolded v]
      show ?thesis
        using u get_put_inv [of L "view st" p] get_keep_inv [of L "view st" p] gv unlink_node_view [of nr p st2 r st'] assms(1)
        unfolding k by (auto simp: ref_inv_def split: if_split_asm)
    qed
  qed
qed

section \<open>Processes that begin\<close>

text \<open>
  The child's slots are a copy of its parent's when the file system hears of it; those from \<open>j\<close> on are
  not counted yet.
\<close>

definition hide :: "int \<Rightarrow> nat \<Rightarrow> ref_view \<Rightarrow> ref_view" where
  "hide p j v = v\<lparr>v_filp := (v_filp v)(p := \<lambda>i. if j \<le> i \<and> i < 64 then None else v_filp v p i)\<rparr>"

definition forking :: "nat list \<Rightarrow> int \<Rightarrow> nat \<Rightarrow> ref_view \<Rightarrow> bool" where
  "forking L p j v \<longleftrightarrow> view_inv L (hide p j v) \<and>
     (\<forall>i k. j \<le> i \<longrightarrow> i < 64 \<longrightarrow> v_filp v p i = Some k \<longrightarrow> k < 64 \<and> 0 < v_cnt v k)"

lemma hide_done: "hide p 64 v = v"
  by (cases v) (auto simp: hide_def fun_eq_iff)

lemma hide_None: "v_filp v p j = None \<Longrightarrow> hide p (Suc j) v = hide p j v"
  by (cases v) (auto simp: hide_def fun_eq_iff le_Suc_eq Suc_le_eq nat_less_le)

lemma forking_None: "forking L p j v \<Longrightarrow> v_filp v p j = None \<Longrightarrow> forking L p (Suc j) v"
  by (auto simp: forking_def hide_None dest: Suc_leD)

lemma fork_fd_view:
  assumes "fork_fd p j st = Inr st'" "forking L p j (view st)" "valid_pid p" "j < 64"
  shows "forking L p (Suc j) (view st')"
proof (cases "filp (fs_procs st p) j")
  case None
  then show ?thesis
    using assms(1) forking_None [OF assms(2)] by (auto simp: fork_fd_def view_def)
next
  case (Some k)
  then obtain n where n: "fd_inode (fd_table st k) = Some n"
    using assms(1) by (auto simp: fork_fd_def split: option.split_asm)
  have v: "view st' = (view st)\<lparr>v_cnt := (v_cnt (view st))(k := v_cnt (view st) k + 1), v_icnt := (v_icnt (view st))(n := v_icnt (view st) n + 1)\<rparr>"
    using assms(1) Some n by (auto simp: fork_fd_def view_def upd_fd_def upd_inode_def fun_eq_iff)
  have f: "v_filp (view st) p j = Some k" "v_node (view st) k = Some n"
    using Some n by (simp_all add: view_def)
  have k: "k < 64" "0 < v_cnt (view st) k"
    using assms(2,4) f(1) by (auto simp: forking_def)
  have "hide p (Suc j) (view st') = add_ref p j k n (hide p j (view st))"
    unfolding v using f assms(4) by (cases "view st") (auto simp: hide_def add_ref_def fun_eq_iff)
  moreover have "view_inv L (add_ref p j k n (hide p j (view st)))"
    using assms(2-4) f k by (intro add_ref_inv) (auto simp: forking_def hide_def)
  ultimately show ?thesis
    using assms(2) k unfolding forking_def by (auto simp: v dest: Suc_leD)
qed

lemma each_fork_fd:
  "each_fd (fork_fd p) [j..<64] st = Inr st' \<Longrightarrow> forking L p j (view st) \<Longrightarrow> valid_pid p \<Longrightarrow> j \<le> 64 \<Longrightarrow> forking L p 64 (view st')"
proof (induction "64 - j" arbitrary: j st)
  case (Suc n)
  then have j: "j < 64" "[j..<64] = j # [Suc j..<64]"
    by (simp_all add: upt_conv_Cons)
  then obtain st1 where "fork_fd p j st = Inr st1" "each_fd (fork_fd p) [Suc j..<64] st1 = Inr st'"
    using Suc.prems(1) by (auto elim!: res_bindE)
  then show ?case
    using Suc.hyps(1) [of "Suc j" st1] Suc.hyps(2) Suc.prems fork_fd_view [of p j st st1] j by simp
qed simp

lemma fs_fork_inv:
  assumes "fs_fork msg st = Inr st'" "forking L (PID msg) 0 (view st)"
  shows "ref_inv L st'"
  using assms each_fork_fd [of "PID msg" 0 st st'] hide_done by (simp add: fs_fork_def forking_def ref_inv_def split: if_split_asm)

text \<open>Only the slots of processes count.\<close>

lemma refs_cong: "(\<And>p i. valid_pid p \<Longrightarrow> i < 64 \<Longrightarrow> f p i = g p i) \<Longrightarrow> refs f k = refs g k"
  unfolding refs_def by (rule sum.cong) (auto simp: file_slots_def)

lemma view_inv_filp:
  assumes v: "view_inv L v" and f: "\<And>p i. valid_pid p \<Longrightarrow> i < 64 \<Longrightarrow> f p i = v_filp v p i"
  shows "view_inv L (v\<lparr>v_filp := f\<rparr>)"
proof (rule view_invI, goal_cases)
  case (1 p i k)
  then show ?case using view_slot [OF v 1(1,2), of k] f by simp
next
  case (2 k n)
  then show ?case using view_desc [OF v 2(1), of n] refs_cong [of f "v_filp v" k] f by simp
next
  case (3 n)
  then show ?case using view_icnt [OF v 3] by (simp add: node_refs_def cong: if_cong)
next
  case 4
  show ?case using v by (simp add: view_inv_def)
next
  case (5 a b)
  then show ?case using view_unique [OF v 5(1,2)] by simp
qed

text \<open>The state in which the memory manager has copied the entry of the parent.\<close>

lemma forking_start:
  assumes inv: "ref_inv L st" and p: "valid_pid parent" and c: "\<forall>i < 64. filp (fs_procs st child) i = None"
    and T: "filp (T child) = filp (fs_procs st parent)" "\<forall>p. p \<noteq> child \<longrightarrow> filp (T p) = filp (fs_procs st p)"
  shows "forking L child 0 (view (st\<lparr>fs_procs := T\<rparr>))"
proof -
  have v: "view_inv L (view st)" "view (st\<lparr>fs_procs := T\<rparr>) = (view st)\<lparr>v_filp := (\<lambda>p. filp (T p))\<rparr>"
    using inv by (simp_all add: ref_inv_def view_def)
  have "hide child 0 (view (st\<lparr>fs_procs := T\<rparr>)) =
      (view st)\<lparr>v_filp := (\<lambda>p. filp (T p))(child := \<lambda>i. if i < 64 then None else filp (T child) i)\<rparr>"
    by (simp add: v hide_def cong: if_cong)
  moreover have "view_inv L \<dots>"
    using T(2) c by (intro view_inv_filp [OF v(1)]) (auto simp: view_def)
  moreover have "k < 64 \<and> 0 < fd_cnt (fd_table st k)" if "i < 64" "filp (T child) i = Some k" for i k
  proof -
    have f: "v_filp (view st) parent i = Some k"
      using that(2) T(1) by (simp add: view_def)
    show ?thesis
      using view_slot [OF v(1) p that(1) f] view_desc [OF v(1), of k] refs_pos [OF p that(1), of "v_filp (view st)" k, OF f]
      by (auto simp: view_def)
  qed
  ultimately show ?thesis
    unfolding forking_def by (simp add: v) (simp add: view_def)
qed

section \<open>Running the task\<close>

text \<open>
  What happens to the state of the task: a request of a process, which the task answers; a request of the
  memory manager to register a child, whose entry it has made from its parent's; a change of other parts
  of the processes. Two components record the past: the references kept by refused unlink requests, and
  whether a file was created under the number of an inode in use. A request that ends in a panic or a
  failed assertion has no next state. The request \<^verbatim>\<open>FORK\<close> is made by the memory manager only.
\<close>

type_synonym fs_history = "fs_state \<times> nat list \<times> bool"

inductive fs_step :: "fs_history \<Rightarrow> fs_history \<Rightarrow> bool" where
  request: "fs_handle ans junk msg st = Inr (m, st') \<Longrightarrow> valid_pid (source msg) \<Longrightarrow> mtype msg \<noteq> FORK \<Longrightarrow>
    fs_step (st, L, taken) (st', unlink_kept msg st @ L, taken \<or> takes_cached msg st)"
| forked: "fs_handle ans junk msg (st\<lparr>fs_procs := T\<rparr>) = Inr (m, st') \<Longrightarrow> mtype msg = FORK \<Longrightarrow> valid_pid parent \<Longrightarrow>
    \<forall>i < 64. filp (fs_procs st (PID msg)) i = None \<Longrightarrow> filp (T (PID msg)) = filp (fs_procs st parent) \<Longrightarrow>
    \<forall>p. p \<noteq> PID msg \<longrightarrow> filp (T p) = filp (fs_procs st p) \<Longrightarrow> fs_step (st, L, taken) (st', L, taken)"
| other: "\<forall>p. filp (T p) = filp (fs_procs st p) \<Longrightarrow> fs_step (st, L, taken) (st\<lparr>fs_procs := T, fs_mem := M\<rparr>, L, taken)"

lemma fs_handle_inv:
  assumes "fs_handle ans junk msg st = Inr (m, st')" "ref_inv L st" "valid_pid (source msg)" "mtype msg \<noteq> FORK" "\<not> takes_cached msg st"
  shows "ref_inv (unlink_kept msg st @ L) st'"
proof (cases "mtype msg = UNLINK")
  case True
  then show ?thesis
    using assms by (auto simp: fs_handle_def fs_result_def elim!: res_bindE intro: do_unlink_inv)
next
  case False
  then have "unlink_kept msg st = []"
    by (simp add: unlink_kept_def)
  then show ?thesis
    using assms False
    by (auto simp: fs_handle_def fs_result_def elim!: res_bindE split: if_split_asm
        intro: do_open_inv do_close_inv fs_exit_inv do_stat_inv)
      (auto simp: ref_inv_def dest!: view_frame)
qed

text \<open>A step keeps the counts; they are lost only where a file is created under the number of an inode in use.\<close>

lemma fs_step_inv:
  assumes "fs_step (st, L, False) (st', L', taken)" "ref_inv L st"
  shows "if taken then \<exists>msg. takes_cached msg st else ref_inv L' st'"
  using assms(1)
proof cases
  case (request ans junk msg m)
  then show ?thesis
    using assms(2) fs_handle_inv by auto
next
  case (forked ans junk msg T m parent)
  have "fs_fork msg (st\<lparr>fs_procs := T\<rparr>) = Inr st'"
    using forked(3,4) by (auto simp: fs_handle_def elim!: res_bindE)
  then show ?thesis
    using fs_fork_inv forking_start forked assms(2) by auto
next
  case (other T M)
  then show ?thesis
    using assms(2) by (simp add: ref_inv_def view_def)
qed

lemma fs_step_taken: "fs_step (st, L, True) h \<Longrightarrow> snd (snd h)"
  by (erule fs_step.cases) auto

text \<open>The start of the task.\<close>

lemma clear_sects_view: "clear_sects ns st = Inr st' \<Longrightarrow> view st' = view st"
  by (induction ns arbitrary: st) (auto simp: res_simps dest!: view_frame)

lemma smap_mark_view: "smap_mark n k byte b s st = Inr st' \<Longrightarrow> view st' = view st"
  by (induction n arbitrary: k byte s st) (auto simp: Let_def elim!: res_bindE split: if_split_asm dest!: view_frame)

lemma view_fs_sb [simp]: "view (st\<lparr>fs_sb := s\<rparr>) = view st" "view (fill_fsbuf b st) = view st"
  by (simp_all add: view_def fill_fsbuf_def)

lemma mkfs_view: "mkfs geo st = Inr st' \<Longrightarrow> view st' = view st"
  by (auto simp: mkfs_def set_superblock_def set_imap_def set_smap_def set_inode_array_def set_root_de_def Let_def
      elim!: res_bindE split: if_split_asm dest!: view_frame clear_sects_view smap_mark_view)

lemma read_super_block_view: "read_super_block dev st = Inr st' \<Longrightarrow> view st' = view st"
  by (auto simp: read_super_block_def Let_def elim!: res_bindE split: if_split_asm dest!: view_frame)

lemma first_ref_inv:
  assumes "\<And>p i. valid_pid p \<Longrightarrow> i < 64 \<Longrightarrow> v_filp v p i = None" "\<And>k. k < 64 \<Longrightarrow> v_node v k = None" "\<And>n. n < 64 \<Longrightarrow> v_icnt v n = 0" "r < 64"
  shows "view_inv [] (v\<lparr>v_icnt := (v_icnt v)(r := v_icnt v r + 1), v_id := f, v_root := r\<rparr>)"
  using assms by (intro view_invI) (auto simp: node_refs_def split: if_split_asm)

lemma init_fs_inv:
  assumes "init_fs geo junk st = Inr st'" "\<And>p i. valid_pid p \<Longrightarrow> i < 64 \<Longrightarrow> filp (fs_procs st p) i = None"
  shows "ref_inv [] st'"
proof -
  let ?st = "st\<lparr>fd_table := (\<lambda>i. if i < 64 then zero_fd else fd_table st i),
    inode_table := (\<lambda>i. if i < 64 then zero_inode else inode_table st i),
    super_blocks := (\<lambda>i. if i < 8 then (super_blocks st i)\<lparr>sb_dev := NO_DEV\<rparr> else super_blocks st i)\<rparr>"
  obtain st6 r st7 where g: "get_inode ROOT_DEV ROOT_INODE st6 = Inr (r, st7)" and e: "st' = st7\<lparr>root_inode := r\<rparr>" and v: "view st6 = view ?st"
    using assms(1) unfolding init_fs_def Let_def
    by (auto elim!: res_bindE split: if_split_asm dest!: view_frame mkfs_view read_super_block_view)
  have "view st' = (view st7)\<lparr>v_root := r\<rparr>"
    by (simp add: e view_def)
  then have "view st' = (view ?st)\<lparr>v_icnt := (v_icnt (view ?st))(r := v_icnt (view ?st) r + 1),
      v_id := (v_id (view ?st))(r := (ROOT_DEV, ROOT_INODE)), v_root := r\<rparr>"
    using get_inode_view [OF g] v by (simp add: get_ref_def)
  moreover have "r < 64"
    using get_inode_view [OF g] by (simp add: may_hold_def)
  ultimately show ?thesis
    unfolding ref_inv_def using assms(2)
    by (simp only:) (intro first_ref_inv, auto simp: view_def zero_fd_def zero_inode_def)
qed

end
