(* ===== verification/Fs_Lemmas.thy ===== *)
theory Fs_Lemmas
  imports Fs_Ops
begin

text \<open>
  What the building blocks of the file system do on the root device: sectors, inodes in the table and
  on the disk, transfers between a file and a process.
\<close>

section \<open>Sectors\<close>

lemma root_dev [simp]: "MAJOR 800 = 3" "MINOR 800 = 32" "driver_of 800 = Inr TASK_HD"
  by (simp_all add: MAJOR_def MINOR_def driver_of_def dd_map_def)

lemma rw_read_root:
  assumes "0 \<le> n" "0 \<le> c" "c \<le> 256"
  shows "rw_sector DEV_READ ROOT_DEV (n * 512) (c * 512) st =
     Inr (st\<lparr>fsbuf := copy_range (fs_disk st 32) (512 * nat n) (fsbuf st) 0 (512 * nat c)\<rparr>)"
  using assms by (simp add: rw_sector_def disk_rw_def nat_mult_distrib mult.commute)

lemma rw_write_root:
  assumes "0 \<le> n" "0 \<le> c" "c \<le> 256"
  shows "rw_sector DEV_WRITE ROOT_DEV (n * 512) (c * 512) st =
     Inr (st\<lparr>fs_disk := (fs_disk st)(32 := copy_range (fsbuf st) 0 (fs_disk st 32) (512 * nat n) (512 * nat c))\<rparr>)"
  using assms by (simp add: rw_sector_def disk_rw_def nat_mult_distrib mult.commute)

lemma RD_root [simp]:
  "0 \<le> n \<Longrightarrow> RD_SECT ROOT_DEV n st = Inr (st\<lparr>fsbuf := copy_range (fs_disk st 32) (512 * nat n) (fsbuf st) 0 512\<rparr>)"
  using rw_read_root [of n 1 st] by (simp add: RD_SECT_def)

lemma WR_root [simp]:
  "0 \<le> n \<Longrightarrow> WR_SECT ROOT_DEV n st =
     Inr (st\<lparr>fs_disk := (fs_disk st)(32 := copy_range (fsbuf st) 0 (fs_disk st 32) (512 * nat n) 512)\<rparr>)"
  using rw_write_root [of n 1 st] by (simp add: WR_SECT_def)

section \<open>Inodes on the disk\<close>

text \<open>The layout of the disk: the sectors before the data, and the place of an inode.\<close>

definition layout_ok :: "super_block \<Rightarrow> bool" where
  "layout_ok s \<longleftrightarrow> unat (n_1st_sect s) = 2 + unat (nr_imap_sects s) + unat (nr_smap_sects s) + unat (nr_inode_sects s) \<and>
     unat (n_1st_sect s) < 2 ^ 22"

definition inode_ok :: "super_block \<Rightarrow> int \<Rightarrow> bool" where
  "inode_ok s n \<longleftrightarrow> 1 \<le> n \<and> nat n \<le> 16 * unat (nr_inode_sects s)"

definition inode_addr :: "super_block \<Rightarrow> int \<Rightarrow> nat" where
  "inode_addr s n = 512 * (2 + unat (nr_imap_sects s) + unat (nr_smap_sects s)) + 32 * nat (n - 1)"

lemma inode_addr_bound:
  assumes "layout_ok s" "inode_ok s n"
  shows "inode_addr s n + 32 \<le> 512 * unat (n_1st_sect s)"
  using assms by (auto simp: layout_ok_def inode_ok_def inode_addr_def)

lemma inode_place:
  assumes "layout_ok s" "inode_ok s n"
  shows "inode_sect s n = int (2 + unat (nr_imap_sects s) + unat (nr_smap_sects s) + nat (n - 1) div 16)"
    "inode_off n = int (32 * (nat (n - 1) mod 16))"
proof -
  obtain m where m: "n = int m + 1" "m < 16 * unat (nr_inode_sects s)"
    using assms(2) by (auto simp: inode_ok_def intro: that [of "nat (n - 1)"])
  have d: "((n - 1) * 32) sdiv 512 = int (m div 16)"
    by (auto simp: m(1) signed_divide_int_def sgn_if zdiv_int)
  have b: "2 + unat (nr_imap_sects s) + unat (nr_smap_sects s) + m div 16 < 2 ^ 22"
    using assms(1) less_mult_imp_div_less [of m "unat (nr_inode_sects s)" 16] m(2) unfolding layout_ok_def by simp
  define w :: u32 where "w = 1 + 1 + nr_imap_sects s + nr_smap_sects s + of_nat (m div 16)"
  have "w = of_nat (2 + unat (nr_imap_sects s) + unat (nr_smap_sects s) + m div 16)"
    by (simp add: w_def)
  then have "unat w = 2 + unat (nr_imap_sects s) + unat (nr_smap_sects s) + m div 16"
    using b by (simp only: unsigned_of_nat) (simp add: take_bit_nat_eq_self)
  then have "sint w = int (2 + unat (nr_imap_sects s) + unat (nr_smap_sects s) + m div 16)"
    using b sint_small [of w] by simp
  then show "inode_sect s n = int (2 + unat (nr_imap_sects s) + unat (nr_smap_sects s) + nat (n - 1) div 16)"
    unfolding inode_sect_def d w_def by (simp add: m(1))
  show "inode_off n = int (32 * (nat (n - 1) mod 16))"
    by (cases "m = 0") (simp_all add: inode_off_def m(1) signed_divide_int_def signed_modulo_int_def zmod_int)
qed

text \<open>Reading and writing the part of an inode that is on the disk.\<close>

definition disk_inode :: "super_block \<Rightarrow> buffer \<Rightarrow> int \<Rightarrow> inode \<Rightarrow> inode" where
  "disk_inode s d n x = load_inode d (inode_addr s n) x"

definition put_disk_inode :: "super_block \<Rightarrow> inode \<Rightarrow> buffer \<Rightarrow> buffer" where
  "put_disk_inode s x d = buf_write (inode_addr s (i_num x)) (inode_bytes (i_mode x) (i_size x) (i_start_sect x) (i_nr_sects x)) d"

lemma length_inode_bytes [simp]: "length (inode_bytes a b c d) = 16"
  by (simp add: inode_bytes_def)

lemma store_inode_write: "store_inode x a f = buf_write a (inode_bytes (i_mode x) (i_size x) (i_start_sect x) (i_nr_sects x)) f"
proof -
  have "buf_set (a + length xs) w (buf_write a xs f) = buf_write a (xs @ bytes_of w) f" for xs w
    by (simp add: buf_set_def buf_write_append)
  from this [of "bytes_of (i_mode x)"] this [of "bytes_of (i_mode x) @ bytes_of (i_size x)"]
    this [of "bytes_of (i_mode x) @ bytes_of (i_size x) @ bytes_of (i_start_sect x)"]
  show ?thesis
    by (simp add: store_inode_def inode_bytes_def buf_set_def)
qed

lemma load_store_inode: "load_inode (buf_write a (inode_bytes m sz s0 n) f) a x = x\<lparr>i_mode := m, i_size := sz, i_start_sect := s0, i_nr_sects := n\<rparr>"
proof -
  let ?y = "x\<lparr>i_mode := m, i_size := sz, i_start_sect := s0, i_nr_sects := n\<rparr>"
  have "buf_write a (inode_bytes m sz s0 n) f = store_inode ?y a f"
    by (simp add: store_inode_write)
  then show ?thesis
    by (simp add: load_inode_def store_inode_def buf_simps)
qed

lemma load_inode_copy: "a + 16 \<le> 512 \<Longrightarrow> load_inode (copy_range d b f 0 512) a x = load_inode d (b + a) x"
  by (simp add: load_inode_def buf_simps add.assoc)

lemma load_inode_cong:
  "(\<And>i. a \<le> i \<Longrightarrow> i < a + 16 \<Longrightarrow> f i = g i) \<Longrightarrow> load_inode f a x = load_inode g a x"
  unfolding load_inode_def by (simp cong: buf_word_cong)

lemma mod_32_le: "32 * (m mod 16) + 16 \<le> (512 :: nat)"
  using mod_less_divisor [of 16 m] by linarith

lemma inode_addr_split:
  assumes "layout_ok s" "inode_ok s n"
  shows "512 * nat (inode_sect s n) + nat (inode_off n) = inode_addr s n" "nat (inode_off n) + 16 \<le> 512"
    "0 \<le> inode_sect s n" "0 \<le> inode_off n"
proof -
  have "512 * (nat (n - 1) div 16) + 32 * (nat (n - 1) mod 16) = 32 * nat (n - 1)"
    using mult_div_mod_eq [of 16 "nat (n - 1)"] by linarith
  then show "512 * nat (inode_sect s n) + nat (inode_off n) = inode_addr s n" "nat (inode_off n) + 16 \<le> 512"
      "0 \<le> inode_sect s n" "0 \<le> inode_off n"
    unfolding inode_place [OF assms] nat_int inode_addr_def using mod_32_le [of "nat (n - 1)"] by simp_all
qed

lemma get_super_block_root [simp]:
  "get_super_block ROOT_DEV st =
     Inr ((super_blocks st 0)\<lparr>sb_dev := ROOT_DEV\<rparr>, st\<lparr>super_blocks := (super_blocks st)(0 := (super_blocks st 0)\<lparr>sb_dev := ROOT_DEV\<rparr>)\<rparr>)"
  by (simp add: get_super_block_def Let_def)

lemma layout_sb_dev [simp]:
  "layout_ok (s\<lparr>sb_dev := d\<rparr>) = layout_ok s" "inode_ok (s\<lparr>sb_dev := d\<rparr>) n = inode_ok s n"
  "inode_addr (s\<lparr>sb_dev := d\<rparr>) n = inode_addr s n" "inode_sect (s\<lparr>sb_dev := d\<rparr>) n = inode_sect s n"
  by (simp_all add: layout_ok_def inode_ok_def inode_addr_def inode_sect_def)

lemma sync_inode_root:
  assumes "i_dev (inode_table st p) = ROOT_DEV" "layout_ok (super_blocks st 0)" "inode_ok (super_blocks st 0) (i_num (inode_table st p))"
  shows "\<exists>f. sync_inode p st = Inr (st\<lparr>super_blocks := (super_blocks st)(0 := (super_blocks st 0)\<lparr>sb_dev := ROOT_DEV\<rparr>), fsbuf := f,
     fs_disk := (fs_disk st)(32 := put_disk_inode (super_blocks st 0) (inode_table st p) (fs_disk st 32))\<rparr>)"
  using inode_addr_split [OF assms(2,3)] assms(1)
  by (auto simp: sync_inode_def Let_def store_inode_write copy_back put_disk_inode_def intro!: exI)

section \<open>Transfers\<close>

text \<open>
  Numbers of a file of moderate size: everything below \<open>2 ^ 31\<close>, so that the conversions between signed
  and unsigned numbers change nothing.
\<close>

lemma min_u32_small:
  assumes "0 \<le> b" "b < 2 ^ 31" "unat a < 2 ^ 31"
  shows "min_u32 a b = min (int (unat a)) b"
proof -
  obtain n where n: "b = int n" "n < 2 ^ 31"
    using assms(1,2) by (cases b) auto
  have u: "unat (of_nat n :: u32) = n"
    using n(2) by (simp add: unsigned_of_nat take_bit_nat_eq_self)
  have s: "sint (of_nat n :: u32) = int n" "sint a = int (unat a)"
    using sint_small [of "of_nat n"] sint_small [of a] u n(2) assms(3) by simp_all
  have l: "a > of_nat n \<longleftrightarrow> n < unat a"
    using u by (simp add: word_less_nat_alt)
  show ?thesis
  proof (cases "n < unat a")
    case True
    then have "min_u32 a b = int n"
      using l s by (simp add: min_u32_def n(1))
    then show ?thesis
      using True n(1) by linarith
  next
    case False
    then have "min_u32 a b = int (unat a)"
      using l s by (simp add: min_u32_def n(1))
    then show ?thesis
      using False n(1) by linarith
  qed
qed

lemma sector_sum:
  assumes "unat s + n < 2 ^ 31"
  shows "sint (s + of_int (int n) :: u32) = int (unat s + n)"
proof -
  have "unat (of_nat n :: u32) = n"
    using assms by (simp add: unsigned_of_nat take_bit_nat_eq_self)
  then have "unat (s + of_nat n) = unat s + n"
    using assms by (subst unat_add_small) simp_all
  then show ?thesis
    using sint_small [of "s + of_nat n"] assms by simp
qed

definition plain_file :: "nat \<Rightarrow> nat \<Rightarrow> fs_state \<Rightarrow> bool" where
  "plain_file k p st \<longleftrightarrow>
     (let x = inode_table st p
      in i_dev x = ROOT_DEV \<and> 0 \<le> fd_pos (fd_table st k) \<and> unat (i_start_sect x) + unat (i_nr_sects x) < 2 ^ 21 \<and>
         unat (i_size x) \<le> 512 * unat (i_nr_sects x))"

definition data_addr :: "inode \<Rightarrow> nat" where
  "data_addr x = 512 * unat (i_start_sect x)"

text \<open>One chunk: the loop body runs once.\<close>

lemma rdwt_loop_write:
  assumes "0 \<le> i" "0 < c" "c \<le> 256" "mtype msg = WRITE" "0 \<le> off" "0 \<le> cnt" "off + cnt \<le> c * 512"
    "va2la (fs_procs st) (source msg) (BUF msg) = Inr la"
  shows "\<exists>f. rdwt_loop False msg k ROOT_DEV c pos_end i (i + c - 1) off 0 cnt st =
     Inr (cnt, upd_fd k (\<lambda>x. x\<lparr>fd_pos := fd_pos x + cnt\<rparr>) (st\<lparr>fsbuf := f,
       fs_disk := (fs_disk st)(32 := buf_write (512 * nat i + nat off) (mem_bytes (fs_mem st) la (nat cnt)) (fs_disk st 32))\<rparr>))"
proof -
  have b: "min (c * 512) cnt = cnt" "nat off + nat cnt \<le> 512 * nat c"
    using assms by (simp_all add: nat_mult_distrib flip: nat_add_distrib)
  define f where "f = buf_write (nat off) (mem_bytes (fs_mem st) la (nat cnt)) (copy_range (fs_disk st 32) (512 * nat i) (fsbuf st) 0 (512 * nat c))"
  have d: "copy_range f 0 (fs_disk st 32) (512 * nat i) (512 * nat c) =
      buf_write (512 * nat i + nat off) (mem_bytes (fs_mem st) la (nat cnt)) (fs_disk st 32)"
    unfolding f_def using b(2) by (subst copy_back) simp_all
  show ?thesis
    using assms b(1) d
    apply (subst rdwt_loop.simps)
    apply (simp add: rw_read_root rw_write_root copy_from_user_def Let_def flip: f_def)
    apply (subst rdwt_loop.simps)
    apply (auto simp: upd_fd_def)
    done
qed

lemma rdwt_loop_read:
  assumes "0 \<le> i" "0 < c" "c \<le> 256" "0 \<le> off" "fd_pos (fd_table st k) < pos_end" "pos_end - fd_pos (fd_table st k) \<le> cnt"
    "off + (pos_end - fd_pos (fd_table st k)) \<le> c * 512"
    "va2la (fs_procs st) (source msg) (BUF msg) = Inr la"
  shows "\<exists>f. rdwt_loop True msg k ROOT_DEV c pos_end i (i + c - 1) off 0 cnt st =
     Inr (pos_end - fd_pos (fd_table st k), upd_fd k (\<lambda>x. x\<lparr>fd_pos := pos_end\<rparr>) (st\<lparr>fsbuf := f,
       fs_mem := write_bytes la (buf_bytes (fs_disk st 32) (512 * nat i + nat off) (nat (pos_end - fd_pos (fd_table st k)))) (fs_mem st)\<rparr>))"
proof -
  define n where "n = pos_end - fd_pos (fd_table st k)"
  have b: "min (pos_end - fd_pos (fd_table st k)) (min (c * 512) cnt) = n" "0 \<le> n" "nat off + nat n \<le> 512 * nat c"
    using assms by (simp_all add: n_def nat_mult_distrib flip: nat_add_distrib)
  define f where "f = copy_range (fs_disk st 32) (512 * nat i) (fsbuf st) 0 (512 * nat c)"
  have d: "buf_bytes f (nat off) (nat n) = buf_bytes (fs_disk st 32) (512 * nat i + nat off) (nat n)"
    unfolding f_def using b(3) by (simp add: buf_bytes_copy)
  show ?thesis
    using assms b d
    apply (subst rdwt_loop.simps)
    apply (simp add: rw_read_root copy_to_user_def Let_def flip: f_def n_def)
    apply (subst rdwt_loop.simps)
    apply (auto simp: upd_fd_def n_def)
    done
qed

text \<open>The requests on a regular file, in terms of the bytes of the file on the disk.\<close>

lemma smod_nat: "int pos smod 512 = int (pos mod 512)"
  by (cases "pos = 0") (simp_all add: signed_modulo_int_def zmod_int)

lemma sectors_cover:
  fixes pos e :: nat
  assumes "pos \<le> e"
  shows "pos mod 512 + (e - pos) \<le> 512 * (e div 512 - pos div 512 + 1)"
proof -
  define a r b s where "a = e div 512" "r = e mod 512" "b = pos div 512" "s = pos mod 512"
  note defs = this
  have "e = 512 * a + r" "pos = 512 * b + s" "r < 512" "b \<le> a"
    using assms by (simp_all add: defs div_le_mono)
  moreover from this obtain c where "a = b + c"
    by (auto simp: le_iff_add)
  ultimately have "s + (e - pos) \<le> 512 * (a - b + 1)"
    using assms by simp
  then show ?thesis
    unfolding defs .
qed

lemma file_numbers:
  assumes "plain_file k p st" "x = inode_table st p" "pos \<le> e" "e \<le> 512 * unat (i_nr_sects x)" "pos mod 512 + (e - pos) \<le> 130560"
  shows "sint (i_start_sect x + of_int (drop_bit 9 (int pos))) = int (unat (i_start_sect x) + pos div 512)"
    "sint (i_start_sect x + of_int (drop_bit 9 (int e))) = int (unat (i_start_sect x) + pos div 512) + int (e div 512 - pos div 512 + 1) - 1"
    "min (sint (i_start_sect x + of_int (drop_bit 9 (int e))) - sint (i_start_sect x + of_int (drop_bit 9 (int pos))) + 1) (drop_bit 9 FSBUF_SIZE)
       = int (e div 512 - pos div 512 + 1)"
    "e div 512 - pos div 512 + 1 \<le> 256" "pos mod 512 + (e - pos) \<le> 512 * (e div 512 - pos div 512 + 1)" "e < 2 ^ 30"
proof -
  have sz: "unat (i_start_sect x) + unat (i_nr_sects x) < 2 ^ 21"
    using assms(1) unfolding plain_file_def Let_def assms(2) by simp
  have "e div 512 \<le> unat (i_nr_sects x)" "pos div 512 \<le> e div 512"
    using assms(3,4) by (auto intro: div_le_mono)
  then have b: "unat (i_start_sect x) + pos div 512 < 2 ^ 31" "unat (i_start_sect x) + e div 512 < 2 ^ 31" "pos div 512 \<le> e div 512"
    using sz by simp_all
  have d: "drop_bit 9 (int pos) = int (pos div 512)" "drop_bit 9 (int e) = int (e div 512)"
    by (simp_all add: drop_bit_eq_div zdiv_int)
  show 1: "sint (i_start_sect x + of_int (drop_bit 9 (int pos))) = int (unat (i_start_sect x) + pos div 512)"
    unfolding d by (rule sector_sum [OF b(1)])
  show 2: "sint (i_start_sect x + of_int (drop_bit 9 (int e))) = int (unat (i_start_sect x) + pos div 512) + int (e div 512 - pos div 512 + 1) - 1"
    unfolding d sector_sum [OF b(2)] using b(3) by simp
  show 3: "e div 512 - pos div 512 + 1 \<le> 256"
    using assms(3,5) by linarith
  show "pos mod 512 + (e - pos) \<le> 512 * (e div 512 - pos div 512 + 1)"
    by (rule sectors_cover [OF assms(3)])
  show "min (sint (i_start_sect x + of_int (drop_bit 9 (int e))) - sint (i_start_sect x + of_int (drop_bit 9 (int pos))) + 1) (drop_bit 9 FSBUF_SIZE)
       = int (e div 512 - pos div 512 + 1)"
    unfolding 1 2 using 3 by simp
  show "e < 2 ^ 30"
    using assms(4) sz by simp
qed

text \<open>What a super block is apart from its device number, which every use assigns.\<close>

definition same_super :: "fs_state \<Rightarrow> fs_state \<Rightarrow> bool" where
  "same_super st st' \<longleftrightarrow> (super_blocks st' 0)\<lparr>sb_dev := 0\<rparr> = (super_blocks st 0)\<lparr>sb_dev := 0\<rparr>"

lemma write_file_gen:
  assumes f: "plain_file k p st" "x = inode_table st p" and m: "mtype msg = WRITE" "va2la (fs_procs st) (source msg) (BUF msg) = Inr la"
    and pos: "fd_pos (fd_table st k) = int pos" "CNT msg = int n"
    and e: "e = min (512 * unat (i_nr_sects x)) (pos + n)" "c = e div 512 - pos div 512 + 1"
    and fits: "pos \<le> e" "pos mod 512 + (e - pos) \<le> 130560" "pos mod 512 + n \<le> 512 * c" "pos + n < 2 ^ 31"
    and sb: "layout_ok (super_blocks st 0)" "inode_ok (super_blocks st 0) (i_num x)"
    and x': "x' = x\<lparr>i_size := max (i_size x) (of_nat (pos + n))\<rparr>"
    and d: "d = buf_write (data_addr x + pos) (mem_bytes (fs_mem st) la n) (fs_disk st 32)"
  shows "\<exists>st'. rdwt_file msg k p st = Inr (int n, st') \<and>
     fd_table st' = (fd_table st)(k := (fd_table st k)\<lparr>fd_pos := int (pos + n)\<rparr>) \<and>
     inode_table st' = (inode_table st)(p := x') \<and>
     fs_disk st' = (fs_disk st)(32 := if unat (i_size x) < pos + n then put_disk_inode (super_blocks st 0) x' d else d) \<and>
     fs_procs st' = fs_procs st \<and> fs_mem st' = fs_mem st \<and> root_inode st' = root_inode st \<and> same_super st st'"
proof -
  define i where "i = int (unat (i_start_sect x) + pos div 512)"
  have h: "pos \<le> e" "e \<le> 512 * unat (i_nr_sects x)" "pos mod 512 + (e - pos) \<le> 130560"
    using fits e by simp_all
  have nums: "sint (i_start_sect x + of_int (drop_bit 9 (int pos))) = i"
      "sint (i_start_sect x + of_int (drop_bit 9 (int e))) = i + int c - 1"
      "min (i + int c - 1 - i + 1) (drop_bit 9 FSBUF_SIZE) = int c"
      "c \<le> 256"
    using file_numbers [OF f h, folded e(2) i_def] by simp_all
  have sz: "unat (i_nr_sects x * 512) = 512 * unat (i_nr_sects x)" "unat (i_nr_sects x) < 2 ^ 21" "unat (i_size x) < 2 ^ 30" "i_dev x = ROOT_DEV"
    using f(1) unfolding plain_file_def Let_def f(2) [symmetric] by (auto simp: unat_mult_small)
  have "min_u32 (i_nr_sects x * 512) (int (pos + n)) = min (int (unat (i_nr_sects x * 512))) (int (pos + n))"
    using sz fits(4) by (intro min_u32_small) simp_all
  also have "\<dots> = int e"
    unfolding sz(1) e(1) by linarith
  finally have pe: "min_u32 (i_nr_sects x * 512) (int pos + int n) = int e"
    by simp
  have off: "int pos smod SECTOR_SIZE = int (pos mod 512)"
    by (rule smod_nat)
  have pr: "0 \<le> i" "0 < int c" "int c \<le> 256" "0 \<le> int (pos mod 512)" "0 \<le> int n" "int (pos mod 512) + int n \<le> int c * 512"
    using nums(4) fits(3) unfolding i_def e(2) by linarith+
  obtain g where lp: "rdwt_loop False msg k ROOT_DEV (int c) (int e) i (i + int c - 1) (int (pos mod 512)) 0 (int n) st =
      Inr (int n, upd_fd k (\<lambda>x. x\<lparr>fd_pos := fd_pos x + int n\<rparr>) (st\<lparr>fsbuf := g,
        fs_disk := (fs_disk st)(32 := buf_write (512 * nat i + nat (int (pos mod 512))) (mem_bytes (fs_mem st) la (nat (int n))) (fs_disk st 32))\<rparr>))"
    using rdwt_loop_write [OF pr(1-3) m(1) pr(4-6) m(2), of k "int e"] by blast
  have "512 * nat i + pos mod 512 = data_addr x + pos"
    by (simp add: i_def data_addr_def nat_add_distrib)
  then have a: "buf_write (512 * nat i + nat (int (pos mod 512))) (mem_bytes (fs_mem st) la (nat (int n))) (fs_disk st 32) = d"
    by (simp add: d)
  define st1 where "st1 = upd_fd k (\<lambda>x. x\<lparr>fd_pos := fd_pos x + int n\<rparr>) (st\<lparr>fsbuf := g, fs_disk := (fs_disk st)(32 := d)\<rparr>)"
  have rf: "rdwt_file msg k p st = (if of_nat (pos + n) > i_size x
      then res_bind (sync_inode p (upd_inode p (\<lambda>x. x\<lparr>i_size := of_nat (pos + n)\<rparr>) st1)) (\<lambda>st2. Inr (int n, st2)) else Inr (int n, st1))"
    using lp [unfolded a] nums(1-3) pe off pos m(1) sz(4)
    by (simp add: rdwt_file_def Let_def f(2) st1_def upd_fd_def)
  have u: "unat (of_nat (pos + n) :: u32) = pos + n"
    using fits(4) by (simp only: unsigned_of_nat) (simp add: take_bit_nat_eq_self)
  then have gt: "of_nat (pos + n) > i_size x \<longleftrightarrow> unat (i_size x) < pos + n"
    by (simp add: word_less_nat_alt)
  show ?thesis
  proof (cases "unat (i_size x) < pos + n")
    case True
    then have x1: "x' = x\<lparr>i_size := of_nat (pos + n)\<rparr>"
      using gt by (simp add: x' max_def)
    define st2 where "st2 = upd_inode p (\<lambda>x. x\<lparr>i_size := of_nat (pos + n)\<rparr>) st1"
    have st2: "inode_table st2 = (inode_table st)(p := x')" "super_blocks st2 = super_blocks st"
      by (simp_all add: st2_def st1_def upd_fd_def upd_inode_def x1 f(2))
    obtain h where h: "sync_inode p st2 = Inr (st2\<lparr>super_blocks := (super_blocks st2)(0 := (super_blocks st2 0)\<lparr>sb_dev := ROOT_DEV\<rparr>),
        fsbuf := h, fs_disk := (fs_disk st2)(32 := put_disk_inode (super_blocks st2 0) (inode_table st2 p) (fs_disk st2 32))\<rparr>)"
      using sync_inode_root [of st2 p] sz(4) sb by (auto simp: st2 x1)
    then show ?thesis
      using rf True gt by (simp add: st2 same_super_def flip: st2_def) (simp add: st2_def st1_def upd_fd_def upd_inode_def pos(1) x1 f(2))
  next
    case False
    then have "x' = x"
      using gt by (simp add: x' max_def)
    then show ?thesis
      using rf False gt by (simp add: f(2) st1_def upd_fd_def same_super_def pos(1))
  qed
qed

lemma write_file:
  assumes f: "plain_file k p st" "x = inode_table st p" and m: "mtype msg = WRITE" "va2la (fs_procs st) (source msg) (BUF msg) = Inr la"
    and pos: "fd_pos (fd_table st k) = int pos" "CNT msg = int n"
    and fits: "pos + n \<le> 512 * unat (i_nr_sects x)" "pos mod 512 + n \<le> 130560"
    and sb: "layout_ok (super_blocks st 0)" "inode_ok (super_blocks st 0) (i_num x)"
    and x': "x' = x\<lparr>i_size := max (i_size x) (of_nat (pos + n))\<rparr>"
    and d: "d = buf_write (data_addr x + pos) (mem_bytes (fs_mem st) la n) (fs_disk st 32)"
  shows "\<exists>st'. rdwt_file msg k p st = Inr (int n, st') \<and>
     fd_table st' = (fd_table st)(k := (fd_table st k)\<lparr>fd_pos := int (pos + n)\<rparr>) \<and>
     inode_table st' = (inode_table st)(p := x') \<and>
     fs_disk st' = (fs_disk st)(32 := if unat (i_size x) < pos + n then put_disk_inode (super_blocks st 0) x' d else d) \<and>
     fs_procs st' = fs_procs st \<and> fs_mem st' = fs_mem st \<and> root_inode st' = root_inode st \<and> same_super st st'"
proof -
  have "pos + n < 2 ^ 31"
    using f fits(1) unfolding plain_file_def Let_def by simp
  then show ?thesis
    using fits sectors_cover [of pos "pos + n"] by (intro write_file_gen [OF f m pos _ refl _ _ _ _ sb x' d]) simp_all
qed

lemma read_file:
  assumes f: "plain_file k p st" "x = inode_table st p" and m: "mtype msg = READ" "va2la (fs_procs st) (source msg) (BUF msg) = Inr la"
    and pos: "fd_pos (fd_table st k) = int pos" "CNT msg = int cnt"
    and n: "n = min cnt (unat (i_size x) - pos)" "pos < unat (i_size x)" "0 < cnt" "pos + cnt < 2 ^ 31" "pos mod 512 + n \<le> 130560"
  shows "\<exists>st'. rdwt_file msg k p st = Inr (int n, st') \<and>
     fs_mem st' = write_bytes la (buf_bytes (fs_disk st 32) (data_addr x + pos) n) (fs_mem st) \<and>
     fd_table st' = (fd_table st)(k := (fd_table st k)\<lparr>fd_pos := int (pos + n)\<rparr>) \<and>
     inode_table st' = inode_table st \<and> fs_disk st' = fs_disk st \<and>
     fs_procs st' = fs_procs st \<and> root_inode st' = root_inode st \<and> same_super st st'"
proof -
  define c where "c = (pos + n) div 512 - pos div 512 + 1"
  define i where "i = int (unat (i_start_sect x) + pos div 512)"
  have sz: "unat (i_size x) \<le> 512 * unat (i_nr_sects x)" "i_dev x = ROOT_DEV" "unat (i_size x) < 2 ^ 31"
    using f(1) unfolding plain_file_def Let_def f(2) [symmetric] by auto
  have h: "pos \<le> pos + n" "pos + n \<le> 512 * unat (i_nr_sects x)" "pos mod 512 + (pos + n - pos) \<le> 130560"
    using n sz(1) by simp_all
  have nums: "sint (i_start_sect x + of_int (drop_bit 9 (int pos))) = i"
      "sint (i_start_sect x + of_int (drop_bit 9 (int (pos + n)))) = i + int c - 1"
      "min (i + int c - 1 - i + 1) (drop_bit 9 FSBUF_SIZE) = int c"
      "c \<le> 256" "pos mod 512 + n \<le> 512 * c" "pos + n < 2 ^ 30"
    using file_numbers [OF f h, folded c_def i_def] by simp_all
  have "min_u32 (i_size x) (int (pos + cnt)) = min (int (unat (i_size x))) (int (pos + cnt))"
    using sz n(4) by (intro min_u32_small) simp_all
  also have "\<dots> = int (pos + n)"
    using n(1,2) by linarith
  finally have e: "min_u32 (i_size x) (int pos + int cnt) = int (pos + n)"
    by simp
  have pr: "0 \<le> i" "0 < int c" "int c \<le> 256" "0 \<le> int (pos mod 512)" "fd_pos (fd_table st k) < int (pos + n)"
      "int (pos + n) - fd_pos (fd_table st k) \<le> int cnt" "int (pos mod 512) + (int (pos + n) - fd_pos (fd_table st k)) \<le> int c * 512"
    using nums(4,5) n unfolding i_def c_def pos(1) by linarith+
  obtain g where lp: "rdwt_loop True msg k ROOT_DEV (int c) (int (pos + n)) i (i + int c - 1) (int (pos mod 512)) 0 (int cnt) st =
      Inr (int (pos + n) - fd_pos (fd_table st k), upd_fd k (\<lambda>x. x\<lparr>fd_pos := int (pos + n)\<rparr>) (st\<lparr>fsbuf := g,
        fs_mem := write_bytes la (buf_bytes (fs_disk st 32) (512 * nat i + nat (int (pos mod 512)))
          (nat (int (pos + n) - fd_pos (fd_table st k)))) (fs_mem st)\<rparr>))"
    using rdwt_loop_read [OF pr m(2)] by blast
  have a: "512 * nat i + nat (int (pos mod 512)) = data_addr x + pos" "nat (int (pos + n) - fd_pos (fd_table st k)) = n"
    by (simp_all add: i_def data_addr_def nat_add_distrib pos(1))
  have "unat (of_nat (pos + n) :: u32) = pos + n"
    using nums(6) by (simp only: unsigned_of_nat) (simp add: take_bit_nat_eq_self)
  then have "\<not> of_nat (pos + n) > i_size x"
    using n(1,2) by (simp add: word_less_nat_alt)
  then have "rdwt_file msg k p st = Inr (int n, upd_fd k (\<lambda>x. x\<lparr>fd_pos := int (pos + n)\<rparr>) (st\<lparr>fsbuf := g,
      fs_mem := write_bytes la (buf_bytes (fs_disk st 32) (data_addr x + pos) n) (fs_mem st)\<rparr>))"
    using lp [unfolded a] nums(1-3) e smod_nat [of pos] pos m(1) sz(2)
    by (simp add: rdwt_file_def Let_def f(2) upd_fd_def)
  then show ?thesis
    by (simp add: upd_fd_def same_super_def)
qed

end
