(* ===== verification/Disk.thy ===== *)
theory Disk
  imports Hd
begin

text \<open>
  What the disk driver achieves. The drive is hardware: the locale \<open>ata_drive\<close> states what the ATA
  standard promises of it, the lemmas about the transfer loop are proved under it, and an array of
  sectors with a pending transfer is an instance.
\<close>

section \<open>Commands as the drive reads them\<close>

text \<open>The sector number a command names (28 bits) and the number of sectors; a count of 0 means 256.\<close>

definition cmd_lba :: "hd_cmd \<Rightarrow> nat" where
  "cmd_lba c = unat (lba_low c) + 256 * unat (lba_mid c) + 65536 * unat (lba_high c) + 16777216 * unat (device c AND 0xF)"

definition cmd_sectors :: "hd_cmd \<Rightarrow> nat" where
  "cmd_sectors c = (if count c = 0 then 256 else unat (count c))"

definition cmd_is_lba0 :: "hd_cmd \<Rightarrow> bool" where
  "cmd_is_lba0 c \<longleftrightarrow> device c AND 0x50 = 0x40"

datatype xfer = Idle | Reading nat nat | Writing nat nat | Identifying

lemma device_reg_lba:
  assumes "0 \<le> k" "k < 16"
  shows "unat (MAKE_DEVICE_REG 1 0 k AND 0xF) = nat k" "MAKE_DEVICE_REG 1 0 k AND 0x50 = 0x40"
proof -
  consider "k = 0" | "k = 1" | "k = 2" | "k = 3" | "k = 4" | "k = 5" | "k = 6" | "k = 7" | "k = 8" | "k = 9"
    | "k = 10" | "k = 11" | "k = 12" | "k = 13" | "k = 14" | "k = 15"
    using assms by atomize_elim presburger
  then show "unat (MAKE_DEVICE_REG 1 0 k AND 0xF) = nat k" "MAKE_DEVICE_REG 1 0 k AND 0x50 = 0x40"
    by (cases; simp add: MAKE_DEVICE_REG_def)+
qed

lemma and_FF: "(w :: u32) AND 0xFF = take_bit 8 w"
  using take_bit_eq_mask [of 8 w] by (simp add: mask_eq_exp_minus_1)

lemma and_F: "(w :: u32) AND 0xF = take_bit 4 w"
  using take_bit_eq_mask [of 4 w] by (simp add: mask_eq_exp_minus_1)

lemma unat_low_byte: "unat (ucast (w AND 0xFF) :: u8) = unat (w :: u32) mod 256"
  unfolding and_FF unsigned_ucast_eq unsigned_take_bit_eq by (simp add: take_bit_eq_mod)

lemma unat_nibble: "unat (w AND 0xF) = unat (w :: u32) mod 16"
  unfolding and_F unsigned_take_bit_eq by (simp add: take_bit_eq_mod)

lemma unat_drop_bit_div: "unat (drop_bit k w) = unat (w :: u32) div 2 ^ k"
  unfolding unat_drop_bit_eq by (rule drop_bit_eq_div)

lemma split_28:
  "(n :: nat) mod 256 + 256 * (n div 256 mod 256) + 65536 * (n div 65536 mod 256) + 16777216 * (n div 16777216 mod 16)
   = n mod 268435456"
  using mod_mult2_eq [of n 256 256] mod_mult2_eq [of n 65536 256] mod_mult2_eq [of n 16777216 16] by simp

lemma lba_cmd_correct:
  "cmd_lba (lba_cmd op 0 n s) = unat s mod 2 ^ 28" "cmd_is_lba0 (lba_cmd op 0 n s)"
  "count (lba_cmd op 0 n s) = n" "command (lba_cmd op 0 n s) = op"
proof -
  have k: "0 \<le> uint (drop_bit 24 s AND 0xF)" "uint (drop_bit 24 s AND 0xF) < 16"
    unfolding and_F unsigned_take_bit_eq by (simp_all add: take_bit_eq_mod)
  show "cmd_lba (lba_cmd op 0 n s) = unat s mod 2 ^ 28"
    using split_28 [of "unat s"]
    by (simp add: cmd_lba_def lba_cmd_def device_reg_lba(1) [OF k] unat_nibble unat_low_byte unat_drop_bit_div)
  show "cmd_is_lba0 (lba_cmd op 0 n s)"
    by (simp add: cmd_is_lba0_def lba_cmd_def device_reg_lba(2) [OF k])
qed (simp_all add: lba_cmd_def)

section \<open>Requests\<close>

text \<open>
  The absolute sector of a position in a partition, the sectors a request touches, and a request the
  driver accepts: drive 0, a sector boundary, an existing partition and an address it can translate.
\<close>

definition dev_sector :: "part_info \<Rightarrow> u64 \<Rightarrow> nat" where
  "dev_sector p pos = unat (ucast (drop_bit 9 pos) + pbase p) mod 2 ^ 28"

definition request_sectors :: "MESSAGE \<Rightarrow> nat" where
  "request_sectors msg = (nat (CNT msg) + 511) div 512"

definition request_at :: "'d hd_state \<Rightarrow> MESSAGE \<Rightarrow> nat \<Rightarrow> u32 \<Rightarrow> bool" where
  "request_at st msg l la \<longleftrightarrow>
     (\<exists>p. part_of_dev (DEVICE msg) (hd0 st) = Inr p \<and> l = dev_sector p (POSITION msg)) \<and>
     DRV_OF_DEV (DEVICE msg) = 0 \<and> POSITION msg AND 0x1ff = 0 \<and>
     va2la (hd_procs st) (PROC_NR msg) (BUF msg) = Inr la"

text \<open>The assertion about the position can never fail.\<close>

lemma position_bound: "drop_bit 9 (pos :: u64) < 0xFFFFFFFF80000000"
proof -
  have "unat (drop_bit 9 pos) = unat pos div 512"
    unfolding unat_drop_bit_eq by (simp add: drop_bit_eq_div)
  moreover have "unat pos < 2 ^ 64"
    using unsigned_less [of pos] by simp
  ultimately show ?thesis
    by (simp add: word_less_nat_alt)
qed

lemma request_sectors_sdiv:
  "0 < CNT msg \<Longrightarrow> (CNT msg + SECTOR_SIZE - 1) sdiv SECTOR_SIZE = int (request_sectors msg)"
  by (simp add: request_sectors_def signed_divide_int_def nat_add_distrib zdiv_int)

lemma cmd_sectors_request:
  assumes "0 < CNT msg" "CNT msg \<le> 131072"
  shows "cmd_sectors (lba_cmd op 0 (of_int ((CNT msg + SECTOR_SIZE - 1) sdiv SECTOR_SIZE)) s) = request_sectors msg"
proof -
  have b: "0 < request_sectors msg" "request_sectors msg \<le> 256"
    using assms by (auto simp: request_sectors_def)
  have "unat (of_nat (request_sectors msg) :: u8) = request_sectors msg mod 256"
    by (simp add: unsigned_of_nat take_bit_eq_mod)
  moreover have "request_sectors msg mod 256 = (if request_sectors msg = 256 then 0 else request_sectors msg)"
    using b by auto
  ultimately show ?thesis
    unfolding request_sectors_sdiv [OF assms(1)] of_int_of_nat_eq cmd_sectors_def lba_cmd_correct
    using b by (auto simp flip: unat_eq_zero)
qed

lemma cmd_sectors_le: "cmd_sectors c \<le> 256"
  using unsigned_less [of "count c", where ?'a = nat] by (simp add: cmd_sectors_def)

text \<open>The command of \<^verbatim>\<open>hd_rdwt\<close> names the sectors of the request, if they are at most 256; then the loop runs.\<close>

lemma rdwt_command:
  assumes "request_at st msg l la" "0 < CNT msg"
  shows "\<exists>c. command c = (if mtype msg = DEV_READ then ATA_READ else ATA_WRITE) \<and> cmd_is_lba0 c \<and> cmd_lba c = l \<and>
     (CNT msg \<le> 131072 \<longrightarrow> cmd_sectors c = request_sectors msg) \<and>
     hd_rdwt A msg st = res_bind (hd_cmd_out A c st) (hd_rdwt_loop A (mtype msg = DEV_READ) la (nat (CNT msg)))"
proof -
  obtain p where p: "part_of_dev (DEVICE msg) (hd0 st) = Inr p" "l = dev_sector p (POSITION msg)"
      "DRV_OF_DEV (DEVICE msg) = 0" "POSITION msg AND 0x1ff = 0"
      "va2la (hd_procs st) (PROC_NR msg) (BUF msg) = Inr la"
    using assms(1) by (auto simp: request_at_def)
  define c where "c = lba_cmd (if mtype msg = DEV_READ then ATA_READ else ATA_WRITE) 0
    (of_int ((CNT msg + SECTOR_SIZE - 1) sdiv SECTOR_SIZE)) (ucast (drop_bit 9 (POSITION msg)) + pbase p)"
  have "hd_rdwt A msg st = res_bind (hd_cmd_out A c st) (hd_rdwt_loop A (mtype msg = DEV_READ) la (nat (CNT msg)))"
    using p assms(2) by (simp add: hd_rdwt_def Let_def position_bound c_def)
  moreover have "CNT msg \<le> 131072 \<longrightarrow> cmd_sectors c = request_sectors msg"
    using cmd_sectors_request [OF assms(2)] unfolding c_def by blast
  ultimately show ?thesis
    using p(2) by (intro exI [of _ c]) (simp add: c_def lba_cmd_correct dev_sector_def)
qed

section \<open>Partition tables\<close>

text \<open>
  What the tables on a disk say: the four entries of the table in a sector, and the chain of logical
  partitions of an extended one, whose tables lie at offsets from its start (at most \<open>n\<close> of them).
\<close>

definition part_table :: "(nat \<Rightarrow> u8 list) \<Rightarrow> u32 \<Rightarrow> part_ent list" where
  "part_table S s = map (part_ent_at (S (unat s mod 2 ^ 28))) [0..<4]"

fun ext_chain :: "(nat \<Rightarrow> u8 list) \<Rightarrow> u32 \<Rightarrow> nat \<Rightarrow> u32 \<Rightarrow> part_info list" where
  "ext_chain S base 0 s = []"
| "ext_chain S base (Suc n) s =
     \<lparr>pbase = s + start_sect (part_table S s ! 0), psize = nr_sects (part_table S s ! 0)\<rparr> #
     (if sys_id (part_table S s ! 1) = NO_PART then [] else ext_chain S base n (base + start_sect (part_table S s ! 1)))"

text \<open>The size in the answer to the identify command.\<close>

definition ident_size :: "u8 list \<Rightarrow> u32" where
  "ident_size bs = push_bit 16 (ucast (half_of bs 61)) + ucast (half_of bs 60)"

text \<open>The tables of a chain lie on the disk.\<close>

fun chain_within :: "(nat \<Rightarrow> u8 list) \<Rightarrow> nat \<Rightarrow> u32 \<Rightarrow> nat \<Rightarrow> u32 \<Rightarrow> bool" where
  "chain_within S cap base 0 s \<longleftrightarrow> True"
| "chain_within S cap base (Suc n) s \<longleftrightarrow> unat s mod 2 ^ 28 < cap \<and>
     (sys_id (part_table S s ! 1) = NO_PART \<or> chain_within S cap base n (base + start_sect (part_table S s ! 1)))"

lemma part_ent_at_append [simp]:
  assumes "length bs = 512" "i < 4"
  shows "part_ent_at (bs @ rest) i = part_ent_at bs i"
proof -
  consider "i = 0" | "i = 1" | "i = 2" | "i = 3"
    using assms(2) by linarith
  then show ?thesis
    by cases (simp_all add: part_ent_at_def Let_def nth_append assms(1))
qed

lemma length_ext_chain: "length (ext_chain S base n s) \<le> n"
  by (induction S base n s rule: ext_chain.induct) simp_all

text \<open>Storing a list of partitions from an index on.\<close>

fun put_parts :: "nat \<Rightarrow> part_info list \<Rightarrow> (nat \<Rightarrow> part_info) \<Rightarrow> nat \<Rightarrow> part_info" where
  "put_parts k [] f = f"
| "put_parts k (x # xs) f = put_parts (Suc k) xs (f(k := x))"

lemma put_parts_nth: "put_parts k xs f j = (if k \<le> j \<and> j < k + length xs then xs ! (j - k) else f j)"
proof (induction xs arbitrary: k f)
  case (Cons x xs)
  show ?case
    by (auto simp: Cons.IH nth_Cons')
qed auto

lemma dev_small:
  assumes "i < 4"
  shows "(1 + int i) sdiv 5 = 0" "(1 + int i) smod 5 = 1 + int i" "nat (1 + int i) = Suc i"
    "nat (int i * 16) = 16 * i"
  using assms by (simp_all add: signed_divide_int_def signed_modulo_int_def)

text \<open>What one entry of the first table contributes to \<^verbatim>\<open>hd_info\<close>.\<close>

definition scan_entry :: "(nat \<Rightarrow> u8 list) \<Rightarrow> nat \<Rightarrow> part_ent \<Rightarrow> hd_info \<Rightarrow> hd_info" where
  "scan_entry S i e h =
     (if sys_id e = NO_PART then h
      else h\<lparr>primary := (primary h)(Suc i := \<lparr>pbase = start_sect e, psize = nr_sects e\<rparr>),
             logical := (if sys_id e = EXT_PART then put_parts (16 * i) (ext_chain S (start_sect e) 16 (start_sect e)) (logical h)
                         else logical h)\<rparr>)"

lemma put_parts_row:
  assumes "j < 16" "length xs \<le> 16"
  shows "put_parts (16 * i') xs f (16 * i + j) = (if i' = i \<and> j < length xs then xs ! j else f (16 * i + j))"
proof (cases "i' = i")
  case False
  then have "\<not> (16 * i' \<le> 16 * i + j \<and> 16 * i + j < 16 * i' + length xs)"
    using assms by linarith
  then show ?thesis
    using False unfolding put_parts_nth by auto
qed (simp add: put_parts_nth)

lemma scan_primary:
  assumes "distinct (map fst ies)"
  shows "primary (fold (\<lambda>(i, e). scan_entry S i e) ies h) (Suc i) =
     (case map_of ies i of
        None \<Rightarrow> primary h (Suc i)
      | Some e \<Rightarrow> if sys_id e = NO_PART then primary h (Suc i) else \<lparr>pbase = start_sect e, psize = nr_sects e\<rparr>)"
  using assms
proof (induction ies arbitrary: h)
  case (Cons ie ies)
  then have "map_of ies (fst ie) = None"
    by (auto simp: map_of_eq_None_iff)
  then show ?case
    using Cons by (auto simp: scan_entry_def split: prod.splits option.splits)
qed simp

lemma scan_logical:
  assumes "distinct (map fst ies)" "j < 16"
  shows "logical (fold (\<lambda>(i, e). scan_entry S i e) ies h) (16 * i + j) =
     (case map_of ies i of
        None \<Rightarrow> logical h (16 * i + j)
      | Some e \<Rightarrow> if sys_id e = EXT_PART \<and> j < length (ext_chain S (start_sect e) 16 (start_sect e))
                  then ext_chain S (start_sect e) 16 (start_sect e) ! j else logical h (16 * i + j))"
  using assms(1)
proof (induction ies arbitrary: h)
  case (Cons ie ies)
  then have "map_of ies (fst ie) = None"
    by (auto simp: map_of_eq_None_iff)
  then show ?case
    using Cons by (auto simp: scan_entry_def put_parts_row [OF assms(2) length_ext_chain] split: prod.splits option.splits)
qed simp

lemma scan_rest:
  "primary (fold (\<lambda>(i, e). scan_entry S i e) ies h) 0 = primary h 0"
  "open_cnt (fold (\<lambda>(i, e). scan_entry S i e) ies h) = open_cnt h"
  by (induction ies arbitrary: h) (auto simp: scan_entry_def)

section \<open>What the drive promises\<close>

definition sectors_from :: "(nat \<Rightarrow> u8 list) \<Rightarrow> nat \<Rightarrow> nat \<Rightarrow> u8 list" where
  "sectors_from S l k = concat (map S [l..<l + k])"

lemma sectors_from_0 [simp]: "sectors_from S l 0 = []"
  by (simp add: sectors_from_def)

lemma sectors_from_snoc: "sectors_from S l (Suc k) = sectors_from S l k @ S (l + k)"
  by (simp add: sectors_from_def)

lemma sectors_from_Suc: "sectors_from S l (Suc k) = S l @ sectors_from S (Suc l) k"
  unfolding sectors_from_def by (subst upt_conv_Cons) simp_all

text \<open>
  \<open>sect d n\<close> is the content of sector \<open>n\<close>, \<open>pend d\<close> the transfer under way, \<open>ident d\<close> the answer to
  the identify command and \<open>cap\<close> the number of sectors. A read delivers the sectors of the command one
  interrupt at a time and then no more; a write asks for data (DRQ) as long as sectors are missing, and
  raises the interrupt once a whole sector has arrived.
\<close>

locale ata_drive =
  fixes A :: "'d ata_dev"
    and sect :: "'d \<Rightarrow> nat \<Rightarrow> u8 list"
    and pend :: "'d \<Rightarrow> xfer"
    and ident :: "'d \<Rightarrow> u8 list"
    and cap :: nat
  assumes length_sect: "length (sect d n) = 512"
    and length_ident: "length (ident d) = 512"
    and cmd_identify: "command c = ATA_IDENTIFY \<Longrightarrow>
          \<exists>d'. dev_cmd A c d = Some d' \<and> sect d' = sect d \<and> ident d' = ident d \<and> pend d' = Identifying"
    and cmd_read: "command c = ATA_READ \<Longrightarrow> cmd_is_lba0 c \<Longrightarrow> cmd_lba c + cmd_sectors c \<le> cap \<Longrightarrow>
          \<exists>d'. dev_cmd A c d = Some d' \<and> sect d' = sect d \<and> ident d' = ident d \<and>
               pend d' = Reading (cmd_lba c) (cmd_sectors c)"
    and cmd_write: "command c = ATA_WRITE \<Longrightarrow> cmd_is_lba0 c \<Longrightarrow> cmd_lba c + cmd_sectors c \<le> cap \<Longrightarrow>
          \<exists>d'. dev_cmd A c d = Some d' \<and> sect d' = sect d \<and> ident d' = ident d \<and>
               pend d' = Writing (cmd_lba c) (cmd_sectors c)"
    and read_identify: "pend d = Identifying \<Longrightarrow>
          \<exists>d'. dev_read A d = Some (ident d, d') \<and> sect d' = sect d \<and> ident d' = ident d"
    and read_more: "pend d = Reading l (Suc n) \<Longrightarrow>
          \<exists>d'. dev_read A d = Some (sect d l, d') \<and> sect d' = sect d \<and> ident d' = ident d \<and>
               pend d' = Reading (Suc l) n"
    and read_done: "pend d = Reading l 0 \<Longrightarrow> dev_read A d = None"
    and drq: "dev_drq A d \<longleftrightarrow> (\<exists>l n. pend d = Writing l (Suc n))"
    and write_more: "pend d = Writing l (Suc n) \<Longrightarrow> length bs = 512 \<Longrightarrow>
          \<exists>d'. dev_write A bs d = Some d' \<and> sect d' = (sect d)(l := bs) \<and> ident d' = ident d \<and>
               pend d' = Writing (Suc l) n"
    and write_part: "pend d = Writing l (Suc n) \<Longrightarrow> length bs < 512 \<Longrightarrow> dev_write A bs d = None"
begin

lemma read_hdbuf_more:
  assumes "pend (drive st) = Reading l (Suc n)"
  obtains d' where "read_hdbuf A st = Inr (st\<lparr>drive := d', hdbuf := sect (drive st) l @ drop 512 (hdbuf st)\<rparr>)"
    "sect d' = sect (drive st)" "pend d' = Reading (Suc l) n"
  using read_more [OF assms] by (auto simp: read_hdbuf_def length_sect)

text \<open>The transfer loop reads the sectors from \<open>l\<close> on, one after the other.\<close>

lemma read_loop:
  assumes "pend (drive st) = Reading l k" "n \<le> 512 * k"
  shows "\<exists>st'. hd_rdwt_loop A True la n st = Inr st' \<and>
     hd_mem st' = write_bytes la (take n (sectors_from (sect (drive st)) l k)) (hd_mem st) \<and>
     sect (drive st') = sect (drive st) \<and> hd0 st' = hd0 st \<and> hd_procs st' = hd_procs st"
  using assms
proof (induction k arbitrary: l n la st)
  case (Suc k)
  show ?case
  proof (cases "n = 0")
    case False
    obtain d' where d': "read_hdbuf A st = Inr (st\<lparr>drive := d', hdbuf := sect (drive st) l @ drop 512 (hdbuf st)\<rparr>)"
        "sect d' = sect (drive st)" "pend d' = Reading (Suc l) k"
      by (rule read_hdbuf_more [OF Suc.prems(1)])
    define st1 where "st1 = st\<lparr>drive := d', hdbuf := sect (drive st) l @ drop 512 (hdbuf st),
      hd_mem := write_bytes la (take (min 512 n) (sect (drive st) l)) (hd_mem st)\<rparr>"
    have step: "hd_read_step A la (min 512 n) st = Inr st1"
      by (simp add: hd_read_step_def d'(1) st1_def length_sect)
    have "pend (drive st1) = Reading (Suc l) k" "n - min 512 n \<le> 512 * k"
      using d'(3) Suc.prems(2) by (auto simp: st1_def)
    from Suc.IH [OF this, of "la + of_nat (min 512 n)"] obtain st' where st':
        "hd_rdwt_loop A True (la + of_nat (min 512 n)) (n - min 512 n) st1 = Inr st'"
        "hd_mem st' = write_bytes (la + of_nat (min 512 n)) (take (n - min 512 n) (sectors_from (sect (drive st1)) (Suc l) k)) (hd_mem st1)"
        "sect (drive st') = sect (drive st1)" "hd0 st' = hd0 st1" "hd_procs st' = hd_procs st1"
      by blast
    have "hd_rdwt_loop A True la n st = Inr st'"
      using False st'(1) step by (subst hd_rdwt_loop.simps) (simp add: Let_def)
    moreover have "take n (sectors_from (sect (drive st)) l (Suc k)) =
        take (min 512 n) (sect (drive st) l) @ take (n - min 512 n) (sectors_from (sect (drive st)) (Suc l) k)"
      by (cases "n \<le> 512") (simp_all add: sectors_from_Suc length_sect min_def)
    ultimately show ?thesis
      using st' d'(2) by (simp add: write_bytes_append st1_def length_sect)
  qed simp
qed simp

text \<open>More bytes than the command asked for: the interrupt the loop waits for never comes.\<close>

lemma read_loop_hangs:
  assumes "pend (drive st) = Reading l k" "512 * k < n"
  shows "hd_rdwt_loop A True la n st = Inl Hang"
  using assms
proof (induction k arbitrary: l n la st)
  case 0
  then show ?case
    by (subst hd_rdwt_loop.simps) (simp add: Let_def hd_read_step_def read_hdbuf_def read_done)
next
  case (Suc k)
  obtain d' where d': "read_hdbuf A st = Inr (st\<lparr>drive := d', hdbuf := sect (drive st) l @ drop 512 (hdbuf st)\<rparr>)"
      "pend d' = Reading (Suc l) k"
    by (rule read_hdbuf_more [OF Suc.prems(1)])
  from Suc.prems(2) d' show ?case
    by (subst hd_rdwt_loop.simps) (simp add: Let_def hd_read_step_def Suc.IH)
qed

lemma write_loop:
  assumes "pend (drive st) = Writing l k'" "k \<le> k'"
  shows "\<exists>st'. hd_rdwt_loop A False la (512 * k) st = Inr st' \<and>
     sect (drive st') = (\<lambda>j. if l \<le> j \<and> j < l + k then mem_bytes (hd_mem st) (la + of_nat (512 * (j - l))) 512
                             else sect (drive st) j) \<and>
     hd_mem st' = hd_mem st \<and> hd0 st' = hd0 st \<and> hd_procs st' = hd_procs st"
  using assms
proof (induction k arbitrary: l k' la st)
  case (Suc k)
  then obtain k'' where k'': "k' = Suc k''"
    by (cases k') auto
  define bs where "bs = mem_bytes (hd_mem st) la 512"
  obtain d' where d': "dev_write A bs (drive st) = Some d'" "sect d' = (sect (drive st))(l := bs)"
      "pend d' = Writing (Suc l) k''"
    using write_more [of "drive st" l k'' bs] Suc.prems(1) k'' by (auto simp: bs_def)
  define st1 where "st1 = st\<lparr>drive := d'\<rparr>"
  have step: "hd_write_step A la 512 st = Inr st1"
    using Suc.prems(1) k'' d'(1) by (simp add: hd_write_step_def drq st1_def bs_def)
  have "pend (drive st1) = Writing (Suc l) k''" "k \<le> k''"
    using d'(3) Suc.prems(2) k'' by (simp_all add: st1_def)
  from Suc.IH [OF this, of "la + 512"] obtain st' where st':
      "hd_rdwt_loop A False (la + 512) (512 * k) st1 = Inr st'"
      "sect (drive st') = (\<lambda>j. if Suc l \<le> j \<and> j < Suc l + k
         then mem_bytes (hd_mem st1) (la + 512 + of_nat (512 * (j - Suc l))) 512 else sect (drive st1) j)"
      "hd_mem st' = hd_mem st1" "hd0 st' = hd0 st1" "hd_procs st' = hd_procs st1"
    by blast
  have "hd_rdwt_loop A False la (512 * Suc k) st = Inr st'"
    using st'(1) step by (subst hd_rdwt_loop.simps) (simp add: Let_def)
  moreover have "sect (drive st') j = (if l \<le> j \<and> j < l + Suc k
      then mem_bytes (hd_mem st) (la + of_nat (512 * (j - l))) 512 else sect (drive st) j)" for j
  proof (cases "Suc l \<le> j")
    case True
    then obtain i where "j = Suc (l + i)"
      by (auto simp: le_iff_add)
    then show ?thesis
      by (simp add: st'(2) st1_def d'(2) add.assoc)
  qed (auto simp: st'(2) st1_def d'(2) bs_def)
  ultimately show ?case
    using st' by (simp add: st1_def)
qed (auto simp: fun_eq_iff)

text \<open>The three outcomes of a request: a read, a write of whole sectors, and a read of more than 256 sectors.\<close>

lemma rdwt_read:
  assumes "mtype msg = DEV_READ" "request_at st msg l la" "0 < CNT msg" "CNT msg \<le> 131072"
    "l + request_sectors msg \<le> cap"
  shows "\<exists>st'. hd_rdwt A msg st = Inr st' \<and>
     hd_mem st' = write_bytes la (take (nat (CNT msg)) (sectors_from (sect (drive st)) l (request_sectors msg))) (hd_mem st) \<and>
     sect (drive st') = sect (drive st) \<and> hd0 st' = hd0 st \<and> hd_procs st' = hd_procs st"
proof -
  obtain c where c: "command c = ATA_READ" "cmd_is_lba0 c" "cmd_lba c = l" "cmd_sectors c = request_sectors msg"
      "hd_rdwt A msg st = res_bind (hd_cmd_out A c st) (hd_rdwt_loop A True la (nat (CNT msg)))"
    using rdwt_command [OF assms(2,3), of A] assms(1,4) by auto
  then obtain d' where d': "dev_cmd A c (drive st) = Some d'" "sect d' = sect (drive st)"
      "pend d' = Reading l (request_sectors msg)"
    using cmd_read [of c "drive st"] assms(5) by auto
  have "hd_rdwt A msg st = hd_rdwt_loop A True la (nat (CNT msg)) (st\<lparr>drive := d'\<rparr>)"
    using c(5) d'(1) by (simp add: hd_cmd_out_def)
  moreover have "nat (CNT msg) \<le> 512 * request_sectors msg"
    using assms(3) by (simp add: request_sectors_def)
  ultimately show ?thesis
    using read_loop [of "st\<lparr>drive := d'\<rparr>" l "request_sectors msg" "nat (CNT msg)" la] d'(2,3) by simp
qed

lemma rdwt_write:
  assumes "mtype msg = DEV_WRITE" "request_at st msg l la" "CNT msg = int (512 * k)" "0 < k" "k \<le> 256" "l + k \<le> cap"
  shows "\<exists>st'. hd_rdwt A msg st = Inr st' \<and>
     sect (drive st') = (\<lambda>j. if l \<le> j \<and> j < l + k then mem_bytes (hd_mem st) (la + of_nat (512 * (j - l))) 512
                             else sect (drive st) j) \<and>
     hd_mem st' = hd_mem st \<and> hd0 st' = hd0 st \<and> hd_procs st' = hd_procs st"
proof -
  have n: "0 < CNT msg" "CNT msg \<le> 131072" "request_sectors msg = k" "nat (CNT msg) = 512 * k"
    using assms(3,4,5) by (simp_all add: request_sectors_def nat_mult_distrib)
  obtain c where c: "command c = ATA_WRITE" "cmd_is_lba0 c" "cmd_lba c = l" "cmd_sectors c = k"
      "hd_rdwt A msg st = res_bind (hd_cmd_out A c st) (hd_rdwt_loop A False la (512 * k))"
    using rdwt_command [OF assms(2) n(1), of A] assms(1) n(2,3) n(4) by auto
  then obtain d' where d': "dev_cmd A c (drive st) = Some d'" "sect d' = sect (drive st)" "pend d' = Writing l k"
    using cmd_write [of c "drive st"] assms(6) by auto
  have "hd_rdwt A msg st = hd_rdwt_loop A False la (512 * k) (st\<lparr>drive := d'\<rparr>)"
    using c(5) d'(1) by (simp add: hd_cmd_out_def)
  then show ?thesis
    using write_loop [of "st\<lparr>drive := d'\<rparr>" l k k la] d'(2,3) by (simp cong: if_cong)
qed

lemma rdwt_read_hangs:
  assumes "mtype msg = DEV_READ" "request_at st msg l la" "131072 < CNT msg" "l + 256 \<le> cap"
  shows "hd_rdwt A msg st = Inl Hang"
proof -
  obtain c where c: "command c = ATA_READ" "cmd_is_lba0 c" "cmd_lba c = l"
      "hd_rdwt A msg st = res_bind (hd_cmd_out A c st) (hd_rdwt_loop A True la (nat (CNT msg)))"
    using rdwt_command [OF assms(2), of A] assms(1,3) by auto
  have k: "cmd_sectors c \<le> 256"
    by (rule cmd_sectors_le)
  obtain d' where d': "dev_cmd A c (drive st) = Some d'" "pend d' = Reading l (cmd_sectors c)"
    using cmd_read [of c "drive st"] assms(4) c(1,2,3) k by auto
  have "512 * cmd_sectors c < nat (CNT msg)"
    using assms(3) k by linarith
  then show ?thesis
    using read_loop_hangs [of "st\<lparr>drive := d'\<rparr>"] d' c(4) by (simp add: hd_cmd_out_def)
qed

text \<open>Opening the drive for the first time reads the partition tables.\<close>

lemma get_part_table_ok:
  assumes "unat s mod 2 ^ 28 < cap"
  shows "\<exists>st'. get_part_table A 0 s st = Inr (part_table (sect (drive st)) s, st') \<and>
     sect (drive st') = sect (drive st) \<and> hd0 st' = hd0 st \<and> hd_mem st' = hd_mem st \<and> hd_procs st' = hd_procs st"
proof -
  obtain d1 where d1: "dev_cmd A (lba_cmd ATA_READ 0 1 s) (drive st) = Some d1" "sect d1 = sect (drive st)"
      "pend d1 = Reading (unat s mod 2 ^ 28) 1"
    using cmd_read [of "lba_cmd ATA_READ 0 1 s" "drive st"] assms by (auto simp: lba_cmd_correct cmd_sectors_def)
  obtain d2 where "read_hdbuf A (st\<lparr>drive := d1\<rparr>) =
        Inr (st\<lparr>drive := d2, hdbuf := sect (drive st) (unat s mod 2 ^ 28) @ drop 512 (hdbuf st)\<rparr>)" "sect d2 = sect (drive st)"
    using read_hdbuf_more [of "st\<lparr>drive := d1\<rparr>" "unat s mod 2 ^ 28" 0] d1(2,3) by auto
  then show ?thesis
    by (simp add: get_part_table_def hd_cmd_out_def d1(1) part_table_def length_sect)
qed

lemma partition_ext_ok:
  assumes "chain_within (sect (drive st)) cap base n s"
  shows "\<exists>st'. partition_ext A 0 base nr [i..<i + n] s st = Inr st' \<and>
     hd0 st' = (hd0 st)\<lparr>logical := put_parts (nr + i) (ext_chain (sect (drive st)) base n s) (logical (hd0 st))\<rparr> \<and>
     sect (drive st') = sect (drive st) \<and> hd_mem st' = hd_mem st \<and> hd_procs st' = hd_procs st"
  using assms
proof (induction n arbitrary: i s st)
  case (Suc n)
  obtain st1 where st1: "get_part_table A 0 s st = Inr (part_table (sect (drive st)) s, st1)"
      "sect (drive st1) = sect (drive st)" "hd0 st1 = hd0 st" "hd_mem st1 = hd_mem st" "hd_procs st1 = hd_procs st"
    using get_part_table_ok [of s st] Suc.prems by auto
  define e where "e = part_table (sect (drive st)) s"
  define st2 where "st2 = set_logical (nr + i) (s + start_sect (e ! 0)) (nr_sects (e ! 0)) st1"
  have st2: "drive st2 = drive st1" "hd_mem st2 = hd_mem st" "hd_procs st2 = hd_procs st"
      "hd0 st2 = (hd0 st)\<lparr>logical := (logical (hd0 st))(nr + i := \<lparr>pbase = s + start_sect (e ! 0), psize = nr_sects (e ! 0)\<rparr>)\<rparr>"
    using st1 by (simp_all add: st2_def set_logical_def)
  have step: "partition_ext A 0 base nr [i..<i + Suc n] s st = (if sys_id (e ! 1) = NO_PART then Inr st2
      else partition_ext A 0 base nr [Suc i..<Suc i + n] (base + start_sect (e ! 1)) st2)"
    using st1(1) unfolding add_Suc_right upt_conv_Cons [OF less_Suc_eq_le [THEN iffD2, OF le_add1]]
    by (simp add: e_def st2_def Let_def)
  show ?case
  proof (cases "sys_id (e ! 1) = NO_PART")
    case True
    then show ?thesis
      using st1 st2 step by (simp add: fun_upd_def flip: e_def)
  next
    case False
    then have "chain_within (sect (drive st2)) cap base n (base + start_sect (e ! 1))"
      using Suc.prems by (simp add: e_def st2(1) st1(2))
    from Suc.IH [OF this, of "Suc i"] obtain st' where
        "partition_ext A 0 base nr [Suc i..<Suc i + n] (base + start_sect (e ! 1)) st2 = Inr st'"
        "hd0 st' = (hd0 st2)\<lparr>logical := put_parts (nr + Suc i) (ext_chain (sect (drive st2)) base n (base + start_sect (e ! 1))) (logical (hd0 st2))\<rparr>"
        "sect (drive st') = sect (drive st2)" "hd_mem st' = hd_mem st2" "hd_procs st' = hd_procs st2"
      by blast
    then show ?thesis
      using False st1 st2 step by (simp flip: e_def)
  qed
qed simp

lemma partition_prim_ok:
  assumes "\<forall>(i, e) \<in> set ies. i < 4 \<and> (sys_id e = EXT_PART \<longrightarrow> chain_within (sect (drive st)) cap (start_sect e) 16 (start_sect e))"
  shows "\<exists>st'. partition_prim A ies n st = Inr (n + int (length (filter (\<lambda>(i, e). sys_id e \<noteq> NO_PART) ies)), st') \<and>
     hd0 st' = fold (\<lambda>(i, e). scan_entry (sect (drive st)) i e) ies (hd0 st) \<and>
     sect (drive st') = sect (drive st) \<and> hd_mem st' = hd_mem st \<and> hd_procs st' = hd_procs st"
  using assms
proof (induction ies arbitrary: n st)
  case (Cons ie ies)
  obtain i e where ie: "ie = (i, e)"
    by force
  show ?case
  proof (cases "sys_id e = NO_PART")
    case True
    then show ?thesis
      using Cons.IH [of st n] Cons.prems by (simp add: ie scan_entry_def)
  next
    case False
    define st1 where "st1 = set_primary (Suc i) (start_sect e) (nr_sects e) st"
    have "\<exists>st2. (if sys_id e = EXT_PART then partition_extended A (int (Suc i)) st1 else Inr st1) = Inr st2 \<and>
        hd0 st2 = scan_entry (sect (drive st)) i e (hd0 st) \<and> sect (drive st2) = sect (drive st) \<and>
        hd_mem st2 = hd_mem st \<and> hd_procs st2 = hd_procs st"
    proof (cases "sys_id e = EXT_PART")
      case True
      have i: "i < 4" and ch: "chain_within (sect (drive st1)) cap (start_sect e) 16 (start_sect e)"
        using Cons.prems True by (simp_all add: ie st1_def set_primary_def)
      have j: "partition_extended A (int (Suc i)) st1 =
          partition_ext A 0 (start_sect e) (16 * i) [0..<0 + 16] (start_sect e) st1"
        using i by (simp add: partition_extended_def Let_def DRV_OF_DEV_def dev_small st1_def set_primary_def)
      show ?thesis
        unfolding j using partition_ext_ok [OF ch, of "16 * i" 0] True False
        by (auto simp: scan_entry_def st1_def set_primary_def)
    qed (use False in \<open>simp add: scan_entry_def st1_def set_primary_def\<close>)
    then obtain st2 where st2: "(if sys_id e = EXT_PART then partition_extended A (int (Suc i)) st1 else Inr st1) = Inr st2"
        "hd0 st2 = scan_entry (sect (drive st)) i e (hd0 st)" "sect (drive st2) = sect (drive st)"
        "hd_mem st2 = hd_mem st" "hd_procs st2 = hd_procs st"
      by blast
    have "partition_prim A (ie # ies) n st = partition_prim A ies (n + 1) st2"
      using False st2(1) by (auto simp: ie Let_def simp flip: st1_def)
    then show ?thesis
      using Cons.IH [of st2 "n + 1"] Cons.prems False st2 by (auto simp: ie)
  qed
qed simp

lemma hd_identify_ok:
  "\<exists>st'. hd_identify A 0 junk st = Inr st' \<and>
     hd0 st' = (hd0 st)\<lparr>primary := (primary (hd0 st))(0 := \<lparr>pbase = 0, psize = ident_size (ident (drive st))\<rparr>)\<rparr> \<and>
     sect (drive st') = sect (drive st) \<and> hd_mem st' = hd_mem st \<and> hd_procs st' = hd_procs st"
proof -
  obtain d1 where d1: "dev_cmd A (junk\<lparr>command := ATA_IDENTIFY, device := MAKE_DEVICE_REG 0 0 0\<rparr>) (drive st) = Some d1"
      "sect d1 = sect (drive st)" "ident d1 = ident (drive st)" "pend d1 = Identifying"
    using cmd_identify [of "junk\<lparr>command := ATA_IDENTIFY, device := MAKE_DEVICE_REG 0 0 0\<rparr>" "drive st"] by auto
  obtain d2 where d2: "dev_read A d1 = Some (ident d1, d2)" "sect d2 = sect d1"
    using read_identify [OF d1(4)] by auto
  show ?thesis
    by (simp add: hd_identify_def hd_cmd_out_def read_hdbuf_def d1 d2 Let_def ident_size_def half_of_def nth_append length_ident)
qed

lemma hd_open_first:
  assumes "DRV_OF_DEV dev = 0" "open_cnt (hd0 st) = 0" "0 < cap" "T = part_table (sect (drive st)) 0"
    "\<exists>e \<in> set T. sys_id e \<noteq> NO_PART"
    "\<forall>e \<in> set T. sys_id e = EXT_PART \<longrightarrow> chain_within (sect (drive st)) cap (start_sect e) 16 (start_sect e)"
  shows "\<exists>st' h. hd_open A dev junk st = Inr st' \<and> hd0 st' = fold (\<lambda>(i, e). scan_entry (sect (drive st)) i e) (zip [0..<4] T) h \<and>
     h = (hd0 st)\<lparr>primary := (primary (hd0 st))(0 := \<lparr>pbase = 0, psize = ident_size (ident (drive st))\<rparr>), open_cnt := 1\<rparr> \<and>
     sect (drive st') = sect (drive st) \<and> hd_mem st' = hd_mem st \<and> hd_procs st' = hd_procs st"
proof -
  obtain st1 where st1: "hd_identify A 0 junk st = Inr st1"
      "hd0 st1 = (hd0 st)\<lparr>primary := (primary (hd0 st))(0 := \<lparr>pbase = 0, psize = ident_size (ident (drive st))\<rparr>)\<rparr>"
      "sect (drive st1) = sect (drive st)" "hd_mem st1 = hd_mem st" "hd_procs st1 = hd_procs st"
    using hd_identify_ok by blast
  define st2 where "st2 = st1\<lparr>hd0 := (hd0 st1)\<lparr>open_cnt := 1\<rparr>\<rparr>"
  have "sect (drive st2) = sect (drive st)"
    by (simp add: st2_def st1(3))
  then obtain st3 where st3: "get_part_table A 0 0 st2 = Inr (T, st3)" "sect (drive st3) = sect (drive st)"
      "hd0 st3 = hd0 st2" "hd_mem st3 = hd_mem st2" "hd_procs st3 = hd_procs st2"
    using get_part_table_ok [of 0 st2] assms(3) unfolding assms(4) by auto
  have len: "length T = 4"
    by (simp add: assms(4) part_table_def)
  have "\<forall>(i, e) \<in> set (zip [0..<4] T). i < 4 \<and>
      (sys_id e = EXT_PART \<longrightarrow> chain_within (sect (drive st3)) cap (start_sect e) 16 (start_sect e))"
    using assms(6) unfolding st3(2) by (auto dest: set_zip_leftD set_zip_rightD)
  from partition_prim_ok [OF this, of 0] obtain st' where st':
      "partition_prim A (zip [0..<4] T) 0 st3 = Inr (int (length (filter (\<lambda>(i, e). sys_id e \<noteq> NO_PART) (zip [0..<4] T))), st')"
      "hd0 st' = fold (\<lambda>(i, e). scan_entry (sect (drive st)) i e) (zip [0..<4] T) (hd0 st2)"
      "sect (drive st') = sect (drive st)" "hd_mem st' = hd_mem st2" "hd_procs st' = hd_procs st2"
    using st3 by auto
  have "map snd (zip [0..<4] T) = T"
    using len by simp
  then have "filter (\<lambda>(i, e). sys_id e \<noteq> NO_PART) (zip [0..<4] T) \<noteq> []"
    using assms(5) unfolding filter_empty_conv by (metis (mono_tags, lifting) case_prod_unfold imageE list.set_map)
  then have pp: "partition_primary A 0 st2 = Inr st'"
    using st3(1) st'(1) by (simp add: partition_primary_def Let_def DRV_OF_DEV_def)
  have "open_cnt (hd0 st1) = 0"
    using st1(2) assms(2) by simp
  then have "hd_open A dev junk st = Inr st'"
    using st1(1) pp assms(1) by (simp add: hd_open_def Let_def flip: st2_def)
  then show ?thesis
    using st' st1 by (simp add: st2_def)
qed

end

lemma sectors_from_nth:
  assumes "\<And>n. length (S n) = 512" "i < 512 * k"
  shows "sectors_from S l k ! i = S (l + i div 512) ! (i mod 512)"
  using assms(2)
proof (induction k arbitrary: l i)
  case (Suc k)
  show ?case
  proof (cases "i < 512")
    case False
    then have "(i - 512) div 512 = i div 512 - 1" "(i - 512) mod 512 = i mod 512" "0 < i div 512"
      by (simp_all add: le_div_geq le_mod_geq)
    then show ?thesis
      using Suc.IH [of "i - 512" "Suc l"] Suc.prems False by (simp add: sectors_from_Suc nth_append assms(1))
  qed (simp add: sectors_from_Suc nth_append assms(1))
qed simp

lemma length_sectors_from: "(\<And>n. length (S n) = 512) \<Longrightarrow> length (sectors_from S l k) = 512 * k"
  by (induction k arbitrary: l) (simp_all add: sectors_from_Suc)

text \<open>Memory cut into sectors and put together again.\<close>

lemma sectors_from_mem:
  assumes "q \<le> k"
  shows "sectors_from (\<lambda>j. if l \<le> j \<and> j < l + k then mem_bytes m (la + of_nat (512 * (j - l))) 512 else S j) l q
     = mem_bytes m la (512 * q)"
  using assms
proof (induction q)
  case (Suc q)
  then show ?case
    using mem_bytes_split [of "512 * q" "512 * Suc q" m la] by (simp add: sectors_from_snoc)
qed (simp add: mem_bytes_def)

section \<open>An array of sectors\<close>

record disk_array =
  da_data :: "nat \<Rightarrow> u8 list"
  da_ident :: "u8 list"
  da_xfer :: xfer

definition fit512 :: "u8 list \<Rightarrow> u8 list" where
  "fit512 bs = take 512 (bs @ replicate 512 0)"

definition da_sect :: "disk_array \<Rightarrow> nat \<Rightarrow> u8 list" where
  "da_sect d n = fit512 (da_data d n)"

definition da_cmd :: "hd_cmd \<Rightarrow> disk_array \<Rightarrow> disk_array option" where
  "da_cmd c d =
     (if command c = ATA_IDENTIFY then Some (d\<lparr>da_xfer := Identifying\<rparr>)
      else if command c = ATA_READ then Some (d\<lparr>da_xfer := Reading (cmd_lba c) (cmd_sectors c)\<rparr>)
      else if command c = ATA_WRITE then Some (d\<lparr>da_xfer := Writing (cmd_lba c) (cmd_sectors c)\<rparr>)
      else None)"

definition da_read :: "disk_array \<Rightarrow> (u8 list \<times> disk_array) option" where
  "da_read d =
     (case da_xfer d of
        Identifying \<Rightarrow> Some (fit512 (da_ident d), d\<lparr>da_xfer := Idle\<rparr>)
      | Reading l (Suc n) \<Rightarrow> Some (da_sect d l, d\<lparr>da_xfer := Reading (Suc l) n\<rparr>)
      | _ \<Rightarrow> None)"

definition da_drq :: "disk_array \<Rightarrow> bool" where
  "da_drq d = (case da_xfer d of Writing l (Suc n) \<Rightarrow> True | _ \<Rightarrow> False)"

definition da_write :: "u8 list \<Rightarrow> disk_array \<Rightarrow> disk_array option" where
  "da_write bs d =
     (case da_xfer d of
        Writing l (Suc n) \<Rightarrow>
          if length bs < 512 then None else Some (d\<lparr>da_data := (da_data d)(l := bs), da_xfer := Writing (Suc l) n\<rparr>)
      | _ \<Rightarrow> None)"

definition array_dev :: "disk_array ata_dev" where
  "array_dev = \<lparr>dev_cmd = da_cmd, dev_read = da_read, dev_drq = da_drq, dev_write = da_write\<rparr>"

lemma length_fit512 [simp]: "length (fit512 bs) = 512"
  by (simp add: fit512_def)

lemma fit512_id [simp]: "length bs = 512 \<Longrightarrow> fit512 bs = bs"
  by (simp add: fit512_def)

interpretation da: ata_drive array_dev da_sect da_xfer "\<lambda>d. fit512 (da_ident d)" cap for cap
proof unfold_locales
  show "dev_drq array_dev d \<longleftrightarrow> (\<exists>l n. da_xfer d = Writing l (Suc n))" for d
    by (simp add: array_dev_def da_drq_def split: xfer.split nat.split)
qed (auto simp: array_dev_def da_sect_def da_cmd_def da_read_def da_write_def fun_eq_iff)

end
