(* ===== verification/Storage.thy ===== *)
theory Storage
  imports Disk Boot
begin

text \<open>
  The properties of the disk driver, for every drive that keeps the contract \<open>ata_drive\<close>, and their
  instances on the array drive.
\<close>

section \<open>Transfers\<close>

text \<open>
  C27. What is written is read back: a write request of \<open>k\<close> whole sectors (at most 256) and a read request
  of \<open>n\<close> bytes from the same place both return, the reader's buffer then holds exactly the bytes that
  the writer's buffer held, no other byte of memory changes, and no sector outside the request changes.
\<close>
theorem hd_write_read:
  assumes "ata_drive A sect pend ident cap" "mtype w = DEV_WRITE" "request_at st w l la"
    "CNT w = int (512 * k)" "0 < k" "k \<le> 256" "l + k \<le> cap"
    "va2la (hd_procs st) (PROC_NR w) va = Inr la'" "0 < n" "n \<le> 512 * k"
  shows "\<exists>st1 st2. hd_rdwt A w st = Inr st1 \<and>
     hd_rdwt A (w\<lparr>mtype := DEV_READ, m3i2 := int n, m3p2 := va\<rparr>) st1 = Inr st2 \<and>
     hd_mem st2 = write_bytes la' (mem_bytes (hd_mem st) la n) (hd_mem st) \<and>
     (\<forall>j. j < l \<or> l + k \<le> j \<longrightarrow> sect (drive st2) j = sect (drive st) j)"
proof -
  let ?r = "w\<lparr>mtype := DEV_READ, m3i2 := int n, m3p2 := va\<rparr>"
  obtain st1 where st1: "hd_rdwt A w st = Inr st1"
      "sect (drive st1) = (\<lambda>j. if l \<le> j \<and> j < l + k then mem_bytes (hd_mem st) (la + of_nat (512 * (j - l))) 512
                             else sect (drive st) j)"
      "hd_mem st1 = hd_mem st" "hd0 st1 = hd0 st" "hd_procs st1 = hd_procs st"
    using ata_drive.rdwt_write [OF assms(1-7)] by blast
  have r: "request_at st1 ?r l la'"
    using assms(3,8) st1(4,5) by (simp add: request_at_def)
  have q: "request_sectors ?r \<le> k" "n \<le> 512 * request_sectors ?r" "int n \<le> 131072"
    using assms(6,10) by (auto simp: request_sectors_def)
  obtain st2 where st2: "hd_rdwt A ?r st1 = Inr st2"
      "hd_mem st2 = write_bytes la' (take n (sectors_from (sect (drive st1)) l (request_sectors ?r))) (hd_mem st1)"
      "sect (drive st2) = sect (drive st1)"
    using ata_drive.rdwt_read [OF assms(1) _ r] q assms(7,9) by auto
  have "hd_mem st2 = write_bytes la' (mem_bytes (hd_mem st) la n) (hd_mem st)"
    unfolding st2(2) st1(2,3) sectors_from_mem [OF q(1)] take_mem_bytes [OF q(2)] by (rule refl)
  moreover have "\<forall>j. j < l \<or> l + k \<le> j \<longrightarrow> sect (drive st2) j = sect (drive st) j"
    unfolding st2(3) st1(2) by auto
  ultimately show ?thesis
    using st1(1) st2(1) by blast
qed

text \<open>An array drive with two partitions, and a write request for the second from a native process.\<close>

definition hd_state0 :: "disk_array hd_state" where
  "hd_state0 = \<lparr>drive = \<lparr>da_data = (\<lambda>n. [of_nat n]), da_ident = [], da_xfer = Idle\<rparr>, hdbuf = replicate 1024 0,
     hd0 = \<lparr>open_cnt = 1, primary = (\<lambda>i. \<lparr>pbase = of_nat (1000 * i), psize = 1000\<rparr>), logical = (\<lambda>i. \<lparr>pbase = 0, psize = 0\<rparr>)\<rparr>,
     hd_mem = (\<lambda>a. ucast (drop_bit 16 a)), hd_procs = (\<lambda>_. zero_process)\<rparr>"

definition write_msg0 :: MESSAGE where
  "write_msg0 = reset_msg\<lparr>mtype := DEV_WRITE, m3i2 := 1024, m3i3 := TASK_FS, m3i4 := 2, m3l1 := 0xA00, m3p2 := 0x600000\<rparr>"

lemma va2la0 [simp]: "va2la (\<lambda>_. zero_process) i a = Inr a"
  by (simp add: va2la_def zero_process_def ldt_seg_linear_def descriptor_base_def zero_descriptor_def)

lemma request0: "request_at hd_state0 write_msg0 2005 0x600000"
  by (simp add: request_at_def write_msg0_def reset_msg_def part_of_dev_def dev_sector_def DRV_OF_DEV_def
    signed_divide_int_def hd_state0_def)

theorem hd_write_read_witness:
  "\<exists>st1 st2. hd_rdwt array_dev write_msg0 hd_state0 = Inr st1 \<and>
     hd_rdwt array_dev (write_msg0\<lparr>mtype := DEV_READ, m3i2 := int 700, m3p2 := 0x700000\<rparr>) st1 = Inr st2 \<and>
     hd_mem st2 0x7002BB = 0x60 \<and> da_sect (drive st2) 2007 = da_sect (drive hd_state0) 2007"
proof -
  define m where "m = write_bytes 0x700000 (mem_bytes (hd_mem hd_state0) 0x600000 700) (hd_mem hd_state0)"
  have "\<exists>st1 st2. hd_rdwt array_dev write_msg0 hd_state0 = Inr st1 \<and>
     hd_rdwt array_dev (write_msg0\<lparr>mtype := DEV_READ, m3i2 := int 700, m3p2 := 0x700000\<rparr>) st1 = Inr st2 \<and>
     hd_mem st2 = m \<and>
     (\<forall>j. j < 2005 \<or> 2005 + 2 \<le> j \<longrightarrow> da_sect (drive st2) j = da_sect (drive hd_state0) j)"
    unfolding m_def
    by (rule hd_write_read [OF da.ata_drive_axioms [of 3000] _ request0]) (simp_all add: write_msg0_def reset_msg_def hd_state0_def)
  then obtain st1 st2 where st: "hd_rdwt array_dev write_msg0 hd_state0 = Inr st1"
      "hd_rdwt array_dev (write_msg0\<lparr>mtype := DEV_READ, m3i2 := int 700, m3p2 := 0x700000\<rparr>) st1 = Inr st2" "hd_mem st2 = m"
      "\<forall>j. j < 2005 \<or> 2005 + 2 \<le> j \<longrightarrow> da_sect (drive st2) j = da_sect (drive hd_state0) j"
    by blast
  have "m (0x700000 + of_nat 699) = 0x60"
    unfolding m_def by (subst write_bytes_read) (simp_all add: hd_state0_def)
  moreover have "da_sect (drive st2) 2007 = da_sect (drive hd_state0) 2007"
    by (rule st(4) [rule_format]) simp
  ultimately show ?thesis
    using st(1-3) by (intro exI [of _ st1] exI [of _ st2]) simp
qed

text \<open>
  C28. A read request of more than 256 sectors never returns: \<^verbatim>\<open>cmd.count\<close> has 8 bits, so the drive is asked
  for fewer sectors than the loop waits for.
\<close>
theorem hd_read_too_long:
  assumes "ata_drive A sect pend ident cap" "mtype msg = DEV_READ" "request_at st msg l la"
    "131072 < CNT msg" "l + 256 \<le> cap"
  shows "hd_rdwt A msg st = Inl Hang"
  using ata_drive.rdwt_read_hangs [OF assms] .

theorem hd_read_too_long_witness:
  "hd_rdwt array_dev (write_msg0\<lparr>mtype := DEV_READ, m3i2 := 131073\<rparr>) hd_state0 = Inl Hang"
  by (rule hd_read_too_long [OF da.ata_drive_axioms [of 3000], where l = 2005 and la = "0x600000"])
    (use request0 in \<open>simp_all add: request_at_def write_msg0_def\<close>)

section \<open>Partitions\<close>

text \<open>
  C29. The first open of the drive finds the partitions of the disk: every used entry of the table in
  sector 0 becomes a primary partition, an extended one contributes the chain of its logical partitions
  (at most 16) at its own row of the table, everything else stays, and the disk is only read.
\<close>
theorem hd_open_partitions:
  assumes "ata_drive A sect pend ident cap" "DRV_OF_DEV dev = 0" "open_cnt (hd0 st) = 0" "0 < cap"
    "T = part_table (sect (drive st)) 0" "\<exists>e \<in> set T. sys_id e \<noteq> NO_PART"
    "\<forall>e \<in> set T. sys_id e = EXT_PART \<longrightarrow> chain_within (sect (drive st)) cap (start_sect e) 16 (start_sect e)"
  shows "\<exists>st'. hd_open A dev junk st = Inr st' \<and> open_cnt (hd0 st') = 1 \<and>
     primary (hd0 st') 0 = \<lparr>pbase = 0, psize = ident_size (ident (drive st))\<rparr> \<and>
     (\<forall>i < 4. primary (hd0 st') (Suc i) =
        (if sys_id (T ! i) = NO_PART then primary (hd0 st) (Suc i)
         else \<lparr>pbase = start_sect (T ! i), psize = nr_sects (T ! i)\<rparr>)) \<and>
     (\<forall>i < 4. \<forall>j < 16. logical (hd0 st') (16 * i + j) =
        (let chain = ext_chain (sect (drive st)) (start_sect (T ! i)) 16 (start_sect (T ! i))
         in if sys_id (T ! i) = EXT_PART \<and> j < length chain then chain ! j else logical (hd0 st) (16 * i + j))) \<and>
     sect (drive st') = sect (drive st) \<and> hd_mem st' = hd_mem st"
proof -
  obtain st' h where st': "hd_open A dev junk st = Inr st'"
      "hd0 st' = fold (\<lambda>(i, e). scan_entry (sect (drive st)) i e) (zip [0..<4] T) h"
      "h = (hd0 st)\<lparr>primary := (primary (hd0 st))(0 := \<lparr>pbase = 0, psize = ident_size (ident (drive st))\<rparr>), open_cnt := 1\<rparr>"
      "sect (drive st') = sect (drive st)" "hd_mem st' = hd_mem st"
    using ata_drive.hd_open_first [OF assms] by blast
  have len: "length T = 4"
    by (simp add: assms(5) part_table_def)
  then have d: "distinct (map fst (zip [0..<4] T))"
    by simp
  have m: "map_of (zip [0..<4] T) i = Some (T ! i)" if "i < 4" for i
    using map_of_zip_nth [of "[0..<4]" T i] that len by simp
  show ?thesis
    using st' by (auto simp: scan_primary [OF d] scan_logical [OF d] scan_rest m Let_def)
qed

text \<open>A disk with a plain partition at sector 16 and an extended one at 100 with two logical partitions.\<close>

definition entry_bytes :: "u8 \<Rightarrow> u32 \<Rightarrow> u32 \<Rightarrow> u8 list" where
  "entry_bytes sys start n = [0x80, 0, 0, 0, sys, 0, 0, 0] @ bytes_of start @ bytes_of n"

definition table_bytes :: "u8 list \<Rightarrow> u8 list \<Rightarrow> u8 list \<Rightarrow> u8 list \<Rightarrow> u8 list" where
  "table_bytes e f g h = replicate 446 0 @ e @ f @ g @ h @ replicate 2 0"

definition disk0 :: disk_array where
  "disk0 = \<lparr>da_data = (\<lambda>_. [])(
      0 := table_bytes (entry_bytes 0x83 16 50) (entry_bytes 5 100 900) (entry_bytes 0 0 0) (entry_bytes 0 0 0),
      100 := table_bytes (entry_bytes 0x83 1 40) (entry_bytes 5 60 50) (entry_bytes 0 0 0) (entry_bytes 0 0 0),
      160 := table_bytes (entry_bytes 0x83 1 49) (entry_bytes 0 0 0) (entry_bytes 0 0 0) (entry_bytes 0 0 0)),
      da_ident = [], da_xfer = Idle\<rparr>"

lemma length_entry_bytes [simp]: "length (entry_bytes sys a n) = 16"
  by (simp add: entry_bytes_def)

lemma part_table_bytes:
  assumes "D (unat s mod 2 ^ 28) = table_bytes e f g h" "length e = 16" "length f = 16" "length g = 16" "length h = 16"
  shows "part_table (\<lambda>n. fit512 (D n)) s = map (\<lambda>e. part_ent_at (replicate 446 0 @ e) 0) [e, f, g, h]"
proof -
  have "fit512 (table_bytes e f g h) = table_bytes e f g h"
    using assms by (simp add: table_bytes_def)
  moreover have "part_ent_at (table_bytes e f g h) i = part_ent_at (replicate 446 0 @ [e, f, g, h] ! i) 0" if "i < 4" for i
  proof -
    have "i = 0 \<or> i = 1 \<or> i = 2 \<or> i = 3"
      using that by linarith
    then show ?thesis
      using assms(2-5) by (elim disjE) (simp_all add: part_ent_at_def table_bytes_def Let_def nth_append)
  qed
  moreover have "[0..<4] = [0, 1, 2, 3 :: nat]"
    by (simp add: upt_rec)
  ultimately show ?thesis
    using assms(1) by (simp add: part_table_def)
qed

lemma entry_bytes_fields:
  "sys_id (part_ent_at (replicate 446 0 @ entry_bytes sys a n) 0) = sys"
  "start_sect (part_ent_at (replicate 446 0 @ entry_bytes sys a n) 0) = a"
  "nr_sects (part_ent_at (replicate 446 0 @ entry_bytes sys a n) 0) = n"
  by (simp_all add: part_ent_at_def entry_bytes_def Let_def bytes_of_def)

lemma disk0_tables:
  "part_table (da_sect disk0) 0 = map (\<lambda>e. part_ent_at (replicate 446 0 @ e) 0)
     [entry_bytes 0x83 16 50, entry_bytes 5 100 900, entry_bytes 0 0 0, entry_bytes 0 0 0]"
  "part_table (da_sect disk0) 100 = map (\<lambda>e. part_ent_at (replicate 446 0 @ e) 0)
     [entry_bytes 0x83 1 40, entry_bytes 5 60 50, entry_bytes 0 0 0, entry_bytes 0 0 0]"
  "part_table (da_sect disk0) 160 = map (\<lambda>e. part_ent_at (replicate 446 0 @ e) 0)
     [entry_bytes 0x83 1 49, entry_bytes 0 0 0, entry_bytes 0 0 0, entry_bytes 0 0 0]"
  by (rule part_table_bytes [of "da_data disk0", folded da_sect_def]; simp add: disk0_def)+

lemma disk0_chain:
  "ext_chain (da_sect disk0) 100 16 100 = [\<lparr>pbase = 101, psize = 40\<rparr>, \<lparr>pbase = 161, psize = 49\<rparr>]"
  "chain_within (da_sect disk0) 1000 100 16 100"
proof -
  have "ext_chain (da_sect disk0) 100 (Suc (Suc 14)) 100 = [\<lparr>pbase = 101, psize = 40\<rparr>, \<lparr>pbase = 161, psize = 49\<rparr>]"
    "chain_within (da_sect disk0) 1000 100 (Suc (Suc 14)) 100"
    unfolding ext_chain.simps chain_within.simps by (simp_all add: disk0_tables entry_bytes_fields)
  then show "ext_chain (da_sect disk0) 100 16 100 = [\<lparr>pbase = 101, psize = 40\<rparr>, \<lparr>pbase = 161, psize = 49\<rparr>]"
    "chain_within (da_sect disk0) 1000 100 16 100"
    by simp_all
qed

theorem hd_open_partitions_witness:
  "\<exists>st'. hd_open array_dev 0 (lba_cmd 0 0 0 0) (hd_state0\<lparr>drive := disk0, hd0 := (hd0 hd_state0)\<lparr>open_cnt := 0\<rparr>\<rparr>) = Inr st' \<and>
     primary (hd0 st') 1 = \<lparr>pbase = 16, psize = 50\<rparr> \<and> primary (hd0 st') (Suc 1) = \<lparr>pbase = 100, psize = 900\<rparr> \<and>
     logical (hd0 st') 16 = \<lparr>pbase = 101, psize = 40\<rparr> \<and> logical (hd0 st') 17 = \<lparr>pbase = 161, psize = 49\<rparr>"
proof -
  have c: "part_table (da_sect disk0) 0 ! 1 = part_ent_at (replicate 446 0 @ entry_bytes 5 100 900) 0"
      "part_table (da_sect disk0) 0 ! 0 = part_ent_at (replicate 446 0 @ entry_bytes 0x83 16 50) 0"
    by (simp_all add: disk0_tables)
  from hd_open_partitions [OF da.ata_drive_axioms [of 1000], of 0 "hd_state0\<lparr>drive := disk0, hd0 := (hd0 hd_state0)\<lparr>open_cnt := 0\<rparr>\<rparr>"
      "part_table (da_sect disk0) 0" "lba_cmd 0 0 0 0"]
  obtain st' where st': "hd_open array_dev 0 (lba_cmd 0 0 0 0) (hd_state0\<lparr>drive := disk0, hd0 := (hd0 hd_state0)\<lparr>open_cnt := 0\<rparr>\<rparr>) = Inr st'"
     "\<And>i. i < 4 \<Longrightarrow> primary (hd0 st') (Suc i) =
        (if sys_id (part_table (da_sect disk0) 0 ! i) = NO_PART then primary (hd0 hd_state0) (Suc i)
         else \<lparr>pbase = start_sect (part_table (da_sect disk0) 0 ! i), psize = nr_sects (part_table (da_sect disk0) 0 ! i)\<rparr>)"
     "\<And>i j. i < 4 \<Longrightarrow> j < 16 \<Longrightarrow> logical (hd0 st') (16 * i + j) =
        (let e = part_table (da_sect disk0) 0 ! i; chain = ext_chain (da_sect disk0) (start_sect e) 16 (start_sect e)
         in if sys_id e = EXT_PART \<and> j < length chain then chain ! j else logical (hd0 hd_state0) (16 * i + j))"
    using disk0_chain(2) by (auto simp: disk0_tables entry_bytes_fields DRV_OF_DEV_def Let_def)
  show ?thesis
    using st'(1) st'(2) [of 0] st'(2) [of 1] st'(3) [of 1 0] st'(3) [of 1 1]
    by (simp add: c [simplified] entry_bytes_fields disk0_chain)
qed

end
