(* ===== verification/Files.thy ===== *)
theory Files
  imports Fs_Lemmas Storage
begin

text \<open>
  The properties of the file system.
\<close>

section \<open>The disk behind the file system\<close>

text \<open>
  The state of the file system and of the driver show the same sectors: the buffer is the memory at
  6 MB, and the disk of the root device is the partition (its first \<open>N\<close> sectors) on the drive.
\<close>

definition same_disk :: "('d \<Rightarrow> nat \<Rightarrow> u8 list) \<Rightarrow> nat \<Rightarrow> fs_state \<Rightarrow> 'd hd_state \<Rightarrow> bool" where
  "same_disk sect N st hs \<longleftrightarrow>
     (\<forall>i < 0x100000. fsbuf st i = hd_mem hs (0x600000 + of_nat i)) \<and>
     (\<forall>k < 512 * N. fs_disk st (MINOR ROOT_DEV) k =
        sect (drive hs) (unat (pbase (logical (hd0 hs) 16)) + k div 512) ! (k mod 512))"

lemma and_1FF: "(w :: u64) AND 0x1FF = take_bit 9 w"
  using take_bit_eq_mask [of 9 w] by (simp add: mask_eq_exp_minus_1)

lemma sector_position:
  assumes "q < 2 ^ 28"
  shows "(of_int (512 * int q) :: u64) AND 0x1ff = 0"
    "(ucast (drop_bit 9 (of_int (512 * int q) :: u64)) :: u32) = of_nat q"
proof -
  have w: "(of_int (512 * int q) :: u64) = of_nat (512 * q)"
    by simp
  have u: "unat (of_nat (512 * q) :: u64) = 512 * q"
    using assms by (simp only: unsigned_of_nat) (simp add: take_bit_nat_eq_self)
  have "unat (take_bit 9 (of_nat (512 * q) :: u64)) = 0"
    unfolding unsigned_take_bit_eq u by (simp add: take_bit_eq_mod)
  then show "(of_int (512 * int q) :: u64) AND 0x1ff = 0"
    unfolding w and_1FF unat_eq_zero .
  have "unat (drop_bit 9 (of_nat (512 * q) :: u64)) = q"
    unfolding unat_drop_bit_eq u by (simp add: drop_bit_eq_div)
  moreover have "drop_bit 9 (of_nat (512 * q) :: u64) = of_nat (unat (drop_bit 9 (of_nat (512 * q) :: u64)))"
    by simp
  ultimately have "drop_bit 9 (of_nat (512 * q) :: u64) = of_nat q"
    by simp
  then show "(ucast (drop_bit 9 (of_int (512 * int q) :: u64)) :: u32) = of_nat q"
    unfolding w using assms by (simp add: unsigned_of_nat take_bit_nat_eq_self)
qed

lemma rw_request:
  assumes "unat (pbase (logical (hd0 hs) 16)) + q < 2 ^ 28"
    "va2la (hd_procs hs) TASK_FS 0x600000 = Inr 0x600000"
  shows "request_at hs (rw_msg junk io ROOT_DEV (512 * int q) bytes) (unat (pbase (logical (hd0 hs) 16)) + q) 0x600000"
proof -
  let ?b = "pbase (logical (hd0 hs) 16)"
  have q: "q < 2 ^ 28"
    using assms(1) by simp
  have "unat (of_nat q :: u32) = q"
    using q by (simp add: unsigned_of_nat take_bit_nat_eq_self)
  then have "unat (of_nat q + ?b) mod 2 ^ 28 = unat ?b + q"
    using assms(1) by (subst unat_add_small) simp_all
  then show ?thesis
    using assms(2) sector_position [OF q]
    by (simp add: request_at_def rw_msg_def part_of_dev_def DRV_OF_DEV_def dev_sector_def signed_divide_int_def
      signed_modulo_int_def)
qed

text \<open>Reading and writing whole sectors keep the two in step.\<close>

lemma refines_read:
  assumes A: "ata_drive A sect pend ident cap" and sim: "same_disk sect N st hs"
    and p: "unat (pbase (logical (hd0 hs) 16)) + N \<le> cap" "cap \<le> 2 ^ 28" "q + k \<le> N" "0 < k" "k \<le> 256"
    and la: "va2la (hd_procs hs) TASK_FS 0x600000 = Inr 0x600000"
  shows "\<exists>st' hs'. rw_sector DEV_READ ROOT_DEV (512 * int q) (512 * int k) st = Inr st' \<and>
     hd_rdwt A (rw_msg junk DEV_READ ROOT_DEV (512 * int q) (512 * int k)) hs = Inr hs' \<and> same_disk sect N st' hs' \<and>
     hd0 hs' = hd0 hs \<and> hd_procs hs' = hd_procs hs"
proof -
  define b where "b = unat (pbase (logical (hd0 hs) 16))"
  define m where "m = rw_msg junk DEV_READ ROOT_DEV (512 * int q) (512 * int k)"
  define S where "S = sect (drive hs)"
  have m: "CNT m = 512 * int k" "mtype m = DEV_READ" "request_sectors m = k" "nat (CNT m) = 512 * k"
    by (simp_all add: m_def rw_msg_def request_sectors_def nat_mult_distrib)
  have r: "request_at hs m (b + q) 0x600000"
    unfolding m_def b_def using p la by (intro rw_request) simp_all
  obtain hs' where hs': "hd_rdwt A m hs = Inr hs'"
      "hd_mem hs' = write_bytes 0x600000 (take (512 * k) (sectors_from S (b + q) k)) (hd_mem hs)"
      "sect (drive hs') = S" "hd0 hs' = hd0 hs" "hd_procs hs' = hd_procs hs"
    using ata_drive.rdwt_read [OF A m(2) r] p unfolding m(1,3,4) S_def b_def by (auto simp: nat_mult_distrib)
  have len: "length (S n) = 512" for n
    unfolding S_def by (rule ata_drive.length_sect [OF A])
  have lens: "length (sectors_from S (b + q) k) = 512 * k"
    by (rule length_sectors_from) (rule len)
  define st' where "st' = st\<lparr>fsbuf := copy_range (fs_disk st 32) (512 * q) (fsbuf st) 0 (512 * k)\<rparr>"
  have rw: "rw_sector DEV_READ ROOT_DEV (512 * int q) (512 * int k) st = Inr st'"
    using p by (simp add: rw_sector_def disk_rw_def st'_def nat_mult_distrib)
  have "fsbuf st' i = hd_mem hs' (0x600000 + of_nat i)" if i: "i < 0x100000" for i
  proof (cases "i < 512 * k")
    case True
    have "hd_mem hs' (0x600000 + of_nat i) = sectors_from S (b + q) k ! i"
      unfolding hs'(2) using True lens p by (subst write_bytes_read) simp_all
    also have "\<dots> = S (b + q + i div 512) ! (i mod 512)"
      by (rule sectors_from_nth [OF len True])
    also have "\<dots> = fs_disk st 32 (512 * q + i)"
      using sim p True unfolding same_disk_def b_def S_def by (simp add: add.assoc)
    finally show ?thesis
      using True by (simp add: st'_def copy_range_def)
  next
    case False
    have "hd_mem hs' (0x600000 + of_nat i) = hd_mem hs (0x600000 + of_nat i)"
      unfolding hs'(2)
    proof (rule write_bytes_outside)
      fix j assume "j < length (take (512 * k) (sectors_from S (b + q) k))"
      then have j: "j < 512 * k"
        using lens by simp
      then have "unat (of_nat i :: u32) = i" "unat (of_nat j :: u32) = j"
        using i False by (simp_all add: unsigned_of_nat take_bit_nat_eq_self)
      then show "0x600000 + of_nat i \<noteq> (0x600000 + of_nat j :: u32)"
        using j False by auto
    qed
    then show ?thesis
      using False sim i by (simp add: st'_def copy_range_def same_disk_def)
  qed
  then have "same_disk sect N st' hs'"
    using sim hs'(3,4) unfolding same_disk_def S_def by (simp add: st'_def)
  then show ?thesis
    using rw hs'(1,4,5) unfolding m_def by blast
qed

lemma refines_write:
  assumes A: "ata_drive A sect pend ident cap" and sim: "same_disk sect N st hs"
    and p: "unat (pbase (logical (hd0 hs) 16)) + N \<le> cap" "cap \<le> 2 ^ 28" "q + k \<le> N" "0 < k" "k \<le> 256"
    and la: "va2la (hd_procs hs) TASK_FS 0x600000 = Inr 0x600000"
  shows "\<exists>st' hs'. rw_sector DEV_WRITE ROOT_DEV (512 * int q) (512 * int k) st = Inr st' \<and>
     hd_rdwt A (rw_msg junk DEV_WRITE ROOT_DEV (512 * int q) (512 * int k)) hs = Inr hs' \<and> same_disk sect N st' hs' \<and>
     hd0 hs' = hd0 hs \<and> hd_procs hs' = hd_procs hs"
proof -
  define b where "b = unat (pbase (logical (hd0 hs) 16))"
  define m where "m = rw_msg junk DEV_WRITE ROOT_DEV (512 * int q) (512 * int k)"
  have m: "CNT m = int (512 * k)" "mtype m = DEV_WRITE"
    by (simp_all add: m_def rw_msg_def)
  have r: "request_at hs m (b + q) 0x600000"
    unfolding m_def b_def using p la by (intro rw_request) simp_all
  obtain hs' where hs': "hd_rdwt A m hs = Inr hs'"
      "sect (drive hs') = (\<lambda>j. if b + q \<le> j \<and> j < b + q + k
         then mem_bytes (hd_mem hs) (0x600000 + of_nat (512 * (j - (b + q)))) 512 else sect (drive hs) j)"
      "hd_mem hs' = hd_mem hs" "hd0 hs' = hd0 hs" "hd_procs hs' = hd_procs hs"
    using ata_drive.rdwt_write [OF A m(2) r m(1)] p unfolding b_def by auto
  define st' where "st' = st\<lparr>fs_disk := (fs_disk st)(32 := copy_range (fsbuf st) 0 (fs_disk st 32) (512 * q) (512 * k))\<rparr>"
  have rw: "rw_sector DEV_WRITE ROOT_DEV (512 * int q) (512 * int k) st = Inr st'"
    using p by (simp add: rw_sector_def disk_rw_def st'_def nat_mult_distrib)
  have "fs_disk st' 32 x = sect (drive hs') (b + x div 512) ! (x mod 512)" if x: "x < 512 * N" for x
  proof (cases "q \<le> x div 512 \<and> x div 512 < q + k")
    case True
    define i where "i = x - 512 * q"
    have i: "x = 512 * q + i" "i < 512 * k"
      using True by (auto simp: i_def)
    then have d: "x div 512 = q + i div 512" "x mod 512 = i mod 512"
      by simp_all
    have "of_nat (512 * (i div 512)) + of_nat (i mod 512) = (of_nat i :: u32)"
      unfolding of_nat_add [symmetric] by simp
    then have "512 * of_nat (i div 512) + of_nat (i mod 512) = (of_nat i :: u32)"
      by simp
    then show ?thesis
      using sim i(2) p True unfolding hs'(2) same_disk_def st'_def d
      by (simp add: i(1) copy_range_def add.assoc)
  next
    case False
    then have "\<not> (512 * q \<le> x \<and> x < 512 * q + 512 * k)"
      by auto
    then show ?thesis
      using False sim x unfolding hs'(2) same_disk_def st'_def b_def by (auto simp: copy_range_def)
  qed
  then have "same_disk sect N st' hs'"
    using sim hs'(3,4) unfolding same_disk_def b_def by (simp add: st'_def)
  then show ?thesis
    using rw hs'(1,4,5) unfolding m_def by blast
qed

text \<open>
  C38. The disk driver implements the sector requests of the file system. When the drive keeps its contract
  and the two states show the same disk, a request of the file system for up to 256 sectors of the root
  partition and the driver's handling of the message that asks for it both return, and the resulting
  states show the same disk and buffer again.
\<close>
theorem rw_sector_refines:
  assumes "ata_drive A sect pend ident cap" "same_disk sect N st hs" "io = DEV_READ \<or> io = DEV_WRITE"
    "unat (pbase (logical (hd0 hs) 16)) + N \<le> cap" "cap \<le> 2 ^ 28" "q + k \<le> N" "0 < k" "k \<le> 256"
    "va2la (hd_procs hs) TASK_FS 0x600000 = Inr 0x600000"
  shows "\<exists>st' hs'. rw_sector io ROOT_DEV (512 * int q) (512 * int k) st = Inr st' \<and>
     hd_rdwt A (rw_msg junk io ROOT_DEV (512 * int q) (512 * int k)) hs = Inr hs' \<and> same_disk sect N st' hs' \<and>
     hd0 hs' = hd0 hs \<and> hd_procs hs' = hd_procs hs"
  using assms(3)
proof
  assume "io = DEV_READ"
  then show ?thesis
    using refines_read [OF assms(1,2,4-9)] by simp
next
  assume "io = DEV_WRITE"
  then show ?thesis
    using refines_write [OF assms(1,2,4-9)] by simp
qed

text \<open>
  The driver's answer to the request for the partition of the root device goes to the address that the
  message's \<^verbatim>\<open>PROC_NR\<close> makes of that of \<^verbatim>\<open>geo\<close>, and nowhere else.
\<close>

lemma mem_bytes_append: "mem_bytes m a (i + j) = mem_bytes m a i @ mem_bytes m (a + of_nat i) j"
  by (rule nth_equalityI) (auto simp: nth_append add.assoc simp flip: of_nat_add)

lemma geo_at_write: "geo_at (write_bytes a (bytes_of (pbase g) @ bytes_of (psize g)) m) a = g"
proof -
  have "mem_bytes (write_bytes a (bytes_of (pbase g) @ bytes_of (psize g)) m) a (4 + 4) = bytes_of (pbase g) @ bytes_of (psize g)"
    using mem_bytes_write_bytes [of "bytes_of (pbase g) @ bytes_of (psize g)" a m] by simp
  then have "mem_bytes (write_bytes a (bytes_of (pbase g) @ bytes_of (psize g)) m) a 4 = bytes_of (pbase g)"
    "mem_bytes (write_bytes a (bytes_of (pbase g) @ bytes_of (psize g)) m) (a + 4) 4 = bytes_of (psize g)"
    unfolding mem_bytes_append by simp_all
  then show ?thesis
    by (simp add: geo_at_def) (simp add: bytes_of_def)
qed

lemma geo_reply:
  assumes "va2la (hd_procs hs) (PROC_NR junk) buf = Inr a"
  shows "\<exists>hs'. hd_ioctl (geo_msg junk buf) hs = Inr hs' \<and> geo_at (hd_mem hs') a = logical (hd0 hs) 16 \<and>
     (\<forall>x. (\<forall>i < 8. x \<noteq> a + of_nat i) \<longrightarrow> hd_mem hs' x = hd_mem hs x)"
  using assms
  by (simp add: hd_ioctl_def geo_msg_def part_of_dev_def geo_at_write DRV_OF_DEV_def signed_modulo_int_def signed_divide_int_def)
    (auto intro!: write_bytes_outside)

text \<open>
  A file system on the array drive: the root directory, and a regular file of 50 bytes that process 7 has
  open as file 0.
\<close>

definition sb0 :: super_block where
  "sb0 = \<lparr>magic = MAGIC_V1, nr_inodes = 4096, sb_nr_sects = 10000, nr_imap_sects = 1, nr_smap_sects = 3, n_1st_sect = 262,
     nr_inode_sects = 256, sb_root_inode = 1, inode_size = 32, inode_iszie_off = 4, inode_start_off = 8, dir_ent_size = 0,
     dir_ent_inode_off = 0, dir_ent_fname_off = 4, sb_dev = ROOT_DEV\<rparr>"

definition root0 :: inode where
  "root0 = \<lparr>i_mode = I_DIRECTORY, i_size = 96, i_start_sect = 262, i_nr_sects = 2048, i_dev = ROOT_DEV, i_cnt = 1, i_num = 1\<rparr>"

definition file0 :: inode where
  "file0 = \<lparr>i_mode = I_REGULAR, i_size = 50, i_start_sect = 2310, i_nr_sects = 2048, i_dev = ROOT_DEV, i_cnt = 1, i_num = 6\<rparr>"

definition fs0 :: fs_state where
  "fs0 = \<lparr>fs_procs = (\<lambda>_. zero_process)(7 := zero_process\<lparr>filp := (\<lambda>_. None)(0 := Some 0)\<rparr>),
     fd_table = (\<lambda>_. zero_fd)(0 := \<lparr>fd_mode = O_RDWR, fd_pos = 20, fd_cnt = 1, fd_inode = Some 1\<rparr>),
     inode_table = (\<lambda>_. zero_inode)(0 := root0, 1 := file0), super_blocks = (\<lambda>_. sb0), root_inode = 0, fs_sb = sb0,
     fsbuf = (\<lambda>i. hd_mem hd_state0 (0x600000 + of_nat i)),
     fs_disk = (\<lambda>_ k. da_sect (drive hd_state0) (k div 512) ! (k mod 512)),
     fs_mem = (\<lambda>a. ucast (drop_bit 16 a)), fs_sent = []\<rparr>"

theorem rw_sector_refines_witness:
  "\<exists>st' hs'. rw_sector DEV_WRITE ROOT_DEV (512 * int 300) (512 * int 2) fs0 = Inr st' \<and>
     hd_rdwt array_dev (rw_msg reset_msg DEV_WRITE ROOT_DEV (512 * int 300) (512 * int 2)) hd_state0 = Inr hs' \<and>
     same_disk da_sect 2000 st' hs' \<and> hd0 hs' = hd0 hd_state0 \<and> hd_procs hs' = hd_procs hd_state0"
  by (rule rw_sector_refines [OF da.ata_drive_axioms [of 3000]])
    (simp_all add: same_disk_def fs0_def hd_state0_def)

section \<open>Reading what was written\<close>

text \<open>
  A regular file that process \<open>pid\<close> has open for reading and writing as \<open>fd\<close>: descriptor \<open>k\<close>, inode \<open>p\<close>, at
  position \<open>pos\<close>, with its data behind the inode array.
\<close>

definition open_plain :: "int \<Rightarrow> int \<Rightarrow> nat \<Rightarrow> nat \<Rightarrow> nat \<Rightarrow> fs_state \<Rightarrow> bool" where
  "open_plain pid fd k p pos st \<longleftrightarrow>
     0 \<le> fd \<and> fd < int NR_FILES \<and> open_file pid fd st = Inr (k, p) \<and> fd_mode (fd_table st k) AND O_RDWR \<noteq> 0 \<and>
     fd_pos (fd_table st k) = int pos \<and> i_mode (inode_table st p) = I_REGULAR \<and> plain_file k p st \<and>
     layout_ok (super_blocks st 0) \<and> inode_ok (super_blocks st 0) (i_num (inode_table st p)) \<and>
     unat (n_1st_sect (super_blocks st 0)) \<le> unat (i_start_sect (inode_table st p))"

lemma open_file_keeps:
  assumes "fs_procs st' = fs_procs st" "\<And>k. fd_inode (fd_table st' k) = fd_inode (fd_table st k)"
  shows "open_file pid fd st' = open_file pid fd st"
  using assms by (simp add: open_file_def split: option.split)

lemma same_super_layout:
  assumes "same_super st st'"
  shows "layout_ok (super_blocks st' 0) = layout_ok (super_blocks st 0)"
    "inode_ok (super_blocks st' 0) n = inode_ok (super_blocks st 0) n"
    "n_1st_sect (super_blocks st' 0) = n_1st_sect (super_blocks st 0)"
proof -
  have "(super_blocks st' 0)\<lparr>sb_dev := 0\<rparr> = (super_blocks st 0)\<lparr>sb_dev := 0\<rparr>"
    using assms by (simp add: same_super_def)
  then show "layout_ok (super_blocks st' 0) = layout_ok (super_blocks st 0)"
      "inode_ok (super_blocks st' 0) n = inode_ok (super_blocks st 0) n"
      "n_1st_sect (super_blocks st' 0) = n_1st_sect (super_blocks st 0)"
    by (metis layout_sb_dev(1), metis layout_sb_dev(2), metis super_block.simps(6) super_block.ext_inject super_block.surjective super_block.update_convs(15))
qed

lemma lseek_set:
  assumes "open_plain pid fd k p pos0 st" "pos < 512 * unat (i_nr_sects (inode_table st p))"
    "FD msg = fd" "OFFSET msg = int pos" "WHENCE msg = SEEK_SET"
  shows "do_lseek pid msg st = Inr (int pos, upd_fd k (\<lambda>x. x\<lparr>fd_pos := int pos\<rparr>) st)"
proof -
  define nr where "nr = i_nr_sects (inode_table st p)"
  have o: "0 \<le> fd" "fd < 64" "open_file pid fd st = Inr (k, p)" "i_mode (inode_table st p) = I_REGULAR"
    using assms(1) by (simp_all add: open_plain_def)
  have "unat nr < 2 ^ 21"
    using assms(1) by (simp add: open_plain_def plain_file_def Let_def nr_def)
  then have m: "unat (nr * 512) = 512 * unat nr"
    by (simp add: unat_mult_small)
  have "unat (nr * 512 - 1) = 512 * unat nr - 1"
    using m assms(2) by (subst unat_sub_small) (simp_all add: nr_def)
  then have "sint (nr * 512 - 1) = int (512 * unat nr - 1)"
    using sint_small [of "nr * 512 - 1"] \<open>unat nr < 2 ^ 21\<close> by simp
  then have "int pos \<le> sint (nr * 512 - 1)"
    using assms(2) unfolding nr_def by linarith
  then have "SET_RANGE (int pos) 0 (sint (nr * 512 - 1)) = int pos"
    by (simp add: SET_RANGE_def)
  then show ?thesis
    using o assms(3-5) by (simp add: do_lseek_def Let_def flip: nr_def)
qed

text \<open>
  A write of \<open>n\<close> bytes that fits into the file and into 255 sectors, a seek back and a read of \<open>n\<close> bytes, as
  the requests \<open>w\<close>, \<open>s\<close> and \<open>r\<close> to the file system.
\<close>

lemma rdwt_roundtrip:
  assumes "open_plain pid (FD w) k p pos st" "x = inode_table st p" "mtype w = WRITE" "source w = pid" "CNT w = int n" "0 < n"
    "pos + n \<le> 512 * unat (i_nr_sects x)" "pos mod 512 + n \<le> 130560"
    "va2la (fs_procs st) pid (BUF w) = Inr la" "va2la (fs_procs st) pid (BUF r) = Inr la'"
    and s: "FD s = FD w" "OFFSET s = int pos" "WHENCE s = SEEK_SET"
    and r: "FD r = FD w" "mtype r = READ" "source r = pid" "CNT r = int n"
  shows "\<exists>st1 st2 st3. do_rdwt pid ans w st = Inr (int n, w, st1) \<and> do_lseek pid s st1 = Inr (int pos, st2) \<and>
     do_rdwt pid ans r st2 = Inr (int n, r, st3) \<and>
     fs_mem st3 = write_bytes la' (mem_bytes (fs_mem st) la n) (fs_mem st) \<and>
     (\<forall>a \<ge> 512 * unat (n_1st_sect (super_blocks st 0)).
        a < data_addr x + pos \<or> data_addr x + pos + n \<le> a \<longrightarrow> fs_disk st3 32 a = fs_disk st 32 a)"
proof -
  have o: "0 \<le> FD w" "FD w < 64" "open_file pid (FD w) st = Inr (k, p)" "fd_mode (fd_table st k) AND O_RDWR \<noteq> 0"
      "fd_pos (fd_table st k) = int pos" "i_mode x = I_REGULAR" "plain_file k p st" "layout_ok (super_blocks st 0)"
      "inode_ok (super_blocks st 0) (i_num x)" "unat (n_1st_sect (super_blocks st 0)) \<le> unat (i_start_sect x)"
    using assms(1,2) by (simp_all add: open_plain_def)
  define x' where "x' = x\<lparr>i_size := max (i_size x) (of_nat (pos + n))\<rparr>"
  define d where "d = buf_write (data_addr x + pos) (mem_bytes (fs_mem st) la n) (fs_disk st 32)"
  obtain st1 where st1: "rdwt_file w k p st = Inr (int n, st1)"
      "fd_table st1 = (fd_table st)(k := (fd_table st k)\<lparr>fd_pos := int (pos + n)\<rparr>)"
      "inode_table st1 = (inode_table st)(p := x')"
      "fs_disk st1 = (fs_disk st)(32 := if unat (i_size x) < pos + n then put_disk_inode (super_blocks st 0) x' d else d)"
      "fs_procs st1 = fs_procs st" "fs_mem st1 = fs_mem st" "same_super st st1"
    using write_file [OF o(7) assms(2,3) _ o(5) assms(5,7,8) o(8,9) x'_def d_def] assms(4,9) by auto
  have w1: "do_rdwt pid ans w st = Inr (int n, w, st1)"
    using o assms(2) st1(1) by (simp add: do_rdwt_def)
  have sz: "pos + n < 2 ^ 30" "unat (i_start_sect x) + unat (i_nr_sects x) < 2 ^ 21" "unat (i_size x) \<le> 512 * unat (i_nr_sects x)"
      "i_dev x = ROOT_DEV"
    using o(7) assms(7) unfolding plain_file_def Let_def assms(2) [symmetric] by simp_all
  have u: "unat (of_nat (pos + n) :: u32) = pos + n"
    using sz(1) by (simp only: unsigned_of_nat) (simp add: take_bit_nat_eq_self)
  have x'_size: "unat (i_size x') = max (unat (i_size x)) (pos + n)"
    using u unfolding x'_def by (auto simp: max_def word_le_nat_alt)
  have o1: "open_plain pid (FD w) k p (pos + n) st1"
    using o sz x'_size assms(7) st1 same_super_layout [OF st1(7)] open_file_keeps [of st1 st]
    by (simp add: open_plain_def plain_file_def Let_def x'_def)
  define st2 where "st2 = upd_fd k (\<lambda>x. x\<lparr>fd_pos := int pos\<rparr>) st1"
  have s1: "do_lseek pid s st1 = Inr (int pos, st2)"
    unfolding st2_def using lseek_set [OF o1 _ s] assms(6,7) st1(3) by (simp add: x'_def)
  have o2: "open_plain pid (FD w) k p pos st2"
    using o1 open_file_keeps [of st2 st1] by (simp add: open_plain_def plain_file_def Let_def st2_def upd_fd_def)
  have x2: "inode_table st2 p = x'" "fs_procs st2 = fs_procs st" "fs_mem st2 = fs_mem st" "fs_disk st2 = fs_disk st1"
    using st1 by (simp_all add: st2_def upd_fd_def)
  have n: "n = min n (unat (i_size x') - pos)" "pos < unat (i_size x')"
    using x'_size assms(6) by simp_all
  obtain st3 where st3: "rdwt_file r k p st2 = Inr (int n, st3)"
      "fs_mem st3 = write_bytes la' (buf_bytes (fs_disk st2 32) (data_addr x' + pos) n) (fs_mem st2)" "fs_disk st3 = fs_disk st2"
    using read_file [OF _ x2(1) [symmetric], of k r la' pos n n] o2 x2 assms(1-10) r n sz(1)
    by (auto simp: open_plain_def)
  have r1: "do_rdwt pid ans r st2 = Inr (int n, r, st3)"
    using o2 st3(1) r(1) by (simp add: do_rdwt_def open_plain_def)
  have ia: "inode_addr (super_blocks st 0) (i_num x) + 32 \<le> 512 * unat (n_1st_sect (super_blocks st 0))"
    by (rule inode_addr_bound [OF o(8,9)])
  have da: "data_addr x' = data_addr x" "512 * unat (n_1st_sect (super_blocks st 0)) \<le> data_addr x" "i_num x' = i_num x"
    using o(10) by (simp_all add: data_addr_def x'_def)
  have "buf_bytes (fs_disk st2 32) (data_addr x' + pos) n = buf_bytes d (data_addr x + pos) n"
    using ia da unfolding x2(4) st1(4) by (simp add: put_disk_inode_def buf_simps)
  then have "fs_mem st3 = write_bytes la' (mem_bytes (fs_mem st) la n) (fs_mem st)"
    unfolding st3(2) x2(3) by (simp add: d_def buf_simps)
  moreover have "fs_disk st3 32 a = fs_disk st 32 a"
    if "512 * unat (n_1st_sect (super_blocks st 0)) \<le> a" "a < data_addr x + pos \<or> data_addr x + pos + n \<le> a" for a
    using ia da that unfolding st3(3) x2(4) st1(4) by (simp add: put_disk_inode_def d_def buf_simps)
  ultimately show ?thesis
    using w1 s1 r1 by blast
qed

definition write_msg1 :: MESSAGE where
  "write_msg1 = reset_msg\<lparr>source := 7, mtype := WRITE, m3i1 := 0, m3i2 := 1000, m3p2 := 0x5000\<rparr>"

lemma fs0_va2la [simp]: "va2la (fs_procs fs0) i a = Inr a"
  by (simp add: fs0_def va2la_def zero_process_def ldt_seg_linear_def descriptor_base_def zero_descriptor_def)

lemma fs0_open: "open_plain 7 0 0 1 20 fs0"
  by (simp add: open_plain_def open_file_def plain_file_def layout_ok_def inode_ok_def fs0_def file0_def sb0_def)

text \<open>
  C39. A write that does not fit into the file is not cut off at its end: when at most one sector's worth of
  bytes is left over, the write reports all \<open>n\<close> bytes as written, the surplus bytes go to the sector behind
  the file, which belongs to another file or is free, and the file's size exceeds its space.
\<close>
theorem write_past_end:
  assumes "open_plain pid (FD w) k p pos st" "x = inode_table st p" "mtype w = WRITE" "source w = pid" "CNT w = int n"
    "nr = unat (i_nr_sects x)" "pos \<le> 512 * nr" "512 * nr < pos + n" "pos + n \<le> 512 * (nr + 1)"
    "pos mod 512 + (512 * nr - pos) \<le> 130560" "va2la (fs_procs st) pid (BUF w) = Inr la"
  shows "\<exists>st'. do_rdwt pid ans w st = Inr (int n, w, st') \<and>
     (\<forall>j < n. fs_disk st' 32 (data_addr x + pos + j) = fs_mem st (la + of_nat j)) \<and>
     unat (i_size (inode_table st' p)) = pos + n"
proof -
  have o: "0 \<le> FD w" "FD w < 64" "open_file pid (FD w) st = Inr (k, p)" "fd_mode (fd_table st k) AND O_RDWR \<noteq> 0"
      "fd_pos (fd_table st k) = int pos" "i_mode x = I_REGULAR" "plain_file k p st" "layout_ok (super_blocks st 0)"
      "inode_ok (super_blocks st 0) (i_num x)" "unat (n_1st_sect (super_blocks st 0)) \<le> unat (i_start_sect x)"
    using assms(1,2) by (simp_all add: open_plain_def)
  have sz: "nr < 2 ^ 21" "unat (i_size x) \<le> 512 * nr"
    using o(7) unfolding plain_file_def Let_def assms(2) [symmetric] assms(6) by simp_all
  define c where "c = nr - pos div 512 + 1"
  obtain t where t: "nr = pos div 512 + t"
    using div_le_mono [OF assms(7), of 512] by (auto simp: le_iff_add)
  have "r + n \<le> 512 * (t + 1)" if "512 * b + r = pos" "pos + n \<le> 512 * (b + t + 1)" for b r
    using that by (auto simp: algebra_simps)
  from this [OF mult_div_mod_eq] have "pos mod 512 + n \<le> 512 * (t + 1)"
    using assms(9) unfolding t .
  then have "pos mod 512 + n \<le> 512 * c"
    using t unfolding c_def by simp
  then have e: "pos mod 512 + n \<le> 512 * c" "512 * nr div 512 = nr" "min (512 * nr) (pos + n) = 512 * nr" "pos + n < 2 ^ 31"
    using assms(7-9) sz by simp_all
  define x' where "x' = x\<lparr>i_size := max (i_size x) (of_nat (pos + n))\<rparr>"
  define d where "d = buf_write (data_addr x + pos) (mem_bytes (fs_mem st) la n) (fs_disk st 32)"
  obtain st' where st': "rdwt_file w k p st = Inr (int n, st')" "inode_table st' = (inode_table st)(p := x')"
      "fs_disk st' = (fs_disk st)(32 := if unat (i_size x) < pos + n then put_disk_inode (super_blocks st 0) x' d else d)"
    using write_file_gen [OF o(7) assms(2,3) _ o(5) assms(5), of la "512 * nr" c x' d] e assms o x'_def d_def c_def by auto
  have "inode_addr (super_blocks st 0) (i_num x) + 32 \<le> 512 * unat (n_1st_sect (super_blocks st 0))"
    by (rule inode_addr_bound [OF o(8,9)])
  then have ia: "inode_addr (super_blocks st 0) (i_num x') + 32 \<le> data_addr x"
    using o(10) by (simp add: data_addr_def x'_def)
  have "fs_disk st' 32 (data_addr x + pos + j) = fs_mem st (la + of_nat j)" if "j < n" for j
    using ia that unfolding st'(3) by (simp add: put_disk_inode_def buf_simps) (simp add: d_def buf_write_def)
  moreover have "unat (of_nat (pos + n) :: u32) = pos + n"
    using e(4) by (simp only: unsigned_of_nat) (simp add: take_bit_nat_eq_self)
  then have "unat (i_size (inode_table st' p)) = pos + n"
    using sz(2) assms(8) unfolding st'(2) x'_def by (auto simp: max_def word_le_nat_alt)
  ultimately show ?thesis
    using o assms(2) st'(1) by (simp add: do_rdwt_def)
qed

definition fs1 :: fs_state where
  "fs1 = fs0\<lparr>fd_table := (\<lambda>_. zero_fd)(0 := \<lparr>fd_mode = O_RDWR, fd_pos = 1048476, fd_cnt = 1, fd_inode = Some 1\<rparr>)\<rparr>"

theorem write_past_end_witness:
  "\<exists>st'. do_rdwt 7 reset_msg (write_msg1\<lparr>m3i2 := int 200\<rparr>) fs1 = Inr (int 200, write_msg1\<lparr>m3i2 := int 200\<rparr>, st') \<and>
     unat (i_size (inode_table st' 1)) = 1048676 \<and> 1048676 > 512 * unat (i_nr_sects file0)"
proof -
  have m: "FD (write_msg1\<lparr>m3i2 := int 200\<rparr>) = 0" "mtype (write_msg1\<lparr>m3i2 := int 200\<rparr>) = WRITE"
      "source (write_msg1\<lparr>m3i2 := int 200\<rparr>) = 7" "CNT (write_msg1\<lparr>m3i2 := int 200\<rparr>) = int 200"
      "BUF (write_msg1\<lparr>m3i2 := int 200\<rparr>) = 0x5000"
    by (simp_all add: write_msg1_def)
  have f: "file0 = inode_table fs1 1" "2048 = unat (i_nr_sects file0)"
    by (simp_all add: fs1_def fs0_def file0_def)
  have o: "open_plain 7 (FD (write_msg1\<lparr>m3i2 := int 200\<rparr>)) 0 1 1048476 fs1"
    unfolding m(1) by (simp add: open_plain_def open_file_def plain_file_def layout_ok_def inode_ok_def fs1_def fs0_def file0_def sb0_def)
  have l: "va2la (fs_procs fs1) 7 (BUF (write_msg1\<lparr>m3i2 := int 200\<rparr>)) = Inr 0x5000"
    using fs0_va2la [of 7 "0x5000"] unfolding m(5) by (simp add: fs1_def)
  show ?thesis
    using write_past_end [OF o f(1) m(2,3,4) f(2) _ _ _ _ l, of reset_msg] f(2) by (auto simp del: of_nat_numeral)
qed

end
