(* ===== verification/Directory.thy ===== *)
theory Directory
  imports Fs_Lemmas
begin

text \<open>
  The root directory: the sector by sector searches of \<^verbatim>\<open>search_file\<close> and \<^verbatim>\<open>new_directory_entry\<close> as searches
  through the entries on the disk, numbered from 0.
\<close>

section \<open>Names\<close>

lemma name_at_iff: "name_at name f a \<longleftrightarrow> (\<forall>i < length name. f (a + i) = name ! i) \<and> f (a + length name) = 0"
proof (induction name arbitrary: a)
  case (Cons c rest)
  show ?case
    by (simp add: Cons All_less_Suc2)
qed simp

lemma name_at_cong: "(\<And>i. i \<le> length name \<Longrightarrow> f (a + i) = g (a' + i)) \<Longrightarrow> name_at name f a \<longleftrightarrow> name_at name g a'"
  by (simp add: name_at_iff)

lemma name_at_write:
  assumes "0 \<notin> set name" "0 \<notin> set name'"
  shows "name_at name' (buf_write a (name @ [0]) f) a \<longleftrightarrow> name' = name"
proof
  let ?g = "buf_write a (name @ [0]) f"
  have g: "?g (a + i) = (if i < length name then name ! i else 0)" if "i \<le> length name" for i
    using that by (simp add: buf_write_def nth_append)
  show "name' = name" if n: "name_at name' ?g a"
  proof (rule nth_equalityI)
    show len: "length name' = length name"
    proof (rule linorder_cases [of "length name'" "length name"])
      assume "length name' < length name"
      then have "name ! length name' = 0"
        using n g [of "length name'"] by (simp add: name_at_iff)
      then show ?thesis
        using assms(1) \<open>length name' < length name\<close> nth_mem by metis
    next
      assume "length name < length name'"
      then have "name' ! length name = 0"
        using n g [of "length name"] by (simp add: name_at_iff)
      then show ?thesis
        using assms(2) \<open>length name < length name'\<close> nth_mem by metis
    qed
    show "name' ! i = name ! i" if "i < length name'" for i
      using n g [of i] that len by (simp add: name_at_iff)
  qed
  show "name_at name' ?g a" if "name' = name"
    using that g by (simp add: name_at_iff)
qed

section \<open>Searching\<close>

text \<open>The first entry with a name among those from \<open>lo\<close> on and before \<open>hi\<close>: its inode number, 0 if there is none.\<close>

definition entry_named :: "u8 list \<Rightarrow> buffer \<Rightarrow> nat \<Rightarrow> nat \<Rightarrow> bool" where
  "entry_named name d b x \<longleftrightarrow> name_at name d (b + 16 * x + 4)"

definition entry_nr :: "buffer \<Rightarrow> nat \<Rightarrow> nat \<Rightarrow> int" where
  "entry_nr d b x = sint (buf_word d (b + 16 * x))"

definition dir_lookup :: "u8 list \<Rightarrow> buffer \<Rightarrow> nat \<Rightarrow> nat \<Rightarrow> nat \<Rightarrow> int" where
  "dir_lookup name d b lo hi = (case find (entry_named name d b) [lo..<hi] of None \<Rightarrow> 0 | Some x \<Rightarrow> entry_nr d b x)"

text \<open>The buffer holds sector \<open>i\<close> of the directory at \<open>b\<close>.\<close>

definition holds_sector :: "buffer \<Rightarrow> buffer \<Rightarrow> nat \<Rightarrow> nat \<Rightarrow> bool" where
  "holds_sector f d b i \<longleftrightarrow> (\<forall>k < 512. f k = d (b + 512 * i + k))"

lemma sector_name:
  assumes "holds_sector f d b i" "length name < 12" "j < 32"
  shows "name_at name f (16 * j + 4) \<longleftrightarrow> entry_named name d b (32 * i + j)" "sint (buf_word f (16 * j)) = entry_nr d b (32 * i + j)"
    "buf_word f (16 * j) = buf_word d (b + 16 * (32 * i + j))"
proof -
  have e: "b + 16 * (32 * i + j) = b + 512 * i + 16 * j"
    by simp
  show "name_at name f (16 * j + 4) \<longleftrightarrow> entry_named name d b (32 * i + j)"
    unfolding entry_named_def e using assms unfolding holds_sector_def by (intro name_at_cong) (simp add: add.assoc)
  show w: "buf_word f (16 * j) = buf_word d (b + 16 * (32 * i + j))"
    using assms unfolding e buf_word_def holds_sector_def by (intro arg_cong [where f = word_of] nth_equalityI) (simp_all add: add.assoc)
  show "sint (buf_word f (16 * j)) = entry_nr d b (32 * i + j)"
    unfolding entry_nr_def w ..
qed

lemma search_block_find:
  assumes f: "holds_sector f d b i" and name: "length name < 12"
  shows "j \<le> 32 \<Longrightarrow> 32 * i + j \<le> n \<Longrightarrow> search_block f name [j..<32] (32 * i + j) n =
    (case find (entry_named name d b) [32 * i + j..<min (Suc n) (32 * i + 32)] of
       Some x \<Rightarrow> (Some (entry_nr d b x), x) | None \<Rightarrow> (None, min (Suc n) (32 * i + 32)))"
proof (induction "32 - j" arbitrary: j)
  case (Suc c)
  then have j: "j < 32" "[j..<32] = j # [Suc j..<32]"
    by (simp_all add: upt_conv_Cons)
  have u: "[32 * i + j..<min (Suc n) (32 * i + 32)] = (32 * i + j) # [Suc (32 * i + j)..<min (Suc n) (32 * i + 32)]"
    using j Suc.prems by (simp add: upt_conv_Cons)
  note s = sector_name [OF f name j(1)]
  show ?case
  proof (cases "32 * i + j + 1 > n")
    case True
    then show ?thesis
      using Suc.prems j unfolding u by (simp add: s(1,2))
  next
    case False
    then show ?thesis
      using Suc.hyps(1) [of "Suc j"] Suc.hyps(2) j unfolding u by (simp add: s(1,2))
  qed
qed simp

lemma find_append: "find P (xs @ ys) = (case find P xs of None \<Rightarrow> find P ys | Some x \<Rightarrow> Some x)"
  by (induction xs) auto

lemma find_upt_split: "lo \<le> m \<Longrightarrow> m \<le> hi \<Longrightarrow> find P [lo..<hi] = (case find P [lo..<m] of None \<Rightarrow> find P [m..<hi] | Some x \<Rightarrow> Some x)"
  using find_append [of P "[lo..<m]" "[m..<hi]"] upt_add_eq_append [of lo m "hi - m"] by simp

lemma search_blocks_lookup:
  assumes name: "length name < 12" and b: "0 \<le> blk"
  shows "32 * i \<le> n \<Longrightarrow> i \<le> S \<Longrightarrow> \<exists>f. search_blocks ROOT_DEV blk [i..<S] name (32 * i) n st =
     Inr (dir_lookup name (fs_disk st 32) (512 * nat blk) (32 * i) (min (Suc n) (32 * S)), st\<lparr>fsbuf := f\<rparr>)"
proof (induction "S - i" arbitrary: i st)
  case 0
  then have "st = st\<lparr>fsbuf := fsbuf st\<rparr>" "i = S"
    by simp_all
  then show ?case
    by (intro exI [of _ "fsbuf st"]) (simp add: dir_lookup_def)
next
  case (Suc c)
  then have u: "[i..<S] = i # [Suc i..<S]" "i < S"
    by (simp_all add: upt_conv_Cons)
  let ?d = "fs_disk st 32" and ?b = "512 * nat blk"
  define st1 where "st1 = st\<lparr>fsbuf := copy_range ?d (?b + 512 * i) (fsbuf st) 0 512\<rparr>"
  have r: "RD_SECT ROOT_DEV (blk + int i) st = Inr st1"
    using b by (simp add: st1_def nat_add_distrib)
  have ds: "fs_disk st1 = fs_disk st"
    by (simp add: st1_def)
  have f: "holds_sector (fsbuf st1) ?d ?b i"
    by (simp add: st1_def copy_range_def holds_sector_def)
  let ?m = "min (Suc n) (32 * i + 32)"
  have sb: "search_block (fsbuf st1) name [0..<32] (32 * i) n =
      (case find (entry_named name ?d ?b) [32 * i..<?m] of Some x \<Rightarrow> (Some (entry_nr ?d ?b x), x) | None \<Rightarrow> (None, ?m))"
    using search_block_find [OF f name, where j = 0] Suc.prems by simp
  have sp: "find (entry_named name ?d ?b) [32 * i..<min (Suc n) (32 * S)] =
      (case find (entry_named name ?d ?b) [32 * i..<?m] of None \<Rightarrow> find (entry_named name ?d ?b) [?m..<min (Suc n) (32 * S)] | Some x \<Rightarrow> Some x)"
    using Suc.prems u(2) by (intro find_upt_split) auto
  show ?case
  proof (cases "find (entry_named name ?d ?b) [32 * i..<?m]")
    case (Some x)
    then have "search_blocks ROOT_DEV blk [i..<S] name (32 * i) n st = Inr (dir_lookup name ?d ?b (32 * i) (min (Suc n) (32 * S)), st1)"
      by (simp add: u r sb sp dir_lookup_def)
    then show ?thesis
      unfolding st1_def by blast
  next
    case None
    show ?thesis
    proof (cases "?m > n")
      case True
      then have "search_blocks ROOT_DEV blk [i..<S] name (32 * i) n st = Inr (dir_lookup name ?d ?b (32 * i) (min (Suc n) (32 * S)), st1)"
        using None by (simp add: u r sb sp dir_lookup_def)
      then show ?thesis
        unfolding st1_def by blast
    next
      case False
      then have m: "?m = 32 * Suc i"
        by simp
      then have "search_blocks ROOT_DEV blk [i..<S] name (32 * i) n st = search_blocks ROOT_DEV blk [Suc i..<S] name (32 * Suc i) n st1"
        using None False by (simp add: u r sb add.commute)
      moreover have "dir_lookup name ?d ?b (32 * i) (min (Suc n) (32 * S)) = dir_lookup name (fs_disk st1 32) ?b (32 * Suc i) (min (Suc n) (32 * S))"
        using None unfolding dir_lookup_def sp m ds by simp
      moreover have "\<exists>f. search_blocks ROOT_DEV blk [Suc i..<S] name (32 * Suc i) n st1 =
          Inr (dir_lookup name (fs_disk st1 32) ?b (32 * Suc i) (min (Suc n) (32 * S)), st1\<lparr>fsbuf := f\<rparr>)"
        using False Suc.hyps(2) u(2) by (intro Suc.hyps(1)) simp_all
      ultimately show ?thesis
        by (simp add: st1_def)
    qed
  qed
qed

section \<open>The root directory\<close>

text \<open>
  The root directory lies behind the inodes and fits into its sectors; \<open>dir_len\<close> is the number of its
  entries, holes included, and \<open>dir_addr\<close> the place of the first one on the disk.
\<close>

abbreviation root_dir :: "fs_state \<Rightarrow> inode" where
  "root_dir st \<equiv> inode_table st (root_inode st)"

definition dir_len :: "fs_state \<Rightarrow> nat" where
  "dir_len st = unat (i_size (root_dir st)) div 16"

definition dir_addr :: "fs_state \<Rightarrow> nat" where
  "dir_addr st = data_addr (root_dir st)"

definition dir_ok :: "fs_state \<Rightarrow> bool" where
  "dir_ok st \<longleftrightarrow>
     i_dev (root_dir st) = ROOT_DEV \<and> layout_ok (super_blocks st 0) \<and> inode_ok (super_blocks st 0) (i_num (root_dir st)) \<and>
     unat (n_1st_sect (super_blocks st 0)) \<le> unat (i_start_sect (root_dir st)) \<and>
     unat (i_start_sect (root_dir st)) + unat (i_nr_sects (root_dir st)) < 2 ^ 21 \<and>
     unat (i_size (root_dir st)) = 16 * dir_len st \<and> dir_len st \<le> 32 * unat (i_nr_sects (root_dir st))"

text \<open>
  The entries \<^verbatim>\<open>search_file\<close> looks at: all, and one more unless the last sector is full.
\<close>

definition dir_seen :: "fs_state \<Rightarrow> nat" where
  "dir_seen st = (if dir_len st mod 32 = 0 then dir_len st else Suc (dir_len st))"

lemma strip_path_length: "strip_path n path = Inr (Some name) \<Longrightarrow> length name < n"
  by (auto simp: strip_path_def split: option.split_asm if_split_asm)

lemma strip_loop_set: "strip_loop n path = Some name \<Longrightarrow> set name \<subseteq> set path"
  by (induction n path arbitrary: name rule: strip_loop.induct) (fastforce split: if_split_asm)+

lemma strip_path_set: "strip_path n path = Inr (Some name) \<Longrightarrow> set name \<subseteq> set path"
  by (auto simp: strip_path_def split: option.split_asm if_split_asm dest!: strip_loop_set dest: list.set_sel(2))

lemma sectors_of_dir:
  assumes "unat w = 16 * n" "n < 2 ^ 26"
  shows "unat ((w + 512 - 1) div 512 :: u32) = (n + 31) div 32" "unat (w div 16) = n"
proof -
  have "unat (w + 511) = 16 * n + 511"
    using assms by (subst unat_add_small) simp_all
  moreover have "w + 512 - 1 = w + 511"
    by simp
  ultimately have "unat ((w + 512 - 1) div 512) = (16 * n + 511) div 512"
    by (simp only: unat_div) simp
  also have "\<dots> = (n + 31) div 32"
    by simp
  finally show "unat ((w + 512 - 1) div 512 :: u32) = (n + 31) div 32" .
  show "unat (w div 16) = n"
    using assms by (simp only: unat_div) simp
qed

lemma dir_seen_eq: "min (Suc n) (32 * ((n + 31) div 32)) = (if n mod 32 = 0 then n else Suc n)"
proof -
  obtain q r where n: "n = 32 * q + r" "r < 32"
    using mult_div_mod_eq [of 32 n] mod_less_divisor [of 32 n] by (metis zero_less_numeral)
  show ?thesis
  proof (cases "r = 0")
    case False
    then have "n + 31 = 32 * (q + 1) + (r - 1)"
      using n(1) by simp
    moreover have "(32 * (q + 1) + (r - 1)) div 32 = q + 1"
      using n(2) by simp
    ultimately have "(n + 31) div 32 = q + 1"
      by (simp only:)
    then show ?thesis
      using n False by simp
  qed (use n in simp)
qed

lemma search_file_lookup:
  assumes "dir_ok st" "strip_path MAX_FILENAME_LEN path = Inr (Some name)" "name \<noteq> []"
  shows "\<exists>f. search_file path st = Inr (dir_lookup name (fs_disk st 32) (dir_addr st) 0 (dir_seen st), st\<lparr>fsbuf := f\<rparr>)"
proof -
  let ?x = "root_dir st"
  have s: "sint (i_start_sect ?x) = int (unat (i_start_sect ?x))"
    using assms(1) by (intro sint_small) (simp add: dir_ok_def)
  have n: "unat ((i_size ?x + 512 - 1) div 512) = (dir_len st + 31) div 32" "unat (i_size ?x div 16) = dir_len st"
    using assms(1) sectors_of_dir [of "i_size ?x" "dir_len st"] by (simp_all add: dir_ok_def)
  have "search_file path st = search_blocks ROOT_DEV (int (unat (i_start_sect ?x))) [0..<(dir_len st + 31) div 32] name (32 * 0) (dir_len st) st"
    using assms unfolding search_file_def Let_def s n by (simp add: dir_ok_def)
  moreover have "dir_addr st = 512 * nat (int (unat (i_start_sect ?x)))" "dir_seen st = min (Suc (dir_len st)) (32 * ((dir_len st + 31) div 32))"
    unfolding dir_seen_eq by (simp_all add: dir_addr_def data_addr_def dir_seen_def)
  ultimately show ?thesis
    using search_blocks_lookup [OF strip_path_length [OF assms(2)], of "int (unat (i_start_sect ?x))" 0 "dir_len st" "(dir_len st + 31) div 32" st] by simp
qed

section \<open>Adding an entry\<close>

text \<open>The first hole of the directory, or the place behind its last entry.\<close>

definition free_entry :: "buffer \<Rightarrow> nat \<Rightarrow> nat \<Rightarrow> nat \<Rightarrow> nat" where
  "free_entry d b lo n = (case find (\<lambda>x. buf_word d (b + 16 * x) = 0) [lo..<n] of None \<Rightarrow> n | Some x \<Rightarrow> x)"

lemma slot_scan_find:
  assumes f: "holds_sector f d b i"
  shows "j \<le> 32 \<Longrightarrow> 32 * i + j \<le> n \<Longrightarrow> slot_scan f (16 * j) (32 - j) (n - (32 * i + j)) =
    (case find (\<lambda>x. buf_word d (b + 16 * x) = 0) [32 * i + j..<min n (32 * i + 32)] of
       Some x \<Rightarrow> (Some (16 * (x - 32 * i)), 16 * (x - 32 * i), n - x)
     | None \<Rightarrow> (None, 16 * (min n (32 * i + 32) - 32 * i), n - min n (32 * i + 32)))"
proof (induction "32 - j" arbitrary: j)
  case (Suc c)
  then have j: "j < 32" "32 - j = Suc (32 - Suc j)"
    by simp_all
  show ?case
  proof (cases "n = 32 * i + j")
    case True
    then show ?thesis
      using j by simp
  next
    case False
    then have "[32 * i + j..<min n (32 * i + 32)] = (32 * i + j) # [Suc (32 * i + j)..<min n (32 * i + 32)]"
      using j Suc.prems by (simp add: upt_conv_Cons)
    moreover have "n - (32 * i + j) - 1 = n - (32 * i + Suc j)" "16 * j + 16 = 16 * Suc j" "n - (32 * i + j) \<noteq> 0"
      using False Suc.prems by simp_all
    moreover have "buf_word f (16 * j) = buf_word d (b + 16 * (32 * i + j))"
      by (rule sector_name(3) [OF f _ j(1), of "[]"]) simp
    ultimately show ?thesis
      using Suc.hyps(1) [of "Suc j"] Suc.hyps(2) Suc.prems j False by (simp only: slot_scan.simps) simp
  qed
qed simp

lemma in_sector: "32 * i \<le> x \<Longrightarrow> x < 32 * i + 32 \<Longrightarrow> x div 32 = i \<and> x mod 32 = x - 32 * (i :: nat)"
  by (auto simp: le_iff_add)

lemma find_in: "find P xs = Some x \<Longrightarrow> x \<in> set xs \<and> P x"
  by (induction xs) (auto split: if_split_asm)

lemma free_entry_bounds: "lo \<le> n \<Longrightarrow> lo \<le> free_entry d b lo n \<and> free_entry d b lo n \<le> n"
  by (auto simp: free_entry_def split: option.split dest: find_in)

lemma slot_search_find:
  assumes "0 \<le> blk" "i_dev (inode_table st de) = ROOT_DEV" "32 * i \<le> n" "x = free_entry (fs_disk st 32) (512 * nat blk) (32 * i) n" "x < 32 * S"
    "x = n \<Longrightarrow> n mod 32 \<noteq> 0 \<or> n = 0"
  shows "\<exists>f. slot_search de blk [i..<S] (n - 32 * i) st =
     Inr (x div 32, 16 * (x mod 32), (if x = n then upd_inode de (\<lambda>x. x\<lparr>i_size := i_size x + 16\<rparr>) else id) (st\<lparr>fsbuf := f\<rparr>)) \<and>
     holds_sector f (fs_disk st 32) (512 * nat blk) (x div 32)"
  using assms(2-5)
proof (induction "S - i" arbitrary: i st)
  case 0
  have "32 * i \<le> x"
    unfolding 0(4) using free_entry_bounds [OF 0(3)] by blast
  then show ?case
    using 0 by simp
next
  case (Suc c)
  then have u: "[i..<S] = i # [Suc i..<S]" "i < S"
    by (simp_all add: upt_conv_Cons)
  let ?d = "fs_disk st 32" and ?b = "512 * nat blk"
  define st1 where "st1 = st\<lparr>fsbuf := copy_range ?d (?b + 512 * i) (fsbuf st) 0 512\<rparr>"
  have r: "RD_SECT (i_dev (inode_table st de)) (blk + int i) st = Inr st1"
    using assms(1) Suc.prems(1) by (simp add: st1_def nat_add_distrib)
  have ds: "fs_disk st1 = fs_disk st" "inode_table st1 = inode_table st"
    by (simp_all add: st1_def)
  have f: "holds_sector (fsbuf st1) ?d ?b i"
    by (simp add: st1_def copy_range_def holds_sector_def)
  let ?m = "min n (32 * i + 32)" and ?P = "\<lambda>x. buf_word ?d (?b + 16 * x) = 0"
  have sc: "slot_scan (fsbuf st1) 0 32 (n - 32 * i) = (case find ?P [32 * i..<?m] of
       Some x \<Rightarrow> (Some (16 * (x - 32 * i)), 16 * (x - 32 * i), n - x) | None \<Rightarrow> (None, 16 * (?m - 32 * i), n - ?m))"
    using slot_scan_find [OF f, of 0 n] Suc.prems(2) by simp
  have sp: "find ?P [32 * i..<n] = (case find ?P [32 * i..<?m] of None \<Rightarrow> find ?P [?m..<n] | Some x \<Rightarrow> Some x)"
    using Suc.prems(2) by (intro find_upt_split) auto
  show ?case
  proof (cases "find ?P [32 * i..<?m]")
    case (Some y)
    then have y: "x = y" "32 * i \<le> x" "x < n" "x < 32 * i + 32"
      using Suc.prems(3) find_in [OF Some] by (auto simp: free_entry_def sp)
    then have "slot_search de blk [i..<S] (n - 32 * i) st = Inr (x div 32, 16 * (x mod 32), st1)"
      using in_sector [of i x] Some by (simp add: u r sc)
    then show ?thesis
      using y f in_sector [of i x] by (intro exI [of _ "fsbuf st1"]) (simp add: st1_def)
  next
    case None
    show ?thesis
    proof (cases "n \<le> 32 * i + 32")
      case True
      then have x: "x = n"
        using Suc.prems(3) None by (simp add: free_entry_def sp)
      then have "n < 32 * i + 32"
        using assms(6) True by (cases "n = 32 * (i + 1)") (auto simp: le_less)
      then have "n div 32 = i" "n mod 32 = n - 32 * i"
        using in_sector [of i n] Suc.prems(2) by simp_all
      moreover have "slot_search de blk [i..<S] (n - 32 * i) st = Inr (i, 16 * (n - 32 * i), upd_inode de (\<lambda>x. x\<lparr>i_size := i_size x + 16\<rparr>) st1)"
        using None True by (simp add: u r sc)
      ultimately show ?thesis
        using x f by (intro exI [of _ "fsbuf st1"]) (simp add: st1_def)
    next
      case False
      then have m: "?m = 32 * Suc i"
        by simp
      have e: "slot_search de blk [i..<S] (n - 32 * i) st = slot_search de blk [Suc i..<S] (n - 32 * Suc i) st1"
        using None False by (simp add: u r sc add.commute)
      have "x = free_entry (fs_disk st1 32) ?b (32 * Suc i) n"
        using Suc.prems(3) None unfolding free_entry_def sp ds m by simp
      then have "\<exists>f. slot_search de blk [Suc i..<S] (n - 32 * Suc i) st1 =
           Inr (x div 32, 16 * (x mod 32), (if x = n then upd_inode de (\<lambda>x. x\<lparr>i_size := i_size x + 16\<rparr>) else id) (st1\<lparr>fsbuf := f\<rparr>)) \<and>
           holds_sector f (fs_disk st1 32) ?b (x div 32)"
        using False Suc.hyps(2) Suc.prems ds by (intro Suc.hyps(1)) simp_all
      then show ?thesis
        unfolding e by (simp add: st1_def)
    qed
  qed
qed

text \<open>
  Where the next entry goes. There is no place for it when the directory has no hole and its last sector is
  full: \<^verbatim>\<open>new_directory_entry\<close> then writes behind the sector in the buffer.
\<close>

definition dir_free :: "fs_state \<Rightarrow> nat" where
  "dir_free st = free_entry (fs_disk st 32) (dir_addr st) 0 (dir_len st)"

definition dir_room :: "fs_state \<Rightarrow> bool" where
  "dir_room st \<longleftrightarrow> dir_free st < dir_len st \<or> dir_len st mod 32 \<noteq> 0 \<or> dir_len st = 0"

definition dir_inode :: "fs_state \<Rightarrow> inode" where
  "dir_inode st = (if dir_free st = dir_len st then (root_dir st)\<lparr>i_size := i_size (root_dir st) + 16\<rparr> else root_dir st)"

lemma dir_free_bound:
  assumes "dir_ok st" "dir_room st" "0 < unat (i_nr_sects (root_dir st))"
  shows "dir_free st < 32 * unat (i_nr_sects (root_dir st))"
proof (cases "dir_free st < dir_len st")
  case True
  then show ?thesis
    using assms(1) by (simp add: dir_ok_def)
next
  case False
  then have "dir_free st = dir_len st"
    using free_entry_bounds [of 0 "dir_len st"] by (auto simp: dir_free_def intro: antisym)
  then show ?thesis
    using assms False unfolding dir_room_def dir_ok_def by (cases "dir_len st = 32 * unat (i_nr_sects (root_dir st))") auto
qed

lemma sector_rewrite:
  assumes "holds_sector f D A q" "k + length e \<le> 512"
  shows "copy_range (buf_write k e f) 0 D (A + 512 * q) 512 = buf_write (A + 512 * q + k) e D"
proof
  fix i
  show "copy_range (buf_write k e f) 0 D (A + 512 * q) 512 i = buf_write (A + 512 * q + k) e D i"
  proof (cases "A + 512 * q \<le> i \<and> i < A + 512 * q + 512")
    case True
    then obtain j where "i = A + 512 * q + j" "j < 512"
      by (auto simp: le_iff_add)
    then show ?thesis
      using assms by (simp add: copy_range_def buf_write_def holds_sector_def)
  next
    case False
    then show ?thesis
      using assms(2) by (auto simp: copy_range_def buf_write_def)
  qed
qed

lemma new_directory_entry_disk:
  fixes name :: "u8 list" and nr :: int
  assumes ok: "dir_ok st" and room: "dir_room st" "0 < unat (i_nr_sects (root_dir st))" and name: "length name < 12"
  defines "d \<equiv> buf_write (dir_addr st + 16 * dir_free st) (dirent_bytes nr (name @ [0])) (fs_disk st 32)"
  shows "\<exists>f. new_directory_entry (root_inode st) name nr st = Inr (st\<lparr>inode_table := (inode_table st)(root_inode st := dir_inode st),
      super_blocks := (super_blocks st)(0 := (super_blocks st 0)\<lparr>sb_dev := ROOT_DEV\<rparr>), fsbuf := f,
      fs_disk := (fs_disk st)(32 := put_disk_inode (super_blocks st 0) (dir_inode st) d)\<rparr>)"
proof -
  let ?r = "root_inode st" and ?x = "root_dir st" and ?e = "dirent_bytes nr (name @ [0])"
  let ?blk = "int (unat (i_start_sect ?x))"
  have s: "sint (i_start_sect ?x) = ?blk"
    using ok by (intro sint_small) (simp add: dir_ok_def)
  have n: "unat (i_size ?x div 16) = dir_len st"
    using ok sectors_of_dir(2) [of "i_size ?x" "dir_len st"] by (simp add: dir_ok_def)
  have a: "512 * nat ?blk = dir_addr st"
    by (simp add: dir_addr_def data_addr_def)
  have e: "length ?e \<le> 16"
    using name by (simp add: dirent_bytes_def bytes_of_def)
  define X where "X = dir_free st"
  have "\<exists>f. slot_search ?r ?blk [0..<unat (i_nr_sects ?x)] (dir_len st - 32 * 0) st =
      Inr (X div 32, 16 * (X mod 32), (if X = dir_len st then upd_inode ?r (\<lambda>x. x\<lparr>i_size := i_size x + 16\<rparr>) else id) (st\<lparr>fsbuf := f\<rparr>)) \<and>
      holds_sector f (fs_disk st 32) (512 * nat ?blk) (X div 32)"
    using ok room dir_free_bound [OF ok room] by (intro slot_search_find) (auto simp: dir_ok_def dir_room_def X_def dir_free_def dir_addr_def data_addr_def)
  then obtain f where f: "slot_search ?r ?blk [0..<unat (i_nr_sects ?x)] (dir_len st) st =
      Inr (X div 32, 16 * (X mod 32), (if X = dir_len st then upd_inode ?r (\<lambda>x. x\<lparr>i_size := i_size x + 16\<rparr>) else id) (st\<lparr>fsbuf := f\<rparr>))"
    "holds_sector f (fs_disk st 32) (dir_addr st) (X div 32)"
    unfolding a by auto
  have "512 * (X div 32) + 16 * (X mod 32) = 16 * X"
    using mult_div_mod_eq [of 32 X] by linarith
  then have xd: "dir_addr st + 512 * (X div 32) + 16 * (X mod 32) = dir_addr st + 16 * X"
    by simp
  have "16 * (X mod 32) + length ?e \<le> 512"
    using e mod_less_divisor [of 32 X] by linarith
  then have w: "copy_range (buf_write (16 * (X mod 32)) ?e f) 0 (fs_disk st 32) (dir_addr st + 512 * (X div 32)) 512 = d"
    by (simp only: sector_rewrite [OF f(2)] d_def xd flip: X_def)
  have ad: "512 * nat (int (X div 32) + uint (i_start_sect ?x)) = dir_addr st + 512 * (X div 32)"
    by (simp add: dir_addr_def data_addr_def nat_add_distrib)
  define st2 where "st2 = st\<lparr>inode_table := (inode_table st)(?r := dir_inode st), fsbuf := buf_write (16 * (X mod 32)) ?e f, fs_disk := (fs_disk st)(32 := d)\<rparr>"
  have st1: "(if X = dir_len st then upd_inode ?r (\<lambda>x. x\<lparr>i_size := i_size x + 16\<rparr>) else id) (st\<lparr>fsbuf := f\<rparr>) =
      st\<lparr>inode_table := (inode_table st)(?r := dir_inode st), fsbuf := f\<rparr>"
    by (auto simp: upd_inode_def dir_inode_def X_def)
  have "i_dev ?x = ROOT_DEV"
    using ok by (simp add: dir_ok_def)
  then have "new_directory_entry ?r name nr st = sync_inode ?r st2"
    using f(1) w unfolding new_directory_entry_def Let_def s n st1 by (simp add: ad st2_def)
  moreover have "\<exists>f. sync_inode ?r st2 = Inr (st2\<lparr>super_blocks := (super_blocks st2)(0 := (super_blocks st2 0)\<lparr>sb_dev := ROOT_DEV\<rparr>), fsbuf := f,
     fs_disk := (fs_disk st2)(32 := put_disk_inode (super_blocks st2 0) (inode_table st2 ?r) (fs_disk st2 32))\<rparr>)"
    using ok by (intro sync_inode_root) (auto simp: st2_def dir_ok_def dir_inode_def)
  ultimately show ?thesis
    by (simp add: st2_def)
qed

section \<open>Lookup after insertion\<close>

text \<open>Holes and the space behind the last entry have no name, and all other entries have an inode number.\<close>

definition dir_tidy :: "fs_state \<Rightarrow> bool" where
  "dir_tidy st \<longleftrightarrow> (\<forall>x. buf_word (fs_disk st 32) (dir_addr st + 16 * x) = 0 \<or> dir_len st \<le> x \<longrightarrow> x < 32 * unat (i_nr_sects (root_dir st)) \<longrightarrow>
     fs_disk st 32 (dir_addr st + 16 * x + 4) = 0)"

lemma dir_free_hole:
  assumes "dir_free st < dir_len st"
  shows "buf_word (fs_disk st 32) (dir_addr st + 16 * dir_free st) = 0"
  using assms by (auto simp: dir_free_def free_entry_def split: option.split_asm dest: find_in)

lemma no_name:
  assumes "d (b + 16 * x + 4) = 0" "name \<noteq> []" "0 \<notin> set name"
  shows "\<not> entry_named name d b x"
  using assms by (cases name) (auto simp: entry_named_def)

lemma find_None_iff_upt: "find P [0..<n] = None \<longleftrightarrow> (\<forall>x < n. \<not> P x)"
  by (auto simp: find_None_iff)

lemma find_Some_upt: "find P [0..<n] = Some x \<longleftrightarrow> x < n \<and> P x \<and> (\<forall>y < x. \<not> P y)"
  by (auto simp: find_Some_iff)

lemma find_upt_cong:
  assumes "\<And>x. x < n' \<and> P x \<longleftrightarrow> x < n \<and> Q x"
  shows "find P [0..<n'] = find Q [0..<n]"
proof (cases "find Q [0..<n]")
  case None
  then have "find P [0..<n'] = None"
    using assms unfolding find_None_iff_upt by blast
  then show ?thesis
    using None by simp
next
  case (Some x)
  then have "find P [0..<n'] = Some x"
    using assms unfolding find_Some_upt by (meson order.strict_trans)
  then show ?thesis
    using Some by simp
qed

lemma new_entry_effect:
  fixes name :: "u8 list" and nr :: int
  assumes ok: "dir_ok st" and room: "dir_room st" "0 < unat (i_nr_sects (root_dir st))" and name: "length name < 12"
  shows "\<exists>st'. new_directory_entry (root_inode st) name nr st = Inr st' \<and> dir_ok st' \<and> dir_addr st' = dir_addr st \<and>
     i_nr_sects (root_dir st') = i_nr_sects (root_dir st) \<and> dir_len st' = (if dir_free st = dir_len st then Suc (dir_len st) else dir_len st) \<and>
     (\<forall>i \<ge> dir_addr st. fs_disk st' 32 i = buf_write (dir_addr st + 16 * dir_free st) (dirent_bytes nr (name @ [0])) (fs_disk st 32) i)"
proof -
  let ?x = "root_dir st" and ?y = "dir_inode st" and ?s = "super_blocks st 0"
  obtain f where n: "new_directory_entry (root_inode st) name nr st = Inr (st\<lparr>inode_table := (inode_table st)(root_inode st := ?y),
      super_blocks := (super_blocks st)(0 := ?s\<lparr>sb_dev := ROOT_DEV\<rparr>), fsbuf := f,
      fs_disk := (fs_disk st)(32 := put_disk_inode ?s ?y (buf_write (dir_addr st + 16 * dir_free st) (dirent_bytes nr (name @ [0])) (fs_disk st 32)))\<rparr>)"
      (is "_ = Inr ?st'")
    using new_directory_entry_disk [OF assms] by blast
  have y: "i_dev ?y = i_dev ?x" "i_num ?y = i_num ?x" "i_start_sect ?y = i_start_sect ?x" "i_nr_sects ?y = i_nr_sects ?x"
    by (simp_all add: dir_inode_def)
  have r: "root_dir ?st' = ?y"
    by simp
  have o: "i_dev ?x = ROOT_DEV" "layout_ok ?s" "inode_ok ?s (i_num ?x)" "unat (n_1st_sect ?s) \<le> unat (i_start_sect ?x)"
      "unat (i_start_sect ?x) + unat (i_nr_sects ?x) < 2 ^ 21" "unat (i_size ?x) = 16 * dir_len st" "dir_len st \<le> 32 * unat (i_nr_sects ?x)"
    using ok by (simp_all add: dir_ok_def)
  have "unat (i_size ?x + 16) = 16 * Suc (dir_len st)"
    using o(5-7) by (subst unat_add_small) simp_all
  then have sz: "unat (i_size ?y) = 16 * (if dir_free st = dir_len st then Suc (dir_len st) else dir_len st)"
    using o(6) by (simp add: dir_inode_def)
  then have len: "dir_len ?st' = (if dir_free st = dir_len st then Suc (dir_len st) else dir_len st)"
    unfolding dir_len_def [of ?st'] r by simp
  have "dir_len ?st' \<le> 32 * unat (i_nr_sects ?x)"
    unfolding len using o(7) dir_free_bound [OF ok room] by simp
  then have ok': "dir_ok ?st'"
    unfolding dir_ok_def r y len using o sz by simp
  have a: "dir_addr ?st' = dir_addr st"
    unfolding dir_addr_def r by (simp add: data_addr_def y)
  have "inode_addr ?s (i_num ?y) + 32 \<le> dir_addr st"
    using inode_addr_bound [OF o(2,3)] o(4) unfolding y by (simp add: dir_addr_def data_addr_def)
  then have D: "\<forall>i \<ge> dir_addr st. fs_disk ?st' 32 i = buf_write (dir_addr st + 16 * dir_free st) (dirent_bytes nr (name @ [0])) (fs_disk st 32) i"
    by (simp add: put_disk_inode_def buf_simps)
  have nr: "i_nr_sects (root_dir ?st') = i_nr_sects ?x"
    unfolding r by (rule y(4))
  show ?thesis
    by (intro exI conjI) (rule n ok' a nr len D)+
qed

lemma entry_after_write:
  fixes d d' :: buffer
  assumes D: "\<forall>i \<ge> b. d' i = buf_write (b + 16 * X) (dirent_bytes nr (name @ [0])) d i" and name: "length name < 12" "0 \<notin> set name"
    and nr: "0 < nr" "nr < 2 ^ 31"
  shows "entry_nr d' b X = nr" "0 \<notin> set name' \<Longrightarrow> entry_named name' d' b X \<longleftrightarrow> name' = name"
    "x \<noteq> X \<Longrightarrow> length name' < 12 \<Longrightarrow> entry_named name' d' b x \<longleftrightarrow> entry_named name' d b x" "x \<noteq> X \<Longrightarrow> buf_word d' (b + 16 * x) = buf_word d (b + 16 * x)"
    "x \<noteq> X \<Longrightarrow> d' (b + 16 * x + 4) = d (b + 16 * x + 4)" "buf_word d' (b + 16 * X) \<noteq> 0"
proof -
  let ?e = "dirent_bytes nr (name @ [0])" and ?a = "b + 16 * X"
  have e: "length ?e = length name + 5" "length (bytes_of w) = 4" for w
    by (simp_all add: dirent_bytes_def bytes_of_def)
  have E: "buf_write ?a ?e d = buf_write (?a + 4) (name @ [0]) (buf_set ?a (of_int nr) d)"
    using buf_write_append [of ?a "bytes_of (of_int nr)" "name @ [0]" d] by (simp add: dirent_bytes_def buf_set_def e)
  have "buf_word d' ?a = buf_word (buf_write (?a + 4) (name @ [0]) (buf_set ?a (of_int nr) d)) ?a"
    using D unfolding E by (intro buf_word_cong) simp
  then have w: "buf_word d' ?a = of_int nr"
    by (simp add: buf_simps)
  have u: "unat (of_int nr :: u32) = nat nr"
    using nr by (simp add: unsigned_of_int take_bit_int_eq_self)
  then have "sint (of_int nr :: u32) = nr"
    using nr sint_small [of "of_int nr"] by simp
  then show "entry_nr d' b X = nr"
    unfolding entry_nr_def w .
  show "buf_word d' (b + 16 * X) \<noteq> 0"
    unfolding w using u nr by auto
  have "entry_named name' d' b X \<longleftrightarrow> name_at name' (buf_write (?a + 4) (name @ [0]) (buf_set ?a (of_int nr) d)) (?a + 4)"
    unfolding entry_named_def using D unfolding E by (intro name_at_cong) simp
  then show "entry_named name' d' b X \<longleftrightarrow> name' = name" if "0 \<notin> set name'"
    using name_at_write [OF name(2) that] by simp
  have o: "d' i = d i" if "x \<noteq> X" "b + 16 * x \<le> i" "i < b + 16 * x + 16" for i x
  proof -
    have "i < ?a \<or> ?a + length ?e \<le> i"
      using that name(1) e(1) by linarith
    then show ?thesis
      using D that(2) by (simp add: buf_write_other)
  qed
  show "entry_named name' d' b x \<longleftrightarrow> entry_named name' d b x" if "x \<noteq> X" "length name' < 12"
    unfolding entry_named_def using o [OF that(1)] that(2) by (intro name_at_cong) simp
  show "buf_word d' (b + 16 * x) = buf_word d (b + 16 * x)" if "x \<noteq> X"
    using o [OF that] by (intro buf_word_cong) simp
  show "d' (b + 16 * x + 4) = d (b + 16 * x + 4)" if "x \<noteq> X"
    using o [OF that] by simp
qed

lemma dir_len_seen: "dir_len st \<le> dir_seen st"
  by (simp add: dir_seen_def)

lemma dir_seen_bound: "dir_ok st \<Longrightarrow> dir_seen st \<le> 32 * unat (i_nr_sects (root_dir st))"
  unfolding dir_seen_def dir_ok_def by (cases "dir_len st = 32 * unat (i_nr_sects (root_dir st))") auto

lemma dir_tidyD:
  "dir_tidy st \<Longrightarrow> buf_word (fs_disk st 32) (dir_addr st + 16 * x) = 0 \<or> dir_len st \<le> x \<Longrightarrow> x < 32 * unat (i_nr_sects (root_dir st)) \<Longrightarrow>
     fs_disk st 32 (dir_addr st + 16 * x + 4) = 0"
  unfolding dir_tidy_def by blast

lemma entry_nr_zero: "entry_nr d b x = 0 \<longleftrightarrow> buf_word d (b + 16 * x) = 0"
proof -
  have "of_int (sint w) = w" for w :: u32
    by simp
  then have "sint w = 0 \<longleftrightarrow> w = 0" for w :: u32
    by (metis of_int_0 sint_0)
  then show ?thesis
    unfolding entry_nr_def .
qed

lemma tidy_named:
  assumes "dir_ok st" "dir_tidy st" "entry_named name (fs_disk st 32) (dir_addr st) x" "x < 32 * unat (i_nr_sects (root_dir st))" "name \<noteq> []" "0 \<notin> set name"
  shows "x < dir_len st" "entry_nr (fs_disk st 32) (dir_addr st) x \<noteq> 0"
proof -
  have "fs_disk st 32 (dir_addr st + 16 * x + 4) \<noteq> 0"
    using no_name assms(3,5,6) by blast
  then show "x < dir_len st" "entry_nr (fs_disk st 32) (dir_addr st) x \<noteq> 0"
    using dir_tidyD [OF assms(2) _ assms(4)] by (auto simp: entry_nr_zero not_less [symmetric])
qed

text \<open>In a tidy directory a search finds nothing exactly when no entry has the name.\<close>

lemma lookup_zero:
  assumes "dir_ok st" "dir_tidy st" "name \<noteq> []" "0 \<notin> set name" "dir_lookup name (fs_disk st 32) (dir_addr st) 0 (dir_seen st) = 0" "x < dir_seen st"
  shows "\<not> entry_named name (fs_disk st 32) (dir_addr st) x"
proof (cases "find (entry_named name (fs_disk st 32) (dir_addr st)) [0..<dir_seen st]")
  case None
  then show ?thesis
    using assms(6) by (simp add: find_None_iff_upt)
next
  case (Some y)
  then have y: "entry_nr (fs_disk st 32) (dir_addr st) y = 0" "y < dir_seen st" "entry_named name (fs_disk st 32) (dir_addr st) y"
    using assms(5) find_in [OF Some] by (simp_all add: dir_lookup_def)
  have "y < 32 * unat (i_nr_sects (root_dir st))"
    using y(2) dir_seen_bound [OF assms(1)] by simp
  then show ?thesis
    using tidy_named(2) [OF assms(1,2) y(3) _ assms(3,4)] y(1) by blast
qed

lemma insert_lookup:
  fixes name :: "u8 list" and nr :: int
  assumes ok: "dir_ok st" "dir_tidy st" "dir_room st" "0 < unat (i_nr_sects (root_dir st))"
    and name: "length name < 12" "name \<noteq> []" "0 \<notin> set name" "dir_lookup name (fs_disk st 32) (dir_addr st) 0 (dir_seen st) = 0"
    and nr: "0 < nr" "nr < 2 ^ 31"
  shows "\<exists>st'. new_directory_entry (root_inode st) name nr st = Inr st' \<and> dir_ok st' \<and> dir_tidy st' \<and>
     (\<forall>name'. length name' < 12 \<longrightarrow> name' \<noteq> [] \<longrightarrow> 0 \<notin> set name' \<longrightarrow>
        dir_lookup name' (fs_disk st' 32) (dir_addr st') 0 (dir_seen st') =
          (if name' = name then nr else dir_lookup name' (fs_disk st 32) (dir_addr st) 0 (dir_seen st)))"
proof -
  let ?b = "dir_addr st" and ?X = "dir_free st" and ?d = "fs_disk st 32" and ?N = "32 * unat (i_nr_sects (root_dir st))"
  obtain st' where st': "new_directory_entry (root_inode st) name nr st = Inr st'" "dir_ok st'" "dir_addr st' = ?b"
      "i_nr_sects (root_dir st') = i_nr_sects (root_dir st)" "dir_len st' = (if ?X = dir_len st then Suc (dir_len st) else dir_len st)"
      "\<forall>i \<ge> ?b. fs_disk st' 32 i = buf_write (?b + 16 * ?X) (dirent_bytes nr (name @ [0])) ?d i"
    using new_entry_effect [OF ok(1,3,4) name(1)] by blast
  note e = entry_after_write [OF st'(6) name(1,3) nr]
  have X: "?X < ?N" "?X \<le> dir_len st"
    using dir_free_bound [OF ok(1,3,4)] free_entry_bounds [of 0 "dir_len st"] by (simp_all add: dir_free_def)
  have "buf_word ?d (?b + 16 * ?X) = 0 \<or> dir_len st \<le> ?X"
    using dir_free_hole [of st] X(2) by (cases "?X < dir_len st") simp_all
  then have "?d (?b + 16 * ?X + 4) = 0"
    by (rule dir_tidyD [OF ok(2) _ X(1)])
  then have hole: "\<not> entry_named name' ?d ?b ?X" if "name' \<noteq> []" "0 \<notin> set name'" for name'
    by (rule no_name [OF _ that])
  have tidy: "dir_tidy st'"
    unfolding dir_tidy_def st'(3,4)
  proof (intro allI impI)
    fix x assume x: "buf_word (fs_disk st' 32) (?b + 16 * x) = 0 \<or> dir_len st' \<le> x" "x < ?N"
    then have "x \<noteq> ?X"
      using e(6) X(2) st'(5) by (auto split: if_split_asm)
    then show "fs_disk st' 32 (?b + 16 * x + 4) = 0"
      using x e(4,5) [of x] st'(5) dir_tidyD [OF ok(2) _ x(2)] by (auto split: if_split_asm)
  qed
  have b: "dir_seen st \<le> ?N" "dir_seen st' \<le> ?N" "dir_len st \<le> dir_seen st" "dir_len st' \<le> dir_seen st'" "dir_len st \<le> dir_len st'" "?X < dir_len st'"
    using dir_seen_bound [OF ok(1)] dir_seen_bound [OF st'(2)] st'(4,5) dir_len_seen [of st] dir_len_seen [of st'] X(2) by auto
  have same: "x < dir_seen st' \<and> entry_named name' (fs_disk st' 32) ?b x \<longleftrightarrow> x < dir_seen st \<and> entry_named name' ?d ?b x"
    if n: "length name' < 12" "name' \<noteq> []" "0 \<notin> set name'" "name' \<noteq> name" for name' x
  proof (cases "x = ?X")
    case True
    then show ?thesis
      using e(2) [OF n(3)] n(4) hole [OF n(2,3)] by simp
  next
    case False
    show ?thesis
      using e(3) [OF False n(1)] tidy_named(1) [OF ok(1,2) _ _ n(2,3), of x] b by (meson less_le_trans)
  qed
  have "find (entry_named name (fs_disk st' 32) ?b) [0..<dir_seen st'] = Some ?X"
    unfolding find_Some_upt
  proof (intro conjI allI impI)
    show "?X < dir_seen st'"
      using b by simp
    show "entry_named name (fs_disk st' 32) ?b ?X"
      using e(2) [OF name(3)] by simp
    fix y assume "y < ?X"
    then show "\<not> entry_named name (fs_disk st' 32) ?b y"
      using e(3) [of y name] name(1) lookup_zero [OF ok(1,2) name(2-4), of y] X(2) b(3) by simp
  qed
  then have new: "dir_lookup name (fs_disk st' 32) ?b 0 (dir_seen st') = nr"
    by (simp add: dir_lookup_def e(1))
  have old: "dir_lookup name' (fs_disk st' 32) ?b 0 (dir_seen st') = dir_lookup name' ?d ?b 0 (dir_seen st)"
    if n: "length name' < 12" "name' \<noteq> []" "0 \<notin> set name'" "name' \<noteq> name" for name'
  proof -
    have f: "find (entry_named name' (fs_disk st' 32) ?b) [0..<dir_seen st'] = find (entry_named name' ?d ?b) [0..<dir_seen st]"
      by (rule find_upt_cong) (rule same [OF n])
    show ?thesis
    proof (cases "find (entry_named name' ?d ?b) [0..<dir_seen st]")
      case (Some x)
      then have "x \<noteq> ?X"
        using find_in [OF Some] hole [OF n(2,3)] by auto
      then show ?thesis
        using f Some e(4) [of x] by (simp add: dir_lookup_def entry_nr_def)
    qed (use f in \<open>simp add: dir_lookup_def\<close>)
  qed
  show ?thesis
    using st'(1-3) tidy new old by auto
qed

end
