(* ===== verification/Descriptors.thy ===== *)
theory Descriptors
  imports Fs_Refs Files Directory
begin

text \<open>
  The properties of the file system that concern its tables: descriptors, cached inodes, the inode map and the root
  directory.
\<close>

section \<open>Reference counts\<close>

lemma fs_steps_inv:
  assumes "fs_step\<^sup>*\<^sup>* (st1, [], False) (st, L, taken)" "ref_inv [] st1"
  shows "if taken then \<exists>st2 L2 msg. fs_step\<^sup>*\<^sup>* (st1, [], False) (st2, L2, False) \<and> ref_inv L2 st2 \<and> takes_cached msg st2 else ref_inv L st"
  using assms(1)
proof (induction "(st, L, taken)" arbitrary: st L taken rule: rtranclp_induct)
  case base
  then show ?case
    using assms(2) by simp
next
  case (step h)
  obtain sta La ta where h: "h = (sta, La, ta)"
    by (cases h)
  show ?case
  proof (cases ta)
    case True
    then show ?thesis
      using step.hyps(3) [OF h] fs_step_taken [of sta La "(st, L, taken)"] step.hyps(2) h by auto
  next
    case False
    then show ?thesis
      using step.hyps(3) [OF h] fs_step_inv [of sta La st L taken] step.hyps(1,2) h by (auto split: if_splits)
  qed
qed

text \<open>
  C31. Reference counts are exact. From the start of the file system on, after any sequence of requests of
  processes, of children that inherit their parent's files and of changes elsewhere in the processes: a
  file slot of a process points to a descriptor in use, the count of a descriptor in use is the number
  of slots that point to it, no inode is cached twice, and the count of a cached inode is the number of
  those slots through its descriptors, one more for the root directory, and one more for each unlink
  request that was refused after the file had been found: such a request takes a reference and never
  gives it back, and the list \<open>L\<close> records them all. The counts can be lost in one way only, by a request
  to create a file that gets the number of an inode in use; it is made in a state in which they are still
  exact and in which an inode in use has no bit in the inode map.
\<close>
theorem reference_counts:
  assumes "init_fs geo junk st0 = Inr st1" "\<And>p i. valid_pid p \<Longrightarrow> i < 64 \<Longrightarrow> filp (fs_procs st0 p) i = None"
    "fs_step\<^sup>*\<^sup>* (st1, [], False) (st, L, taken)"
  shows "if taken
    then \<exists>st2 L2 msg. fs_step\<^sup>*\<^sup>* (st1, [], False) (st2, L2, False) \<and> ref_inv L2 st2 \<and> takes_cached msg st2 \<and> \<not> imap_ok st2
    else ref_inv L st"
  using fs_steps_inv [OF assms(3) init_fs_inv [OF assms(1,2)]] takes_cached_map by (auto split: if_splits)

definition disk2 :: buffer where
  "disk2 = buf_set 1536 0x4000 (buf_set 1024 3 (buf_set 536 1 (buf_set 532 4 (buf_set 524 1 (buf_set 512 0x111 (\<lambda>_. 0))))))"

definition fs2 :: fs_state where
  "fs2 = fs0\<lparr>fs_procs := (\<lambda>_. zero_process), fs_disk := (\<lambda>_. disk2), fs_mem := (\<lambda>_. 0x2F)\<rparr>"

definition open_msg2 :: MESSAGE where
  "open_msg2 = reset_msg\<lparr>source := 7, mtype := OPEN, m3i1 := O_RDWR, m3i2 := 1, m3p1 := 0x5000\<rparr>"

lemma find_inode_unused:
  "(\<forall>p\<in>set ps. i_cnt (t p) = 0) \<Longrightarrow> find_inode t dev n ps q = (None, if q = None \<and> ps \<noteq> [] then Some (hd ps) else q)"
  by (induction ps arbitrary: q) auto

lemma init_fs_formatted:
  assumes d: "buf_word (fs_disk st 32) 512 = MAGIC_V1" and s: "s = super_block_at (\<lambda>i. fs_disk st 32 (512 + i))"
    "layout_ok s" "inode_ok s 1"
  shows "\<exists>st'. init_fs geo junk st = Inr st' \<and> fs_procs st' = fs_procs st \<and> fs_disk st' = fs_disk st \<and> fs_mem st' = fs_mem st \<and>
     root_inode st' = 0 \<and> super_blocks st' 0 = s\<lparr>sb_dev := ROOT_DEV\<rparr> \<and> (\<forall>i < 64. fd_table st' i = zero_fd) \<and>
     inode_table st' 0 = disk_inode s (fs_disk st 32) 1 (zero_inode\<lparr>i_dev := ROOT_DEV, i_num := 1, i_cnt := 1\<rparr>) \<and>
     (\<forall>i < 64. 0 < i \<longrightarrow> inode_table st' i = zero_inode)"
proof -
  let ?d = "fs_disk st 32"
  have sb: "super_block_at (copy_range ?d 512 f 0 512) = s" for f
    unfolding s by (simp add: super_block_at_def buf_simps) (simp add: buf_word_def buf_bytes_def add.assoc)
  have mg: "magic s = MAGIC_V1"
    unfolding s using d by (simp add: super_block_at_def buf_word_def buf_bytes_def)
  have u: "[0..<8] = 0 # [1..<8 :: nat]" "[0..<64] = 0 # [1..<64 :: nat]"
    by (simp_all add: upt_conv_Cons)
  have rs: "rw_sector DEV_READ ROOT_DEV SECTOR_SIZE SECTOR_SIZE st1 = Inr (st1\<lparr>fsbuf := copy_range (fs_disk st1 32) 512 (fsbuf st1) 0 512\<rparr>)" for st1
    using rw_read_root [of 1 1 st1] by simp
  define st3 where "st3 = st\<lparr>fd_table := (\<lambda>i. if i < NR_FILE_DESC then zero_fd else fd_table st i),
      inode_table := (\<lambda>i. if i < NR_INODE then zero_inode else inode_table st i),
      super_blocks := (\<lambda>i. if i < NR_SUPER_BLOCK then (super_blocks st i)\<lparr>sb_dev := NO_DEV\<rparr> else super_blocks st i),
      fs_sent := fs_sent st @ [(TASK_HD, junk\<lparr>mtype := DEV_OPEN, m3i4 := MINOR ROOT_DEV\<rparr>)],
      fsbuf := copy_range ?d 512 (fsbuf st) 0 512\<rparr>"
  have i: "init_fs geo junk st = res_bind (read_super_block ROOT_DEV st3) (\<lambda>st5. res_bind (get_super_block ROOT_DEV st5) (\<lambda>(s, st6).
         res_bind (assert_c (magic s = MAGIC_V1) ''sb->magic == MAGIC_V1'') (\<lambda>_.
         res_bind (get_inode ROOT_DEV ROOT_INODE st6) (\<lambda>(r, st7). Inr (st7\<lparr>root_inode := r\<rparr>)))))"
    unfolding init_fs_def Let_def by (simp add: fs_send_def sb mg st3_def)
  define st5 where "st5 = st3\<lparr>fsbuf := copy_range ?d 512 (fsbuf st3) 0 512, super_blocks := (super_blocks st3)(0 := s\<lparr>sb_dev := ROOT_DEV\<rparr>)\<rparr>"
  have r5: "read_super_block ROOT_DEV st3 = Inr st5"
    unfolding read_super_block_def rs by (simp add: Let_def u sb) (simp add: st5_def st3_def sb)
  define x where "x = zero_inode\<lparr>i_dev := ROOT_DEV, i_num := 1, i_cnt := 1\<rparr>"
  have g: "get_super_block ROOT_DEV st' = Inr (s\<lparr>sb_dev := ROOT_DEV\<rparr>, st')" if "super_blocks st' 0 = s\<lparr>sb_dev := ROOT_DEV\<rparr>" for st'
    using that by (simp add: get_super_block_def fun_upd_idem)
  have f: "find_inode (inode_table st5) ROOT_DEV 1 [0..<64] None = (None, Some 0)"
    by (subst find_inode_unused) (auto simp: st5_def st3_def zero_inode_def)
  note a = inode_addr_split [OF s(2,3)]
  have l: "load_inode (copy_range ?d (512 * nat (inode_sect s 1)) h 0 512) (nat (inode_off 1)) y = load_inode ?d (inode_addr s 1) y" for h y
    using load_inode_copy [OF a(2)] a(1) by simp
  have "get_inode ROOT_DEV ROOT_INODE st5 = Inr (0, upd_inode 0 (\<lambda>_. disk_inode s ?d 1 x)
      (st5\<lparr>fsbuf := copy_range ?d (512 * nat (inode_sect s 1)) (fsbuf st5) 0 512\<rparr>))"
    using a unfolding get_inode_def f
    by (simp add: g l upd_inode_def disk_inode_def) (simp add: st5_def st3_def x_def zero_inode_def l)
  then show ?thesis
    unfolding i r5 by (simp add: g mg upd_inode_def x_def st5_def) (simp add: st3_def)
qed

lemma buf_word_zero [buf_simps]: "buf_word (\<lambda>_. 0) a = 0"
  by (simp add: buf_word_def buf_bytes_def word_of_def upt_rec)

lemma buf_word_shift: "buf_word (\<lambda>i. f (a + i)) b = buf_word f (a + b)"
  by (simp add: buf_word_def buf_bytes_def add.assoc)

lemma fs2_init:
  "\<exists>st. init_fs geo reset_msg fs2 = Inr st \<and> fs_procs st = (\<lambda>_. zero_process) \<and> root_inode st = 0 \<and> fs_disk st = (\<lambda>_. disk2) \<and>
     fs_mem st = (\<lambda>_. 0x2F) \<and> (\<forall>i < 64. fd_table st i = zero_fd) \<and> i_dev (inode_table st 0) = ROOT_DEV \<and> i_num (inode_table st 0) = 1 \<and>
     i_cnt (inode_table st 0) = 1 \<and> i_mode (inode_table st 0) = I_DIRECTORY \<and> (\<forall>i < 64. 0 < i \<longrightarrow> inode_table st i = zero_inode)"
proof -
  define s where "s = super_block_at (\<lambda>i. fs_disk fs2 32 (512 + i))"
  have s: "nr_imap_sects s = 1" "nr_smap_sects s = 0" "n_1st_sect s = 4" "nr_inode_sects s = 1"
    by (simp_all add: s_def super_block_at_def buf_word_shift fs2_def disk2_def buf_simps)
  have "buf_word (fs_disk fs2 32) 512 = MAGIC_V1" "layout_ok s" "inode_ok s 1"
    using s by (simp_all add: fs2_def disk2_def buf_simps layout_ok_def inode_ok_def)
  from init_fs_formatted [OF this(1) s_def this(2,3), of geo reset_msg] show ?thesis
    using s by (auto simp: fs2_def disk_inode_def load_inode_def inode_addr_def disk2_def buf_simps zero_inode_def)
qed

lemma fs2_open:
  assumes "fs_procs st = (\<lambda>_. zero_process)" "root_inode st = 0" "fs_mem st = (\<lambda>_. 0x2F)" "\<forall>i < 64. fd_table st i = zero_fd"
    "i_dev (inode_table st 0) = ROOT_DEV" "i_num (inode_table st 0) = 1" "i_cnt (inode_table st 0) = 1" "i_mode (inode_table st 0) = I_DIRECTORY"
  shows "\<exists>m st'. fs_handle ans junk open_msg2 st = Inr (m, st') \<and> m3i1 m = 0 \<and> fd_cnt (fd_table st' 0) = 1 \<and> i_cnt (inode_table st' 0) = 2"
proof -
  have u: "[0..<64] = 0 # [1..<64 :: nat]" 
    by (simp_all add: upt_conv_Cons)
  have "va2la (fs_procs st) 7 0x5000 = Inr 0x5000"
    by (simp add: assms va2la_def zero_process_def ldt_seg_linear_def descriptor_base_def zero_descriptor_def)
  then have p: "fetch_path 7 0x5000 1 st = Inr [0x2F]"
    by (simp add: fetch_path_def assms mem_bytes_def)
  have "search_file [0x2F] st = Inr (1, st)"
    by (simp add: search_file_def strip_path_def assms)
  then have o: "open_node [0x2F] O_RDWR st = Inr (Some (1, 0), upd_inode 0 (\<lambda>x. x\<lparr>i_cnt := i_cnt x + 1\<rparr>) st)"
    using assms by (simp add: open_node_def strip_path_def get_inode_def u)
  show ?thesis
    using p o assms
    by (simp add: fs_handle_def open_msg2_def fs_result_def do_open_def u zero_process_def zero_fd_def open_device_def upd_fd_def upd_inode_def set_filp_def)
qed

theorem reference_counts_witness:
  "\<exists>st1 m st2. init_fs \<lparr>pbase = 0, psize = 0\<rparr> reset_msg fs2 = Inr st1 \<and> fs_handle reset_msg reset_msg open_msg2 st1 = Inr (m, st2) \<and>
     fs_step\<^sup>*\<^sup>* (st1, [], False) (st2, [], False) \<and> ref_inv [] st2 \<and> fd_cnt (fd_table st2 0) = 1 \<and> i_cnt (inode_table st2 0) = 2"
proof -
  obtain st1 where i: "init_fs \<lparr>pbase = 0, psize = 0\<rparr> reset_msg fs2 = Inr st1" "fs_procs st1 = (\<lambda>_. zero_process)" "root_inode st1 = 0"
      "fs_disk st1 = (\<lambda>_. disk2)" "fs_mem st1 = (\<lambda>_. 0x2F)" "\<forall>i < 64. fd_table st1 i = zero_fd" "i_dev (inode_table st1 0) = ROOT_DEV"
      "i_num (inode_table st1 0) = 1" "i_cnt (inode_table st1 0) = 1" "i_mode (inode_table st1 0) = I_DIRECTORY"
      "\<forall>i < 64. 0 < i \<longrightarrow> inode_table st1 i = zero_inode"
    using fs2_init by blast
  obtain m st2 where h: "fs_handle reset_msg reset_msg open_msg2 st1 = Inr (m, st2)" "fd_cnt (fd_table st2 0) = 1" "i_cnt (inode_table st2 0) = 2"
    using fs2_open [OF i(2,3,5-10)] by blast
  have "fs_step (st1, [], False) (st2, unlink_kept open_msg2 st1 @ [], False \<or> takes_cached open_msg2 st1)"
    by (rule fs_step.request [OF h(1)]) (simp_all add: open_msg2_def valid_pid_def)
  then have "fs_step\<^sup>*\<^sup>* (st1, [], False) (st2, [], False)"
    by (simp add: unlink_kept_def takes_cached_def open_msg2_def)
  then have "fs_step\<^sup>*\<^sup>* (st1, [], False) (st2, [], False) \<and> ref_inv [] st2"
    using reference_counts [OF i(1), of st2 "[]" False] by (simp add: fs2_def zero_process_def)
  then show ?thesis
    using i(1) h by blast
qed

section \<open>The inode map\<close>

lemma free_bit_first:
  "free_bit b ks = Some k \<Longrightarrow> \<exists>us vs. ks = us @ k # vs \<and> (\<forall>u\<in>set us. bit b u) \<and> \<not> bit b k"
proof (induction ks)
  case (Cons a ks)
  show ?case
  proof (cases "bit b a")
    case True
    then obtain us vs where "ks = us @ k # vs" "\<forall>u\<in>set us. bit b u" "\<not> bit b k"
      using Cons by (auto simp: and_exp_eq_0_iff_not_bit)
    then show ?thesis
      using True by (intro exI [of _ "a # us"] exI [of _ vs]) simp
  next
    case False
    then show ?thesis
      using Cons.prems by (intro exI [of _ "[]"] exI [of _ ks]) (simp add: and_exp_eq_0_iff_not_bit)
  qed
qed simp

lemma free_bit_None: "free_bit b ks = None \<Longrightarrow> \<forall>k\<in>set ks. bit b k"
  by (induction ks) (auto simp: and_exp_eq_0_iff_not_bit split: if_split_asm)

lemma upt_split_less:
  assumes "[0..<n] = us @ k # vs" "i < k"
  shows "i \<in> set us"
proof -
  have s: "sorted_wrt (<) (us @ k # vs)" "k \<in> set [0..<n]"
    unfolding assms(1) [symmetric] by simp (simp add: assms(1))
  then have "i \<in> set (us @ k # vs)"
    unfolding assms(1) [symmetric] using assms(2) by simp
  then show ?thesis
    using s(1) assms(2) by (auto simp: sorted_wrt_append)
qed

text \<open>A byte without a free bit; the first free bit of a byte.\<close>

definition full_byte :: "u8 \<Rightarrow> bool" where
  "full_byte b \<longleftrightarrow> (\<forall>k < 8. bit b k)"

lemma full_byte_FF: "full_byte 0xff"
  by (simp add: full_byte_def numeral_eq_Suc less_Suc_eq bit_simps)

lemma free_bit_full: "free_bit b [0..<8] = None \<Longrightarrow> full_byte b"
  using free_bit_None [of b "[0..<8]"] by (simp add: full_byte_def)

lemma find_bit_None: "find_bit f js = None \<Longrightarrow> \<forall>j\<in>set js. full_byte (f j)"
  by (induction js) (auto simp: full_byte_FF free_bit_full split: if_split_asm option.split_asm)

lemma find_bit_first:
  "find_bit f js = Some (j, k) \<Longrightarrow> \<exists>us vs. js = us @ j # vs \<and> (\<forall>u\<in>set us. full_byte (f u)) \<and> k < 8 \<and> \<not> bit (f j) k \<and> (\<forall>i < k. bit (f j) i)"
proof (induction js)
  case (Cons a js)
  show ?case
  proof (cases "f a = 0xff \<or> free_bit (f a) [0..<8] = None")
    case True
    then have "full_byte (f a)" "find_bit f js = Some (j, k)"
      using Cons.prems free_bit_full [of "f a"] full_byte_FF by (auto split: if_split_asm option.split_asm)
    then obtain us vs where "js = us @ j # vs" "\<forall>u\<in>set us. full_byte (f u)" "k < 8" "\<not> bit (f j) k" "\<forall>i < k. bit (f j) i"
      using Cons.IH by blast
    then show ?thesis
      using \<open>full_byte (f a)\<close> by (intro exI [of _ "a # us"] exI [of _ vs]) simp
  next
    case False
    then have f: "a = j" "free_bit (f j) [0..<8] = Some k"
      using Cons.prems by auto
    obtain us vs where u: "[0..<8] = us @ k # vs" "\<forall>u\<in>set us. bit (f j) u" "\<not> bit (f j) k"
      using free_bit_first [OF f(2)] by blast
    have "k \<in> set [0..<8]"
      unfolding u(1) by simp
    then have "k < 8"
      by simp
    then show ?thesis
      using u(2,3) upt_split_less [OF u(1)] f(1) by - (rule exI [of _ "[]"], rule exI [of _ js], simp)
  qed
qed simp

lemma alloc_imap_loop_first:
  assumes "i0 * 512 \<le> b" "b < N * 512" "\<not> full_byte (fs_disk st 32 (1024 + b))"
  shows "\<exists>m k st'. alloc_imap_loop ROOT_DEV [i0..<N] st = Inr (int (m * 8 + k), st') \<and> k < 8 \<and> \<not> bit (fs_disk st 32 (1024 + m)) k \<and>
     (\<forall>b < k. bit (fs_disk st 32 (1024 + m)) b) \<and> (\<forall>a. i0 * 512 \<le> a \<longrightarrow> a < m \<longrightarrow> full_byte (fs_disk st 32 (1024 + a))) \<and>
     fs_disk st' = (fs_disk st)(32 := (fs_disk st 32)(1024 + m := fs_disk st 32 (1024 + m) OR push_bit k 1))"
  using assms
proof (induction "N - i0" arbitrary: i0 st)
  case (Suc x)
  then have u: "[i0..<N] = i0 # [Suc i0..<N]"
    by (simp add: upt_conv_Cons)
  let ?a = "1024 + 512 * i0"
  define st1 where "st1 = st\<lparr>fsbuf := copy_range (fs_disk st 32) ?a (fsbuf st) 0 512\<rparr>"
  have r: "RD_SECT ROOT_DEV (2 + int i0) st = Inr st1"
    by (simp add: st1_def nat_add_distrib)
  have f: "fsbuf st1 j = fs_disk st 32 (?a + j)" if "j < 512" for j
    using that by (simp add: st1_def copy_range_def)
  have at: "full_byte (fs_disk st 32 (1024 + a))" if "full_byte (fsbuf st1 (a - 512 * i0))" "i0 * 512 \<le> a" "a < Suc i0 * 512" for a
  proof -
    have "a - 512 * i0 < 512" "?a + (a - 512 * i0) = 1024 + a"
      using that by simp_all
    then show ?thesis
      using that(1) f by metis
  qed
  show ?case
  proof (cases "find_bit (fsbuf st1) [0..<512]")
    case None
    have full: "full_byte (fs_disk st 32 (1024 + a))" if "i0 * 512 \<le> a" "a < Suc i0 * 512" for a
      using find_bit_None [OF None] that by (intro at) auto
    then have "\<not> b < Suc i0 * 512"
      using Suc.prems by blast
    then have "\<exists>m k st'. alloc_imap_loop ROOT_DEV [Suc i0..<N] st1 = Inr (int (m * 8 + k), st') \<and> k < 8 \<and> \<not> bit (fs_disk st1 32 (1024 + m)) k \<and>
        (\<forall>b < k. bit (fs_disk st1 32 (1024 + m)) b) \<and> (\<forall>a. Suc i0 * 512 \<le> a \<longrightarrow> a < m \<longrightarrow> full_byte (fs_disk st1 32 (1024 + a))) \<and>
        fs_disk st' = (fs_disk st1)(32 := (fs_disk st1 32)(1024 + m := fs_disk st1 32 (1024 + m) OR push_bit k 1))"
      using Suc.hyps(2) Suc.prems by (intro Suc.hyps(1)) (simp_all add: st1_def)
    moreover have "alloc_imap_loop ROOT_DEV [i0..<N] st = alloc_imap_loop ROOT_DEV [Suc i0..<N] st1" "fs_disk st1 = fs_disk st"
      using None r by (simp_all add: u) (simp add: st1_def)
    ultimately show ?thesis
      using full by (metis not_le_imp_less)
  next
    case (Some x)
    then obtain j k where x: "find_bit (fsbuf st1) [0..<512] = Some (j, k)"
      by (cases x) auto
    obtain us vs where s: "[0..<512] = us @ j # vs" "\<forall>u\<in>set us. full_byte (fsbuf st1 u)" "k < 8" "\<not> bit (fsbuf st1 j) k" "\<forall>b < k. bit (fsbuf st1 j) b"
      using find_bit_first [OF x] by blast
    have "j \<in> set [0..<512]"
      unfolding s(1) by simp
    then have j: "j < 512"
      by simp
    have low: "full_byte (fs_disk st 32 (1024 + a))" if "i0 * 512 \<le> a" "a < j + i0 * 512" for a
      using s(2) upt_split_less [OF s(1), of "a - 512 * i0"] j that by (intro at) auto
    have m: "1024 + (j + i0 * 512) = ?a + j"
      by simp
    define st' where "st' = st1\<lparr>fsbuf := (fsbuf st1)(j := fsbuf st1 j OR push_bit k 1), fs_disk := (fs_disk st)(32 := (fs_disk st 32)(?a + j := fs_disk st 32 (?a + j) OR push_bit k 1))\<rparr>"
    have al: "alloc_imap_loop ROOT_DEV [i0..<N] st = Inr (int ((j + i0 * 512) * 8 + k), st')"
      using r x f [OF j] byte_rewrite [OF j, of "fs_disk st 32" ?a "fsbuf st"]
      by (simp add: u nat_add_distrib st'_def) (simp add: st1_def)
    have "fs_disk st' = (fs_disk st)(32 := (fs_disk st 32)(?a + j := fs_disk st 32 (?a + j) OR push_bit k 1))"
      by (simp add: st'_def)
    then show ?thesis
      using al low s(3-5) unfolding f [OF j] m [symmetric] by blast
  qed
qed simp

text \<open>Numbers and the bytes and bits they stand for.\<close>

lemma div_mod_8: "(n :: nat) < m * 8 + k \<Longrightarrow> k < 8 \<Longrightarrow> n div 8 < m \<or> n div 8 = m \<and> n mod 8 < k"
proof -
  assume n: "n < m * 8 + k" "k < 8"
  have "q < m \<or> q = m \<and> r < k" if "q * 8 + r = n" for q r
    using n that by arith
  then show ?thesis
    using div_mult_mod_eq [of n 8] by blast
qed

lemma imap_bit_less:
  assumes "\<forall>a < m. full_byte (fs_disk st (MINOR dev) (1024 + a))" "\<forall>b < k. bit (fs_disk st (MINOR dev) (1024 + m)) b" "k < 8" "n < m * 8 + k"
  shows "imap_bit dev st (int n)"
  using div_mod_8 [OF assms(4,3)] assms(1,2) by (auto simp: imap_bit_def full_byte_def)

text \<open>
  Inode numbers are allocated correctly: when a number of the inode map is free, \<^verbatim>\<open>alloc_imap_bit\<close>
  returns the lowest free number, marks exactly this number in the map on the disk and changes no other
  byte of the disk.
\<close>
theorem alloc_imap_correct:
  assumes "n < 4096 * unat (nr_imap_sects (super_blocks st 0))" "\<not> imap_bit ROOT_DEV st (int n)"
  shows "\<exists>nr st'. alloc_imap_bit ROOT_DEV st = Inr (int nr, st') \<and> \<not> imap_bit ROOT_DEV st (int nr) \<and> (\<forall>m < nr. imap_bit ROOT_DEV st (int m)) \<and>
     (\<forall>m. imap_bit ROOT_DEV st' (int m) \<longleftrightarrow> m = nr \<or> imap_bit ROOT_DEV st (int m)) \<and>
     (\<forall>a. a \<noteq> 1024 + nr div 8 \<longrightarrow> fs_disk st' 32 a = fs_disk st 32 a) \<and> (\<forall>d. d \<noteq> 32 \<longrightarrow> fs_disk st' d = fs_disk st d)"
proof -
  define N where "N = unat (nr_imap_sects (super_blocks st 0))"
  define st1 where "st1 = st\<lparr>super_blocks := (super_blocks st)(0 := (super_blocks st 0)\<lparr>sb_dev := ROOT_DEV\<rparr>)\<rparr>"
  have d: "fs_disk st1 = fs_disk st"
    by (simp add: st1_def)
  have "n div 8 < N * 512"
    using assms(1) unfolding N_def [symmetric] by (simp add: less_mult_imp_div_less)
  moreover have "n mod 8 < 8"
    by simp
  then have "\<not> full_byte (fs_disk st 32 (1024 + n div 8))"
    using assms(2) unfolding full_byte_def imap_bit_def nat_int root_dev by blast
  ultimately obtain m k st' where l: "alloc_imap_loop ROOT_DEV [0..<N] st1 = Inr (int (m * 8 + k), st')" "k < 8"
      "\<forall>b < k. bit (fs_disk st 32 (1024 + m)) b" "\<forall>a < m. full_byte (fs_disk st 32 (1024 + a))"
      "fs_disk st' = (fs_disk st)(32 := (fs_disk st 32)(1024 + m := fs_disk st 32 (1024 + m) OR push_bit k 1))"
    using alloc_imap_loop_first [of 0 "n div 8" N st1] unfolding d by auto
  have al: "alloc_imap_bit ROOT_DEV st = Inr (int (m * 8 + k), st')"
    using l(1) by (simp add: alloc_imap_bit_def N_def st1_def)
  have "(m * 8 + k) div 8 = m"
    using l(2) by simp
  then have "\<forall>a. a \<noteq> 1024 + (m * 8 + k) div 8 \<longrightarrow> fs_disk st' 32 a = fs_disk st 32 a" "\<forall>d. d \<noteq> 32 \<longrightarrow> fs_disk st' d = fs_disk st d"
    by (simp_all add: l(5))
  moreover have "\<forall>n < m * 8 + k. imap_bit ROOT_DEV st (int n)"
    using imap_bit_less [of m st ROOT_DEV k] l(2-4) by simp
  moreover have "\<forall>n. imap_bit ROOT_DEV st' (int n) \<longleftrightarrow> n = m * 8 + k \<or> imap_bit ROOT_DEV st (int n)"
    using alloc_imap_spec(3) [OF al] by (metis of_nat_0_le_iff of_nat_eq_iff)
  ultimately show ?thesis
    using al alloc_imap_spec(2) [OF al] by blast
qed

theorem alloc_imap_correct_witness:
  "\<exists>nr st'. alloc_imap_bit ROOT_DEV fs2 = Inr (int nr, st') \<and> \<not> imap_bit ROOT_DEV fs2 (int nr) \<and> imap_bit ROOT_DEV st' (int nr)"
proof -
  have "\<not> imap_bit ROOT_DEV fs2 (int 2)"
    by (simp add: imap_bit_def fs2_def disk2_def buf_set_def buf_write_def bytes_of_def)
  moreover have "2 < 4096 * unat (nr_imap_sects (super_blocks fs2 0))"
    by (simp add: fs2_def fs0_def sb0_def)
  ultimately show ?thesis
    using alloc_imap_correct [of 2 fs2] by blast
qed

section \<open>The root directory\<close>

text \<open>
  C37. \<^verbatim>\<open>search_file\<close> is a search through the entries of the root directory in their order: for a path with a
  name in the root directory, reading sector after sector, it returns the inode number of the first entry
  with this name, 0 if there is none, and changes nothing but the sector buffer. It looks at one entry
  behind the last one as well, unless the last sector is full.
\<close>
theorem search_file_linear:
  assumes "dir_ok st" "strip_path MAX_FILENAME_LEN path = Inr (Some name)" "name \<noteq> []"
  shows "\<exists>f. search_file path st =
     Inr (case find (\<lambda>x. name_at name (fs_disk st 32) (dir_addr st + 16 * x + 4)) [0..<dir_seen st] of
            None \<Rightarrow> 0 | Some x \<Rightarrow> sint (buf_word (fs_disk st 32) (dir_addr st + 16 * x)), st\<lparr>fsbuf := f\<rparr>)"
  using search_file_lookup [OF assms]
  unfolding dir_lookup_def entry_named_def [abs_def] entry_nr_def .

text \<open>A directory with the entry of the root itself and five holes.\<close>

definition disk3 :: buffer where
  "disk3 = buf_write 134144 (dirent_bytes 1 [0x2E, 0]) (\<lambda>_. 0)"

definition fs3 :: fs_state where
  "fs3 = fs0\<lparr>fs_disk := (\<lambda>_. disk3)\<rparr>"

lemma fs3_root [simp]: "root_dir fs3 = root0" "dir_len fs3 = 6" "dir_addr fs3 = 134144" "dir_seen fs3 = 7" "fs_disk fs3 32 = disk3"
  by (simp_all add: fs3_def fs0_def root0_def dir_len_def dir_addr_def dir_seen_def data_addr_def)

lemma disk3_simps [simp]: "buf_word disk3 134144 = 1" "134150 \<le> i \<Longrightarrow> disk3 i = 0" "134150 \<le> i \<Longrightarrow> buf_word disk3 i = 0" "disk3 134148 = 0x2E" "disk3 134149 = 0"
proof -
  show z: "disk3 i = 0" if "134150 \<le> i" for i
    using that by (simp add: disk3_def dirent_bytes_def bytes_of_def buf_simps)
  show "buf_word disk3 i = 0" if "134150 \<le> i" for i
    using buf_word_cong [of i disk3 "\<lambda>_. 0"] z that by (simp add: buf_simps)
  show "buf_word disk3 134144 = 1"
    by (simp add: disk3_def dirent_bytes_def bytes_of_def buf_word_def buf_bytes_def word_of_def buf_write_def upt_rec)
  show "disk3 134148 = 0x2E" "disk3 134149 = 0"
    by (simp_all add: disk3_def dirent_bytes_def bytes_of_def buf_write_def)
qed

lemma fs3_ok: "dir_ok fs3" "dir_tidy fs3" "dir_free fs3 = 1" "dir_room fs3"
proof -
  show "dir_ok fs3"
    unfolding dir_ok_def by simp (simp add: fs3_def fs0_def root0_def sb0_def layout_ok_def inode_ok_def)
  have "disk3 (134144 + 16 * x + 4) = 0" if "buf_word disk3 (134144 + 16 * x) = 0 \<or> 6 \<le> x" for x
    using that by (cases "x = 0") simp_all
  then show "dir_tidy fs3"
    unfolding dir_tidy_def by simp
  show f: "dir_free fs3 = 1"
    by (simp add: dir_free_def free_entry_def upt_rec)
  show "dir_room fs3"
    unfolding dir_room_def f by simp
qed

theorem search_file_linear_witness: "\<exists>f. search_file [0x2F, 0x2E] fs3 = Inr (1, fs3\<lparr>fsbuf := f\<rparr>)"
  using search_file_linear [OF fs3_ok(1), of "[0x2F, 0x2E]" "[0x2E]"] by (simp add: strip_path_def upt_rec)

text \<open>
  C36. A file that is added to the root directory is found. When the directory has room, its holes and the
  space behind it have no names, and a search for the name finds nothing, \<^verbatim>\<open>new_directory_entry\<close> returns;
  afterwards a search for the name returns the new inode number, a search for any other name returns what
  it returned before, and holes and free space still have no names.
\<close>
theorem directory_insert:
  assumes "dir_ok st" "dir_tidy st" "dir_room st" "0 < unat (i_nr_sects (root_dir st))"
    "strip_path MAX_FILENAME_LEN path = Inr (Some name)" "name \<noteq> []" "0 \<notin> set path" "search_file path st = Inr (0, st0)"
    "0 < nr" "nr < 2 ^ 31"
  shows "\<exists>st'. new_directory_entry (root_inode st) name nr st = Inr st' \<and> dir_ok st' \<and> dir_tidy st' \<and>
     (\<exists>st1. search_file path st' = Inr (nr, st1)) \<and>
     (\<forall>path' name' r st1. strip_path MAX_FILENAME_LEN path' = Inr (Some name') \<longrightarrow> name' \<noteq> [] \<longrightarrow> name' \<noteq> name \<longrightarrow> 0 \<notin> set path' \<longrightarrow>
        search_file path' st = Inr (r, st1) \<longrightarrow> (\<exists>st2. search_file path' st' = Inr (r, st2)))"
proof -
  have "dir_lookup name (fs_disk st 32) (dir_addr st) 0 (dir_seen st) = 0"
    using search_file_lookup [OF assms(1,5,6)] assms(8) by auto
  moreover have "length name < 12" "0 \<notin> set name"
    using strip_path_length [OF assms(5)] strip_path_set [OF assms(5)] assms(7) by auto
  ultimately obtain st' where st': "new_directory_entry (root_inode st) name nr st = Inr st'" "dir_ok st'" "dir_tidy st'"
      "\<forall>name'. length name' < 12 \<longrightarrow> name' \<noteq> [] \<longrightarrow> 0 \<notin> set name' \<longrightarrow>
        dir_lookup name' (fs_disk st' 32) (dir_addr st') 0 (dir_seen st') =
          (if name' = name then nr else dir_lookup name' (fs_disk st 32) (dir_addr st) 0 (dir_seen st))"
    using insert_lookup [OF assms(1-4) _ assms(6) _ _ assms(9,10)] by blast
  have s: "\<exists>st1. search_file p st' = Inr (if n = name then nr else dir_lookup n (fs_disk st 32) (dir_addr st) 0 (dir_seen st), st1)"
    if "strip_path MAX_FILENAME_LEN p = Inr (Some n)" "n \<noteq> []" "0 \<notin> set p" for p n
    using search_file_lookup [OF st'(2) that(1,2)] st'(4) strip_path_length [OF that(1)] strip_path_set [OF that(1)] that(2,3) by fastforce
  have "\<exists>st2. search_file p st' = Inr (r, st2)"
    if "strip_path MAX_FILENAME_LEN p = Inr (Some n)" "n \<noteq> []" "n \<noteq> name" "0 \<notin> set p" "search_file p st = Inr (r, st1)" for p n r st1
    using s [OF that(1,2,4)] search_file_lookup [OF assms(1) that(1,2)] that(3,5) by auto
  then show ?thesis
    using st'(1-3) s [OF assms(5,6,7)] by auto
qed

theorem directory_insert_witness:
  "\<exists>st' st1. new_directory_entry (root_inode fs3) [0x61, 0x62] 7 fs3 = Inr st' \<and> dir_tidy st' \<and> search_file [0x2F, 0x61, 0x62] st' = Inr (7, st1)"
proof -
  have p: "strip_path MAX_FILENAME_LEN [0x2F, 0x61, 0x62] = Inr (Some [0x61, 0x62])"
    by (simp add: strip_path_def)
  have "dir_lookup [0x61, 0x62] disk3 134144 0 7 = 0"
    by (simp add: dir_lookup_def entry_named_def upt_rec)
  then obtain st0 where "search_file [0x2F, 0x61, 0x62] fs3 = Inr (0, st0)"
    using search_file_lookup [OF fs3_ok(1) p] by auto
  from directory_insert [OF fs3_ok(1,2,4) _ p _ _ this, of 7] show ?thesis
    by (auto simp: root0_def)
qed

end
