(* ===== verification/Allocation.thy ===== *)
theory Allocation
  imports Descriptors
begin

text \<open>
  The sector map: \<^verbatim>\<open>alloc_smap_bit\<close> takes the first free sectors of the map, \<^verbatim>\<open>do_unlink\<close> gives the sectors of a
  file back.
\<close>

section \<open>Bits of a buffer\<close>

text \<open>Bit \<open>b\<close> of a buffer that starts at byte \<open>a\<close>; the free bits of a list of bits.\<close>

definition map_bit :: "buffer \<Rightarrow> nat \<Rightarrow> bool" where
  "map_bit f b \<longleftrightarrow> bit (f (b div 8)) (b mod 8)"

definition free_bits :: "buffer \<Rightarrow> nat list \<Rightarrow> nat list" where
  "free_bits f bs = filter (\<lambda>b. \<not> map_bit f b) bs"

text \<open>The first \<open>n\<close> free bits of \<open>bs\<close> are taken.\<close>

definition taken :: "nat \<Rightarrow> nat list \<Rightarrow> buffer \<Rightarrow> buffer \<Rightarrow> bool" where
  "taken n bs f f' \<longleftrightarrow> (\<forall>b. map_bit f' b \<longleftrightarrow> map_bit f b \<or> b \<in> set (take n (free_bits f bs)))"

lemma map_bit_byte:
  assumes "\<And>k. k < 8 \<Longrightarrow> map_bit f (8 * a + k) = map_bit g (8 * a + k)"
  shows "f a = g a"
proof (rule bit_eqI)
  fix k
  assume "possible_bit TYPE(8 word) k"
  then have "k < 8" "(8 * a + k) div 8 = a" "(8 * a + k) mod 8 = k"
    by (simp_all add: possible_bit_word)
  then show "bit (f a) k = bit (g a) k"
    using assms [of k] by (simp add: map_bit_def)
qed

lemma map_bit_ext: "(\<And>b. map_bit f b = map_bit g b) \<Longrightarrow> f = g"
  by (intro ext map_bit_byte)

lemma byte_bit_eq: "k < 8 \<Longrightarrow> b div 8 = j \<Longrightarrow> b = 8 * j + k \<longleftrightarrow> b mod 8 = k" for b :: nat
  by (metis add_left_cancel mult_div_mod_eq)

lemma map_bit_set:
  assumes "k < 8"
  shows "map_bit (f(j := f j OR push_bit k 1)) b \<longleftrightarrow> map_bit f b \<or> b = 8 * j + k"
proof (cases "b div 8 = j")
  case True
  have "bit (f j OR push_bit k 1) (b mod 8) \<longleftrightarrow> bit (f j) (b mod 8) \<or> b mod 8 = k"
    using assms by (auto simp: bit_or_iff bit_exp_iff possible_bit_word)
  then show ?thesis
    unfolding map_bit_def byte_bit_eq [OF assms True] using True by simp
next
  case False
  then show ?thesis
    using assms by (auto simp: map_bit_def)
qed

lemma free_bits_simps [simp]:
  "free_bits f [] = []" "free_bits f (b # bs) = (if map_bit f b then free_bits f bs else b # free_bits f bs)"
  "free_bits f (xs @ ys) = free_bits f xs @ free_bits f ys" "set (free_bits f bs) = {b \<in> set bs. \<not> map_bit f b}"
  by (simp_all add: free_bits_def)

lemma free_bits_cong: "(\<And>b. b \<in> set bs \<Longrightarrow> map_bit f b = map_bit g b) \<Longrightarrow> free_bits f bs = free_bits g bs"
  unfolding free_bits_def by (rule filter_cong) simp_all

lemma take_subset: "b \<in> set (take n xs) \<Longrightarrow> b \<in> set xs"
  by (rule in_set_takeD)

lemma taken_free: "taken n xs f g \<Longrightarrow> set xs \<inter> set ys = {} \<Longrightarrow> free_bits g ys = free_bits f ys"
  by (rule free_bits_cong) (auto simp: taken_def dest!: take_subset)

lemma taken_append:
  assumes "taken n xs f g" "taken (n - length (free_bits f xs)) ys g h" "set xs \<inter> set ys = {}"
  shows "taken n (xs @ ys) f h" "free_bits g ys = free_bits f ys"
  using assms(1,2) taken_free [OF assms(1,3)] by (auto simp: taken_def)

section \<open>The loops of the allocation\<close>

text \<open>The sector of bit \<open>b\<close>, and the first sector of a list of free bits.\<close>

definition bit_sect :: "u32 \<Rightarrow> nat \<Rightarrow> int" where
  "bit_sect n1 b = sint (of_nat b - 1 + n1)"

definition first_sect :: "u32 \<Rightarrow> nat \<Rightarrow> int \<Rightarrow> nat list \<Rightarrow> int" where
  "first_sect n1 c s bs = (if s \<noteq> 0 \<or> bs = [] then s else bit_sect n1 (c + hd bs))"

lemma first_sect_simps [simp]: "first_sect n1 c s [] = s" "s \<noteq> 0 \<Longrightarrow> first_sect n1 c s bs = s" "first_sect n1 c 0 (b # bs) = bit_sect n1 (c + b)"
  by (simp_all add: first_sect_def)

lemma first_sect_append:
  "(\<And>b. b \<in> set xs \<Longrightarrow> bit_sect n1 (c + b) \<noteq> 0) \<Longrightarrow> first_sect n1 c (first_sect n1 c s xs) ys = first_sect n1 c s (xs @ ys)"
  by (cases xs) (auto simp: first_sect_def)

lemma smap_byte_takes:
  assumes "\<forall>k\<in>set ks. k < 8" "distinct ks" "\<And>k. k \<in> set ks \<Longrightarrow> bit_sect n1 (4096 * i + (8 * j + k)) \<noteq> 0"
  shows "\<exists>f'. smap_byte i j n1 ks (f, s, int left) =
       Inr (f', first_sect n1 (4096 * i) s (free_bits f (map (\<lambda>k. 8 * j + k) ks)), int (left - length (free_bits f (map (\<lambda>k. 8 * j + k) ks)))) \<and>
     taken left (map (\<lambda>k. 8 * j + k) ks) f f'"
  using assms
proof (induction ks arbitrary: f s left)
  case Nil
  then show ?case
    by (simp add: taken_def)
next
  case (Cons k ks)
  have k: "k < 8" "map_bit f (8 * j + k) = bit (f j) k"
    using Cons.prems(1) by (simp_all add: map_bit_def)
  show ?case
  proof (cases "bit (f j) k")
    case True
    then show ?thesis
      using Cons.IH [of f s left] Cons.prems k by (auto simp: and_exp_eq_0_iff_not_bit taken_def)
  next
    case False
    define s' where "s' = first_sect n1 (4096 * i) s [8 * j + k]"
    have s': "s' \<noteq> 0" "(if s = 0 then sint (of_nat ((j + i * 512) * 8 + k) - 1 + n1) else s) = s'"
      using Cons.prems(3) [of k] by (auto simp: s'_def first_sect_def bit_sect_def algebra_simps)
    show ?thesis
    proof (cases left)
      case 0
      then show ?thesis
        using False k s' Cons.prems(3) [of k] by (auto simp: and_exp_eq_0_iff_not_bit taken_def s'_def first_sect_def Let_def)
    next
      case (Suc l)
      let ?ks = "map (\<lambda>k. 8 * j + k) ks"
      define g where "g = f(j := f j OR push_bit k 1)"
      have "\<exists>f'. smap_byte i j n1 ks (g, s', int l) = Inr (f', first_sect n1 (4096 * i) s' (free_bits g ?ks), int (l - length (free_bits g ?ks))) \<and>
          taken l ?ks g f'"
        using Cons.prems by (intro Cons.IH) simp_all
      then obtain f' where f': "smap_byte i j n1 ks (g, s', int l) = Inr (f', first_sect n1 (4096 * i) s' (free_bits g ?ks), int (l - length (free_bits g ?ks)))"
          "taken l ?ks g f'"
        by blast
      have "taken left [8 * j + k] f g"
        using Suc False k by (simp add: taken_def g_def map_bit_set del: push_bit_of_1 fun_upd_apply)
      moreover have "taken (left - length (free_bits f [8 * j + k])) ?ks g f'"
        using f'(2) False k Suc by simp
      moreover have "set [8 * j + k] \<inter> set ?ks = {}"
        using Cons.prems(2) by auto
      ultimately have t: "taken left ([8 * j + k] @ ?ks) f f'" "free_bits g ?ks = free_bits f ?ks"
        by (rule taken_append)+
      have "smap_byte i j n1 (k # ks) (f, s, int left) = smap_byte i j n1 ks (g, s', int l)"
        using False s' Suc by (simp add: and_exp_eq_0_iff_not_bit Let_def g_def)
      moreover have "first_sect n1 (4096 * i) s' (free_bits f ?ks) = first_sect n1 (4096 * i) s (free_bits f ([8 * j + k] @ ?ks))"
        using False k s'(1) by (simp add: s'_def first_sect_def)
      ultimately show ?thesis
        using f'(1) t False k Suc by simp
    qed
  qed
qed

lemma smap_sector_takes:
  assumes "distinct js" "\<And>j b. j \<in> set js \<Longrightarrow> 8 * j \<le> b \<Longrightarrow> b < 8 * j + 8 \<Longrightarrow> bit_sect n1 (4096 * i + b) \<noteq> 0"
  shows "\<exists>f'. smap_sector i n1 js (f, s, int left) =
       Inr (f', first_sect n1 (4096 * i) s (free_bits f (concat (map (\<lambda>j. [8 * j..<8 * j + 8]) js))),
         int (left - length (free_bits f (concat (map (\<lambda>j. [8 * j..<8 * j + 8]) js))))) \<and>
     taken left (concat (map (\<lambda>j. [8 * j..<8 * j + 8]) js)) f f'"
  using assms
proof (induction js arbitrary: f s left)
  case Nil
  then show ?case
    by (simp add: taken_def)
next
  case (Cons j js)
  let ?b = "[8 * j..<8 * j + 8]" and ?bs = "concat (map (\<lambda>j. [8 * j..<8 * j + 8]) js)"
  have b: "map (\<lambda>k. 8 * j + k) [0..<8] = ?b"
    by (simp add: upt_rec)
  have dis: "set ?b \<inter> set ?bs = {}"
  proof -
    have False if x: "x \<in> set ?b" "x \<in> set ?bs" for x
    proof -
      obtain m where "m \<in> set js" "8 * m \<le> x" "x < 8 * m + 8"
        using x(2) by auto
      moreover have "8 * j \<le> x" "x < 8 * j + 8"
        using x(1) by simp_all
      ultimately have "m = j" "m \<in> set js"
        by linarith+
      then show False
        using Cons.prems(1) by simp
    qed
    then show ?thesis
      by blast
  qed
  have ih: "\<exists>f'. smap_sector i n1 js (g, t, int l) = Inr (f', first_sect n1 (4096 * i) t (free_bits g ?bs), int (l - length (free_bits g ?bs))) \<and> taken l ?bs g f'" for g t l
    using Cons.prems by (intro Cons.IH) auto
  show ?case
  proof (cases "f j = 0xff")
    case True
    then have "map_bit f b" if "b \<in> set ?b" for b
      using full_byte_FF mod_less_divisor [of 8 b] that div_nat_eqI [of 8 j b] unfolding full_byte_def map_bit_def by auto
    then have "free_bits f ?b = []"
      by (simp add: free_bits_def)
    then show ?thesis
      using ih [of f s left] True by (simp add: taken_def del: upt_Suc)
  next
    case False
    have "bit_sect n1 (4096 * i + (8 * j + k)) \<noteq> 0" if "k \<in> set [0..<8]" for k
      using that Cons.prems(2) [of j "8 * j + k"] by simp
    then obtain g where g: "smap_byte i j n1 [0..<8] (f, s, int left) = Inr (g, first_sect n1 (4096 * i) s (free_bits f ?b), int (left - length (free_bits f ?b)))"
        "taken left ?b f g"
      using smap_byte_takes [of "[0..<8]" n1 i j f s left] unfolding b by auto
    obtain f' where f': "smap_sector i n1 js (g, first_sect n1 (4096 * i) s (free_bits f ?b), int (left - length (free_bits f ?b))) =
          Inr (f', first_sect n1 (4096 * i) (first_sect n1 (4096 * i) s (free_bits f ?b)) (free_bits g ?bs), int (left - length (free_bits f ?b) - length (free_bits g ?bs)))"
        "taken (left - length (free_bits f ?b)) ?bs g f'"
      using ih by blast
    have t: "taken left (?b @ ?bs) f f'" "free_bits g ?bs = free_bits f ?bs"
      using taken_append [OF g(2) f'(2) dis] by simp_all
    have "first_sect n1 (4096 * i) (first_sect n1 (4096 * i) s (free_bits f ?b)) (free_bits f ?bs) = first_sect n1 (4096 * i) s (free_bits f ?b @ free_bits f ?bs)"
      using Cons.prems(2) [of j] by (intro first_sect_append) simp
    then show ?thesis
      using False g(1) f'(1) t by (auto simp del: upt_Suc)
  qed
qed

lemma concat_bytes: "concat (map (\<lambda>j. [8 * j..<8 * j + 8]) [0..<n]) = [0..<8 * n]"
proof (induction n)
  case (Suc n)
  have "[0..<8 * Suc n] = [0..<8 * n] @ [8 * n..<8 * n + 8]"
    using upt_add_eq_append [of 0 "8 * n" 8] by (simp add: add.commute)
  then show ?case
    using Suc by (simp del: upt_Suc add: upt_Suc_append)
qed simp

text \<open>A sector of the map in \<^verbatim>\<open>fsbuf\<close>, and the map after it is written back.\<close>

definition map_at :: "nat \<Rightarrow> buffer \<Rightarrow> buffer" where
  "map_at blk d = (\<lambda>a. d (512 * blk + a))"

lemma bit_of_sector: "(4096 * i + b) div 8 = 512 * i + b div 8" "(4096 * i + b) mod 8 = b mod 8" for i b :: nat
  using div_mult_self1 [of 8 b "512 * i"] mod_mult_self1 [of b "512 * i" 8] by (simp_all add: add.commute)

lemma map_bit_read:
  assumes "b < 4096"
  shows "map_bit (copy_range d (512 * (blk + i)) f 0 512) b = map_bit (map_at blk d) (4096 * i + b)"
proof -
  have "b div 8 < 512"
    using assms by simp
  then show ?thesis
    by (simp add: bit_of_sector map_bit_def map_at_def copy_range_def add.assoc)
qed

lemma map_bit_write:
  "map_bit (map_at blk (copy_range f 0 d (512 * (blk + i)) 512)) b =
     (if 4096 * i \<le> b \<and> b < 4096 * i + 4096 then map_bit f (b - 4096 * i) else map_bit (map_at blk d) b)"
proof (cases "4096 * i \<le> b")
  case True
  then obtain c where c: "b = 4096 * i + c"
    using le_Suc_ex by blast
  have "c div 8 < 512 \<longleftrightarrow> c < 4096"
    by linarith
  then show ?thesis
    by (simp add: c bit_of_sector map_bit_def map_at_def copy_range_def)
next
  case False
  then have "\<not> 512 * i \<le> b div 8"
    by linarith
  then show ?thesis
    using False by (simp add: map_bit_def map_at_def copy_range_def)
qed

lemma free_bits_read:
  assumes "g = copy_range d (512 * (blk + i)) f 0 512"
  shows "free_bits (map_at blk d) [4096 * i..<4096 * i + 4096] = map (\<lambda>b. 4096 * i + b) (free_bits g [0..<4096])"
proof -
  have u: "[4096 * i..<4096 * i + 4096] = map (\<lambda>b. 4096 * i + b) [0..<4096]"
    by (rule nth_equalityI) simp_all
  have "filter (\<lambda>b. \<not> map_bit (map_at blk d) (4096 * i + b)) [0..<4096] = filter (\<lambda>b. \<not> map_bit g b) [0..<4096]"
    unfolding assms by (rule filter_cong [OF refl], subst map_bit_read) simp_all
  then show ?thesis
    unfolding free_bits_def u filter_map o_def by simp
qed

lemma taken_write:
  assumes "taken n [0..<4096] g f" "g = copy_range d (512 * (blk + i)) h 0 512"
  shows "taken n [4096 * i..<4096 * i + 4096] (map_at blk d) (map_at blk (copy_range f 0 d (512 * (blk + i)) 512))"
  unfolding taken_def
proof (intro allI)
  fix b
  define F where "F = set (take n (free_bits g [0..<4096]))"
  have F: "b \<in> set (take n (map (\<lambda>b. 4096 * i + b) (free_bits g [0..<4096]))) \<longleftrightarrow> 4096 * i \<le> b \<and> b - 4096 * i \<in> F"
    unfolding take_map set_map F_def [symmetric] by (auto simp: image_iff intro!: bexI [of _ "b - 4096 * i"])
  have lt: "c < 4096" if "c \<in> F" for c
    using take_subset that unfolding F_def by fastforce
  have t: "map_bit f c \<longleftrightarrow> map_bit g c \<or> c \<in> F" for c
    using assms(1) by (simp add: taken_def F_def)
  show "map_bit (map_at blk (copy_range f 0 d (512 * (blk + i)) 512)) b \<longleftrightarrow>
      map_bit (map_at blk d) b \<or> b \<in> set (take n (free_bits (map_at blk d) [4096 * i..<4096 * i + 4096]))"
  proof (cases "4096 * i \<le> b \<and> b < 4096 * i + 4096")
    case True
    then have "b - 4096 * i < 4096"
      by linarith
    then have "map_bit g (b - 4096 * i) = map_bit (map_at blk d) b"
      using True map_bit_read [of "b - 4096 * i" d blk i h] unfolding assms(2) by simp
    then show ?thesis
      unfolding free_bits_read [OF assms(2)] F map_bit_write using True t by simp
  next
    case False
    then have "\<not> (4096 * i \<le> b \<and> b - 4096 * i \<in> F)"
      using lt by force
    then show ?thesis
      unfolding free_bits_read [OF assms(2)] F map_bit_write using False by auto
  qed
qed

lemma read_back: "copy_range (copy_range d a f 0 n) 0 d a n = d"
  by (auto simp: copy_range_def fun_eq_iff)

lemma first_sect_shift: "first_sect n1 c s bs = first_sect n1 0 s (map (\<lambda>b. c + b) bs)"
  by (cases bs) (simp_all add: first_sect_def)

lemma smap_sector_all:
  assumes "\<And>b. b < 4096 \<Longrightarrow> bit_sect n1 (4096 * i + b) \<noteq> 0"
  shows "\<exists>f'. smap_sector i n1 [0..<512] (f, s, int left) =
       Inr (f', first_sect n1 0 s (map (\<lambda>b. 4096 * i + b) (free_bits f [0..<4096])), int (left - length (free_bits f [0..<4096]))) \<and>
     taken left [0..<4096] f f'"
proof -
  have c: "concat (map (\<lambda>j. [8 * j..<8 * j + 8]) [0..<512]) = [0..<4096]"
    using concat_bytes [of 512] unfolding mult_numeral_left by simp
  have z: "bit_sect n1 (4096 * i + b) \<noteq> 0" if "j \<in> set [0..<512]" "8 * j \<le> b" "b < 8 * j + 8" for j b
  proof -
    have "j < 512"
      using that(1) by simp
    then show ?thesis
      using that(3) by (intro assms) linarith
  qed
  show ?thesis
    unfolding first_sect_shift [symmetric] using smap_sector_takes [of "[0..<512]" n1 i f s left, OF distinct_upt z] unfolding c .
qed

text \<open>One sector of the map: it is read, its free bits are taken as long as sectors are wanted, and it is written back.\<close>

lemma alloc_smap_loop_sector:
  fixes st :: fs_state and blk i0 :: nat and n1 :: u32 and s :: int
  assumes nz: "\<And>b. b < 4096 * i0 + 4096 \<Longrightarrow> bit_sect n1 b \<noteq> 0"
  defines "F \<equiv> free_bits (map_at blk (fs_disk st 32)) [4096 * i0..<4096 * i0 + 4096]"
  defines "s' \<equiv> first_sect n1 0 s F"
  shows "\<exists>f d. alloc_smap_loop ROOT_DEV (int blk) n1 (i0 # js) s (int left) st =
      (if left \<le> length F then Inr (s', 0, st\<lparr>fsbuf := f, fs_disk := (fs_disk st)(32 := d)\<rparr>)
       else alloc_smap_loop ROOT_DEV (int blk) n1 js s' (int (left - length F)) (st\<lparr>fsbuf := f, fs_disk := (fs_disk st)(32 := d)\<rparr>)) \<and>
     taken left [4096 * i0..<4096 * i0 + 4096] (map_at blk (fs_disk st 32)) (map_at blk d) \<and> (\<forall>a < 512 * blk. d a = fs_disk st 32 a)"
proof -
  let ?d = "fs_disk st 32" and ?b = "[4096 * i0..<4096 * i0 + 4096]"
  define g where "g = copy_range ?d (512 * (blk + i0)) (fsbuf st) 0 512"
  have F: "F = map (\<lambda>b. 4096 * i0 + b) (free_bits g [0..<4096])"
    unfolding F_def by (rule free_bits_read [OF g_def])
  have "bit_sect n1 (4096 * i0 + b) \<noteq> 0" if "b < 4096" for b
    using that by (intro nz) linarith
  then obtain f where f: "smap_sector i0 n1 [0..<512] (g, s, int left) = Inr (f, s', int (left - length F))" "taken left [0..<4096] g f"
    using smap_sector_all [of n1 i0 g s left] unfolding s'_def F length_map by blast
  define d where "d = copy_range f 0 ?d (512 * (blk + i0)) 512"
  have r: "RD_SECT ROOT_DEV (int blk + int i0) st = Inr (st\<lparr>fsbuf := g\<rparr>)"
    by (simp add: g_def nat_int_add)
  have w: "(if s' \<noteq> 0 then WR_SECT ROOT_DEV (int blk + int i0) (st\<lparr>fsbuf := f\<rparr>) else Inr (st\<lparr>fsbuf := f\<rparr>)) =
      Inr (st\<lparr>fsbuf := f, fs_disk := (fs_disk st)(32 := d)\<rparr>)"
  proof (cases "s' = 0")
    case True
    have "bit_sect n1 b \<noteq> 0" if "b \<in> set F" for b
      using that by (intro nz) (simp add: F_def)
    then have "F = []"
      using True by (cases F) (simp_all add: s'_def first_sect_def split: if_split_asm)
    then have "map_bit f b = map_bit g b" for b
      using f(2) F by (simp add: taken_def)
    then have "f = g"
      by (rule map_bit_ext)
    then have "d = ?d"
      by (simp add: d_def g_def read_back)
    then show ?thesis
      using True by simp
  next
    case False
    then show ?thesis
      by (simp add: d_def nat_int_add)
  qed
  have "alloc_smap_loop ROOT_DEV (int blk) n1 (i0 # js) s (int left) st =
      (if left \<le> length F then Inr (s', 0, st\<lparr>fsbuf := f, fs_disk := (fs_disk st)(32 := d)\<rparr>)
       else alloc_smap_loop ROOT_DEV (int blk) n1 js s' (int (left - length F)) (st\<lparr>fsbuf := f, fs_disk := (fs_disk st)(32 := d)\<rparr>))"
    using r f(1) w by (simp del: RD_root WR_root)
  moreover have "taken left ?b (map_at blk ?d) (map_at blk d)"
    unfolding d_def by (rule taken_write [OF f(2) g_def])
  moreover have "\<forall>a < 512 * blk. d a = ?d a"
    by (simp add: d_def copy_range_def)
  ultimately show ?thesis
    by blast
qed

lemma alloc_smap_loop_takes:
  assumes "i0 \<le> N" "0 < left" "\<And>b. b < 4096 * N \<Longrightarrow> bit_sect n1 b \<noteq> 0"
  shows "\<exists>f d. alloc_smap_loop ROOT_DEV (int blk) n1 [i0..<N] s (int left) st =
       Inr (first_sect n1 0 s (free_bits (map_at blk (fs_disk st 32)) [4096 * i0..<4096 * N]),
         int (left - length (free_bits (map_at blk (fs_disk st 32)) [4096 * i0..<4096 * N])), st\<lparr>fsbuf := f, fs_disk := (fs_disk st)(32 := d)\<rparr>) \<and>
     taken left [4096 * i0..<4096 * N] (map_at blk (fs_disk st 32)) (map_at blk d) \<and> (\<forall>a < 512 * blk. d a = fs_disk st 32 a)"
  using assms
proof (induction "N - i0" arbitrary: i0 st s left)
  case (Suc x)
  let ?d = "fs_disk st 32" and ?b = "[4096 * i0..<4096 * i0 + 4096]" and ?bs = "[4096 * Suc i0..<4096 * N]"
  define F where "F = free_bits (map_at blk ?d) ?b"
  define s' where "s' = first_sect n1 0 s F"
  let ?G = "free_bits (map_at blk ?d) ?bs"
  have u: "[i0..<N] = i0 # [Suc i0..<N]" "[4096 * i0..<4096 * N] = ?b @ ?bs"
  proof -
    obtain m where m: "N = Suc i0 + m"
      using Suc.hyps(2) by (intro that [of x]) simp
    then show "[i0..<N] = i0 # [Suc i0..<N]"
      by (simp add: upt_conv_Cons)
    have "4096 * Suc i0 = 4096 * i0 + 4096" "4096 * N = (4096 * i0 + 4096) + 4096 * m"
      by (simp_all add: m)
    then show "[4096 * i0..<4096 * N] = ?b @ ?bs"
      using upt_add_eq_append [of "4096 * i0" "4096 * i0 + 4096" "4096 * m"] by (simp only: le_add1)
  qed
  have nz: "bit_sect n1 b \<noteq> 0" if "b < 4096 * i0 + 4096" for b
    using that Suc.hyps(2) by (intro Suc.prems(3)) linarith
  obtain f d where step: "alloc_smap_loop ROOT_DEV (int blk) n1 [i0..<N] s (int left) st =
      (if left \<le> length F then Inr (s', 0, st\<lparr>fsbuf := f, fs_disk := (fs_disk st)(32 := d)\<rparr>)
       else alloc_smap_loop ROOT_DEV (int blk) n1 [Suc i0..<N] s' (int (left - length F)) (st\<lparr>fsbuf := f, fs_disk := (fs_disk st)(32 := d)\<rparr>))"
      and t: "taken left ?b (map_at blk ?d) (map_at blk d)" and low: "\<forall>a < 512 * blk. d a = ?d a"
    using alloc_smap_loop_sector [OF nz, where blk = blk and js = "[Suc i0..<N]" and s = s and left = left and st = st] unfolding u(1) F_def s'_def by blast
  have all: "free_bits (map_at blk ?d) [4096 * i0..<4096 * N] = F @ ?G"
    by (simp only: u(2) F_def free_bits_simps)
  show ?case
  proof (cases "left \<le> length F")
    case True
    then have "taken left (?b @ ?bs) (map_at blk ?d) (map_at blk d)" "first_sect n1 0 s (F @ ?G) = s'"
      using t Suc.prems(2) unfolding taken_def s'_def first_sect_def free_bits_simps(3) F_def by auto
    then show ?thesis
      using step True low unfolding all unfolding u(2) by auto
  next
    case False
    let ?st = "st\<lparr>fsbuf := f, fs_disk := (fs_disk st)(32 := d)\<rparr>"
    have dis: "set ?b \<inter> set ?bs = {}"
      by auto
    have G: "free_bits (map_at blk d) ?bs = ?G"
      by (rule taken_free [OF t dis])
    have "\<exists>f' d'. alloc_smap_loop ROOT_DEV (int blk) n1 [Suc i0..<N] s' (int (left - length F)) ?st =
         Inr (first_sect n1 0 s' (free_bits (map_at blk (fs_disk ?st 32)) ?bs), int (left - length F - length (free_bits (map_at blk (fs_disk ?st 32)) ?bs)), ?st\<lparr>fsbuf := f', fs_disk := (fs_disk ?st)(32 := d')\<rparr>) \<and>
       taken (left - length F) ?bs (map_at blk (fs_disk ?st 32)) (map_at blk d') \<and> (\<forall>a < 512 * blk. d' a = fs_disk ?st 32 a)"
      using Suc.hyps(2) Suc.prems False by (intro Suc.hyps(1)) simp_all
    then obtain f' d' where i: "alloc_smap_loop ROOT_DEV (int blk) n1 [Suc i0..<N] s' (int (left - length F)) ?st =
         Inr (first_sect n1 0 s' ?G, int (left - length F - length ?G), st\<lparr>fsbuf := f', fs_disk := (fs_disk st)(32 := d')\<rparr>)"
        "taken (left - length F) ?bs (map_at blk d) (map_at blk d')" "\<forall>a < 512 * blk. d' a = d a"
      using G by auto
    have "taken left (?b @ ?bs) (map_at blk ?d) (map_at blk d')"
      using taken_append(1) [OF t _ dis] i(2) unfolding F_def by blast
    moreover have "first_sect n1 0 s' ?G = first_sect n1 0 s (F @ ?G)"
      using first_sect_append [of F n1 0 s ?G] nz unfolding s'_def F_def by simp
    ultimately show ?thesis
      using step False i(1,3) low unfolding all unfolding u(2) by auto
  qed
next
  case 0
  then show ?case
    by (intro exI [of _ "fsbuf st"] exI [of _ "fs_disk st 32"]) (simp add: taken_def)
qed

section \<open>The allocation of sectors\<close>

definition smap_bit :: "fs_state \<Rightarrow> nat \<Rightarrow> bool" where
  "smap_bit st b \<longleftrightarrow> map_bit (map_at (2 + unat (nr_imap_sects (super_blocks st 0))) (fs_disk st 32)) b"

definition free_sects :: "fs_state \<Rightarrow> nat list" where
  "free_sects st = filter (\<lambda>b. \<not> smap_bit st b) [0..<4096 * unat (nr_smap_sects (super_blocks st 0))]"

text \<open>The sector of a bit, without overflow.\<close>

lemma bit_sect_small:
  assumes "b < 2 ^ 30" "1 < unat n1" "unat n1 < 2 ^ 22"
  shows "bit_sect n1 b = int (unat n1 + b) - 1"
proof -
  define m where "m = b + (unat n1 - 1)"
  define w :: u32 where "w = of_nat m"
  have "of_nat b - 1 + n1 = w"
    using assms(2) by (simp add: w_def m_def of_nat_diff algebra_simps)
  moreover have m: "m < 2 ^ 31" "int m = int (unat n1 + b) - 1"
    using assms by (simp_all add: m_def)
  then have "unat w = m"
    unfolding w_def by (simp only: unsigned_of_nat) (simp add: take_bit_nat_eq_self)
  then have "sint w = int m"
    using sint_small [of w] m(1) by simp
  ultimately show ?thesis
    unfolding bit_sect_def m(2) [symmetric] by simp
qed

text \<open>When the sectors behind the first free one are free, they are the ones taken.\<close>

lemma take_run:
  assumes "F = filter P [0..<m]" "0 < n" "n \<le> length F" "\<forall>i < n. P (hd F + i)"
  shows "take n F = [hd F..<hd F + n]"
proof -
  define h where "h = hd F"
  have h: "h \<in> set F"
    using assms(2,3) unfolding h_def by (cases F) auto
  then have m: "h < m"
    by (simp add: assms(1))
  have lo: "filter P [0..<h] = []"
  proof (rule ccontr)
    assume a: "filter P [0..<h] \<noteq> []"
    have "F = filter P [0..<h] @ filter P [h..<m]"
      using m upt_add_eq_append [of 0 h "m - h"] by (simp add: assms(1))
    then have "h = hd (filter P [0..<h])"
      unfolding h_def [symmetric] using a hd_append2 h_def by metis
    then have "h \<in> set (filter P [0..<h])"
      using a hd_in_set by metis
    then show False
      by simp
  qed
  have all: "filter P [h..<h + k] = [h..<h + k]" if "k \<le> n" for k
    using assms(4) that by (auto simp: filter_id_conv h_def le_iff_add)
  have F: "F = filter P [h..<m]"
    using m lo upt_add_eq_append [of 0 h "m - h"] by (simp add: assms(1))
  then have "n \<le> m - h"
    using assms(3) length_filter_le [of P "[h..<m]"] by simp
  then have "F = [h..<h + n] @ filter P [h + n..<m]"
    using F all [of n] m upt_add_eq_append [of h "h + n" "m - (h + n)"] by simp
  then have "take n F = take n ([h..<h + n] @ filter P [h + n..<m])"
    by (rule arg_cong)
  then show ?thesis
    by (simp add: h_def)
qed

lemma alloc_smap_bit_takes:
  assumes "layout_ok (super_blocks st 0)" "4096 * unat (nr_smap_sects (super_blocks st 0)) < 2 ^ 30" "0 < n"
  defines "s \<equiv> (super_blocks st 0)\<lparr>sb_dev := ROOT_DEV\<rparr>" and "blk \<equiv> 2 + unat (nr_imap_sects (super_blocks st 0))"
  shows "if n \<le> length (free_sects st) then
     \<exists>f d. alloc_smap_bit ROOT_DEV (int n) st = Inr (int (unat (n_1st_sect s) + hd (free_sects st)) - 1,
         st\<lparr>super_blocks := (super_blocks st)(0 := s), fsbuf := f, fs_disk := (fs_disk st)(32 := d)\<rparr>) \<and>
       (\<forall>b. map_bit (map_at blk d) b \<longleftrightarrow> map_bit (map_at blk (fs_disk st 32)) b \<or> b \<in> set (take n (free_sects st))) \<and>
       (\<forall>a. a < 512 * blk \<or> 512 * (blk + unat (nr_smap_sects s)) \<le> a \<longrightarrow> d a = fs_disk st 32 a)
   else alloc_smap_bit ROOT_DEV (int n) st = Inl (AssertFail ''nr_sects_to_alloc == 0'')"
proof -
  define N n1 where "N = unat (nr_smap_sects (super_blocks st 0))" and "n1 = n_1st_sect s"
  have n1: "1 < unat n1" "unat n1 < 2 ^ 22"
    using assms(1) by (simp_all add: n1_def s_def layout_ok_def)
  have z: "bit_sect n1 b = int (unat n1 + b) - 1" if "b < 4096 * N" for b
    using that assms(2) n1 by (intro bit_sect_small) (simp_all add: N_def)
  have nz: "bit_sect n1 b \<noteq> 0" if "b < 4096 * N" for b
    using z [OF that] n1(1) by linarith
  define st1 where "st1 = st\<lparr>super_blocks := (super_blocks st)(0 := s)\<rparr>"
  define F where "F = free_bits (map_at blk (fs_disk st1 32)) [4096 * 0..<4096 * N]"
  have F: "free_sects st = F"
    by (simp add: F_def free_sects_def smap_bit_def free_bits_def st1_def N_def blk_def)
  obtain f d where l: "alloc_smap_loop ROOT_DEV (int blk) n1 [0..<N] 0 (int n) st1 =
        Inr (first_sect n1 0 0 F, int (n - length F), st1\<lparr>fsbuf := f, fs_disk := (fs_disk st1)(32 := d)\<rparr>)"
      "taken n [4096 * 0..<4096 * N] (map_at blk (fs_disk st1 32)) (map_at blk d)" "\<forall>a < 512 * blk. d a = fs_disk st1 32 a"
    using alloc_smap_loop_takes [of 0 N n n1 blk 0 st1, OF le0 assms(3) nz] unfolding F_def by blast
  have "2 + uint (nr_imap_sects s) = int blk" "unat (nr_smap_sects s) = N"
    by (simp_all add: blk_def s_def N_def)
  then have a: "alloc_smap_bit ROOT_DEV (int n) st = res_bind (Inr (first_sect n1 0 0 F, int (n - length F), st1\<lparr>fsbuf := f, fs_disk := (fs_disk st1)(32 := d)\<rparr>))
      (\<lambda>(sect_nr, left, st2). res_bind (assert_c (left = 0) ''nr_sects_to_alloc == 0'') (\<lambda>_. Inr (sect_nr, st2)))"
    using l(1) by (simp add: alloc_smap_bit_def s_def [symmetric] st1_def [symmetric] n1_def [symmetric])
  show ?thesis
  proof (cases "n \<le> length F")
    case True
    then have "F \<noteq> []" "hd F \<in> set F"
      using assms(3) by (cases F; simp)+
    moreover from this(2) have "hd F < 4096 * N"
      by (simp add: F_def)
    ultimately have "first_sect n1 0 0 F = int (unat n1 + hd F) - 1"
      using z by (simp add: first_sect_def)
    then have "alloc_smap_bit ROOT_DEV (int n) st = Inr (int (unat n1 + hd F) - 1, st\<lparr>super_blocks := (super_blocks st)(0 := s), fsbuf := f, fs_disk := (fs_disk st)(32 := d)\<rparr>)"
      using a True by (simp add: st1_def)
    moreover have m: "\<forall>b. map_bit (map_at blk d) b \<longleftrightarrow> map_bit (map_at blk (fs_disk st 32)) b \<or> b \<in> set (take n F)"
      using l(2) unfolding taken_def F_def [symmetric] by (simp add: st1_def)
    moreover have "d a = fs_disk st 32 a" if "a < 512 * blk \<or> 512 * (blk + N) \<le> a" for a
    proof (cases "a < 512 * blk")
      case False
      define a' where "a' = a - 512 * blk"
      have a': "a = 512 * blk + a'" "512 * N \<le> a'"
        using False that by (auto simp: a'_def)
      have "8 * a' + k \<notin> set (take n F)" for k
        using a'(2) by (auto simp: F_def dest!: take_subset)
      then have "map_at blk d a' = map_at blk (fs_disk st 32) a'"
        using m by (intro map_bit_byte) simp
      then show ?thesis
        by (simp add: map_at_def a'(1))
    qed (use l(3) in \<open>simp add: st1_def\<close>)
    ultimately show ?thesis
      using True unfolding F n1_def N_def s_def by auto
  next
    case False
    then show ?thesis
      using a F by (simp add: assert_c_def)
  qed
qed

text \<open>
  C35. Sectors are allocated correctly: if the sector map has \<open>n\<close> free bits, \<^verbatim>\<open>alloc_smap_bit\<close> returns the sector of
  the lowest free bit and marks exactly the \<open>n\<close> lowest free bits on the disk; nothing outside the sector map
  changes. If the bits behind the lowest free one are free, the bits taken are consecutive. If the map has
  fewer free bits, the last assertion fails.
\<close>
theorem alloc_smap_correct:
  assumes "layout_ok (super_blocks st 0)" "unat (nr_smap_sects (super_blocks st 0)) < 2 ^ 18" "0 < n"
  defines "s \<equiv> super_blocks st 0" and "F \<equiv> free_sects st"
  shows "if n \<le> length F then
     \<exists>st'. alloc_smap_bit ROOT_DEV (int n) st = Inr (int (unat (n_1st_sect s) + hd F) - 1, st') \<and>
       (\<forall>b. smap_bit st' b \<longleftrightarrow> smap_bit st b \<or> b \<in> set (take n F)) \<and>
       ((\<forall>i < n. \<not> smap_bit st (hd F + i)) \<longrightarrow> take n F = [hd F..<hd F + n]) \<and>
       (\<forall>a. a < 512 * (2 + unat (nr_imap_sects s)) \<or> 512 * (2 + unat (nr_imap_sects s) + unat (nr_smap_sects s)) \<le> a \<longrightarrow>
          fs_disk st' 32 a = fs_disk st 32 a) \<and> (\<forall>x. x \<noteq> 32 \<longrightarrow> fs_disk st' x = fs_disk st x)
   else alloc_smap_bit ROOT_DEV (int n) st = Inl (AssertFail ''nr_sects_to_alloc == 0'')"
proof -
  have b: "4096 * unat (nr_smap_sects (super_blocks st 0)) < 2 ^ 30"
    using assms(2) by simp
  note al = alloc_smap_bit_takes [OF assms(1) b assms(3)]
  show ?thesis
  proof (cases "n \<le> length F")
    case True
    then obtain f d where d: "alloc_smap_bit ROOT_DEV (int n) st = Inr (int (unat (n_1st_sect s) + hd F) - 1,
          st\<lparr>super_blocks := (super_blocks st)(0 := s\<lparr>sb_dev := ROOT_DEV\<rparr>), fsbuf := f, fs_disk := (fs_disk st)(32 := d)\<rparr>)"
        "\<forall>b. map_bit (map_at (2 + unat (nr_imap_sects s)) d) b \<longleftrightarrow> smap_bit st b \<or> b \<in> set (take n F)"
        "\<forall>a. a < 512 * (2 + unat (nr_imap_sects s)) \<or> 512 * (2 + unat (nr_imap_sects s) + unat (nr_smap_sects s)) \<le> a \<longrightarrow> d a = fs_disk st 32 a"
      using al unfolding s_def F_def smap_bit_def by auto
    have "(\<forall>i < n. \<not> smap_bit st (hd F + i)) \<longrightarrow> take n F = [hd F..<hd F + n]"
      using take_run [OF F_def [unfolded free_sects_def atomize_eq] assms(3) True] by simp
    then show ?thesis
      using True d by (simp add: smap_bit_def)
  next
    case False
    then show ?thesis
      using al unfolding F_def by simp
  qed
qed

text \<open>A disk on which the first three sectors are in use.\<close>

definition fs4 :: fs_state where
  "fs4 = fs3\<lparr>fs_disk := (\<lambda>_. (\<lambda>_. 0)(1536 := 7))\<rparr>"

lemma fs4_bit: "smap_bit fs4 b \<longleftrightarrow> b < 3"
proof -
  have "(7 :: u8) = mask 3"
    by (simp add: mask_eq_exp_minus_1)
  then have "bit (7 :: u8) k \<longleftrightarrow> k < 3" for k
    unfolding \<open>7 = mask 3\<close> bit_mask_iff possible_bit_word by auto
  moreover have "map_at (2 + unat (nr_imap_sects (super_blocks fs4 0))) (fs_disk fs4 32) = (\<lambda>_. 0)(0 := 7)"
    by (simp add: map_at_def fs4_def fs3_def fs0_def sb0_def fun_eq_iff)
  ultimately have "smap_bit fs4 b \<longleftrightarrow> b div 8 = 0 \<and> b mod 8 < 3"
    by (simp add: smap_bit_def map_bit_def)
  then show ?thesis
    by (cases "b < 8") (simp_all add: div_eq_0_iff)
qed

lemma filter_upt_ge: "m \<le> n \<Longrightarrow> filter (\<lambda>b. \<not> b < m) [0..<n] = [m..<n]"
  using upt_add_eq_append [of 0 m "n - m"] by simp

theorem alloc_smap_correct_witness:
  "\<exists>st. alloc_smap_bit ROOT_DEV 2048 fs4 = Inr (264, st) \<and> (\<forall>b. smap_bit st b \<longleftrightarrow> b < 2051)"
proof -
  define m where "m = 4096 * unat (nr_smap_sects (super_blocks fs4 0))"
  have s: "layout_ok (super_blocks fs4 0)" "unat (nr_smap_sects (super_blocks fs4 0)) < 2 ^ 18" "unat (n_1st_sect (super_blocks fs4 0)) = 262"
      "3 + 2048 \<le> m"
    by (simp_all add: m_def fs4_def fs3_def fs0_def sb0_def layout_ok_def)
  have f: "free_sects fs4 = [3..<m]"
    using filter_upt_ge [of 3 m] s(4) unfolding free_sects_def fs4_bit m_def by simp
  have h: "hd [3..<m] = 3" "2048 \<le> length [3..<m]"
    using s(4) by simp_all
  have t: "set (take 2048 [3..<m]) = {3..<3 + 2048}"
    using s(4) by (simp only: take_upt set_upt)
  obtain st where "alloc_smap_bit ROOT_DEV (int 2048) fs4 = Inr (int (262 + 3) - 1, st)" "\<forall>b. smap_bit st b \<longleftrightarrow> b < 3 \<or> b \<in> {3..<3 + 2048}"
    using alloc_smap_correct [OF s(1,2), of 2048] h(2) unfolding f h(1) t fs4_bit s(3) by auto
  moreover have "b < 3 \<or> b \<in> {3..<3 + 2048} \<longleftrightarrow> b < 2051" for b :: nat
    by auto
  ultimately show ?thesis
    by simp
qed

end
