(* ===== verification/Format.thy ===== *)
theory Format
  imports Allocation
begin

text \<open>
  The file system \<^verbatim>\<open>mkfs\<close> makes on an unformatted disk: the super block, both maps, the first inodes and the
  root directory, as the rest of the file system reads them.
\<close>

section \<open>Writing one sector after another\<close>

lemma map_bit_zero [simp]: "\<not> map_bit (\<lambda>_. 0) b"
  by (simp add: map_bit_def)

text \<open>The disk with the sector in \<^verbatim>\<open>fsbuf\<close> written.\<close>

abbreviation put_sect :: "nat \<Rightarrow> buffer \<Rightarrow> buffer \<Rightarrow> buffer" where
  "put_sect n f d \<equiv> copy_range f 0 d (512 * n) 512"

abbreviation set_disk :: "buffer \<Rightarrow> buffer \<Rightarrow> fs_state \<Rightarrow> fs_state" where
  "set_disk f d st \<equiv> st\<lparr>fsbuf := f, fs_disk := (fs_disk st)(32 := d)\<rparr>"

lemma smap_mark_bits:
  assumes "k < 8" "byte < 512"
  shows "\<exists>f d. smap_mark n k byte (int blk) (int sect) st = Inr (set_disk f d st) \<and>
     (\<forall>b. map_bit (map_at blk d) b \<longleftrightarrow> map_bit (map_at blk (put_sect (blk + sect) (fsbuf st) (fs_disk st 32))) b \<or>
        4096 * sect + 8 * byte + k \<le> b \<and> b < 4096 * sect + 8 * byte + k + n) \<and> (\<forall>a < 512 * blk. d a = fs_disk st 32 a)"
  using assms
proof (induction n arbitrary: k byte sect st)
  case 0
  have "nat (int blk + int sect) = blk + sect"
    by (simp add: nat_int_add)
  then show ?case
    by - (rule exI [of _ "fsbuf st"], rule exI [of _ "put_sect (blk + sect) (fsbuf st) (fs_disk st 32)"], auto simp: buf_simps fun_upd_def)
next
  case (Suc n)
  let ?d = "fs_disk st 32"
  define b0 where "b0 = 4096 * sect + 8 * byte + k"
  define g where "g = (fsbuf st)(byte := fsbuf st byte OR push_bit k 1)"
  define st1 where "st1 = st\<lparr>fsbuf := g\<rparr>"
  have v: "map_bit (map_at blk (put_sect (blk + sect) g ?d)) b \<longleftrightarrow> map_bit (map_at blk (put_sect (blk + sect) (fsbuf st) ?d)) b \<or> b = b0" for b
  proof -
    have "4096 * sect \<le> b \<and> b < 4096 * sect + 4096 \<and> b - 4096 * sect = 8 * byte + k \<longleftrightarrow> b = b0"
      using Suc.prems by (auto simp: b0_def)
    then show ?thesis
      unfolding map_bit_write g_def map_bit_set [OF Suc.prems(1)] by auto
  qed
  have fin: "(b = b0 \<or> Suc b0 \<le> b \<and> b < Suc b0 + n) \<longleftrightarrow> b0 \<le> b \<and> b < b0 + Suc n" for b
    by auto
  obtain k' byte' sect' st' where n: "smap_mark (Suc n) k byte (int blk) (int sect) st = smap_mark n k' byte' (int blk) (int sect') st'"
      "k' < 8" "byte' < 512" "4096 * sect' + 8 * byte' + k' = Suc b0" "put_sect (blk + sect') (fsbuf st') (fs_disk st' 32) = put_sect (blk + sect) g ?d"
      "\<forall>f d. set_disk f d st' = set_disk f d st" "\<forall>a < 512 * blk. fs_disk st' 32 a = ?d a"
  proof (cases "k + 1 = 8 \<and> byte + 1 = 512")
    case True
    let ?d1 = "put_sect (blk + sect) g ?d"
    let ?st2 = "st\<lparr>fs_disk := (fs_disk st)(32 := ?d1), fsbuf := copy_range ?d1 (512 * (blk + (sect + 1))) g 0 512\<rparr>"
    have a: "nat (int blk + int sect) = blk + sect" "nat (int blk + (int sect + 1)) = blk + (sect + 1)"
      by (simp_all add: nat_int_add)
    have "smap_mark (Suc n) k byte (int blk) (int sect) st = smap_mark n 0 0 (int blk) (int (sect + 1)) ?st2"
      using True unfolding smap_mark.simps Let_def g_def [symmetric] of_nat_add of_nat_1 by (simp add: a del: distrib_left_numeral)
    moreover have "4096 * (sect + 1) + 8 * 0 + 0 = Suc b0"
      using True by (simp add: b0_def)
    moreover have "put_sect (blk + (sect + 1)) (fsbuf ?st2) (fs_disk ?st2 32) = ?d1"
      by (simp add: read_back)
    moreover have "\<forall>a < 512 * blk. fs_disk ?st2 32 a = ?d a"
      by (simp add: copy_range_def)
    ultimately show ?thesis
      by (intro that [of 0 0 "sect + 1" ?st2]) simp_all
  next
    case False
    show ?thesis
    proof (cases "k + 1 = 8")
      case True
      then show ?thesis
        using False Suc.prems by (intro that [of 0 "byte + 1" sect st1]) (simp_all add: st1_def g_def b0_def Let_def)
    next
      case False
      then show ?thesis
        using Suc.prems by (intro that [of "k + 1" byte sect st1]) (simp_all add: st1_def g_def b0_def Let_def)
    qed
  qed
  obtain f d where "smap_mark n k' byte' (int blk) (int sect') st' = Inr (set_disk f d st')"
      "\<forall>b. map_bit (map_at blk d) b \<longleftrightarrow> map_bit (map_at blk (put_sect (blk + sect) g ?d)) b \<or> Suc b0 \<le> b \<and> b < Suc b0 + n"
      "\<forall>a < 512 * blk. d a = fs_disk st' 32 a"
    using Suc.IH [OF n(2,3), of sect' st'] unfolding n(4,5) by blast
  then show ?case
    unfolding n(1) using n(6,7) v fin unfolding b0_def [symmetric] by metis
qed

lemma clear_sects_zero:
  assumes "\<forall>i < 512. fsbuf st i = 0" "\<forall>n\<in>set ns. 0 \<le> n"
  shows "\<exists>d. clear_sects ns st = Inr (st\<lparr>fs_disk := (fs_disk st)(32 := d)\<rparr>) \<and>
     (\<forall>a. d a = (if \<exists>n\<in>set ns. 512 * nat n \<le> a \<and> a < 512 * nat n + 512 then 0 else fs_disk st 32 a))"
  using assms
proof (induction ns arbitrary: st)
  case Nil
  show ?case
    by (intro exI [of _ "fs_disk st 32"]) simp
next
  case (Cons n ns)
  let ?st = "st\<lparr>fs_disk := (fs_disk st)(32 := copy_range (fsbuf st) 0 (fs_disk st 32) (512 * nat n) 512)\<rparr>"
  have "\<exists>d. clear_sects ns ?st = Inr (?st\<lparr>fs_disk := (fs_disk ?st)(32 := d)\<rparr>) \<and>
      (\<forall>a. d a = (if \<exists>n\<in>set ns. 512 * nat n \<le> a \<and> a < 512 * nat n + 512 then 0 else fs_disk ?st 32 a))"
    using Cons.prems by (intro Cons.IH) simp_all
  then obtain d where d: "clear_sects ns ?st = Inr (?st\<lparr>fs_disk := (fs_disk ?st)(32 := d)\<rparr>)"
      "\<forall>a. d a = (if \<exists>n\<in>set ns. 512 * nat n \<le> a \<and> a < 512 * nat n + 512 then 0 else fs_disk ?st 32 a)"
    by blast
  have "fs_disk ?st 32 a = (if 512 * nat n \<le> a \<and> a < 512 * nat n + 512 then 0 else fs_disk st 32 a)" for a
    using Cons.prems(1) by (auto simp: copy_range_def)
  then have "d a = (if \<exists>n\<in>set (n # ns). 512 * nat n \<le> a \<and> a < 512 * nat n + 512 then 0 else fs_disk st 32 a)" for a
    unfolding d(2) [rule_format] by auto
  moreover have "clear_sects (n # ns) st = Inr (st\<lparr>fs_disk := (fs_disk st)(32 := d)\<rparr>)"
    using d(1) Cons.prems(2) by simp
  ultimately show ?case
    by blast
qed

section \<open>The parts of the new file system\<close>

lemma map_at_beyond:
  assumes "\<And>b. 8 * m \<le> b \<Longrightarrow> map_bit (map_at blk d) b = map_bit (map_at blk e) b" "512 * blk + m \<le> a"
  shows "d a = e a"
proof -
  obtain c where c: "a = 512 * blk + c" "m \<le> c"
    using assms(2) by (intro that [of "a - 512 * blk"]) auto
  have "map_at blk d c = map_at blk e c"
    using c(2) by (intro map_bit_byte assms(1)) simp
  then show ?thesis
    by (simp add: map_at_def c(1))
qed

text \<open>The first sector of the sector map: the sectors of the root directory are in use.\<close>

lemma smap_first_sector:
  assumes "b < 4096"
  shows "map_bit ((buf_write 0 (replicate 256 0xFF) (fsbuf (fill_fsbuf 0 st)))(256 := fsbuf (fill_fsbuf 0 st) 256 OR 1)) b \<longleftrightarrow> b \<le> 2048"
proof -
  let ?f = "(buf_write 0 (replicate 256 0xFF) (fsbuf (fill_fsbuf 0 st)))(256 := fsbuf (fill_fsbuf 0 st) 256 OR 1)"
  have f: "?f a = (if a < 256 then 0xFF else if a = 256 then 1 else 0)" if "a < 512" for a
    using that by (simp add: fill_fsbuf_def buf_write_def)
  have a: "b div 8 < 512" "b mod 8 < 8"
    using assms by simp_all
  have ff: "bit (0xFF :: u8) k" if "k < 8" for k
    using full_byte_FF that by (simp add: full_byte_def)
  consider "b div 8 < 256" | "b div 8 = 256" | "256 < b div 8"
    by linarith
  then show ?thesis
  proof cases
    case 1
    then have "b \<le> 2048"
      by linarith
    then show ?thesis
      unfolding map_bit_def f [OF a(1)] using 1 ff [OF a(2)] by simp
  next
    case 2
    then have "b = 2048 + b mod 8"
      using mult_div_mod_eq [of 8 b] by linarith
    then have "b \<le> 2048 \<longleftrightarrow> b mod 8 = 0"
      by linarith
    then show ?thesis
      unfolding map_bit_def f [OF a(1)] using 2 by (simp add: bit_1_iff)
  next
    case 3
    then have "\<not> b \<le> 2048"
      by linarith
    then show ?thesis
      unfolding map_bit_def f [OF a(1)] using 3 by simp
  qed
qed

lemma install_offset:
  assumes "unat n1 \<le> 0x8000"
  shows "sint (0x8000 - n1 + 1 :: u32) = int (0x8001 - unat n1)"
proof -
  have "unat (0x8000 - n1 :: u32) = 0x8000 - unat n1"
    using assms by (subst unat_sub) (simp_all add: word_le_nat_alt)
  then have "unat (0x8000 - n1 + 1 :: u32) = 0x8001 - unat n1"
    using assms by (subst unat_add_small) simp_all
  then show ?thesis
    using sint_small [of "0x8000 - n1 + 1"] by simp
qed

lemma bit_offset_split: "4096 * (n div 8 div 512) + 8 * (n div 8 mod 512) + n mod 8 = (n :: nat)"
  using mult_div_mod_eq [of 512 "n div 8"] mult_div_mod_eq [of 8 n] by linarith

text \<open>The sectors of the map behind the first one.\<close>

lemma smap_rest_sectors:
  fixes N a :: nat
  defines "ns \<equiv> map (\<lambda>i. 3 + i) [1..int N - 1]"
  shows "(\<exists>n\<in>set ns. 512 * nat n \<le> a \<and> a < 512 * nat n + 512) \<longleftrightarrow> 2048 \<le> a \<and> a < 512 * (3 + N)"
proof
  assume "\<exists>n\<in>set ns. 512 * nat n \<le> a \<and> a < 512 * nat n + 512"
  then obtain n where "4 \<le> n" "n \<le> 2 + int N" "512 * nat n \<le> a" "a < 512 * nat n + 512"
    by (auto simp: ns_def)
  moreover from this have "4 \<le> nat n" "nat n \<le> 2 + N"
    by auto
  ultimately show "2048 \<le> a \<and> a < 512 * (3 + N)"
    by auto
next
  assume a: "2048 \<le> a \<and> a < 512 * (3 + N)"
  then have "4 \<le> a div 512" "a div 512 < 3 + N" "512 * (a div 512) \<le> a" "a < 512 * (a div 512) + 512"
    by (simp_all add: less_mult_imp_div_less mult.commute) linarith+
  then have "int (a div 512) \<in> set ns" "512 * nat (int (a div 512)) \<le> a \<and> a < 512 * nat (int (a div 512)) + 512"
    by (auto simp: ns_def image_iff intro!: bexI [of _ "int (a div 512) - 3"])
  then show "\<exists>n\<in>set ns. 512 * nat n \<le> a \<and> a < 512 * nat n + 512"
    by blast
qed

lemma blank_smap_bits:
  assumes "b < 4096 * N" and D4: "\<And>a. d a = (if 2048 \<le> a \<and> a < 512 * (3 + N) then 0 else put_sect 3 f d0 a)"
    and f: "f = (buf_write 0 (replicate 256 0xFF) (fsbuf (fill_fsbuf 0 st)))(256 := fsbuf (fill_fsbuf 0 st) 256 OR 1)"
  shows "map_bit (map_at 3 d) b \<longleftrightarrow> b \<le> 2048"
proof (cases "b < 4096")
  case True
  then have "\<not> 512 \<le> b div 8"
    by linarith
  then have "map_bit (map_at 3 d) b \<longleftrightarrow> map_bit (map_at 3 (put_sect (3 + 0) f d0)) b"
    by (simp add: map_bit_def map_at_def D4)
  also have "\<dots> \<longleftrightarrow> map_bit f b"
    unfolding map_bit_write using True by simp
  finally show ?thesis
    using smap_first_sector [OF True, of st] by (simp add: f)
next
  case False
  then have "d (1536 + b div 8) = 0"
    using assms(1) unfolding D4 by auto
  then show ?thesis
    using False by (simp add: map_bit_def map_at_def)
qed

lemma set_smap_bits:
  assumes "nr_imap_sects (fs_sb st) = 1" "unat (nr_smap_sects (fs_sb st)) = N" "0 < N" "unat (n_1st_sect (fs_sb st)) \<le> 0x8000"
  defines "off \<equiv> 0x8001 - unat (n_1st_sect (fs_sb st))"
  assumes "off + 2048 \<le> 4096 * N"
  shows "\<exists>f d. set_smap st = Inr (set_disk f d st) \<and> (\<forall>b < 4096 * N. map_bit (map_at 3 d) b \<longleftrightarrow> b \<le> 2048 \<or> off \<le> b \<and> b < off + 2048) \<and>
     (\<forall>a. a < 1536 \<or> 512 * (3 + N) \<le> a \<longrightarrow> d a = fs_disk st 32 a)"
proof -
  let ?d = "fs_disk st 32"
  define f where "f = (buf_write 0 (replicate 256 0xFF) (fsbuf (fill_fsbuf 0 st)))(256 := fsbuf (fill_fsbuf 0 st) 256 OR 1)"
  define d3 where "d3 = put_sect 3 f ?d"
  define st3 where "st3 = fill_fsbuf 0 (set_disk f d3 st)"
  have z: "\<forall>i < 512. fsbuf st3 i = 0"
    by (simp add: st3_def fill_fsbuf_def buf_write_def)
  define ns where "ns = map (\<lambda>i. 3 + i) [1..int N - 1]"
  obtain d4 where d4: "clear_sects ns st3 = Inr (st3\<lparr>fs_disk := (fs_disk st3)(32 := d4)\<rparr>)"
      "\<forall>a. d4 a = (if \<exists>n\<in>set ns. 512 * nat n \<le> a \<and> a < 512 * nat n + 512 then 0 else fs_disk st3 32 a)"
    using clear_sects_zero [OF z, of ns] by (auto simp: ns_def)
  have D4: "d4 a = (if 2048 \<le> a \<and> a < 512 * (3 + N) then 0 else put_sect 3 f ?d a)" for a
    using d4(2) unfolding ns_def smap_rest_sectors by (simp add: st3_def fill_fsbuf_def d3_def)
  have m4: "map_bit (map_at 3 d4) b \<longleftrightarrow> b \<le> 2048" if "b < 4096 * N" for b
    by (rule blank_smap_bits [OF that D4 f_def])
  have o4: "d4 a = ?d a" if "a < 1536 \<or> 512 * (3 + N) \<le> a" for a
    using that assms(3) unfolding D4 by (auto simp: buf_simps)
  define g where "g = copy_range d4 (512 * (3 + off div 8 div 512)) (fsbuf st3) 0 512"
  define st5 where "st5 = set_disk g d4 st"
  have w: "set_smap st = smap_mark 2048 (off mod 8) (off div 8 mod 512) (int 3) (int (off div 8 div 512)) st5"
  proof -
    have "fill_fsbuf 0 st\<lparr>fsbuf := f\<rparr> = st\<lparr>fsbuf := f\<rparr>"
      by (simp add: fill_fsbuf_def)
    then have w3: "WR_SECT ROOT_DEV 3 ((fill_fsbuf 0 st)\<lparr>fsbuf := f\<rparr>) = Inr (set_disk f d3 st)"
      by (simp add: d3_def fill_fsbuf_def)
    have r5: "RD_SECT ROOT_DEV (3 + int (off div 8 div 512)) (st3\<lparr>fs_disk := (fs_disk st3)(32 := d4)\<rparr>) = Inr st5"
      by (simp add: st5_def g_def st3_def fill_fsbuf_def nat_add_distrib)
    have o: "sint (0x8000 - n_1st_sect (fs_sb st) + 1) = int off"
      unfolding off_def by (rule install_offset [OF assms(4)])
    have c: "map (\<lambda>i. 3 + i) [1..uint (nr_smap_sects (fs_sb st)) - 1] = ns"
      by (simp add: ns_def assms(2) [symmetric])
    have i: "2 + uint (nr_imap_sects (fs_sb st)) = 3" "nat (int off mod 8) = off mod 8" "int off div 8 div 512 = int (off div 8 div 512)"
        "nat (int off div 8 mod 512) = off div 8 mod 512"
      by (simp_all add: assms(1) nat_mod_distrib nat_div_distrib zdiv_int)
    show ?thesis
      unfolding set_smap_def Let_def o i f_def [symmetric] w3 res_bind_Inr c st3_def [symmetric] d4(1) r5 by simp
  qed
  have "put_sect (3 + off div 8 div 512) (fsbuf st5) (fs_disk st5 32) = d4"
    by (simp add: st5_def g_def read_back)
  then obtain f' d where d: "set_smap st = Inr (set_disk f' d st5)"
      "\<forall>b. map_bit (map_at 3 d) b \<longleftrightarrow> map_bit (map_at 3 d4) b \<or> off \<le> b \<and> b < off + 2048" "\<forall>a < 512 * 3. d a = d4 a"
    using smap_mark_bits [of "off mod 8" "off div 8 mod 512" 2048 3 "off div 8 div 512" st5] unfolding w bit_offset_split by (auto simp: st5_def)
  have "d a = ?d a" if a: "a < 1536 \<or> 512 * (3 + N) \<le> a" for a
  proof (cases "a < 1536")
    case False
    have "d a = d4 a"
      using a False d(2) assms(6) by (intro map_at_beyond [where m = "512 * N" and blk = 3]) auto
    then show ?thesis
      using o4 [OF a] by simp
  qed (use d(3) o4 in simp)
  moreover have "set_disk f' d st5 = set_disk f' d st"
    by (simp add: st5_def)
  ultimately show ?thesis
    using d(1,2) m4 by - (rule exI [of _ f'], rule exI [of _ d], simp)
qed

section \<open>The disk of the new file system\<close>

text \<open>The sectors \<^verbatim>\<open>mkfs\<close> writes whole: the super block, the inode map, the first inodes, the root directory.\<close>

definition super_sector :: "super_block \<Rightarrow> buffer" where
  "super_sector s = buf_write 0 (concat (map bytes_of (super_words s))) (\<lambda>_. 0xF0)"

definition inode_sector :: "super_block \<Rightarrow> buffer" where
  "inode_sector s =
     buf_write 128 (inode_bytes I_REGULAR (INSTALL_NR_SECTS * 512) INSTALL_START_SECT INSTALL_NR_SECTS)
     (buf_write 96 (inode_bytes I_CHAR_SPECIAL 0 (of_int (MAKE_DEV DEV_CHAR_TTY 2)) 0)
     (buf_write 64 (inode_bytes I_CHAR_SPECIAL 0 (of_int (MAKE_DEV DEV_CHAR_TTY 1)) 0)
     (buf_write 32 (inode_bytes I_CHAR_SPECIAL 0 (of_int (MAKE_DEV DEV_CHAR_TTY 0)) 0)
     (buf_write 0 (inode_bytes I_DIRECTORY 80 (n_1st_sect s) NR_DEFAULT_FILE_SECTS) (\<lambda>_. 0)))))"

definition root_sector :: buffer where
  "root_sector =
     buf_write 64 (dirent_bytes 5 (c_bytes ''cmd.tar'')) (buf_write 48 (dirent_bytes 4 (c_bytes ''dev_tty2''))
     (buf_write 32 (dirent_bytes 3 (c_bytes ''dev_tty1'')) (buf_write 16 (dirent_bytes 2 (c_bytes ''dev_tty0''))
     (buf_write 0 (dirent_bytes 1 (c_bytes ''.'' @ [0])) (\<lambda>_. 0)))))"

definition new_super_block :: "part_info \<Rightarrow> super_block \<Rightarrow> super_block" where
  "new_super_block geo s = s\<lparr>magic := MAGIC_V1, nr_inodes := 4096, sb_nr_sects := psize geo, nr_imap_sects := 1,
     nr_smap_sects := psize geo div 4096 + 1, nr_inode_sects := 256, n_1st_sect := psize geo div 4096 + 260, sb_root_inode := 1,
     inode_size := 32, inode_iszie_off := 4, inode_start_off := 8, dir_ent_inode_off := 0, dir_ent_fname_off := 4\<rparr>"

lemma buf_write_at: "f i = g i \<Longrightarrow> buf_write a bs f i = buf_write a bs g i"
  by (simp add: buf_write_def)

lemma fill_at: "i < 512 \<Longrightarrow> buf_write 0 (replicate 512 b) f i = b"
  by (simp add: buf_write_def)

lemma put_sect_in: "i < 512 \<Longrightarrow> put_sect n f d (512 * n + i) = f i"
  by (simp add: copy_range_def)

lemma put_sect_out: "a < 512 * n \<or> 512 * n + 512 \<le> a \<Longrightarrow> put_sect n f d a = d a"
  by (rule copy_range_out)

lemma set_superblock_disk:
  defines "s geo st \<equiv> new_super_block geo (fs_sb st)"
  shows "\<exists>f. set_superblock geo st = Inr (set_disk f (put_sect 1 f (fs_disk st 32)) (st\<lparr>fs_sb := s geo st\<rparr>)) \<and> (\<forall>i < 512. f i = super_sector (s geo st) i)"
proof -
  have w: "4096 * 32 div 512 = (256 :: u32)"
    by (subst word_unat_eq_iff) (simp only: unat_div, simp)
  define f where "f = buf_write 0 (concat (map bytes_of (super_words (s geo st)))) (buf_write 0 (replicate 512 0xF0) (fsbuf st))"
  have "set_superblock geo st = Inr (set_disk f (put_sect 1 f (fs_disk st 32)) (st\<lparr>fs_sb := s geo st\<rparr>))"
    unfolding set_superblock_def Let_def w by (simp add: fill_fsbuf_def f_def s_def new_super_block_def add.commute)
  moreover have "\<forall>i < 512. f i = super_sector (s geo st) i"
    unfolding f_def super_sector_def by (intro allI impI buf_write_at fill_at)
  ultimately show ?thesis
    by blast
qed

lemma set_imap_disk: "\<exists>f. set_imap st = Inr (set_disk f (put_sect 2 f (fs_disk st 32)) st) \<and> (\<forall>i < 512. f i = (if i = 0 then 0x3F else 0))"
proof -
  define f where "f = (buf_write 0 (replicate 512 0) (fsbuf st))(0 := 0x3F)"
  have "set_imap st = Inr (set_disk f (put_sect 2 f (fs_disk st 32)) st)"
    by (simp add: set_imap_def Let_def fill_fsbuf_def f_def)
  moreover have "\<forall>i < 512. f i = (if i = 0 then 0x3F else 0)"
    by (simp add: f_def fill_at)
  ultimately show ?thesis
    by blast
qed

lemma set_inode_array_disk:
  assumes "nr_imap_sects (fs_sb st) = 1"
  shows "\<exists>f. set_inode_array st = Inr (set_disk f (put_sect (3 + unat (nr_smap_sects (fs_sb st))) f (fs_disk st 32)) st) \<and>
     (\<forall>i < 512. f i = inode_sector (fs_sb st) i)"
proof -
  define f where "f =
     buf_write 128 (inode_bytes I_REGULAR (INSTALL_NR_SECTS * 512) INSTALL_START_SECT INSTALL_NR_SECTS)
     (buf_write 96 (inode_bytes I_CHAR_SPECIAL 0 (of_int (MAKE_DEV DEV_CHAR_TTY 2)) 0)
     (buf_write 64 (inode_bytes I_CHAR_SPECIAL 0 (of_int (MAKE_DEV DEV_CHAR_TTY 1)) 0)
     (buf_write 32 (inode_bytes I_CHAR_SPECIAL 0 (of_int (MAKE_DEV DEV_CHAR_TTY 0)) 0)
     (buf_write 0 (inode_bytes I_DIRECTORY 80 (n_1st_sect (fs_sb st)) NR_DEFAULT_FILE_SECTS) (buf_write 0 (replicate 512 0) (fsbuf st))))))"
  have "nat (3 + uint (nr_smap_sects (fs_sb st))) = 3 + unat (nr_smap_sects (fs_sb st))"
    by (simp add: nat_add_distrib)
  then have "set_inode_array st = Inr (set_disk f (put_sect (3 + unat (nr_smap_sects (fs_sb st))) f (fs_disk st 32)) st)"
    using assms by (simp add: set_inode_array_def Let_def fill_fsbuf_def f_def)
  moreover have "\<forall>i < 512. f i = inode_sector (fs_sb st) i"
    unfolding f_def inode_sector_def by (intro allI impI buf_write_at fill_at)
  ultimately show ?thesis
    by blast
qed

lemma set_root_de_disk:
  "\<exists>f. set_root_de st = Inr (set_disk f (put_sect (unat (n_1st_sect (fs_sb st))) f (fs_disk st 32)) st) \<and> (\<forall>i < 512. f i = root_sector i)"
proof -
  define f where "f = buf_write 64 (dirent_bytes 5 (c_bytes ''cmd.tar'')) (buf_write 48 (dirent_bytes 4 (c_bytes ''dev_tty2''))
     (buf_write 32 (dirent_bytes 3 (c_bytes ''dev_tty1'')) (buf_write 16 (dirent_bytes 2 (c_bytes ''dev_tty0''))
     (buf_write 0 (dirent_bytes 1 (c_bytes ''.'' @ [0])) (buf_write 0 (replicate 512 0) (fsbuf st))))))"
  have t: "Fs.tty_name 0 = ''dev_tty0''" "Fs.tty_name 1 = ''dev_tty1''" "Fs.tty_name 2 = ''dev_tty2''"
    by (simp_all add: Fs.tty_name_def char_of_def bit_Suc_0_iff)
  have "set_root_de st = Inr (set_disk f (put_sect (unat (n_1st_sect (fs_sb st))) f (fs_disk st 32)) st)"
    by (simp add: set_root_de_def Let_def fill_fsbuf_def f_def t [simplified])
  moreover have "\<forall>i < 512. f i = root_sector i"
    unfolding f_def root_sector_def by (intro allI impI buf_write_at fill_at)
  ultimately show ?thesis
    by blast
qed

text \<open>A disk \<open>d\<close> with a new file system whose sector map has \<open>N\<close> sectors; \<open>d0\<close> is the disk before.\<close>

definition new_disk :: "nat \<Rightarrow> super_block \<Rightarrow> buffer \<Rightarrow> buffer \<Rightarrow> bool" where
  "new_disk N s d0 d \<longleftrightarrow>
     (\<forall>i < 512. d (512 * 1 + i) = super_sector s i) \<and> (\<forall>i < 512. d (512 * 2 + i) = (if i = 0 then 0x3F else 0)) \<and>
     (\<forall>b < 4096 * N. map_bit (map_at 3 d) b \<longleftrightarrow> b \<le> 2048 \<or> 0x8001 - (259 + N) \<le> b \<and> b < 0x8001 - (259 + N) + 2048) \<and>
     (\<forall>i < 512. d (512 * (3 + N) + i) = inode_sector s i) \<and> (\<forall>i < 512. d (512 * (259 + N) + i) = root_sector i) \<and>
     (\<forall>a. a < 512 \<or> 512 * (4 + N) \<le> a \<and> a < 512 * (259 + N) \<or> 512 * (260 + N) \<le> a \<longrightarrow> d a = d0 a)"

lemma new_super_block_numbers:
  assumes "unat (psize geo) < 2 ^ 26"
  shows "unat (nr_smap_sects (new_super_block geo s)) = unat (psize geo) div 4096 + 1"
    "unat (n_1st_sect (new_super_block geo s)) = 260 + unat (psize geo) div 4096"
proof -
  have "unat (psize geo) div 4096 < 2 ^ 14"
    using assms by simp
  moreover have "unat (psize geo div 4096) = unat (psize geo) div 4096"
    by (simp add: unat_div)
  ultimately show "unat (nr_smap_sects (new_super_block geo s)) = unat (psize geo) div 4096 + 1"
      "unat (n_1st_sect (new_super_block geo s)) = 260 + unat (psize geo) div 4096"
    by (simp_all add: new_super_block_def, (subst unat_add_small; simp)+)
qed

lemma mkfs_disk:
  assumes "0x8800 \<le> unat (psize geo)" "unat (psize geo) < 2 ^ 26"
  shows "\<exists>f d. mkfs geo st = Inr (set_disk f d (st\<lparr>fs_sb := new_super_block geo (fs_sb st)\<rparr>)) \<and>
     new_disk (unat (psize geo) div 4096 + 1) (new_super_block geo (fs_sb st)) (fs_disk st 32) d"
proof -
  define N s where "N = unat (psize geo) div 4096 + 1" and "s = new_super_block geo (fs_sb st)"
  have s: "nr_imap_sects s = 1" "unat (nr_smap_sects s) = N" "unat (n_1st_sect s) = 259 + N"
    using new_super_block_numbers [OF assms(2), of "fs_sb st"] by (simp_all add: s_def N_def) (simp add: new_super_block_def)
  have N: "0 < N" "N \<le> 16384" "0x8800 < 4096 * N"
    using assms by (simp_all add: N_def)
  let ?d0 = "fs_disk st 32"
  obtain f1 where f1: "set_superblock geo st = Inr (set_disk f1 (put_sect 1 f1 ?d0) (st\<lparr>fs_sb := s\<rparr>))" "\<forall>i < 512. f1 i = super_sector s i"
    using set_superblock_disk [of geo st] unfolding s_def by blast
  define st1 where "st1 = set_disk f1 (put_sect 1 f1 ?d0) (st\<lparr>fs_sb := s\<rparr>)"
  obtain f2 where f2: "set_imap st1 = Inr (set_disk f2 (put_sect 2 f2 (fs_disk st1 32)) st1)" "\<forall>i < 512. f2 i = (if i = 0 then 0x3F else 0)"
    using set_imap_disk by blast
  define st2 where "st2 = set_disk f2 (put_sect 2 f2 (fs_disk st1 32)) st1"
  have s2: "fs_sb st2 = s"
    by (simp add: st2_def st1_def)
  obtain f3 d3 where f3: "set_smap st2 = Inr (set_disk f3 d3 st2)"
      "\<forall>b < 4096 * N. map_bit (map_at 3 d3) b \<longleftrightarrow> b \<le> 2048 \<or> 0x8001 - (259 + N) \<le> b \<and> b < 0x8001 - (259 + N) + 2048"
      "\<forall>a. a < 1536 \<or> 512 * (3 + N) \<le> a \<longrightarrow> d3 a = fs_disk st2 32 a"
  proof -
    have "nr_imap_sects (fs_sb st2) = 1" "unat (nr_smap_sects (fs_sb st2)) = N" "unat (n_1st_sect (fs_sb st2)) \<le> 0x8000"
        "0x8001 - unat (n_1st_sect (fs_sb st2)) + 2048 \<le> 4096 * N"
      using s N unfolding s2 by linarith+
    from set_smap_bits [OF this(1,2) N(1) this(3,4)] show ?thesis
      using that unfolding s2 s(3) by blast
  qed
  define st3 where "st3 = set_disk f3 d3 st2"
  obtain f4 where f4: "set_inode_array st3 = Inr (set_disk f4 (put_sect (3 + N) f4 (fs_disk st3 32)) st3)" "\<forall>i < 512. f4 i = inode_sector s i"
    using set_inode_array_disk [of st3] s unfolding st3_def by (auto simp: s2)
  define st4 where "st4 = set_disk f4 (put_sect (3 + N) f4 (fs_disk st3 32)) st3"
  obtain f5 where f5: "set_root_de st4 = Inr (set_disk f5 (put_sect (259 + N) f5 (fs_disk st4 32)) st4)" "\<forall>i < 512. f5 i = root_sector i"
    using set_root_de_disk [of st4] s unfolding st4_def st3_def by (auto simp: s2)
  define d where "d = put_sect (259 + N) f5 (put_sect (3 + N) f4 d3)"
  have m: "mkfs geo st = Inr (set_disk f5 d (st\<lparr>fs_sb := s\<rparr>))"
    unfolding mkfs_def f1(1) res_bind_Inr st1_def [symmetric] f2(1) st2_def [symmetric] f3(1) st3_def [symmetric] f4(1) st4_def [symmetric] f5(1)
    by (simp add: st4_def st3_def st2_def st1_def d_def)
  have lo: "d a = d3 a" if "a < 512 * (3 + N)" for a
    using that by (simp add: d_def copy_range_out)
  have l2: "d3 a = put_sect 2 f2 (put_sect 1 f1 ?d0) a" if "a < 1536 \<or> 512 * (3 + N) \<le> a" for a
    using f3(3) that by (auto simp: st2_def st1_def)
  have hi: "d (512 * n + i) = put_sect n f e (512 * n + i)" if "n = 1 \<and> f = f1 \<or> n = 2 \<and> f = f2" "i < 512" for n i f e
    using that lo [of "512 * n + i"] l2 [of "512 * n + i"] by (auto simp: copy_range_def)
  have 1: "\<forall>i < 512. d (512 * 1 + i) = super_sector s i" "\<forall>i < 512. d (512 * 2 + i) = (if i = 0 then 0x3F else 0)"
    using hi [of 1 f1] hi [of 2 f2] f1(2) f2(2) put_sect_in by metis+
  have 2: "\<forall>b < 4096 * N. map_bit (map_at 3 d) b \<longleftrightarrow> b \<le> 2048 \<or> 0x8001 - (259 + N) \<le> b \<and> b < 0x8001 - (259 + N) + 2048"
  proof (intro allI impI)
    fix b
    assume b: "b < 4096 * N"
    then have "512 * 3 + b div 8 < 512 * (3 + N)"
      by simp
    then have "map_bit (map_at 3 d) b = map_bit (map_at 3 d3) b"
      unfolding map_bit_def map_at_def by (simp only: lo)
    then show "map_bit (map_at 3 d) b \<longleftrightarrow> b \<le> 2048 \<or> 0x8001 - (259 + N) \<le> b \<and> b < 0x8001 - (259 + N) + 2048"
      using f3(2) b by simp
  qed
  have 3: "\<forall>i < 512. d (512 * (3 + N) + i) = inode_sector s i" "\<forall>i < 512. d (512 * (259 + N) + i) = root_sector i"
    unfolding d_def using f4(2) f5(2) by (simp_all add: copy_range_def)
  have 4: "\<forall>a. a < 512 \<or> 512 * (4 + N) \<le> a \<and> a < 512 * (259 + N) \<or> 512 * (260 + N) \<le> a \<longrightarrow> d a = ?d0 a"
  proof (intro allI impI)
    fix a
    assume a: "a < 512 \<or> 512 * (4 + N) \<le> a \<and> a < 512 * (259 + N) \<or> 512 * (260 + N) \<le> a"
    then have "a < 512 * (259 + N) \<or> 512 * (259 + N) + 512 \<le> a" "a < 512 * (3 + N) \<or> 512 * (3 + N) + 512 \<le> a"
      by auto
    then have "d a = d3 a"
      unfolding d_def by (simp only: put_sect_out)
    also have "\<dots> = ?d0 a"
      using a l2 [of a] by (auto simp: copy_range_def)
    finally show "d a = ?d0 a" .
  qed
  have "new_disk N s ?d0 d"
    unfolding new_disk_def using 1 2 3 4 by blast
  then show ?thesis
    using m unfolding s_def N_def by blast
qed

section \<open>Reading the new file system\<close>

lemma name_at_unique: "name_at nm f a \<Longrightarrow> 0 \<notin> set nm \<Longrightarrow> 0 \<notin> set name \<Longrightarrow> name_at name f a \<longleftrightarrow> name = nm"
proof -
  assume nm: "name_at nm f a" "0 \<notin> set nm" "0 \<notin> set name"
  then have "buf_write a (nm @ [0]) f = f"
    by (auto simp: fun_eq_iff buf_write_def name_at_iff nth_append less_Suc_eq)
  then show ?thesis
    using name_at_write [OF nm(2,3), of a f] by simp
qed

lemma root_sector_names:
  "name_at (c_bytes ''.'') root_sector 4" "name_at (c_bytes ''dev_tty0'') root_sector 20" "name_at (c_bytes ''dev_tty1'') root_sector 36"
  "name_at (c_bytes ''dev_tty2'') root_sector 52" "name_at (c_bytes ''cmd.tar'') root_sector 68" "root_sector 84 = 0"
  by (simp_all add: root_sector_def c_bytes_def dirent_bytes_def bytes_of_def buf_write_def)

lemma root_sector_numbers:
  "buf_word root_sector 0 = 1" "buf_word root_sector 16 = 2" "buf_word root_sector 32 = 3" "buf_word root_sector 48 = 4" "buf_word root_sector 64 = 5"
  "80 \<le> a \<Longrightarrow> root_sector a = 0"
  by (simp_all add: root_sector_def c_bytes_def dirent_bytes_def bytes_of_def buf_write_def buf_word_def buf_bytes_def word_of_def upt_rec)

lemma inode_sector_load:
  "load_inode (inode_sector s) 0 x = x\<lparr>i_mode := I_DIRECTORY, i_size := 80, i_start_sect := n_1st_sect s, i_nr_sects := NR_DEFAULT_FILE_SECTS\<rparr>"
  "load_inode (inode_sector s) 32 x = x\<lparr>i_mode := I_CHAR_SPECIAL, i_size := 0, i_start_sect := of_int (MAKE_DEV DEV_CHAR_TTY 0), i_nr_sects := 0\<rparr>"
  "load_inode (inode_sector s) 64 x = x\<lparr>i_mode := I_CHAR_SPECIAL, i_size := 0, i_start_sect := of_int (MAKE_DEV DEV_CHAR_TTY 1), i_nr_sects := 0\<rparr>"
  "load_inode (inode_sector s) 96 x = x\<lparr>i_mode := I_CHAR_SPECIAL, i_size := 0, i_start_sect := of_int (MAKE_DEV DEV_CHAR_TTY 2), i_nr_sects := 0\<rparr>"
  "load_inode (inode_sector s) 128 x = x\<lparr>i_mode := I_REGULAR, i_size := INSTALL_NR_SECTS * 512, i_start_sect := INSTALL_START_SECT, i_nr_sects := INSTALL_NR_SECTS\<rparr>"
proof -
  have o: "load_inode (buf_write b (inode_bytes m sz s0 n) f) a x = load_inode f a x" if "b + 16 \<le> a \<or> a + 16 \<le> b" for a b m sz s0 n f
    using that by (intro load_inode_cong) (auto simp: buf_simps)
  show "load_inode (inode_sector s) 0 x = x\<lparr>i_mode := I_DIRECTORY, i_size := 80, i_start_sect := n_1st_sect s, i_nr_sects := NR_DEFAULT_FILE_SECTS\<rparr>"
      "load_inode (inode_sector s) 32 x = x\<lparr>i_mode := I_CHAR_SPECIAL, i_size := 0, i_start_sect := of_int (MAKE_DEV DEV_CHAR_TTY 0), i_nr_sects := 0\<rparr>"
      "load_inode (inode_sector s) 64 x = x\<lparr>i_mode := I_CHAR_SPECIAL, i_size := 0, i_start_sect := of_int (MAKE_DEV DEV_CHAR_TTY 1), i_nr_sects := 0\<rparr>"
      "load_inode (inode_sector s) 96 x = x\<lparr>i_mode := I_CHAR_SPECIAL, i_size := 0, i_start_sect := of_int (MAKE_DEV DEV_CHAR_TTY 2), i_nr_sects := 0\<rparr>"
      "load_inode (inode_sector s) 128 x = x\<lparr>i_mode := I_REGULAR, i_size := INSTALL_NR_SECTS * 512, i_start_sect := INSTALL_START_SECT, i_nr_sects := INSTALL_NR_SECTS\<rparr>"
    unfolding inode_sector_def by (simp_all add: o load_store_inode)
qed

lemma buf_word_words: "k < length ws \<Longrightarrow> buf_word (buf_write a (concat (map bytes_of ws)) f) (a + 4 * k) = ws ! k"
proof (induction ws arbitrary: a f k)
  case (Cons w ws)
  have "buf_write a (concat (map bytes_of (w # ws))) f = buf_write (a + 4) (concat (map bytes_of ws)) (buf_set a w f)"
    using buf_write_append [of a "bytes_of w" "concat (map bytes_of ws)" f] by (simp add: buf_set_def)
  then show ?case
    using Cons.IH [of "k - 1" "a + 4" "buf_set a w f"] Cons.prems by (cases k) (simp_all add: buf_simps add.assoc)
qed simp

lemma super_sector_read: "super_block_at (super_sector s) = s\<lparr>sb_dev := sint (of_int (sb_dev s) :: u32)\<rparr>"
proof -
  note r = buf_word_words [of _ "super_words s" 0 "\<lambda>_. 0xF0", folded super_sector_def]
  show ?thesis
    using r [of 0] r [of 1] r [of 2] r [of 3] r [of 4] r [of 5] r [of 6] r [of 7] r [of 8] r [of 9] r [of 10] r [of 11] r [of 12] r [of 13] r [of 14]
    by (simp add: super_block_at_def super_words_def)
qed

text \<open>A file system on a disk without one starts like one on the disk that \<^verbatim>\<open>mkfs\<close> leaves.\<close>

lemma read_super_block_again:
  "read_super_block ROOT_DEV (st\<lparr>fsbuf := copy_range (fs_disk st 32) 512 (fsbuf st) 0 512\<rparr>) = read_super_block ROOT_DEV st"
proof -
  have rs: "rw_sector DEV_READ ROOT_DEV SECTOR_SIZE SECTOR_SIZE st1 = Inr (st1\<lparr>fsbuf := copy_range (fs_disk st1 32) 512 (fsbuf st1) 0 512\<rparr>)" for st1
    using rw_read_root [of 1 1 st1] by simp
  have "copy_range d a (copy_range d a f 0 n) 0 n = copy_range d a f 0 n" for d a f n
    by (auto simp: copy_range_def fun_eq_iff)
  then show ?thesis
    unfolding read_super_block_def rs by simp
qed

lemma init_fs_mkfs:
  assumes "magic (super_block_at (\<lambda>i. fs_disk st 32 (512 + i))) \<noteq> MAGIC_V1"
    "\<And>st3. fs_disk st3 = fs_disk st \<Longrightarrow> fs_sb st3 = fs_sb st \<Longrightarrow> \<exists>f d. mkfs geo st3 = Inr (set_disk f d (st3\<lparr>fs_sb := s\<rparr>)) \<and> P d"
    "\<And>d. P d \<Longrightarrow> magic (super_block_at (\<lambda>i. d (512 + i))) = MAGIC_V1"
  shows "\<exists>f d. init_fs geo junk st = init_fs geo junk (set_disk f d (st\<lparr>fs_sb := s\<rparr>)) \<and> P d"
proof -
  have sb: "magic (super_block_at (copy_range e 512 f 0 512)) = magic (super_block_at (\<lambda>i. e (512 + i)))" for e f
    by (simp add: super_block_at_def buf_simps) (simp add: buf_word_def buf_bytes_def)
  define clean where "clean st = fs_send TASK_HD (junk\<lparr>mtype := DEV_OPEN, m3i4 := MINOR ROOT_DEV\<rparr>)
     (st\<lparr>fd_table := (\<lambda>i. if i < NR_FILE_DESC then zero_fd else fd_table st i),
         inode_table := (\<lambda>i. if i < NR_INODE then zero_inode else inode_table st i),
         super_blocks := (\<lambda>i. if i < NR_SUPER_BLOCK then (super_blocks st i)\<lparr>sb_dev := NO_DEV\<rparr> else super_blocks st i)\<rparr>)" for st
  define rest where "rest st4 = res_bind (read_super_block ROOT_DEV st4) (\<lambda>st5. res_bind (get_super_block ROOT_DEV st5) (\<lambda>(s, st6).
         res_bind (assert_c (magic s = MAGIC_V1) ''sb->magic == MAGIC_V1'') (\<lambda>_.
         res_bind (get_inode ROOT_DEV ROOT_INODE st6) (\<lambda>(r, st7). Inr (st7\<lparr>root_inode := r\<rparr>)))))" for st4
  have i: "init_fs geo junk st = (let st3 = (clean st)\<lparr>fsbuf := copy_range (fs_disk st 32) 512 (fsbuf st) 0 512\<rparr>
      in res_bind (if magic (super_block_at (\<lambda>i. fs_disk st 32 (512 + i))) \<noteq> MAGIC_V1 then mkfs geo st3 else Inr st3) rest)" for st
    unfolding init_fs_def Let_def rest_def [abs_def] clean_def [symmetric] by (simp add: sb, simp add: clean_def fs_send_def sb)
  define st3 where "st3 = (clean st)\<lparr>fsbuf := copy_range (fs_disk st 32) 512 (fsbuf st) 0 512\<rparr>"
  have "fs_disk st3 = fs_disk st" "fs_sb st3 = fs_sb st"
    by (simp_all add: st3_def clean_def fs_send_def)
  then obtain f d where f: "mkfs geo st3 = Inr (set_disk f d (st3\<lparr>fs_sb := s\<rparr>))" "P d"
    using assms(2) by blast
  let ?st = "set_disk f d (st\<lparr>fs_sb := s\<rparr>)"
  have "init_fs geo junk st = rest (set_disk f d (st3\<lparr>fs_sb := s\<rparr>))"
    unfolding i [of st] Let_def st3_def [symmetric] using assms(1) f(1) by simp
  also have "set_disk f d (st3\<lparr>fs_sb := s\<rparr>) = clean ?st"
    by (rule fs_state.equality) (simp_all add: st3_def clean_def fs_send_def cong: if_cong)
  also have "rest (clean ?st) = rest ((clean ?st)\<lparr>fsbuf := copy_range (fs_disk (clean ?st) 32) 512 (fsbuf (clean ?st)) 0 512\<rparr>)"
    unfolding rest_def read_super_block_again ..
  also have "\<dots> = init_fs geo junk ?st"
    unfolding i [of ?st] Let_def using assms(3) [OF f(2)] by (simp, simp add: clean_def fs_send_def)
  finally show ?thesis
    using f(2) by blast
qed

text \<open>What a new disk holds, as the file system reads it.\<close>

lemma new_disk_super:
  assumes "new_disk N s d0 d"
  shows "super_block_at (\<lambda>i. d (512 + i)) = s\<lparr>sb_dev := sint (of_int (sb_dev s) :: u32)\<rparr>"
proof -
  have "\<forall>i < 512. d (512 + i) = super_sector s i"
    using assms by (simp add: new_disk_def)
  then have "buf_word (\<lambda>i. d (512 + i)) a = buf_word (super_sector s) a" if "a + 4 \<le> 512" for a
    using that by (intro buf_word_cong) simp
  then have "super_block_at (\<lambda>i. d (512 + i)) = super_block_at (super_sector s)"
    by (simp add: super_block_at_def)
  then show ?thesis
    unfolding super_sector_read .
qed

lemma load_inode_shift:
  assumes "\<And>i. i < 16 \<Longrightarrow> f (a + i) = g (b + i)"
  shows "load_inode f a x = load_inode g b x"
proof -
  have "buf_word f (a + k) = buf_word g (b + k)" if "k + 4 \<le> 16" for k
    unfolding buf_word_def using assms that by (intro arg_cong [where f = word_of] nth_equalityI) (simp_all add: add.assoc)
  from this [of 0] this [of 4] this [of 8] this [of 12] show ?thesis
    by (simp add: load_inode_def)
qed

lemma new_disk_inode:
  assumes "new_disk N s d0 d" "nr_imap_sects s = 1" "unat (nr_smap_sects s) = N" "k < 16"
  shows "disk_inode s d (int k + 1) x = load_inode (inode_sector s) (32 * k) x"
  unfolding disk_inode_def
proof (rule load_inode_shift)
  fix i :: nat
  assume "i < 16"
  then have "32 * k + i < 512" "inode_addr s (int k + 1) + i = 512 * (3 + N) + (32 * k + i)"
    using assms(2-4) by (simp_all add: inode_addr_def)
  then show "d (inode_addr s (int k + 1) + i) = inode_sector s (32 * k + i)"
    using assms(1) unfolding new_disk_def by metis
qed

definition first_files :: "(u8 list \<times> int) list" where
  "first_files = [(c_bytes ''.'', 1), (c_bytes ''dev_tty0'', 2), (c_bytes ''dev_tty1'', 3), (c_bytes ''dev_tty2'', 4), (c_bytes ''cmd.tar'', 5)]"

lemma new_disk_lookup:
  assumes "new_disk N s d0 d" "length name < 12" "name \<noteq> []" "0 \<notin> set name"
  shows "dir_lookup name d (512 * (259 + N)) 0 6 = (case map_of first_files name of None \<Rightarrow> 0 | Some n \<Rightarrow> n)"
proof -
  define base where "base = 512 * (259 + N)"
  have r: "\<forall>i < 512. d (base + i) = root_sector i"
    using assms(1) unfolding new_disk_def base_def by blast
  then have h: "holds_sector root_sector d base 0"
    unfolding holds_sector_def by simp
  have e: "entry_named name d base j \<longleftrightarrow> name_at name root_sector (16 * j + 4)" "entry_nr d base j = sint (buf_word root_sector (16 * j))" if "j < 32" for j
    using sector_name [OF h assms(2) that] by simp_all
  have u: "[0..<6] = [0, 1, 2, 3, 4, 5 :: nat]"
    by (simp add: upt_rec)
  have n: "0 \<notin> set (c_bytes ''.'')" "0 \<notin> set (c_bytes ''dev_tty0'')" "0 \<notin> set (c_bytes ''dev_tty1'')" "0 \<notin> set (c_bytes ''dev_tty2'')" "0 \<notin> set (c_bytes ''cmd.tar'')"
    by (simp_all add: c_bytes_def)
  note nm = name_at_unique [OF root_sector_names(1) n(1) assms(4)] name_at_unique [OF root_sector_names(2) n(2) assms(4)]
    name_at_unique [OF root_sector_names(3) n(3) assms(4)] name_at_unique [OF root_sector_names(4) n(4) assms(4)]
    name_at_unique [OF root_sector_names(5) n(5) assms(4)]
  have l: "\<not> name_at name root_sector 84"
    using assms(3,4) root_sector_names(6) by (cases name) auto
  have f: "(case find P [0, 1, 2, 3, 4, 5 :: nat] of None \<Rightarrow> 0 | Some x \<Rightarrow> v x) =
      (if P 0 then v 0 else if P 1 then v 1 else if P 2 then v 2 else if P 3 then v 3 else if P 4 then v 4 else if P 5 then v 5 else 0)" for P and v :: "nat \<Rightarrow> int"
    by simp
  have m: "(case map_of [(a, 1), (b, 2), (c, 3), (d, 4), (e, 5)] x of None \<Rightarrow> 0 | Some n \<Rightarrow> n) =
      (if x = a then 1 else if x = b then 2 else if x = c then 3 else if x = d then 4 else if x = e then 5 else (0 :: int))" for a b c d e x :: "u8 list"
    by simp
  have p: "entry_named name d base 0 \<longleftrightarrow> name = c_bytes ''.''" "entry_named name d base 1 \<longleftrightarrow> name = c_bytes ''dev_tty0''"
      "entry_named name d base 2 \<longleftrightarrow> name = c_bytes ''dev_tty1''" "entry_named name d base 3 \<longleftrightarrow> name = c_bytes ''dev_tty2''"
      "entry_named name d base 4 \<longleftrightarrow> name = c_bytes ''cmd.tar''" "entry_named name d base 5 \<longleftrightarrow> False"
    using nm l by (simp_all add: e)
  have v: "entry_nr d base 0 = 1" "entry_nr d base 1 = 2" "entry_nr d base 2 = 3" "entry_nr d base 3 = 4" "entry_nr d base 4 = 5"
    using root_sector_numbers by (simp_all add: e)
  show ?thesis
    unfolding base_def [symmetric] dir_lookup_def u f first_files_def m p v by simp
qed

lemma new_disk_imap:
  assumes "new_disk N s d0 d" "b < 4096"
  shows "map_bit (map_at 2 d) b \<longleftrightarrow> b < 6"
proof -
  have "b div 8 < 512"
    using assms(2) by simp
  then have d: "map_at 2 d (b div 8) = (if b div 8 = 0 then 0x3F else 0)"
    using assms(1) unfolding new_disk_def map_at_def by blast
  have "(0x3F :: u8) = mask 6"
    by (simp add: mask_eq_exp_minus_1)
  then have "bit (0x3F :: u8) k \<longleftrightarrow> k < 6" for k
    unfolding \<open>0x3F = mask 6\<close> bit_mask_iff possible_bit_word by auto
  then have "map_bit (map_at 2 d) b \<longleftrightarrow> b div 8 = 0 \<and> b mod 8 < 6"
    by (simp add: map_bit_def d)
  then show ?thesis
    by (cases "b < 8") (simp_all add: div_eq_0_iff)
qed

section \<open>The file system after the start on an unformatted disk\<close>

text \<open>The root directory of a new file system, in memory.\<close>

definition new_root :: "nat \<Rightarrow> inode" where
  "new_root n1 = \<lparr>i_mode = I_DIRECTORY, i_size = 80, i_start_sect = of_nat n1, i_nr_sects = NR_DEFAULT_FILE_SECTS, i_dev = ROOT_DEV, i_cnt = 1, i_num = ROOT_INODE\<rparr>"

lemma init_fs_new:
  assumes "magic (super_block_at (\<lambda>i. fs_disk st 32 (512 + i))) \<noteq> MAGIC_V1" "0x8800 \<le> unat (psize geo)" "unat (psize geo) < 2 ^ 26"
  shows "\<exists>st'. init_fs geo junk st = Inr st' \<and> fs_procs st' = fs_procs st \<and> fs_mem st' = fs_mem st \<and> root_inode st' = 0 \<and>
     super_blocks st' 0 = (new_super_block geo (fs_sb st))\<lparr>sb_dev := ROOT_DEV\<rparr> \<and> (\<forall>i < 64. fd_table st' i = zero_fd) \<and>
     inode_table st' 0 = new_root (260 + unat (psize geo) div 4096) \<and> (\<forall>i < 64. 0 < i \<longrightarrow> inode_table st' i = zero_inode) \<and>
     new_disk (unat (psize geo) div 4096 + 1) (new_super_block geo (fs_sb st)) (fs_disk st 32) (fs_disk st' 32) \<and>
     (\<forall>x. x \<noteq> 32 \<longrightarrow> fs_disk st' x = fs_disk st x)"
proof -
  define N s where "N = unat (psize geo) div 4096 + 1" and "s = new_super_block geo (fs_sb st)"
  have n: "nr_imap_sects s = 1" "unat (nr_smap_sects s) = N" "unat (n_1st_sect s) = 259 + N" "nr_inode_sects s = 256"
    using new_super_block_numbers [OF assms(3), of "fs_sb st"] by (simp_all add: s_def N_def) (simp_all add: new_super_block_def)
  have "N \<le> 16384"
    using assms(3) by (simp add: N_def)
  then have ok: "layout_ok s" "inode_ok s 1"
    using n by (simp_all add: layout_ok_def inode_ok_def)
  have mg: "magic s = MAGIC_V1"
    by (simp add: s_def new_super_block_def)
  define w where "w = sint (of_int (sb_dev s) :: u32)"
  have sb: "super_block_at (\<lambda>i. d (512 + i)) = s\<lparr>sb_dev := w\<rparr>" if "new_disk N s (fs_disk st 32) d" for d
    unfolding w_def by (rule new_disk_super [OF that])
  obtain f d where f: "init_fs geo junk st = init_fs geo junk (set_disk f d (st\<lparr>fs_sb := s\<rparr>))" and d: "new_disk N s (fs_disk st 32) d"
  proof -
    have "\<exists>f d. mkfs geo st3 = Inr (set_disk f d (st3\<lparr>fs_sb := s\<rparr>)) \<and> new_disk N s (fs_disk st 32) d" if "fs_disk st3 = fs_disk st" "fs_sb st3 = fs_sb st" for st3
      using mkfs_disk [OF assms(2,3), of st3] unfolding that s_def N_def .
    from init_fs_mkfs [OF assms(1), of geo s "new_disk N s (fs_disk st 32)" junk, OF this] show ?thesis
      using that sb mg by auto
  qed
  let ?st = "set_disk f d (st\<lparr>fs_sb := s\<rparr>)"
  have m: "buf_word (fs_disk ?st 32) 512 = MAGIC_V1"
    using arg_cong [OF sb [OF d], of magic] mg by (simp add: super_block_at_def buf_word_shift)
  have r: "disk_inode s d 1 y = y\<lparr>i_mode := I_DIRECTORY, i_size := 80, i_start_sect := of_nat (259 + N), i_nr_sects := NR_DEFAULT_FILE_SECTS\<rparr>" for y
  proof -
    have "n_1st_sect s = of_nat (259 + N)"
      unfolding n(3) [symmetric] by simp
    then show ?thesis
      using new_disk_inode [OF d n(1,2), of 0 y] inode_sector_load(1) [of s y] by simp
  qed
  have "s\<lparr>sb_dev := w\<rparr> = super_block_at (\<lambda>i. fs_disk ?st 32 (512 + i))" "layout_ok (s\<lparr>sb_dev := w\<rparr>)" "inode_ok (s\<lparr>sb_dev := w\<rparr>) 1"
      "disk_inode (s\<lparr>sb_dev := w\<rparr>) d 1 y = disk_inode s d 1 y" for y
    using sb [OF d] ok by (simp_all add: disk_inode_def)
  from init_fs_formatted [OF m this(1-3), of geo junk] this(4) show ?thesis
    using d unfolding f s_def [symmetric] N_def [symmetric]
    by (auto simp: r new_root_def zero_inode_def N_def)
qed

text \<open>The state after \<^verbatim>\<open>init_fs\<close> has made a file system with a sector map of \<open>N\<close> sectors.\<close>

definition fresh_fs :: "nat \<Rightarrow> super_block \<Rightarrow> buffer \<Rightarrow> fs_state \<Rightarrow> bool" where
  "fresh_fs N s d0 st \<longleftrightarrow> root_dir st = new_root (259 + N) \<and> super_blocks st 0 = s\<lparr>sb_dev := ROOT_DEV\<rparr> \<and> new_disk N s d0 (fs_disk st 32) \<and>
     nr_imap_sects s = 1 \<and> unat (nr_smap_sects s) = N \<and> unat (n_1st_sect s) = 259 + N \<and> nr_inode_sects s = 256 \<and> N \<le> 16384"

lemma init_fs_fresh:
  assumes "magic (super_block_at (\<lambda>i. fs_disk st 32 (512 + i))) \<noteq> MAGIC_V1" "0x8800 \<le> unat (psize geo)" "unat (psize geo) < 2 ^ 26"
  shows "\<exists>st'. init_fs geo junk st = Inr st' \<and> fresh_fs (unat (psize geo) div 4096 + 1) (new_super_block geo (fs_sb st)) (fs_disk st 32) st' \<and>
     fs_procs st' = fs_procs st \<and> fs_mem st' = fs_mem st \<and> root_inode st' = 0 \<and> (\<forall>i < 64. fd_table st' i = zero_fd) \<and>
     (\<forall>i < 64. 0 < i \<longrightarrow> inode_table st' i = zero_inode)"
proof -
  let ?s = "new_super_block geo (fs_sb st)"
  have "nr_imap_sects ?s = 1" "nr_inode_sects ?s = 256"
    by (simp_all add: new_super_block_def)
  moreover have "unat (psize geo) div 4096 + 1 \<le> 16384"
    using assms(3) by simp
  ultimately show ?thesis
    using init_fs_new [OF assms, of junk] new_super_block_numbers [OF assms(3), of "fs_sb st"] unfolding fresh_fs_def by auto
qed

lemma fresh_dir:
  assumes "fresh_fs N s d0 st"
  shows "dir_ok st" "dir_len st = 5" "dir_addr st = 512 * (259 + N)" "dir_seen st = 6"
proof -
  have root: "root_dir st = new_root (259 + N)" and n: "unat (n_1st_sect s) = 259 + N"
    using assms by (simp_all add: fresh_fs_def)
  have u: "unat (of_nat (259 + N) :: u32) = 259 + N"
    unfolding n [symmetric] by simp
  show d: "dir_len st = 5" "dir_addr st = 512 * (259 + N)" "dir_seen st = 6"
    using u by (simp_all add: dir_seen_def dir_len_def dir_addr_def data_addr_def root new_root_def)
  show "dir_ok st"
    using assms u unfolding dir_ok_def root d by (simp add: fresh_fs_def new_root_def layout_ok_def inode_ok_def)
qed

lemma fresh_search:
  assumes "fresh_fs N s d0 st" "strip_path MAX_FILENAME_LEN path = Inr (Some name)" "name \<noteq> []" "0 \<notin> set path"
  shows "\<exists>f. search_file path st = Inr (case map_of first_files name of None \<Rightarrow> 0 | Some n \<Rightarrow> n, st\<lparr>fsbuf := f\<rparr>)"
proof -
  have "length name < 12" "0 \<notin> set name"
    using strip_path_length [OF assms(2)] strip_path_set [OF assms(2)] assms(4) by auto
  moreover have "new_disk N s d0 (fs_disk st 32)"
    using assms(1) by (simp add: fresh_fs_def)
  ultimately have "dir_lookup name (fs_disk st 32) (dir_addr st) 0 (dir_seen st) = (case map_of first_files name of None \<Rightarrow> 0 | Some n \<Rightarrow> n)"
    unfolding fresh_dir [OF assms(1)] by (intro new_disk_lookup assms(3))
  then show ?thesis
    using search_file_lookup [OF fresh_dir(1) [OF assms(1)] assms(2,3)] by metis
qed

lemma fresh_smap:
  assumes "fresh_fs N s d0 st" "b < 4096 * N"
  shows "smap_bit st b \<longleftrightarrow> b \<le> 2048 \<or> 0x8000 < 259 + N + b \<and> 259 + N + b \<le> 0x8800"
proof -
  have "0x8001 - (259 + N) \<le> b \<and> b < 0x8001 - (259 + N) + 2048 \<longleftrightarrow> 0x8000 < 259 + N + b \<and> 259 + N + b \<le> 0x8800"
    using assms(1) unfolding fresh_fs_def by auto
  then show ?thesis
    using assms unfolding fresh_fs_def new_disk_def smap_bit_def by simp
qed

lemma fresh_imap:
  assumes "fresh_fs N s d0 st" "nr < 4096"
  shows "imap_bit ROOT_DEV st (int nr) \<longleftrightarrow> nr < 6"
  using new_disk_imap [of N s d0 "fs_disk st 32" nr] assms by (simp add: fresh_fs_def imap_bit_def map_bit_def map_at_def)

lemma fresh_inode:
  assumes "fresh_fs N s d0 st"
  shows "k < 16 \<Longrightarrow> disk_inode (super_blocks st 0) (fs_disk st 32) (int k + 1) x = load_inode (inode_sector s) (32 * k) x"
    "t < 3 \<Longrightarrow> disk_inode (super_blocks st 0) (fs_disk st 32) (int t + 2) zero_inode =
       zero_inode\<lparr>i_mode := I_CHAR_SPECIAL, i_start_sect := of_int (MAKE_DEV DEV_CHAR_TTY (int t))\<rparr>"
    "disk_inode (super_blocks st 0) (fs_disk st 32) 5 zero_inode =
       zero_inode\<lparr>i_mode := I_REGULAR, i_size := 0x100000, i_start_sect := INSTALL_START_SECT, i_nr_sects := INSTALL_NR_SECTS\<rparr>"
proof -
  have i: "disk_inode (super_blocks st 0) (fs_disk st 32) (int k + 1) y = load_inode (inode_sector s) (32 * k) y" if "k < 16" for k y
    using new_disk_inode [of N s d0 "fs_disk st 32" k y] assms that by (simp add: disk_inode_def fresh_fs_def)
  then show "k < 16 \<Longrightarrow> disk_inode (super_blocks st 0) (fs_disk st 32) (int k + 1) x = load_inode (inode_sector s) (32 * k) x" .
  show "disk_inode (super_blocks st 0) (fs_disk st 32) (int t + 2) zero_inode =
      zero_inode\<lparr>i_mode := I_CHAR_SPECIAL, i_start_sect := of_int (MAKE_DEV DEV_CHAR_TTY (int t))\<rparr>" if t: "t < 3"
  proof -
    consider "t = 0" | "t = 1" | "t = 2"
      using t by linarith
    then show ?thesis
      using i [of 1 zero_inode] i [of 2 zero_inode] i [of 3 zero_inode] inode_sector_load(2-4) [of s zero_inode]
      by cases (simp_all add: zero_inode_def)
  qed
  show "disk_inode (super_blocks st 0) (fs_disk st 32) 5 zero_inode =
      zero_inode\<lparr>i_mode := I_REGULAR, i_size := 0x100000, i_start_sect := INSTALL_START_SECT, i_nr_sects := INSTALL_NR_SECTS\<rparr>"
    using i [of 4 zero_inode] inode_sector_load(5) [of s zero_inode] by (simp add: zero_inode_def)
qed

lemma fresh_data: "fresh_fs N s d0 st \<Longrightarrow> 512 * (260 + N) \<le> a \<Longrightarrow> fs_disk st 32 a = d0 a"
  unfolding fresh_fs_def new_disk_def by auto

lemma fresh_tidy:
  assumes "fresh_fs N s d0 st" "\<And>a. 512 * (260 + N) \<le> a \<Longrightarrow> a < 512 * (259 + N + 2048) \<Longrightarrow> d0 a = 0"
  shows "dir_tidy st"
  unfolding dir_tidy_def
proof (intro allI impI)
  fix x
  assume x: "buf_word (fs_disk st 32) (dir_addr st + 16 * x) = 0 \<or> dir_len st \<le> x" "x < 32 * unat (i_nr_sects (root_dir st))"
  note d = fresh_dir [OF assms(1)]
  have r: "\<forall>i < 512. fs_disk st 32 (dir_addr st + i) = root_sector i"
    using assms(1) unfolding fresh_fs_def new_disk_def d by blast
  show "fs_disk st 32 (dir_addr st + 16 * x + 4) = 0"
  proof (cases "x < 32")
    case True
    have "5 \<le> x"
    proof (rule ccontr)
      assume "\<not> 5 \<le> x"
      then have z: "buf_word root_sector (16 * x) = 0"
        using x(1) sector_name(3) [of root_sector "fs_disk st 32" "dir_addr st" 0 "[]" x] r d(2) by (simp add: holds_sector_def)
      consider "x = 0" | "x = 1" | "x = 2" | "x = 3" | "x = 4"
        using \<open>\<not> 5 \<le> x\<close> by linarith
      then show False
        using z root_sector_numbers(1-5) by cases simp_all
    qed
    then show ?thesis
      using True r root_sector_numbers(6) [of "16 * x + 4"] by (simp add: add.assoc)
  next
    case False
    have "unat (i_nr_sects (root_dir st)) = 2048"
      using assms(1) by (simp add: fresh_fs_def new_root_def)
    then have "512 * (260 + N) \<le> dir_addr st + 16 * x + 4" "dir_addr st + 16 * x + 4 < 512 * (259 + N + 2048)"
      using x(2) False unfolding d by simp_all
    then show ?thesis
      using fresh_data [OF assms(1)] assms(2) by simp
  qed
qed

text \<open>
  C32. The file system formats a blank disk. On a disk without the magic number, with a partition that holds
  the archive of programs and has fewer than \<open>2 ^ 26\<close> sectors, \<^verbatim>\<open>init_fs\<close> returns with a file system in which: the
  root directory is well formed; a search for a name finds exactly \<^verbatim>\<open>.\<close>, the three terminals and the archive,
  with the inodes 1 to 5; the inode map has these inodes and number 0 in use, and no other; the
  sector map has bit 0, the sectors of the root directory and the sectors of the archive in use, and no
  other; the inodes on the disk are those of the terminals and of the archive; the sectors behind the first
  sector of the root directory, the archive among them, are as before. If the rest of the directory was
  blank, holes and free space have no names.
\<close>
theorem new_file_system:
  assumes "magic (super_block_at (\<lambda>i. fs_disk st 32 (512 + i))) \<noteq> MAGIC_V1" "0x8800 \<le> unat (psize geo)" "unat (psize geo) < 2 ^ 26"
  defines "n1 \<equiv> 260 + unat (psize geo) div 4096"
  shows "\<exists>st'. init_fs geo junk st = Inr st' \<and> dir_ok st' \<and> root_dir st' = new_root n1 \<and>
     (\<forall>path name. strip_path MAX_FILENAME_LEN path = Inr (Some name) \<longrightarrow> name \<noteq> [] \<longrightarrow> 0 \<notin> set path \<longrightarrow>
        (\<exists>st1. search_file path st' = Inr (case map_of first_files name of None \<Rightarrow> 0 | Some n \<Rightarrow> n, st1))) \<and>
     (\<forall>nr < 4096. imap_bit ROOT_DEV st' (int nr) \<longleftrightarrow> nr < 6) \<and>
     (\<forall>b < 4096 * (unat (psize geo) div 4096 + 1). smap_bit st' b \<longleftrightarrow> b \<le> 2048 \<or> 0x8000 < n1 + b \<and> n1 + b \<le> 0x8800) \<and>
     (\<forall>t < 3. disk_inode (super_blocks st' 0) (fs_disk st' 32) (int t + 2) zero_inode =
        zero_inode\<lparr>i_mode := I_CHAR_SPECIAL, i_start_sect := of_int (MAKE_DEV DEV_CHAR_TTY (int t))\<rparr>) \<and>
     disk_inode (super_blocks st' 0) (fs_disk st' 32) 5 zero_inode =
        zero_inode\<lparr>i_mode := I_REGULAR, i_size := 0x100000, i_start_sect := INSTALL_START_SECT, i_nr_sects := INSTALL_NR_SECTS\<rparr> \<and>
     (\<forall>a \<ge> 512 * (n1 + 1). fs_disk st' 32 a = fs_disk st 32 a) \<and>
     ((\<forall>a. 512 * (n1 + 1) \<le> a \<and> a < 512 * (n1 + 2048) \<longrightarrow> fs_disk st 32 a = 0) \<longrightarrow> dir_tidy st')"
proof -
  define N where "N = unat (psize geo) div 4096 + 1"
  have n1: "n1 = 259 + N" "n1 + 1 = 260 + N"
    by (simp_all add: n1_def N_def)
  obtain st' where i: "init_fs geo junk st = Inr st'" and f: "fresh_fs N (new_super_block geo (fs_sb st)) (fs_disk st 32) st'"
    using init_fs_fresh [OF assms(1-3), of junk] unfolding N_def by blast
  have "root_dir st' = new_root n1"
    using f by (simp add: fresh_fs_def n1(1))
  then show ?thesis
    using i fresh_dir(1) [OF f] fresh_search [OF f] fresh_imap [OF f] fresh_smap [OF f] fresh_inode(2,3) [OF f] fresh_data [OF f] fresh_tidy [OF f]
    unfolding n1(2) unfolding n1(1) N_def [symmetric] by blast
qed

text \<open>A blank disk; the memory holds a name at \<^verbatim>\<open>0x5000\<close>.\<close>

definition fs5 :: fs_state where
  "fs5 = fs0\<lparr>fs_disk := (\<lambda>_ _. 0), fs_procs := (\<lambda>_. zero_process), fs_mem := (\<lambda>a. if a = 0x5000 then 0x2F else 0x61)\<rparr>"

theorem new_file_system_witness:
  "\<exists>st st1. init_fs \<lparr>pbase = 0, psize = 40000\<rparr> reset_msg fs5 = Inr st \<and> dir_tidy st \<and> root_dir st = new_root 269 \<and>
     search_file (c_bytes ''/cmd.tar'') st = Inr (5, st1) \<and> smap_bit st 0x7F00 \<and> \<not> smap_bit st 3000"
proof -
  have m: "magic (super_block_at (\<lambda>i. fs_disk fs5 32 (512 + i))) \<noteq> MAGIC_V1"
    by (simp add: fs5_def super_block_at_def buf_simps)
  have g: "0x8800 \<le> unat (psize \<lparr>pbase = 0, psize = 40000\<rparr>)" "unat (psize \<lparr>pbase = 0, psize = 40000\<rparr>) < 2 ^ 26"
      "260 + unat (psize \<lparr>pbase = 0, psize = 40000\<rparr>) div 4096 = 269" "4096 * (unat (psize \<lparr>pbase = 0, psize = 40000\<rparr>) div 4096 + 1) = 40960"
    by simp_all
  have p: "strip_path MAX_FILENAME_LEN (c_bytes ''/cmd.tar'') = Inr (Some (c_bytes ''cmd.tar''))" "c_bytes ''cmd.tar'' \<noteq> []" "0 \<notin> set (c_bytes ''/cmd.tar'')"
    by (simp_all add: strip_path_def c_bytes_def)
  have "map_of first_files (c_bytes ''cmd.tar'') = Some 5"
    by (simp add: first_files_def c_bytes_def)
  then show ?thesis
    using new_file_system [OF m g(1,2), of reset_msg] p unfolding g(3,4) by (fastforce simp: fs5_def)
qed

end
