(* ===== verification/Creation.thy ===== *)
theory Creation
  imports Format
begin

text \<open>
  Creating a file: the maps, the inode and the directory entry together. The invariant \<open>fs_ready\<close> says that the
  parts of the file system on the disk and in memory fit together.
\<close>

section \<open>The parts that do not touch each other\<close>

text \<open>The directory depends on its inode and on the disk from its first sector on.\<close>

lemma dir_frame:
  assumes "root_dir st' = root_dir st" "super_blocks st' 0 = (super_blocks st 0)\<lparr>sb_dev := x\<rparr>" "\<forall>a \<ge> dir_addr st. fs_disk st' 32 a = fs_disk st 32 a"
  shows "dir_ok st' = dir_ok st" "dir_len st' = dir_len st" "dir_addr st' = dir_addr st" "dir_seen st' = dir_seen st"
    "dir_free st' = dir_free st" "dir_room st' = dir_room st" "dir_tidy st' = dir_tidy st" "dir_inode st' = dir_inode st"
    "dir_lookup name (fs_disk st' 32) (dir_addr st) lo hi = dir_lookup name (fs_disk st 32) (dir_addr st) lo hi"
proof -
  have w: "buf_word (fs_disk st' 32) (dir_addr st + k) = buf_word (fs_disk st 32) (dir_addr st + k)" for k
    using assms(3) by (intro buf_word_cong) simp
  show len: "dir_len st' = dir_len st" "dir_addr st' = dir_addr st"
    by (simp_all add: dir_len_def dir_addr_def assms(1))
  then show "dir_seen st' = dir_seen st" "dir_ok st' = dir_ok st"
    unfolding dir_seen_def dir_ok_def assms(1,2) by simp_all
  show free: "dir_free st' = dir_free st"
    unfolding dir_free_def len free_entry_def w ..
  show "dir_room st' = dir_room st" "dir_inode st' = dir_inode st"
    unfolding dir_room_def dir_inode_def free len assms(1) by simp_all
  show "dir_tidy st' = dir_tidy st"
    unfolding dir_tidy_def len assms(1) w using assms(3) by (simp add: add.assoc)
  have "name_at name (fs_disk st' 32) (dir_addr st + k) = name_at name (fs_disk st 32) (dir_addr st + k)" for k
    using assms(3) by (intro name_at_cong) simp
  then have "entry_named name (fs_disk st' 32) (dir_addr st) = entry_named name (fs_disk st 32) (dir_addr st)"
    by (simp add: entry_named_def fun_eq_iff add.assoc)
  moreover have "entry_nr (fs_disk st' 32) (dir_addr st) = entry_nr (fs_disk st 32) (dir_addr st)"
    by (simp add: entry_nr_def w fun_eq_iff)
  ultimately show "dir_lookup name (fs_disk st' 32) (dir_addr st) lo hi = dir_lookup name (fs_disk st 32) (dir_addr st) lo hi"
    unfolding dir_lookup_def by (simp only:)
qed

section \<open>Inode numbers and inodes\<close>

lemma alloc_imap_loop_frame: "alloc_imap_loop dev is st = Inr (nr, st') \<Longrightarrow> \<exists>f. st' = st\<lparr>fsbuf := f, fs_disk := fs_disk st'\<rparr>"
proof (induction "is" arbitrary: st)
  case (Cons i js)
  then obtain st1 where r: "RD_SECT dev (2 + int i) st = Inr st1"
    by (auto simp: res_simps)
  obtain g where st1: "st1 = st\<lparr>fsbuf := g\<rparr>"
    using RD_SECT_eq [OF r] by blast
  show ?case
  proof (cases "find_bit (fsbuf st1) [0..<512]")
    case None
    then have "alloc_imap_loop dev js st1 = Inr (nr, st')"
      using Cons.prems r by simp
    then show ?thesis
      using Cons.IH [of st1] by (simp add: st1)
  next
    case (Some x)
    obtain j k where x: "x = (j, k)"
      by (cases x)
    have "WR_SECT dev (2 + int i) (st1\<lparr>fsbuf := (fsbuf st1)(j := fsbuf st1 j OR push_bit k 1)\<rparr>) = Inr st'"
      using Cons.prems r Some x by (auto simp: res_simps)
    from WR_SECT_eq [OF this] show ?thesis
      by (intro exI [of _ "(fsbuf st1)(j := fsbuf st1 j OR push_bit k 1)"]) (auto simp: st1 fun_upd_def)
  qed
qed simp

lemma alloc_imap_bit_takes:
  assumes "n < 4096 * unat (nr_imap_sects (super_blocks st 0))" "\<not> imap_bit ROOT_DEV st (int n)"
  shows "\<exists>nr f. alloc_imap_bit ROOT_DEV st = Inr (int nr, st\<lparr>super_blocks := (super_blocks st)(0 := (super_blocks st 0)\<lparr>sb_dev := ROOT_DEV\<rparr>), fsbuf := f,
       fs_disk := (fs_disk st)(32 := (fs_disk st 32)(1024 + nr div 8 := fs_disk st 32 (1024 + nr div 8) OR push_bit (nr mod 8) 1))\<rparr>) \<and>
     \<not> imap_bit ROOT_DEV st (int nr) \<and> (\<forall>m < nr. imap_bit ROOT_DEV st (int m))"
proof -
  define N where "N = unat (nr_imap_sects (super_blocks st 0))"
  define st1 where "st1 = st\<lparr>super_blocks := (super_blocks st)(0 := (super_blocks st 0)\<lparr>sb_dev := ROOT_DEV\<rparr>)\<rparr>"
  have d: "fs_disk st1 = fs_disk st"
    by (simp add: st1_def)
  have "n div 8 < N * 512" "n mod 8 < 8"
    using assms(1) unfolding N_def [symmetric] by (simp_all add: less_mult_imp_div_less)
  moreover from this have "\<not> full_byte (fs_disk st 32 (1024 + n div 8))"
    using assms(2) unfolding full_byte_def imap_bit_def nat_int root_dev by blast
  ultimately obtain m k st' where l: "alloc_imap_loop ROOT_DEV [0..<N] st1 = Inr (int (m * 8 + k), st')" "k < 8" "\<not> bit (fs_disk st 32 (1024 + m)) k"
      "\<forall>b < k. bit (fs_disk st 32 (1024 + m)) b" "\<forall>a < m. full_byte (fs_disk st 32 (1024 + a))"
      "fs_disk st' = (fs_disk st)(32 := (fs_disk st 32)(1024 + m := fs_disk st 32 (1024 + m) OR push_bit k 1))"
    using alloc_imap_loop_first [of 0 "n div 8" N st1] unfolding d by auto
  obtain f where "st' = st1\<lparr>fsbuf := f, fs_disk := fs_disk st'\<rparr>"
    using alloc_imap_loop_frame [OF l(1)] by blast
  then have f: "st' = st\<lparr>super_blocks := (super_blocks st)(0 := (super_blocks st 0)\<lparr>sb_dev := ROOT_DEV\<rparr>), fsbuf := f, fs_disk := fs_disk st'\<rparr>"
    by (simp only: st1_def)
  have i: "(m * 8 + k) div 8 = m" "(m * 8 + k) mod 8 = k"
    using l(2) by simp_all
  have "alloc_imap_bit ROOT_DEV st = Inr (int (m * 8 + k), st')"
    using l(1) by (simp add: alloc_imap_bit_def N_def st1_def)
  moreover have "\<not> imap_bit ROOT_DEV st (int (m * 8 + k))"
    unfolding imap_bit_def nat_int i root_dev by (rule l(3))
  moreover have "\<forall>n < m * 8 + k. imap_bit ROOT_DEV st (int n)"
    using imap_bit_less [of m st ROOT_DEV k] l(2,4,5) by simp
  moreover have "\<forall>n. st' = st\<lparr>super_blocks := (super_blocks st)(0 := (super_blocks st 0)\<lparr>sb_dev := ROOT_DEV\<rparr>), fsbuf := f,
       fs_disk := (fs_disk st)(32 := (fs_disk st 32)(1024 + (m * 8 + k) div 8 := fs_disk st 32 (1024 + (m * 8 + k) div 8) OR push_bit ((m * 8 + k) mod 8) 1))\<rparr>"
    using f unfolding i l(6) by simp
  ultimately show ?thesis
    by metis
qed

text \<open>A slot of the cache for an inode that is not in it.\<close>

lemma find_inode_free:
  assumes "\<forall>p\<in>set ps. i_cnt (t p) \<noteq> 0 \<longrightarrow> (i_dev (t p), i_num (t p)) \<noteq> (dev, nr)" "q \<in> set ps" "i_cnt (t q) = 0"
  shows "\<exists>p. find_inode t dev nr ps None = (None, Some p) \<and> p \<in> set ps \<and> i_cnt (t p) = 0"
proof -
  have "find_inode t dev nr ps q0 = (None, case q0 of Some p \<Rightarrow> Some p | None \<Rightarrow> find (\<lambda>p. i_cnt (t p) = 0) ps)" for q0
    using assms(1) by (induction ps arbitrary: q0) (auto split: option.split)
  moreover obtain p where p: "find (\<lambda>p. i_cnt (t p) = 0) ps = Some p"
    using assms(2,3) by (cases "find (\<lambda>p. i_cnt (t p) = 0) ps") (auto simp: find_None_iff)
  ultimately show ?thesis
    using p by (auto simp: find_Some_iff)
qed

definition new_node :: "int \<Rightarrow> int \<Rightarrow> inode" where
  "new_node nr start = \<lparr>i_mode = I_REGULAR, i_size = 0, i_start_sect = of_int start, i_nr_sects = NR_DEFAULT_FILE_SECTS, i_dev = ROOT_DEV, i_cnt = 1, i_num = nr\<rparr>"

lemma new_inode_takes:
  assumes "find_inode (inode_table st) ROOT_DEV nr [0..<64] None = (None, Some p)" "layout_ok (super_blocks st 0)" "inode_ok (super_blocks st 0) nr"
  shows "\<exists>f. new_inode ROOT_DEV nr start st = Inr (p, st\<lparr>inode_table := (inode_table st)(p := new_node nr start),
     super_blocks := (super_blocks st)(0 := (super_blocks st 0)\<lparr>sb_dev := ROOT_DEV\<rparr>), fsbuf := f,
     fs_disk := (fs_disk st)(32 := put_disk_inode (super_blocks st 0) (new_node nr start) (fs_disk st 32))\<rparr>)"
proof -
  let ?sb = "(super_blocks st)(0 := (super_blocks st 0)\<lparr>sb_dev := ROOT_DEV\<rparr>)"
  note a = inode_addr_split [OF assms(2,3)]
  obtain f y where g: "get_inode ROOT_DEV nr st = Inr (p, st\<lparr>super_blocks := ?sb, fsbuf := f, inode_table := (inode_table st)(p := y)\<rparr>)"
    using assms(1) a unfolding get_inode_def by (auto simp: upd_inode_def)
  define st2 where "st2 = st\<lparr>super_blocks := ?sb, fsbuf := f, inode_table := (inode_table st)(p := new_node nr start)\<rparr>"
  have n: "new_inode ROOT_DEV nr start st = res_bind (sync_inode p st2) (\<lambda>st3. Inr (p, st3))"
    unfolding new_inode_def g by (simp add: upd_inode_def st2_def new_node_def Let_def)
  have "\<exists>f. sync_inode p st2 = Inr (st2\<lparr>super_blocks := (super_blocks st2)(0 := (super_blocks st2 0)\<lparr>sb_dev := ROOT_DEV\<rparr>), fsbuf := f,
     fs_disk := (fs_disk st2)(32 := put_disk_inode (super_blocks st2 0) (inode_table st2 p) (fs_disk st2 32))\<rparr>)"
    using assms(2,3) by (intro sync_inode_root) (simp_all add: st2_def new_node_def)
  then show ?thesis
    unfolding n by (auto simp: st2_def put_disk_inode_def)
qed

section \<open>A file system in order\<close>

lemma imap_bit_map: "imap_bit ROOT_DEV st (int m) = map_bit (map_at 2 (fs_disk st 32)) m"
  by (simp add: imap_bit_def map_bit_def map_at_def)

text \<open>
  The root directory is well formed, in the cache, and its holes have no names; inodes in the cache are on the
  root device and marked in the inode map; number 0 is never free, and there is an inode for every number of
  the map.
\<close>

definition fs_ready :: "fs_state \<Rightarrow> bool" where
  "fs_ready st \<longleftrightarrow> dir_ok st \<and> dir_tidy st \<and> imap_ok st \<and> root_inode st < 64 \<and> i_cnt (root_dir st) \<noteq> 0 \<and> 0 < unat (i_nr_sects (root_dir st)) \<and>
     (\<forall>n < 64. i_cnt (inode_table st n) \<noteq> 0 \<longrightarrow> i_dev (inode_table st n) = ROOT_DEV \<and> 0 < i_num (inode_table st n) \<and>
        i_num (inode_table st n) < 4096 * int (unat (nr_imap_sects (super_blocks st 0)))) \<and>
     imap_bit ROOT_DEV st 0 \<and> 4096 * unat (nr_imap_sects (super_blocks st 0)) \<le> 16 * unat (nr_inode_sects (super_blocks st 0)) \<and>
     unat (nr_smap_sects (super_blocks st 0)) < 2 ^ 18"

text \<open>What an inode on the disk is after another one has been written.\<close>

lemma put_disk_inode_other: "i_num x \<noteq> n \<Longrightarrow> 1 \<le> i_num x \<Longrightarrow> 1 \<le> n \<Longrightarrow> disk_inode s (put_disk_inode s x d) n y = disk_inode s d n y"
proof -
  assume n: "i_num x \<noteq> n" "1 \<le> i_num x" "1 \<le> n"
  then have "nat (i_num x - 1) + 1 \<le> nat (n - 1) \<or> nat (n - 1) + 1 \<le> nat (i_num x - 1)"
    by linarith
  then have "inode_addr s (i_num x) + 16 \<le> inode_addr s n \<or> inode_addr s n + 16 \<le> inode_addr s (i_num x)"
    unfolding inode_addr_def by linarith
  then show ?thesis
    unfolding disk_inode_def put_disk_inode_def by (intro load_inode_cong buf_write_other) auto
qed

lemma put_disk_inode_same:
  "disk_inode s (put_disk_inode s x d) (i_num x) y = y\<lparr>i_mode := i_mode x, i_size := i_size x, i_start_sect := i_start_sect x, i_nr_sects := i_nr_sects x\<rparr>"
  by (simp add: disk_inode_def put_disk_inode_def load_store_inode)

lemma put_disk_inode_out:
  assumes "layout_ok s" "inode_ok s (i_num x)" "a < 512 * (2 + unat (nr_imap_sects s) + unat (nr_smap_sects s)) \<or> 512 * unat (n_1st_sect s) \<le> a"
  shows "put_disk_inode s x d a = d a"
proof -
  have "a < inode_addr s (i_num x) \<or> inode_addr s (i_num x) + 16 \<le> a"
    using assms(3) inode_addr_bound [OF assms(1,2)] by (auto simp: inode_addr_def)
  then show ?thesis
    by (simp add: put_disk_inode_def buf_simps)
qed

lemma disk_inode_cong:
  assumes "layout_ok s" "inode_ok s n" "\<And>a. 512 * (2 + unat (nr_imap_sects s) + unat (nr_smap_sects s)) \<le> a \<Longrightarrow> a < 512 * unat (n_1st_sect s) \<Longrightarrow> d a = e a"
  shows "disk_inode s d n x = disk_inode s e n x"
  unfolding disk_inode_def using inode_addr_bound [OF assms(1,2)] by (intro load_inode_cong assms(3)) (auto simp: inode_addr_def)

lemma map_bit_low: "(\<And>a. a < 512 * (blk + n) \<Longrightarrow> d a = e a) \<Longrightarrow> b < 4096 * n \<Longrightarrow> map_bit (map_at blk d) b = map_bit (map_at blk e) b"
  by (simp add: map_bit_def map_at_def)

text \<open>
  The disk \<open>d'\<close> after an inode number and sectors have been taken from the maps of \<open>st\<close> and the inode has been
  written.
\<close>

definition taken_disk :: "fs_state \<Rightarrow> nat \<Rightarrow> buffer \<Rightarrow> bool" where
  "taken_disk st nr d' \<longleftrightarrow>
     (let s = super_blocks st 0; d = fs_disk st 32
      in (\<forall>m < 4096 * unat (nr_imap_sects s). map_bit (map_at 2 d') m \<longleftrightarrow> map_bit (map_at 2 d) m \<or> m = nr) \<and>
         (\<forall>b < 4096 * unat (nr_smap_sects s). map_bit (map_at (2 + unat (nr_imap_sects s)) d') b \<longleftrightarrow>
            smap_bit st b \<or> b \<in> set (take 2048 (free_sects st))) \<and>
         (\<forall>x. disk_inode s d' (int nr) x = x\<lparr>i_mode := I_REGULAR, i_size := 0,
            i_start_sect := of_int (int (unat (n_1st_sect s) + hd (free_sects st)) - 1), i_nr_sects := NR_DEFAULT_FILE_SECTS\<rparr>))"

lemma smap_frame:
  assumes "super_blocks st' 0 = (super_blocks st 0)\<lparr>sb_dev := x\<rparr>" "\<And>a. 512 * (2 + unat (nr_imap_sects (super_blocks st 0))) \<le> a \<Longrightarrow> fs_disk st' 32 a = fs_disk st 32 a"
  shows "smap_bit st' = smap_bit st" "free_sects st' = free_sects st"
proof -
  have "map_at (2 + unat (nr_imap_sects (super_blocks st 0))) (fs_disk st' 32) = map_at (2 + unat (nr_imap_sects (super_blocks st 0))) (fs_disk st 32)"
    unfolding map_at_def by (rule ext, rule assms(2)) simp
  then show "smap_bit st' = smap_bit st"
    by (intro ext) (simp add: smap_bit_def assms(1))
  then show "free_sects st' = free_sects st"
    by (simp add: free_sects_def assms(1))
qed

text \<open>The two allocations one after the other.\<close>

lemma alloc_both:
  assumes ready: "fs_ready st" and n: "n < 4096 * unat (nr_imap_sects (super_blocks st 0))" "\<not> imap_bit ROOT_DEV st (int n)"
    and room: "2048 \<le> length (free_sects st)"
  defines "s \<equiv> super_blocks st 0" and "start \<equiv> int (unat (n_1st_sect (super_blocks st 0)) + hd (free_sects st)) - 1"
  shows "\<exists>nr st1 f d. alloc_imap_bit ROOT_DEV st = Inr (int nr, st1) \<and>
     alloc_smap_bit ROOT_DEV 2048 st1 = Inr (start, st\<lparr>super_blocks := (super_blocks st)(0 := s\<lparr>sb_dev := ROOT_DEV\<rparr>), fsbuf := f, fs_disk := (fs_disk st)(32 := d)\<rparr>) \<and>
     0 < nr \<and> nr < 4096 * unat (nr_imap_sects s) \<and> \<not> imap_bit ROOT_DEV st (int nr) \<and> (\<forall>m < nr. imap_bit ROOT_DEV st (int m)) \<and>
     (\<forall>m < 4096 * unat (nr_imap_sects s). map_bit (map_at 2 d) m \<longleftrightarrow> map_bit (map_at 2 (fs_disk st 32)) m \<or> m = nr) \<and>
     (\<forall>b. map_bit (map_at (2 + unat (nr_imap_sects s)) d) b \<longleftrightarrow> smap_bit st b \<or> b \<in> set (take 2048 (free_sects st))) \<and>
     (\<forall>a \<ge> 512 * (2 + unat (nr_imap_sects s) + unat (nr_smap_sects s)). d a = fs_disk st 32 a)"
proof -
  define I where "I = unat (nr_imap_sects s)"
  let ?d = "fs_disk st 32" and ?sb = "(super_blocks st)(0 := s\<lparr>sb_dev := ROOT_DEV\<rparr>)"
  have lay: "layout_ok s" "unat (nr_smap_sects s) < 2 ^ 18" "imap_bit ROOT_DEV st 0"
    using ready by (simp_all add: fs_ready_def dir_ok_def s_def)
  obtain nr f1 where a1: "alloc_imap_bit ROOT_DEV st = Inr (int nr, st\<lparr>super_blocks := ?sb, fsbuf := f1,
         fs_disk := (fs_disk st)(32 := ?d(1024 + nr div 8 := ?d (1024 + nr div 8) OR push_bit (nr mod 8) 1))\<rparr>)"
      "\<not> imap_bit ROOT_DEV st (int nr)" "\<forall>m < nr. imap_bit ROOT_DEV st (int m)"
    using alloc_imap_bit_takes [OF n] unfolding s_def by blast
  define d1 where "d1 = ?d(1024 + nr div 8 := ?d (1024 + nr div 8) OR push_bit (nr mod 8) 1)"
  define st1 where "st1 = st\<lparr>super_blocks := ?sb, fsbuf := f1, fs_disk := (fs_disk st)(32 := d1)\<rparr>"
  have z: "0 < nr"
    using a1(2) lay(3) by (cases nr) auto
  have "\<not> n < nr"
    using a1(3) n(2) by blast
  then have nr: "nr < 4096 * I"
    using n(1) by (simp add: I_def s_def)
  have o1: "d1 a = ?d a" if "512 * (2 + I) \<le> a" for a
    using that nr by (auto simp: d1_def)
  have sb1: "super_blocks st1 0 = (super_blocks st 0)\<lparr>sb_dev := ROOT_DEV\<rparr>"
    by (simp add: st1_def s_def)
  have sm: "smap_bit st1 = smap_bit st" "free_sects st1 = free_sects st"
    by (rule smap_frame [OF sb1], use o1 in \<open>simp add: st1_def I_def s_def\<close>)+
  have m1: "map_bit (map_at 2 d1) m \<longleftrightarrow> map_bit (map_at 2 ?d) m \<or> m = nr" for m
  proof -
    have "map_at 2 d1 = (map_at 2 ?d)(nr div 8 := map_at 2 ?d (nr div 8) OR push_bit (nr mod 8) 1)"
      by (auto simp: d1_def map_at_def fun_eq_iff)
    then show ?thesis
      using map_bit_set [of "nr mod 8" "map_at 2 ?d" "nr div 8" m] by simp
  qed
  have "layout_ok (super_blocks st1 0)" "4096 * unat (nr_smap_sects (super_blocks st1 0)) < 2 ^ 30"
    using lay by (simp_all add: sb1 s_def)
  from alloc_smap_bit_takes [OF this, of 2048] room obtain f2 d2 where
      a2: "alloc_smap_bit ROOT_DEV 2048 st1 = Inr (start, st\<lparr>super_blocks := ?sb, fsbuf := f2, fs_disk := (fs_disk st)(32 := d2)\<rparr>)"
      "\<forall>b. map_bit (map_at (2 + I) d2) b \<longleftrightarrow> smap_bit st1 b \<or> b \<in> set (take 2048 (free_sects st))"
      "\<forall>a. a < 512 * (2 + I) \<or> 512 * (2 + I + unat (nr_smap_sects s)) \<le> a \<longrightarrow> d2 a = d1 a"
    unfolding sm(2) by (auto simp: sb1 smap_bit_def start_def I_def s_def) (simp add: st1_def s_def)
  have "map_bit (map_at 2 d2) m \<longleftrightarrow> map_bit (map_at 2 ?d) m \<or> m = nr" if "m < 4096 * I" for m
    using map_bit_low [of 2 I d2 d1 m] a2(3) that m1 by simp
  moreover have "d2 a = ?d a" if "512 * (2 + I + unat (nr_smap_sects s)) \<le> a" for a
    using a2(3) o1 that by simp
  ultimately show ?thesis
    using a1 a2 z nr unfolding sm(1) I_def [symmetric] d1_def [symmetric] st1_def [symmetric] by blast
qed

lemma create_alloc:
  assumes ready: "fs_ready st" and n: "n < 4096 * unat (nr_imap_sects (super_blocks st 0))" "\<not> imap_bit ROOT_DEV st (int n)"
    and room: "2048 \<le> length (free_sects st)" "q < 64" "i_cnt (inode_table st q) = 0"
  defines "start \<equiv> int (unat (n_1st_sect (super_blocks st 0)) + hd (free_sects st)) - 1"
  shows "\<exists>nr p st1 st2 f d. alloc_imap_bit ROOT_DEV st = Inr (int nr, st1) \<and> alloc_smap_bit ROOT_DEV 2048 st1 = Inr (start, st2) \<and>
     new_inode ROOT_DEV (int nr) start st2 = Inr (p, st\<lparr>inode_table := (inode_table st)(p := new_node (int nr) start),
       super_blocks := (super_blocks st)(0 := (super_blocks st 0)\<lparr>sb_dev := ROOT_DEV\<rparr>), fsbuf := f, fs_disk := (fs_disk st)(32 := d)\<rparr>) \<and>
     p < 64 \<and> i_cnt (inode_table st p) = 0 \<and> 0 < nr \<and> nr < 4096 * unat (nr_imap_sects (super_blocks st 0)) \<and> \<not> imap_bit ROOT_DEV st (int nr) \<and>
     (\<forall>m < nr. imap_bit ROOT_DEV st (int m)) \<and> taken_disk st nr d \<and>
     (\<forall>a \<ge> 512 * unat (n_1st_sect (super_blocks st 0)). d a = fs_disk st 32 a)"
proof -
  define s where "s = super_blocks st 0"
  have lay: "layout_ok s" "4096 * unat (nr_imap_sects s) \<le> 16 * unat (nr_inode_sects s)" "imap_ok st"
    using ready by (simp_all add: fs_ready_def dir_ok_def s_def)
  have n1: "unat (n_1st_sect s) = 2 + unat (nr_imap_sects s) + unat (nr_smap_sects s) + unat (nr_inode_sects s)"
    using lay(1) by (simp add: layout_ok_def)
  obtain nr st1 f2 d2 where al: "alloc_imap_bit ROOT_DEV st = Inr (int nr, st1)"
      "alloc_smap_bit ROOT_DEV 2048 st1 = Inr (start, st\<lparr>super_blocks := (super_blocks st)(0 := s\<lparr>sb_dev := ROOT_DEV\<rparr>), fsbuf := f2, fs_disk := (fs_disk st)(32 := d2)\<rparr>)"
    and nr: "0 < nr" "nr < 4096 * unat (nr_imap_sects s)" "\<not> imap_bit ROOT_DEV st (int nr)" "\<forall>m < nr. imap_bit ROOT_DEV st (int m)"
    and im: "\<forall>m < 4096 * unat (nr_imap_sects s). map_bit (map_at 2 d2) m \<longleftrightarrow> map_bit (map_at 2 (fs_disk st 32)) m \<or> m = nr"
    and sm: "\<forall>b. map_bit (map_at (2 + unat (nr_imap_sects s)) d2) b \<longleftrightarrow> smap_bit st b \<or> b \<in> set (take 2048 (free_sects st))"
    and hi: "\<forall>a \<ge> 512 * (2 + unat (nr_imap_sects s) + unat (nr_smap_sects s)). d2 a = fs_disk st 32 a"
    using alloc_both [OF ready n room(1)] unfolding s_def start_def by blast
  define st2 where "st2 = st\<lparr>super_blocks := (super_blocks st)(0 := s\<lparr>sb_dev := ROOT_DEV\<rparr>), fsbuf := f2, fs_disk := (fs_disk st)(32 := d2)\<rparr>"
  have ino: "inode_ok s (int nr)"
    using nr(1,2) lay(2) by (simp add: inode_ok_def)
  have "\<forall>p\<in>set [0..<64]. i_cnt (inode_table st p) \<noteq> 0 \<longrightarrow> (i_dev (inode_table st p), i_num (inode_table st p)) \<noteq> (ROOT_DEV, int nr)"
    using alloc_imap_fresh [OF lay(3) al(1)] by (simp add: view_def)
  then obtain p where p: "find_inode (inode_table st) ROOT_DEV (int nr) [0..<64] None = (None, Some p)" "p < 64" "i_cnt (inode_table st p) = 0"
    using find_inode_free [of "[0..<64]" "inode_table st" ROOT_DEV "int nr" q] room(2,3) by auto
  define X where "X = new_node (int nr) start"
  define d where "d = put_disk_inode s X d2"
  obtain f where ni: "new_inode ROOT_DEV (int nr) start st2 = Inr (p, st\<lparr>inode_table := (inode_table st)(p := X),
       super_blocks := (super_blocks st)(0 := s\<lparr>sb_dev := ROOT_DEV\<rparr>), fsbuf := f, fs_disk := (fs_disk st)(32 := d)\<rparr>)"
    using new_inode_takes [of st2 "int nr" p start] p(1) lay(1) ino unfolding d_def X_def [symmetric]
    by (auto simp: st2_def put_disk_inode_def)
  have X: "i_num X = int nr"
    by (simp add: X_def new_node_def)
  have lo: "d a = d2 a" if "a < 512 * (2 + unat (nr_imap_sects s) + unat (nr_smap_sects s)) \<or> 512 * unat (n_1st_sect s) \<le> a" for a
    unfolding d_def using put_disk_inode_out [OF lay(1), of X a d2] ino X that by simp
  have "taken_disk st nr d"
    unfolding taken_disk_def Let_def s_def [symmetric]
  proof (intro conjI allI impI)
    show "map_bit (map_at 2 d) m \<longleftrightarrow> map_bit (map_at 2 (fs_disk st 32)) m \<or> m = nr" if "m < 4096 * unat (nr_imap_sects s)" for m
      using map_bit_low [of 2 "unat (nr_imap_sects s)" d d2 m] lo im that by simp
    show "map_bit (map_at (2 + unat (nr_imap_sects s)) d) b \<longleftrightarrow> smap_bit st b \<or> b \<in> set (take 2048 (free_sects st))" if "b < 4096 * unat (nr_smap_sects s)" for b
      using map_bit_low [of "2 + unat (nr_imap_sects s)" "unat (nr_smap_sects s)" d d2 b] lo sm that by simp
    show "disk_inode s d (int nr) x = x\<lparr>i_mode := I_REGULAR, i_size := 0,
        i_start_sect := of_int (int (unat (n_1st_sect s) + hd (free_sects st)) - 1), i_nr_sects := NR_DEFAULT_FILE_SECTS\<rparr>" for x
      using put_disk_inode_same [of s X d2 x] unfolding d_def X by (simp add: X_def new_node_def start_def s_def)
  qed
  moreover have "\<forall>a \<ge> 512 * unat (n_1st_sect s). d a = fs_disk st 32 a"
    using lo hi n1 by simp
  ultimately show ?thesis
    using al ni p(2,3) nr unfolding s_def X_def st2_def [unfolded s_def, symmetric] by blast
qed

text \<open>The directory entry: the maps and the inode of the new file stay as they are.\<close>

lemma taken_disk_entry:
  assumes "taken_disk st nr d" "layout_ok (super_blocks st 0)" "inode_ok (super_blocks st 0) (i_num y)" "inode_ok (super_blocks st 0) (int nr)" "i_num y \<noteq> int nr"
    "512 * unat (n_1st_sect (super_blocks st 0)) \<le> b"
  shows "taken_disk st nr (put_disk_inode (super_blocks st 0) y (buf_write b e d))"
proof -
  define s D where "s = super_blocks st 0" and "D = put_disk_inode s y (buf_write b e d)"
  define I M where "I = unat (nr_imap_sects s)" and "M = unat (nr_smap_sects s)"
  have n1: "512 * (2 + I + M) \<le> b"
    using assms(2,6) by (simp add: layout_ok_def s_def I_def M_def)
  have lo: "D a = d a" if "a < 512 * (2 + I + M)" for a
    using put_disk_inode_out [OF assms(2,3), of a "buf_write b e d"] that n1 by (simp add: D_def s_def I_def M_def buf_simps)
  have t: "\<And>m. m < 4096 * I \<Longrightarrow> map_bit (map_at 2 d) m \<longleftrightarrow> map_bit (map_at 2 (fs_disk st 32)) m \<or> m = nr"
      "\<And>c. c < 4096 * M \<Longrightarrow> map_bit (map_at (2 + I) d) c \<longleftrightarrow> smap_bit st c \<or> c \<in> set (take 2048 (free_sects st))"
    using assms(1) by (simp_all add: taken_disk_def Let_def s_def I_def M_def)
  have "map_bit (map_at 2 D) m \<longleftrightarrow> map_bit (map_at 2 (fs_disk st 32)) m \<or> m = nr" if "m < 4096 * I" for m
    using map_bit_low [of 2 I D d m] lo t(1) that by simp
  moreover have "map_bit (map_at (2 + I) D) c \<longleftrightarrow> smap_bit st c \<or> c \<in> set (take 2048 (free_sects st))" if "c < 4096 * M" for c
    using map_bit_low [of "2 + I" M D d c] lo t(2) that by simp
  moreover have "disk_inode s D (int nr) x = disk_inode s d (int nr) x" for x
  proof -
    have "disk_inode s D (int nr) x = disk_inode s (buf_write b e d) (int nr) x"
      unfolding D_def using assms(3-5) by (intro put_disk_inode_other) (simp_all add: inode_ok_def)
    also have "\<dots> = disk_inode s d (int nr) x"
      unfolding s_def using assms(6) by (intro disk_inode_cong [OF assms(2,4)]) (simp add: buf_simps)
    finally show ?thesis .
  qed
  ultimately show ?thesis
    using assms(1) unfolding taken_disk_def Let_def s_def [symmetric] D_def [symmetric] I_def [symmetric] M_def [symmetric] by simp
qed

lemma create_file_takes:
  assumes ready: "fs_ready st" and n: "n < 4096 * unat (nr_imap_sects (super_blocks st 0))" "\<not> imap_bit ROOT_DEV st (int n)"
    and room: "2048 \<le> length (free_sects st)" "q < 64" "i_cnt (inode_table st q) = 0" "dir_room st"
    and name: "strip_path MAX_FILENAME_LEN path = Inr (Some name)" "name \<noteq> []" "0 \<notin> set name" "dir_lookup name (fs_disk st 32) (dir_addr st) 0 (dir_seen st) = 0"
  defines "start \<equiv> int (unat (n_1st_sect (super_blocks st 0)) + hd (free_sects st)) - 1"
  shows "\<exists>nr p f d st'. create_file path st = Inr (Some p, st') \<and>
     st' = st\<lparr>inode_table := (inode_table st)(p := new_node (int nr) start, root_inode st := dir_inode st),
       super_blocks := (super_blocks st)(0 := (super_blocks st 0)\<lparr>sb_dev := ROOT_DEV\<rparr>), fsbuf := f, fs_disk := (fs_disk st)(32 := d)\<rparr> \<and>
     p < 64 \<and> i_cnt (inode_table st p) = 0 \<and> 0 < nr \<and> nr < 4096 * unat (nr_imap_sects (super_blocks st 0)) \<and>
     \<not> imap_bit ROOT_DEV st (int nr) \<and> (\<forall>m < nr. imap_bit ROOT_DEV st (int m)) \<and> taken_disk st nr d \<and> dir_ok st' \<and> dir_tidy st' \<and>
     (\<forall>name'. length name' < 12 \<longrightarrow> name' \<noteq> [] \<longrightarrow> 0 \<notin> set name' \<longrightarrow> dir_lookup name' d (dir_addr st') 0 (dir_seen st') =
        (if name' = name then int nr else dir_lookup name' (fs_disk st 32) (dir_addr st) 0 (dir_seen st)))"
proof -
  let ?s = "super_blocks st 0" and ?r = "root_inode st" and ?sb = "(super_blocks st)(0 := (super_blocks st 0)\<lparr>sb_dev := ROOT_DEV\<rparr>)"
  have ok: "dir_ok st" "dir_tidy st" "layout_ok ?s" "i_cnt (root_dir st) \<noteq> 0" "?r < 64" "imap_ok st" "0 < unat (i_nr_sects (root_dir st))"
      "i_dev (root_dir st) = ROOT_DEV" "inode_ok ?s (i_num (root_dir st))" "512 * unat (n_1st_sect ?s) \<le> dir_addr st"
      "4096 * unat (nr_imap_sects ?s) \<le> 16 * unat (nr_inode_sects ?s)" "unat (nr_inode_sects ?s) < 2 ^ 22"
    using ready by (auto simp: fs_ready_def dir_ok_def dir_addr_def data_addr_def layout_ok_def)
  obtain nr p st1 st2 f d where c: "alloc_imap_bit ROOT_DEV st = Inr (int nr, st1)" "alloc_smap_bit ROOT_DEV 2048 st1 = Inr (start, st2)"
      "new_inode ROOT_DEV (int nr) start st2 = Inr (p, st\<lparr>inode_table := (inode_table st)(p := new_node (int nr) start), super_blocks := ?sb, fsbuf := f, fs_disk := (fs_disk st)(32 := d)\<rparr>)"
    and p: "p < 64" "i_cnt (inode_table st p) = 0" and nr: "0 < nr" "nr < 4096 * unat (nr_imap_sects ?s)" "\<not> imap_bit ROOT_DEV st (int nr)"
      "\<forall>m < nr. imap_bit ROOT_DEV st (int m)"
    and t: "taken_disk st nr d" and hi: "\<forall>a \<ge> 512 * unat (n_1st_sect ?s). d a = fs_disk st 32 a"
    using create_alloc [OF ready n room(1-3)] unfolding start_def by blast
  define st3 where "st3 = st\<lparr>inode_table := (inode_table st)(p := new_node (int nr) start), super_blocks := ?sb, fsbuf := f, fs_disk := (fs_disk st)(32 := d)\<rparr>"
  have pr: "p \<noteq> ?r"
    using p(2) ok(4) by auto
  have r3: "root_inode st3 = ?r" "root_dir st3 = root_dir st" "super_blocks st3 0 = ?s\<lparr>sb_dev := ROOT_DEV\<rparr>" "\<forall>a \<ge> dir_addr st. fs_disk st3 32 a = fs_disk st 32 a"
    using pr hi ok(10) by (simp_all add: st3_def)
  note fr = dir_frame [OF r3(2-4)]
  have len: "length name < 12"
    using strip_path_length [OF name(1)] by simp
  have b: "0 < int nr" "int nr < 2 ^ 31" "inode_ok ?s (int nr)" "i_num (root_dir st) \<noteq> int nr"
    using nr ok by (auto simp: inode_ok_def imap_ok_def)
  obtain f' where e: "new_directory_entry ?r name (int nr) st3 = Inr (st3\<lparr>inode_table := (inode_table st3)(?r := dir_inode st), super_blocks := (super_blocks st3)(0 := (super_blocks st3 0)\<lparr>sb_dev := ROOT_DEV\<rparr>),
      fsbuf := f', fs_disk := (fs_disk st3)(32 := put_disk_inode (super_blocks st3 0) (dir_inode st) (buf_write (dir_addr st + 16 * dir_free st) (dirent_bytes (int nr) (name @ [0])) (fs_disk st3 32)))\<rparr>)"
    using new_directory_entry_disk [of st3 name "int nr"] ok(1,7) room(4) len fr r3(1,2) by auto
  define D where "D = put_disk_inode ?s (dir_inode st) (buf_write (dir_addr st + 16 * dir_free st) (dirent_bytes (int nr) (name @ [0])) d)"
  define st' where "st' = st\<lparr>inode_table := (inode_table st)(p := new_node (int nr) start, ?r := dir_inode st), super_blocks := ?sb, fsbuf := f', fs_disk := (fs_disk st)(32 := D)\<rparr>"
  have e': "new_directory_entry ?r name (int nr) st3 = Inr st'"
    unfolding e by (simp add: st3_def st'_def D_def put_disk_inode_def)
  have "i_num (dir_inode st) = i_num (root_dir st)"
    by (simp add: dir_inode_def)
  then have t': "taken_disk st nr D"
    unfolding D_def using ok(3,9,10) b(3,4) by (intro taken_disk_entry t) simp_all
  have l: "dir_ok st'" "dir_tidy st'" "\<forall>name'. length name' < 12 \<longrightarrow> name' \<noteq> [] \<longrightarrow> 0 \<notin> set name' \<longrightarrow>
      dir_lookup name' (fs_disk st' 32) (dir_addr st') 0 (dir_seen st') = (if name' = name then int nr else dir_lookup name' (fs_disk st 32) (dir_addr st) 0 (dir_seen st))"
  proof -
    have i3: "dir_ok st3" "dir_tidy st3" "dir_room st3" "0 < unat (i_nr_sects (root_dir st3))"
      using ok(1,2,7) room(4) unfolding r3(2) fr by simp_all
    have l3: "dir_lookup name (fs_disk st3 32) (dir_addr st3) 0 (dir_seen st3) = 0"
      using name(4) unfolding fr(3,4) fr(9) .
    from insert_lookup [OF i3 len name(2,3) l3 b(1,2)] show "dir_ok st'" "dir_tidy st'" "\<forall>name'. length name' < 12 \<longrightarrow> name' \<noteq> [] \<longrightarrow> 0 \<notin> set name' \<longrightarrow>
        dir_lookup name' (fs_disk st' 32) (dir_addr st') 0 (dir_seen st') = (if name' = name then int nr else dir_lookup name' (fs_disk st 32) (dir_addr st) 0 (dir_seen st))"
      unfolding r3(1) e' fr(3,4) fr(9) by simp_all
  qed
  have "create_file path st = Inr (Some p, st')"
    using name(1) c e' ok(8) unfolding st3_def [symmetric] by (simp add: create_file_def Let_def)
  moreover have "fs_disk st' 32 = D"
    by (simp add: st'_def)
  ultimately show ?thesis
    using st'_def p nr t' l by metis
qed

lemma taken_disk_maps:
  assumes "taken_disk st nr (fs_disk st' 32)" "super_blocks st' 0 = (super_blocks st 0)\<lparr>sb_dev := x\<rparr>"
  shows "m < 4096 * unat (nr_imap_sects (super_blocks st 0)) \<Longrightarrow> imap_bit ROOT_DEV st' (int m) \<longleftrightarrow> imap_bit ROOT_DEV st (int m) \<or> m = nr"
    "b < 4096 * unat (nr_smap_sects (super_blocks st 0)) \<Longrightarrow> smap_bit st' b \<longleftrightarrow> smap_bit st b \<or> b \<in> set (take 2048 (free_sects st))"
  using assms unfolding imap_bit_map by (simp_all add: taken_disk_def Let_def smap_bit_def)

lemma create_ready:
  assumes ready: "fs_ready st" and t: "taken_disk st nr d" "nr < 4096 * unat (nr_imap_sects (super_blocks st 0))" "0 < nr" and p: "p \<noteq> root_inode st"
    and st'_def: "st' = st\<lparr>inode_table := (inode_table st)(p := new_node (int nr) start, root_inode st := dir_inode st),
       super_blocks := (super_blocks st)(0 := (super_blocks st 0)\<lparr>sb_dev := ROOT_DEV\<rparr>), fsbuf := f, fs_disk := (fs_disk st)(32 := d)\<rparr>"
    and dir: "dir_ok st'" "dir_tidy st'"
  shows "fs_ready st'"
proof -
  let ?I = "unat (nr_imap_sects (super_blocks st 0))"
  have sb: "super_blocks st' 0 = (super_blocks st 0)\<lparr>sb_dev := ROOT_DEV\<rparr>" and d: "fs_disk st' 32 = d"
    by (simp_all add: st'_def)
  have im: "imap_bit ROOT_DEV st' (int m) \<longleftrightarrow> imap_bit ROOT_DEV st (int m) \<or> m = nr" if "m < 4096 * ?I" for m
    using taken_disk_maps(1) [OF t(1) [folded d] sb that] .
  have y: "i_dev (dir_inode st) = i_dev (root_dir st)" "i_num (dir_inode st) = i_num (root_dir st)" "i_cnt (dir_inode st) = i_cnt (root_dir st)"
      "i_nr_sects (dir_inode st) = i_nr_sects (root_dir st)"
    by (simp_all add: dir_inode_def)
  have live: "i_dev (inode_table st' n) = ROOT_DEV \<and> 0 < i_num (inode_table st' n) \<and> i_num (inode_table st' n) < 4096 * int ?I \<and>
      imap_bit ROOT_DEV st' (i_num (inode_table st' n))" if n: "n < 64" "i_cnt (inode_table st' n) \<noteq> 0" for n
  proof (cases "n = p")
    case True
    then have "inode_table st' n = new_node (int nr) start"
      using p by (simp add: st'_def)
    moreover have "int nr < 4096 * int ?I"
      using t(2) by linarith
    ultimately show ?thesis
      using im [OF t(2)] t(3) by (simp add: new_node_def)
  next
    case False
    then have same: "i_dev (inode_table st' n) = i_dev (inode_table st n)" "i_num (inode_table st' n) = i_num (inode_table st n)" "i_cnt (inode_table st n) \<noteq> 0"
      using y n(2) by (auto simp: st'_def split: if_split_asm)
    then have o: "i_dev (inode_table st n) = ROOT_DEV" "0 < i_num (inode_table st n)" "i_num (inode_table st n) < 4096 * int ?I" "imap_bit ROOT_DEV st (i_num (inode_table st n))"
      using ready n(1) unfolding fs_ready_def imap_ok_def by metis+
    then have "imap_bit ROOT_DEV st' (i_num (inode_table st n))"
      using im [of "nat (i_num (inode_table st n))"] by (simp add: nat_less_iff)
    then show ?thesis
      using o same by simp
  qed
  have "imap_bit ROOT_DEV st' 0"
    using im [of 0] ready t(2) by (simp add: fs_ready_def)
  moreover have "imap_ok st'"
    using live unfolding imap_ok_def by metis
  ultimately show ?thesis
    using ready dir live y unfolding fs_ready_def sb by (simp add: st'_def)
qed

text \<open>The parts of the state the descriptors of the processes have no influence on.\<close>

lemma fs_core_cong:
  assumes "root_inode st' = root_inode st" "inode_table st' = inode_table st" "super_blocks st' = super_blocks st" "fs_disk st' = fs_disk st"
  shows "fs_ready st' = fs_ready st" "dir_ok st' = dir_ok st" "dir_room st' = dir_room st" "dir_addr st' = dir_addr st" "dir_seen st' = dir_seen st"
    "imap_bit dev st' = imap_bit dev st" "smap_bit st' = smap_bit st" "free_sects st' = free_sects st" "taken_disk st' = taken_disk st" "dir_inode st' = dir_inode st"
    "dir_tidy st' = dir_tidy st"
proof -
  show b: "imap_bit dev st' = imap_bit dev st" "smap_bit st' = smap_bit st" for dev
    by (simp_all add: imap_bit_def smap_bit_def assms fun_eq_iff)
  show f: "free_sects st' = free_sects st"
    by (simp add: free_sects_def b assms)
  have sb: "super_blocks st' 0 = (super_blocks st 0)\<lparr>sb_dev := sb_dev (super_blocks st 0)\<rparr>"
    by (simp add: assms)
  have r: "root_dir st' = root_dir st" "\<forall>a \<ge> dir_addr st. fs_disk st' 32 a = fs_disk st 32 a"
    by (simp_all add: assms)
  note fr = dir_frame [OF r(1) sb r(2)]
  show "dir_ok st' = dir_ok st" "dir_room st' = dir_room st" "dir_addr st' = dir_addr st" "dir_seen st' = dir_seen st" "dir_inode st' = dir_inode st"
      "dir_tidy st' = dir_tidy st"
    by (rule fr)+
  show "taken_disk st' = taken_disk st"
    by (simp add: taken_disk_def Let_def assms b f fun_eq_iff)
  show "fs_ready st' = fs_ready st"
    unfolding fs_ready_def imap_ok_def b fr assms by simp
qed

lemma fetch_path_nonzero: "fetch_path pid va n st = Inr path \<Longrightarrow> 0 \<notin> set path"
  by (auto simp: fetch_path_def res_simps split: if_split_asm dest: set_takeWhileD)

section \<open>Opening a new file\<close>

lemma do_open_regular:
  assumes "fetch_path pid (PATHNAME msg) (NAME_LEN msg) st = Inr path" "open_node path (FLAGS msg) st = Inr (Some (nr, p), st2)" "nr \<noteq> 0"
    "FLAGS msg AND O_TRUNC = 0" "first_free (filp (fs_procs st pid)) [0..<NR_FILES] = Some fd"
    "first_free (\<lambda>i. fd_inode (fd_table st i)) [0..<NR_FILE_DESC] = Some k" "i_mode (inode_table st2 p) = I_REGULAR"
  shows "do_open pid junk msg st = Inr (int fd, upd_fd k (\<lambda>x. x\<lparr>fd_inode := Some p, fd_cnt := 1, fd_mode := FLAGS msg, fd_pos := 0\<rparr>) (set_filp pid fd (Some k) st2))"
  using assms by (simp add: do_open_def open_device_def upd_fd_def set_filp_def)

lemma open_node_new:
  assumes "fs_ready st" "n < 4096 * unat (nr_imap_sects (super_blocks st 0))" "\<not> imap_bit ROOT_DEV st (int n)"
    "2048 \<le> length (free_sects st)" "q < 64" "i_cnt (inode_table st q) = 0" "dir_room st"
    "strip_path MAX_FILENAME_LEN path = Inr (Some name)" "name \<noteq> []" "0 \<notin> set path" "search_file path st = Inr (0, st0)" "flags AND O_CREAT \<noteq> 0"
  defines "start \<equiv> int (unat (n_1st_sect (super_blocks st 0)) + hd (free_sects st)) - 1"
  shows "\<exists>nr p g d st2. open_node path flags st = Inr (Some (int nr, p), st2) \<and>
     st2 = st\<lparr>inode_table := (inode_table st)(p := new_node (int nr) start, root_inode st := dir_inode st),
       super_blocks := (super_blocks st)(0 := (super_blocks st 0)\<lparr>sb_dev := ROOT_DEV\<rparr>), fsbuf := g, fs_disk := (fs_disk st)(32 := d)\<rparr> \<and>
     inode_table st2 p = new_node (int nr) start \<and> 0 < nr \<and> \<not> imap_bit ROOT_DEV st (int nr) \<and> (\<forall>m < nr. imap_bit ROOT_DEV st (int m)) \<and>
     taken_disk st nr d \<and> dir_ok st2 \<and> fs_ready st2 \<and>
     (\<forall>name'. length name' < 12 \<longrightarrow> name' \<noteq> [] \<longrightarrow> 0 \<notin> set name' \<longrightarrow> dir_lookup name' d (dir_addr st2) 0 (dir_seen st2) =
        (if name' = name then int nr else dir_lookup name' (fs_disk st 32) (dir_addr st) 0 (dir_seen st)))"
proof -
  have nz: "0 \<notin> set name"
    using assms(10) strip_path_set [OF assms(8)] by auto
  have dok: "dir_ok st"
    using assms(1) by (simp add: fs_ready_def)
  obtain f where f: "search_file path st = Inr (0, st\<lparr>fsbuf := f\<rparr>)" "dir_lookup name (fs_disk st 32) (dir_addr st) 0 (dir_seen st) = 0"
    using search_file_lookup [OF dok assms(8,9)] assms(11) by auto
  define st1 where "st1 = st\<lparr>fsbuf := f\<rparr>"
  have core: "root_inode st1 = root_inode st" "inode_table st1 = inode_table st" "super_blocks st1 = super_blocks st" "fs_disk st1 = fs_disk st"
    by (simp_all add: st1_def)
  note cg = fs_core_cong [OF core] core
  obtain nr p g d st2 where c: "create_file path st1 = Inr (Some p, st2)"
    and st2: "st2 = st1\<lparr>inode_table := (inode_table st)(p := new_node (int nr) start, root_inode st := dir_inode st),
       super_blocks := (super_blocks st)(0 := (super_blocks st 0)\<lparr>sb_dev := ROOT_DEV\<rparr>), fsbuf := g, fs_disk := (fs_disk st)(32 := d)\<rparr>"
    and p: "p < 64" "i_cnt (inode_table st p) = 0" "0 < nr" "nr < 4096 * unat (nr_imap_sects (super_blocks st 0))"
    and nr: "\<not> imap_bit ROOT_DEV st (int nr)" "\<forall>m < nr. imap_bit ROOT_DEV st (int m)" "taken_disk st nr d" and dir: "dir_ok st2" "dir_tidy st2"
    and look: "\<forall>name'. length name' < 12 \<longrightarrow> name' \<noteq> [] \<longrightarrow> 0 \<notin> set name' \<longrightarrow> dir_lookup name' d (dir_addr st2) 0 (dir_seen st2) =
        (if name' = name then int nr else dir_lookup name' (fs_disk st 32) (dir_addr st) 0 (dir_seen st))"
    using create_file_takes [of st1 n q path name, unfolded cg, OF assms(1-7) assms(8,9) nz f(2)] unfolding start_def by blast
  have pr: "p \<noteq> root_inode st"
    using p(2) assms(1) by (auto simp: fs_ready_def)
  have st2': "st2 = st\<lparr>inode_table := (inode_table st)(p := new_node (int nr) start, root_inode st := dir_inode st),
       super_blocks := (super_blocks st)(0 := (super_blocks st 0)\<lparr>sb_dev := ROOT_DEV\<rparr>), fsbuf := g, fs_disk := (fs_disk st)(32 := d)\<rparr>"
    by (simp add: st2 st1_def)
  have node: "inode_table st2 p = new_node (int nr) start"
    using pr by (simp add: st2')
  have on: "open_node path flags st = Inr (Some (int nr, p), st2)"
    using f(1) c assms(12) node unfolding st1_def by (simp add: open_node_def new_node_def)
  show ?thesis
    using on st2' node p(3) nr dir(1) look create_ready [OF assms(1) nr(3) p(4,3) pr st2' dir] by blast
qed

text \<open>
  C33. Opening a new file creates it. In a file system in order that has a free inode number, 2048 free sectors,
  a free slot for the inode, room in the root directory, a free file of the process and a free descriptor,
  \<^verbatim>\<open>do_open\<close> with \<^verbatim>\<open>O_CREAT\<close> of a name that is not there returns the lowest free file; the descriptor is at
  position 0 of a regular file of size 0 in memory and on the disk, with the lowest free inode number and the
  2048 sectors from the lowest free one on; exactly this number and the 2048 lowest free bits are added to the
  maps; a search for the name finds the new inode, a search for any other name what it found before; and the
  file system is in order again.
\<close>
theorem open_creates:
  assumes "fs_ready st" "n < 4096 * unat (nr_imap_sects (super_blocks st 0))" "\<not> imap_bit ROOT_DEV st (int n)"
    "2048 \<le> length (free_sects st)" "q < 64" "i_cnt (inode_table st q) = 0" "dir_room st"
    "fetch_path pid (PATHNAME msg) (NAME_LEN msg) st = Inr path" "strip_path MAX_FILENAME_LEN path = Inr (Some name)" "name \<noteq> []"
    "search_file path st = Inr (0, st0)" "FLAGS msg AND O_CREAT \<noteq> 0" "FLAGS msg AND O_TRUNC = 0"
    "first_free (filp (fs_procs st pid)) [0..<NR_FILES] = Some fd" "first_free (\<lambda>i. fd_inode (fd_table st i)) [0..<NR_FILE_DESC] = Some k"
  defines "start \<equiv> int (unat (n_1st_sect (super_blocks st 0)) + hd (free_sects st)) - 1"
  shows "\<exists>nr p st'. do_open pid junk msg st = Inr (int fd, st') \<and> filp (fs_procs st' pid) fd = Some k \<and>
     fd_table st' k = \<lparr>fd_mode = FLAGS msg, fd_pos = 0, fd_cnt = 1, fd_inode = Some p\<rparr> \<and> inode_table st' p = new_node (int nr) start \<and>
     disk_inode (super_blocks st' 0) (fs_disk st' 32) (int nr) (inode_table st' p) = inode_table st' p \<and>
     \<not> imap_bit ROOT_DEV st (int nr) \<and> (\<forall>m < nr. imap_bit ROOT_DEV st (int m)) \<and>
     (\<forall>m < 4096 * unat (nr_imap_sects (super_blocks st 0)). imap_bit ROOT_DEV st' (int m) \<longleftrightarrow> imap_bit ROOT_DEV st (int m) \<or> m = nr) \<and>
     (\<forall>b < 4096 * unat (nr_smap_sects (super_blocks st 0)). smap_bit st' b \<longleftrightarrow> smap_bit st b \<or> b \<in> set (take 2048 (free_sects st))) \<and>
     (\<exists>st1. search_file path st' = Inr (int nr, st1)) \<and>
     (\<forall>path' name' r st1. strip_path MAX_FILENAME_LEN path' = Inr (Some name') \<longrightarrow> name' \<noteq> [] \<longrightarrow> name' \<noteq> name \<longrightarrow> 0 \<notin> set path' \<longrightarrow>
        search_file path' st = Inr (r, st1) \<longrightarrow> (\<exists>st2. search_file path' st' = Inr (r, st2))) \<and> fs_ready st'"
proof -
  note nz = fetch_path_nonzero [OF assms(8)]
  have dok: "dir_ok st"
    using assms(1) by (simp add: fs_ready_def)
  obtain nr p g d st2 where on: "open_node path (FLAGS msg) st = Inr (Some (int nr, p), st2)"
    and st2: "st2 = st\<lparr>inode_table := (inode_table st)(p := new_node (int nr) start, root_inode st := dir_inode st),
       super_blocks := (super_blocks st)(0 := (super_blocks st 0)\<lparr>sb_dev := ROOT_DEV\<rparr>), fsbuf := g, fs_disk := (fs_disk st)(32 := d)\<rparr>"
    and node: "inode_table st2 p = new_node (int nr) start" "0 < nr"
    and nr: "\<not> imap_bit ROOT_DEV st (int nr)" "\<forall>m < nr. imap_bit ROOT_DEV st (int m)" "taken_disk st nr d" and dir: "dir_ok st2" "fs_ready st2"
    and look: "\<forall>name'. length name' < 12 \<longrightarrow> name' \<noteq> [] \<longrightarrow> 0 \<notin> set name' \<longrightarrow> dir_lookup name' d (dir_addr st2) 0 (dir_seen st2) =
        (if name' = name then int nr else dir_lookup name' (fs_disk st 32) (dir_addr st) 0 (dir_seen st))"
    using open_node_new [OF assms(1-7) assms(9,10) nz assms(11,12)] unfolding start_def by blast
  define st4 where "st4 = upd_fd k (\<lambda>x. x\<lparr>fd_inode := Some p, fd_cnt := 1, fd_mode := FLAGS msg, fd_pos := 0\<rparr>) (set_filp pid fd (Some k) st2)"
  have op: "do_open pid junk msg st = Inr (int fd, st4)"
    unfolding st4_def using do_open_regular [OF assms(8) on _ assms(13-15)] node by (simp add: new_node_def)
  have core4: "root_inode st4 = root_inode st2" "inode_table st4 = inode_table st2" "super_blocks st4 = super_blocks st2" "fs_disk st4 = fs_disk st2"
    by (simp_all add: st4_def upd_fd_def set_filp_def)
  note cg4 = fs_core_cong [OF core4]
  have d4: "fs_disk st4 32 = d" "super_blocks st4 0 = (super_blocks st 0)\<lparr>sb_dev := ROOT_DEV\<rparr>" "inode_table st4 p = new_node (int nr) start"
    using core4 node by (simp_all add: st2)
  have tab: "filp (fs_procs st4 pid) fd = Some k" "fd_table st4 k = \<lparr>fd_mode = FLAGS msg, fd_pos = 0, fd_cnt = 1, fd_inode = Some p\<rparr>"
    by (simp_all add: st4_def upd_fd_def set_filp_def)
  have rd: "fs_ready st4"
    unfolding cg4 by (rule dir(2))
  have di: "disk_inode (super_blocks st4 0) (fs_disk st4 32) (int nr) (inode_table st4 p) = inode_table st4 p"
    using nr(3) unfolding d4 taken_disk_def Let_def start_def by (simp add: disk_inode_def new_node_def)
  note maps = taken_disk_maps [OF nr(3) [folded d4(1)] d4(2)]
  have sf: "\<exists>st1. search_file path' st4 = Inr (if name' = name then int nr else dir_lookup name' (fs_disk st 32) (dir_addr st) 0 (dir_seen st), st1)"
    if "strip_path MAX_FILENAME_LEN path' = Inr (Some name')" "name' \<noteq> []" "0 \<notin> set path'" for path' name'
  proof -
    have "length name' < 12" "0 \<notin> set name'"
      using strip_path_length [OF that(1)] strip_path_set [OF that(1)] that(3) by auto
    then show ?thesis
      using search_file_lookup [of st4 path' name'] dir(1) that(1,2) look unfolding cg4 d4(1) by auto
  qed
  have "\<exists>st2. search_file path' st4 = Inr (r, st2)"
    if "strip_path MAX_FILENAME_LEN path' = Inr (Some name')" "name' \<noteq> []" "name' \<noteq> name" "0 \<notin> set path'" "search_file path' st = Inr (r, st1)" for path' name' r st1
    using sf [OF that(1,2,4)] search_file_lookup [OF dok that(1,2)] that(3,5) by auto
  then show ?thesis
    using op tab d4(3) di nr(1,2) maps sf [OF assms(9,10) nz] rd by auto
qed

section \<open>The first file\<close>

lemma fresh_ready:
  assumes "fresh_fs N s d0 st" "dir_tidy st" "root_inode st = 0" "\<forall>i < 64. 0 < i \<longrightarrow> inode_table st i = zero_inode"
  shows "fs_ready st"
proof -
  have sb: "nr_imap_sects (super_blocks st 0) = 1" "nr_inode_sects (super_blocks st 0) = 256" "unat (nr_smap_sects (super_blocks st 0)) \<le> 16384"
    and r: "root_dir st = new_root (259 + N)"
    using assms(1) by (simp_all add: fresh_fs_def)
  have live: "i_dev (inode_table st n) = ROOT_DEV \<and> i_num (inode_table st n) = 1" if "n < 64" "i_cnt (inode_table st n) \<noteq> 0" for n
    using assms(3,4) r that by (cases "n = 0") (auto simp: zero_inode_def new_root_def)
  have "imap_bit ROOT_DEV st (int 0)" "imap_bit ROOT_DEV st (int 1)"
    using fresh_imap [OF assms(1), of 0] fresh_imap [OF assms(1), of 1] by simp_all
  moreover have "imap_ok st"
    using live calculation(2) unfolding imap_ok_def by simp
  ultimately show ?thesis
    using fresh_dir(1) [OF assms(1)] assms(2,3) live r sb unfolding fs_ready_def by (simp add: new_root_def)
qed

lemma fresh_free:
  assumes "fresh_fs N s d0 st" "9 \<le> N"
  shows "\<exists>rest. free_sects st = [2049..<2049 + 2048] @ rest"
proof -
  let ?P = "\<lambda>b. \<not> smap_bit st b"
  have N: "N \<le> 16384" "unat (nr_smap_sects (super_blocks st 0)) = N"
    using assms(1) by (simp_all add: fresh_fs_def)
  have sm: "?P b \<longleftrightarrow> 2048 < b" if "b < 2049 + 2048" for b
    using fresh_smap [OF assms(1), of b] that N(1) assms(2) by auto
  have "[0..<4096 * N] = [0..<2049] @ [2049..<2049 + 2048] @ [2049 + 2048..<4096 * N]"
    using upt_add_eq_append [of 0 2049 "4096 * N - 2049"] upt_add_eq_append [of 2049 "2049 + 2048" "4096 * N - (2049 + 2048)"] assms(2)
    by (simp del: upt_rec_numeral)
  moreover have "filter ?P [0..<2049] = []" "filter ?P [2049..<2049 + 2048] = [2049..<2049 + 2048]"
    using sm by (simp_all add: filter_empty_conv filter_id_conv del: upt_rec_numeral)
  ultimately show ?thesis
    by (simp add: free_sects_def N(2) del: upt_rec_numeral)
qed

definition create_msg :: MESSAGE where
  "create_msg = reset_msg\<lparr>source := 8, mtype := OPEN, m3i1 := 3, m3i2 := 2, m3p1 := 0x5000\<rparr>"

text \<open>The state after \<^verbatim>\<open>init_fs\<close> on a disk of zeros, whatever is in the memory.\<close>

lemma blank_fresh:
  "\<exists>st. init_fs \<lparr>pbase = 0, psize = 40000\<rparr> reset_msg (fs5\<lparr>fs_mem := m\<rparr>) = Inr st \<and> fs_ready st \<and> fs_procs st = (\<lambda>_. zero_process) \<and> fs_mem st = m \<and>
     root_inode st = 0 \<and> fd_table st 0 = zero_fd \<and> (\<forall>i < 64. 0 < i \<longrightarrow> inode_table st i = zero_inode) \<and>
     fresh_fs 10 (new_super_block \<lparr>pbase = 0, psize = 40000\<rparr> (fs_sb fs5)) (\<lambda>_. 0) st"
proof -
  let ?st = "fs5\<lparr>fs_mem := m\<rparr>"
  have "magic (super_block_at (\<lambda>i. fs_disk ?st 32 (512 + i))) \<noteq> MAGIC_V1"
    by (simp add: fs5_def super_block_at_def buf_simps)
  from init_fs_fresh [OF this, of "\<lparr>pbase = 0, psize = 40000\<rparr>" reset_msg] obtain st where
      st: "init_fs \<lparr>pbase = 0, psize = 40000\<rparr> reset_msg ?st = Inr st" "fresh_fs 10 (new_super_block \<lparr>pbase = 0, psize = 40000\<rparr> (fs_sb fs5)) (\<lambda>_. 0) st"
        "fs_procs st = (\<lambda>_. zero_process)" "fs_mem st = m" "root_inode st = 0" "\<forall>i < 64. fd_table st i = zero_fd" "\<forall>i < 64. 0 < i \<longrightarrow> inode_table st i = zero_inode"
    by (auto simp: fs5_def)
  have "fs_ready st"
    using fresh_ready [OF st(2) _ st(5,7)] fresh_tidy [OF st(2)] by simp
  then show ?thesis
    using st by simp
qed

lemma fs5_fresh:
  "\<exists>st. init_fs \<lparr>pbase = 0, psize = 40000\<rparr> reset_msg fs5 = Inr st \<and> fs_ready st \<and> fs_procs st = (\<lambda>_. zero_process) \<and> fs_mem st = fs_mem fs5 \<and>
     fd_table st 0 = zero_fd \<and> i_cnt (inode_table st 1) = 0 \<and> fresh_fs 10 (new_super_block \<lparr>pbase = 0, psize = 40000\<rparr> (fs_sb fs5)) (\<lambda>_. 0) st"
proof -
  have "fs5\<lparr>fs_mem := fs_mem fs5\<rparr> = fs5"
    by simp
  then obtain st where "init_fs \<lparr>pbase = 0, psize = 40000\<rparr> reset_msg fs5 = Inr st" "fs_ready st" "fs_procs st = (\<lambda>_. zero_process)" "fs_mem st = fs_mem fs5"
      "fd_table st 0 = zero_fd" "\<forall>i < 64. 0 < i \<longrightarrow> inode_table st i = zero_inode" "fresh_fs 10 (new_super_block \<lparr>pbase = 0, psize = 40000\<rparr> (fs_sb fs5)) (\<lambda>_. 0) st"
    using blank_fresh [of "fs_mem fs5"] by (simp only:) blast
  then show ?thesis
    by (auto simp: zero_inode_def)
qed

theorem open_creates_witness:
  "\<exists>st st' st1. init_fs \<lparr>pbase = 0, psize = 40000\<rparr> reset_msg fs5 = Inr st \<and> do_open 8 reset_msg create_msg st = Inr (0, st') \<and> fs_ready st' \<and>
     search_file [0x2F, 0x61] st' = Inr (6, st1) \<and> smap_bit st' 2049 \<and> \<not> smap_bit st 2049"
proof -
  obtain st where i: "init_fs \<lparr>pbase = 0, psize = 40000\<rparr> reset_msg fs5 = Inr st" "fs_ready st" and st: "fs_procs st = (\<lambda>_. zero_process)" "fs_mem st = fs_mem fs5"
      "fd_table st 0 = zero_fd" "i_cnt (inode_table st 1) = 0" and fr: "fresh_fs 10 (new_super_block \<lparr>pbase = 0, psize = 40000\<rparr> (fs_sb fs5)) (\<lambda>_. 0) st"
    using fs5_fresh by blast
  have sb: "unat (nr_imap_sects (super_blocks st 0)) = 1" "unat (nr_smap_sects (super_blocks st 0)) = 10"
    using fr by (simp_all add: fresh_fs_def)
  have im: "imap_bit ROOT_DEV st (int m) \<longleftrightarrow> m < 6" if "m < 4096" for m
    using fresh_imap [OF fr that] .
  have sm: "\<not> smap_bit st 2049"
    using fresh_smap [OF fr, of 2049] by simp
  obtain rest where F: "free_sects st = [2049..<2049 + 2048] @ rest"
    using fresh_free [OF fr] by auto
  have F': "2048 \<le> length (free_sects st)" "2049 \<in> set (take 2048 (free_sects st))"
    unfolding F by (simp_all del: upt_rec_numeral)
  have u: "[0..<64] = 0 # [1..<64 :: nat]"
    by (simp add: upt_conv_Cons)
  have r: "dir_room st"
    using fresh_dir(2) [OF fr] by (simp add: dir_room_def)
  have pa: "fetch_path 8 (PATHNAME create_msg) (NAME_LEN create_msg) st = Inr [0x2F, 0x61]"
    by (simp add: fetch_path_def create_msg_def st va2la_def zero_process_def ldt_seg_linear_def descriptor_base_def zero_descriptor_def mem_bytes_def fs5_def upt_rec)
  have sp: "strip_path MAX_FILENAME_LEN [0x2F, 0x61] = Inr (Some [0x61])"
    by (simp add: strip_path_def)
  have "map_of first_files [0x61] = None"
    by (simp add: first_files_def c_bytes_def)
  then obtain st0 where sf: "search_file [0x2F, 0x61] st = Inr (0, st0)"
    using fresh_search [OF fr sp] by auto
  have ff: "first_free (filp (fs_procs st 8)) [0..<NR_FILES] = Some 0" "first_free (\<lambda>i. fd_inode (fd_table st i)) [0..<NR_FILE_DESC] = Some 0"
    by (simp_all add: u st zero_process_def zero_fd_def)
  have "6 < 4096 * unat (nr_imap_sects (super_blocks st 0))" "\<not> imap_bit ROOT_DEV st (int 6)" "(1 :: nat) < 64" "[0x61 :: u8] \<noteq> []"
      "FLAGS create_msg AND O_CREAT \<noteq> 0" "FLAGS create_msg AND O_TRUNC = 0"
    using im [of 6] by (simp_all add: sb create_msg_def)
  from open_creates [OF i(2) this(1,2) F'(1) this(3) st(4) r pa sp this(4) sf this(5,6) ff, of reset_msg] obtain nr st' st1 where
      o: "do_open 8 reset_msg create_msg st = Inr (int 0, st')" "\<not> imap_bit ROOT_DEV st (int nr)" "\<forall>m < nr. imap_bit ROOT_DEV st (int m)"
        "\<forall>b < 4096 * 10. smap_bit st' b \<longleftrightarrow> smap_bit st b \<or> b \<in> set (take 2048 (free_sects st))" "search_file [0x2F, 0x61] st' = Inr (int nr, st1)" "fs_ready st'"
    unfolding sb by (elim exE conjE) (rule that, assumption+)
  have "\<not> nr < 6" "\<not> 6 < nr"
    using o(2,3) im [of nr] im [of 6] by auto
  then have "nr = 6"
    by simp
  then show ?thesis
    using i(1) o(1,5,6) o(4) [rule_format, of 2049] sm F'(2) by (simp del: upt_rec_numeral)
qed

end
