(* ===== verification/Deletion.thy ===== *)
theory Deletion
  imports Creation
begin

text \<open>
  Deleting a file: \<^verbatim>\<open>do_unlink\<close> gives its inode number and its sectors back to the maps and removes its entry from
  the root directory.
\<close>

section \<open>Clearing bits of the sector map\<close>

text \<open>The bits from \<open>lo\<close> on, \<open>n\<close> of them, are cleared.\<close>

definition cleared :: "nat \<Rightarrow> nat \<Rightarrow> buffer \<Rightarrow> buffer \<Rightarrow> bool" where
  "cleared lo n f f' \<longleftrightarrow> (\<forall>b. map_bit f' b \<longleftrightarrow> map_bit f b \<and> \<not> (lo \<le> b \<and> b < lo + n))"

lemma cleared_refl: "cleared lo 0 f f"
  by (simp add: cleared_def)

lemma cleared_append: "cleared lo m f g \<Longrightarrow> cleared (lo + m) n g h \<Longrightarrow> cleared lo (m + n) f h"
proof -
  have "lo \<le> b \<and> b < lo + (m + n) \<longleftrightarrow> lo \<le> b \<and> b < lo + m \<or> lo + m \<le> b \<and> b < lo + m + n" for b
    by auto
  then show "cleared lo m f g \<Longrightarrow> cleared (lo + m) n g h \<Longrightarrow> cleared lo (m + n) f h"
    unfolding cleared_def by blast
qed

lemma map_bit_clear:
  assumes "k < 8"
  shows "map_bit (f(j := f j AND NOT (push_bit k 1))) b \<longleftrightarrow> map_bit f b \<and> b \<noteq> 8 * j + k"
proof (cases "b div 8 = j")
  case True
  have "bit (f j AND NOT (push_bit k 1)) (b mod 8) \<longleftrightarrow> bit (f j) (b mod 8) \<and> b mod 8 \<noteq> k"
    using assms by (auto simp: bit_and_iff bit_not_iff bit_exp_iff possible_bit_word)
  then show ?thesis
    unfolding map_bit_def byte_bit_eq [OF assms True] using True by simp
next
  case False
  then show ?thesis
    using assms by (auto simp: map_bit_def)
qed

text \<open>
  The map as it will be when the sector in \<^verbatim>\<open>fsbuf\<close> is written: sector \<open>sect\<close> of the map, which starts at sector 3 of
  the disk.
\<close>

definition vmap :: "nat \<Rightarrow> fs_state \<Rightarrow> buffer" where
  "vmap sect st = map_at 3 (put_sect (3 + sect) (fsbuf st) (fs_disk st 32))"

lemma vmap_fsbuf:
  assumes "\<And>b. map_bit g b \<longleftrightarrow> map_bit (fsbuf st) b \<and> \<not> (lo \<le> b \<and> b < lo + n)" "lo + n \<le> 4096"
  shows "cleared (4096 * sect + lo) n (vmap sect st) (vmap sect (st\<lparr>fsbuf := g\<rparr>))"
  unfolding cleared_def
proof
  fix b
  have "4096 * sect + lo \<le> b \<and> b < 4096 * sect + lo + n \<longleftrightarrow>
      4096 * sect \<le> b \<and> b < 4096 * sect + 4096 \<and> lo \<le> b - 4096 * sect \<and> b - 4096 * sect < lo + n"
    using assms(2) by (cases "4096 * sect \<le> b") (auto simp: le_iff_add)
  then show "map_bit (vmap sect (st\<lparr>fsbuf := g\<rparr>)) b \<longleftrightarrow> map_bit (vmap sect st) b \<and> \<not> (4096 * sect + lo \<le> b \<and> b < 4096 * sect + lo + n)"
    unfolding vmap_def map_bit_write by (auto simp: assms(1))
qed

lemma vmap_bit: "b < 4096 \<Longrightarrow> map_bit (vmap sect st) (4096 * sect + b) = map_bit (fsbuf st) b"
  unfolding vmap_def map_bit_write by simp

lemma clear_first_bits:
  assumes "j < 512" "k \<le> 8" "ks = [k..<8]" "8 - k \<le> left" "\<forall>b. 8 * j + k \<le> b \<and> b < 8 * j + 8 \<longrightarrow> map_bit (fsbuf st) b"
  shows "\<exists>g. clear_first j ks (int left) st = Inr (int (left - (8 - k)), st\<lparr>fsbuf := g\<rparr>) \<and>
     (\<forall>b. map_bit g b \<longleftrightarrow> map_bit (fsbuf st) b \<and> \<not> (8 * j + k \<le> b \<and> b < 8 * j + k + (8 - k)))"
  using assms
proof (induction ks arbitrary: k left st)
  case Nil
  then have "k = 8"
    by (cases "k = 8") (auto simp: upt_conv_Cons)
  then show ?case
    by (intro exI [of _ "fsbuf st"]) auto
next
  case (Cons a ks)
  have k: "k < 8" "a = k" "ks = [Suc k..<8]"
  proof -
    show k: "k < 8"
      using Cons.prems(3) by (cases "k < 8") auto
    show "a = k" "ks = [Suc k..<8]"
      using Cons.prems(3) unfolding upt_conv_Cons [OF k] by simp_all
  qed
  define h where "h = (fsbuf st)(j := fsbuf st j AND NOT (push_bit k 1))"
  have g: "map_bit h b \<longleftrightarrow> map_bit (fsbuf st) b \<and> b \<noteq> 8 * j + k" for b
    unfolding h_def by (rule map_bit_clear [OF k(1)])
  have "map_bit (fsbuf st) (8 * j + k)"
    using Cons.prems(5) k(1) by simp
  then have b: "bit (fsbuf st j) k"
    using k(1) by (simp add: map_bit_def)
  obtain l where l: "left = Suc l"
    using Cons.prems(4) k(1) by (cases left) auto
  have "\<exists>g'. clear_first j ks (int l) (st\<lparr>fsbuf := h\<rparr>) = Inr (int (l - (8 - Suc k)), st\<lparr>fsbuf := h\<rparr>\<lparr>fsbuf := g'\<rparr>) \<and>
      (\<forall>b. map_bit g' b \<longleftrightarrow> map_bit (fsbuf (st\<lparr>fsbuf := h\<rparr>)) b \<and> \<not> (8 * j + Suc k \<le> b \<and> b < 8 * j + Suc k + (8 - Suc k)))"
    using Cons.prems(1,4,5) k l g by (intro Cons.IH) auto
  then obtain g' where g': "clear_first j ks (int l) (st\<lparr>fsbuf := h\<rparr>) = Inr (int (l - (8 - Suc k)), st\<lparr>fsbuf := g'\<rparr>)"
      "\<forall>b. map_bit g' b \<longleftrightarrow> (map_bit (fsbuf st) b \<and> b \<noteq> 8 * j + k) \<and> \<not> (8 * j + Suc k \<le> b \<and> b < 8 * j + Suc k + (8 - Suc k))"
    using g by auto
  have "clear_first j (a # ks) (int left) st = clear_first j ks (int l) (st\<lparr>fsbuf := h\<rparr>)"
    using b by (simp add: k(2) l and_exp_eq_0_iff_not_bit h_def)
  moreover have "l - (8 - Suc k) = left - (8 - k)"
    using l k(1) by simp
  moreover have "(map_bit (fsbuf st) b \<and> b \<noteq> 8 * j + k) \<and> \<not> (8 * j + Suc k \<le> b \<and> b < 8 * j + Suc k + (8 - Suc k)) \<longleftrightarrow>
      map_bit (fsbuf st) b \<and> \<not> (8 * j + k \<le> b \<and> b < 8 * j + k + (8 - k))" for b
    using k(1) by auto
  ultimately show ?case
    using g' by auto
qed

text \<open>Going on to the next sector changes nothing of the map.\<close>

lemma next_smap_same:
  assumes "i \<le> 512"
  shows "\<exists>i' sect' st'. next_smap ROOT_DEV i (int (3 + sect)) st = Inr (i', int (3 + sect'), st') \<and> i' < 512 \<and> 4096 * sect' + 8 * i' = 4096 * sect + 8 * i \<and>
     vmap sect' st' = vmap sect st \<and> (\<exists>f d. st' = set_disk f d st) \<and> (\<forall>a < 1536. fs_disk st' 32 a = fs_disk st 32 a)"
proof (cases "i = 512")
  case True
  define d where "d = put_sect (3 + sect) (fsbuf st) (fs_disk st 32)"
  define f where "f = copy_range d (512 * (3 + Suc sect)) (fsbuf st) 0 512"
  have "int (3 + sect) + 1 = int (3 + Suc sect)"
    by simp
  then have "next_smap ROOT_DEV i (int (3 + sect)) st = Inr (0, int (3 + Suc sect), st\<lparr>fs_disk := (fs_disk st)(32 := d), fsbuf := f\<rparr>)"
    using True unfolding next_smap_def d_def f_def by (simp add: nat_add_distrib)
  moreover have "st\<lparr>fs_disk := (fs_disk st)(32 := d), fsbuf := f\<rparr> = set_disk f d st"
    by simp
  moreover have "vmap (Suc sect) (set_disk f d st) = vmap sect st"
    by (simp add: vmap_def f_def read_back) (simp add: d_def)
  moreover have "\<forall>a < 1536. d a = fs_disk st 32 a"
    by (simp add: d_def copy_range_def)
  ultimately show ?thesis
    using True by - (rule exI [of _ 0], rule exI [of _ "Suc sect"], rule exI [of _ "set_disk f d st"], auto)
next
  case False
  have "\<exists>f d. st = set_disk f d st"
    by - (rule exI [of _ "fsbuf st"], rule exI [of _ "fs_disk st 32"], simp)
  then show ?thesis
    using False assms by - (rule exI [of _ i], rule exI [of _ sect], rule exI [of _ st], auto simp: next_smap_def)
qed

lemma full_byte_bits:
  assumes "\<forall>k < 8. map_bit f (8 * i + k)"
  shows "f i = 0xFF"
proof -
  have "map_bit f (8 * i + k) = map_bit (\<lambda>_. 0xFF) (8 * i + k)" if "k < 8" for k
    using assms full_byte_FF that by (simp add: map_bit_def full_byte_def)
  then show ?thesis
    by (rule map_bit_byte)
qed

lemma map_bit_zero_byte: "map_bit (f(i := 0)) b \<longleftrightarrow> map_bit f b \<and> \<not> (8 * i \<le> b \<and> b < 8 * i + 8)"
proof -
  have "b div 8 = i \<longleftrightarrow> 8 * i \<le> b \<and> b < 8 * i + 8"
    by linarith
  then show ?thesis
    by (simp add: map_bit_def)
qed

lemma clear_middle_bits:
  assumes "i \<le> 512" "8 * c \<le> left" "\<And>b. 4096 * sect + 8 * i \<le> b \<Longrightarrow> b < 4096 * sect + 8 * i + 8 * c \<Longrightarrow> map_bit (vmap sect st) b"
  shows "\<exists>i' sect' st'. clear_middle ROOT_DEV c i (int (3 + sect)) (int left) st = Inr (i', int (3 + sect'), int (left - 8 * c), st') \<and> i' \<le> 512 \<and>
     4096 * sect' + 8 * i' = 4096 * sect + 8 * i + 8 * c \<and> cleared (4096 * sect + 8 * i) (8 * c) (vmap sect st) (vmap sect' st') \<and>
     (\<exists>f d. st' = set_disk f d st) \<and> (\<forall>a < 1536. fs_disk st' 32 a = fs_disk st 32 a)"
  using assms
proof (induction c arbitrary: i sect left st)
  case 0
  have "\<exists>f d. st = set_disk f d st"
    by - (rule exI [of _ "fsbuf st"], rule exI [of _ "fs_disk st 32"], simp)
  then show ?case
    using 0 by - (rule exI [of _ i], rule exI [of _ sect], rule exI [of _ st], simp add: cleared_refl fun_upd_def)
next
  case (Suc c)
  let ?p = "4096 * sect + 8 * i"
  obtain i1 sect1 st1 where n: "next_smap ROOT_DEV i (int (3 + sect)) st = Inr (i1, int (3 + sect1), st1)" "i1 < 512" "4096 * sect1 + 8 * i1 = ?p"
      "vmap sect1 st1 = vmap sect st" "\<exists>f d. st1 = set_disk f d st" "\<forall>a < 1536. fs_disk st1 32 a = fs_disk st 32 a"
    using next_smap_same [OF Suc.prems(1)] by blast
  have "map_bit (fsbuf st1) (8 * i1 + k)" if "k < 8" for k
  proof -
    have e: "4096 * sect1 + (8 * i1 + k) = ?p + k"
      using n(3) by linarith
    have "map_bit (vmap sect1 st1) (4096 * sect1 + (8 * i1 + k))"
      unfolding e n(4) by (rule Suc.prems(3)) (use that in simp_all)
    then show ?thesis
      using vmap_bit [of "8 * i1 + k" sect1 st1] n(2) that by simp
  qed
  then have ff: "fsbuf st1 i1 = 0xFF"
    by (intro full_byte_bits) simp
  define st2 where "st2 = st1\<lparr>fsbuf := (fsbuf st1)(i1 := 0)\<rparr>"
  have c2: "cleared ?p 8 (vmap sect st) (vmap sect1 st2)"
    unfolding n(3,4) [symmetric] st2_def using n(2) map_bit_zero_byte [of "fsbuf st1" i1] by (intro vmap_fsbuf) simp_all
  obtain l where l: "left = 8 + l" "8 * c \<le> l"
    using Suc.prems(2) by (intro that [of "left - 8"]) simp_all
  have p1: "4096 * sect1 + 8 * (i1 + 1) = ?p + 8"
    using n(3) by simp
  have b2: "map_bit (vmap sect1 st2) b" if "4096 * sect1 + 8 * (i1 + 1) \<le> b" "b < 4096 * sect1 + 8 * (i1 + 1) + 8 * c" for b
    using c2 Suc.prems(3) [of b] that unfolding p1 cleared_def by simp
  have "i1 + 1 \<le> 512"
    using n(2) by simp
  from Suc.IH [OF this l(2) b2] obtain i' sect' st' where ih: "clear_middle ROOT_DEV c (i1 + 1) (int (3 + sect1)) (int l) st2 = Inr (i', int (3 + sect'), int (l - 8 * c), st')" "i' \<le> 512"
      "4096 * sect' + 8 * i' = ?p + 8 + 8 * c" "cleared (?p + 8) (8 * c) (vmap sect1 st2) (vmap sect' st')" "\<exists>f d. st' = set_disk f d st2" "\<forall>a < 1536. fs_disk st' 32 a = fs_disk st2 32 a"
    unfolding p1 by blast
  have "clear_middle ROOT_DEV (Suc c) i (int (3 + sect)) (int left) st = clear_middle ROOT_DEV c (i1 + 1) (int (3 + sect1)) (int l) st2"
  proof -
    have "int left - 8 = int l" "0 < left"
      using l(1) by simp_all
    then show ?thesis
      using n(1) ff by (simp add: st2_def del: of_nat_add)
  qed
  moreover have "cleared ?p (8 * Suc c) (vmap sect st) (vmap sect' st')"
    using cleared_append [OF c2 ih(4)] by simp
  moreover have "\<exists>f d. st' = set_disk f d st"
  proof -
    obtain f d fa da where "st' = set_disk f d st2" "st1 = set_disk fa da st"
      using ih(5) n(5) by blast
    then have "st' = set_disk f d st"
      by (simp add: st2_def)
    then show ?thesis
      by blast
  qed
  moreover have "\<forall>a < 1536. fs_disk st' 32 a = fs_disk st 32 a"
    using ih(6) n(6) by (simp add: st2_def)
  moreover have "l - 8 * c = left - 8 * Suc c" "?p + 8 + 8 * c = ?p + 8 * Suc c"
    using l by simp_all
  ultimately show ?case
    using ih(1-3) by (metis (no_types, lifting))
qed

lemma map_bit_clear_low:
  assumes "l \<le> 8"
  shows "map_bit (f(i := f i AND push_bit l (- 1))) b \<longleftrightarrow> map_bit f b \<and> \<not> (8 * i \<le> b \<and> b < 8 * i + l)"
proof (cases "b div 8 = i")
  case True
  have "8 * i + b mod 8 = b"
    unfolding True [symmetric] by (rule mult_div_mod_eq)
  then have "8 * i \<le> b \<and> b < 8 * i + l \<longleftrightarrow> b mod 8 < l"
    by linarith
  moreover have "bit (f i AND push_bit l (- 1)) (b mod 8) \<longleftrightarrow> bit (f i) (b mod 8) \<and> \<not> b mod 8 < l"
    using mod_less_divisor [of 8 b] by (auto simp: bit_and_iff bit_not_iff bit_mask_iff possible_bit_word)
  ultimately show ?thesis
    using True by (simp add: map_bit_def)
next
  case False
  then have "\<not> (8 * i \<le> b \<and> b < 8 * i + l)"
    using assms by linarith
  then show ?thesis
    using False by (auto simp: map_bit_def)
qed

text \<open>The last, incomplete byte.\<close>

lemma clear_last_bits:
  assumes "i \<le> 512" "0 < l" "l < 8" "map_bit (vmap sect st) (4096 * sect + 8 * i)"
  shows "\<exists>f d. res_bind (next_smap ROOT_DEV i (int (3 + sect)) st) (\<lambda>(i3, sect3, st4).
       res_bind (assert_c (int l < 8) ''bits_left < 8'') (\<lambda>_.
       res_bind (assert_c (fsbuf st4 i3 AND 1 \<noteq> 0) ''fsbuf[i] & mask == mask'') (\<lambda>_.
       WR_SECT ROOT_DEV sect3 (st4\<lparr>fsbuf := (fsbuf st4)(i3 := fsbuf st4 i3 AND push_bit (nat (int l)) (- 1))\<rparr>)))) = Inr (set_disk f d st) \<and>
     cleared (4096 * sect + 8 * i) l (vmap sect st) (map_at 3 d) \<and> (\<forall>a < 1536. d a = fs_disk st 32 a)"
proof -
  obtain j sect' st' where x: "next_smap ROOT_DEV i (int (3 + sect)) st = Inr (j, int (3 + sect'), st')" "j < 512" "4096 * sect' + 8 * j = 4096 * sect + 8 * i"
      "vmap sect' st' = vmap sect st" "\<exists>f d. st' = set_disk f d st" "\<forall>a < 1536. fs_disk st' 32 a = fs_disk st 32 a"
    using next_smap_same [OF assms(1), of sect st] by blast
  have one: "fsbuf st' j AND 1 \<noteq> 0"
    using assms(4) vmap_bit [of "8 * j" sect' st'] x(2) and_exp_eq_0_iff_not_bit [of "fsbuf st' j" 0] unfolding x(3,4) by (simp add: map_bit_def)
  define f where "f = (fsbuf st')(j := fsbuf st' j AND push_bit l (- 1))"
  define d where "d = put_sect (3 + sect') f (fs_disk st' 32)"
  have "cleared (4096 * sect' + 8 * j) l (vmap sect' st') (vmap sect' (st'\<lparr>fsbuf := f\<rparr>))"
    using assms(3) x(2) map_bit_clear_low [of l "fsbuf st'" j] unfolding f_def by (intro vmap_fsbuf) auto
  moreover have "vmap sect' (st'\<lparr>fsbuf := f\<rparr>) = map_at 3 d"
    by (simp add: d_def vmap_def)
  ultimately have c: "cleared (4096 * sect + 8 * i) l (vmap sect st) (map_at 3 d)"
    by (simp only: x(3,4))
  obtain f1 d1 where "st' = set_disk f1 d1 st"
    using x(5) by blast
  then have "set_disk f d st' = set_disk f d st"
    by simp
  moreover have "WR_SECT ROOT_DEV (int (3 + sect')) (st'\<lparr>fsbuf := f\<rparr>) = Inr (set_disk f d st')"
    by (simp add: d_def nat_add_distrib)
  ultimately have w: "WR_SECT ROOT_DEV (int (3 + sect')) (st'\<lparr>fsbuf := f\<rparr>) = Inr (set_disk f d st)"
    by (simp only:)
  have "\<forall>a < 1536. d a = fs_disk st 32 a"
    using x(6) by (simp add: d_def copy_range_def)
  then show ?thesis
    using c w one assms(3) unfolding x(1) res_bind_Inr case_prod_conv nat_int f_def [symmetric]
    by - (rule exI [of _ f], rule exI [of _ d], simp del: of_nat_add)
qed

lemma clear_smap_bits:
  assumes n: "8 \<le> n" "(idx + n) mod 8 \<noteq> 0" and bits: "\<And>b. idx \<le> b \<Longrightarrow> b < idx + n \<Longrightarrow> map_bit (map_at 3 (fs_disk st 32)) b"
  shows "\<exists>f d. clear_smap ROOT_DEV (int idx) (int n) st = Inr (set_disk f d st) \<and> cleared idx n (map_at 3 (fs_disk st 32)) (map_at 3 d) \<and>
     (\<forall>a < 1536. d a = fs_disk st 32 a)"
proof -
  define r j sect l1 c where "r = idx mod 8" and "j = idx div 8 mod 512" and "sect = idx div 8 div 512" and "l1 = n - (8 - r)" and "c = l1 div 8"
  have idx: "4096 * sect + 8 * j + r = idx" "r < 8" "j < 512"
    unfolding r_def j_def sect_def by (rule bit_offset_split) simp_all
  have pos: "4096 * sect + 8 * (j + 1) = idx + (8 - r)"
    using idx by simp
  have len: "8 * c \<le> l1" "(8 - r) + l1 = n" "0 < l1 - 8 * c" "l1 - 8 * c < 8"
  proof -
    show "8 * c \<le> l1" "(8 - r) + l1 = n" "l1 - 8 * c < 8"
      using idx(2) n(1) by (simp_all add: c_def l1_def)
    have "idx + n = l1 + 8 * (512 * sect + j + 1)"
      using idx(1,2) n(1) by (simp add: l1_def)
    then have "l1 - 8 * c = (idx + n) mod 8"
      unfolding c_def minus_mult_div_eq_mod by (metis mod_mult_self2)
    then show "0 < l1 - 8 * c"
      using n(2) by simp
  qed
  define st1 where "st1 = st\<lparr>fsbuf := copy_range (fs_disk st 32) (512 * (3 + sect)) (fsbuf st) 0 512\<rparr>"
  have v1: "vmap sect st1 = map_at 3 (fs_disk st 32)"
    by (simp add: vmap_def st1_def read_back)
  have "map_bit (fsbuf st1) b" if "8 * j + r \<le> b" "b < 8 * j + 8" for b
    using bits [of "4096 * sect + b"] vmap_bit [of b sect st1] that idx n(1) unfolding v1 by simp
  then have pre: "r \<le> 8" "8 - r \<le> n" "\<forall>b. 8 * j + r \<le> b \<and> b < 8 * j + 8 \<longrightarrow> map_bit (fsbuf st1) b"
    using idx(2) n(1) by simp_all
  obtain g where g: "clear_first j [r..<8] (int n) st1 = Inr (int l1, st1\<lparr>fsbuf := g\<rparr>)"
      "\<forall>b. map_bit g b \<longleftrightarrow> map_bit (fsbuf st1) b \<and> \<not> (8 * j + r \<le> b \<and> b < 8 * j + r + (8 - r))"
    using clear_first_bits [OF idx(3) pre(1) refl pre(2,3)] unfolding l1_def by blast
  define st2 where "st2 = st1\<lparr>fsbuf := g\<rparr>"
  have c1: "cleared idx (8 - r) (vmap sect st1) (vmap sect st2)"
    using vmap_fsbuf [of g st1 "8 * j + r" "8 - r" sect] g(2) idx unfolding st2_def by (simp add: add.assoc)
  have b2: "map_bit (vmap sect st2) b" if "4096 * sect + 8 * (j + 1) \<le> b" "b < 4096 * sect + 8 * (j + 1) + 8 * c" for b
    using c1 bits [of b] that len(1,2) unfolding pos v1 cleared_def by simp
  have "j + 1 \<le> 512"
    using idx(3) by simp
  from clear_middle_bits [OF this len(1) b2] obtain i3 sect3 st3 where
      m: "clear_middle ROOT_DEV c (j + 1) (int (3 + sect)) (int l1) st2 = Inr (i3, int (3 + sect3), int (l1 - 8 * c), st3)" "i3 \<le> 512"
        "4096 * sect3 + 8 * i3 = idx + (8 - r) + 8 * c" "cleared (idx + (8 - r)) (8 * c) (vmap sect st2) (vmap sect3 st3)" "\<exists>f d. st3 = set_disk f d st2"
        "\<forall>a < 1536. fs_disk st3 32 a = fs_disk st2 32 a"
    unfolding pos by blast
  have v3: "cleared idx (8 - r + 8 * c) (map_at 3 (fs_disk st 32)) (vmap sect3 st3)"
    unfolding v1 [symmetric] by (rule cleared_append [OF c1 m(4)])
  have "map_bit (vmap sect3 st3) (4096 * sect3 + 8 * i3)"
    using v3 bits [of "idx + (8 - r) + 8 * c"] len unfolding m(3) cleared_def by simp
  from clear_last_bits [OF m(2) len(3,4) this] obtain f d where t: "res_bind (next_smap ROOT_DEV i3 (int (3 + sect3)) st3) (\<lambda>(i3, sect3, st4).
       res_bind (assert_c (int (l1 - 8 * c) < 8) ''bits_left < 8'') (\<lambda>_.
       res_bind (assert_c (fsbuf st4 i3 AND 1 \<noteq> 0) ''fsbuf[i] & mask == mask'') (\<lambda>_.
       WR_SECT ROOT_DEV sect3 (st4\<lparr>fsbuf := (fsbuf st4)(i3 := fsbuf st4 i3 AND push_bit (nat (int (l1 - 8 * c))) (- 1))\<rparr>)))) = Inr (set_disk f d st3)"
      "cleared (idx + (8 - r) + 8 * c) (l1 - 8 * c) (vmap sect3 st3) (map_at 3 d)" "\<forall>a < 1536. d a = fs_disk st3 32 a"
    unfolding m(3) by blast
  have "clear_smap ROOT_DEV (int idx) (int n) st = Inr (set_disk f d st3)"
  proof -
    have e: "int idx div 8 div 512 = int sect" "nat (int idx div 8 mod 512) = j" "nat (int idx mod 8) = r" "3 + int sect = int (3 + sect)" "int idx mod 8 = int r"
      by (simp_all add: sect_def j_def r_def zdiv_int zmod_int nat_mod_distrib nat_div_distrib)
    have "int n - (8 - int r) = int l1"
      using len(2) idx(2) by linarith
    then have c: "nat ((int n - (8 - int r)) sdiv 8) = c"
      by (cases "l1 = 0") (simp_all add: c_def signed_divide_int_def zdiv_int nat_div_distrib)
    have rd: "RD_SECT ROOT_DEV (int (3 + sect)) st = Inr st1"
      by (simp add: st1_def nat_add_distrib)
    have "\<not> int idx < 0"
      by simp
    then show ?thesis
      unfolding clear_smap_def Let_def e nat_int c rd res_bind_Inr g(1) case_prod_conv st2_def [symmetric] m(1) t(1) [unfolded nat_int] by (simp only: if_False)
  qed
  moreover have "set_disk f d st3 = set_disk f d st"
  proof -
    obtain f1 d1 where "st3 = set_disk f1 d1 st2"
      using m(5) by blast
    then show ?thesis
      by (simp add: st2_def st1_def)
  qed
  moreover have "cleared idx n (map_at 3 (fs_disk st 32)) (map_at 3 d)"
  proof -
    have "8 - r + 8 * c + (l1 - 8 * c) = n"
      using len by simp
    then show ?thesis
      using cleared_append [OF v3, of "l1 - 8 * c" "map_at 3 d"] t(2) by (simp add: add.assoc)
  qed
  moreover have "\<forall>a < 1536. d a = fs_disk st 32 a"
    using t(3) m(6) by (simp add: st2_def st1_def)
  ultimately show ?thesis
    by metis
qed

section \<open>The inode map\<close>

lemma clear_imap_bit:
  assumes "nr < 4096" "map_bit (map_at 2 (fs_disk st 32)) nr"
  shows "\<exists>f d. clear_imap ROOT_DEV (int nr) st = Inr (set_disk f d st) \<and> cleared nr 1 (map_at 2 (fs_disk st 32)) (map_at 2 d) \<and>
     (\<forall>a. a < 1024 \<or> 1536 \<le> a \<longrightarrow> d a = fs_disk st 32 a)"
proof -
  define j k where "j = nr div 8" and "k = nr mod 8"
  have jk: "j < 512" "k < 8" "nr = 8 * j + k"
    using assms(1) by (simp_all add: j_def k_def)
  have i: "int nr sdiv 8 = int j" "int nr smod 8 = int k"
    by (cases "nr = 0"; simp add: j_def k_def signed_divide_int_def signed_modulo_int_def zdiv_int zmod_int)+
  define f0 where "f0 = copy_range (fs_disk st 32) 1024 (fsbuf st) 0 512"
  define f where "f = f0(j := f0 j AND NOT (push_bit k 1))"
  define d where "d = copy_range f 0 (fs_disk st 32) 1024 512"
  have f0: "f0 a = map_at 2 (fs_disk st 32) a" if "a < 512" for a
    using that by (simp add: f0_def copy_range_def map_at_def)
  have "bit (f0 j) k"
    using assms(2) f0 [OF jk(1)] jk(2,3) by (simp add: map_bit_def)
  then have c: "clear_imap ROOT_DEV (int nr) st = Inr (set_disk f d st)"
    using jk(1) unfolding clear_imap_def Let_def i by (simp add: and_exp_eq_0_iff_not_bit f_def d_def f0_def)
  have "map_at 2 d = (map_at 2 (fs_disk st 32))(j := map_at 2 (fs_disk st 32) j AND NOT (push_bit k 1))"
  proof
    fix a
    show "map_at 2 d a = ((map_at 2 (fs_disk st 32))(j := map_at 2 (fs_disk st 32) j AND NOT (push_bit k 1))) a"
      using f0 [of a] f0 [OF jk(1)] jk(1) by (cases "a < 512") (auto simp: d_def f_def copy_range_def map_at_def)
  qed
  then have "map_bit (map_at 2 d) b \<longleftrightarrow> map_bit (map_at 2 (fs_disk st 32)) b \<and> b \<noteq> nr" for b
    by (simp only: map_bit_clear [OF jk(2)] jk(3))
  moreover have "b \<noteq> nr \<longleftrightarrow> \<not> (nr \<le> b \<and> b < nr + 1)" for b
    by linarith
  ultimately have "cleared nr 1 (map_at 2 (fs_disk st 32)) (map_at 2 d)"
    unfolding cleared_def by (simp only: simp_thms)
  moreover have "\<forall>a. a < 1024 \<or> 1536 \<le> a \<longrightarrow> d a = fs_disk st 32 a"
    by (auto simp: d_def copy_range_def)
  ultimately show ?thesis
    using c by blast
qed

section \<open>The directory entry\<close>

text \<open>The used entries among those from \<open>lo\<close> on and before \<open>hi\<close>.\<close>

definition used_entries :: "buffer \<Rightarrow> nat \<Rightarrow> nat \<Rightarrow> nat \<Rightarrow> nat" where
  "used_entries d b lo hi = length (filter (\<lambda>x. entry_nr d b x \<noteq> 0) [lo..<hi])"

lemma used_entries_step: "lo < hi \<Longrightarrow> used_entries d b lo hi = (if entry_nr d b lo \<noteq> 0 then 1 else 0) + used_entries d b (Suc lo) hi"
  by (simp add: used_entries_def upt_conv_Cons)

lemma used_entries_split: "lo \<le> m \<Longrightarrow> m \<le> hi \<Longrightarrow> used_entries d b lo hi = used_entries d b lo m + used_entries d b m hi"
  using upt_add_eq_append [of lo m "hi - m"] by (simp add: used_entries_def)

lemma unlink_scan_find:
  assumes f: "holds_sector f d b i" and e: "e < n" "entry_nr d b e = nr" "\<forall>y < e. entry_nr d b y \<noteq> nr"
  shows "j \<le> 32 \<Longrightarrow> 32 * i + j \<le> e \<Longrightarrow> unlink_scan f nr (16 * j) (32 - j) n (32 * i + j) sz =
     (if e < 32 * i + 32 then (Some (16 * (e - 32 * i)), Suc e, sz + 16 * used_entries d b (32 * i + j) e)
      else (None, 32 * i + 32, sz + 16 * used_entries d b (32 * i + j) (32 * i + 32)))"
proof (induction "32 - j" arbitrary: j sz)
  case 0
  then have j: "j = 32"
    by simp
  then show ?case
    using 0 by (simp add: used_entries_def)
next
  case (Suc c)
  then have j: "j < 32" "32 - j = Suc (32 - Suc j)"
    by simp_all
  have w: "buf_word f (16 * j) = buf_word d (b + 16 * (32 * i + j))"
    by (rule sector_name(3) [OF f _ j(1), of "[]"]) simp
  have s: "sint (buf_word f (16 * j)) = entry_nr d b (32 * i + j)" "buf_word f (16 * j) = 0 \<longleftrightarrow> entry_nr d b (32 * i + j) = 0"
    unfolding w entry_nr_zero by (simp_all add: entry_nr_def)
  have m: "\<not> n \<le> 32 * i + j"
    using e(1) Suc.prems(2) by simp
  show ?case
  proof (cases "e = 32 * i + j")
    case True
    then show ?thesis
      using m j e(2) s(1) by (simp only: unlink_scan.simps) (simp add: used_entries_def)
  next
    case False
    then have lt: "32 * i + j < e"
      using Suc.prems(2) by simp
    have a: "32 * i + j + 1 = 32 * i + Suc j" "16 * j + 16 = 16 * Suc j"
      by simp_all
    have u: "used_entries d b (32 * i + j) h = (if entry_nr d b (32 * i + j) \<noteq> 0 then 1 else 0) + used_entries d b (32 * i + Suc j) h" if "32 * i + j < h" for h
      using used_entries_step [OF that] by simp
    have "unlink_scan f nr (16 * j) (32 - j) n (32 * i + j) sz =
        unlink_scan f nr (16 * Suc j) (32 - Suc j) n (32 * i + Suc j) (if entry_nr d b (32 * i + j) \<noteq> 0 then sz + 16 else sz)"
      unfolding j(2) unlink_scan.simps a s using m e(3) lt by simp
    also have "\<dots> = (if e < 32 * i + 32 then (Some (16 * (e - 32 * i)), Suc e, sz + 16 * used_entries d b (32 * i + j) e)
      else (None, 32 * i + 32, sz + 16 * used_entries d b (32 * i + j) (32 * i + 32)))"
      using Suc.hyps(1) [of "Suc j"] Suc.hyps(2) j(1) lt u [OF lt] u [of "32 * i + 32"] by simp
    finally show ?thesis .
  qed
qed

lemma unlink_loop_find:
  assumes blk: "0 \<le> blk" and e: "e < n" "e < 32 * S"
  shows "32 * i \<le> e \<Longrightarrow> entry_nr (fs_disk st 32) (512 * nat blk) e = nr \<Longrightarrow> \<forall>y < e. entry_nr (fs_disk st 32) (512 * nat blk) y \<noteq> nr \<Longrightarrow>
     \<exists>f. unlink_loop ROOT_DEV blk [i..<S] nr n (32 * i) sz st =
       Inr (Suc e, sz + 16 * used_entries (fs_disk st 32) (512 * nat blk) (32 * i) e, set_disk f (buf_write (512 * nat blk + 16 * e) (replicate 16 0) (fs_disk st 32)) st)"
proof (induction "S - i" arbitrary: i sz st)
  case 0
  then show ?case
    using e(2) by simp
next
  case (Suc c)
  then have u: "[i..<S] = i # [Suc i..<S]" "i < S"
    by (simp_all add: upt_conv_Cons)
  let ?d = "fs_disk st 32"
  define b where "b = 512 * nat blk"
  define st1 where "st1 = st\<lparr>fsbuf := copy_range ?d (b + 512 * i) (fsbuf st) 0 512\<rparr>"
  have r: "RD_SECT ROOT_DEV (blk + int i) st = Inr st1"
    using blk by (simp add: st1_def b_def nat_add_distrib)
  have f: "holds_sector (fsbuf st1) ?d b i"
    by (simp add: st1_def copy_range_def holds_sector_def)
  note sc = unlink_scan_find [OF f e(1) Suc.prems(2,3) [folded b_def], of 0 sz, simplified, OF Suc.prems(1)]
  show ?case
  proof (cases "e < 32 * i + 32")
    case True
    define g where "g = buf_write (16 * (e - 32 * i)) (replicate 16 0) (fsbuf st1)"
    have "b + 512 * i + 16 * (e - 32 * i) = b + 16 * e" "16 * (e - 32 * i) + length (replicate 16 (0 :: u8)) \<le> 512"
      using Suc.prems(1) True by simp_all
    then have "copy_range g 0 ?d (b + 512 * i) 512 = buf_write (b + 16 * e) (replicate 16 0) ?d"
      using sector_rewrite [OF f, of "16 * (e - 32 * i)" "replicate 16 0"] unfolding g_def by (simp only:)
    moreover have "512 * nat (blk + int i) = b + 512 * i"
      using blk by (simp add: b_def nat_add_distrib)
    ultimately have "WR_SECT ROOT_DEV (blk + int i) (st1\<lparr>fsbuf := g\<rparr>) = Inr (set_disk g (buf_write (b + 16 * e) (replicate 16 0) ?d) st)"
      using blk by (simp add: st1_def)
    then show ?thesis
      unfolding u unlink_loop.simps r res_bind_Inr sc b_def [symmetric] using True g_def by (intro exI [of _ g]) simp
  next
    case False
    have d1: "fs_disk st1 = fs_disk st"
      by (simp add: st1_def)
    have i: "32 * Suc i \<le> e" "c = S - Suc i"
      using False Suc.hyps(2) by simp_all
    obtain g where g: "unlink_loop ROOT_DEV blk [Suc i..<S] nr n (32 * Suc i) (sz + 16 * used_entries ?d b (32 * i) (32 * Suc i)) st1 =
        Inr (Suc e, sz + 16 * used_entries ?d b (32 * i) (32 * Suc i) + 16 * used_entries ?d b (32 * Suc i) e, set_disk g (buf_write (b + 16 * e) (replicate 16 0) ?d) st1)"
      using Suc.hyps(1) [OF i(2,1), of st1 "sz + 16 * used_entries ?d b (32 * i) (32 * Suc i)"] Suc.prems(2,3) unfolding d1 b_def by blast
    have "32 * i + 32 = 32 * Suc i"
      by simp
    moreover have "used_entries ?d b (32 * i) e = used_entries ?d b (32 * i) (32 * Suc i) + used_entries ?d b (32 * Suc i) e"
      using False by (intro used_entries_split) simp_all
    moreover have "set_disk g (buf_write (b + 16 * e) (replicate 16 0) ?d) st1 = set_disk g (buf_write (b + 16 * e) (replicate 16 0) ?d) st"
      by (simp add: st1_def)
    ultimately show ?thesis
      unfolding u unlink_loop.simps r res_bind_Inr sc b_def [symmetric] using False g by (intro exI [of _ g]) (simp add: ac_simps)
  qed
qed

section \<open>Freeing the inode and its sectors\<close>

lemma cleared_above:
  assumes "cleared lo n (map_at blk d) (map_at blk d')" "lo + n \<le> 4096 * M" "512 * (blk + M) \<le> a"
  shows "d' a = d a"
proof -
  obtain i where i: "a = 512 * blk + i" "512 * M \<le> i"
    using assms(3) by (auto simp: le_iff_add algebra_simps)
  have "map_bit (map_at blk d') (8 * i + k) = map_bit (map_at blk d) (8 * i + k)" for k
    using assms(1,2) i(2) by (auto simp: cleared_def)
  then have "map_at blk d' i = map_at blk d i"
    by (intro map_bit_byte) simp
  then show ?thesis
    by (simp add: map_at_def i(1))
qed

text \<open>The disk \<open>d\<close> after an inode number and sectors have been given back.\<close>

definition freed_disk :: "fs_state \<Rightarrow> nat \<Rightarrow> nat \<Rightarrow> nat \<Rightarrow> buffer \<Rightarrow> bool" where
  "freed_disk st nr idx n d \<longleftrightarrow>
     (\<forall>m < 4096. map_bit (map_at 2 d) m \<longleftrightarrow> map_bit (map_at 2 (fs_disk st 32)) m \<and> m \<noteq> nr) \<and>
     (\<forall>b < 4096 * unat (nr_smap_sects (super_blocks st 0)). map_bit (map_at 3 d) b \<longleftrightarrow> map_bit (map_at 3 (fs_disk st 32)) b \<and> \<not> (idx \<le> b \<and> b < idx + n))"

lemma freed_disk_low:
  assumes "freed_disk st nr idx n d" "\<And>a. a < 512 * (3 + unat (nr_smap_sects (super_blocks st 0))) \<Longrightarrow> d' a = d a"
  shows "freed_disk st nr idx n d'"
proof -
  have "map_bit (map_at 2 d') m = map_bit (map_at 2 d) m" if "m < 4096" for m
    using that by (intro map_bit_low [of 2 1] assms(2)) simp_all
  moreover have "map_bit (map_at 3 d') b = map_bit (map_at 3 d) b" if "b < 4096 * unat (nr_smap_sects (super_blocks st 0))" for b
    using that by (intro map_bit_low [of 3 "unat (nr_smap_sects (super_blocks st 0))"] assms(2)) simp_all
  ultimately show ?thesis
    using assms(1) unfolding freed_disk_def by simp
qed

lemma clear_maps:
  assumes nr: "nr < 4096" "imap_bit ROOT_DEV st (int nr)" and n: "8 \<le> n" "(idx + n) mod 8 \<noteq> 0" "idx + n \<le> 4096 * unat (nr_smap_sects (super_blocks st 0))"
    and bits: "\<And>b. idx \<le> b \<Longrightarrow> b < idx + n \<Longrightarrow> map_bit (map_at 3 (fs_disk st 32)) b"
  shows "\<exists>st1 f d. clear_imap ROOT_DEV (int nr) st = Inr st1 \<and> super_blocks st1 = super_blocks st \<and>
     clear_smap ROOT_DEV (int idx) (int n) (st1\<lparr>super_blocks := sb\<rparr>) = Inr (st\<lparr>super_blocks := sb, fsbuf := f, fs_disk := (fs_disk st)(32 := d)\<rparr>) \<and>
     freed_disk st nr idx n d \<and> (\<forall>a \<ge> 512 * (3 + unat (nr_smap_sects (super_blocks st 0))). d a = fs_disk st 32 a)"
proof -
  let ?d = "fs_disk st 32" and ?M = "unat (nr_smap_sects (super_blocks st 0))"
  obtain f1 d1 where c1: "clear_imap ROOT_DEV (int nr) st = Inr (set_disk f1 d1 st)" "cleared nr 1 (map_at 2 ?d) (map_at 2 d1)" "\<forall>a. a < 1024 \<or> 1536 \<le> a \<longrightarrow> d1 a = ?d a"
    using clear_imap_bit [OF nr(1)] nr(2) unfolding imap_bit_map by blast
  define st0 where "st0 = set_disk f1 d1 st"
  define st1 where "st1 = st0\<lparr>super_blocks := sb\<rparr>"
  have d1: "fs_disk st1 32 = d1" "map_at 3 d1 = map_at 3 ?d"
    using c1(3) by (simp_all add: st1_def st0_def map_at_def fun_eq_iff)
  have "map_bit (map_at 3 (fs_disk st1 32)) b" if "idx \<le> b" "b < idx + n" for b
    using bits [OF that] by (simp only: d1)
  from clear_smap_bits [OF n(1,2) this] obtain f d where c2: "clear_smap ROOT_DEV (int idx) (int n) st1 = Inr (set_disk f d st1)"
      "cleared idx n (map_at 3 ?d) (map_at 3 d)" "\<forall>a < 1536. d a = d1 a"
    unfolding d1 by blast
  have "map_bit (map_at 2 d) m = map_bit (map_at 2 d1) m" if "m < 4096" for m
    using c2(3) that by (intro map_bit_low [of 2 1]) simp_all
  then have "freed_disk st nr idx n d"
    using c1(2) c2(2) unfolding freed_disk_def cleared_def by auto
  moreover have "d a = ?d a" if "512 * (3 + ?M) \<le> a" for a
    by (rule cleared_above [OF c2(2) n(3) that])
  moreover have "set_disk f d st1 = st\<lparr>super_blocks := sb, fsbuf := f, fs_disk := (fs_disk st)(32 := d)\<rparr>" "super_blocks st0 = super_blocks st"
    by (simp_all add: st1_def st0_def)
  ultimately show ?thesis
    using c1(1) [folded st0_def] c2(1) [unfolded st1_def] unfolding st1_def by metis
qed

definition freed_node :: "inode \<Rightarrow> inode" where
  "freed_node x = x\<lparr>i_mode := 0, i_size := 0, i_start_sect := 0, i_nr_sects := 0, i_cnt := i_cnt x - 1\<rparr>"

text \<open>The inode of the root directory without entry \<open>e\<close>.\<close>

definition dir_without :: "nat \<Rightarrow> fs_state \<Rightarrow> inode" where
  "dir_without e st = (if Suc e = dir_len st then (root_dir st)\<lparr>i_size := of_nat (16 * used_entries (fs_disk st 32) (dir_addr st) 0 e)\<rparr> else root_dir st)"

definition file_idx :: "super_block \<Rightarrow> inode \<Rightarrow> nat" where
  "file_idx s x = unat (i_start_sect x) + 1 - unat (n_1st_sect s)"

lemma file_bits:
  assumes "unat (n_1st_sect s) \<le> unat (i_start_sect x) + 1" "unat (i_start_sect x) + unat (i_nr_sects x) < 2 ^ 30"
  shows "sint (i_start_sect x - n_1st_sect s + 1) = int (file_idx s x)" "sint (i_nr_sects x) = int (unat (i_nr_sects x))"
proof -
  have "unat (i_start_sect x + 1) = unat (i_start_sect x) + 1"
    using assms(2) by (subst unat_add_small) simp_all
  moreover have "i_start_sect x - n_1st_sect s + 1 = i_start_sect x + 1 - n_1st_sect s"
    by simp
  moreover have "n_1st_sect s \<le> i_start_sect x + 1"
    using assms(1) calculation(1) by (simp add: word_le_nat_alt)
  ultimately have u: "unat (i_start_sect x - n_1st_sect s + 1) = file_idx s x"
    by (simp only: unat_sub file_idx_def)
  then show "sint (i_start_sect x - n_1st_sect s + 1) = int (file_idx s x)"
    using sint_small [of "i_start_sect x - n_1st_sect s + 1"] assms(2) by (simp add: file_idx_def)
  show "sint (i_nr_sects x) = int (unat (i_nr_sects x))"
    using assms(2) by (intro sint_small) simp
qed

text \<open>The directory is what it was in the state \<open>st\<close>, and the maps are those of \<open>st\<close> without the file.\<close>

lemma unlink_entry:
  assumes ok: "dir_ok st" and st5: "root_inode st5 = root_inode st" "root_dir st5 = root_dir st" "super_blocks st5 0 = (super_blocks st 0)\<lparr>sb_dev := x\<rparr>" "\<forall>a \<ge> dir_addr st. fs_disk st5 32 a = fs_disk st 32 a"
    and e: "e < dir_len st" "entry_nr (fs_disk st 32) (dir_addr st) e = nr" "\<forall>y < e. entry_nr (fs_disk st 32) (dir_addr st) y \<noteq> nr"
  shows "\<exists>f. unlink_loop ROOT_DEV (sint (i_start_sect (root_dir st))) [0..<unat (i_nr_sects (root_dir st))] nr (dir_len st) 0 0 st5 =
     Inr (Suc e, 16 * used_entries (fs_disk st 32) (dir_addr st) 0 e, set_disk f (buf_write (dir_addr st + 16 * e) (replicate 16 0) (fs_disk st5 32)) st5)"
proof -
  let ?x = "root_dir st" and ?b = "dir_addr st"
  have s: "sint (i_start_sect ?x) = int (unat (i_start_sect ?x))"
    using ok by (intro sint_small) (simp add: dir_ok_def)
  have a: "512 * nat (int (unat (i_start_sect ?x))) = ?b"
    by (simp add: dir_addr_def data_addr_def)
  have en: "entry_nr (fs_disk st5 32) ?b y = entry_nr (fs_disk st 32) ?b y" for y
    unfolding entry_nr_def using st5(4) by (intro arg_cong [of _ _ sint] buf_word_cong) simp
  have "e < 32 * unat (i_nr_sects ?x)"
    using e(1) ok by (simp add: dir_ok_def)
  from unlink_loop_find [of "int (unat (i_start_sect ?x))", OF _ e(1) this, of 0 st5 nr 0] show ?thesis
    using e(2,3) unfolding s a en used_entries_def by simp
qed

lemma smap_bit_one: "nr_imap_sects (super_blocks st 0) = 1 \<Longrightarrow> smap_bit st b = map_bit (map_at 3 (fs_disk st 32)) b"
  by (simp add: smap_bit_def numeral_3_eq_3)

text \<open>\<^verbatim>\<open>sync_inode\<close> when the super block is already marked as that of the root device.\<close>

lemma sync_inode_again:
  assumes "super_blocks st 0 = s\<lparr>sb_dev := ROOT_DEV\<rparr>" "i_dev (inode_table st p) = ROOT_DEV" "layout_ok s" "inode_ok s (i_num (inode_table st p))"
  shows "\<exists>f. sync_inode p st = Inr (set_disk f (put_disk_inode s (inode_table st p) (fs_disk st 32)) st)"
proof -
  have sb: "(super_blocks st)(0 := (super_blocks st 0)\<lparr>sb_dev := ROOT_DEV\<rparr>) = super_blocks st"
    using assms(1) by auto
  have "put_disk_inode (super_blocks st 0) (inode_table st p) d = put_disk_inode s (inode_table st p) d" for d
    by (simp add: put_disk_inode_def assms(1))
  then show ?thesis
    using sync_inode_root [of st p, unfolded sb] assms by simp
qed

text \<open>
  The sectors of a file are in the map and marked there; they do not end at the end of a byte of the map, since
  the last assertion of \<^verbatim>\<open>do_unlink\<close> then tests a sector behind the file.
\<close>

definition file_held :: "fs_state \<Rightarrow> inode \<Rightarrow> bool" where
  "file_held st x \<longleftrightarrow> 8 \<le> unat (i_nr_sects x) \<and> (file_idx (super_blocks st 0) x + unat (i_nr_sects x)) mod 8 \<noteq> 0 \<and>
     file_idx (super_blocks st 0) x + unat (i_nr_sects x) \<le> 4096 * unat (nr_smap_sects (super_blocks st 0)) \<and>
     unat (n_1st_sect (super_blocks st 0)) \<le> unat (i_start_sect x) + 1 \<and> unat (i_start_sect x) + unat (i_nr_sects x) < 2 ^ 30 \<and>
     (\<forall>b. file_idx (super_blocks st 0) x \<le> b \<and> b < file_idx (super_blocks st 0) x + unat (i_nr_sects x) \<longrightarrow> smap_bit st b)"

definition no_inode :: "super_block \<Rightarrow> buffer \<Rightarrow> nat \<Rightarrow> bool" where
  "no_inode s d nr \<longleftrightarrow> (\<forall>y. disk_inode s d (int nr) y = y\<lparr>i_mode := 0, i_size := 0, i_start_sect := 0, i_nr_sects := 0\<rparr>)"

text \<open>The first half of \<^verbatim>\<open>do_unlink\<close>: the bits in the maps, the inode in the cache and on the disk.\<close>

lemma unlink_free:
  fixes st :: fs_state and nr p :: nat
  defines "s \<equiv> super_blocks st 0" and "x \<equiv> inode_table st p"
  assumes ok: "layout_ok s" "nr_imap_sects s = 1" and p: "i_dev x = ROOT_DEV" "i_num x = int nr" "i_cnt x = 1"
    and nr: "nr < 4096" "imap_bit ROOT_DEV st (int nr)" "inode_ok s (int nr)" and held: "file_held st x"
  shows "\<exists>f d. (\<forall>g. res_bind (clear_imap ROOT_DEV (int nr) st) (\<lambda>st1.
         res_bind (get_super_block ROOT_DEV st1) (\<lambda>(s, st2).
         res_bind (clear_smap ROOT_DEV (sint (i_start_sect x - n_1st_sect s + 1)) (sint (i_nr_sects x)) st2) (\<lambda>st3.
         res_bind (put_inode p (upd_inode p (\<lambda>x. x\<lparr>i_mode := 0, i_size := 0, i_start_sect := 0, i_nr_sects := 0\<rparr>) st3)) (\<lambda>st4.
         res_bind (sync_inode p st4) g)))) = g (st\<lparr>inode_table := (inode_table st)(p := freed_node x),
           super_blocks := (super_blocks st)(0 := s\<lparr>sb_dev := ROOT_DEV\<rparr>), fsbuf := f, fs_disk := (fs_disk st)(32 := d)\<rparr>)) \<and>
     freed_disk st nr (file_idx s x) (unat (i_nr_sects x)) d \<and> no_inode s d nr \<and> (\<forall>a \<ge> 512 * unat (n_1st_sect s). d a = fs_disk st 32 a)"
proof -
  let ?sb = "(super_blocks st)(0 := s\<lparr>sb_dev := ROOT_DEV\<rparr>)" and ?M = "unat (nr_smap_sects s)" and ?n = "unat (i_nr_sects x)" and ?idx = "file_idx s x"
  have n: "8 \<le> ?n" "(?idx + ?n) mod 8 \<noteq> 0" "?idx + ?n \<le> 4096 * ?M" "unat (n_1st_sect s) \<le> unat (i_start_sect x) + 1" "unat (i_start_sect x) + ?n < 2 ^ 30"
      and bits: "\<forall>b. ?idx \<le> b \<and> b < ?idx + ?n \<longrightarrow> smap_bit st b"
    using held by (simp_all add: file_held_def s_def)
  have n1: "3 + ?M \<le> unat (n_1st_sect s)"
    using ok by (simp add: layout_ok_def)
  have sm: "map_bit (map_at 3 (fs_disk st 32)) b" if "?idx \<le> b" "b < ?idx + ?n" for b
    using bits that smap_bit_one [OF ok(2) [unfolded s_def]] by simp
  obtain st1 f2 d2 where c: "clear_imap ROOT_DEV (int nr) st = Inr st1" "super_blocks st1 = super_blocks st"
      "clear_smap ROOT_DEV (int ?idx) (int ?n) (st1\<lparr>super_blocks := ?sb\<rparr>) = Inr (st\<lparr>super_blocks := ?sb, fsbuf := f2, fs_disk := (fs_disk st)(32 := d2)\<rparr>)"
      "freed_disk st nr ?idx ?n d2" "\<forall>a \<ge> 512 * (3 + ?M). d2 a = fs_disk st 32 a"
    using clear_maps [OF nr(1,2) n(1) n(2,3) [unfolded s_def] sm [unfolded s_def], of ?sb] unfolding s_def by blast
  define st4 where "st4 = st\<lparr>inode_table := (inode_table st)(p := freed_node x), super_blocks := ?sb, fsbuf := f2, fs_disk := (fs_disk st)(32 := d2)\<rparr>"
  define d3 where "d3 = put_disk_inode s (freed_node x) d2"
  have fx: "i_num (freed_node x) = int nr" "i_dev (freed_node x) = ROOT_DEV"
    using p by (simp_all add: freed_node_def)
  obtain f3 where s4: "sync_inode p st4 = Inr (st\<lparr>inode_table := (inode_table st)(p := freed_node x), super_blocks := ?sb, fsbuf := f3, fs_disk := (fs_disk st)(32 := d3)\<rparr>)"
    using sync_inode_again [of st4 s p] fx ok(1) nr(3) by (simp add: st4_def d3_def) blast
  have "put_inode p (upd_inode p (\<lambda>x. x\<lparr>i_mode := 0, i_size := 0, i_start_sect := 0, i_nr_sects := 0\<rparr>) (st\<lparr>super_blocks := ?sb, fsbuf := f2, fs_disk := (fs_disk st)(32 := d2)\<rparr>)) = Inr st4"
    using p(3) by (simp add: put_inode_def upd_inode_def st4_def freed_node_def x_def)
  note ev = c(1,2) file_bits [OF n(4,5)] c(3) this s4
  have o: "d3 a = d2 a" if "a < 512 * (3 + ?M) \<or> 512 * unat (n_1st_sect s) \<le> a" for a
    unfolding d3_def using fx nr(3) that ok(2) by (intro put_disk_inode_out ok(1)) simp_all
  have "freed_disk st nr ?idx ?n d3"
    using o by (intro freed_disk_low [OF c(4)]) (simp add: s_def)
  moreover have "no_inode s d3 nr"
    using put_disk_inode_same [of s "freed_node x" d2] unfolding no_inode_def d3_def fx by (simp add: freed_node_def)
  moreover have "\<forall>a \<ge> 512 * unat (n_1st_sect s). d3 a = fs_disk st 32 a"
    using o c(5) n1 by simp
  ultimately show ?thesis
    using ev by - (rule exI [of _ f3], rule exI [of _ d3], simp add: s_def [symmetric])
qed

text \<open>The second half: the directory entry.\<close>

lemma unlink_tail:
  fixes st :: fs_state and nr e :: nat
  defines "s \<equiv> super_blocks st 0"
  assumes ok: "dir_ok st" "nr_imap_sects s = 1" and p: "p \<noteq> root_inode st" and nr: "inode_ok s (int nr)" "i_num (root_dir st) \<noteq> int nr"
    and e: "e < dir_len st" "entry_nr (fs_disk st 32) (dir_addr st) e = int nr" "\<forall>y < e. entry_nr (fs_disk st 32) (dir_addr st) y \<noteq> int nr"
    and st5: "st5 = st\<lparr>inode_table := (inode_table st)(p := y), super_blocks := (super_blocks st)(0 := s\<lparr>sb_dev := ROOT_DEV\<rparr>), fsbuf := f, fs_disk := (fs_disk st)(32 := d3)\<rparr>"
    and d3: "freed_disk st nr idx n d3" "no_inode s d3 nr" "\<forall>a \<ge> 512 * unat (n_1st_sect s). d3 a = fs_disk st 32 a"
  shows "\<exists>f d. res_bind (unlink_loop ROOT_DEV (sint (i_start_sect (root_dir st))) [0..<unat (i_nr_sects (root_dir st))] (int nr) (dir_len st) 0 0 st5) (\<lambda>(m, dir_size, st6).
       if m = dir_len st then res_bind (sync_inode (root_inode st) (upd_inode (root_inode st) (\<lambda>x. x\<lparr>i_size := of_nat dir_size\<rparr>) st6)) (\<lambda>st7. Inr (0, st7)) else Inr (0, st6)) =
       Inr (0, st\<lparr>inode_table := (inode_table st)(p := y, root_inode st := dir_without e st),
         super_blocks := (super_blocks st)(0 := s\<lparr>sb_dev := ROOT_DEV\<rparr>), fsbuf := f, fs_disk := (fs_disk st)(32 := d)\<rparr>) \<and>
     freed_disk st nr idx n d \<and> no_inode s d nr \<and> (\<forall>a \<ge> dir_addr st. d a = buf_write (dir_addr st + 16 * e) (replicate 16 0) (fs_disk st 32) a)"
proof -
  let ?r = "root_inode st" and ?sb = "(super_blocks st)(0 := s\<lparr>sb_dev := ROOT_DEV\<rparr>)" and ?M = "unat (nr_smap_sects s)" and ?b = "dir_addr st"
  have dir: "i_dev (root_dir st) = ROOT_DEV" "layout_ok s" "inode_ok s (i_num (root_dir st))" "512 * unat (n_1st_sect s) \<le> ?b"
    using ok(1) by (simp_all add: dir_ok_def s_def dir_addr_def data_addr_def)
  have n1: "3 + ?M \<le> unat (n_1st_sect s)"
    using dir(2) ok(2) by (simp add: layout_ok_def)
  have r5: "root_inode st5 = ?r" "root_dir st5 = root_dir st" "super_blocks st5 0 = (super_blocks st 0)\<lparr>sb_dev := ROOT_DEV\<rparr>" "\<forall>a \<ge> ?b. fs_disk st5 32 a = fs_disk st 32 a"
    using p d3(3) dir(4) by (simp_all add: st5 s_def)
  define d4 where "d4 = buf_write (?b + 16 * e) (replicate 16 0) d3"
  obtain f6 where l: "unlink_loop ROOT_DEV (sint (i_start_sect (root_dir st))) [0..<unat (i_nr_sects (root_dir st))] (int nr) (dir_len st) 0 0 st5 =
     Inr (Suc e, 16 * used_entries (fs_disk st 32) ?b 0 e, set_disk f6 (buf_write (?b + 16 * e) (replicate 16 0) (fs_disk st5 32)) st5)"
    using unlink_entry [OF ok(1) r5 e] by blast
  define st6 where "st6 = st\<lparr>inode_table := (inode_table st)(p := y), super_blocks := ?sb, fsbuf := f6, fs_disk := (fs_disk st)(32 := d4)\<rparr>"
  have "set_disk f6 (buf_write (?b + 16 * e) (replicate 16 0) (fs_disk st5 32)) st5 = st6"
    by (simp add: st6_def d4_def st5)
  note l6 = l [unfolded this]
  have low: "freed_disk st nr idx n d4"
    using dir(4) n1 by (intro freed_disk_low [OF d3(1)]) (simp add: d4_def buf_simps s_def)
  have no: "no_inode s d4 nr"
    using d3(2) disk_inode_cong [OF dir(2) nr(1), of d4 d3] dir(4) unfolding no_inode_def by (simp add: d4_def buf_simps)
  have high: "\<forall>a \<ge> ?b. d4 a = buf_write (?b + 16 * e) (replicate 16 0) (fs_disk st 32) a"
    using r5(4) by (simp add: d4_def st5 buf_write_def)
  show ?thesis
  proof (cases "Suc e = dir_len st")
    case True
    define z where "z = dir_without e st"
    have z: "i_num z = i_num (root_dir st)" "i_dev z = ROOT_DEV" "z = (root_dir st)\<lparr>i_size := of_nat (16 * used_entries (fs_disk st 32) ?b 0 e)\<rparr>"
      using True dir(1) by (simp_all add: z_def dir_without_def)
    define st7 where "st7 = st\<lparr>inode_table := (inode_table st)(p := y, ?r := z), super_blocks := ?sb, fsbuf := f6, fs_disk := (fs_disk st)(32 := d4)\<rparr>"
    have up: "upd_inode ?r (\<lambda>y. y\<lparr>i_size := of_nat (16 * used_entries (fs_disk st 32) ?b 0 e)\<rparr>) st6 = st7"
      using p unfolding st6_def st7_def z(3) by (simp add: upd_inode_def)
    obtain f where sy: "sync_inode ?r st7 = Inr (st\<lparr>inode_table := (inode_table st)(p := y, ?r := z), super_blocks := ?sb, fsbuf := f, fs_disk := (fs_disk st)(32 := put_disk_inode s z d4)\<rparr>)"
      using sync_inode_again [of st7 s ?r] z(1,2) dir(2,3) by (simp add: st7_def) blast
    have o: "put_disk_inode s z d4 a = d4 a" if "a < 512 * (3 + ?M) \<or> 512 * unat (n_1st_sect s) \<le> a" for a
      using z dir(3) that ok(2) by (intro put_disk_inode_out dir(2)) simp_all
    have "freed_disk st nr idx n (put_disk_inode s z d4)"
      using o by (intro freed_disk_low [OF low]) (simp add: s_def)
    moreover have "no_inode s (put_disk_inode s z d4) nr"
      using no put_disk_inode_other [of z "int nr" s d4] z(1) dir(3) nr unfolding no_inode_def by (simp add: inode_ok_def)
    moreover have "\<forall>a \<ge> ?b. put_disk_inode s z d4 a = buf_write (?b + 16 * e) (replicate 16 0) (fs_disk st 32) a"
      using o high dir(4) by simp
    ultimately show ?thesis
      using l6 up sy True unfolding z_def by - (rule exI [of _ f], rule exI [of _ "put_disk_inode s z d4"], simp add: z_def)
  next
    case False
    then have "dir_without e st = root_dir st"
      by (simp add: dir_without_def)
    then have "(inode_table st)(p := y, ?r := dir_without e st) = (inode_table st)(p := y)"
      using p by auto
    then show ?thesis
      using l6 False low no high by - (rule exI [of _ f6], rule exI [of _ d4], simp add: st6_def)
  qed
qed

lemma unlink_node_removes:
  fixes st :: fs_state and nr e p :: nat
  defines "s \<equiv> super_blocks st 0" and "x \<equiv> inode_table st p"
  assumes ok: "dir_ok st" "nr_imap_sects s = 1" and p: "p \<noteq> root_inode st" "i_dev x = ROOT_DEV" "i_num x = int nr" "i_cnt x = 1"
    and nr: "nr < 4096" "imap_bit ROOT_DEV st (int nr)" "inode_ok s (int nr)" "i_num (root_dir st) \<noteq> int nr" and held: "file_held st x"
    and e: "e < dir_len st" "entry_nr (fs_disk st 32) (dir_addr st) e = int nr" "\<forall>y < e. entry_nr (fs_disk st 32) (dir_addr st) y \<noteq> int nr"
  shows "\<exists>f d. unlink_node (int nr) p st = Inr (0, st\<lparr>inode_table := (inode_table st)(p := freed_node x, root_inode st := dir_without e st),
      super_blocks := (super_blocks st)(0 := s\<lparr>sb_dev := ROOT_DEV\<rparr>), fsbuf := f, fs_disk := (fs_disk st)(32 := d)\<rparr>) \<and>
     freed_disk st nr (file_idx s x) (unat (i_nr_sects x)) d \<and> no_inode s d nr \<and> (\<forall>a \<ge> dir_addr st. d a = buf_write (dir_addr st + 16 * e) (replicate 16 0) (fs_disk st 32) a)"
proof -
  have dir: "i_dev (root_dir st) = ROOT_DEV" "layout_ok s" "unat (i_size (root_dir st) div 16) = dir_len st"
    using ok(1) sectors_of_dir(2) [of "i_size (root_dir st)" "dir_len st"] by (simp_all add: dir_ok_def s_def)
  obtain f d where fr: "\<And>g. res_bind (clear_imap ROOT_DEV (int nr) st) (\<lambda>st1.
         res_bind (get_super_block ROOT_DEV st1) (\<lambda>(s, st2).
         res_bind (clear_smap ROOT_DEV (sint (i_start_sect x - n_1st_sect s + 1)) (sint (i_nr_sects x)) st2) (\<lambda>st3.
         res_bind (put_inode p (upd_inode p (\<lambda>x. x\<lparr>i_mode := 0, i_size := 0, i_start_sect := 0, i_nr_sects := 0\<rparr>) st3)) (\<lambda>st4.
         res_bind (sync_inode p st4) g)))) = (g (st\<lparr>inode_table := (inode_table st)(p := freed_node x),
           super_blocks := (super_blocks st)(0 := s\<lparr>sb_dev := ROOT_DEV\<rparr>), fsbuf := f, fs_disk := (fs_disk st)(32 := d)\<rparr>) :: (int \<times> fs_state) res)"
      "freed_disk st nr (file_idx s x) (unat (i_nr_sects x)) d" "no_inode s d nr" "\<forall>a \<ge> 512 * unat (n_1st_sect s). d a = fs_disk st 32 a"
    using unlink_free [OF dir(2) [unfolded s_def] ok(2) [unfolded s_def] p(2-4) [unfolded x_def] nr(1,2) nr(3) [unfolded s_def] held [unfolded x_def]]
    unfolding s_def x_def by blast
  define st5 where "st5 = st\<lparr>inode_table := (inode_table st)(p := freed_node x), super_blocks := (super_blocks st)(0 := s\<lparr>sb_dev := ROOT_DEV\<rparr>), fsbuf := f, fs_disk := (fs_disk st)(32 := d)\<rparr>"
  have r5: "inode_table st5 (root_inode st) = root_dir st"
    using p(1) by (simp add: st5_def)
  show ?thesis
    using unlink_tail [OF ok(1) ok(2) [unfolded s_def] p(1) nr(3) [unfolded s_def] nr(4) e st5_def [unfolded s_def] fr(2) fr(3) [unfolded s_def] fr(4) [unfolded s_def]]
    unfolding unlink_node_def Let_def dir(1) x_def [symmetric] fr(1) [folded st5_def] r5 dir(3) s_def .
qed

section \<open>Lookup after removal\<close>

lemma entry_after_erase:
  fixes d d' :: buffer
  assumes D: "\<forall>i \<ge> b. d' i = buf_write (b + 16 * e) (replicate 16 0) d i"
  shows "d' (b + 16 * e + 4) = 0" "x \<noteq> e \<Longrightarrow> length name < 12 \<Longrightarrow> entry_named name d' b x = entry_named name d b x"
    "x \<noteq> e \<Longrightarrow> entry_nr d' b x = entry_nr d b x" "x \<noteq> e \<Longrightarrow> d' (b + 16 * x + 4) = d (b + 16 * x + 4)"
proof -
  show "d' (b + 16 * e + 4) = 0"
    using D by (simp add: buf_write_def)
  have o: "d' i = d i" if "x \<noteq> e" "b + 16 * x \<le> i" "i < b + 16 * x + 16" for i
  proof -
    have "i < b + 16 * e \<or> b + 16 * e + length (replicate 16 (0 :: u8)) \<le> i"
      using that by simp linarith
    then show ?thesis
      using D that(2) by (simp add: buf_write_other)
  qed
  show "entry_named name d' b x = entry_named name d b x" if "x \<noteq> e" "length name < 12"
    unfolding entry_named_def using o [OF that(1)] that(2) by (intro name_at_cong) simp
  show "entry_nr d' b x = entry_nr d b x" if "x \<noteq> e"
    unfolding entry_nr_def using o [OF that] by (intro arg_cong [of _ _ sint] buf_word_cong) simp
  show "d' (b + 16 * x + 4) = d (b + 16 * x + 4)" if "x \<noteq> e"
    using o [OF that] by simp
qed

lemma erase_tidy:
  fixes st st' :: fs_state
  assumes ok: "dir_tidy st" and st': "dir_addr st' = dir_addr st" "i_nr_sects (root_dir st') = i_nr_sects (root_dir st)"
      "dir_len st' = (if Suc e = dir_len st then e else dir_len st)" "\<forall>i \<ge> dir_addr st. fs_disk st' 32 i = buf_write (dir_addr st + 16 * e) (replicate 16 0) (fs_disk st 32) i"
    and e: "e < dir_len st"
  shows "dir_tidy st'"
  unfolding dir_tidy_def st'(1,2)
proof (intro allI impI)
  fix x assume x: "buf_word (fs_disk st' 32) (dir_addr st + 16 * x) = 0 \<or> dir_len st' \<le> x" "x < 32 * unat (i_nr_sects (root_dir st))"
  note er = entry_after_erase [OF st'(4)]
  show "fs_disk st' 32 (dir_addr st + 16 * x + 4) = 0"
  proof (cases "x = e")
    case False
    then have "buf_word (fs_disk st 32) (dir_addr st + 16 * x) = 0 \<or> dir_len st \<le> x"
      using x(1) er(3) [OF False] st'(3) e unfolding entry_nr_zero [symmetric] by (auto split: if_split_asm)
    then show ?thesis
      using dir_tidyD [OF ok _ x(2)] er(4) [OF False] by simp
  qed (simp only: er(1))
qed

text \<open>
  Removing entry \<open>e\<close>: the directory ends before it when it was the last one. The name of the entry is not found
  any more, and all others as before.
\<close>

lemma erase_lookup:
  fixes st st' :: fs_state
  assumes ok: "dir_ok st" "dir_tidy st" "dir_ok st'" and st': "dir_addr st' = dir_addr st" "i_nr_sects (root_dir st') = i_nr_sects (root_dir st)"
      "dir_len st' = (if Suc e = dir_len st then e else dir_len st)" "\<forall>i \<ge> dir_addr st. fs_disk st' 32 i = buf_write (dir_addr st + 16 * e) (replicate 16 0) (fs_disk st 32) i"
    and e: "e < dir_len st" "entry_named name (fs_disk st 32) (dir_addr st) e" "\<forall>y < dir_len st. entry_named name (fs_disk st 32) (dir_addr st) y \<longrightarrow> y = e"
    and name: "length name < 12" "name \<noteq> []" "0 \<notin> set name"
  shows "dir_tidy st'" "length name' < 12 \<Longrightarrow> name' \<noteq> [] \<Longrightarrow> 0 \<notin> set name' \<Longrightarrow>
     dir_lookup name' (fs_disk st' 32) (dir_addr st') 0 (dir_seen st') =
       (if name' = name then 0 else dir_lookup name' (fs_disk st 32) (dir_addr st) 0 (dir_seen st))"
proof -
  let ?b = "dir_addr st" and ?d = "fs_disk st 32" and ?d' = "fs_disk st' 32" and ?N = "32 * unat (i_nr_sects (root_dir st))"
  note er = entry_after_erase [OF st'(4)]
  show tidy: "dir_tidy st'"
    by (rule erase_tidy [OF ok(2) st' e(1)])
  have b: "dir_seen st \<le> ?N" "dir_seen st' \<le> ?N" "dir_len st \<le> dir_seen st" "dir_len st' \<le> dir_seen st'"
    using dir_seen_bound [OF ok(1)] dir_seen_bound [OF ok(3)] st'(2) dir_len_seen [of st] dir_len_seen [of st'] by auto
  show "dir_lookup name' ?d' (dir_addr st') 0 (dir_seen st') = (if name' = name then 0 else dir_lookup name' ?d ?b 0 (dir_seen st))"
    if n: "length name' < 12" "name' \<noteq> []" "0 \<notin> set name'"
  proof -
    have gone: "\<not> entry_named name' ?d' ?b e"
      using no_name [of ?d' ?b e name'] er(1) n(2,3) by blast
    have in_old: "x < dir_len st" if "entry_named name' ?d ?b x" "x < ?N" for x
      using tidy_named(1) [OF ok(1,2) that n(2,3)] .
    have in_new: "x < dir_len st'" if "entry_named name' ?d' ?b x" "x < ?N" for x
      using tidy_named(1) [of st' name' x] ok(3) tidy that n(2,3) st'(1,2) by simp
    show ?thesis
    proof (cases "name' = name")
      case True
      have "\<not> entry_named name ?d' ?b x" if "x < dir_seen st'" for x
      proof (cases "x = e")
        case False
        then show ?thesis
          using er(2) [OF False name(1)] e(3) in_old [of x] that b(2) unfolding True by auto
      qed (use gone True in simp)
      then have "find (entry_named name ?d' ?b) [0..<dir_seen st'] = None"
        by (simp add: find_None_iff_upt)
      then show ?thesis
        unfolding True st'(1) by (simp add: dir_lookup_def)
    next
      case False
      then have ne: "\<not> entry_named name' ?d ?b e"
        using e(2) name_at_unique [of name ?d "?b + 16 * e + 4" name'] name(3) n(3) unfolding entry_named_def by simp
      have "x < dir_seen st' \<and> entry_named name' ?d' ?b x \<longleftrightarrow> x < dir_seen st \<and> entry_named name' ?d ?b x" for x
      proof (cases "x = e")
        case False
        show ?thesis
          using er(2) [OF False n(1)] in_old [of x] in_new [of x] b False st'(3) by (auto split: if_split_asm)
      qed (use gone ne in simp)
      then have f: "find (entry_named name' ?d' ?b) [0..<dir_seen st'] = find (entry_named name' ?d ?b) [0..<dir_seen st]"
        by (rule find_upt_cong)
      show ?thesis
      proof (cases "find (entry_named name' ?d ?b) [0..<dir_seen st]")
        case (Some x)
        then have "x \<noteq> e"
          using find_in [OF Some] ne by auto
        then show ?thesis
          using f Some er(3) [of x] False by (simp add: dir_lookup_def st'(1))
      qed (use f False in \<open>simp add: dir_lookup_def st'(1)\<close>)
    qed
  qed
qed

section \<open>Unlinking a file\<close>

lemma get_inode_loads:
  assumes "find_inode (inode_table st) ROOT_DEV nr [0..<64] None = (None, Some p)" "layout_ok (super_blocks st 0)" "inode_ok (super_blocks st 0) nr"
  shows "\<exists>f. get_inode ROOT_DEV nr st = Inr (p, st\<lparr>inode_table := (inode_table st)(p := disk_inode (super_blocks st 0) (fs_disk st 32) nr
     ((inode_table st p)\<lparr>i_dev := ROOT_DEV, i_num := nr, i_cnt := 1\<rparr>)), super_blocks := (super_blocks st)(0 := (super_blocks st 0)\<lparr>sb_dev := ROOT_DEV\<rparr>), fsbuf := f\<rparr>)"
proof -
  let ?s = "super_blocks st 0" and ?d = "fs_disk st 32"
  note a = inode_addr_split [OF assms(2,3)]
  define f where "f = copy_range ?d (512 * nat (inode_sect ?s nr)) (fsbuf st) 0 512"
  have "load_inode f (nat (inode_off nr)) y = disk_inode ?s ?d nr y" for y
    unfolding f_def disk_inode_def a(1) [symmetric] by (rule load_inode_copy [OF a(2)])
  then show ?thesis
    using assms(1) a(3,4) unfolding get_inode_def by (intro exI [of _ f]) (simp add: upd_inode_def f_def)
qed

lemma used_all: "\<forall>y < e. entry_nr d b y \<noteq> 0 \<Longrightarrow> used_entries d b 0 e = e"
  by (simp add: used_entries_def filter_id_conv)

text \<open>The directory without its entry \<open>e\<close> is in order.\<close>

lemma dir_without_ok:
  assumes ok: "dir_ok st" "e < dir_len st" "Suc e = dir_len st \<longrightarrow> (\<forall>y < e. entry_nr (fs_disk st 32) (dir_addr st) y \<noteq> 0)"
    and st': "root_dir st' = dir_without e st" "super_blocks st' 0 = (super_blocks st 0)\<lparr>sb_dev := v\<rparr>"
  shows "dir_ok st'" "dir_len st' = (if Suc e = dir_len st then e else dir_len st)" "dir_addr st' = dir_addr st" "i_nr_sects (root_dir st') = i_nr_sects (root_dir st)"
proof -
  have y: "i_dev (dir_without e st) = i_dev (root_dir st)" "i_num (dir_without e st) = i_num (root_dir st)" "i_start_sect (dir_without e st) = i_start_sect (root_dir st)"
      "i_nr_sects (dir_without e st) = i_nr_sects (root_dir st)"
    by (simp_all add: dir_without_def)
  have b: "dir_len st < 2 ^ 26"
    using ok(1) by (simp add: dir_ok_def)
  have "unat (i_size (dir_without e st)) = 16 * (if Suc e = dir_len st then e else dir_len st)"
  proof (cases "Suc e = dir_len st")
    case True
    then have "16 * e < 2 ^ 32"
      using b by simp
    moreover have "unat (of_nat k :: u32) = k" if "k < 2 ^ 32" for k
      using that by (simp add: unsigned_of_nat take_bit_nat_eq_self)
    ultimately have "unat (of_nat (16 * e) :: u32) = 16 * e"
      by blast
    then show ?thesis
      using True ok(3) by (simp add: dir_without_def used_all)
  next
    case False
    then show ?thesis
      using ok(1) by (simp add: dir_without_def dir_ok_def)
  qed
  then have sz: "unat (i_size (dir_without e st)) = 16 * (if Suc e = dir_len st then e else dir_len st)" .
  show len: "dir_len st' = (if Suc e = dir_len st then e else dir_len st)"
    unfolding dir_len_def [of st'] st' sz by simp
  show "dir_addr st' = dir_addr st" "i_nr_sects (root_dir st') = i_nr_sects (root_dir st)"
    by (simp_all add: dir_addr_def data_addr_def st'(1) y)
  show "dir_ok st'"
    using ok(1,2) unfolding dir_ok_def len st' sz y by auto
qed

lemma unlink_ready:
  assumes ready: "fs_ready st" and gone: "freed_disk st nr idx n d" "nr < 4096" "0 < nr" "nr_imap_sects (super_blocks st 0) = 1"
    and other: "\<forall>q < 64. i_cnt (inode_table st q) \<noteq> 0 \<longrightarrow> i_num (inode_table st q) \<noteq> int nr"
    and p: "p \<noteq> root_inode st" "i_cnt y = 0"
    and st'_def: "st' = st\<lparr>inode_table := (inode_table st)(p := y, root_inode st := dir_without e st),
       super_blocks := (super_blocks st)(0 := (super_blocks st 0)\<lparr>sb_dev := ROOT_DEV\<rparr>), fsbuf := f, fs_disk := (fs_disk st)(32 := d)\<rparr>"
    and dir: "dir_ok st'" "dir_tidy st'"
  shows "fs_ready st'"
proof -
  have im: "imap_bit ROOT_DEV st' (int m) \<longleftrightarrow> imap_bit ROOT_DEV st (int m) \<and> m \<noteq> nr" if "m < 4096" for m
    using gone(1) that unfolding imap_bit_map by (simp add: freed_disk_def st'_def)
  have y: "i_dev (dir_without e st) = i_dev (root_dir st)" "i_num (dir_without e st) = i_num (root_dir st)" "i_cnt (dir_without e st) = i_cnt (root_dir st)"
      "i_nr_sects (dir_without e st) = i_nr_sects (root_dir st)"
    by (simp_all add: dir_without_def)
  have live: "i_dev (inode_table st' m) = ROOT_DEV \<and> 0 < i_num (inode_table st' m) \<and> i_num (inode_table st' m) < 4096 \<and>
      imap_bit ROOT_DEV st' (i_num (inode_table st' m))" if m: "m < 64" "i_cnt (inode_table st' m) \<noteq> 0" for m
  proof -
    have same: "i_dev (inode_table st' m) = i_dev (inode_table st m)" "i_num (inode_table st' m) = i_num (inode_table st m)" "i_cnt (inode_table st m) \<noteq> 0"
      using y m(2) p by (auto simp: st'_def split: if_split_asm)
    then have o: "i_dev (inode_table st m) = ROOT_DEV" "0 < i_num (inode_table st m)" "i_num (inode_table st m) < 4096" "imap_bit ROOT_DEV st (i_num (inode_table st m))"
      using ready m(1) gone(4) unfolding fs_ready_def imap_ok_def by (metis mult.right_neutral of_nat_1 unsigned_1)+
    then have "imap_bit ROOT_DEV st' (i_num (inode_table st m))"
      using im [of "nat (i_num (inode_table st m))"] other m(1) same(3) by (simp add: nat_less_iff nat_eq_iff)
    then show ?thesis
      using o same by simp
  qed
  have "imap_bit ROOT_DEV st' 0"
    using im [of 0] ready gone(3) by (simp add: fs_ready_def)
  moreover have "imap_ok st'"
    using live unfolding imap_ok_def by metis
  moreover have "super_blocks st' 0 = (super_blocks st 0)\<lparr>sb_dev := ROOT_DEV\<rparr>"
    by (simp add: st'_def)
  ultimately show ?thesis
    using ready dir live y gone(4) unfolding fs_ready_def by (simp add: st'_def)
qed

text \<open>Entry \<open>e\<close> has the name and the inode number, and no other entry has one of them.\<close>

definition sole_entry :: "fs_state \<Rightarrow> u8 list \<Rightarrow> nat \<Rightarrow> nat \<Rightarrow> bool" where
  "sole_entry st name nr e \<longleftrightarrow> e < dir_len st \<and> entry_named name (fs_disk st 32) (dir_addr st) e \<and> entry_nr (fs_disk st 32) (dir_addr st) e = int nr \<and>
     (\<forall>y < dir_len st. entry_named name (fs_disk st 32) (dir_addr st) y \<or> entry_nr (fs_disk st 32) (dir_addr st) y = int nr \<longrightarrow> y = e)"

lemma sole_entry_lookup:
  assumes "sole_entry st name nr e"
  shows "dir_lookup name (fs_disk st 32) (dir_addr st) 0 (dir_seen st) = int nr"
proof -
  have e: "e < dir_len st" "entry_named name (fs_disk st 32) (dir_addr st) e" "entry_nr (fs_disk st 32) (dir_addr st) e = int nr"
    using assms by (simp_all add: sole_entry_def)
  have "\<not> entry_named name (fs_disk st 32) (dir_addr st) y" if "y < e" for y
    using assms that unfolding sole_entry_def by (metis less_trans nat_neq_iff)
  then have "find (entry_named name (fs_disk st 32) (dir_addr st)) [0..<dir_seen st] = Some e"
    using e dir_len_seen [of st] by (simp add: find_Some_upt)
  then show ?thesis
    using e(3) by (simp add: dir_lookup_def)
qed

text \<open>The inode with number \<open>nr\<close> on the disk.\<close>

definition file_on_disk :: "fs_state \<Rightarrow> nat \<Rightarrow> inode" where
  "file_on_disk st nr = disk_inode (super_blocks st 0) (fs_disk st 32) (int nr) zero_inode"

lemma unlink_loaded:
  fixes st :: fs_state and nr e p :: nat
  defines "x \<equiv> file_on_disk st nr"
  assumes ready: "fs_ready st" "nr_imap_sects (super_blocks st 0) = 1" and nr: "0 < nr" "nr < 4096" "imap_bit ROOT_DEV st (int nr)" "i_num (root_dir st) \<noteq> int nr"
    and held: "file_held st x" and e: "sole_entry st name nr e" and p: "p \<noteq> root_inode st"
    and st2: "st2 = st\<lparr>inode_table := (inode_table st)(p := disk_inode (super_blocks st 0) (fs_disk st 32) (int nr) (y\<lparr>i_dev := ROOT_DEV, i_num := int nr, i_cnt := 1\<rparr>)),
       super_blocks := (super_blocks st)(0 := (super_blocks st 0)\<lparr>sb_dev := ROOT_DEV\<rparr>), fsbuf := f\<rparr>"
  shows "\<exists>z f d. i_cnt z = 0 \<and> unlink_node (int nr) p st2 = Inr (0, st\<lparr>inode_table := (inode_table st)(p := z, root_inode st := dir_without e st),
      super_blocks := (super_blocks st)(0 := (super_blocks st 0)\<lparr>sb_dev := ROOT_DEV\<rparr>), fsbuf := f, fs_disk := (fs_disk st)(32 := d)\<rparr>) \<and>
     freed_disk st nr (file_idx (super_blocks st 0) x) (unat (i_nr_sects x)) d \<and> no_inode (super_blocks st 0) d nr \<and>
     (\<forall>a \<ge> dir_addr st. d a = buf_write (dir_addr st + 16 * e) (replicate 16 0) (fs_disk st 32) a)"
proof -
  let ?s = "super_blocks st 0"
  define X where "X = inode_table st2 p"
  have X: "i_dev X = ROOT_DEV" "i_num X = int nr" "i_cnt X = 1" "i_start_sect X = i_start_sect x" "i_nr_sects X = i_nr_sects x"
    by (simp_all add: X_def st2 x_def file_on_disk_def disk_inode_def load_inode_def)
  have r2: "root_dir st2 = root_dir st" "super_blocks st2 0 = ?s\<lparr>sb_dev := ROOT_DEV\<rparr>" "\<forall>a \<ge> dir_addr st. fs_disk st2 32 a = fs_disk st 32 a"
    and same: "root_inode st2 = root_inode st" "fs_disk st2 = fs_disk st"
    using p by (simp_all add: st2)
  note fr = dir_frame [OF r2]
  have sm: "smap_bit st2 = smap_bit st" "imap_bit ROOT_DEV st2 = imap_bit ROOT_DEV st"
    by (auto simp: smap_bit_def imap_bit_def st2 fun_eq_iff)
  have idx: "file_idx (?s\<lparr>sb_dev := ROOT_DEV\<rparr>) X = file_idx ?s x"
    by (simp add: file_idx_def X)
  have "file_held st2 X"
    using held unfolding file_held_def r2(2) idx X sm by simp
  moreover have "inode_ok ?s (int nr)"
    using ready nr(1,2) by (simp add: fs_ready_def inode_ok_def)
  moreover have "e < dir_len st" "entry_nr (fs_disk st 32) (dir_addr st) e = int nr" "\<forall>y < e. entry_nr (fs_disk st 32) (dir_addr st) y \<noteq> int nr"
    using e unfolding sole_entry_def by (simp, simp, metis less_trans nat_neq_iff)
  ultimately have "\<exists>f d. unlink_node (int nr) p st2 = Inr (0, st2\<lparr>inode_table := (inode_table st2)(p := freed_node X, root_inode st2 := dir_without e st2),
      super_blocks := (super_blocks st2)(0 := (super_blocks st2 0)\<lparr>sb_dev := ROOT_DEV\<rparr>), fsbuf := f, fs_disk := (fs_disk st2)(32 := d)\<rparr>) \<and>
     freed_disk st2 nr (file_idx (super_blocks st2 0) X) (unat (i_nr_sects X)) d \<and> no_inode (super_blocks st2 0) d nr \<and>
     (\<forall>a \<ge> dir_addr st2. d a = buf_write (dir_addr st2 + 16 * e) (replicate 16 0) (fs_disk st2 32) a)"
    using ready nr p X unfolding X_def by (intro unlink_node_removes) (simp_all add: fr same r2(2) r2(1) [unfolded same(1)] sm fs_ready_def)
  then obtain f d where u: "unlink_node (int nr) p st2 = Inr (0, st2\<lparr>inode_table := (inode_table st2)(p := freed_node X, root_inode st := dir_without e st2),
      super_blocks := (super_blocks st2)(0 := (super_blocks st2 0)\<lparr>sb_dev := ROOT_DEV\<rparr>), fsbuf := f, fs_disk := (fs_disk st)(32 := d)\<rparr>)"
      "freed_disk st2 nr (file_idx ?s x) (unat (i_nr_sects x)) d" "no_inode (?s\<lparr>sb_dev := ROOT_DEV\<rparr>) d nr"
      "\<forall>a \<ge> dir_addr st. d a = buf_write (dir_addr st + 16 * e) (replicate 16 0) (fs_disk st 32) a"
    unfolding fr same r2(2) idx X(5) by blast
  have w: "dir_without e st2 = dir_without e st"
    unfolding dir_without_def fr same r2(1) [unfolded same(1)] by simp
  have "st2\<lparr>inode_table := (inode_table st2)(p := freed_node X, root_inode st := dir_without e st2),
      super_blocks := (super_blocks st2)(0 := (super_blocks st2 0)\<lparr>sb_dev := ROOT_DEV\<rparr>), fsbuf := f, fs_disk := (fs_disk st)(32 := d)\<rparr> =
    st\<lparr>inode_table := (inode_table st)(p := freed_node X, root_inode st := dir_without e st),
      super_blocks := (super_blocks st)(0 := ?s\<lparr>sb_dev := ROOT_DEV\<rparr>), fsbuf := f, fs_disk := (fs_disk st)(32 := d)\<rparr>"
    unfolding w by (simp add: st2)
  moreover have "freed_disk st nr (file_idx ?s x) (unat (i_nr_sects x)) d"
    using u(2) unfolding freed_disk_def same r2(2) by simp
  moreover have "no_inode ?s d nr"
    using u(3) by (simp add: no_inode_def disk_inode_def)
  moreover have "i_cnt (freed_node X) = 0"
    by (simp add: freed_node_def X)
  ultimately show ?thesis
    using u(1,4) by metis
qed

text \<open>
  C34. Unlinking a file removes it. In a file system in order, \<^verbatim>\<open>do_unlink\<close> of a regular file that is not open, whose
  name and number are those of one entry of the root directory and whose sectors are marked in the sector map,
  returns 0; then exactly its number and its sectors are free again in the maps, its inode on the disk is
  cleared, a search for its name finds nothing and a search for any other name what it found before, and the
  file system is in order. The sectors must not end at the end of a byte of the map, and there must be no hole
  before the entry when it is the last one.
\<close>
theorem unlink_removes:
  assumes "fs_ready st" "nr_imap_sects (super_blocks st 0) = 1"
    "fetch_path pid (PATHNAME msg) (NAME_LEN msg) st = Inr path" "strip_path MAX_FILENAME_LEN path = Inr (Some name)" "name \<noteq> []"
    "sole_entry st name nr e" "Suc e = dir_len st \<longrightarrow> (\<forall>y < e. entry_nr (fs_disk st 32) (dir_addr st) y \<noteq> 0)"
    "\<forall>q < 64. i_cnt (inode_table st q) \<noteq> 0 \<longrightarrow> i_num (inode_table st q) \<noteq> int nr" "q < 64" "i_cnt (inode_table st q) = 0"
    "0 < nr" "nr < 4096" "imap_bit ROOT_DEV st (int nr)" "i_mode (file_on_disk st nr) = I_REGULAR" "file_held st (file_on_disk st nr)"
  defines "idx \<equiv> file_idx (super_blocks st 0) (file_on_disk st nr)" and "n \<equiv> unat (i_nr_sects (file_on_disk st nr))"
  shows "\<exists>st'. do_unlink pid msg st = Inr (0, st') \<and>
     (\<forall>m < 4096. imap_bit ROOT_DEV st' (int m) \<longleftrightarrow> imap_bit ROOT_DEV st (int m) \<and> m \<noteq> nr) \<and>
     (\<forall>b < 4096 * unat (nr_smap_sects (super_blocks st 0)). smap_bit st' b \<longleftrightarrow> smap_bit st b \<and> \<not> (idx \<le> b \<and> b < idx + n)) \<and>
     file_on_disk st' nr = zero_inode \<and> (\<exists>st1. search_file path st' = Inr (0, st1)) \<and>
     (\<forall>path' name' r st1. strip_path MAX_FILENAME_LEN path' = Inr (Some name') \<longrightarrow> name' \<noteq> [] \<longrightarrow> name' \<noteq> name \<longrightarrow> 0 \<notin> set path' \<longrightarrow>
        search_file path' st = Inr (r, st1) \<longrightarrow> (\<exists>st2. search_file path' st' = Inr (r, st2))) \<and> fs_ready st'"
proof -
  let ?s = "super_blocks st 0"
  have dok: "dir_ok st" "dir_tidy st" "layout_ok ?s" "i_dev (root_dir st) = ROOT_DEV" "i_cnt (root_dir st) \<noteq> 0" "inode_ok ?s (int nr)"
    using assms(1,2,11,12) by (simp_all add: fs_ready_def dir_ok_def inode_ok_def)
  have r: "i_num (root_dir st) \<noteq> int nr"
    using assms(1,8) by (simp add: fs_ready_def)
  obtain f1 where sf: "search_file path st = Inr (int nr, st\<lparr>fsbuf := f1\<rparr>)"
    using search_file_lookup [OF dok(1) assms(4,5)] sole_entry_lookup [OF assms(6)] by auto
  obtain p where p: "find_inode (inode_table st) ROOT_DEV (int nr) [0..<64] None = (None, Some p)" "p < 64" "i_cnt (inode_table st p) = 0"
    using find_inode_free [of "[0..<64]" "inode_table st" ROOT_DEV "int nr" q] assms(8-10) by auto
  have pr: "p \<noteq> root_inode st"
    using p(3) dok(5) by auto
  define st2 where "st2 f = st\<lparr>inode_table := (inode_table st)(p := disk_inode ?s (fs_disk st 32) (int nr) ((inode_table st p)\<lparr>i_dev := ROOT_DEV, i_num := int nr, i_cnt := 1\<rparr>)),
       super_blocks := (super_blocks st)(0 := ?s\<lparr>sb_dev := ROOT_DEV\<rparr>), fsbuf := f\<rparr>" for f
  obtain f2 where g: "get_inode ROOT_DEV (int nr) (st\<lparr>fsbuf := f1\<rparr>) = Inr (p, st2 f2)"
    using get_inode_loads [of "st\<lparr>fsbuf := f1\<rparr>" "int nr" p] p(1) dok(3,6) by (auto simp: st2_def)
  obtain z f d st' where u: "i_cnt z = 0" "unlink_node (int nr) p (st2 f2) = Inr (0, st')" "freed_disk st nr idx n d" "no_inode ?s d nr"
      "\<forall>a \<ge> dir_addr st. d a = buf_write (dir_addr st + 16 * e) (replicate 16 0) (fs_disk st 32) a"
      and st': "st' = st\<lparr>inode_table := (inode_table st)(p := z, root_inode st := dir_without e st),
         super_blocks := (super_blocks st)(0 := ?s\<lparr>sb_dev := ROOT_DEV\<rparr>), fsbuf := f, fs_disk := (fs_disk st)(32 := d)\<rparr>"
    using unlink_loaded [OF assms(1,2,11-13) r assms(15,6) pr st2_def] unfolding idx_def n_def by blast
  have "path \<noteq> [0x2F]" "strip_path MAX_PATH path = Inr (Some name)" "NAME_LEN msg < int MAX_PATH"
    using assms(3-5) by (auto simp: strip_path_def fetch_path_def split: option.split_asm if_split_asm)
  then have un: "do_unlink pid msg st = Inr (0, st')"
    using assms(3,11,14) sf g u(2) dok(4) by (simp add: do_unlink_def st2_def file_on_disk_def disk_inode_def load_inode_def)
  have fields: "root_dir st' = dir_without e st" "super_blocks st' 0 = ?s\<lparr>sb_dev := ROOT_DEV\<rparr>" "fs_disk st' 32 = d"
    by (simp_all add: st')
  have el: "e < dir_len st" "entry_named name (fs_disk st 32) (dir_addr st) e" "\<forall>y < dir_len st. entry_named name (fs_disk st 32) (dir_addr st) y \<longrightarrow> y = e"
    using assms(6) by (auto simp: sole_entry_def)
  note w = dir_without_ok [OF dok(1) el(1) assms(7) fields(1,2)]
  have nz: "length name < 12" "0 \<notin> set name"
    using strip_path_length [OF assms(4)] strip_path_set [OF assms(4)] fetch_path_nonzero [OF assms(3)] by auto
  note er = erase_lookup [OF dok(1,2) w(1) w(3,4,2) u(5) [folded fields(3)] el nz(1) assms(5) nz(2)]
  have rd: "fs_ready st'"
    using unlink_ready [OF assms(1) u(3) assms(12,11,2,8) pr u(1) st' w(1) er(1)] .
  have sf': "\<exists>st1. search_file path' st' = Inr (if name' = name then 0 else dir_lookup name' (fs_disk st 32) (dir_addr st) 0 (dir_seen st), st1)"
    if "strip_path MAX_FILENAME_LEN path' = Inr (Some name')" "name' \<noteq> []" "0 \<notin> set path'" for path' name'
  proof -
    have "length name' < 12" "0 \<notin> set name'"
      using strip_path_length [OF that(1)] strip_path_set [OF that(1)] that(3) by auto
    then show ?thesis
      using search_file_lookup [OF w(1) that(1,2)] er(2) [of name'] that(2) by auto
  qed
  have "\<exists>st2. search_file path' st' = Inr (r, st2)"
    if "strip_path MAX_FILENAME_LEN path' = Inr (Some name')" "name' \<noteq> []" "name' \<noteq> name" "0 \<notin> set path'" "search_file path' st = Inr (r, st1)" for path' name' r st1
    using sf' [OF that(1,2,4)] search_file_lookup [OF dok(1) that(1,2)] that(3,5) by auto
  moreover have "\<forall>m < 4096. imap_bit ROOT_DEV st' (int m) \<longleftrightarrow> imap_bit ROOT_DEV st (int m) \<and> m \<noteq> nr"
    using u(3) unfolding imap_bit_map fields(3) freed_disk_def by blast
  moreover have "\<forall>b < 4096 * unat (nr_smap_sects ?s). smap_bit st' b \<longleftrightarrow> smap_bit st b \<and> \<not> (idx \<le> b \<and> b < idx + n)"
    using u(3) assms(2) by (simp add: smap_bit_one fields freed_disk_def)
  moreover have "file_on_disk st' nr = zero_inode"
    using u(4) unfolding file_on_disk_def fields by (simp add: no_inode_def disk_inode_def zero_inode_def)
  ultimately show ?thesis
    using un rd sf' [OF assms(4,5) fetch_path_nonzero [OF assms(3)]] by auto
qed

section \<open>The first file unlinked\<close>

lemma fresh_archive:
  assumes "fresh_fs N s d0 st"
  shows "sole_entry st (c_bytes ''cmd.tar'') 5 4" "y < 4 \<Longrightarrow> entry_nr (fs_disk st 32) (dir_addr st) y \<noteq> 0"
proof -
  note d = fresh_dir [OF assms]
  have h: "holds_sector root_sector (fs_disk st 32) (dir_addr st) 0"
    using assms unfolding holds_sector_def fresh_fs_def new_disk_def d by simp
  have n: "length (c_bytes ''cmd.tar'') < 12" "0 \<notin> set (c_bytes ''cmd.tar'')"
    by (simp_all add: c_bytes_def)
  have e: "entry_named (c_bytes ''cmd.tar'') (fs_disk st 32) (dir_addr st) j \<longleftrightarrow> name_at (c_bytes ''cmd.tar'') root_sector (16 * j + 4)"
      "entry_nr (fs_disk st 32) (dir_addr st) j = sint (buf_word root_sector (16 * j))" if "j < 32" for j
    using sector_name [OF h n(1) that] by simp_all
  have five: "j = 0 \<or> j = 1 \<or> j = 2 \<or> j = 3 \<or> j = 4" if "j < 5" for j :: nat
    using that by linarith
  have o: "\<not> name_at (c_bytes ''cmd.tar'') root_sector 4" "\<not> name_at (c_bytes ''cmd.tar'') root_sector 20" "\<not> name_at (c_bytes ''cmd.tar'') root_sector 36"
      "\<not> name_at (c_bytes ''cmd.tar'') root_sector 52"
    using name_at_unique [OF root_sector_names(1) _ n(2)] name_at_unique [OF root_sector_names(2) _ n(2)] name_at_unique [OF root_sector_names(3) _ n(2)]
      name_at_unique [OF root_sector_names(4) _ n(2)] by (simp_all add: c_bytes_def)
  show "sole_entry st (c_bytes ''cmd.tar'') 5 4"
    unfolding sole_entry_def d(2)
  proof (intro conjI allI impI)
    show "entry_named (c_bytes ''cmd.tar'') (fs_disk st 32) (dir_addr st) 4" "entry_nr (fs_disk st 32) (dir_addr st) 4 = int 5"
      using e(1) [of 4] e(2) [of 4] root_sector_names(5) root_sector_numbers(5) by simp_all
    fix y assume y: "y < (5 :: nat)" "entry_named (c_bytes ''cmd.tar'') (fs_disk st 32) (dir_addr st) y \<or> entry_nr (fs_disk st 32) (dir_addr st) y = int 5"
    then have "name_at (c_bytes ''cmd.tar'') root_sector (16 * y + 4) \<or> sint (buf_word root_sector (16 * y)) = 5"
      using e [of y] by simp
    then show "y = 4"
      using five [OF y(1)] o root_sector_numbers by auto
  qed simp
  show "entry_nr (fs_disk st 32) (dir_addr st) y \<noteq> 0" if "y < 4"
    using five [of y] e(2) [of y] that root_sector_numbers by auto
qed

definition archive_mem :: "u32 \<Rightarrow> u8" where
  "archive_mem = (\<lambda>_. 0)(0x5000 := 0x2F, 0x5001 := 0x63, 0x5002 := 0x6D, 0x5003 := 0x64, 0x5004 := 0x2E, 0x5005 := 0x74, 0x5006 := 0x61, 0x5007 := 0x72)"

definition unlink_msg :: MESSAGE where
  "unlink_msg = reset_msg\<lparr>source := 8, mtype := UNLINK, m3i1 := 0, m3i2 := 8, m3p1 := 0x5000\<rparr>"

theorem unlink_removes_witness:
  "\<exists>st st' st1. init_fs \<lparr>pbase = 0, psize = 40000\<rparr> reset_msg (fs5\<lparr>fs_mem := archive_mem\<rparr>) = Inr st \<and> do_unlink 8 unlink_msg st = Inr (0, st') \<and> fs_ready st' \<and>
     search_file (c_bytes ''/cmd.tar'') st' = Inr (0, st1) \<and> smap_bit st 0x7F00 \<and> \<not> smap_bit st' 0x7F00 \<and> imap_bit ROOT_DEV st 5 \<and> \<not> imap_bit ROOT_DEV st' 5"
proof -
  obtain st where i: "init_fs \<lparr>pbase = 0, psize = 40000\<rparr> reset_msg (fs5\<lparr>fs_mem := archive_mem\<rparr>) = Inr st" "fs_ready st"
    and st: "fs_procs st = (\<lambda>_. zero_process)" "fs_mem st = archive_mem" "root_inode st = 0" "\<forall>i < 64. 0 < i \<longrightarrow> inode_table st i = zero_inode"
    and fr: "fresh_fs 10 (new_super_block \<lparr>pbase = 0, psize = 40000\<rparr> (fs_sb fs5)) (\<lambda>_. 0) st"
    using blank_fresh [of archive_mem] by blast
  have sb: "nr_imap_sects (super_blocks st 0) = 1" "unat (nr_smap_sects (super_blocks st 0)) = 10" "unat (n_1st_sect (super_blocks st 0)) = 269" and r: "root_dir st = new_root 269"
    using fr by (simp_all add: fresh_fs_def)
  have pa: "fetch_path 8 (PATHNAME unlink_msg) (NAME_LEN unlink_msg) st = Inr (c_bytes ''/cmd.tar'')"
    by (simp add: fetch_path_def unlink_msg_def st va2la_def zero_process_def ldt_seg_linear_def descriptor_base_def zero_descriptor_def mem_bytes_def archive_mem_def c_bytes_def upt_rec)
  have sp: "strip_path MAX_FILENAME_LEN (c_bytes ''/cmd.tar'') = Inr (Some (c_bytes ''cmd.tar''))" "c_bytes ''cmd.tar'' \<noteq> []"
    by (simp_all add: strip_path_def c_bytes_def)
  have holes: "Suc 4 = dir_len st \<longrightarrow> (\<forall>y < 4. entry_nr (fs_disk st 32) (dir_addr st) y \<noteq> 0)"
    using fresh_archive(2) [OF fr] by blast
  have "i_num (inode_table st q) \<noteq> int 5" if "q < 64" "i_cnt (inode_table st q) \<noteq> 0" for q
    using st(3,4) r that by (cases "q = 0") (simp_all add: new_root_def zero_inode_def)
  then have cached: "\<forall>q < 64. i_cnt (inode_table st q) \<noteq> 0 \<longrightarrow> i_num (inode_table st q) \<noteq> int 5"
    by blast
  have slot: "(1 :: nat) < 64" "i_cnt (inode_table st 1) = 0" "0 < (5 :: nat)" "5 < (4096 :: nat)"
    using st(4) by (simp_all add: zero_inode_def)
  have bit: "imap_bit ROOT_DEV st (int 5)"
    using fresh_imap [OF fr, of 5] by simp
  have x: "file_on_disk st 5 = zero_inode\<lparr>i_mode := I_REGULAR, i_size := 0x100000, i_start_sect := INSTALL_START_SECT, i_nr_sects := INSTALL_NR_SECTS\<rparr>"
    using fresh_inode(3) [OF fr] by (simp add: file_on_disk_def)
  have idx: "file_idx (super_blocks st 0) (file_on_disk st 5) = 0x8001 - 269" "unat (i_nr_sects (file_on_disk st 5)) = 2048"
    by (simp_all add: file_idx_def x sb)
  have reg: "i_mode (file_on_disk st 5) = I_REGULAR"
    by (simp add: x)
  have "smap_bit st b" if "0x8001 - 269 \<le> b" "b < 0x8001 - 269 + 2048" for b
    using fresh_smap [OF fr, of b] that by simp
  then have held: "file_held st (file_on_disk st 5)"
    unfolding file_held_def idx by (simp add: x sb)
  from unlink_removes [OF i(2) sb(1) pa sp fresh_archive(1) [OF fr] holes cached slot(1-4) bit reg held] obtain st' st1 where
      u: "do_unlink 8 unlink_msg st = Inr (0, st')" "\<forall>m < 4096. imap_bit ROOT_DEV st' (int m) \<longleftrightarrow> imap_bit ROOT_DEV st (int m) \<and> m \<noteq> 5"
        "\<forall>b < 4096 * 10. smap_bit st' b \<longleftrightarrow> smap_bit st b \<and> \<not> (0x8001 - 269 \<le> b \<and> b < 0x8001 - 269 + 2048)" "search_file (c_bytes ''/cmd.tar'') st' = Inr (0, st1)" "fs_ready st'"
    unfolding idx sb by (elim exE conjE) (rule that, assumption+)
  have "smap_bit st 0x7F00"
    using fresh_smap [OF fr, of "0x7F00"] by simp
  then show ?thesis
    using i(1) u(1,4,5) u(2) [rule_format, of 5] u(3) [rule_format, of "0x7F00"] bit by auto
qed

end
