(* ===== verification/Syscalls.thy ===== *)
theory Syscalls
  imports Lib Exec Fs_Ops
begin

text \<open>
  The user's side of the system: the library functions that turn a C call into a message
  (\<^verbatim>\<open>lib/open.c\<close>, \<^verbatim>\<open>lib/read.c\<close>, \<^verbatim>\<open>lib/fork.c\<close> and so on, \<^verbatim>\<open>send_rec\<close> of \<^verbatim>\<open>lib/misc.c\<close>), \<^verbatim>\<open>printf\<close>, and the
  programs of \<^verbatim>\<open>kernel/main.c\<close> that use them: \<^verbatim>\<open>Init\<close>, the shell and \<^verbatim>\<open>untar\<close>.

  A process sees the rest of the system, whose state is \<open>'w\<close>, through its environment: the system call
  \<^verbatim>\<open>sendrec\<close>, its memory (bytes at an address, storing bytes, the zero-terminated string at an address), the
  addresses of the string literals of its program, and the unspecified contents of a fresh message.
\<close>

type_synonym 'w sendrec = "int \<Rightarrow> int \<Rightarrow> MESSAGE \<Rightarrow> 'w \<Rightarrow> (int \<times> MESSAGE \<times> 'w) res"

record 'w user_env =
  u_sendrec :: "'w sendrec"
  u_peek :: "u32 \<Rightarrow> nat \<Rightarrow> 'w \<Rightarrow> u8 list"
  u_poke :: "u32 \<Rightarrow> u8 list \<Rightarrow> 'w \<Rightarrow> 'w"
  u_str :: "u32 \<Rightarrow> 'w \<Rightarrow> u8 list"
  u_lit :: "string \<Rightarrow> u32"
  u_junk :: MESSAGE

section \<open>Messages\<close>

definition send_rec :: "'w user_env \<Rightarrow> int \<Rightarrow> int \<Rightarrow> MESSAGE \<Rightarrow> 'w \<Rightarrow> (int \<times> MESSAGE \<times> 'w) res" where
  "send_rec e function src_dest m w =
     (let m1 = (if function = RECEIVE then reset_msg else m)
      in if function = BOTH then
           res_bind (u_sendrec e SEND src_dest m1 w) (\<lambda>(ret, m2, w1).
           if ret = 0 then u_sendrec e RECEIVE src_dest m2 w1 else Inr (ret, m2, w1))
         else if function = RECEIVE \<or> function = SEND then u_sendrec e function src_dest m1 w
         else Inl (AssertFail ''function''))"

definition request :: "'w user_env \<Rightarrow> int \<Rightarrow> MESSAGE \<Rightarrow> 'w \<Rightarrow> (MESSAGE \<times> 'w) res" where
  "request e dst m w = res_bind (send_rec e BOTH dst m w) (\<lambda>(_, m1, w1). Inr (m1, w1))"

definition request_ret :: "'w user_env \<Rightarrow> int \<Rightarrow> MESSAGE \<Rightarrow> 'w \<Rightarrow> (MESSAGE \<times> 'w) res" where
  "request_ret e dst m w =
     res_bind (request e dst m w) (\<lambda>(m1, w1).
     res_bind (assert_c (mtype m1 = SYSCALL_RET) ''msg.type == SYSCALL_RET'') (\<lambda>_. Inr (m1, w1)))"

section \<open>Files\<close>

definition open_c :: "'w user_env \<Rightarrow> u32 \<Rightarrow> int \<Rightarrow> 'w \<Rightarrow> (int \<times> 'w) res" where
  "open_c e pathname flags w =
     res_bind (request_ret e TASK_FS ((u_junk e)\<lparr>mtype := OPEN, m3p1 := pathname, m3i1 := flags, m3i2 := int (length (u_str e pathname w))\<rparr>) w)
       (\<lambda>(m, w1). Inr (FD m, w1))"

definition close_c :: "'w user_env \<Rightarrow> int \<Rightarrow> 'w \<Rightarrow> (int \<times> 'w) res" where
  "close_c e fd w = res_bind (request e TASK_FS ((u_junk e)\<lparr>mtype := CLOSE, m3i1 := fd\<rparr>) w) (\<lambda>(_, w1). Inr (0, w1))"

definition read_c :: "'w user_env \<Rightarrow> int \<Rightarrow> u32 \<Rightarrow> int \<Rightarrow> 'w \<Rightarrow> (int \<times> 'w) res" where
  "read_c e fd buf n w =
     res_bind (request e TASK_FS ((u_junk e)\<lparr>mtype := READ, m3p2 := buf, m3i2 := n, m3i1 := fd\<rparr>) w) (\<lambda>(m, w1). Inr (CNT m, w1))"

definition write_c :: "'w user_env \<Rightarrow> int \<Rightarrow> u32 \<Rightarrow> int \<Rightarrow> 'w \<Rightarrow> (int \<times> 'w) res" where
  "write_c e fd buf n w =
     res_bind (request e TASK_FS ((u_junk e)\<lparr>mtype := WRITE, m3p2 := buf, m3i2 := n, m3i1 := fd\<rparr>) w) (\<lambda>(m, w1). Inr (CNT m, w1))"

definition lseek :: "'w user_env \<Rightarrow> int \<Rightarrow> int \<Rightarrow> int \<Rightarrow> 'w \<Rightarrow> (int \<times> 'w) res" where
  "lseek e fd offset whence w =
     res_bind (request_ret e TASK_FS ((u_junk e)\<lparr>mtype := LSEEK, m3i1 := fd, m3i2 := offset, m3i3 := whence\<rparr>) w)
       (\<lambda>(m, w1). Inr (OFFSET m, w1))"

definition unlink :: "'w user_env \<Rightarrow> u32 \<Rightarrow> 'w \<Rightarrow> (int \<times> 'w) res" where
  "unlink e pathname w =
     res_bind (request e TASK_FS ((u_junk e)\<lparr>mtype := UNLINK, m3p1 := pathname, m3i2 := int (length (u_str e pathname w))\<rparr>) w)
       (\<lambda>(m, w1). Inr (RETVAL m, w1))"

definition stat_c :: "'w user_env \<Rightarrow> u32 \<Rightarrow> u32 \<Rightarrow> 'w \<Rightarrow> (int \<times> 'w) res" where
  "stat_c e path s w =
     res_bind (request_ret e TASK_FS ((u_junk e)\<lparr>mtype := STAT, m3p1 := path, m3i2 := int (length (u_str e path w)), m3p2 := s\<rparr>) w)
       (\<lambda>(m, w1). Inr (RETVAL m, w1))"

section \<open>Processes and time\<close>

definition fork :: "'w user_env \<Rightarrow> 'w \<Rightarrow> (int \<times> 'w) res" where
  "fork e w =
     res_bind (request_ret e TASK_MM ((u_junk e)\<lparr>mtype := FORK\<rparr>) w) (\<lambda>(m, w1).
     res_bind (assert_c (RETVAL m = 0) ''msg.RETVAL == 0'') (\<lambda>_. Inr (PID m, w1)))"

definition wait :: "'w user_env \<Rightarrow> 'w \<Rightarrow> (int \<times> int \<times> 'w) res" where
  "wait e w = res_bind (request_ret e TASK_MM ((u_junk e)\<lparr>mtype := WAIT\<rparr>) w) (\<lambda>(m, w1). Inr (PID m, STATUS m, w1))"

definition exit_c :: "'w user_env \<Rightarrow> int \<Rightarrow> 'w \<Rightarrow> 'w res" where
  "exit_c e status w = res_bind (request_ret e TASK_MM ((u_junk e)\<lparr>mtype := EXIT, m3i1 := status\<rparr>) w) (\<lambda>(_, w1). Inr w1)"

definition getpid :: "'w user_env \<Rightarrow> 'w \<Rightarrow> (int \<times> 'w) res" where
  "getpid e w = res_bind (request_ret e TASK_SYS ((u_junk e)\<lparr>mtype := GET_PID\<rparr>) w) (\<lambda>(m, w1). Inr (PID m, w1))"

definition get_ticks :: "'w user_env \<Rightarrow> 'w \<Rightarrow> (int \<times> 'w) res" where
  "get_ticks e w = res_bind (request e TASK_SYS (reset_msg\<lparr>mtype := GET_TICKS\<rparr>) w) (\<lambda>(m, w1). Inr (RETVAL m, w1))"

text \<open>\<^verbatim>\<open>execv\<close>: \<open>stk\<close> is the address of its local array, \<open>argv\<close> the strings behind the pointers.\<close>

definition exec_call :: "'w user_env \<Rightarrow> u32 \<Rightarrow> u32 \<Rightarrow> u8 list list \<Rightarrow> 'w \<Rightarrow> (int \<times> 'w) res" where
  "exec_call e stk path argv w =
     res_bind (execv stk path (u_str e path w) argv (u_junk e)) (\<lambda>(block, m).
     res_bind (request_ret e TASK_MM m (u_poke e stk block w)) (\<lambda>(m1, w1). Inr (RETVAL m1, w1)))"

section \<open>Printing\<close>

definition printf :: "'w user_env \<Rightarrow> u32 \<Rightarrow> string \<Rightarrow> fmt_arg list \<Rightarrow> 'w \<Rightarrow> 'w res" where
  "printf e buf fmt args w =
     res_bind (vsprintf fmt args) (\<lambda>(s, len).
     if length s > 256 then Inl (BadAccess ''buf'')
     else res_bind (write_c e 1 buf (int len) (u_poke e buf (c_bytes s) w)) (\<lambda>(c, w1).
          res_bind (assert_c (c = int len) ''c == len'') (\<lambda>_. Inr w1)))"

section \<open>The shell\<close>

text \<open>
  Splitting a line into words: the loop over the characters up to the terminating zero. \<open>word\<close> is the start
  of the word the position \<open>p\<close> is in. The results are the starts of the words and the changed buffer, in
  which a zero replaces the space behind a word.
\<close>

fun parse_words :: "u8 list \<Rightarrow> nat \<Rightarrow> nat option \<Rightarrow> (nat list \<times> u8 list) res" where
  "parse_words [] p word = Inl (BadAccess ''rdbuf'')"
| "parse_words (c # rest) p word =
     (let word1 = (if word = None \<and> c \<noteq> 0x20 \<and> c \<noteq> 0 then Some p else word);
          ends = (word1 \<noteq> None \<and> (c = 0x20 \<or> c = 0));
          argv = (case word1 of None \<Rightarrow> [] | Some s \<Rightarrow> if ends then [s] else []);
          c1 = (if ends then 0 else c)
      in if c = 0 then Inr (argv, c1 # rest)
         else res_bind (parse_words rest (p + 1) (if ends then None else word1)) (\<lambda>(argv', rest'). Inr (argv @ argv', c1 # rest')))"

text \<open>
  One round of the shell. The array \<^verbatim>\<open>rdbuf\<close> has 70 bytes, and \<^verbatim>\<open>read\<close> may return 70 of them: the terminating
  zero is then stored behind the array. Without a word, \<^verbatim>\<open>argv[0]\<close> is a null pointer.
\<close>

definition shell_run :: "'w user_env \<Rightarrow> u32 \<Rightarrow> u32 \<Rightarrow> u8 list list \<Rightarrow> 'w \<Rightarrow> 'w res" where
  "shell_run e stk argv0 argv w =
     res_bind (fork e w) (\<lambda>(pid, w1).
     if pid \<noteq> 0 then res_bind (wait e w1) (\<lambda>(_, _, w2). Inr w2)
     else res_bind (exec_call e stk argv0 argv w1) (\<lambda>(_, w2). Inr w2))"

definition shell_round :: "'w user_env \<Rightarrow> u32 \<Rightarrow> u32 \<Rightarrow> 'w \<Rightarrow> 'w res" where
  "shell_round e rdbuf stk w =
     res_bind (write_c e 1 (u_lit e ''$ '') 2 w) (\<lambda>(_, w1).
     res_bind (read_c e 0 rdbuf 70 w1) (\<lambda>(r, w2).
     if r < 0 \<or> r \<ge> 70 then Inl (BadAccess ''rdbuf'')
     else res_bind (parse_words (u_peek e rdbuf (nat r) w2 @ [0]) 0 None) (\<lambda>(starts, line).
          let w3 = u_poke e rdbuf line w2;
              argv = map (\<lambda>s. u_str e (rdbuf + of_nat s) w3) starts;
              argv0 = (case starts of [] \<Rightarrow> 0 | s # _ \<Rightarrow> rdbuf + of_nat s)
          in res_bind (open_c e argv0 O_RDWR w3) (\<lambda>(fd, w4).
             if fd < 0 then
               if hd line \<noteq> 0 then
                 res_bind (write_c e 1 (u_lit e ''{'') 1 w4) (\<lambda>(_, w5).
                 res_bind (write_c e 1 rdbuf r w5) (\<lambda>(_, w6).
                 res_bind (write_c e 1 (u_lit e (''}'' @ [char_of (10 :: nat)])) 2 w6) (\<lambda>(_, w7). Inr w7)))
               else Inr w4
             else res_bind (close_c e fd w4) (\<lambda>(_, w5). shell_run e stk argv0 argv w5)))))"

definition open_tty :: "'w user_env \<Rightarrow> u32 \<Rightarrow> 'w \<Rightarrow> 'w res" where
  "open_tty e tty w =
     res_bind (open_c e tty O_RDWR w) (\<lambda>(fd_stdin, w1).
     res_bind (assert_c (fd_stdin = 0) ''fd_stdin == 0'') (\<lambda>_.
     res_bind (open_c e tty O_RDWR w1) (\<lambda>(fd_stdout, w2).
     res_bind (assert_c (fd_stdout = 1) ''fd_stdout == 1'') (\<lambda>_. Inr w2))))"

text \<open>The shell runs for ever: \<open>n\<close> rounds of it.\<close>

fun shell_rounds :: "'w user_env \<Rightarrow> u32 \<Rightarrow> u32 \<Rightarrow> nat \<Rightarrow> 'w \<Rightarrow> 'w res" where
  "shell_rounds e rdbuf stk 0 w = Inr w"
| "shell_rounds e rdbuf stk (Suc n) w = res_bind (shell_round e rdbuf stk w) (shell_rounds e rdbuf stk n)"

definition shabby_shell :: "'w user_env \<Rightarrow> u32 \<Rightarrow> u32 \<Rightarrow> u32 \<Rightarrow> nat \<Rightarrow> 'w \<Rightarrow> 'w res" where
  "shabby_shell e rdbuf stk tty n w = res_bind (open_tty e tty w) (shell_rounds e rdbuf stk n)"

section \<open>Extracting an archive\<close>

text \<open>The size in a header: octal digits up to a zero byte.\<close>

fun tar_size :: "u8 list \<Rightarrow> int \<Rightarrow> int res" where
  "tar_size [] len = Inl (BadAccess ''size'')"
| "tar_size (c # rest) len = (if c = 0 then Inr len else tar_size rest (len * 8 + sint c - 48))"

function tar_copy :: "'w user_env \<Rightarrow> u32 \<Rightarrow> int \<Rightarrow> int \<Rightarrow> int \<Rightarrow> 'w \<Rightarrow> 'w res" where
  "tar_copy e buf fd_tar fd byte_left w =
     (if byte_left > 0 then
        let byte_read = min byte_left 8192
        in res_bind (read_c e fd_tar buf (((byte_read - 1) sdiv 512 + 1) * 512) w) (\<lambda>(_, w1).
           res_bind (write_c e fd buf byte_read w1) (\<lambda>(_, w2).
           tar_copy e buf fd_tar fd (byte_left - byte_read) w2))
      else Inr w)"
  by pat_completeness auto
termination
  by (relation "measure (\<lambda>(e, buf, fd_tar, fd, byte_left, w). nat byte_left)") auto

declare tar_copy.simps [simp del]

text \<open>One file of the archive. \<open>buf\<close> and \<open>pbuf\<close> are the addresses of the buffers of \<^verbatim>\<open>untar\<close> and \<^verbatim>\<open>printf\<close>.\<close>

datatype tar_end = TarNext | TarDone | TarAborted

definition string_of :: "u8 list \<Rightarrow> string" where
  "string_of bs = map (\<lambda>b. char_of (unat b)) bs"

definition tar_file :: "'w user_env \<Rightarrow> u32 \<Rightarrow> u32 \<Rightarrow> int \<Rightarrow> 'w \<Rightarrow> (tar_end \<times> 'w) res" where
  "tar_file e buf pbuf fd_tar w =
     res_bind (read_c e fd_tar buf 512 w) (\<lambda>(_, w1).
     if u_peek e buf 1 w1 = [0] then Inr (TarDone, w1)
     else res_bind (open_c e buf (O_CREAT OR O_RDWR OR O_TRUNC) w1) (\<lambda>(fd, w2).
          if fd < 0 then
            res_bind (printf e pbuf (''   fail to extract file:%s'' @ [char_of (10 :: nat)]) [StrArg (string_of (u_str e buf w2))] w2) (\<lambda>w3.
            res_bind (printf e pbuf ('' aborted]'' @ [char_of (10 :: nat)]) [] w3) (\<lambda>w4. Inr (TarAborted, w4)))
          else
            res_bind (tar_size (u_peek e (buf + 124) (8192 - 124) w2) 0) (\<lambda>len.
            res_bind (printf e pbuf (''   extract file:%s (%d byte)'' @ [char_of (10 :: nat)]) [StrArg (string_of (u_str e buf w2)), IntArg len] w2) (\<lambda>w3.
            res_bind (tar_copy e buf fd_tar fd len w3) (\<lambda>w4.
            res_bind (close_c e fd w4) (\<lambda>(_, w5). Inr (TarNext, w5)))))))"

partial_function (option) untar_loop :: "('w \<Rightarrow> (tar_end \<times> 'w) res) \<Rightarrow> 'w \<Rightarrow> (tar_end \<times> 'w) res option" where
  "untar_loop f w =
     (case f w of
        Inl err \<Rightarrow> Some (Inl err)
      | Inr (r, w1) \<Rightarrow> if r = TarNext then untar_loop f w1 else Some (Inr (r, w1)))"

definition untar :: "'w user_env \<Rightarrow> u32 \<Rightarrow> u32 \<Rightarrow> u32 \<Rightarrow> 'w \<Rightarrow> 'w res" where
  "untar e buf pbuf path w =
     res_bind (printf e pbuf (''[extrat file:%s'' @ [char_of (10 :: nat)]) [StrArg (string_of (u_str e path w))] w) (\<lambda>w1.
     res_bind (open_c e path O_RDWR w1) (\<lambda>(fd_tar, w2).
     res_bind (assert_c (fd_tar \<ge> 0) ''fd_tar >= 0'') (\<lambda>_.
     res_bind (of_loop (untar_loop (tar_file e buf pbuf fd_tar) w2)) (\<lambda>r.
     res_bind r (\<lambda>(t, w3).
     if t = TarAborted then Inr w3
     else res_bind (close_c e fd_tar w3) (\<lambda>(_, w4). printf e pbuf ('' done]'' @ [char_of (10 :: nat)]) [] w4))))))"

section \<open>The first process\<close>

text \<open>
  \<^verbatim>\<open>Init\<close> opens the terminal, extracts the commands and starts a shell on each of the other terminals. In the
  child the shell takes over; in the parent the loop goes on, and ends in waiting for children for ever.
\<close>

datatype 'w init_end = InShell u32 'w | Started 'w

fun start_shells :: "'w user_env \<Rightarrow> u32 \<Rightarrow> u32 list \<Rightarrow> 'w \<Rightarrow> 'w init_end res" where
  "start_shells e pbuf [] w = Inr (Started w)"
| "start_shells e pbuf (tty # ttys) w =
     res_bind (fork e w) (\<lambda>(pid, w1).
     if pid \<noteq> 0 then
       res_bind (printf e pbuf (''create child proc:%d'' @ [char_of (10 :: nat)]) [IntArg pid] w1) (start_shells e pbuf ttys)
     else res_bind (close_c e 0 w1) (\<lambda>(_, w2). res_bind (close_c e 1 w2) (\<lambda>(_, w3). Inr (InShell tty w3))))"

definition Init :: "'w user_env \<Rightarrow> u32 \<Rightarrow> u32 \<Rightarrow> 'w \<Rightarrow> 'w init_end res" where
  "Init e buf pbuf w =
     res_bind (open_tty e (u_lit e ''/dev_tty0'') w) (\<lambda>w1.
     res_bind (printf e pbuf (''Init() is running ...'' @ [char_of (10 :: nat)]) [] w1) (\<lambda>w2.
     res_bind (untar e buf pbuf (u_lit e ''/cmd.tar'') w2) (\<lambda>w3.
     start_shells e pbuf [u_lit e ''/dev_tty1'', u_lit e ''/dev_tty2''] w3)))"

definition init_wait :: "'w user_env \<Rightarrow> u32 \<Rightarrow> 'w \<Rightarrow> 'w res" where
  "init_wait e pbuf w =
     res_bind (wait e w) (\<lambda>(child, s, w1).
     printf e pbuf (''child:%d exit with status:%d'' @ [char_of (10 :: nat)]) [IntArg child, IntArg s] w1)"

definition dump_file_stat :: "'w user_env \<Rightarrow> u32 \<Rightarrow> u32 \<Rightarrow> u32 \<Rightarrow> 'w \<Rightarrow> 'w res" where
  "dump_file_stat e sbuf pbuf path w =
     res_bind (stat_c e path sbuf w) (\<lambda>(r, w1).
     if r \<noteq> 0 then Inr w1
     else let f = (\<lambda>i. IntArg (sint (word_of (u_peek e (sbuf + 4 * of_nat i) 4 w1))))
          in printf e pbuf (''dev:0x%x'' @ [char_of (10 :: nat)] @ ''inode_nr:%d'' @ [char_of (10 :: nat)] @ ''i_mode:0x%x'' @ [char_of (10 :: nat)] @
               ''sdev:0x%x'' @ [char_of (10 :: nat)] @ ''size:%d'' @ [char_of (10 :: nat)]) [f 0, f 1, f 2, f 3, f 4] w1)"

section \<open>Words\<close>

text \<open>The words of a line, written down directly: the maximal runs of characters other than spaces.\<close>

function words_of :: "u8 list \<Rightarrow> u8 list list" where
  "words_of [] = []"
| "words_of (c # rest) =
     (if c = 0x20 then words_of rest
      else (c # takeWhile (\<lambda>x. x \<noteq> 0x20) rest) # words_of (dropWhile (\<lambda>x. x \<noteq> 0x20) rest))"
  by pat_completeness auto
termination
  by (relation "measure length") (auto simp: less_Suc_eq_le length_dropWhile_le)

text \<open>The strings at the given positions of a buffer.\<close>

definition strings_at :: "nat \<Rightarrow> u8 list \<Rightarrow> nat list \<Rightarrow> u8 list list" where
  "strings_at p b starts = map (\<lambda>s. takeWhile (\<lambda>x. x \<noteq> 0) (drop (s - p) b)) starts"

lemma strings_at_Cons:
  assumes "\<forall>s\<in>set starts. Suc p \<le> s"
  shows "strings_at p (c # b) starts = strings_at (Suc p) b starts"
proof -
  have "drop (s - p) (c # b) = drop (s - Suc p) b" if "s \<in> set starts" for s
  proof -
    have "s - p = Suc (s - Suc p)"
      using assms that by (auto simp: Suc_le_eq Suc_diff_Suc)
    then show ?thesis
      by simp
  qed
  then show ?thesis
    by (simp add: strings_at_def)
qed

text \<open>The two modes of the loop: between words, and inside the word that starts at \<open>s0\<close>.\<close>

definition between :: "u8 list \<Rightarrow> nat \<Rightarrow> bool" where
  "between line p \<longleftrightarrow> (\<exists>starts b. parse_words (line @ [0]) p None = Inr (starts, b) \<and> length b = Suc (length line) \<and>
     (\<forall>s\<in>set starts. p \<le> s) \<and> strings_at p b starts = words_of line)"

definition inside :: "u8 list \<Rightarrow> nat \<Rightarrow> nat \<Rightarrow> bool" where
  "inside line p s0 \<longleftrightarrow> (\<exists>starts b. parse_words (line @ [0]) p (Some s0) = Inr (s0 # starts, b) \<and> length b = Suc (length line) \<and>
     (\<forall>s\<in>set starts. p \<le> s) \<and> takeWhile (\<lambda>x. x \<noteq> 0) b = takeWhile (\<lambda>x. x \<noteq> 0x20) line \<and>
     strings_at p b starts = words_of (dropWhile (\<lambda>x. x \<noteq> 0x20) line))"

lemma weaken_starts: "\<forall>s\<in>set starts. Suc p \<le> s \<Longrightarrow> \<forall>s\<in>set starts. p \<le> s"
  by auto

lemma after_space:
  assumes "between line (Suc p)"
  shows "between (0x20 # line) p" "inside (0x20 # line) p s0"
proof -
  obtain starts b where s: "parse_words (line @ [0]) (Suc p) None = Inr (starts, b)" "length b = Suc (length line)" "\<forall>s\<in>set starts. Suc p \<le> s"
      "strings_at (Suc p) b starts = words_of line"
    using assms by (auto simp: between_def)
  note w = weaken_starts [OF s(3)] strings_at_Cons [OF s(3)]
  show "between (0x20 # line) p" "inside (0x20 # line) p s0"
    using s(1,2,4) w by (simp_all add: between_def inside_def)
qed

lemma after_char:
  assumes "\<And>s0. inside line (Suc p) s0" "c \<noteq> 0" "c \<noteq> 0x20"
  shows "between (c # line) p" "inside (c # line) p s0"
proof -
  have "\<exists>starts b. parse_words ((c # line) @ [0]) p w = Inr (s1 # starts, b) \<and> length b = Suc (length (c # line)) \<and> (\<forall>s\<in>set starts. p \<le> s) \<and>
      takeWhile (\<lambda>x. x \<noteq> 0) b = c # takeWhile (\<lambda>x. x \<noteq> 0x20) line \<and> strings_at p b starts = words_of (dropWhile (\<lambda>x. x \<noteq> 0x20) line)"
    if "s1 = (case w of None \<Rightarrow> p | Some s \<Rightarrow> s)" for w s1
  proof -
    obtain starts b where s: "parse_words (line @ [0]) (Suc p) (Some s1) = Inr (s1 # starts, b)" "length b = Suc (length line)" "\<forall>s\<in>set starts. Suc p \<le> s"
        "takeWhile (\<lambda>x. x \<noteq> 0) b = takeWhile (\<lambda>x. x \<noteq> 0x20) line" "strings_at (Suc p) b starts = words_of (dropWhile (\<lambda>x. x \<noteq> 0x20) line)"
      using assms(1) [of s1] by (auto simp: inside_def)
    then show ?thesis
      using that assms(2,3) weaken_starts [OF s(3)] strings_at_Cons [OF s(3), of c b] by (cases w) simp_all
  qed
  from this [of p None] this [of s0 "Some s0"] show "between (c # line) p" "inside (c # line) p s0"
    using assms(2,3) by (auto simp: between_def inside_def) (auto simp: strings_at_def)
qed

lemma parse_words_modes: "0 \<notin> set line \<Longrightarrow> between line p \<and> (\<forall>s0. inside line p s0)"
proof (induction line arbitrary: p)
  case Nil
  show ?case
    by (simp add: between_def inside_def strings_at_def)
next
  case (Cons c line)
  then show ?case
    using after_space [of line p] after_char [of line p c] by (cases "c = 0x20") auto
qed

end
