(* ===== verification/Startup.thy ===== *)
theory Startup
  imports Boot Keyboard "HOL-Library.Signed_Division"
begin

text \<open>
  Starting the machine around the process table: \<^verbatim>\<open>kernel/start.c\<close>, interrupt lines and their handlers
  (\<^verbatim>\<open>kernel/i8259A.c\<close>, \<^verbatim>\<open>lib/kliba.asm\<close>), the clock (\<^verbatim>\<open>kernel/clock.c\<close>), the keyboard controller
  (\<^verbatim>\<open>kernel/keyboard.c\<close>), and the system task (\<^verbatim>\<open>kernel/systask.c\<close>).
\<close>

abbreviation (input) IDT_SIZE :: nat where "IDT_SIZE \<equiv> 256"
abbreviation (input) CLOCK_INT_NO :: int where "CLOCK_INT_NO \<equiv> 0"
abbreviation (input) KEYBOARD_INT_NO :: int where "KEYBOARD_INT_NO \<equiv> 1"
abbreviation (input) TIMER0 :: u16 where "TIMER0 \<equiv> 0x40"
abbreviation (input) TIMER_MODE :: u16 where "TIMER_MODE \<equiv> 0x43"
abbreviation (input) RATE_GENERATOR :: u8 where "RATE_GENERATOR \<equiv> 0x34"
abbreviation (input) TIMER_FREQ :: int where "TIMER_FREQ \<equiv> 1193182"
abbreviation (input) HZ :: int where "HZ \<equiv> 100"

section \<open>Interrupt lines\<close>

text \<open>The mask register of an interrupt controller reads as the last byte written to it.\<close>

definition in_mask :: "u16 \<Rightarrow> irq_state \<Rightarrow> u8" where
  "in_mask port s = (case find (\<lambda>x. fst x = port) (rev (outb s)) of None \<Rightarrow> 0 | Some (_, v) \<Rightarrow> v)"

definition mask_port :: "int \<Rightarrow> u16" where
  "mask_port irq = (if irq < 8 then INT_M_CTLMASK else INT_S_CTLMASK)"

definition irq_bit :: "int \<Rightarrow> u8" where
  "irq_bit irq = push_bit (nat (irq mod 8)) 1"

definition disable_irq :: "int \<Rightarrow> irq_state \<Rightarrow> irq_state" where
  "disable_irq irq s =
     (let v = in_mask (mask_port irq) s
      in if v AND irq_bit irq \<noteq> 0 then s else out_byte (mask_port irq) (v OR irq_bit irq) s)"

definition enable_irq :: "int \<Rightarrow> irq_state \<Rightarrow> irq_state" where
  "enable_irq irq s = out_byte (mask_port irq) (in_mask (mask_port irq) s AND NOT (irq_bit irq)) s"

definition put_irq_handler :: "int \<Rightarrow> string \<Rightarrow> irq_state \<Rightarrow> irq_state" where
  "put_irq_handler irq handler s = (disable_irq irq s)\<lparr>irq_table := (irq_table s)(irq := handler)\<rparr>"

definition init_clock :: "irq_state \<Rightarrow> irq_state" where
  "init_clock s =
     (let s1 = out_byte TIMER_MODE RATE_GENERATOR s;
          s2 = out_byte TIMER0 (of_int (TIMER_FREQ div HZ)) s1;
          s3 = out_byte TIMER0 (of_int (drop_bit 8 (TIMER_FREQ div HZ))) s2
      in enable_irq CLOCK_INT_NO (put_irq_handler CLOCK_INT_NO ''clock_handler'' s3))"

text \<open>The end of \<^verbatim>\<open>init_keyboard\<close>, and the two calls of \<^verbatim>\<open>kernel_main\<close>.\<close>

definition keyboard_irq :: "irq_state \<Rightarrow> irq_state" where
  "keyboard_irq s = enable_irq KEYBOARD_INT_NO (put_irq_handler KEYBOARD_INT_NO ''keyboard_handler'' s)"

definition start_devices :: "irq_state \<times> kb_state \<Rightarrow> irq_state \<times> kb_state" where
  "start_devices x = (keyboard_irq (init_clock (fst x)), init_keyboard (snd x))"

section \<open>Waiting for the keyboard and for time\<close>

text \<open>
  Polling loops. The values the port or the system task returns are a sequence; the loops return the number
  of values they have seen, and nothing when they never end.
\<close>

partial_function (option) kb_wait :: "(nat \<Rightarrow> u8) \<Rightarrow> nat \<Rightarrow> nat option" where
  "kb_wait stat k = (if stat k AND 0x02 \<noteq> 0 then kb_wait stat (k + 1) else Some (k + 1))"

partial_function (option) kb_ack :: "(nat \<Rightarrow> u8) \<Rightarrow> nat \<Rightarrow> nat option" where
  "kb_ack dat k = (if 0xFA \<noteq> dat k then kb_ack dat (k + 1) else Some (k + 1))"

partial_function (option) delay_loop :: "(nat \<Rightarrow> int) \<Rightarrow> int \<Rightarrow> int \<Rightarrow> nat \<Rightarrow> nat option" where
  "delay_loop now t0 milli_sec k =
     (if ((now k - t0) * 1000) sdiv HZ < milli_sec then delay_loop now t0 milli_sec (k + 1) else Some (k + 1))"

definition milli_delay :: "(nat \<Rightarrow> int) \<Rightarrow> int \<Rightarrow> nat option" where
  "milli_delay now milli_sec = delay_loop now (now 0) milli_sec 1"

section \<open>The system task\<close>

text \<open>
  One message of \<^verbatim>\<open>task_sys\<close>: the answers it sends, and whether it goes on. The case \<^verbatim>\<open>GET_PID\<close> has no \<^verbatim>\<open>break\<close> and
  runs into the default case.
\<close>

definition task_sys :: "int \<Rightarrow> MESSAGE \<Rightarrow> (int \<times> MESSAGE) list \<times> unit res" where
  "task_sys now m =
     (let src = source m
      in if mtype m = GET_TICKS then ([(src, m\<lparr>m3i1 := now\<rparr>)], Inr ())
         else if mtype m = GET_PID then ([(src, m\<lparr>m3i2 := src, mtype := SYSCALL_RET\<rparr>)], Inl (Panic ''unknown msg type''))
         else ([], Inl (Panic ''unknown msg type'')))"

section \<open>The first function\<close>

text \<open>
  \<^verbatim>\<open>cstart\<close> moves the loader's descriptors (\<open>lim\<close> is the limit of its table, \<open>lg\<close> its contents) to the kernel's
  table and loads the registers with the addresses and limits of the new tables.
\<close>

record boot_ptrs =
  gdt_ptr :: "u16 \<times> u32"
  idt_ptr :: "u16 \<times> u32"

definition cstart :: "(string \<Rightarrow> u32) \<Rightarrow> (int \<Rightarrow> u32) \<Rightarrow> u32 \<Rightarrow> u32 \<Rightarrow> u32 \<Rightarrow> u16 \<Rightarrow> (nat \<Rightarrow> DESCRIPTOR) \<Rightarrow> prot_state \<Rightarrow> boot_ptrs \<times> prot_state" where
  "cstart addr ldts_addr tss_addr gdt_addr idt_addr lim lg s =
     (let s1 = s\<lparr>gdt := (\<lambda>i. if i < (unat lim + 1) div 8 then lg i else gdt s i)\<rparr>
      in (\<lparr>gdt_ptr = (of_nat (8 * GDT_SIZE - 1), gdt_addr), idt_ptr = (of_nat (8 * IDT_SIZE - 1), idt_addr)\<rparr>,
          init_prot addr ldts_addr tss_addr s1))"

section \<open>Facts\<close>

text \<open>A polling loop ends at the first value it waits for, and only then.\<close>

lemma kb_wait_first:
  assumes "\<forall>i < n. stat (k + i) AND 0x02 \<noteq> 0" "stat (k + n) AND 0x02 = 0"
  shows "kb_wait stat k = Some (k + n + 1)"
  using assms
proof (induction n arbitrary: k)
  case (Suc n)
  have "kb_wait stat (Suc k) = Some (Suc k + n + 1)"
    using Suc.prems by (intro Suc.IH) auto
  moreover have "stat k AND 0x02 \<noteq> 0"
    using Suc.prems(1) by (metis add_0_right zero_less_Suc)
  ultimately show ?case
    by (subst kb_wait.simps) simp
qed (subst kb_wait.simps, simp)

lemma kb_ack_first:
  assumes "\<forall>i < n. dat (k + i) \<noteq> 0xFA" "dat (k + n) = 0xFA"
  shows "kb_ack dat k = Some (k + n + 1)"
  using assms
proof (induction n arbitrary: k)
  case (Suc n)
  have "kb_ack dat (Suc k) = Some (Suc k + n + 1)"
    using Suc.prems by (intro Suc.IH) auto
  moreover have "dat k \<noteq> 0xFA"
    using Suc.prems(1) by (metis add_0_right zero_less_Suc)
  ultimately show ?case
    by (subst kb_ack.simps) simp
qed (subst kb_ack.simps, simp)

lemma delay_first:
  assumes "\<forall>i < n. ((now (k + i) - t0) * 1000) sdiv HZ < ms" "\<not> ((now (k + n) - t0) * 1000) sdiv HZ < ms"
  shows "delay_loop now t0 ms k = Some (k + n + 1)"
  using assms
proof (induction n arbitrary: k)
  case (Suc n)
  have "delay_loop now t0 ms (Suc k) = Some (Suc k + n + 1)"
    using Suc.prems by (intro Suc.IH) auto
  moreover have "((now k - t0) * 1000) sdiv HZ < ms"
    using Suc.prems(1) by (metis add_0_right zero_less_Suc)
  ultimately show ?case
    by (subst delay_loop.simps) simp
qed (subst delay_loop.simps, simp)

text \<open>Interrupt lines after booting: the clock and the keyboard, and no other.\<close>

definition irq_masked :: "int \<Rightarrow> irq_state \<Rightarrow> bool" where
  "irq_masked irq s \<longleftrightarrow> in_mask (mask_port irq) s AND irq_bit irq \<noteq> 0"

lemma in_mask_out [simp]:
  "in_mask p (out_byte q v s) = (if p = q then v else in_mask p s)" "in_mask p (s\<lparr>irq_table := t\<rparr>) = in_mask p s"
  by (simp_all add: in_mask_def out_byte_def)

lemma irq_table_out [simp]: "irq_table (out_byte q v s) = irq_table s"
  by (simp add: out_byte_def)

lemma boot_masks:
  "in_mask INT_M_CTLMASK (fst (start_devices (init_8259A s, k))) = 0xFC"
  "in_mask INT_S_CTLMASK (fst (start_devices (init_8259A s, k))) = 0xFF"
  "irq_table (fst (start_devices (init_8259A s, k))) =
     (\<lambda>i. if 0 \<le> i \<and> i < 16 then ''spurious_irq'' else irq_table s i)(0 := ''clock_handler'', 1 := ''keyboard_handler'')"
  by (simp_all add: start_devices_def keyboard_irq_def init_clock_def Let_def init_8259A_def put_irq_handler_def disable_irq_def enable_irq_def
      mask_port_def irq_bit_def cong: if_cong)

lemma range_16: "0 \<le> i \<Longrightarrow> i < 16 \<Longrightarrow> i \<in> {0, 1, 2, 3, 4, 5, 6, 7, 8, 9, 10, 11, 12, 13, 14, 15 :: int}"
  by simp presburger

lemma boot_irqs:
  assumes "0 \<le> i" "i < 16"
  shows "irq_masked i (fst (start_devices (init_8259A s, k))) \<longleftrightarrow> i \<noteq> CLOCK_INT_NO \<and> i \<noteq> KEYBOARD_INT_NO"
  using range_16 [OF assms] boot_masks [of s k] by (auto simp: irq_masked_def mask_port_def irq_bit_def)

text \<open>The descriptors of the loader survive \<^verbatim>\<open>cstart\<close>.\<close>

lemma cstart_gdt:
  assumes "31 \<le> unat lim" "j < 4"
  shows "gdt (snd (cstart addr la ta ga ia lim lg s)) j = lg j"
proof -
  have "j < (unat lim + 1) div 8"
    using assms by linarith
  then show ?thesis
    using assms(2) init_prot_ldts [of 0 addr la ta] by (simp add: cstart_def Let_def valid_pid_def)
qed

lemma task_sys_pid: "mtype m = GET_PID \<Longrightarrow> snd (task_sys now m) = Inl (Panic ''unknown msg type'')"
  by (simp add: task_sys_def Let_def)

end
