(* ===== verification/Programs.thy ===== *)
theory Programs
  imports Syscalls Files Startup
begin

text \<open>
  Programs on top of the file system: the library functions when the answering task is \<^verbatim>\<open>task_fs\<close>, and the shell's
  splitting of a line into words.
\<close>

section \<open>A process and the file system\<close>

text \<open>
  The state is the process number, the state of the file system and the answer that waits for the process. A
  message to the file system carries the number of its sender; its answer is received next. For a request
  that suspends the process there is no answer to receive. \<open>ans\<close> is the answer of a character device.
\<close>

record client =
  c_pid :: int
  c_fs :: fs_state
  c_answer :: "MESSAGE option"

definition fs_sendrec :: "MESSAGE \<Rightarrow> MESSAGE \<Rightarrow> client sendrec" where
  "fs_sendrec ans junk function src_dest m c =
     (if src_dest \<noteq> TASK_FS then Inl (BadAccess ''task'')
      else if function = SEND then
        res_bind (fs_dispatch ans junk (m\<lparr>source := c_pid c\<rparr>) (c_fs c)) (\<lambda>(r, st).
        Inr (0, m, c\<lparr>c_fs := st, c_answer := map_option snd r\<rparr>))
      else (case c_answer c of
              None \<Rightarrow> Inl Hang
            | Some m1 \<Rightarrow> Inr (0, m1\<lparr>source := TASK_FS\<rparr>, c\<lparr>c_answer := None\<rparr>)))"

definition c_peek :: "u32 \<Rightarrow> nat \<Rightarrow> client \<Rightarrow> u8 list" where
  "c_peek a n c = (case va2la (fs_procs (c_fs c)) (c_pid c) a of Inl _ \<Rightarrow> replicate n 0 | Inr la \<Rightarrow> mem_bytes (fs_mem (c_fs c)) la n)"

definition c_poke :: "u32 \<Rightarrow> u8 list \<Rightarrow> client \<Rightarrow> client" where
  "c_poke a bs c = (case va2la (fs_procs (c_fs c)) (c_pid c) a of
     Inl _ \<Rightarrow> c | Inr la \<Rightarrow> c\<lparr>c_fs := (c_fs c)\<lparr>fs_mem := write_bytes la bs (fs_mem (c_fs c))\<rparr>\<rparr>)"

definition client_env :: "MESSAGE \<Rightarrow> MESSAGE \<Rightarrow> (string \<Rightarrow> u32) \<Rightarrow> client user_env" where
  "client_env ans junk lit = \<lparr>u_sendrec = fs_sendrec ans junk, u_peek = c_peek, u_poke = c_poke,
     u_str = (\<lambda>a c. takeWhile (\<lambda>x. x \<noteq> 0) (c_peek a MAX_PATH c)), u_lit = lit, u_junk = junk\<rparr>"

section \<open>The service the library relies on\<close>

text \<open>The message of a read or write request.\<close>

definition io_msg :: "MESSAGE \<Rightarrow> int \<Rightarrow> int \<Rightarrow> u32 \<Rightarrow> int \<Rightarrow> int \<Rightarrow> MESSAGE" where
  "io_msg m pid t buf k fd = m\<lparr>mtype := t, m3p2 := buf, m3i2 := k, m3i1 := fd, source := pid\<rparr>"

text \<open>
  An environment in which requests to the file system are answered by it: a process in state \<open>w\<close> has the
  number \<open>pid_of w\<close> and shares the file system \<open>fs_of w\<close>. What the request handler computes is what the library function gets.
\<close>

locale file_service =
  fixes e :: "'w user_env" and pid_of :: "'w \<Rightarrow> int" and fs_of :: "'w \<Rightarrow> fs_state" and ans :: MESSAGE and junk :: MESSAGE
  assumes answer: "fs_handle ans junk (m\<lparr>source := pid_of w\<rparr>) (fs_of w) = Inr (m1, st) \<Longrightarrow> mtype m1 \<noteq> SUSPEND_PROC \<Longrightarrow>
    \<exists>w'. request e TASK_FS m w = Inr (m1\<lparr>mtype := SYSCALL_RET, source := TASK_FS\<rparr>, w') \<and> fs_of w' = st \<and> pid_of w' = pid_of w"
begin

lemma rdwt_service:
  assumes "do_rdwt (pid_of w) ans (io_msg (u_junk e) (pid_of w) t buf k fd) (fs_of w) = Inr (n, io_msg (u_junk e) (pid_of w) t buf k fd, st)" "t = READ \<or> t = WRITE"
  shows "\<exists>m w'. request e TASK_FS ((u_junk e)\<lparr>mtype := t, m3p2 := buf, m3i2 := k, m3i1 := fd\<rparr>) w = Inr (m, w') \<and> CNT m = n \<and>
    fs_of w' = st \<and> pid_of w' = pid_of w"
proof -
  have "fs_handle ans junk ((u_junk e)\<lparr>mtype := t, m3p2 := buf, m3i2 := k, m3i1 := fd, source := pid_of w\<rparr>) (fs_of w) =
      Inr ((io_msg (u_junk e) (pid_of w) t buf k fd)\<lparr>m3i2 := n\<rparr>, st)"
    using assms by (auto simp: fs_handle_def io_msg_def)
  from answer [OF this] show ?thesis
    using assms(2) by (auto simp: io_msg_def)
qed

lemma write_service:
  assumes "do_rdwt (pid_of w) ans (io_msg (u_junk e) (pid_of w) WRITE buf k fd) (fs_of w) = Inr (n, io_msg (u_junk e) (pid_of w) WRITE buf k fd, st)"
  shows "\<exists>w'. write_c e fd buf k w = Inr (n, w') \<and> fs_of w' = st \<and> pid_of w' = pid_of w"
  using rdwt_service [OF assms] by (auto simp: write_c_def)

lemma read_service:
  assumes "do_rdwt (pid_of w) ans (io_msg (u_junk e) (pid_of w) READ buf k fd) (fs_of w) = Inr (n, io_msg (u_junk e) (pid_of w) READ buf k fd, st)"
  shows "\<exists>w'. read_c e fd buf k w = Inr (n, w') \<and> fs_of w' = st \<and> pid_of w' = pid_of w"
  using rdwt_service [OF assms] by (auto simp: read_c_def)

lemma lseek_service:
  assumes "do_lseek (pid_of w) ((u_junk e)\<lparr>mtype := LSEEK, m3i1 := fd, m3i2 := off, m3i3 := wh, source := pid_of w\<rparr>) (fs_of w) = Inr (n, st)"
  shows "\<exists>w'. lseek e fd off wh w = Inr (n, w') \<and> fs_of w' = st \<and> pid_of w' = pid_of w"
proof -
  let ?m = "(u_junk e)\<lparr>mtype := LSEEK, m3i1 := fd, m3i2 := off, m3i3 := wh\<rparr>"
  have "fs_handle ans junk (?m\<lparr>source := pid_of w\<rparr>) (fs_of w) = Inr (?m\<lparr>source := pid_of w, m3i2 := n\<rparr>, st)"
    using assms by (simp add: fs_handle_def fs_result_def)
  from answer [OF this] show ?thesis
    by (auto simp: lseek_def request_ret_def)
qed

lemma service_write_read:
  assumes "open_plain (pid_of w) fd k p pos (fs_of w)" "x = inode_table (fs_of w) p" "0 < n"
    "pos + n \<le> 512 * unat (i_nr_sects x)" "pos mod 512 + n \<le> 130560"
    "va2la (fs_procs (fs_of w)) (pid_of w) buf = Inr la" "va2la (fs_procs (fs_of w)) (pid_of w) buf' = Inr la'"
  shows "\<exists>w1 w2 w3. write_c e fd buf (int n) w = Inr (int n, w1) \<and> lseek e fd (int pos) SEEK_SET w1 = Inr (int pos, w2) \<and>
     read_c e fd buf' (int n) w2 = Inr (int n, w3) \<and>
     fs_mem (fs_of w3) = write_bytes la' (mem_bytes (fs_mem (fs_of w)) la n) (fs_mem (fs_of w)) \<and>
     (\<forall>a \<ge> 512 * unat (n_1st_sect (super_blocks (fs_of w) 0)).
        a < data_addr x + pos \<or> data_addr x + pos + n \<le> a \<longrightarrow> fs_disk (fs_of w3) 32 a = fs_disk (fs_of w) 32 a)"
proof -
  let ?s = "(u_junk e)\<lparr>mtype := LSEEK, m3i1 := fd, m3i2 := int pos, m3i3 := SEEK_SET, source := pid_of w\<rparr>"
  obtain st1 st2 st3 where st: "do_rdwt (pid_of w) ans (io_msg (u_junk e) (pid_of w) WRITE buf (int n) fd) (fs_of w) = Inr (int n, io_msg (u_junk e) (pid_of w) WRITE buf (int n) fd, st1)"
      "do_lseek (pid_of w) ?s st1 = Inr (int pos, st2)"
      "do_rdwt (pid_of w) ans (io_msg (u_junk e) (pid_of w) READ buf' (int n) fd) st2 = Inr (int n, io_msg (u_junk e) (pid_of w) READ buf' (int n) fd, st3)"
      "fs_mem st3 = write_bytes la' (mem_bytes (fs_mem (fs_of w)) la n) (fs_mem (fs_of w))"
      "\<forall>a \<ge> 512 * unat (n_1st_sect (super_blocks (fs_of w) 0)).
         a < data_addr x + pos \<or> data_addr x + pos + n \<le> a \<longrightarrow> fs_disk st3 32 a = fs_disk (fs_of w) 32 a"
    using rdwt_roundtrip [of "pid_of w" "io_msg (u_junk e) (pid_of w) WRITE buf (int n) fd" k p pos "fs_of w" x n la "io_msg (u_junk e) (pid_of w) READ buf' (int n) fd" la' ?s ans] assms
    by (auto simp: io_msg_def)
  obtain w1 where w1: "write_c e fd buf (int n) w = Inr (int n, w1)" "fs_of w1 = st1" "pid_of w1 = pid_of w"
    using write_service [OF st(1)] by blast
  obtain w2 where w2: "lseek e fd (int pos) SEEK_SET w1 = Inr (int pos, w2)" "fs_of w2 = st2" "pid_of w2 = pid_of w"
    using lseek_service [of w1] st(2) w1 by fastforce
  obtain w3 where "read_c e fd buf' (int n) w2 = Inr (int n, w3)" "fs_of w3 = st3"
    using read_service [of w2] st(3) w2 by (fastforce simp: io_msg_def)
  then show ?thesis
    using w1(1) w2(1) st(4,5) by blast
qed

end

interpretation cl: file_service "client_env ans junk lit" c_pid c_fs ans junk for ans junk lit
proof
  fix m and w :: client and m1 st
  assume "fs_handle ans junk (m\<lparr>source := c_pid w\<rparr>) (c_fs w) = Inr (m1, st)" "mtype m1 \<noteq> SUSPEND_PROC"
  then show "\<exists>w'. request (client_env ans junk lit) TASK_FS m w = Inr (m1\<lparr>mtype := SYSCALL_RET, source := TASK_FS\<rparr>, w') \<and>
      c_fs w' = st \<and> c_pid w' = c_pid w"
    by (simp add: request_def send_rec_def client_env_def fs_sendrec_def fs_dispatch_def)
qed

text \<open>
  C30. What a program writes to a regular file it reads back. With the file open for reading and writing at position
  \<open>pos\<close>, \<^verbatim>\<open>write\<close> of \<open>n\<close> bytes that fit into the file and into 255 sectors returns \<open>n\<close>; after \<^verbatim>\<open>lseek\<close> back to the
  old position, \<^verbatim>\<open>read\<close> of \<open>n\<close> bytes returns \<open>n\<close> and puts exactly the written bytes into the given buffer. No
  other memory of the processes has changed, and no byte of the data area of the disk outside the
  written range.
\<close>
theorem library_write_read:
  assumes "open_plain (c_pid c) fd k p pos (c_fs c)" "x = inode_table (c_fs c) p" "0 < n"
    "pos + n \<le> 512 * unat (i_nr_sects x)" "pos mod 512 + n \<le> 130560"
    "va2la (fs_procs (c_fs c)) (c_pid c) buf = Inr la" "va2la (fs_procs (c_fs c)) (c_pid c) buf' = Inr la'"
  shows "\<exists>c1 c2 c3. write_c (client_env ans junk lit) fd buf (int n) c = Inr (int n, c1) \<and>
     lseek (client_env ans junk lit) fd (int pos) SEEK_SET c1 = Inr (int pos, c2) \<and>
     read_c (client_env ans junk lit) fd buf' (int n) c2 = Inr (int n, c3) \<and>
     fs_mem (c_fs c3) = write_bytes la' (mem_bytes (fs_mem (c_fs c)) la n) (fs_mem (c_fs c)) \<and>
     (\<forall>a \<ge> 512 * unat (n_1st_sect (super_blocks (c_fs c) 0)).
        a < data_addr x + pos \<or> data_addr x + pos + n \<le> a \<longrightarrow> fs_disk (c_fs c3) 32 a = fs_disk (c_fs c) 32 a)"
  by (rule cl.service_write_read [OF assms])

definition client0 :: client where
  "client0 = \<lparr>c_pid = 7, c_fs = fs0, c_answer = None\<rparr>"

theorem library_write_read_witness:
  "\<exists>c1 c2 c3. write_c (client_env reset_msg reset_msg (\<lambda>_. 0)) 0 0x5000 (int 1000) client0 = Inr (int 1000, c1) \<and>
     lseek (client_env reset_msg reset_msg (\<lambda>_. 0)) 0 (int 20) SEEK_SET c1 = Inr (int 20, c2) \<and>
     read_c (client_env reset_msg reset_msg (\<lambda>_. 0)) 0 0x90000 (int 1000) c2 = Inr (int 1000, c3) \<and>
     fs_mem (c_fs c3) = write_bytes 0x90000 (mem_bytes (fs_mem fs0) 0x5000 1000) (fs_mem fs0)"
proof -
  have c: "c_fs client0 = fs0" "c_pid client0 = 7"
    by (simp_all add: client0_def)
  have f: "inode_table fs0 1 = file0" "20 + 1000 \<le> 512 * unat (i_nr_sects (inode_table fs0 1))"
    by (simp_all add: fs0_def file0_def)
  have pr: "(0 :: nat) < 1000" "20 mod 512 + 1000 \<le> (130560 :: nat)"
    by simp_all
  have v: "va2la (fs_procs fs0) 7 0x5000 = Inr 0x5000" "va2la (fs_procs fs0) 7 0x90000 = Inr 0x90000"
    by (rule fs0_va2la)+
  from library_write_read [of client0, unfolded c, OF fs0_open refl pr(1) f(2) pr(2) v, of reset_msg reset_msg "\<lambda>_. 0"]
  show ?thesis
    by blast
qed

section \<open>Words\<close>

text \<open>
  C40. The shell splits a line into its words. For every line, the loop of \<^verbatim>\<open>shabby_shell\<close> returns; the strings it puts
  into \<^verbatim>\<open>argv\<close> are the maximal runs of characters other than spaces, in their order, and the length of the
  buffer stays the same.
\<close>
theorem shell_words:
  assumes "0 \<notin> set line"
  shows "\<exists>starts b. parse_words (line @ [0]) 0 None = Inr (starts, b) \<and> length b = Suc (length line) \<and>
     map (\<lambda>s. takeWhile (\<lambda>x. x \<noteq> 0) (drop s b)) starts = words_of line"
  using parse_words_modes [OF assms, of 0] by (auto simp: between_def strings_at_def)

theorem shell_words_witness:
  "\<exists>starts b. parse_words ([0x20, 0x65, 0x63, 0x20, 0x20, 0x61] @ [0]) 0 None = Inr (starts, b) \<and>
     map (\<lambda>s. takeWhile (\<lambda>x. x \<noteq> 0) (drop s b)) starts = [[0x65, 0x63], [0x61]]"
  using shell_words [of "[0x20, 0x65, 0x63, 0x20, 0x20, 0x61]"] by simp

end
