(* ===== verification/Terminals.thy ===== *)
theory Terminals
  imports Tty Kernel
begin

text \<open>
  What the keyboard driver, the consoles and the terminal task promise together: the properties
  of theories \<^verbatim>\<open>Keyboard\<close>, \<^verbatim>\<open>Console\<close> and \<^verbatim>\<open>Tty\<close>, from the interrupt that stores a scan code to the
  byte in the reader's buffer, with a concrete keyboard and set of terminals to apply them to.
\<close>

section \<open>Concrete terminals\<close>

definition kb0 :: kb_state where
  "kb0 = init_keyboard \<lparr>kb_in = \<lparr>p_head = 0, p_tail = 0, kb_count = 0, kb_buf = \<lambda>_. 0\<rparr>, code_with_E0 = 0,
     shift_l = 0, shift_r = 0, alt_l = 0, alt_r = 0, ctrl_l = 0, ctrl_r = 0,
     caps_lock = 0, num_lock = 0, scroll_lock = 0, column = 0, led_log = []\<rparr>"

definition tty0 :: TTY where
  "tty0 = \<lparr>in_buf = \<lambda>_. 0, p_inbuf_head = 0, p_inbuf_tail = 0, inbuf_count = 0, tty_caller = 0,
     tty_pro_nr = 0, tty_read_buf = 0, tty_bytes_left = 0, tty_trans_bytes = 0, p_con = 0\<rparr>"

definition ttys0 :: tty_state where
  "ttys0 = \<lparr>tty_table = \<lambda>t. tty0\<lparr>p_con := t\<rparr>,
     console_table = \<lambda>t. \<lparr>orig_start_addr = 5461 * of_nat t, cur_start_addr = 5461 * of_nat t,
       v_mem_size = 5461, v_mem_base = V_MEM_BASE, cur_cursor_pos = 5461 * of_nat t\<rparr>,
     nr_cur_console = 0, scr = \<lparr>vmem = \<lambda>_. 0, crtc = []\<rparr>, disp_pos = 0, t_mem = \<lambda>_. 0,
     t_procs = \<lambda>_. zero_process, t_sent = []\<rparr>"

lemma kb0_wf: "kb_wf (kb_in kb0)" "kb_contents (kb_in kb0) = []"
  by (simp_all add: kb0_def init_keyboard_def set_leds_def Let_def kb_wf_def kb_contents_def ring_wf_def)

lemma ttys0_inv: "tty_inv ttys0"
  using new_console_ok unat_5461
  by (auto simp: tty_inv_def ttys0_def tty0_def tty_wf_def ring_wf_def)

lemma ttys0_fields [simp]:
  "nr_cur_console ttys0 = 0" "t_sent ttys0 = []" "t_mem ttys0 = (\<lambda>_. 0)"
  "tty_contents (tty_table ttys0 t) = []" "disp_pos ttys0 = 0" "t_procs ttys0 = (\<lambda>_. zero_process)"
  by (simp_all add: ttys0_def tty_contents_def tty0_def)

text \<open>A terminal into which keys have been typed.\<close>

definition typed :: "u32 list \<Rightarrow> nat \<Rightarrow> tty_state \<Rightarrow> tty_state" where
  "typed keys t st = fold (put_key t) keys st"

lemma typed_inv: "tty_inv st \<Longrightarrow> t < 3 \<Longrightarrow> tty_inv (typed keys t st)"
  unfolding typed_def by (induction keys arbitrary: st) (auto intro: put_key_inv)

lemma typed_contents:
  assumes "tty_inv st" "t < 3"
  shows "tty_contents (tty_table (typed keys t st) t) = take 256 (tty_contents (tty_table st t) @ keys)"
proof -
  have "tty_table (typed keys t st) t = ttyq.puts keys (tty_table st t)"
    unfolding typed_def by (induction keys arbitrary: st) (simp_all add: put_key_def)
  then show ?thesis
    using assms ttyq.contents_puts [of "tty_table st t" keys] by (simp add: tty_inv_def)
qed

lemma typed_fields [simp]:
  "t_procs (typed keys t st) = t_procs st" "t_sent (typed keys t st) = t_sent st"
  "t_mem (typed keys t st) = t_mem st"
  unfolding typed_def by (induction keys arbitrary: st) (simp_all add: put_key_def)

section \<open>Keyboard\<close>

lemma handler_puts:
  assumes "kb_wf (kb_in kb)"
  shows "kb_contents (kb_in (fst (fold keyboard_handler codes (kb, ks)))) = take 32 (kb_contents (kb_in kb) @ codes)"
    "kb_wf (kb_in (fst (fold keyboard_handler codes (kb, ks))))"
proof -
  have "kb_in (fst (fold keyboard_handler codes (kb, ks))) = kbq.puts codes (kb_in kb)"
    by (induction codes arbitrary: kb ks) (simp_all add: keyboard_handler_def)
  then show "kb_contents (kb_in (fst (fold keyboard_handler codes (kb, ks)))) = take 32 (kb_contents (kb_in kb) @ codes)"
      "kb_wf (kb_in (fst (fold keyboard_handler codes (kb, ks))))"
    using kbq.contents_puts [OF assms] kbq.wf_puts [OF assms] by simp_all
qed

text \<open>
  The keyboard interrupt handler loses nothing but overflow: after any sequence of scan codes
  the buffer holds the bytes that were there followed by the new ones, cut off at 32, in order.
\<close>
theorem keyboard_buffer_keeps_first:
  assumes "kb_wf (kb_in kb)"
  shows "kb_contents (kb_in (fst (fold keyboard_handler codes (kb, ks)))) =
      take 32 (kb_contents (kb_in kb) @ codes) \<and>
    kb_wf (kb_in (fst (fold keyboard_handler codes (kb, ks))))"
  using handler_puts [OF assms] by blast

theorem keyboard_buffer_keeps_first_witness:
  "kb_wf (kb_in kb0) \<and>
   kb_contents (kb_in (fst (fold keyboard_handler (replicate 40 0x1E) (kb0, cold)))) = replicate 32 0x1E"
  using keyboard_buffer_keeps_first [of kb0 "replicate 40 0x1E" cold] kb0_wf by simp

text \<open>
  Pause/Break is never recognised: when the six bytes a keyboard sends for it are at the front
  of the buffer, \<^verbatim>\<open>keyboard_read\<close> consumes two of them, treats the prefix as a key of its own, and
  leaves the other four to be read as keys.
\<close>
lemma pause_break_not_recognised:
  assumes "kb_wf (kb_in s)" "kb_contents (kb_in s) = pausebrk_scode @ bs"
  shows "\<exists>k. keyboard_read s = Inr (translate 0xE1 (s\<lparr>code_with_E0 := 0, kb_in := k\<rparr>)) \<and>
    kb_contents k = [0x45, 0xE1, 0x9D, 0xC5] @ bs"
  using pause_not_recognised [OF assms] .

definition kb_typed :: "u8 list \<Rightarrow> kb_state" where
  "kb_typed bs = fst (fold keyboard_handler bs (kb0, cold))"

lemma kb_typed_contents:
  "length bs \<le> 32 \<Longrightarrow> kb_contents (kb_in (kb_typed bs)) = bs" "kb_wf (kb_in (kb_typed bs))"
  unfolding kb_typed_def using handler_puts [OF kb0_wf(1), of bs cold] kb0_wf(2) by simp_all

lemma pause_break_not_recognised_witness:
  "\<exists>k. keyboard_read (kb_typed pausebrk_scode) =
       Inr (translate 0xE1 ((kb_typed pausebrk_scode)\<lparr>code_with_E0 := 0, kb_in := k\<rparr>)) \<and>
     kb_contents k = [0x45, 0xE1, 0x9D, 0xC5]"
  using pause_break_not_recognised [of "kb_typed pausebrk_scode" "[]"]
    kb_typed_contents [of pausebrk_scode]
  by (simp add: pausebrk_scode_def)

section \<open>Consoles\<close>

text \<open>
  C16. \<^verbatim>\<open>out_char\<close> returns on every console the kernel sets up: its scrolling loop ends. The cursor
  moves as the character demands and stays on the visible page, the character lands in the cell
  under the cursor, and no byte outside the console's own cells changes.
\<close>
theorem out_char_correct:
  assumes "console_ok c"
  shows "\<exists>c' s'. out_char ch (c, s) = Inr (c', s') \<and> out_char_post ch c s c' s'"
  using out_char_returns [OF assms] .

theorem out_char_correct_witness:
  "\<exists>c' s'. out_char 0x41 (console_table ttys0 1, scr ttys0) = Inr (c', s') \<and>
     out_char_post 0x41 (console_table ttys0 1) (scr ttys0) c' s'"
proof -
  have "console_ok (console_table ttys0 1)"
    using ttys0_inv by (simp add: tty_inv_def con_wf_def)
  from out_char_correct [OF this] show ?thesis .
qed

section \<open>Terminals\<close>

text \<open>
  \<^verbatim>\<open>init_tty\<close> returns and leaves three consistent terminals with empty buffers whose consoles
  own disjoint parts of the video memory, whatever the boot messages left on the first screen.
\<close>
theorem init_tty_correct:
  assumes "0 \<le> disp_pos st" "disp_pos st < 10922"
  shows "\<exists>st'. init_tty st = Inr st' \<and> tty_inv st' \<and>
    (\<forall>i j. i < 3 \<and> j < 3 \<and> i \<noteq> j \<longrightarrow> cells (console_table st' i) \<inter> cells (console_table st' j) = {})"
proof -
  obtain st' where st': "init_tty st = Inr st'" "tty_inv st'"
    using init_tty_inv [of st] assms by auto
  then have "con_wf i (console_table st' i)" if "i < 3" for i
    using that by (simp add: tty_inv_def)
  then show ?thesis
    using st' cells_disjoint by metis
qed

theorem init_tty_correct_witness:
  "disp_pos ttys0 < 10922 \<and> (\<exists>st'. init_tty ttys0 = Inr st' \<and> tty_inv st')"
  using init_tty_correct [of ttys0] by auto

text \<open>
  A write request to terminal \<open>t\<close> prints exactly the requested bytes of the process's buffer,
  in order and in chunks of two, on the console of that terminal, touches no other console, and
  is answered with the number of bytes written.
\<close>
theorem tty_write_request:
  assumes "tty_inv st" "t < 3" "mtype msg = DEV_WRITE" "DEVICE msg = int t" "0 \<le> CNT msg"
    "va2la_defined (t_procs st) (PROC_NR msg)"
  shows "\<exists>st1. out_chars (mem_bytes (t_mem st)
        (BUF msg + ldt_seg_linear (t_procs st (PROC_NR msg)) INDEX_LDT_RW) (nat (CNT msg))) t st = Inr st1 \<and>
      tty_inv st1 \<and> only_console t st st1 \<and>
      tty_dispatch msg (st, ks) = Inr (st1\<lparr>t_sent := t_sent st @ [Reply (source msg) msg]\<rparr>, ks)"
  using tty_do_write_ok [OF assms(1,2,6)] assms(2-5)
  by (auto simp: tty_dispatch_def tty_of_device_def)

definition write_msg :: MESSAGE where
  "write_msg = reset_msg\<lparr>mtype := DEV_WRITE, source := 3, m3i2 := 5, m3i3 := 6, m3i4 := 1, m3p2 := 0x1000\<rparr>"

lemma va2la_zero: "va2la_defined (\<lambda>_. zero_process) pid"
  by (simp add: va2la_defined_def ldt_seg_linear_def zero_process_def zero_descriptor_def descriptor_base_def)

theorem tty_write_request_witness:
  "\<exists>st1. tty_inv st1 \<and> only_console 1 ttys0 st1 \<and>
     tty_dispatch write_msg (ttys0, cold) = Inr (st1\<lparr>t_sent := [Reply 3 write_msg]\<rparr>, cold)"
  using tty_write_request [of ttys0 1 write_msg cold] ttys0_inv va2la_zero
  by (auto simp: write_msg_def reset_msg_def)

text \<open>
  C18. Backspace is not bounded by the start of the line: with no character delivered yet, a
  backspace moves the reader's position to before its buffer, and the next character typed
  overwrites the byte in front of the buffer.
\<close>
theorem tty_backspace_underflow:
  assumes "tty_inv st" "t < 3" "map ucast (tty_contents (tty_table st t)) = [8, ch]" "printable ch"
    "tty_trans_bytes (tty_table st t) = 0" "0 < tty_bytes_left (tty_table st t)"
  shows "\<exists>st'. tty_dev_write t st = Some (Inr st') \<and>
    t_mem st' = (t_mem st)(tty_read_buf (tty_table st t) - 1 := ch)"
proof -
  let ?p = "tty_table st t"
  let ?step = "rd_step (tty_read_buf ?p) (tty_caller ?p) (tty_pro_nr ?p)"
  obtain st' where st': "tty_dev_write t st = Some (Inr st')" "rd_of t st' = fold ?step [8, ch] (rd_of t st)"
    using tty_dev_write_ok [OF assms(1,2)] unfolding assms(3) by blast
  let ?l = "tty_bytes_left ?p"
  have "?step 8 (t_mem st, ?l, 0, t_sent st) = (t_mem st, ?l + 1, -1, t_sent st)"
    using assms(6) by (auto simp: rd_step_def rd_feed_def rd_finish_def printable_def)
  moreover have "?step ch (t_mem st, ?l + 1, -1, t_sent st) =
      ((t_mem st)(tty_read_buf ?p + of_int (-1) := ch), ?l + 1 - 1, -1 + 1, t_sent st)"
    using assms(4,6) by (intro rd_step_printable) auto
  ultimately have "rd_of t st' = ((t_mem st)(tty_read_buf ?p + of_int (-1) := ch), ?l + 1 - 1, -1 + 1, t_sent st)"
    using st'(2) assms(5) by (simp only: rd_of_def Let_def fold_simps)
  then show ?thesis
    using st'(1) by (auto simp: rd_of_def Let_def)
qed

definition reading0 :: tty_state where
  "reading0 = upd_tty 0 (\<lambda>p. p\<lparr>tty_read_buf := 0x1000, tty_bytes_left := 70\<rparr>) (typed [8, 0x41] 0 ttys0)"

lemma reading0_facts:
  "tty_inv reading0" "tty_contents (tty_table reading0 0) = [8, 0x41]"
  "tty_trans_bytes (tty_table reading0 0) = 0" "tty_bytes_left (tty_table reading0 0) = 70"
  "tty_read_buf (tty_table reading0 0) = 0x1000"
proof -
  let ?p = "tty_table (typed [8, 0x41] 0 ttys0) 0"
  show "tty_inv reading0"
    unfolding reading0_def using typed_inv [OF ttys0_inv, of 0]
    by (intro tty_inv_upd_tty) (simp_all add: tty_wf_def)
  have "tty_contents (?p\<lparr>tty_read_buf := 0x1000, tty_bytes_left := 70\<rparr>) = tty_contents ?p"
    by (simp add: tty_contents_def)
  then show "tty_contents (tty_table reading0 0) = [8, 0x41]"
    using typed_contents [OF ttys0_inv, of 0 "[8, 0x41]"] by (simp add: reading0_def upd_tty_def)
  show "tty_trans_bytes (tty_table reading0 0) = 0"
    by (simp add: reading0_def upd_tty_def typed_def put_key_def tty_put_eq ttys0_def tty0_def)
  show "tty_bytes_left (tty_table reading0 0) = 70" "tty_read_buf (tty_table reading0 0) = 0x1000"
    by (simp_all add: reading0_def upd_tty_def)
qed

theorem tty_backspace_underflow_witness:
  "\<exists>st'. tty_dev_write 0 reading0 = Some (Inr st') \<and> t_mem st' 0xFFF = 0x41"
  using tty_backspace_underflow [of reading0 0 "0x41"] reading0_facts by (auto simp: printable_def)

text \<open>
  C13. A key press reaches the reader of the current terminal: when the scan code of a character key
  is next in the keyboard buffer, serving the terminal returns, takes that byte from the
  keyboard, and hands the reader exactly the character the key map has for it, in the shift
  column if a shift key is down and whatever other modifiers are held.
\<close>
theorem typed_character_reaches_reader:
  assumes "tty_inv st" "t < 3" "nr_cur_console st = int t" "tty_contents (tty_table st t) = []"
    "kb_wf (kb_in kb)" "kb_contents (kb_in kb) = c # bs" "c \<noteq> 0xE0" "c \<noteq> 0xE1" "is_make c"
    "plain_code c kb < 0x80"
  shows "\<exists>st' kb'. tty_serve t (st, kb) = Some (Inr (st', kb')) \<and> tty_inv st' \<and>
    kb_wf (kb_in kb') \<and> kb_contents (kb_in kb') = bs \<and>
    rd_of t st' = rd_step (tty_read_buf (tty_table st t)) (tty_caller (tty_table st t))
      (tty_pro_nr (tty_table st t)) (ucast (plain_code c kb)) (rd_of t st)"
proof -
  let ?key = "plain_code c kb OR modifiers kb"
  have "plain_code c (kb\<lparr>code_with_E0 := 0\<rparr>) = plain_code c kb" "modifiers (kb\<lparr>code_with_E0 := 0\<rparr>) = modifiers kb"
    by (simp_all add: plain_code_def modifiers_def)
  then have tr: "fst (translate c (kb\<lparr>code_with_E0 := 0\<rparr>)) = Some ?key"
    using translate_plain [of c "kb\<lparr>code_with_E0 := 0\<rparr>"] assms(9,10) by simp
  obtain kb' where kb': "keyboard_read kb = Inr (Some ?key, kb')" "kb_wf (kb_in kb')" "kb_contents (kb_in kb') = bs"
    using keyboard_read_rest [OF assms(5,6,7,8)] unfolding tr by blast
  note pk = plain_key_bits [OF assms(10), of kb]
  define st1 where "st1 = in_process ?key t st"
  have pc: "p_con (tty_table st t) = t"
    using assms(1,2) by (simp add: tty_inv_def)
  have rd: "tty_dev_read t (st, kb) = Inr (st1, kb')"
    using kb'(1) pc assms(3) by (simp add: tty_dev_read_def is_cur_console_def st1_def)
  have inv: "tty_inv st1"
    unfolding st1_def by (rule in_process_inv [OF assms(1,2)])
  have cont: "tty_contents (tty_table st1 t) = [?key]"
    unfolding st1_def using in_process_plain [OF pk(1) assms(1,2)] assms(4) by simp
  have st1: "rd_of t st1 = rd_of t st" "tty_read_buf (tty_table st1 t) = tty_read_buf (tty_table st t)"
    "tty_caller (tty_table st1 t) = tty_caller (tty_table st t)"
    "tty_pro_nr (tty_table st1 t) = tty_pro_nr (tty_table st t)"
    using pk(1) by (simp_all add: st1_def in_process_def put_key_def tty_put_eq rd_of_def Let_def)
  obtain st2 where 2: "tty_dev_write t st1 = Some (Inr st2)" "tty_inv st2" "tty_contents (tty_table st2 t) = []"
    "rd_of t st2 = rd_step (tty_read_buf (tty_table st t)) (tty_caller (tty_table st t))
      (tty_pro_nr (tty_table st t)) (ucast (plain_code c kb)) (rd_of t st)"
    using tty_dev_write_ok [OF inv assms(2)] unfolding cont st1 using pk(2) by auto
  have "tty_serve t (st, kb) = Some (Inr (st2, kb'))"
    using rd 2(1) tty_empty_iff [of "tty_table st2 t"] 2(3) by (subst tty_serve.simps) simp
  then show ?thesis
    using 2 kb' by blast
qed

theorem typed_character_reaches_reader_witness:
  "plain_code 0x1E (kb_typed [0x1E]) = 0x61 \<and>
   (\<exists>st' kb'. tty_serve 0 (ttys0, kb_typed [0x1E]) = Some (Inr (st', kb')) \<and>
     tty_inv st' \<and> kb_contents (kb_in kb') = [])"
proof -
  have p: "plain_code 0x1E (kb_typed [0x1E]) = 0x61"
    by (simp add: plain_code_def kb_typed_def keyboard_handler_def kb0_def init_keyboard_def set_leds_def
        keymap_def keymap_table_def Let_def)
  show ?thesis
    using typed_character_reaches_reader [of ttys0 0 "kb_typed [0x1E]" "0x1E" "[]"]
      ttys0_inv kb_typed_contents [of "[0x1E]"] p
    by (auto simp: is_make_def)
qed

end
