(* ===== verification/Tty_Task.thy ===== *)
theory Tty_Task
  imports Terminals
begin

text \<open>
  The loop of \<^verbatim>\<open>task_tty\<close>: initialisation, then rounds of polling every terminal, receiving a message and handling it,
  interleaved with keyboard interrupts and with whatever other processes do to memory.
\<close>

section \<open>The task\<close>

text \<open>
  What happens while the task waits for a message: scan codes arrive, other processes change memory by \<open>ev_mem\<close>, the process
  table changes, and then the message comes.
\<close>

record tty_event =
  ev_codes :: "u8 list"
  ev_mem :: "(u32 \<Rightarrow> u8) \<Rightarrow> u32 \<Rightarrow> u8"
  ev_procs :: proc_tab
  ev_msg :: MESSAGE

definition tty_round :: "tty_event \<Rightarrow> tty_state \<times> kb_state \<times> kstate \<Rightarrow> (tty_state \<times> kb_state \<times> kstate) res" where
  "tty_round ev x =
     (case x of (st, kb, ks) \<Rightarrow>
      res_bind (tty_poll (st, kb)) (\<lambda>(st1, kb1).
      case fold keyboard_handler (ev_codes ev) (kb1, ks) of (kb2, ks1) \<Rightarrow>
      res_bind (tty_dispatch (ev_msg ev) (st1\<lparr>t_mem := ev_mem ev (t_mem st1), t_procs := ev_procs ev\<rparr>, ks1)) (\<lambda>(st2, ks2).
      Inr (st2, kb2, ks2))))"

fun tty_rounds :: "tty_event list \<Rightarrow> tty_state \<times> kb_state \<times> kstate \<Rightarrow> (tty_state \<times> kb_state \<times> kstate) res" where
  "tty_rounds [] x = Inr x"
| "tty_rounds (ev # evs) x = res_bind (tty_round ev x) (tty_rounds evs)"


section \<open>Safe runs\<close>

text \<open>\<open>run plain P r\<close>: \<open>r\<close> is a result with \<open>P\<close>, or a wait for a scan code, and no wait if all scan codes are \<open>plain\<close>.\<close>

definition run :: "bool \<Rightarrow> ('a \<Rightarrow> bool) \<Rightarrow> 'a res \<Rightarrow> bool" where
  "run plain P r \<longleftrightarrow> (case r of Inl err \<Rightarrow> err = Hang \<and> \<not> plain | Inr x \<Rightarrow> P x)"

lemma run_Inr [simp]: "run plain P (Inr x) \<longleftrightarrow> P x"
  by (simp add: run_def)

lemma run_Inl [simp]: "run plain P (Inl err) \<longleftrightarrow> err = Hang \<and> \<not> plain"
  by (simp add: run_def)


lemma run_mono: "run plain P r \<Longrightarrow> (\<And>x. P x \<Longrightarrow> R x) \<Longrightarrow> run plain R r"
  by (cases r) simp_all

definition plain_codes :: "u8 list \<Rightarrow> bool" where
  "plain_codes codes \<longleftrightarrow> 0xE0 \<notin> set codes \<and> 0xE1 \<notin> set codes"

definition kb_ok :: "bool \<Rightarrow> kb_state \<Rightarrow> bool" where
  "kb_ok plain kb \<longleftrightarrow> kb_wf (kb_in kb) \<and> (plain \<longrightarrow> plain_codes (kb_contents (kb_in kb)))"

section \<open>The keyboard\<close>



lemma kb_ok_fields [simp]:
  "kb_ok plain (s\<lparr>code_with_E0 := n\<rparr>) = kb_ok plain s" "kb_ok plain (snd (translate c s)) = kb_ok plain s"
  by (simp_all add: kb_ok_def translate_kb_in)




section \<open>A round\<close>













section \<open>Typing a line\<close>

text \<open>
  What \<^verbatim>\<open>in_process\<close> puts into the buffer for a key, and the keys that it handles in another way: they switch the console
  or scroll.
\<close>

definition key_char :: "u32 \<Rightarrow> u32 option" where
  "key_char key =
     (if key AND FLAG_EXT = 0 then Some key
      else if key AND MASK_RAW = ENTER then Some 10
      else if key AND MASK_RAW = BACKSPACE then Some 8
      else None)"

definition key_moves :: "u32 \<Rightarrow> bool" where
  "key_moves key \<longleftrightarrow> key AND FLAG_EXT \<noteq> 0 \<and> key AND MASK_RAW \<in> {F1, F2, F3, F4, F5, F6, F7, F8, F9, UP, DOWN}"

lemma in_process_char:
  "\<not> key_moves key \<Longrightarrow> in_process key t st = (case key_char key of None \<Rightarrow> st | Some ch \<Rightarrow> put_key t ch st)"
  unfolding in_process_def key_char_def key_moves_def Let_def by auto

text \<open>
  The line that a sequence of scan codes stands for: presses of character keys, with the releases of keys and the modifier keys
  pressed between them, up to the press of Enter at the end. \<open>None\<close> if it is not such a sequence.
\<close>

fun typed_line :: "u8 list \<Rightarrow> kb_state \<Rightarrow> u8 list option" where
  "typed_line [] kb = None"
| "typed_line (c # codes) kb =
     (if c = 0xE0 \<or> c = 0xE1 then None
      else case translate c (kb\<lparr>code_with_E0 := 0\<rparr>) of (ko, kb1) \<Rightarrow>
        (case ko of
           None \<Rightarrow> typed_line codes kb1
         | Some key \<Rightarrow>
             if key_moves key then None
             else case key_char key of
               None \<Rightarrow> typed_line codes kb1
             | Some ch \<Rightarrow>
                 if (ucast ch :: u8) = 10 then (if codes = [] then Some [] else None)
                 else if printable (ucast ch) then map_option (\<lambda>cs. ucast ch # cs) (typed_line codes kb1)
                 else None))"

lemma translate_buffer: "translate c (s\<lparr>kb_in := k\<rparr>) = (fst (translate c s), (snd (translate c s))\<lparr>kb_in := k\<rparr>)"
proof -
  have n: "note_key key b (s\<lparr>kb_in := k, column := n\<rparr>) = (note_key key b (s\<lparr>column := n\<rparr>))\<lparr>kb_in := k\<rparr>"
    "note_key key b (s\<lparr>kb_in := k, column := n, code_with_E0 := e\<rparr>) =
     (note_key key b (s\<lparr>column := n, code_with_E0 := e\<rparr>))\<lparr>kb_in := k\<rparr>" for key b n e
    by (simp_all add: note_key_def set_leds_def)
  have "modifiers (x\<lparr>kb_in := k\<rparr>) = modifiers x" "num_lock (x\<lparr>kb_in := k\<rparr>) = num_lock x" for x
    by (simp_all add: modifiers_def)
  then show ?thesis
    by (simp add: translate_def Let_def n)
qed

lemma typed_line_buffer: "typed_line codes (kb\<lparr>kb_in := k\<rparr>) = typed_line codes kb"
proof (induction codes arbitrary: kb)
  case (Cons c codes)
  have "kb\<lparr>kb_in := k, code_with_E0 := 0\<rparr> = kb\<lparr>code_with_E0 := 0, kb_in := k\<rparr>"
    by (cases kb) simp
  then have "translate c (kb\<lparr>kb_in := k, code_with_E0 := 0\<rparr>) =
      (fst (translate c (kb\<lparr>code_with_E0 := 0\<rparr>)), (snd (translate c (kb\<lparr>code_with_E0 := 0\<rparr>)))\<lparr>kb_in := k\<rparr>)"
    by (metis translate_buffer)
  then show ?case
    by (auto simp: Cons.IH case_prod_beta split: option.split)
qed simp

subsection \<open>Polling\<close>

text \<open>Between two messages: all input buffers are empty, and terminal \<open>t\<close> is the current one.\<close>

definition polled :: "nat \<Rightarrow> tty_state \<Rightarrow> bool" where
  "polled t st \<longleftrightarrow> tty_inv st \<and> t < 3 \<and> nr_cur_console st = int t \<and> (\<forall>u < 3. tty_contents (tty_table st u) = [])"

lemma tty_dev_write_empty: "tty_contents (tty_table st u) = [] \<Longrightarrow> tty_dev_write u st = Some (Inr st)"
  using tty_empty_iff [of "tty_table st u"] by (subst tty_dev_write.simps) simp

lemma serve_other:
  assumes "polled t st" "u < 3" "u \<noteq> t"
  shows "tty_serve_res u (st, kb) = Inr (st, kb)"
proof -
  have "\<not> is_cur_console (p_con (tty_table st u)) st" "tty_contents (tty_table st u) = []"
    using assms by (auto simp: polled_def tty_inv_def is_cur_console_def)
  then show ?thesis
    using tty_empty_iff [of "tty_table st u"]
    by (simp add: tty_serve_res_def tty_serve.simps [of u] tty_dev_read_def tty_dev_write_empty)
qed

lemma poll_is_serve:
  assumes "polled t st" "tty_serve_res t (st, kb) = Inr (st', kb')" "polled t st'"
  shows "tty_poll (st, kb) = Inr (st', kb')"
proof -
  have "t = 0 \<or> t = 1 \<or> t = 2"
    using assms(1) by (auto simp: polled_def)
  then show ?thesis
    using assms(2) serve_other [OF assms(1), of _ kb] serve_other [OF assms(3), of _ kb'] by (auto simp: tty_poll_def)
qed

lemma serve_read:
  assumes "polled t st" "keyboard_read kb = Inr (ko, kb')" "tty_dev_write t (case ko of None \<Rightarrow> st | Some k \<Rightarrow> in_process k t st) = Some (Inr st')"
    "tty_contents (tty_table st' t) = []"
  shows "tty_serve_res t (st, kb) = Inr (st', kb')"
proof -
  have "is_cur_console (p_con (tty_table st t)) st"
    using assms(1) by (auto simp: polled_def tty_inv_def is_cur_console_def)
  then show ?thesis
    using assms(2-4) tty_empty_iff [of "tty_table st' t"] by (simp add: tty_serve_res_def tty_serve.simps [of t] tty_dev_read_def)
qed

lemma poll_idle:
  assumes "polled t st" "kb_wf (kb_in kb)" "kb_contents (kb_in kb) = []"
  shows "tty_poll (st, kb) = Inr (st, kb)"
proof -
  have e: "tty_contents (tty_table st t) = []"
    using assms(1) by (simp add: polled_def)
  have "keyboard_read kb = Inr (None, kb)"
    using assms(2,3) kb_empty_iff [of "kb_in kb"] by (simp add: keyboard_read_def)
  from serve_read [OF assms(1) this, of st] show ?thesis
    using assms(1) e by (intro poll_is_serve) (simp_all add: tty_dev_write_empty)
qed

text \<open>The effect of one scan code on the reader.\<close>

definition rd_key :: "nat \<Rightarrow> tty_state \<Rightarrow> u32 option \<Rightarrow> rd_view" where
  "rd_key t st ko = (case Option.bind ko key_char of
     None \<Rightarrow> rd_of t st
   | Some ch \<Rightarrow> rd_step (tty_read_buf (tty_table st t)) (tty_caller (tty_table st t)) (tty_pro_nr (tty_table st t)) (ucast ch) (rd_of t st))"

lemma put_key_serve:
  assumes "polled t st"
  shows "\<exists>st'. tty_dev_write t (put_key t ch st) = Some (Inr st') \<and> polled t st' \<and> same_request t st st' \<and>
    rd_of t st' = rd_step (tty_read_buf (tty_table st t)) (tty_caller (tty_table st t)) (tty_pro_nr (tty_table st t)) (ucast ch) (rd_of t st)"
proof -
  let ?st1 = "put_key t ch st"
  have p: "tty_inv st" "t < 3" "tty_contents (tty_table st t) = []"
    using assms by (simp_all add: polled_def)
  have "tty_contents (tty_table ?st1 t) = [ch]"
    using ttyq.contents_put [of "tty_table st t" ch] p by (auto simp: put_key_def tty_inv_def)
  moreover have f: "rd_of t ?st1 = rd_of t st" "same_request t st ?st1"
    by (simp_all add: put_key_def tty_put_eq rd_of_def same_request_def Let_def)
  moreover obtain st' where st': "tty_dev_write t ?st1 = Some (Inr st')" "tty_inv st'" "same_request t ?st1 st'" "tty_contents (tty_table st' t) = []"
      "rd_of t st' = fold (rd_step (tty_read_buf (tty_table ?st1 t)) (tty_caller (tty_table ?st1 t))
         (tty_pro_nr (tty_table ?st1 t))) (map ucast (tty_contents (tty_table ?st1 t))) (rd_of t ?st1)"
    using tty_dev_write_ok [OF put_key_inv [OF p(1,2)] p(2), of ch] by blast
  moreover have "same_request t st st'"
    using same_request_trans [OF f(2) st'(3)] .
  moreover have "polled t st'"
    using assms st'(2,4) \<open>same_request t st st'\<close> by (auto simp: polled_def same_request_def)
  ultimately show ?thesis
    by (auto simp: same_request_def)
qed

lemma poll_key:
  assumes p: "polled t st" and kb: "kb_wf (kb_in kb)" "kb_contents (kb_in kb) = [c]" "c \<noteq> 0xE0" "c \<noteq> 0xE1"
    and tr: "translate c (kb\<lparr>code_with_E0 := 0\<rparr>) = (ko, kb1)" "\<forall>key. ko = Some key \<longrightarrow> \<not> key_moves key"
  shows "\<exists>st' k. tty_poll (st, kb) = Inr (st', kb1\<lparr>kb_in := k\<rparr>) \<and> polled t st' \<and> kb_wf k \<and> kb_contents k = [] \<and>
    same_request t st st' \<and> rd_of t st' = rd_key t st ko"
proof -
  obtain k where k: "keyboard_read kb = Inr (translate c (kb\<lparr>code_with_E0 := 0, kb_in := k\<rparr>))" "kb_wf k" "kb_contents k = []"
    using keyboard_read_plain [OF kb] by blast
  then have rd: "keyboard_read kb = Inr (ko, kb1\<lparr>kb_in := k\<rparr>)"
    using translate_buffer [where c = c and s = "kb\<lparr>code_with_E0 := 0\<rparr>" and k = k] tr(1) by simp
  have "\<exists>st'. tty_dev_write t (case ko of None \<Rightarrow> st | Some key \<Rightarrow> in_process key t st) = Some (Inr st') \<and> polled t st' \<and> same_request t st st' \<and>
      rd_of t st' = rd_key t st ko"
  proof (cases "Option.bind ko key_char")
    case None
    then have "(case ko of None \<Rightarrow> st | Some key \<Rightarrow> in_process key t st) = st"
      using tr(2) by (auto simp: in_process_char split: option.split)
    then show ?thesis
      using p None by (auto simp: rd_key_def polled_def tty_dev_write_empty)
  next
    case (Some ch)
    then have "(case ko of None \<Rightarrow> st | Some key \<Rightarrow> in_process key t st) = put_key t ch st"
      using tr(2) by (cases ko) (auto simp: in_process_char)
    then show ?thesis
      using put_key_serve [OF p, of ch] Some by (simp add: rd_key_def)
  qed
  then obtain st' where st': "tty_dev_write t (case ko of None \<Rightarrow> st | Some key \<Rightarrow> in_process key t st) = Some (Inr st')" "polled t st'"
      "same_request t st st'" "rd_of t st' = rd_key t st ko"
    by blast
  have "tty_contents (tty_table st' t) = []"
    using st'(2) by (simp add: polled_def)
  from poll_is_serve [OF p serve_read [OF p rd st'(1) this] st'(2)] show ?thesis
    using st' k by blast
qed

subsection \<open>Rounds\<close>

text \<open>
  A round in which at most one scan code arrives and the clock wakes the task, while the other processes leave \<open>n\<close> bytes at \<open>la\<close> alone.
\<close>

definition key_event :: "u32 \<Rightarrow> nat \<Rightarrow> tty_event \<Rightarrow> bool" where
  "key_event la n ev \<longleftrightarrow> length (ev_codes ev) \<le> 1 \<and> mtype (ev_msg ev) = HARD_INT \<and>
     (\<forall>m. mem_bytes (ev_mem ev m) la n = mem_bytes m la n)"

lemma handler_keeps: "\<exists>k ks'. fold keyboard_handler codes (kb, ks) = (kb\<lparr>kb_in := k\<rparr>, ks')"
proof (induction codes arbitrary: kb ks)
  case Nil
  then show ?case
    by (auto intro!: exI [of _ "kb_in kb"])
next
  case (Cons c codes)
  then show ?case
    using Cons [of "kb\<lparr>kb_in := kb_put c (kb_in kb)\<rparr>"] by (simp add: keyboard_handler_def)
qed

lemma polled_frame [simp]: "polled t (st\<lparr>t_mem := m, t_procs := p\<rparr>) = polled t st"
  by (simp add: polled_def tty_inv_def)

lemma key_round:
  assumes "tty_poll (st, kb) = Inr (st1, kb1)" "kb_wf (kb_in kb1)" "kb_contents (kb_in kb1) = []" "key_event la n ev"
  shows "\<exists>k ks'. tty_round ev (st, kb, ks) = Inr (st1\<lparr>t_mem := ev_mem ev (t_mem st1), t_procs := ev_procs ev\<rparr>, kb1\<lparr>kb_in := k\<rparr>, ks') \<and>
    kb_wf k \<and> kb_contents k = ev_codes ev"
proof -
  obtain k ks' where k: "fold keyboard_handler (ev_codes ev) (kb1, ks) = (kb1\<lparr>kb_in := k\<rparr>, ks')"
    using handler_keeps by blast
  have "kb_wf k" "kb_contents k = ev_codes ev"
    using handler_puts [OF assms(2), of "ev_codes ev" ks] assms(3,4) by (simp_all add: k key_event_def)
  then show ?thesis
    using assms(1,4) k by (intro exI [of _ k] exI [of _ "ks'\<lparr>key_pressed := 0\<rparr>"]) (simp add: tty_round_def tty_dispatch_def key_event_def)
qed

text \<open>
  The state of a reader: its buffer at \<open>la\<close> holds the characters delivered so far; if the other processes leave all of memory
  alone, memory is otherwise as it was, \<open>m0\<close>.
\<close>

definition buffer_holds :: "bool \<Rightarrow> u32 \<Rightarrow> (u32 \<Rightarrow> u8) \<Rightarrow> u8 list \<Rightarrow> (u32 \<Rightarrow> u8) \<Rightarrow> bool" where
  "buffer_holds alone la m0 got m \<longleftrightarrow> mem_bytes m la (length got) = got \<and> (alone \<longrightarrow> m = write_bytes la got m0)"

definition reader :: "bool \<Rightarrow> u32 \<Rightarrow> (u32 \<Rightarrow> u8) \<Rightarrow> int \<Rightarrow> int \<Rightarrow> nat \<Rightarrow> u8 list \<Rightarrow> int \<Rightarrow> tty_msg list \<Rightarrow> tty_state \<Rightarrow> bool" where
  "reader alone la m0 caller nr t got left out st \<longleftrightarrow> polled t st \<and>
     tty_read_buf (tty_table st t) = la \<and> tty_caller (tty_table st t) = caller \<and> tty_pro_nr (tty_table st t) = nr \<and>
     (\<exists>m. rd_of t st = (m, left, int (length got), out) \<and> buffer_holds alone la m0 got m)"

lemma buffer_holds_put:
  assumes "buffer_holds alone la m0 got m" "length got < 2 ^ 32"
  shows "buffer_holds alone la m0 (got @ [ch]) (m(la + of_nat (length got) := ch))"
proof -
  let ?m = "m(la + of_nat (length got) := ch)"
  have "la + of_nat i \<noteq> la + of_nat (length got)" if "i < length got" for i
  proof -
    have "unat (of_nat i :: u32) = i" "unat (of_nat (length got) :: u32) = length got"
      using that assms(2) by (simp_all add: unat_of_nat take_bit_nat_eq_self)
    then show ?thesis
      using that by (metis add_left_cancel less_irrefl)
  qed
  then have "mem_bytes ?m la (length got) = mem_bytes m la (length got)"
    by (auto simp: mem_bytes_def)
  moreover have "mem_bytes ?m (la + of_nat (length got)) 1 = [ch]"
    by (simp add: mem_bytes_def)
  ultimately have "mem_bytes ?m la (Suc (length got)) = got @ [ch]"
    using assms(1) mem_bytes_split [of "length got" "Suc (length got)" ?m la] by (simp add: buffer_holds_def)
  then show ?thesis
    using assms(1) by (auto simp: buffer_holds_def write_bytes_append)
qed

lemma reader_others:
  assumes "reader alone la m0 caller nr t got left out st" "key_event la n ev" "length got \<le> n" "alone \<Longrightarrow> ev_mem ev = (\<lambda>m. m)"
  shows "reader alone la m0 caller nr t got left out (st\<lparr>t_mem := ev_mem ev (t_mem st), t_procs := ev_procs ev\<rparr>)"
proof -
  have "mem_bytes (ev_mem ev m) la (length got) = mem_bytes m la (length got)" for m
    using assms(2,3) take_mem_bytes [of "length got" n] by (metis key_event_def)
  then show ?thesis
    using assms(1,4) by (auto simp: reader_def rd_of_def buffer_holds_def Let_def)
qed

lemma reader_same:
  assumes "reader alone la m0 caller nr t got left out st" "polled t st'" "same_request t st st'"
    "\<exists>m. rd_of t st' = (m, left', int (length got'), out') \<and> buffer_holds alone la m0 got' m"
  shows "reader alone la m0 caller nr t got' left' out' st'"
  using assms by (auto simp: reader_def same_request_def)

lemma reader_char:
  assumes "reader alone la m0 caller nr t got left out st" "polled t st'" "same_request t st st'" "rd_of t st' = rd_key t st ko"
    "Option.bind ko key_char = Some ch" "printable (ucast ch)" "1 < left" "length got < 2 ^ 32"
  shows "reader alone la m0 caller nr t (got @ [ucast ch]) (left - 1) out st'"
proof -
  obtain m where m: "rd_of t st = (m, left, int (length got), out)" "buffer_holds alone la m0 got m"
    using assms(1) by (auto simp: reader_def)
  have "rd_of t st' = (m(la + of_nat (length got) := ucast ch), left - 1, int (length (got @ [ucast ch])), out)"
    using assms(1,4-7) m(1) by (simp add: rd_key_def reader_def rd_step_printable)
  then show ?thesis
    using buffer_holds_put [OF m(2) assms(8)] by (intro reader_same [OF assms(1-3)]) blast
qed

lemma reader_enter:
  assumes "reader alone la m0 caller nr t got left out st" "polled t st'" "same_request t st st'" "rd_of t st' = rd_key t st ko"
    "Option.bind ko key_char = Some ch" "(ucast ch :: u8) = 10" "0 < left"
  shows "reader alone la m0 caller nr t got 0 (out @ [Resume caller nr (int (length got))]) st'"
proof -
  obtain m where m: "rd_of t st = (m, left, int (length got), out)" "buffer_holds alone la m0 got m"
    using assms(1) by (auto simp: reader_def)
  have "rd_of t st' = (m, 0, int (length got), out @ [Resume caller nr (int (length got))])"
    using assms(1,4-7) m(1) by (simp add: rd_key_def reader_def rd_step_newline)
  then show ?thesis
    using m(2) by (intro reader_same [OF assms(1-3)]) blast
qed

text \<open>Nothing happens after the line, and the characters of the line arrive one by one.\<close>

lemma rounds_after_line:
  assumes "reader alone la m0 caller nr t line left out st" "kb_wf (kb_in kb)" "kb_contents (kb_in kb) = []"
    "\<forall>ev\<in>set evs. key_event la (length line) ev \<and> ev_codes ev = []" "alone \<Longrightarrow> \<forall>ev\<in>set evs. ev_mem ev = (\<lambda>m. m)"
  shows "\<exists>st' kb' ks'. tty_rounds evs (st, kb, ks) = Inr (st', kb', ks') \<and> reader alone la m0 caller nr t line left out st' \<and>
    kb_wf (kb_in kb') \<and> kb_contents (kb_in kb') = []"
  using assms
proof (induction evs arbitrary: st kb ks)
  case (Cons ev evs)
  have p: "tty_poll (st, kb) = Inr (st, kb)"
    using Cons.prems(1-3) by (intro poll_idle [of t]) (simp_all add: reader_def)
  have ev: "key_event la (length line) ev" "ev_codes ev = []"
    using Cons.prems(4) by simp_all
  obtain k ks' where k: "tty_round ev (st, kb, ks) = Inr (st\<lparr>t_mem := ev_mem ev (t_mem st), t_procs := ev_procs ev\<rparr>, kb\<lparr>kb_in := k\<rparr>, ks')"
      "kb_wf k" "kb_contents k = []"
    using key_round [OF p Cons.prems(2,3) ev(1), of ks] ev(2) by auto
  have "reader alone la m0 caller nr t line left out (st\<lparr>t_mem := ev_mem ev (t_mem st), t_procs := ev_procs ev\<rparr>)"
    using Cons.prems(5) by (intro reader_others [OF Cons.prems(1) ev(1)]) simp_all
  moreover have "kb_wf (kb_in (kb\<lparr>kb_in := k\<rparr>))" "kb_contents (kb_in (kb\<lparr>kb_in := k\<rparr>)) = []"
    using k(2,3) by simp_all
  moreover have "\<forall>ev\<in>set evs. key_event la (length line) ev \<and> ev_codes ev = []" "alone \<Longrightarrow> \<forall>ev\<in>set evs. ev_mem ev = (\<lambda>m. m)"
    using Cons.prems(4,5) by simp_all
  ultimately show ?case
    unfolding tty_rounds.simps k(1) res_bind_Inr by (rule Cons.IH)
qed auto

lemma typed_line_Cons:
  assumes "typed_line (c # codes) kb = Some rest"
  obtains ko kb1 where "c \<noteq> 0xE0" "c \<noteq> 0xE1" "translate c (kb\<lparr>code_with_E0 := 0\<rparr>) = (ko, kb1)" "\<forall>key. ko = Some key \<longrightarrow> \<not> key_moves key"
    "(case Option.bind ko key_char of
        None \<Rightarrow> typed_line codes kb1 = Some rest
      | Some ch \<Rightarrow> if (ucast ch :: u8) = 10 then codes = [] \<and> rest = []
          else printable (ucast ch) \<and> (\<exists>rest'. typed_line codes kb1 = Some rest' \<and> rest = ucast ch # rest'))"
proof -
  obtain ko kb1 where tr: "translate c (kb\<lparr>code_with_E0 := 0\<rparr>) = (ko, kb1)"
    by fastforce
  show ?thesis
    using assms tr by (intro that [of ko kb1]) (auto split: option.splits if_splits)
qed

lemma rounds_line:
  assumes "reader alone la m0 caller nr t got left out st" "kb_wf (kb_in kb)" "typed_line (kb_contents (kb_in kb) @ concat (map ev_codes keys)) kb = Some rest"
    "length (kb_contents (kb_in kb)) \<le> 1" "\<forall>ev\<in>set (keys @ [tick]). key_event la (length (got @ rest)) ev" "ev_codes tick = []"
    "alone \<Longrightarrow> \<forall>ev\<in>set (keys @ [tick]). ev_mem ev = (\<lambda>m. m)" "int (length rest) < left" "length (got @ rest) < 2 ^ 32"
  shows "\<exists>st' kb' ks'. tty_rounds (keys @ [tick]) (st, kb, ks) = Inr (st', kb', ks') \<and>
    reader alone la m0 caller nr t (got @ rest) 0 (out @ [Resume caller nr (int (length (got @ rest)))]) st' \<and>
    kb_wf (kb_in kb') \<and> kb_contents (kb_in kb') = []"
  using assms
proof (induction keys arbitrary: st kb ks got left rest)
  case Nil
  obtain c where c: "kb_contents (kb_in kb) = [c]"
    using Nil.prems(3,4) by (cases "kb_contents (kb_in kb)") auto
  obtain st1 kb1 where p: "tty_poll (st, kb) = Inr (st1, kb1)" "kb_wf (kb_in kb1)" "kb_contents (kb_in kb1) = []" "rest = []"
      "reader alone la m0 caller nr t got 0 (out @ [Resume caller nr (int (length got))]) st1"
  proof -
    obtain ko kb1 where tr: "c \<noteq> 0xE0" "c \<noteq> 0xE1" "translate c (kb\<lparr>code_with_E0 := 0\<rparr>) = (ko, kb1)" "\<forall>key. ko = Some key \<longrightarrow> \<not> key_moves key"
      "case Option.bind ko key_char of None \<Rightarrow> typed_line [] kb1 = Some rest
        | Some ch \<Rightarrow> if (ucast ch :: u8) = 10 then ([] :: u8 list) = [] \<and> rest = []
            else printable (ucast ch) \<and> (\<exists>rest'. typed_line [] kb1 = Some rest' \<and> rest = ucast ch # rest')"
      using typed_line_Cons [of c "[]" kb rest] Nil.prems(3) c by auto
    then obtain ch where ch: "Option.bind ko key_char = Some ch" "(ucast ch :: u8) = 10" "rest = []"
      by (auto split: option.splits if_splits)
    have "polled t st"
      using Nil.prems(1) by (simp add: reader_def)
    from poll_key [OF this Nil.prems(2) c tr(1-4)] obtain st1 k where 1: "tty_poll (st, kb) = Inr (st1, kb1\<lparr>kb_in := k\<rparr>)" "polled t st1" "kb_wf k"
        "kb_contents k = []" "same_request t st st1" "rd_of t st1 = rd_key t st ko"
      by blast
    show ?thesis
      using 1(1,3,4) ch reader_enter [OF Nil.prems(1) 1(2,5,6) ch(1,2)] Nil.prems(8) by (intro that [of st1 "kb1\<lparr>kb_in := k\<rparr>"]) simp_all
  qed
  have ev: "key_event la (length got) tick"
    using Nil.prems(5) p(4) by simp
  obtain k ks' where k: "tty_round tick (st, kb, ks) = Inr (st1\<lparr>t_mem := ev_mem tick (t_mem st1), t_procs := ev_procs tick\<rparr>, kb1\<lparr>kb_in := k\<rparr>, ks')"
      "kb_wf k" "kb_contents k = []"
    using key_round [OF p(1-3) ev, of ks] Nil.prems(6) by auto
  show ?case
    using k reader_others [OF p(5) ev] Nil.prems(7) p(4) by simp
next
  case (Cons ev keys)
  have st: "polled t st"
    using Cons.prems(1) by (simp add: reader_def)
  have ev: "key_event la (length (got @ rest)) ev"
    using Cons.prems(5) by simp
  show ?case
  proof (cases "kb_contents (kb_in kb)")
    case Nil
    note p = poll_idle [OF st Cons.prems(2) Nil]
    obtain k ks' where k: "tty_round ev (st, kb, ks) = Inr (st\<lparr>t_mem := ev_mem ev (t_mem st), t_procs := ev_procs ev\<rparr>, kb\<lparr>kb_in := k\<rparr>, ks')"
        "kb_wf k" "kb_contents k = ev_codes ev"
      using key_round [OF p Cons.prems(2) Nil ev, of ks] by auto
    have "reader alone la m0 caller nr t got left out (st\<lparr>t_mem := ev_mem ev (t_mem st), t_procs := ev_procs ev\<rparr>)"
      using Cons.prems(7) by (intro reader_others [OF Cons.prems(1) ev]) simp_all
    from Cons.IH [OF this, of "kb\<lparr>kb_in := k\<rparr>" rest ks'] show ?thesis
      using Cons.prems(3-9) k Nil ev by (simp add: typed_line_buffer key_event_def)
  next
    case (Cons c cs)
    then have c: "kb_contents (kb_in kb) = [c]"
      using Cons.prems(4) by simp
    let ?codes = "ev_codes ev @ concat (map ev_codes keys)"
    have "typed_line (c # ?codes) kb = Some rest"
      using Cons.prems(3) c by simp
    then obtain ko kb1 where tr: "c \<noteq> 0xE0" "c \<noteq> 0xE1" "translate c (kb\<lparr>code_with_E0 := 0\<rparr>) = (ko, kb1)" "\<forall>key. ko = Some key \<longrightarrow> \<not> key_moves key"
      and ty: "case Option.bind ko key_char of None \<Rightarrow> typed_line ?codes kb1 = Some rest
        | Some ch \<Rightarrow> if (ucast ch :: u8) = 10 then ?codes = [] \<and> rest = []
            else printable (ucast ch) \<and> (\<exists>rest'. typed_line ?codes kb1 = Some rest' \<and> rest = ucast ch # rest')"
      by (rule typed_line_Cons) blast
    from poll_key [OF st Cons.prems(2) c tr] obtain st1 k1 where 1: "tty_poll (st, kb) = Inr (st1, kb1\<lparr>kb_in := k1\<rparr>)" "polled t st1" "kb_wf k1"
        "kb_contents k1 = []" "same_request t st st1" "rd_of t st1 = rd_key t st ko"
      by blast
    let ?st2 = "st1\<lparr>t_mem := ev_mem ev (t_mem st1), t_procs := ev_procs ev\<rparr>"
    obtain k ks' where k: "tty_round ev (st, kb, ks) = Inr (?st2, kb1\<lparr>kb_in := k\<rparr>, ks')" "kb_wf k" "kb_contents k = ev_codes ev"
      using key_round [OF 1(1) _ _ ev, of ks] 1(3,4) by auto
    show ?thesis
    proof (cases "Option.bind ko key_char")
      case None
      have "reader alone la m0 caller nr t got left out st1"
        using Cons.prems(1) 1(6) None by (intro reader_same [OF Cons.prems(1) 1(2,5)]) (auto simp: rd_key_def reader_def)
      then have "reader alone la m0 caller nr t got left out ?st2"
        using Cons.prems(7) by (intro reader_others [OF _ ev]) simp_all
      from Cons.IH [OF this, of "kb1\<lparr>kb_in := k\<rparr>" rest ks'] show ?thesis
        using Cons.prems(3-9) k ev ty None by (simp add: typed_line_buffer key_event_def)
    next
      case (Some ch)
      show ?thesis
      proof (cases "(ucast ch :: u8) = 10")
        case True
        then have r: "rest = []" "ev_codes ev = []" "\<forall>e\<in>set (keys @ [tick]). ev_codes e = []"
          using ty Some Cons.prems(6) by auto
        have "reader alone la m0 caller nr t got 0 (out @ [Resume caller nr (int (length got))]) st1"
          using reader_enter [OF Cons.prems(1) 1(2,5,6) Some True] Cons.prems(8) by simp
        then have "reader alone la m0 caller nr t got 0 (out @ [Resume caller nr (int (length got))]) ?st2"
          using Cons.prems(7) ev by (intro reader_others [where n = "length (got @ rest)"]) simp_all
        moreover have "kb_wf (kb_in (kb1\<lparr>kb_in := k\<rparr>))" "kb_contents (kb_in (kb1\<lparr>kb_in := k\<rparr>)) = []"
          using k(2,3) r(2) by simp_all
        moreover have "\<forall>e\<in>set (keys @ [tick]). key_event la (length got) e \<and> ev_codes e = []" "alone \<Longrightarrow> \<forall>e\<in>set (keys @ [tick]). ev_mem e = (\<lambda>m. m)"
          using Cons.prems(5,7) r(1,3) by simp_all
        ultimately show ?thesis
          unfolding append_Cons tty_rounds.simps k(1) res_bind_Inr r(1) append_Nil2 by (rule rounds_after_line)
      next
        case False
        then obtain rest' where r: "printable (ucast ch)" "typed_line ?codes kb1 = Some rest'" "rest = ucast ch # rest'"
          using ty Some by auto
        have "reader alone la m0 caller nr t (got @ [ucast ch]) (left - 1) out st1"
          using reader_char [OF Cons.prems(1) 1(2,5,6) Some r(1)] Cons.prems(8,9) r(3) by simp
        then have "reader alone la m0 caller nr t (got @ [ucast ch]) (left - 1) out ?st2"
          using Cons.prems(7) r(3) by (intro reader_others [OF _ ev]) simp_all
        from Cons.IH [OF this, of "kb1\<lparr>kb_in := k\<rparr>" rest' ks'] show ?thesis
          using Cons.prems(3-9) k ev r by (simp add: typed_line_buffer key_event_def)
      qed
    qed
  qed
qed

lemma read_round:
  assumes p: "polled t st" "kb_wf (kb_in kb)" "kb_contents (kb_in kb) = []"
    and rd: "ev_codes rd = []" "mtype (ev_msg rd) = DEV_READ" "DEVICE (ev_msg rd) = int t" "va2la_defined (ev_procs rd) (PROC_NR (ev_msg rd))"
  shows "\<exists>st'. tty_round rd (st, kb, ks) = Inr (st', kb, ks) \<and>
    reader alone (BUF (ev_msg rd) + ldt_seg_linear (ev_procs rd (PROC_NR (ev_msg rd))) INDEX_LDT_RW) (ev_mem rd (t_mem st))
      (source (ev_msg rd)) (PROC_NR (ev_msg rd)) t [] (CNT (ev_msg rd)) (t_sent st @ [Reply (source (ev_msg rd)) ((ev_msg rd)\<lparr>mtype := SUSPEND_PROC\<rparr>)]) st'"
proof -
  let ?m = "ev_msg rd"
  let ?la = "BUF ?m + ldt_seg_linear (ev_procs rd (PROC_NR ?m)) INDEX_LDT_RW"
  let ?st0 = "st\<lparr>t_mem := ev_mem rd (t_mem st), t_procs := ev_procs rd\<rparr>"
  let ?st1 = "(upd_tty t (\<lambda>p. p\<lparr>tty_caller := source ?m, tty_pro_nr := PROC_NR ?m, tty_read_buf := ?la, tty_bytes_left := CNT ?m, tty_trans_bytes := 0\<rparr>) ?st0)
      \<lparr>t_sent := t_sent st @ [Reply (source ?m) (?m\<lparr>mtype := SUSPEND_PROC, m3i2 := CNT ?m\<rparr>)]\<rparr>"
  have "va2la (ev_procs rd) (PROC_NR ?m) (BUF ?m) = Inr ?la"
    using va2la_linear [OF rd(4)] by simp
  moreover have "tty_of_device ?m = Inr t"
    using rd(3) p(1) by (simp add: tty_of_device_def polled_def)
  ultimately have "tty_dispatch ?m (?st0, ks) = Inr (?st1, ks)"
    using rd(2) by (simp add: tty_dispatch_def tty_do_read_def Let_def upd_tty_def)
  then have "tty_round rd (st, kb, ks) = Inr (?st1, kb, ks)"
    using poll_idle [OF p] rd(1) by (simp add: tty_round_def)
  moreover have "polled t ?st1"
  proof -
    have "tty_inv ?st1"
      using p(1) by (simp add: polled_def tty_inv_upd_tty tty_wf_def tty_inv_def upd_tty_def)
    then show ?thesis
      using p(1) by (simp add: polled_def upd_tty_def tty_contents_def)
  qed
  ultimately show ?thesis
    by (auto simp: reader_def upd_tty_def rd_of_def buffer_holds_def mem_bytes_def Let_def)
qed

text \<open>
  C14. A read request followed by a typed line. The task has handled all input, terminal \<open>t\<close> is the current one, and a request to read from it
  arrives. Then the keys of a line are typed, one scan code after the other (presses, releases and modifier keys), up to Enter; after
  each code the clock wakes the task, while the other processes do what they like outside the reader's buffer. The request suspends the
  caller; in the end the characters of the line are in the caller's buffer, byte for byte, the caller is woken with their number, and
  no input is left. If the other processes leave memory alone, nothing else in memory has changed. The line is shorter than the
  number of bytes asked for. (Keys typed before the request are not delivered: the task takes them from the buffer when there is no request.)
\<close>
theorem tty_read_line:
  assumes start: "tty_inv st" "t < 3" "nr_cur_console st = int t" "\<forall>u < 3. tty_contents (tty_table st u) = []" "kb_wf (kb_in kb)" "kb_contents (kb_in kb) = []"
    and req: "ev_codes rd = []" "mtype (ev_msg rd) = DEV_READ" "DEVICE (ev_msg rd) = int t" "va2la_defined (ev_procs rd) (PROC_NR (ev_msg rd))"
      "int (length line) < CNT (ev_msg rd)" "CNT (ev_msg rd) < 2 ^ 31"
    and la: "la = BUF (ev_msg rd) + ldt_seg_linear (ev_procs rd (PROC_NR (ev_msg rd))) INDEX_LDT_RW"
    and keys: "typed_line (concat (map ev_codes keys)) kb = Some line" "\<forall>ev\<in>set (keys @ [tick]). key_event la (length line) ev" "ev_codes tick = []"
  shows "\<exists>st' kb' ks'. tty_rounds (rd # keys @ [tick]) (st, kb, ks) = Inr (st', kb', ks') \<and> tty_inv st' \<and>
    mem_bytes (t_mem st') la (length line) = line \<and>
    ((\<forall>ev\<in>set (rd # keys @ [tick]). ev_mem ev = (\<lambda>m. m)) \<longrightarrow> t_mem st' = write_bytes la line (t_mem st)) \<and>
    t_sent st' = t_sent st @ [Reply (source (ev_msg rd)) ((ev_msg rd)\<lparr>mtype := SUSPEND_PROC\<rparr>),
      Resume (source (ev_msg rd)) (PROC_NR (ev_msg rd)) (int (length line))] \<and>
    tty_bytes_left (tty_table st' t) = 0 \<and> tty_contents (tty_table st' t) = [] \<and> kb_contents (kb_in kb') = []"
proof -
  define alone where "alone \<longleftrightarrow> (\<forall>ev\<in>set (rd # keys @ [tick]). ev_mem ev = (\<lambda>m. m))"
  have p: "polled t st"
    using start(1-4) by (simp add: polled_def)
  obtain st1 where 1: "tty_round rd (st, kb, ks) = Inr (st1, kb, ks)"
      "reader alone la (ev_mem rd (t_mem st)) (source (ev_msg rd)) (PROC_NR (ev_msg rd)) t [] (CNT (ev_msg rd))
         (t_sent st @ [Reply (source (ev_msg rd)) ((ev_msg rd)\<lparr>mtype := SUSPEND_PROC\<rparr>)]) st1"
    using read_round [OF p start(5,6) req(1-4), of ks alone] unfolding la by blast
  have "length line < 2 ^ 32"
    using req(5,6) by simp
  then obtain st' kb' ks' where 2: "tty_rounds (keys @ [tick]) (st1, kb, ks) = Inr (st', kb', ks')"
      "reader alone la (ev_mem rd (t_mem st)) (source (ev_msg rd)) (PROC_NR (ev_msg rd)) t line 0
         ((t_sent st @ [Reply (source (ev_msg rd)) ((ev_msg rd)\<lparr>mtype := SUSPEND_PROC\<rparr>)]) @ [Resume (source (ev_msg rd)) (PROC_NR (ev_msg rd)) (int (length line))]) st'"
      "kb_contents (kb_in kb') = []"
    using rounds_line [OF 1(2) start(5), of keys line tick ks] start(6) keys req(5) by (auto simp: alone_def)
  then have "tty_rounds (rd # keys @ [tick]) (st, kb, ks) = Inr (st', kb', ks')"
    using 1(1) by simp
  moreover have "tty_inv st'" "tty_contents (tty_table st' t) = []"
    using 2(2) by (simp_all add: reader_def polled_def)
  moreover have "alone \<Longrightarrow> ev_mem rd (t_mem st) = t_mem st"
    by (simp add: alone_def)
  ultimately show ?thesis
    using 2(2,3) unfolding alone_def [symmetric] by (auto simp: reader_def rd_of_def buffer_holds_def Let_def)
qed

definition read_event :: tty_event where
  "read_event = \<lparr>ev_codes = [], ev_mem = \<lambda>m. m, ev_procs = \<lambda>_. zero_process,
     ev_msg = reset_msg\<lparr>mtype := DEV_READ, source := 3, m3i2 := 70, m3i3 := 6, m3i4 := 0, m3p2 := 0x1000\<rparr>\<rparr>"

definition tick_event :: "u8 list \<Rightarrow> tty_event" where
  "tick_event codes = \<lparr>ev_codes = codes, ev_mem = \<lambda>m. m, ev_procs = \<lambda>_. zero_process, ev_msg = reset_msg\<lparr>mtype := HARD_INT\<rparr>\<rparr>"

text \<open>Shift and \<^verbatim>\<open>l\<close>, then \<^verbatim>\<open>s\<close>, then Enter, with the releases.\<close>

definition ls_keys :: "tty_event list" where
  "ls_keys = map (\<lambda>c. tick_event [c]) [0x2A, 0x26, 0xA6, 0xAA, 0x1F, 0x9F, 0x1C]"

text \<open>A press and a release with the key that the map has for the code.\<close>

lemma translate_make:
  assumes "code_with_E0 s = 0" "is_make c" "keymap (unat (c AND 0x7F) * MAP_COLS + (if shift_l s \<noteq> 0 \<or> shift_r s \<noteq> 0 then 1 else 0)) = key" "\<not> is_pad key"
  shows "translate c s = (let s1 = note_key key 1 (s\<lparr>column := (if shift_l s \<noteq> 0 \<or> shift_r s \<noteq> 0 then 1 else 0)\<rparr>) in (Some (key OR modifiers s1), s1))"
  using assms by (auto simp: translate_def Let_def)

lemma translate_break:
  assumes "code_with_E0 s = 0" "\<not> is_make c" "keymap (unat (c AND 0x7F) * MAP_COLS + (if shift_l s \<noteq> 0 \<or> shift_r s \<noteq> 0 then 1 else 0)) = key"
  shows "translate c s = (None, note_key key 0 (s\<lparr>column := (if shift_l s \<noteq> 0 \<or> shift_r s \<noteq> 0 then 1 else 0)\<rparr>))"
  using assms by (auto simp: translate_def Let_def)

lemma ls_keymap:
  "keymap 126 = SHIFT_L" "keymap 127 = SHIFT_L" "keymap 115 = 0x4C" "keymap 114 = 0x6C" "keymap 93 = 0x73" "keymap 84 = ENTER"
  by (simp_all add: keymap_def keymap_table_def)

text \<open>The keyboard while the line is typed: \<open>a\<close> tells whether Shift is down.\<close>

definition kb_ls :: "int \<Rightarrow> nat \<Rightarrow> kb_state" where
  "kb_ls a n = kb0\<lparr>shift_l := a, column := n\<rparr>"

lemma kb_ls_fields:
  "shift_l (kb_ls a n) = a" "shift_r (kb_ls a n) = 0" "code_with_E0 (kb_ls a n) = 0" "kb_ls a n\<lparr>code_with_E0 := 0\<rparr> = kb_ls a n"
  "kb_ls a n\<lparr>column := m\<rparr> = kb_ls a m" "kb_ls a n\<lparr>shift_l := b\<rparr> = kb_ls b n" "modifiers (kb_ls a n) = (if a \<noteq> 0 then FLAG_SHIFT_L else 0)"
  by (simp_all add: kb_ls_def kb0_def init_keyboard_def set_leds_def modifiers_def)

lemma kb0_ls: "kb0 = kb_ls 0 0"
  by (simp add: kb_ls_def kb0_def init_keyboard_def set_leds_def)

lemma ls_translate:
  "translate 0x2A (kb_ls 0 0) = (Some 0x308, kb_ls 1 0)" "translate 0x26 (kb_ls 1 0) = (Some 0x24C, kb_ls 1 (Suc 0))"
  "translate 0xA6 (kb_ls 1 (Suc 0)) = (None, kb_ls 1 (Suc 0))" "translate 0xAA (kb_ls 1 (Suc 0)) = (None, kb_ls 0 (Suc 0))"
  "translate 0x1F (kb_ls 0 (Suc 0)) = (Some 0x73, kb_ls 0 0)" "translate 0x9F (kb_ls 0 0) = (None, kb_ls 0 0)"
  "translate 0x1C (kb_ls 0 0) = (Some ENTER, kb_ls 0 0)"
  using ls_keymap
  by (simp_all add: translate_make translate_break kb_ls_fields is_make_def is_pad_def note_key_def)

theorem tty_read_line_witness:
  "\<exists>st' kb' ks'. tty_rounds (read_event # ls_keys @ [tick_event []]) (ttys0, kb0, cold) = Inr (st', kb', ks') \<and>
     t_mem st' = write_bytes 0x1000 [0x4C, 0x73] (t_mem ttys0) \<and>
     t_sent st' = t_sent ttys0 @ [Reply 3 ((ev_msg read_event)\<lparr>mtype := SUSPEND_PROC\<rparr>), Resume 3 6 2]"
proof -
  have l: "typed_line (concat (map ev_codes ls_keys)) kb0 = Some [0x4C, 0x73]"
    unfolding kb0_ls by (simp add: ls_keys_def tick_event_def ls_translate kb_ls_fields key_moves_def key_char_def printable_def)
  have k: "\<forall>ev\<in>set (ls_keys @ [tick_event []]). key_event 0x1000 (length [0x4C, 0x73 :: u8]) ev" "ev_codes (tick_event []) = []"
      "\<forall>ev\<in>set (read_event # ls_keys @ [tick_event []]). ev_mem ev = (\<lambda>m. m)"
    by (simp_all add: ls_keys_def tick_event_def key_event_def read_event_def)
  have r: "ev_mem read_event = (\<lambda>m. m)" "ev_codes read_event = []" "mtype (ev_msg read_event) = DEV_READ" "DEVICE (ev_msg read_event) = int 0"
      "PROC_NR (ev_msg read_event) = 6" "source (ev_msg read_event) = 3" "CNT (ev_msg read_event) = 70"
      "va2la_defined (ev_procs read_event) (PROC_NR (ev_msg read_event))"
    using va2la_zero by (simp_all add: read_event_def reset_msg_def)
  have la: "0x1000 = BUF (ev_msg read_event) + ldt_seg_linear (ev_procs read_event (PROC_NR (ev_msg read_event))) INDEX_LDT_RW"
    by (simp add: read_event_def reset_msg_def ldt_seg_linear_def zero_process_def zero_descriptor_def descriptor_base_def)
  have n: "int (length [0x4C, 0x73 :: u8]) < CNT (ev_msg read_event)" "CNT (ev_msg read_event) < 2 ^ 31" "\<forall>u < 3. tty_contents (tty_table ttys0 u) = []"
      "(0 :: nat) < 3" "nr_cur_console ttys0 = int 0"
    using r(7) by simp_all
  from tty_read_line [OF ttys0_inv n(4,5,3) kb0_wf r(2-4,8) n(1,2) la l k(1,2), of cold]
  obtain st' kb' ks' where st': "tty_rounds (read_event # ls_keys @ [tick_event []]) (ttys0, kb0, cold) = Inr (st', kb', ks')"
      "t_mem st' = write_bytes 0x1000 [0x4C, 0x73] (t_mem ttys0)"
      "t_sent st' = t_sent ttys0 @ [Reply (source (ev_msg read_event)) ((ev_msg read_event)\<lparr>mtype := SUSPEND_PROC\<rparr>),
        Resume (source (ev_msg read_event)) (PROC_NR (ev_msg read_event)) (int (length [0x4C, 0x73 :: u8]))]"
    using k(3) by blast
  from st'(3) have "t_sent st' = t_sent ttys0 @ [Reply 3 ((ev_msg read_event)\<lparr>mtype := SUSPEND_PROC\<rparr>), Resume 3 6 2]"
    using r(5,6) by simp
  with st'(1,2) show ?thesis by blast
qed




end
