(* ===== verification/Commands.thy ===== *)
theory Commands
  imports Programs Tty_Task
begin

text \<open>
  The commands of \<^verbatim>\<open>command/*.c\<close> and where their output goes: from \<^verbatim>\<open>printf\<close> through the file system, which passes a request for a
  terminal on to the terminal task, to the cells of a console.
\<close>

section \<open>The commands\<close>

fun echo_args :: "'w user_env \<Rightarrow> u32 \<Rightarrow> nat \<Rightarrow> string list \<Rightarrow> 'w \<Rightarrow> 'w res" where
  "echo_args e pbuf i [] w = Inr w"
| "echo_args e pbuf i (arg # args) w =
     res_bind (printf e pbuf ''%s%s'' [StrArg (if i = 1 then [] else '' ''), StrArg arg] w) (echo_args e pbuf (i + 1) args)"

definition echo_main :: "'w user_env \<Rightarrow> u32 \<Rightarrow> string list \<Rightarrow> 'w \<Rightarrow> (int \<times> 'w) res" where
  "echo_main e pbuf argv w =
     res_bind (echo_args e pbuf 1 (tl argv) w) (\<lambda>w1. res_bind (printf e pbuf [chr 0x0A] [] w1) (\<lambda>w2. Inr (0, w2)))"

definition pwd_main :: "'w user_env \<Rightarrow> u32 \<Rightarrow> string list \<Rightarrow> 'w \<Rightarrow> (int \<times> 'w) res" where
  "pwd_main e pbuf argv w = res_bind (printf e pbuf (''/'' @ [chr 0x0A]) [] w) (\<lambda>w1. Inr (0, w1))"

definition dummy_main :: "'w user_env \<Rightarrow> u32 \<Rightarrow> string list \<Rightarrow> 'w \<Rightarrow> (int \<times> 'w) res" where
  "dummy_main e pbuf argv w = res_bind (printf e pbuf (''/'' @ [chr 0x0A]) [] w) (\<lambda>w1. Inr (0, w1))"

text \<open>\<^verbatim>\<open>command/start.asm\<close>: the program ends with the value of \<^verbatim>\<open>main\<close>.\<close>

definition start_c :: "'w user_env \<Rightarrow> (string list \<Rightarrow> 'w \<Rightarrow> (int \<times> 'w) res) \<Rightarrow> string list \<Rightarrow> 'w \<Rightarrow> 'w res" where
  "start_c e main argv w = res_bind (main argv w) (\<lambda>(status, w1). exit_c e status w1)"

text \<open>What \<^verbatim>\<open>echo\<close> is to show before its line feed: its arguments with spaces between them.\<close>

fun echo_text :: "string list \<Rightarrow> u8 list" where
  "echo_text [] = []"
| "echo_text (a # args) = c_bytes a @ concat (map (\<lambda>b. 0x20 # c_bytes b) args)"

text \<open>
  The arguments that fit into the 256 bytes of \<^verbatim>\<open>printf\<close>: with each of them goes the zero that \<^verbatim>\<open>strcpy\<close> stores, and with
  all but the first the space in front.
\<close>

fun echo_fits :: "string list \<Rightarrow> bool" where
  "echo_fits [] \<longleftrightarrow> True"
| "echo_fits (a # args) \<longleftrightarrow> length a \<le> 255 \<and> (\<forall>b\<in>set args. length b \<le> 254)"

text \<open>A longer argument is too much: the zero is stored behind the end of the array.\<close>

lemma printf_overflow:
  assumes "length a = 255"
  shows "printf e buf ''%s%s'' [StrArg '' '', StrArg a] w = Inl (BadAccess ''buf'')"
proof -
  have "vsprintf ''%s%s'' [StrArg '' '', StrArg a] = Inr ('' '' @ a @ [chr 0], length ('' '' @ a))"
    using vsprintf_s [of "''%s''" "'' ''" "[StrArg a]"] vsprintf_s [of "[]" a "[]"]
      store_at_string [of "a @ [chr 0]" "'' ''" "chr 0"] by (simp del: vsprintf.simps(2) store_at_string)
  then show ?thesis
    using assms by (simp add: printf_def del: vsprintf.simps(2))
qed

section \<open>What a program relies on\<close>

text \<open>
  An environment whose descriptor 1 is a console: \<open>ready w\<close> says that it is open, and \<open>displays bs w w'\<close> that between the two states
  the console has shown the bytes \<open>bs\<close>.
\<close>

locale console_service =
  fixes e :: "'w user_env" and ready :: "'w \<Rightarrow> bool" and displays :: "u8 list \<Rightarrow> 'w \<Rightarrow> 'w \<Rightarrow> bool"
  assumes write_shown: "ready w \<Longrightarrow> length bs \<le> 256 \<Longrightarrow> n \<le> length bs \<Longrightarrow>
      \<exists>w'. write_c e 1 buf (int n) (u_poke e buf bs w) = Inr (int n, w') \<and> ready w' \<and> displays (take n bs) w w'"
    and displays_refl: "displays [] w w"
    and displays_append: "displays bs w w1 \<Longrightarrow> displays bs' w1 w2 \<Longrightarrow> displays (bs @ bs') w w2"
begin

lemma printf_shows:
  assumes "vsprintf fmt args = Inr (s, len)" "len \<le> length s" "length s \<le> 256" "ready w"
  shows "\<exists>w'. printf e buf fmt args w = Inr w' \<and> ready w' \<and> displays (c_bytes (take len s)) w w'"
  using write_shown [OF assms(4), of "c_bytes s" len buf] assms by (auto simp: printf_def c_bytes_def assert_c_def take_map)

lemma echo_arg_shows:
  assumes "length a \<le> (if i = 1 then 255 else 254)" "ready w"
  shows "\<exists>w'. printf e buf ''%s%s'' [StrArg (if i = 1 then [] else '' ''), StrArg a] w = Inr w' \<and> ready w' \<and>
    displays ((if i = (1 :: nat) then [] else [0x20]) @ c_bytes a) w w'"
proof -
  let ?p = "if i = 1 then [] else '' ''"
  have "vsprintf ''%s%s'' [StrArg ?p, StrArg a] = Inr (?p @ a @ [chr 0], length (?p @ a))"
    using vsprintf_s [of "''%s''" ?p "[StrArg a]"] vsprintf_s [of "[]" a "[]"] by (simp del: vsprintf.simps(2))
  from printf_shows [OF this _ _ assms(2), of buf]
  have "\<exists>w'. printf e buf ''%s%s'' [StrArg ?p, StrArg a] w = Inr w' \<and> ready w' \<and> displays (c_bytes (?p @ a)) w w'"
    using assms(1) by (auto simp: c_bytes_def split: if_splits)
  moreover have "c_bytes (?p @ a) = (if i = 1 then [] else [0x20]) @ c_bytes a"
    by (simp add: c_bytes_def)
  ultimately show ?thesis
    by simp
qed

lemma echo_rest_shows:
  assumes "\<forall>a\<in>set args. length a \<le> 254" "ready w" "1 < i"
  shows "\<exists>w'. echo_args e buf i args w = Inr w' \<and> ready w' \<and> displays (concat (map (\<lambda>a. 0x20 # c_bytes a) args)) w w'"
  using assms
proof (induction args arbitrary: i w)
  case Nil
  then show ?case
    by (simp add: displays_refl)
next
  case (Cons a args)
  obtain w1 where 1: "printf e buf ''%s%s'' [StrArg (if i = 1 then [] else '' ''), StrArg a] w = Inr w1" "ready w1" "displays (0x20 # c_bytes a) w w1"
    using echo_arg_shows [of a i w buf] Cons.prems by auto
  obtain w2 where "echo_args e buf (i + 1) args w1 = Inr w2" "ready w2" "displays (concat (map (\<lambda>a. 0x20 # c_bytes a) args)) w1 w2"
    using Cons.IH [OF _ 1(2), of "i + 1"] Cons.prems by auto
  then show ?case
    using 1(1) displays_append [OF 1(3)] by fastforce
qed

lemma echo_shows:
  assumes "echo_fits (tl argv)" "ready w"
  shows "\<exists>w'. echo_main e buf argv w = Inr (0, w') \<and> ready w' \<and> displays (echo_text (tl argv) @ [0x0A]) w w'"
proof -
  obtain w1 where 1: "echo_args e buf 1 (tl argv) w = Inr w1" "ready w1" "displays (echo_text (tl argv)) w w1"
  proof (cases "tl argv")
    case Nil
    then show ?thesis
      using that [of w] assms(2) displays_refl by simp
  next
    case (Cons a args)
    obtain w1 where 1: "printf e buf ''%s%s'' [StrArg [], StrArg a] w = Inr w1" "ready w1" "displays (c_bytes a) w w1"
      using echo_arg_shows [of a 1 w buf] assms Cons by auto
    obtain w2 where "echo_args e buf 2 args w1 = Inr w2" "ready w2" "displays (concat (map (\<lambda>a. 0x20 # c_bytes a) args)) w1 w2"
      using echo_rest_shows [OF _ 1(2), of args 2 buf] assms(1) Cons by auto
    then show ?thesis
      using that [of w2] 1(1) Cons displays_append [OF 1(3)] by (simp add: numeral_2_eq_2)
  qed
  have "vsprintf [chr 0x0A] [] = Inr ([chr 0x0A], 1)"
    by (simp add: chr_def char_of_def)
  from printf_shows [OF this _ _ 1(2), of buf]
  obtain w2 where 2: "printf e buf [chr 0x0A] [] w1 = Inr w2" "ready w2" "displays (c_bytes [chr 0x0A]) w1 w2"
    by auto
  have "c_bytes [chr 0x0A] = [0x0A]"
    by (simp add: c_bytes_def byte_chr)
  then show ?thesis
    using 1(1) 2(1,2) displays_append [OF 1(3) 2(3)] by (simp add: echo_main_def)
qed

end

section \<open>The console behind the file system\<close>

text \<open>
  A process with the file system and the terminals, which share the memory of the processes. A message to the file
  system is handled by it; what it forwards to the terminal task is handled there, and the answer goes back. (What is
  forwarded does not depend on the answer, so the first pass of the handler finds it.)
\<close>

record terminal_user =
  x_pid :: int
  x_fs :: fs_state
  x_tty :: tty_state
  x_ks :: kstate
  x_answer :: "MESSAGE option"

definition tty_turn :: "MESSAGE \<Rightarrow> terminal_user \<Rightarrow> (MESSAGE \<times> terminal_user) res" where
  "tty_turn m x =
     res_bind (tty_dispatch (m\<lparr>source := TASK_FS\<rparr>) ((x_tty x)\<lparr>t_mem := fs_mem (x_fs x), t_procs := fs_procs (x_fs x)\<rparr>, x_ks x)) (\<lambda>(st, ks).
     case last (t_sent st) of
       Reply dst ans \<Rightarrow> Inr (ans\<lparr>source := TASK_TTY\<rparr>, x\<lparr>x_tty := st, x_ks := ks\<rparr>)
     | Resume _ _ _ \<Rightarrow> Inl Hang)"

definition to_tty :: "fs_state \<Rightarrow> fs_state \<Rightarrow> MESSAGE option" where
  "to_tty st st' = map_option snd (find (\<lambda>p. fst p = TASK_TTY) (drop (length (fs_sent st)) (fs_sent st')))"

definition fs_turn :: "MESSAGE \<Rightarrow> MESSAGE \<Rightarrow> MESSAGE \<Rightarrow> terminal_user \<Rightarrow> terminal_user res" where
  "fs_turn ans junk m x =
     res_bind (fs_dispatch ans junk m (x_fs x)) (\<lambda>(r, st). Inr (x\<lparr>x_fs := st, x_answer := map_option snd r\<rparr>))"

definition tty_sendrec :: "MESSAGE \<Rightarrow> terminal_user sendrec" where
  "tty_sendrec junk function src_dest m x =
     (if src_dest \<noteq> TASK_FS then Inl (BadAccess ''task'')
      else if function = SEND then
        (let m1 = m\<lparr>source := x_pid x\<rparr>
         in res_bind (fs_turn reset_msg junk m1 x) (\<lambda>x0.
            case to_tty (x_fs x) (x_fs x0) of
              None \<Rightarrow> Inr (0, m, x0)
            | Some d \<Rightarrow> res_bind (tty_turn d x) (\<lambda>(ans, x1). res_bind (fs_turn ans junk m1 x1) (\<lambda>x2. Inr (0, m, x2)))))
      else (case x_answer x of
              None \<Rightarrow> Inl Hang
            | Some m1 \<Rightarrow> Inr (0, m1\<lparr>source := TASK_FS\<rparr>, x\<lparr>x_answer := None\<rparr>)))"

definition x_poke :: "u32 \<Rightarrow> u8 list \<Rightarrow> terminal_user \<Rightarrow> terminal_user" where
  "x_poke a bs x = x\<lparr>x_fs := (x_fs x)\<lparr>fs_mem := write_bytes (a + ldt_seg_linear (fs_procs (x_fs x) (x_pid x)) INDEX_LDT_RW) bs (fs_mem (x_fs x))\<rparr>\<rparr>"

definition x_peek :: "u32 \<Rightarrow> nat \<Rightarrow> terminal_user \<Rightarrow> u8 list" where
  "x_peek a n x = mem_bytes (fs_mem (x_fs x)) (a + ldt_seg_linear (fs_procs (x_fs x) (x_pid x)) INDEX_LDT_RW) n"

definition tty_env :: "MESSAGE \<Rightarrow> (string \<Rightarrow> u32) \<Rightarrow> terminal_user user_env" where
  "tty_env junk lit = \<lparr>u_sendrec = tty_sendrec junk, u_peek = x_peek, u_poke = x_poke,
     u_str = (\<lambda>a x. takeWhile (\<lambda>b. b \<noteq> 0) (x_peek a MAX_PATH x)), u_lit = lit, u_junk = junk\<rparr>"

text \<open>Descriptor 1 of the process is terminal \<open>t\<close>.\<close>

definition stdout_tty :: "int \<Rightarrow> nat \<Rightarrow> fs_state \<Rightarrow> bool" where
  "stdout_tty pid t st \<longleftrightarrow> va2la_defined (fs_procs st) pid \<and>
     (\<exists>k p. open_file pid 1 st = Inr (k, p) \<and> fd_mode (fd_table st k) AND O_RDWR \<noteq> 0 \<and> I_TYPE_MASK AND i_mode (inode_table st p) = I_CHAR_SPECIAL \<and>
        sint (i_start_sect (inode_table st p)) = MAKE_DEV DEV_CHAR_TTY (int t))"

definition on_terminal :: "nat \<Rightarrow> terminal_user \<Rightarrow> bool" where
  "on_terminal t x \<longleftrightarrow> t < 3 \<and> tty_inv (x_tty x) \<and> stdout_tty (x_pid x) t (x_fs x)"

lemma stdout_frame [simp]:
  "stdout_tty pid t (fs_send d m st) = stdout_tty pid t st" "stdout_tty pid t (st\<lparr>fs_mem := mem\<rparr>) = stdout_tty pid t st"
proof -
  have "open_file pid 1 (fs_send d m st) = open_file pid 1 st" "open_file pid 1 (st\<lparr>fs_mem := mem\<rparr>) = open_file pid 1 st"
    by (rule open_file_keeps; simp add: fs_send_def)+
  then show "stdout_tty pid t (fs_send d m st) = stdout_tty pid t st" "stdout_tty pid t (st\<lparr>fs_mem := mem\<rparr>) = stdout_tty pid t st"
    by (simp_all add: stdout_tty_def fs_send_def)
qed

text \<open>Characters on a console, and what the states have to do with each other when the console of terminal \<open>t\<close> has shown them.\<close>

fun con_chars :: "u8 list \<Rightarrow> CONSOLE \<times> screen \<Rightarrow> (CONSOLE \<times> screen) res" where
  "con_chars [] x = Inr x"
| "con_chars (ch # chs) x = res_bind (out_char ch x) (con_chars chs)"

definition console_shows :: "nat \<Rightarrow> u8 list \<Rightarrow> terminal_user \<Rightarrow> terminal_user \<Rightarrow> bool" where
  "console_shows t bs x x' \<longleftrightarrow>
     con_chars bs (console_table (x_tty x) t, scr (x_tty x)) = Inr (console_table (x_tty x') t, scr (x_tty x')) \<and>
     (\<forall>u. u \<noteq> t \<longrightarrow> console_table (x_tty x') u = console_table (x_tty x) u)"

lemma con_chars_append: "con_chars (xs @ ys) x = res_bind (con_chars xs x) (con_chars ys)"
proof (induction xs arbitrary: x)
  case (Cons a xs)
  then show ?case
    by (cases "out_char a x") simp_all
qed simp

lemma out_chars_console:
  "out_chars bs t st =
   res_bind (con_chars bs (console_table st t, scr st)) (\<lambda>(c, s). Inr (st\<lparr>console_table := (console_table st)(t := c), scr := s\<rparr>))"
proof (induction bs arbitrary: st)
  case (Cons b bs)
  show ?case
  proof (cases "out_char b (console_table st t, scr st)")
    case (Inr x)
    then show ?thesis
      by (cases x) (simp add: Cons.IH con_out_def cong: if_cong)
  qed (simp add: con_out_def)
qed simp

lemma tty_dev_numbers:
  assumes "t < 3"
  shows "MAJOR (MAKE_DEV DEV_CHAR_TTY (int t)) = 4" "MINOR (MAKE_DEV DEV_CHAR_TTY (int t)) = int t"
    "driver_of (MAKE_DEV DEV_CHAR_TTY (int t)) = Inr TASK_TTY"
proof -
  have "t = 0 \<or> t = 1 \<or> t = 2"
    using assms by linarith
  then show "MAJOR (MAKE_DEV DEV_CHAR_TTY (int t)) = 4" "MINOR (MAKE_DEV DEV_CHAR_TTY (int t)) = int t"
    by (auto simp: MAKE_DEV_def MAJOR_def MINOR_def)
  then show "driver_of (MAKE_DEV DEV_CHAR_TTY (int t)) = Inr TASK_TTY"
    by (simp add: driver_of_def dd_map_def)
qed

text \<open>The request of \<^verbatim>\<open>write\<close> as the file system gets it, and as it passes it on.\<close>

definition write_msg :: "MESSAGE \<Rightarrow> int \<Rightarrow> u32 \<Rightarrow> int \<Rightarrow> MESSAGE" where
  "write_msg junk pid buf n = junk\<lparr>mtype := WRITE, m3p2 := buf, m3i2 := n, m3i1 := 1, source := pid\<rparr>"

definition dev_msg :: "MESSAGE \<Rightarrow> int \<Rightarrow> u32 \<Rightarrow> int \<Rightarrow> nat \<Rightarrow> MESSAGE" where
  "dev_msg junk pid buf n t = (write_msg junk pid buf n)\<lparr>mtype := DEV_WRITE, m3i4 := int t, m3i3 := pid\<rparr>"

lemma fs_forwards:
  assumes "on_terminal t x" "mtype ans \<noteq> SUSPEND_PROC"
  shows "fs_turn ans junk (write_msg junk (x_pid x) buf n) x =
    Inr (x\<lparr>x_fs := fs_send TASK_TTY (dev_msg junk (x_pid x) buf n t) (x_fs x), x_answer := Some (ans\<lparr>mtype := SYSCALL_RET\<rparr>)\<rparr>)"
proof -
  obtain k p where o: "open_file (x_pid x) 1 (x_fs x) = Inr (k, p)" "fd_mode (fd_table (x_fs x) k) AND O_RDWR \<noteq> 0"
      "I_TYPE_MASK AND i_mode (inode_table (x_fs x) p) = I_CHAR_SPECIAL" "sint (i_start_sect (inode_table (x_fs x) p)) = MAKE_DEV DEV_CHAR_TTY (int t)" "t < 3"
    using assms(1) by (auto simp: on_terminal_def stdout_tty_def)
  then have "do_rdwt (x_pid x) ans (write_msg junk (x_pid x) buf n) (x_fs x) = Inr (CNT ans, ans, fs_send TASK_TTY (dev_msg junk (x_pid x) buf n t) (x_fs x))"
    using tty_dev_numbers [OF o(5)] by (simp add: do_rdwt_def rdwt_char_def write_msg_def dev_msg_def Let_def)
  then have "fs_dispatch ans junk (write_msg junk (x_pid x) buf n) (x_fs x) =
      Inr (Some (x_pid x, ans\<lparr>mtype := SYSCALL_RET\<rparr>), fs_send TASK_TTY (dev_msg junk (x_pid x) buf n t) (x_fs x))"
    using assms(2) by (simp add: fs_dispatch_def fs_handle_def write_msg_def)
  then show ?thesis
    by (simp add: fs_turn_def)
qed

lemma tty_answers:
  assumes "on_terminal t x" "0 \<le> n" "bs = x_peek buf (nat n) x"
  shows "\<exists>c s st. con_chars bs (console_table (x_tty x) t, scr (x_tty x)) = Inr (c, s) \<and>
     tty_turn (dev_msg junk (x_pid x) buf n t) x = Inr ((dev_msg junk (x_pid x) buf n t)\<lparr>source := TASK_TTY\<rparr>, x\<lparr>x_tty := st\<rparr>) \<and>
     tty_inv st \<and> console_table st = (console_table (x_tty x))(t := c) \<and> scr st = s"
proof -
  let ?tty = "(x_tty x)\<lparr>t_mem := fs_mem (x_fs x), t_procs := fs_procs (x_fs x)\<rparr>"
  let ?m = "(dev_msg junk (x_pid x) buf n t)\<lparr>source := TASK_FS\<rparr>"
  have t: "t < 3" "tty_inv ?tty" "va2la_defined (t_procs ?tty) (PROC_NR ?m)"
    using assms(1) by (simp_all add: on_terminal_def stdout_tty_def dev_msg_def write_msg_def tty_inv_def)
  obtain st where st: "out_chars bs t ?tty = Inr st" "tty_inv st"
      "tty_do_write t ?m ?tty = Inr (st\<lparr>t_sent := t_sent ?tty @ [Reply (source ?m) (?m\<lparr>m3i2 := int (nat (CNT ?m))\<rparr>)]\<rparr>)"
    using tty_do_write_ok [OF t(2,1,3)] assms(3) by (auto simp: x_peek_def dev_msg_def write_msg_def)
  then obtain c s where c: "con_chars bs (console_table (x_tty x) t, scr (x_tty x)) = Inr (c, s)"
      "st = ?tty\<lparr>console_table := (console_table ?tty)(t := c), scr := s\<rparr>"
    by (auto simp: out_chars_console elim!: res_bindE)
  let ?st = "st\<lparr>t_sent := t_sent ?tty @ [Reply TASK_FS ?m]\<rparr>"
  have "tty_dispatch ?m (?tty, x_ks x) = Inr (?st, x_ks x)"
    using t(1) st(3) assms(2) by (simp add: tty_dispatch_def tty_of_device_def dev_msg_def write_msg_def)
  then have "tty_turn (dev_msg junk (x_pid x) buf n t) x = Inr ((dev_msg junk (x_pid x) buf n t)\<lparr>source := TASK_TTY\<rparr>, x\<lparr>x_tty := ?st\<rparr>)"
    by (simp add: tty_turn_def)
  moreover have "tty_inv ?st" "console_table ?st = (console_table (x_tty x))(t := c)" "scr ?st = s"
    using st(2) c(2) by simp_all
  ultimately show ?thesis
    using c(1) by blast
qed

lemma write_on_terminal:
  assumes "on_terminal t x" "0 \<le> n" "bs = x_peek buf (nat n) x"
  shows "\<exists>x'. write_c (tty_env junk lit) 1 buf n x = Inr (n, x') \<and> on_terminal t x' \<and> console_shows t bs x x'"
proof -
  let ?d = "dev_msg junk (x_pid x) buf n t"
  obtain c s st where 1: "con_chars bs (console_table (x_tty x) t, scr (x_tty x)) = Inr (c, s)"
      "tty_turn ?d x = Inr (?d\<lparr>source := TASK_TTY\<rparr>, x\<lparr>x_tty := st\<rparr>)"
      "tty_inv st" "console_table st = (console_table (x_tty x))(t := c)" "scr st = s"
    using tty_answers [OF assms] by blast
  let ?x1 = "x\<lparr>x_tty := st\<rparr>"
  have o1: "on_terminal t ?x1"
    using assms(1) 1(3) by (simp add: on_terminal_def)
  let ?x2 = "?x1\<lparr>x_fs := fs_send TASK_TTY ?d (x_fs x), x_answer := Some (?d\<lparr>source := TASK_TTY, mtype := SYSCALL_RET\<rparr>)\<rparr>"
  have f: "fs_turn (?d\<lparr>source := TASK_TTY\<rparr>) junk (write_msg junk (x_pid x) buf n) ?x1 = Inr ?x2"
    using fs_forwards [OF o1, of "?d\<lparr>source := TASK_TTY\<rparr>"] by (simp add: dev_msg_def)
  have "tty_sendrec junk SEND TASK_FS (junk\<lparr>mtype := WRITE, m3p2 := buf, m3i2 := n, m3i1 := 1\<rparr>) x =
      Inr (0, junk\<lparr>mtype := WRITE, m3p2 := buf, m3i2 := n, m3i1 := 1\<rparr>, ?x2)"
    using fs_forwards [OF assms(1), of reset_msg junk buf n] 1(2) f by (simp add: tty_sendrec_def write_msg_def to_tty_def fs_send_def reset_msg_def)
  then have "write_c (tty_env junk lit) 1 buf n x = Inr (n, ?x2\<lparr>x_answer := None\<rparr>)"
    by (simp add: write_c_def request_def send_rec_def tty_env_def tty_sendrec_def dev_msg_def write_msg_def)
  moreover have "on_terminal t (?x2\<lparr>x_answer := None\<rparr>)"
    using o1 by (simp add: on_terminal_def)
  moreover have "console_shows t bs x (?x2\<lparr>x_answer := None\<rparr>)"
    using 1 by (simp add: console_shows_def)
  ultimately show ?thesis
    by blast
qed

interpretation con: console_service "tty_env junk lit" "on_terminal t" "console_shows t" for junk lit t
proof
  fix x :: terminal_user and bs :: "u8 list" and buf and n :: nat
  assume x: "on_terminal t x" "length bs \<le> 256" "n \<le> length bs"
  let ?x = "x_poke buf bs x"
  have "on_terminal t ?x"
    using x(1) by (simp add: on_terminal_def x_poke_def)
  moreover have "take n bs = x_peek buf (nat (int n)) ?x"
    using mem_bytes_write_bytes [of bs] x(2,3) take_mem_bytes [of n "length bs", symmetric] by (simp add: x_peek_def x_poke_def)
  ultimately have "\<exists>x'. write_c (tty_env junk lit) 1 buf (int n) ?x = Inr (int n, x') \<and> on_terminal t x' \<and> console_shows t (take n bs) ?x x'"
    by (intro write_on_terminal) simp_all
  then show "\<exists>x'. write_c (tty_env junk lit) 1 buf (int n) (u_poke (tty_env junk lit) buf bs x) = Inr (int n, x') \<and>
      on_terminal t x' \<and> console_shows t (take n bs) x x'"
    by (simp add: tty_env_def console_shows_def x_poke_def)
next
  fix x x1 x2 :: terminal_user and bs bs'
  show "console_shows t [] x x"
    by (simp add: console_shows_def)
  assume "console_shows t bs x x1" "console_shows t bs' x1 x2"
  then show "console_shows t (bs @ bs') x x2"
    by (simp add: console_shows_def con_chars_append)
qed

lemma con_chars_frame:
  assumes "tty_inv st" "t < 3" "con_chars bs (console_table st t, scr st) = Inr (c, s)" "a \<notin> cells (console_table st t)"
  shows "vmem s a = vmem (scr st) a"
proof -
  have "out_chars bs t st = Inr (st\<lparr>console_table := (console_table st)(t := c), scr := s\<rparr>)"
    using assms(3) by (simp add: out_chars_console)
  then have "only_console t st (st\<lparr>console_table := (console_table st)(t := c), scr := s\<rparr>)"
    using out_chars_inv [OF assms(1,2), of bs] by auto
  then have "\<exists>c' s'. st\<lparr>console_table := (console_table st)(t := c), scr := s\<rparr> = st\<lparr>console_table := (console_table st)(t := c'), scr := s'\<rparr> \<and>
      (\<forall>a. a \<notin> cells (console_table st t) \<longrightarrow> vmem s' a = vmem (scr st) a)"
    by (auto simp: only_console_def)
  then show ?thesis
    using assms(4) by (metis tty_state.select_convs(4) tty_state.surjective tty_state.update_convs(4))
qed

text \<open>
  C15. The output of a command reaches its terminal. With descriptor 1 open on terminal \<open>t\<close>, \<^verbatim>\<open>echo\<close> returns 0 and its
  arguments, separated by spaces and ended by a line feed, have been printed in order on the console of that terminal: \<^verbatim>\<open>printf\<close>
  formats them, \<^verbatim>\<open>write\<close> sends them to the file system, which passes them on to the terminal task. The other consoles
  and the video memory outside the cells of this one are as before. The first argument has at most 255 characters and the
  others at most 254: a longer one overflows the array of \<^verbatim>\<open>printf\<close> (\<open>printf_overflow\<close>).
\<close>
theorem echo_output:
  assumes "on_terminal t x" "echo_fits args"
  shows "\<exists>x' c s. echo_main (tty_env junk lit) buf (name # args) x = Inr (0, x') \<and>
     con_chars (echo_text args @ [0x0A]) (console_table (x_tty x) t, scr (x_tty x)) = Inr (c, s) \<and>
     console_table (x_tty x') = (console_table (x_tty x))(t := c) \<and> scr (x_tty x') = s \<and>
     (\<forall>a. a \<notin> cells (console_table (x_tty x) t) \<longrightarrow> vmem s a = vmem (scr (x_tty x)) a)"
proof -
  obtain x' where x': "echo_main (tty_env junk lit) buf (name # args) x = Inr (0, x')" "console_shows t (echo_text args @ [0x0A]) x x'"
    using con.echo_shows [of "name # args" t x junk lit buf] assms by auto
  then have c: "con_chars (echo_text args @ [0x0A]) (console_table (x_tty x) t, scr (x_tty x)) = Inr (console_table (x_tty x') t, scr (x_tty x'))"
    by (simp add: console_shows_def)
  moreover have "console_table (x_tty x') = (console_table (x_tty x))(t := console_table (x_tty x') t)"
    using x'(2) by (auto simp: console_shows_def)
  moreover have "vmem (scr (x_tty x')) a = vmem (scr (x_tty x)) a" if "a \<notin> cells (console_table (x_tty x) t)" for a
    using con_chars_frame [OF _ _ c that] assms(1) by (simp add: on_terminal_def)
  ultimately show ?thesis
    using x'(1) by blast
qed

definition fs_tty :: fs_state where
  "fs_tty = fs0\<lparr>fs_procs := (\<lambda>_. zero_process)(7 := zero_process\<lparr>filp := (\<lambda>_. None)(1 := Some 1)\<rparr>),
     fd_table := (\<lambda>_. zero_fd)(1 := \<lparr>fd_mode = O_RDWR, fd_pos = 0, fd_cnt = 1, fd_inode = Some 2\<rparr>),
     inode_table := (\<lambda>_. zero_inode)(2 := file0\<lparr>i_mode := I_CHAR_SPECIAL, i_start_sect := 0x401\<rparr>)\<rparr>"

definition user0 :: terminal_user where
  "user0 = \<lparr>x_pid = 7, x_fs = fs_tty, x_tty = ttys0, x_ks = cold, x_answer = None\<rparr>"

lemma user0_on_terminal: "on_terminal 1 user0"
  using ttys0_inv
  by (simp add: on_terminal_def user0_def stdout_tty_def fs_tty_def open_file_def va2la_defined_def MAKE_DEV_def zero_process_def ldt_seg_linear_def descriptor_base_def
      zero_descriptor_def)

theorem echo_output_witness:
  "\<exists>x' c s. echo_main (tty_env reset_msg (\<lambda>_. 0)) 0x8000 [''echo'', ''hello'', ''world''] user0 = Inr (0, x') \<and>
     con_chars (c_bytes ''hello world'' @ [0x0A]) (console_table ttys0 1, scr ttys0) = Inr (c, s) \<and>
     console_table (x_tty x') = (console_table ttys0)(1 := c) \<and> scr (x_tty x') = s"
proof -
  have w: "echo_fits [''hello'', ''world'']" "echo_text [''hello'', ''world''] = c_bytes ''hello world''" "x_tty user0 = ttys0"
    by (simp_all add: c_bytes_def user0_def)
  from echo_output [OF user0_on_terminal w(1), of reset_msg "\<lambda>_. 0" "0x8000" "''echo''"] show ?thesis
    unfolding w(2,3) by blast
qed

end
