(* ===== verification/Spec2Isabelle.thy ===== *)
theory Spec2Isabelle
  imports Kernel Diagnostics Processes Deletion Commands
begin

text \<open>
  BazingaOS is a small microkernel operating system for the 32-bit PC. The kernel proper schedules
  processes and passes messages between them; everything else is a task that receives requests and
  answers them: the terminals (\<^verbatim>\<open>task_tty\<close>), the disk (\<^verbatim>\<open>task_hd\<close>), the file system (\<^verbatim>\<open>task_fs\<close>), the
  memory manager (\<^verbatim>\<open>task_mm\<close>) and the system task (\<^verbatim>\<open>task_sys\<close>). A library turns C calls such as \<^verbatim>\<open>read\<close>
  or \<^verbatim>\<open>fork\<close> into messages. This development models that code function by function and proves what
  the parts promise each other.

  \<^bold>\<open>How the code is modelled.\<close> A C struct is a record with the same fields, a macro an abbreviation, a
  function a definition of the same name, a loop a recursive function (\<^verbatim>\<open>fun\<close>, \<^verbatim>\<open>function\<close> with a measure,
  or \<^verbatim>\<open>partial_function (option)\<close> where the loop may not end, as in the scheduler and the deadlock
  check). State is passed explicitly. A pointer into a table is an index, a null pointer \<open>None\<close>.
  Unsigned integers are words of their width, so that they wrap; \<^verbatim>\<open>int\<close> is unbounded, because its
  overflow is undefined in C, and conversions between the two are written out; the negation in \<^verbatim>\<open>%d\<close>, which a caller can make
  overflow, wraps (\<open>neg32\<close>). A fixed array of characters (\<^verbatim>\<open>p_name\<close>, the buffer of \<^verbatim>\<open>printf\<close>) keeps what stands behind the
  end of its string. Every way not to
  return normally is a value of \<^typ>\<open>kerror\<close>: a failed assertion, a panic, an endless wait, an access out
  of bounds. Interrupt handlers and system calls are atomic steps; an interrupt inside another one
  (\<^verbatim>\<open>k_reenter\<close>) is not modelled.

  \<^bold>\<open>Theories, in the order they build on each other.\<close>

  \<^item> \<^verbatim>\<open>Prelude\<close>: outcomes and their sequencing, words and flag words, linked lists by index, the rule
    collections. \<^verbatim>\<open>Memory\<close> and \<^verbatim>\<open>Buffer\<close>: runs of bytes in linear memory and in a sector buffer.
    \<^verbatim>\<open>Const\<close>, \<^verbatim>\<open>Globals\<close>, \<^verbatim>\<open>Protect\<close>: \<^verbatim>\<open>include/sys/const.h\<close>, \<^verbatim>\<open>type.h\<close>, \<^verbatim>\<open>proc.h\<close>, \<^verbatim>\<open>global.h\<close>,
    \<^verbatim>\<open>protect.h\<close> and the descriptors of \<^verbatim>\<open>kernel/protect.c\<close>.
  \<^item> \<^verbatim>\<open>Sched\<close>, \<^verbatim>\<open>Ipc\<close>: \<^verbatim>\<open>kernel/proc.c\<close>. \<^verbatim>\<open>Ipc_Inv\<close> states the invariant of message passing (queues hold
    exactly the blocked senders, flags agree with the other fields, no cycle of senders) and
    \<^verbatim>\<open>Ipc_Steps\<close> that every operation keeps it. \<^verbatim>\<open>Boot\<close>: \<^verbatim>\<open>init_prot\<close> and \<^verbatim>\<open>kernel_main\<close>. \<^verbatim>\<open>Kernel\<close>: the
    kernel as a step relation (\<open>kstep\<close>: system calls, clock ticks, interrupts) and the states it
    reaches from boot (\<open>kreach\<close>).
  \<^item> \<^verbatim>\<open>Ring\<close>: the contract \<open>drop_queue\<close> of a bounded queue that drops what does not fit, interpreted on
    the keyboard buffer (\<^verbatim>\<open>Keyboard\<close>, \<^verbatim>\<open>kernel/keyboard.c\<close>) and on the buffer of a terminal (\<^verbatim>\<open>Tty\<close>,
    \<^verbatim>\<open>kernel/tty.c\<close>). \<^verbatim>\<open>Console\<close>: \<^verbatim>\<open>kernel/console.c\<close>. \<^verbatim>\<open>Terminals\<close>: the properties of the three. \<^verbatim>\<open>Tty_Task\<close>: the
    loop of \<^verbatim>\<open>task_tty\<close> over sequences of requests, keyboard interrupts and memory changes.
  \<^item> \<^verbatim>\<open>Startup\<close>: \<^verbatim>\<open>kernel/start.c\<close>, \<^verbatim>\<open>kernel/clock.c\<close>, \<^verbatim>\<open>kernel/i8259A.c\<close> with the interrupt lines of \<^verbatim>\<open>lib/kliba.asm\<close>,
    the polling loops of the keyboard and \<^verbatim>\<open>kernel/systask.c\<close>. \<^verbatim>\<open>Diagnostics\<close>: the direct output to the screen, the report of an
    exception, \<^verbatim>\<open>printl\<close>, \<^verbatim>\<open>panic\<close> and \<^verbatim>\<open>assertion_failure\<close>, and that nothing returns from the last two.
  \<^item> \<^verbatim>\<open>Lib\<close>: \<^verbatim>\<open>lib/vsprintf.c\<close>, \<^verbatim>\<open>lib/klib.c\<close>, \<^verbatim>\<open>lib/misc.c\<close>. \<^verbatim>\<open>Mm\<close>: \<^verbatim>\<open>mm/main.c\<close>, \<^verbatim>\<open>mm/forkexit.c\<close>. \<^verbatim>\<open>Exec\<close>:
    \<^verbatim>\<open>mm/exec.c\<close>, \<^verbatim>\<open>lib/exec.c\<close>. \<^verbatim>\<open>Processes\<close>: the properties of process creation, end and loading.
  \<^item> \<^verbatim>\<open>Hd\<close>: \<^verbatim>\<open>kernel/hd.c\<close>. The drive is hardware and an argument of the operations; \<^verbatim>\<open>Disk\<close> states what an
    ATA drive promises as the locale \<open>ata_drive\<close>, proves the transfer loop and the partition scan
    under it, and interprets it on an array of sectors. \<^verbatim>\<open>Storage\<close>: the driver's properties.
  \<^item> \<^verbatim>\<open>Fs\<close>, \<^verbatim>\<open>Fs_Ops\<close>: \<^verbatim>\<open>fs/*.c\<close>. \<^verbatim>\<open>Fs_Lemmas\<close>: sectors, inodes on the disk, transfers of a file. \<^verbatim>\<open>Files\<close>: reading and
    writing, and that the driver implements the sector requests. \<^verbatim>\<open>Fs_Refs\<close>: the invariant of the reference
    counts (\<open>ref_inv\<close>) over the step relation \<open>fs_step\<close> of all requests, with the references that refused unlink requests
    keep. \<^verbatim>\<open>Directory\<close>: searching and extending the root
    directory. \<^verbatim>\<open>Descriptors\<close>: the properties of the two.
  \<^item> \<^verbatim>\<open>Allocation\<close>: the sector map as a set of free sectors, and \<^verbatim>\<open>alloc_smap_bit\<close> on it. \<^verbatim>\<open>Format\<close>: what \<^verbatim>\<open>mkfs\<close> writes and what
    \<^verbatim>\<open>init_fs\<close> makes of it (\<open>fresh_fs\<close>). \<^verbatim>\<open>Creation\<close>: the invariant \<open>fs_ready\<close> of the file system on the disk and in memory, and
    that \<^verbatim>\<open>do_open\<close> of a new name keeps it. \<^verbatim>\<open>Deletion\<close>: the same for \<^verbatim>\<open>do_unlink\<close>.
  \<^item> \<^verbatim>\<open>Syscalls\<close>: the library functions of \<^verbatim>\<open>lib/*.c\<close> that send messages, \<^verbatim>\<open>printf\<close>, and the programs of \<^verbatim>\<open>kernel/main.c\<close>
    (\<^verbatim>\<open>Init\<close>, \<^verbatim>\<open>shabby_shell\<close>, \<^verbatim>\<open>untar\<close>, \<^verbatim>\<open>dump_file_stat\<close>) over an environment that provides \<^verbatim>\<open>sendrec\<close> and the memory of the
    process. \<^verbatim>\<open>Programs\<close>: what a program relies on as the locale \<open>file_service\<close>, interpreted on the request handler of the
    file system, with the properties of the library and the shell. \<^verbatim>\<open>Commands\<close>: \<^verbatim>\<open>command/*.c\<close>; a console to print on is the
    locale \<open>console_service\<close>, interpreted on the file system together with the terminal task.

  \<^bold>\<open>What the groups of properties show.\<close> The kernel keeps its message queues consistent in every
  reachable state, delivers messages unchanged, detects cycles and never hangs in a system
  call, which indexes out of bounds exactly when a process sends to \<^verbatim>\<open>ANY\<close> or \<^verbatim>\<open>INTERRUPT\<close>; the scheduler picks the first runnable process with the most ticks.
  Typed characters reach the reader of the current terminal; a console is never written outside its
  own memory. \<^verbatim>\<open>fork\<close> makes an exact copy, exit status reaches the parent exactly once, different processes
  get disjoint memory, \<^verbatim>\<open>exec\<close> hands over the arguments. What is written to a sector or, with the library's \<^verbatim>\<open>write\<close> and \<^verbatim>\<open>read\<close>, to a file is read
  back. Reference counts in the file system are exact, up to what refused unlink requests keep; a name entered into the directory is found. A blank disk is
  formatted as it should be; a new file takes exactly the lowest free inode number and sectors and is found by its name, and a file
  that is unlinked gives exactly its own back, while every other name is found as before. The terminal task stays consistent for every sequence of requests until one has a type or a terminal
  it does not know, which stops it, and what a command prints appears on its
  terminal. A few properties prove defects of the code, with the inputs that show them; they are listed
  among the findings of the manifest.

  \<^bold>\<open>Bounds and fuel.\<close> No definition uses fuel, except that the endless loop of the shell is its first \<open>n\<close> rounds for any \<open>n\<close>.
  The transfer of a file is proved for requests of at most 255 sectors, because the driver hangs on more
  than 256 (property \<open>hd_read_too_long\<close>), and for files below \<open>2 ^ 21\<close> sectors, where signed and unsigned sector numbers
  agree. A name enters the directory only while there is room in its last sector or a free slot (property
  \<open>directory_insert\<close>), because the code loses it otherwise. A new file system has between \<open>0x8800\<close> sectors, where the archive of
  programs ends, and \<open>2 ^ 26\<close> sectors; the sector map of an existing one has fewer than \<open>2 ^ 18\<close> sectors, so that the arithmetic of the
  C code does not overflow. Unlinking is proved for files of at least 8 sectors that do not end at the end of a byte of the map, and
  without a hole in the directory before a last entry, because the code fails or loses entries otherwise (findings at
  \<^verbatim>\<open>fs/link.c\<close>).

  \<^bold>\<open>Not modelled.\<close> The assembly files (\<^verbatim>\<open>boot/*.asm\<close>, \<^verbatim>\<open>kernel/kernel.asm\<close>, \<^verbatim>\<open>lib/*.asm\<close>) other than
  the interrupt lines and the screen output: processor set-up, interrupt entry and the port and copy routines,
  whose effects are the primitives of the model. Output in the
  middle of a function that goes on, which changes no modelled state: the boot messages of \<^verbatim>\<open>cstart\<close> and \<^verbatim>\<open>kernel_main\<close> and the prints
  of \<^verbatim>\<open>deadlock\<close>. The exchange in which \<^verbatim>\<open>set_superblock\<close> asks the driver for the size of the partition: its result is the
  argument \<open>geo\<close> of \<open>mkfs\<close> and \<open>init_fs\<close>, related to the driver by lemma \<open>geo_reply\<close>, because the message leaves \<^verbatim>\<open>PROC_NR\<close> unset and
  the answer goes to the memory of whatever process it names (finding at \<^verbatim>\<open>fs/main.c\<close>). In the composition of the library with the file system a process runs alone: the scheduling of
  other processes between its requests is the subject of the kernel's properties, and a read from a terminal, which
  suspends the process, is the subject of the terminal's. \<^verbatim>\<open>delay\<close>, \<^verbatim>\<open>testA\<close>, \<^verbatim>\<open>testB\<close> and \<^verbatim>\<open>testC\<close> are empty loops.
\<close>

section \<open>Message passing and scheduling\<close>

text \<open>
  C1. In every state the kernel can reach from boot by system calls, clock ticks and disk
  interrupts, the process table is consistent: each process's sender queue is a null-terminated
  list without repetition that holds exactly the processes blocked sending to it, the flag word
  of every entry agrees with its other fields, no cycle of processes waits to send to each
  other, and the process about to run is not blocked.
\<close>

theorem reachable_consistent:
  assumes "kreach e s"
  shows "\<exists>Q. ipc_inv Q (proc_table s) \<and> runnable (proc_table s) (p_proc_ready s)"
  using kreach_kinv [OF assms] by (auto simp: kinv_def)

theorem reachable_consistent_witness:
  "\<exists>Q. ipc_inv Q (proc_table boot0) \<and> runnable (proc_table boot0) (p_proc_ready boot0)"
  using reachable_consistent [OF boot0_inv(3)] .

text \<open>
  C2. \<^verbatim>\<open>msg_send\<close> never trips one of its assertions when a running process sends a message to
  another process and no cycle would arise. If the receiver is waiting for this sender, the
  message is copied into the receiver's buffer and the receiver becomes runnable; otherwise the
  sender goes to the tail of the receiver's queue, blocks, and another process is scheduled.
  Either way the table stays consistent.
\<close>

theorem msg_send_correct:
  assumes "ipc_inv Q (proc_table s)" "valid_pid me" "valid_pid dst" "me \<noteq> dst"
    "p_flags (proc_table s me) = 0" "m \<noteq> 0" "(dst, me) \<notin> (waits (proc_table s))\<^sup>+"
    "receives_from (proc_table s dst) me \<Longrightarrow> p_flags (proc_table s dst) = RECEIVING"
    "other_can_run (proc_table s) me"
  shows "\<exists>s'. msg_send me dst m s = Inr s' \<and> send_outcome Q me dst m s s'"
  using assms by (intro msg_send_spec) auto

theorem msg_send_correct_witness:
  "\<exists>s'. msg_send 5 0 0x1000 boot0 = Inr s' \<and> send_outcome (\<lambda>_. []) 5 0 0x1000 boot0 s'"
  by (rule msg_send_correct [OF boot0_inv(1)])
    (simp_all add: valid_pid_def boot0_fields boot0_other receives_from_def)

text \<open>
  C3. \<^verbatim>\<open>msg_receive\<close>, called by a running process: a pending interrupt is delivered first; then
  the oldest queued sender (or the named one) is unlinked, its message copied and the sender
  made runnable; with neither, the receiver blocks and another process is scheduled. No
  assertion fails, provided no interrupt is pending when the receiver has to block for a named
  process.
\<close>

theorem msg_receive_correct:
  assumes "ipc_inv Q (proc_table s)" "valid_pid me" "src \<noteq> me"
    "src = ANY \<or> src = INTERRUPT \<or> valid_pid src"
    "p_flags (proc_table s me) = 0" "m \<noteq> 0"
    "valid_pid src \<Longrightarrow> src \<notin> set (Q me) \<Longrightarrow> has_int_msg (proc_table s me) = 0"
    "other_can_run (proc_table s) me"
  shows "\<exists>s'. msg_receive me src m s = Inr s' \<and> recv_outcome Q me src m s s'"
  using assms by (intro msg_receive_spec) auto

theorem msg_receive_correct_witness:
  "\<exists>s'. msg_receive 0 ANY 0x1000 boot0 = Inr s' \<and> recv_outcome (\<lambda>_. []) 0 ANY 0x1000 boot0 s'"
  by (rule msg_receive_correct [OF boot0_inv(1)])
    (simp_all add: valid_pid_def boot0_fields boot0_other)

text \<open>
  C4. A send is refused exactly when it would close a cycle of blocked senders. The refusal is
  not the intended report and panic: the report starts at the caller, whose \<^verbatim>\<open>p_msg\<close> is still
  null, so the assertion inside the report fails.
\<close>

theorem msg_send_deadlock:
  assumes "ipc_inv Q (proc_table s)" "valid_pid me" "valid_pid dst" "me \<noteq> dst"
    "p_flags (proc_table s me) = 0" "(dst, me) \<in> (waits (proc_table s))\<^sup>+"
  shows "msg_send me dst m s = Inl (AssertFail ''p->p_msg'')"
  using assms by (rule msg_send_cycle)

theorem msg_send_deadlock_witness:
  "\<exists>s1. msg_send 5 0 0x1000 boot0 = Inr s1 \<and>
     msg_send 0 5 0x2000 s1 = Inl (AssertFail ''p->p_msg'')"
proof -
  obtain s1 where s1: "msg_send 5 0 0x1000 boot0 = Inr s1"
    and o: "send_outcome (\<lambda>_. []) 5 0 0x1000 boot0 s1"
    using boot0_send by blast
  from o have w: "(5, 0) \<in> waits (proc_table s1)" and f: "p_flags (proc_table s1 0) = 0"
    and i: "ipc_inv ((\<lambda>_. [])(0 := [5])) (proc_table s1)"
    by (auto simp: send_outcome_def receives_from_def boot0_fields valid_pid_def waits_def
        blocked_sending_def ipc_view_def)
  have "msg_send 0 5 0x2000 s1 = Inl (AssertFail ''p->p_msg'')"
    by (rule msg_send_deadlock [OF i]) (use w f in \<open>auto simp: valid_pid_def\<close>)
  with s1 show ?thesis by blast
qed

text \<open>
  C5. A message sent to a process that is not receiving yet arrives unchanged when that process
  next receives: the receiver's buffer holds exactly what the sender's buffer held when the
  send was made, and both processes can run again.
\<close>

theorem rendezvous:
  assumes "ipc_inv Q (proc_table s)" "valid_pid me" "valid_pid dst"
    "p_flags (proc_table s me) = 0" "p_flags (proc_table s dst) = 0"
    "msg_send me dst m s = Inr s1"
    "Q dst = []" "has_int_msg (proc_table s dst) = 0" "m' \<noteq> 0"
  shows "\<exists>s2. msg_receive dst ANY m' s1 = Inr s2 \<and>
    msgmem s2 = (msgmem s)(la_of (proc_table s) dst m' := msgmem s (la_of (proc_table s) me m)) \<and>
    p_flags (proc_table s2 me) = 0 \<and> p_flags (proc_table s2 dst) = 0"
  using assms by (rule send_then_receive)

theorem rendezvous_witness:
  "\<exists>s1 s2. msg_send 5 0 0x1000 boot0 = Inr s1 \<and> msg_receive 0 ANY 0x2000 s1 = Inr s2 \<and>
     p_flags (proc_table s2 5) = 0 \<and> p_flags (proc_table s2 0) = 0"
proof -
  obtain s1 where s1: "msg_send 5 0 0x1000 boot0 = Inr s1"
    using boot0_send by blast
  have "\<exists>s2. msg_receive 0 ANY 0x2000 s1 = Inr s2 \<and>
    msgmem s2 = (msgmem boot0)(la_of (proc_table boot0) 0 0x2000 :=
      msgmem boot0 (la_of (proc_table boot0) 5 0x1000)) \<and>
    p_flags (proc_table s2 5) = 0 \<and> p_flags (proc_table s2 0) = 0"
    by (rule rendezvous [OF boot0_inv(1) _ _ _ _ s1]) (simp_all add: valid_pid_def boot0_fields)
  with s1 show ?thesis by blast
qed

text \<open>
  C6. \<^verbatim>\<open>inform_int\<close> never fails and loses no interrupt: a task blocked on an interrupt or on
  anybody is made runnable with an interrupt message in its buffer; for any other task the
  interrupt is recorded in \<^verbatim>\<open>has_int_msg\<close>.
\<close>

theorem inform_int_correct:
  assumes "ipc_inv Q (proc_table s)" "valid_pid t"
  shows "\<exists>s'. inform_int t s = Inr s' \<and> ipc_inv Q (proc_table s') \<and>
    (if flag RECEIVING (proc_table s t) \<and> p_recvfrom (proc_table s t) \<in> {INTERRUPT, ANY}
     then p_flags (proc_table s' t) = 0 \<and>
       mtype (msgmem s' (p_msg (proc_table s t))) = HARD_INT \<and>
       source (msgmem s' (p_msg (proc_table s t))) = INTERRUPT
     else has_int_msg (proc_table s' t) = 1 \<and> msgmem s' = msgmem s)"
  by (rule inform_int_spec [OF assms]) blast

theorem inform_int_correct_witness:
  "\<exists>s'. inform_int TASK_HD boot0 = Inr s' \<and> has_int_msg (proc_table s' TASK_HD) = 1"
  using inform_int_correct [OF boot0_inv(1), of TASK_HD] boot0_fields [of TASK_HD]
  by (auto simp: valid_pid_def)

text \<open>
  C7. What the system call \<^verbatim>\<open>sys_sendrec\<close> made by the running process can end in, in every reachable state and for
  every function, source or destination and message. It never loops for ever (in a sender queue, in the deadlock check or
  in the scheduler). A SEND to ANY or INTERRUPT passes the assertion about the destination and indexes the process table out
  of bounds; a function other than SEND and RECEIVE ends in the panic; every other call, RECEIVE from ANY or INTERRUPT and
  numbers that are no process included, returns or stops at an assertion, with every index in range. (The running
  process is any but \<^verbatim>\<open>testA\<close>, whose body is an empty loop: it makes no system call, and is what the scheduler always has to run.)
\<close>

theorem sys_sendrec_no_hang:
  assumes "kreach e s" "p_proc_ready s \<noteq> TESTA"
  shows "let r = sys_sendrec f src_dest m (p_proc_ready s) s; special = (src_dest = ANY \<or> src_dest = INTERRUPT)
    in if k_reenter s = 0 \<and> f = SEND \<and> special then r = Inl (BadAccess ''proc_table'')
       else if k_reenter s = 0 \<and> f \<noteq> SEND \<and> f \<noteq> RECEIVE \<and> (special \<or> valid_pid src_dest)
         then r = Inl (Panic ''{sys_sendrec} invalid function'')
       else only_asserts r"
proof -
  note k = kreach_kinv [OF assms(1)]
  show ?thesis
  proof (cases "k_reenter s = 0 \<and> (valid_pid src_dest \<or> src_dest = ANY \<or> src_dest = INTERRUPT)")
    case True
    then show ?thesis
      using only_asserts_sys_sendrec [OF k assms(2), of f src_dest m] sys_sendrec_refused [OF k] by (auto simp: Let_def)
  next
    case False
    then show ?thesis
      by (auto simp: sys_sendrec_def assert_c_def only_asserts_def)
  qed
qed

theorem sys_sendrec_no_hang_witness:
  "only_asserts (sys_sendrec SEND 3 0x1000 (p_proc_ready boot0) boot0) \<and>
   only_asserts (sys_sendrec RECEIVE ANY 0x1000 (p_proc_ready boot0) boot0) \<and>
   sys_sendrec SEND ANY 0x1000 (p_proc_ready boot0) boot0 = Inl (BadAccess ''proc_table'')"
  using sys_sendrec_no_hang [OF boot0_inv(3), of SEND 3 "0x1000"] sys_sendrec_no_hang [OF boot0_inv(3), of RECEIVE ANY "0x1000"]
    sys_sendrec_no_hang [OF boot0_inv(3), of SEND ANY "0x1000"] by (auto simp: Let_def valid_pid_def)

text \<open>
  C8. In every reachable state the clock interrupt handler returns, and leaves a reachable-style
  consistent state whose running process is not blocked.
\<close>

theorem clock_handler_total:
  assumes "kreach e s"
  shows "\<exists>s'. clock_handler s = Inr s' \<and> kinv s' \<and> runnable (proc_table s') (p_proc_ready s')"
  using clock_handler_returns [OF kreach_kinv [OF assms]] kinvD(1) by blast

theorem clock_handler_total_witness:
  "\<exists>s'. clock_handler boot0 = Inr s' \<and> kinv s' \<and> runnable (proc_table s') (p_proc_ready s')"
  using clock_handler_total [OF boot0_inv(3)] .

text \<open>
  C9. \<^verbatim>\<open>schedule\<close> returns exactly when some process can be given the processor (it is not blocked
  and has ticks left or a positive priority). It then selects, among the runnable processes,
  the first of those with the most ticks left, after refilling the ticks if all were used up.
\<close>

theorem schedule_correct:
  "if can_run (proc_table s)
   then \<exists>c. schedule s = Some (s\<lparr>proc_table := sched_table (proc_table s), p_proc_ready := c\<rparr>) \<and>
     sched_choice (sched_table (proc_table s)) c
   else schedule s = None"
  using schedule_returns [of s] schedule_Some_can_run [of s] by (cases "schedule s") auto

text \<open>
  C10. A receive from a named process while an interrupt is pending stops the kernel: the
  receiver is blocked first, and the assertion that no interrupt is pending fails afterwards.
\<close>

theorem recv_pending_interrupt:
  assumes "ipc_inv Q (proc_table s)" "valid_pid me" "valid_pid src" "src \<noteq> me"
    "src \<notin> set (Q me)" "p_flags (proc_table s me) = 0" "m \<noteq> 0"
    "has_int_msg (proc_table s me) \<noteq> 0" "other_can_run (proc_table s) me"
  shows "msg_receive me src m s = Inl (AssertFail ''has_int_msg == 0'')"
  using assms by (rule recv_block_pending)

theorem recv_pending_interrupt_witness:
  "\<exists>s'. inform_int TASK_HD boot0 = Inr s' \<and>
     msg_receive TASK_HD TASK_FS 0x1000 s' = Inl (AssertFail ''has_int_msg == 0'')"
proof -
  have hd: "valid_pid TASK_HD" by (simp add: valid_pid_def)
  obtain s' where s': "inform_int TASK_HD boot0 = Inr s'" "ipc_inv (\<lambda>_. []) (proc_table s')"
      "runnable (proc_table s') TASK_HD" "has_int_msg (proc_table s' TASK_HD) = 1"
    by (rule inform_int_spec [OF boot0_inv(1) hd])
      (use boot0_fields [OF hd] hd in \<open>auto simp: runnable_def\<close>)
  have "kinv s'"
    using inform_int_kinv [OF s'(1) boot0_inv(2) hd] .
  then have "msg_receive TASK_HD TASK_FS 0x1000 s' = Inl (AssertFail ''has_int_msg == 0'')"
    by (intro recv_pending_interrupt [OF s'(2)])
      (use s'(3,4) in \<open>auto simp: valid_pid_def runnable_def intro!: kinv_other_can_run\<close>)
  with s'(1) show ?thesis by blast
qed

section \<open>Start-up\<close>

text \<open>
  C11. \<^verbatim>\<open>kernel_main\<close> builds the process table: the five tasks and the two native processes are
  runnable with their name, entry point, priority and stack, all other entries are free, and
  the first task is the one to be started.
\<close>

theorem kernel_main_correct:
  assumes "b_kmap e \<noteq> None"
  shows "\<exists>s'. kernel_main e s = Some s' \<and> p_proc_ready s' = 0 \<and> ticks s' = 0 \<and>
    (\<forall>i. 0 \<le> i \<and> i < 7 \<longrightarrow> runnable (proc_table s') i \<and>
       c_name (p_name (proc_table s' i)) = task_name (boot_task i) \<and>
       eip (regs (proc_table s' i)) = b_addr e (initial_eip (boot_task i)) \<and>
       esp (regs (proc_table s' i)) = boot_sp e i \<and>
       priority (proc_table s' i) = (if i < NR_TASKS then 15 else 5)) \<and>
    (\<forall>i. 7 \<le> i \<and> valid_pid i \<longrightarrow> p_flags (proc_table s' i) = FREE_SLOT)"
  by (rule kernel_main_spec [OF assms, of s]) (auto simp: valid_pid_def booted_def runnable_def)

theorem kernel_main_correct_witness:
  "\<exists>s'. kernel_main env0 cold = Some s' \<and> c_name (p_name (proc_table s' 5)) = ''INIT''"
  using kernel_main_correct [OF env0_simps(1), of cold]
  by (auto simp: boot_task_def user_procs_def)

text \<open>
  The stacks of the processes started at boot lie inside \<^verbatim>\<open>task_stack\<close> and do not overlap:
  process \<open>i\<close> owns the \<^verbatim>\<open>STACK_SIZE\<close> bytes below its initial stack pointer, and the last stack
  ends exactly at the start of the array.
\<close>

theorem boot_stacks_disjoint:
  assumes "uint (b_stack e) + 7 * 0xA000 < 2 ^ 32" "0 \<le> i" "i < j" "j < 7"
  shows "uint (boot_sp e j) + 0xA000 \<le> uint (boot_sp e i) \<and>
    uint (boot_sp e i) \<le> uint (b_stack e) + 7 * 0xA000 \<and>
    uint (b_stack e) \<le> uint (boot_sp e j) - 0xA000"
  using assms by (simp add: boot_sp_uint)

theorem boot_stacks_disjoint_witness:
  "uint (boot_sp env0 6) + 0xA000 \<le> uint (boot_sp env0 5)"
  using boot_stacks_disjoint [of env0 5 6] by (simp add: env0_def)

text \<open>
  C12. After \<^verbatim>\<open>init_prot\<close> every interrupt vector of the table leads to its own handler, and a
  program in ring 3 can raise exactly the breakpoint, overflow and system call vectors.
\<close>

theorem idt_correct:
  assumes "\<forall>v. gate_attr (idt s v) = 0"
  shows "(\<forall>(v, h, p) \<in> set idt_entries.
      gate_offset (idt (init_prot addr ldts_addr tss_addr s) v) = addr h) \<and>
    (\<forall>v. user_gate (idt (init_prot addr ldts_addr tss_addr s) v) \<longleftrightarrow> v \<in> {0x3, 0x4, 0x90})"
  using assms by (simp add: init_prot_idt idt_offsets idt_user_gates)

theorem idt_correct_witness:
  "user_gate (idt (init_prot (\<lambda>_. 0x30400) (\<lambda>_. 0) 0 blank_prot) 0x90) \<and>
   \<not> user_gate (idt (init_prot (\<lambda>_. 0x30400) (\<lambda>_. 0) 0 blank_prot) 0x20)"
  using idt_correct [of blank_prot "\<lambda>_. 0x30400" "\<lambda>_. 0" 0] by (simp add: blank_prot_def)

text \<open>
  Packing a segment base and a 20-bit limit into a descriptor and reading them back with
  \<^verbatim>\<open>seg2addr\<close>, \<^verbatim>\<open>ldt_seg_linear\<close> and the macro \<^verbatim>\<open>reassembly\<close> gives the same base and limit.
\<close>

theorem descriptor_roundtrip:
  assumes "limit < 2 ^ 20"
  shows "descriptor_base (init_descriptor d base limit attr) = base \<and>
    reassembly (ucast (base_high (init_descriptor d base limit attr))) 24
      (ucast (base_mid (init_descriptor d base limit attr))) 16
      (ucast (base_low (init_descriptor d base limit attr))) = base \<and>
    descriptor_limit (init_descriptor d base limit attr) = limit"
  using descriptor_limit_init [OF assms] by (simp add: reassembly_base)

theorem descriptor_roundtrip_witness:
  "descriptor_base (init_descriptor zero_descriptor 0xA00000 0xFF 0xC0F2) = 0xA00000 \<and>
   descriptor_limit (init_descriptor zero_descriptor 0xA00000 0xFF 0xC0F2) = 0xFF"
  using descriptor_roundtrip [of "0xFF" zero_descriptor "0xA00000" "0xC0F2"] by simp

end
